(* ===== verification/Pcaa_Prelude.thy ===== *)
theory Pcaa_Prelude
  imports Main "HOL-Library.Word"
begin

text \<open>
  Shared vocabulary of the development: the names of the machine types, option-valued loops, the
  running first-minimum of the min-plus loops, and little-endian byte runs with their
  read-over-write laws.

  \<^item> \<open>byte\<close>, \<open>u16\<close>, \<open>u32\<close>, \<open>u64\<close> are HOL words; \<open>size_t\<close> is 64 bits wide, as on the RV64 and
    x86-64 targets of the repository. An \<open>int32_t\<close> cost is an \<open>int\<close>; every one that reaches the
    model is read from a 32-bit word or stored after the range test of \<open>cost_math.cpp\<close>.
  \<^item> \<open>fold_option\<close> is a \<open>for\<close> loop with an early \<open>return false\<close>.
  \<^item> \<open>min_step\<close> is the loop body shared by all the reductions of the repository, and
    \<open>first_min\<close> the specification it computes.
  \<^item> \<open>put_le\<close>, \<open>get_le\<close> and \<open>bytes_le\<close> are the byte loops behind the codec and the memory.
\<close>

unbundle bit_operations_syntax

type_synonym byte = "8 word"
type_synonym u16 = "16 word"
type_synonym u32 = "32 word"
type_synonym u64 = "64 word"

named_theorems byte_simps \<open>read-over-write laws of little-endian byte runs\<close>

section \<open>Loops that can fail\<close>

fun fold_option :: "('x \<Rightarrow> 's \<Rightarrow> 's option) \<Rightarrow> 'x list \<Rightarrow> 's \<Rightarrow> 's option" where
  "fold_option f [] s = Some s"
| "fold_option f (x # xs) s = (case f x s of None \<Rightarrow> None | Some s' \<Rightarrow> fold_option f xs s')"

lemma fold_option_append:
  "fold_option f (xs @ ys) s = Option.bind (fold_option f xs s) (fold_option f ys)"
  by (induction xs arbitrary: s) (auto split: option.splits)

lemma fold_option_cong:
  "(\<And>x s. x \<in> set xs \<Longrightarrow> f x s = g x s) \<Longrightarrow> fold_option f xs s = fold_option g xs s"
  by (induction xs arbitrary: s) (auto split: option.splits)

lemma fold_option_invariant:
  assumes "fold_option f xs s = Some s'" and "P s"
    and "\<And>x t t'. x \<in> set xs \<Longrightarrow> P t \<Longrightarrow> f x t = Some t' \<Longrightarrow> P t'"
  shows "P s'"
  using assms
proof (induction xs arbitrary: s)
  case Nil
  then show ?case by simp
next
  case (Cons x xs)
  then obtain t where "f x s = Some t" and "fold_option f xs t = Some s'"
    by (auto split: option.splits)
  moreover from this Cons.prems have "P t" by (meson list.set_intros(1))
  ultimately show ?case using Cons.IH Cons.prems(3) by (meson list.set_intros(2))
qed

lemma fold_option_pure: "fold_option (\<lambda>x s. Some (g x s)) xs s = Some (fold g xs s)"
  by (induction xs arbitrary: s) auto

lemma fold_option_none:
  assumes "x \<in> set xs" and "\<And>s. f x s = None"
  shows "fold_option f xs s = None"
  using assms(1)
proof (induction xs arbitrary: s)
  case (Cons y ys)
  then show ?case using assms(2) by (auto split: option.splits)
qed simp

section \<open>Loops that update an array entry by entry\<close>

lemma length_fold_update [simp]: "length (fold (\<lambda>x u. u[g x := h x (u ! g x)]) xs u) = length u"
  by (induction xs arbitrary: u) auto

lemma fold_update_miss:
  "i \<notin> g ` set xs \<Longrightarrow> fold (\<lambda>x u. u[g x := h x (u ! g x)]) xs u ! i = u ! i"
  by (induction xs arbitrary: u) auto

lemma fold_update_hit:
  assumes "distinct xs" and "inj_on g (set xs)" and "x \<in> set xs" and "g x < length u"
  shows "fold (\<lambda>x u. u[g x := h x (u ! g x)]) xs u ! g x = h x (u ! g x)"
  using assms
proof (induction xs arbitrary: u)
  case (Cons y xs)
  show ?case
  proof (cases "x = y")
    case True
    then have "g x \<notin> g ` set xs" using Cons.prems(1,2) by (auto simp: inj_on_def)
    then show ?thesis using True Cons.prems(4) fold_update_miss[of "g x" g xs h] by simp
  next
    case False
    then have "g y \<noteq> g x" using Cons.prems(2,3) by (auto simp: inj_on_def)
    then show ?thesis using False Cons by (auto simp: inj_on_def)
  qed
qed simp

lemma fold_update_range:
  "i < length u \<Longrightarrow> fold (\<lambda>v u. u[v := h v (u ! v)]) [0..<d] u ! i = (if i < d then h i (u ! i) else u ! i)"
  using fold_update_hit[of "[0..<d]" id i u h] fold_update_miss[of i id "[0..<d]" h u] by auto

section \<open>The running first minimum\<close>

text \<open>
  The loop body \<open>if (i == 0 || value < minimum) { minimum = value; argmin = i; }\<close> and the
  specification of the whole loop: the least value with the least index that attains it.
\<close>

definition min_step :: "nat \<Rightarrow> int \<Rightarrow> int \<times> nat \<Rightarrow> int \<times> nat" where
  "min_step i v best = (if i = 0 \<or> v < fst best then (v, i) else best)"

definition first_min :: "int list \<Rightarrow> int \<times> nat" where
  "first_min xs = (Min (set xs), length (takeWhile (\<lambda>x. x \<noteq> Min (set xs)) xs))"

lemma takeWhile_hit_snoc:
  "m \<in> set xs \<Longrightarrow> takeWhile (\<lambda>x. x \<noteq> m) (xs @ [v]) = takeWhile (\<lambda>x. x \<noteq> m) xs"
  by (induction xs) auto

lemma takeWhile_miss_snoc:
  "m \<notin> set xs \<Longrightarrow> takeWhile (\<lambda>x. x \<noteq> m) (xs @ [m]) = xs"
  by (induction xs) auto

lemma takeWhile_hit_less:
  "m \<in> set xs \<Longrightarrow> length (takeWhile (\<lambda>x. x \<noteq> m) xs) < length xs"
  by (induction xs) auto

lemma first_min_snoc:
  assumes "xs \<noteq> []"
  shows "first_min (xs @ [v]) = min_step (length xs) v (first_min xs)"
proof -
  define m where "m = Min (set xs)"
  have fm: "first_min xs = (m, length (takeWhile (\<lambda>x. x \<noteq> m) xs))"
    by (simp add: first_min_def m_def)
  have "Min (set (xs @ [v])) = min v m" using assms by (simp add: m_def)
  then have fm': "first_min (xs @ [v]) =
      (min v m, length (takeWhile (\<lambda>x. x \<noteq> min v m) (xs @ [v])))"
    unfolding first_min_def by (rule arg_cong)
  have mem: "m \<in> set xs" and least: "\<forall>x \<in> set xs. m \<le> x"
    using assms by (auto simp: m_def)
  show ?thesis
  proof (cases "v < m")
    case True
    then have "min v m = v" and "v \<notin> set xs" using least by auto
    with True assms show ?thesis by (simp add: fm fm' min_step_def takeWhile_miss_snoc)
  next
    case False
    then have "min v m = m" by simp
    with False assms mem show ?thesis by (simp add: fm fm' min_step_def takeWhile_hit_snoc)
  qed
qed

lemma min_step_fold:
  assumes "xs \<noteq> []"
  shows "fold (\<lambda>i. min_step i (xs ! i)) [0..<length xs] best = first_min xs"
  using assms
proof (induction xs rule: rev_induct)
  case Nil
  then show ?case by simp
next
  case (snoc v xs)
  have eq: "fold (\<lambda>i. min_step i ((xs @ [v]) ! i)) [0..<length xs] best =
      fold (\<lambda>i. min_step i (xs ! i)) [0..<length xs] best"
    by (rule fold_cong) (auto simp: nth_append)
  show ?case
  proof (cases "xs = []")
    case True
    then show ?thesis by (simp add: min_step_def first_min_def)
  next
    case False
    with snoc.IH eq first_min_snoc[of xs v] show ?thesis by simp
  qed
qed

lemma first_min_index:
  assumes "xs \<noteq> []"
  shows "snd (first_min xs) < length xs" and "xs ! snd (first_min xs) = fst (first_min xs)"
    and "j < snd (first_min xs) \<Longrightarrow> fst (first_min xs) < xs ! j"
proof -
  let ?m = "Min (set xs)"
  have "?m \<in> set xs" using assms by simp
  then have "length (takeWhile (\<lambda>x. x \<noteq> ?m) xs) < length xs"
    by (rule takeWhile_hit_less)
  then show lt: "snd (first_min xs) < length xs" by (simp add: first_min_def)
  show "xs ! snd (first_min xs) = fst (first_min xs)"
    using lt nth_length_takeWhile[of "\<lambda>x. x \<noteq> ?m" xs] by (simp add: first_min_def)
  assume "j < snd (first_min xs)"
  then have j: "j < length (takeWhile (\<lambda>x. x \<noteq> ?m) xs)" by (simp add: first_min_def)
  then have at: "takeWhile (\<lambda>x. x \<noteq> ?m) xs ! j = xs ! j" by (rule takeWhile_nth)
  have "takeWhile (\<lambda>x. x \<noteq> ?m) xs ! j \<in> set (takeWhile (\<lambda>x. x \<noteq> ?m) xs)"
    using j by (rule nth_mem)
  then have ne: "xs ! j \<noteq> ?m" and mem: "xs ! j \<in> set xs"
    unfolding at by (auto dest: set_takeWhileD)
  from mem have "?m \<le> xs ! j" by (intro Min_le) auto
  with ne show "fst (first_min xs) < xs ! j" by (simp only: first_min_def fst_conv)
qed

lemma first_min_le: "x \<in> set xs \<Longrightarrow> fst (first_min xs) \<le> x"
  by (simp add: first_min_def)

lemma first_min_upt:
  assumes "0 < d"
  shows "snd (first_min (map f [0..<d])) < d"
    and "f (snd (first_min (map f [0..<d]))) = fst (first_min (map f [0..<d]))"
    and "v < d \<Longrightarrow> fst (first_min (map f [0..<d])) \<le> f v"
proof -
  let ?xs = "map f [0..<d]"
  have ne: "?xs \<noteq> []" using assms by simp
  show lt: "snd (first_min ?xs) < d" using first_min_index(1)[OF ne] by simp
  then show "f (snd (first_min ?xs)) = fst (first_min ?xs)" using first_min_index(2)[OF ne] by simp
  show "v < d \<Longrightarrow> fst (first_min ?xs) \<le> f v" by (intro first_min_le) auto
qed

section \<open>Little-endian byte runs\<close>

definition bytes_le :: "nat \<Rightarrow> 'a::len word \<Rightarrow> byte list" where
  "bytes_le n v = map (\<lambda>i. ucast (drop_bit (8 * i) v)) [0..<n]"

definition put_le :: "nat \<Rightarrow> byte list \<Rightarrow> nat \<Rightarrow> 'a::len word \<Rightarrow> byte list" where
  "put_le n bs off v = fold (\<lambda>i b. b[off + i := ucast (drop_bit (8 * i) v)]) [0..<n] bs"

definition get_le :: "nat \<Rightarrow> byte list \<Rightarrow> nat \<Rightarrow> 'a::len word" where
  "get_le n bs off = fold (\<lambda>i v. v OR push_bit (8 * i) (ucast (bs ! (off + i)))) [0..<n] 0"

lemma length_bytes_le [simp]: "length (bytes_le n v) = n"
  by (simp add: bytes_le_def)

lemma nth_bytes_le [simp]: "i < n \<Longrightarrow> bytes_le n v ! i = ucast (drop_bit (8 * i) v)"
  by (simp add: bytes_le_def)

lemma length_put_le [simp]: "length (put_le n bs off v) = length bs"
  unfolding put_le_def by (induction n) simp_all

lemma nth_put_le:
  "j < length bs \<Longrightarrow> put_le n bs off v ! j =
     (if off \<le> j \<and> j < off + n then ucast (drop_bit (8 * (j - off)) v) else bs ! j)"
proof (induction n)
  case 0
  then show ?case by (auto simp: put_le_def)
next
  case (Suc n)
  have "put_le (Suc n) bs off v = (put_le n bs off v)[off + n := ucast (drop_bit (8 * n) v)]"
    by (simp add: put_le_def)
  with Suc show ?case by (cases "j = off + n") (auto simp: nth_list_update)
qed

lemma bit_get_le:
  "bit (get_le n bs off :: 'a::len word) k \<longleftrightarrow>
     k < 8 * n \<and> k < LENGTH('a) \<and> bit (bs ! (off + k div 8)) (k mod 8)"
proof (induction n)
  case 0
  then show ?case by (simp add: get_le_def)
next
  case (Suc n)
  have step: "get_le (Suc n) bs off =
      (get_le n bs off OR push_bit (8 * n) (ucast (bs ! (off + n))) :: 'a word)"
    by (simp add: get_le_def)
  have byte: "\<not> bit (bs ! (off + n)) (k - 8 * n)" if "8 * n + 8 \<le> k" for k
    using that by (intro notI) (drule bit_imp_le_length, simp)
  consider "k < 8 * n" | "8 * n \<le> k" "k < 8 * Suc n" | "8 * Suc n \<le> k" by linarith
  then show ?case
  proof cases
    case 1
    then show ?thesis using Suc by (auto simp: step bit_simps)
  next
    case 2
    then obtain r where "k = 8 * n + r" and "r < 8"
      by (metis add_less_cancel_left le_Suc_ex mult_Suc_right add.commute)
    with Suc show ?thesis by (auto simp: step bit_simps)
  next
    case 3
    with Suc byte[of k] show ?thesis by (auto simp: step bit_simps)
  qed
qed

lemma get_le_bytes:
  assumes "LENGTH('a::len) = 8 * n" and "\<And>i. i < n \<Longrightarrow> bs ! (off + i) = ucast (drop_bit (8 * i) v)"
  shows "get_le n bs off = (v :: 'a word)"
proof (rule bit_word_eqI)
  fix k assume k: "k < LENGTH('a)"
  then have i: "k div 8 < n" using assms(1) by simp
  have split: "8 * (k div 8) + k mod 8 = k" by presburger
  show "bit (get_le n bs off :: 'a word) k = bit v k"
    using k assms(1) split by (simp add: bit_get_le assms(2)[OF i] bit_simps)
qed

lemma get_put_le_same [byte_simps]:
  "LENGTH('a::len) = 8 * n \<Longrightarrow> off + n \<le> length bs \<Longrightarrow>
   get_le n (put_le n bs off (v :: 'a word)) off = v"
  by (rule get_le_bytes) (auto simp: nth_put_le)

lemma get_put_le_other [byte_simps]:
  assumes "off' + n' \<le> off \<or> off + n \<le> off'" and "off' + n' \<le> length bs"
  shows "get_le n' (put_le n bs off v) off' = get_le n' bs off'"
proof -
  have "put_le n bs off v ! (off' + i) = bs ! (off' + i)" if "i < n'" for i
    using that assms by (subst nth_put_le) auto
  then have "fold (\<lambda>i w. w OR push_bit (8 * i) (ucast (put_le n bs off v ! (off' + i)))) [0..<n'] 0 =
      fold (\<lambda>i w. w OR push_bit (8 * i) (ucast (bs ! (off' + i)))) [0..<n'] 0"
    by (intro fold_cong) auto
  then show ?thesis by (simp add: get_le_def)
qed

lemma get_le_bytes_le [byte_simps]:
  "LENGTH('a::len) = 8 * n \<Longrightarrow> get_le n (bytes_le n (v :: 'a word)) 0 = v"
  by (rule get_le_bytes) auto

lemma bytes_le_get_le:
  assumes "LENGTH('a::len) = 8 * n" and "off + n \<le> length bs"
  shows "bytes_le n (get_le n bs off :: 'a word) = take n (drop off bs)"
proof (rule nth_equalityI)
  show "length (bytes_le n (get_le n bs off :: 'a word)) = length (take n (drop off bs))"
    using assms by simp
  fix i assume "i < length (bytes_le n (get_le n bs off :: 'a word))"
  then have i: "i < n" by simp
  have "ucast (drop_bit (8 * i) (get_le n bs off :: 'a word)) = bs ! (off + i)"
  proof (rule bit_word_eqI)
    fix k assume "k < LENGTH(8)"
    then have k: "k < 8" by simp
    then have "(8 * i + k) div 8 = i" and "(8 * i + k) mod 8 = k" and "8 * i + k < 8 * n"
      using i by auto
    then show "bit (ucast (drop_bit (8 * i) (get_le n bs off :: 'a word)) :: byte) k =
        bit (bs ! (off + i)) k"
      using k assms(1) by (simp add: bit_simps bit_get_le add.commute)
  qed
  then show "bytes_le n (get_le n bs off :: 'a word) ! i = take n (drop off bs) ! i"
    using i assms by simp
qed

section \<open>64-bit arithmetic without wrap-around\<close>

lemma u64_less: "unat (x::u64) < 18446744073709551616"
  using unsigned_less[of x, where 'a = nat] by simp

lemma u64_add_exact:
  "unat (x::u64) + unat y < 18446744073709551616 \<Longrightarrow> unat (x + y) = unat x + unat y"
  by (rule unat_add_lem[THEN iffD1]) simp

lemma u64_mult_exact:
  "unat (x::u64) * unat y < 18446744073709551616 \<Longrightarrow> unat (x * y) = unat x * unat y"
  by (rule unat_mult_lem[THEN iffD1]) simp

lemma u64_max_minus: "unat (18446744073709551615 - x :: u64) = 18446744073709551615 - unat x"
  using u64_less[of x] by (subst unat_sub) (simp_all add: word_le_nat_alt)

end
