(* ===== verification/Cost_Math.thy ===== *)
theory Cost_Math
  imports Pcaa_Prelude
begin

text \<open>
  The cost arithmetic of \<open>accelerator/src/cost_math.cpp\<close> and the constants of
  \<open>accelerator/include/accel_protocol.h\<close>. An \<open>int32_t *result\<close> is an \<open>int option\<close>: \<open>None\<close> is
  the null pointer, \<open>Some v\<close> a pointer to a cell that holds \<open>v\<close>; the functions return the status
  and the cell afterwards. \<open>cost_add\<close> names the addition with its failure as \<open>None\<close>, which the
  device and the kernels use, and \<open>cost_abs\<close> reads a cost as an element of the extended integers,
  the abstract domain in which \<open>ACCEL_INF\<close> is infinity.
\<close>

section \<open>Constants and the two additions\<close>

definition INT32_MIN :: int where
  "INT32_MIN = - 2147483648"

definition INT32_MAX :: int where
  "INT32_MAX = 2147483647"

definition ACCEL_INF :: int where
  "ACCEL_INF = INT32_MAX div 4"

definition accel_cost_add_checked :: "int \<Rightarrow> int \<Rightarrow> int option \<Rightarrow> int \<times> int option" where
  "accel_cost_add_checked left right result =
     (case result of
        None \<Rightarrow> (- 1, None)
      | Some old \<Rightarrow>
          if left > ACCEL_INF \<or> right > ACCEL_INF then (- 1, Some old)
          else if left = ACCEL_INF \<or> right = ACCEL_INF then (0, Some ACCEL_INF)
          else let sum = left + right in
            if sum \<ge> ACCEL_INF then (0, Some ACCEL_INF)
            else if sum < INT32_MIN then (- 1, Some old)
            else (0, Some sum))"

definition accel_cost_add :: "int \<Rightarrow> int \<Rightarrow> int" where
  "accel_cost_add left right =
     (case snd (accel_cost_add_checked left right (Some INT32_MIN)) of
        Some result \<Rightarrow> result | None \<Rightarrow> INT32_MIN)"

text \<open>The checked addition as its callers use it: a local result cell and a test of the status.\<close>

definition cost_add :: "int \<Rightarrow> int \<Rightarrow> int option" where
  "cost_add left right =
     (let r = accel_cost_add_checked left right (Some 0)
      in if fst r \<noteq> 0 then None else snd r)"

text \<open>The running minimum of the device's reductions and projections and of the software kernel.\<close>

definition min_loop :: "(nat \<Rightarrow> int option) \<Rightarrow> nat \<Rightarrow> (int \<times> nat) option" where
  "min_loop f count =
     fold_option (\<lambda>i best. case f i of None \<Rightarrow> None | Some v \<Rightarrow> Some (min_step i v best))
       [0..<count] (ACCEL_INF, 0)"

section \<open>The cost domain and its abstraction\<close>

definition valid_cost :: "int \<Rightarrow> bool" where
  "valid_cost c \<longleftrightarrow> INT32_MIN \<le> c \<and> c \<le> ACCEL_INF"

datatype ecost = Fin int | Infinite

definition cost_abs :: "int \<Rightarrow> ecost" where
  "cost_abs c = (if c = ACCEL_INF then Infinite else Fin c)"

fun ecost_add :: "ecost \<Rightarrow> ecost \<Rightarrow> ecost" where
  "ecost_add (Fin a) (Fin b) = Fin (a + b)"
| "ecost_add _ _ = Infinite"

instantiation ecost :: linorder
begin

fun less_eq_ecost :: "ecost \<Rightarrow> ecost \<Rightarrow> bool" where
  "less_eq_ecost _ Infinite = True"
| "less_eq_ecost Infinite (Fin _) = False"
| "less_eq_ecost (Fin a) (Fin b) = (a \<le> b)"

definition less_ecost :: "ecost \<Rightarrow> ecost \<Rightarrow> bool" where
  "less_ecost a b \<longleftrightarrow> a \<le> b \<and> \<not> b \<le> a"

instance
proof
  fix x y z :: ecost
  show "x < y \<longleftrightarrow> x \<le> y \<and> \<not> y \<le> x" by (rule less_ecost_def)
  show "x \<le> x" by (cases x) auto
  show "x \<le> y \<Longrightarrow> y \<le> z \<Longrightarrow> x \<le> z" by (cases x; cases y; cases z) auto
  show "x \<le> y \<Longrightarrow> y \<le> x \<Longrightarrow> x = y" by (cases x; cases y) auto
  show "x \<le> y \<or> y \<le> x" by (cases x; cases y) auto
qed

end

instantiation ecost :: ordered_comm_monoid_add
begin

definition zero_ecost :: ecost where
  "zero_ecost = Fin 0"

definition plus_ecost :: "ecost \<Rightarrow> ecost \<Rightarrow> ecost" where
  "plus_ecost = ecost_add"

instance
proof
  fix a b c :: ecost
  show "a + b + c = a + (b + c)" by (cases a; cases b; cases c) (auto simp: plus_ecost_def)
  show "a + b = b + a" by (cases a; cases b) (auto simp: plus_ecost_def)
  show "0 + a = a" by (cases a) (auto simp: plus_ecost_def zero_ecost_def)
  show "a \<le> b \<Longrightarrow> c + a \<le> c + b" by (cases a; cases b; cases c) (auto simp: plus_ecost_def)
qed

end

lemmas cost_consts = INT32_MIN_def INT32_MAX_def ACCEL_INF_def

section \<open>The checked addition\<close>

lemma cost_add_eq:
  "cost_add l r =
     (if l > ACCEL_INF \<or> r > ACCEL_INF then None
      else if l = ACCEL_INF \<or> r = ACCEL_INF \<or> l + r \<ge> ACCEL_INF then Some ACCEL_INF
      else if l + r < INT32_MIN then None else Some (l + r))"
  by (auto simp: cost_add_def accel_cost_add_checked_def Let_def)

lemma accel_cost_add_eq: "accel_cost_add l r = (case cost_add l r of Some v \<Rightarrow> v | None \<Rightarrow> INT32_MIN)"
  by (auto simp: cost_add_eq accel_cost_add_def accel_cost_add_checked_def Let_def)

lemma cost_add_checked_cell:
  "accel_cost_add_checked l r (Some old) =
     (case cost_add l r of None \<Rightarrow> (- 1, Some old) | Some v \<Rightarrow> (0, Some v))"
  by (auto simp: cost_add_eq accel_cost_add_checked_def Let_def)

lemma cost_add_valid: "valid_cost l \<Longrightarrow> valid_cost r \<Longrightarrow> cost_add l r = Some v \<Longrightarrow> valid_cost v"
  by (auto simp: cost_add_eq valid_cost_def cost_consts split: if_splits)

lemma accel_cost_add_valid: "valid_cost l \<Longrightarrow> valid_cost r \<Longrightarrow> valid_cost (accel_cost_add l r)"
  by (auto simp: accel_cost_add_eq cost_add_eq valid_cost_def cost_consts)

lemma cost_add_commute: "cost_add l r = cost_add r l"
  by (auto simp: cost_add_eq add.commute)

lemma accel_cost_add_commute: "accel_cost_add l r = accel_cost_add r l"
  by (simp add: accel_cost_add_eq cost_add_commute)

lemma accel_cost_add_mono:
  "valid_cost l' \<Longrightarrow> l \<le> l' \<Longrightarrow> valid_cost r \<Longrightarrow> accel_cost_add l r \<le> accel_cost_add l' r"
  by (auto simp: accel_cost_add_eq cost_add_eq valid_cost_def cost_consts)

section \<open>The running minimum\<close>

lemma min_loop_some:
  assumes "0 < n" and "\<And>i. i < n \<Longrightarrow> f i = Some (g i)"
  shows "min_loop f n = Some (first_min (map g [0..<n]))"
proof -
  have "min_loop f n = fold_option (\<lambda>i best. Some (min_step i (map g [0..<n] ! i) best)) [0..<n]
      (ACCEL_INF, 0)"
    unfolding min_loop_def by (rule fold_option_cong) (simp add: assms(2))
  also have "\<dots> = Some (first_min (map g [0..<n]))"
    using min_step_fold[of "map g [0..<n]"] assms(1) by (simp add: fold_option_pure)
  finally show ?thesis .
qed

lemma min_loop_none: "i < n \<Longrightarrow> f i = None \<Longrightarrow> min_loop f n = None"
  unfolding min_loop_def by (rule fold_option_none[of i]) auto

lemma min_loop_cong: "n = n' \<Longrightarrow> (\<And>i. i < n' \<Longrightarrow> f i = g i) \<Longrightarrow> min_loop f n = min_loop g n'"
  unfolding min_loop_def by (simp, rule fold_option_cong) auto

section \<open>Correctness of the checked addition\<close>

text \<open>
  C34: the checked addition of \<open>cost_math.cpp\<close> on \<open>int32_t\<close> operands. It succeeds exactly when
  both operands are at most \<open>ACCEL_INF\<close> and the sum does not underflow (an infinite operand never
  underflows), the result is the sum in the extended integers cut off at \<open>ACCEL_INF\<close> and stays in
  the cost domain, and a failing call leaves the caller's cell as it was.
\<close>

theorem cost_add_checked_correct:
  assumes "INT32_MIN \<le> l" and "l \<le> INT32_MAX" and "INT32_MIN \<le> r" and "r \<le> INT32_MAX"
  shows "accel_cost_add_checked l r (Some old) =
      (if valid_cost l \<and> valid_cost r \<and> \<not> ecost_add (cost_abs l) (cost_abs r) < Fin INT32_MIN
       then (0, Some (case ecost_add (cost_abs l) (cost_abs r) of
               Fin s \<Rightarrow> min s ACCEL_INF | Infinite \<Rightarrow> ACCEL_INF))
       else (- 1, Some old)) \<and>
    (\<forall>v. accel_cost_add_checked l r (Some old) = (0, Some v) \<longrightarrow> valid_cost v)"
  using assms
  by (auto simp: accel_cost_add_checked_def valid_cost_def cost_abs_def less_ecost_def cost_consts
      Let_def min_def split: if_splits)

theorem cost_add_checked_correct_witness:
  "accel_cost_add_checked 5 (- 7) (Some 0) = (0, Some (- 2)) \<and>
   accel_cost_add_checked INT32_MIN (- 1) (Some 9) = (- 1, Some 9) \<and>
   accel_cost_add_checked ACCEL_INF INT32_MIN (Some 9) = (0, Some ACCEL_INF)"
  using cost_add_checked_correct[of 5 "- 7" 0] cost_add_checked_correct[of INT32_MIN "- 1" 9]
    cost_add_checked_correct[of ACCEL_INF INT32_MIN 9]
  by (simp add: cost_consts valid_cost_def cost_abs_def less_ecost_def)

end
