(* ===== verification/Graph_Text.thy ===== *)
theory Graph_Text
  imports Cost_Math
begin

text \<open>
  The text format of PBQP graphs as \<open>tools/pbqp_run.cpp\<close> reads it, with the parts of the C++
  standard library the parser uses, in the C locale.

  \<^item> A \<open>std::string\<close> is a \<open>string\<close>. An \<open>std::istringstream\<close> that has not failed is the text still
    to be read; an extraction that fails is \<open>None\<close>, and no reader of the source extracts after one.
  \<^item> \<open>operator>>\<close> for a \<open>size_t\<close> takes an optional sign and digits and leaves what follows; a
    value after a minus sign is negated in 64 bits; a value of \<open>2 ^ 64\<close> or more fails.
  \<^item> \<open>std::stoll\<close>, \<open>std::stoul\<close> and \<open>std::stoi\<close> return the value with the number of characters
    used, or throw (\<open>None\<close>).
  \<^item> A file that cannot be opened is \<open>None\<close>.
\<close>

section \<open>Characters and numbers\<close>

definition is_space :: "char \<Rightarrow> bool" where
  "is_space c \<longleftrightarrow> (of_char c :: nat) \<in> {9, 10, 11, 12, 13, 32}"

definition is_digit :: "char \<Rightarrow> bool" where
  "is_digit c \<longleftrightarrow> 48 \<le> (of_char c :: nat) \<and> (of_char c :: nat) \<le> 57"

definition digit_value :: "char \<Rightarrow> nat" where
  "digit_value c = of_char c - 48"

definition decimal_value :: "string \<Rightarrow> nat" where
  "decimal_value digits = foldl (\<lambda>value c. 10 * value + digit_value c) 0 digits"

text \<open>An optional sign and the longest run of digits: whether it is negative, its magnitude and the rest.\<close>

definition split_sign :: "string \<Rightarrow> bool \<times> string" where
  "split_sign s = (case s of c # t \<Rightarrow> if c = CHR ''-'' then (True, t) else if c = CHR ''+'' then (False, t) else (False, s)
     | [] \<Rightarrow> (False, []))"

definition scan_integer :: "string \<Rightarrow> (bool \<times> nat \<times> string) option" where
  "scan_integer s =
     (let (negative, t) = split_sign (dropWhile is_space s); digits = takeWhile is_digit t
      in if digits = [] then None else Some (negative, decimal_value digits, dropWhile is_digit t))"

definition signed_value :: "bool \<Rightarrow> nat \<Rightarrow> int" where
  "signed_value negative magnitude = (if negative then - int magnitude else int magnitude)"

section \<open>Extraction from a stream\<close>

definition read_word :: "string \<Rightarrow> (string \<times> string) option" where
  "read_word s =
     (let t = dropWhile is_space s
      in if t = [] then None else Some (takeWhile (\<lambda>c. \<not> is_space c) t, dropWhile (\<lambda>c. \<not> is_space c) t))"

definition read_size :: "string \<Rightarrow> (nat \<times> string) option" where
  "read_size s =
     (case scan_integer s of
        None \<Rightarrow> None
      | Some (negative, magnitude, rest) \<Rightarrow>
          if int magnitude \<ge> 2 ^ 64 then None else Some (nat (signed_value negative magnitude mod 2 ^ 64), rest))"

section \<open>Conversion of strings\<close>

definition convert :: "(int \<Rightarrow> bool) \<Rightarrow> string \<Rightarrow> (int \<times> nat) option" where
  "convert fits s =
     (case scan_integer s of
        None \<Rightarrow> None
      | Some (negative, magnitude, rest) \<Rightarrow>
          if fits (signed_value negative magnitude) then Some (signed_value negative magnitude, length s - length rest) else None)"

definition stoll :: "string \<Rightarrow> (int \<times> nat) option" where
  "stoll = convert (\<lambda>v. - (2 ^ 63) \<le> v \<and> v < 2 ^ 63)"

definition stoi :: "string \<Rightarrow> (int \<times> nat) option" where
  "stoi = convert (\<lambda>v. - (2 ^ 31) \<le> v \<and> v < 2 ^ 31)"

text \<open>\<open>strtoul\<close> negates a value with a minus sign in 64 bits.\<close>

definition stoul :: "string \<Rightarrow> (int \<times> nat) option" where
  "stoul s = map_option (\<lambda>(v, used). (v mod 2 ^ 64, used)) (convert (\<lambda>v. \<bar>v\<bar> < 2 ^ 64) s)"

section \<open>Decimal output\<close>

fun show_nat :: "nat \<Rightarrow> string" where
  "show_nat n = (if n < 10 then [char_of (48 + n)] else show_nat (n div 10) @ [char_of (48 + n mod 10)])"

declare show_nat.simps [simp del]

definition show_int :: "int \<Rightarrow> string" where
  "show_int i = (if i < 0 then CHR ''-'' # show_nat (nat (- i)) else show_nat (nat i))"

definition newline :: char where
  "newline = CHR 0x0A"

section \<open>The loader\<close>

abbreviation (input) kMaximumHostDomain :: int where "kMaximumHostDomain \<equiv> 65536"

record input_node =
  in_unary :: "int list"

record input_edge =
  ie_first :: nat
  ie_second :: nat
  ie_costs :: "int list"

record input_problem =
  ip_nodes :: "input_node list"
  ip_edges :: "input_edge list"

definition parse_cost :: "string \<Rightarrow> int option" where
  "parse_cost token =
     (if token = ''INF'' then Some ACCEL_INF
      else case stoll token of
        None \<Rightarrow> None
      | Some (v, parsed) \<Rightarrow> if parsed \<noteq> length token \<or> v < - (2 ^ 31) \<or> v > 2 ^ 31 - 1 then None else Some v)"

primrec parse_cost_tokens :: "nat \<Rightarrow> string \<Rightarrow> (int list \<times> string) option" where
  "parse_cost_tokens 0 line = Some ([], line)"
| "parse_cost_tokens (Suc count) line =
     (case read_word line of
        None \<Rightarrow> None
      | Some (token, rest) \<Rightarrow>
          (case parse_cost token of
             None \<Rightarrow> None
           | Some cost \<Rightarrow> map_option (\<lambda>(costs, left). (cost # costs, left)) (parse_cost_tokens count rest)))"

definition parse_costs :: "string \<Rightarrow> nat \<Rightarrow> int list option" where
  "parse_costs line count =
     (case parse_cost_tokens count line of
        None \<Rightarrow> None
      | Some (costs, rest) \<Rightarrow> if read_word rest \<noteq> None then None else Some costs)"

definition is_valid_input_cost :: "int \<Rightarrow> bool" where
  "is_valid_input_cost cost \<longleftrightarrow> cost \<le> ACCEL_INF"

text \<open>\<open>std::getline\<close> until the end of the file; a last line without its newline counts.\<close>

function getlines :: "string \<Rightarrow> string list" where
  "getlines [] = []"
| "getlines (c # s) = takeWhile (\<lambda>d. d \<noteq> newline) (c # s) # getlines (drop 1 (dropWhile (\<lambda>d. d \<noteq> newline) (c # s)))"
  by pat_completeness auto
termination
  by (relation "measure length") (auto simp: less_Suc_eq_le intro: le_trans[OF diff_le_self length_dropWhile_le])

text \<open>The state of \<open>load_problem\<close> between two lines.\<close>

record loader =
  ld_problem :: input_problem
  ld_saw_nodes :: bool
  ld_declared_nodes :: nat

definition load_nodes_line :: "string \<Rightarrow> loader \<Rightarrow> loader option" where
  "load_nodes_line line ld =
     (if ld_saw_nodes ld then None
      else case read_size line of
        None \<Rightarrow> None
      | Some (count, rest) \<Rightarrow>
          if read_word rest \<noteq> None \<or> count = 0 \<or> ip_nodes (ld_problem ld) \<noteq> [] then None
          else Some (ld\<lparr>ld_saw_nodes := True, ld_declared_nodes := count\<rparr>))"

definition load_node_line :: "string \<Rightarrow> loader \<Rightarrow> loader option" where
  "load_node_line line ld =
     (let p = ld_problem ld
      in if \<not> ld_saw_nodes ld \<or> length (ip_nodes p) = ld_declared_nodes ld then None
         else case read_size line of
           None \<Rightarrow> None
         | Some (domain, rest) \<Rightarrow>
             if domain = 0 \<or> int domain > kMaximumHostDomain then None
             else (case parse_costs rest domain of
                None \<Rightarrow> None
              | Some costs \<Rightarrow>
                  if \<not> list_all is_valid_input_cost costs then None
                  else Some (ld\<lparr>ld_problem := p\<lparr>ip_nodes := ip_nodes p @ [\<lparr>in_unary = costs\<rparr>]\<rparr>\<rparr>)))"

definition load_edge_line :: "string \<Rightarrow> loader \<Rightarrow> loader option" where
  "load_edge_line line ld =
     (let p = ld_problem ld
      in if \<not> ld_saw_nodes ld then None
         else case read_size line of
           None \<Rightarrow> None
         | Some (first, rest) \<Rightarrow>
             (case read_size rest of
                None \<Rightarrow> None
              | Some (second, rest') \<Rightarrow>
                  if first \<ge> length (ip_nodes p) \<or> second \<ge> length (ip_nodes p) \<or> first = second then None
                  else (case parse_costs rest'
                          (length (in_unary (ip_nodes p ! first)) * length (in_unary (ip_nodes p ! second))) of
                     None \<Rightarrow> None
                   | Some costs \<Rightarrow>
                       if \<not> list_all is_valid_input_cost costs then None
                       else Some (ld\<lparr>ld_problem := p\<lparr>ip_edges := ip_edges p @
                         [\<lparr>ie_first = first, ie_second = second, ie_costs = costs\<rparr>]\<rparr>\<rparr>))))"

definition load_line :: "string \<Rightarrow> loader \<Rightarrow> loader option" where
  "load_line text ld =
     (case read_word (takeWhile (\<lambda>c. c \<noteq> CHR ''#'') text) of
        None \<Rightarrow> Some ld
      | Some (kind, line) \<Rightarrow>
          if kind = ''nodes'' then load_nodes_line line ld
          else if kind = ''node'' then load_node_line line ld
          else if kind = ''edge'' then load_edge_line line ld
          else None)"

text \<open>The result is \<open>None\<close> where the source returns false; what it left in \<open>*problem\<close> is not used then.\<close>

definition load_problem :: "string option \<Rightarrow> input_problem \<Rightarrow> input_problem option" where
  "load_problem file problem =
     (case file of
        None \<Rightarrow> None
      | Some text \<Rightarrow>
          (case fold_option load_line (getlines text) \<lparr>ld_problem = problem, ld_saw_nodes = False, ld_declared_nodes = 0\<rparr> of
             None \<Rightarrow> None
           | Some ld \<Rightarrow> if ld_saw_nodes ld \<and> length (ip_nodes (ld_problem ld)) = ld_declared_nodes ld
               then Some (ld_problem ld) else None))"

end
