(* ===== verification/Pcaa_Command.thy ===== *)
theory Pcaa_Command
  imports Cost_Math
begin

text \<open>
  The semantic commands of \<open>pcaalib/include/pcaa.h\<close> and the wire constants of
  \<open>accelerator/include/accel_protocol.h\<close>: statuses, affine views of guest memory, and the tagged
  union \<open>pcaa_command_t\<close> as a datatype with one constructor per \<open>pcaa_command_kind\<close>. Addresses and
  the \<open>size_t\<close> fields of a command are 64-bit words, because the range tests of the codec compute
  on them; byte counts of host buffers are natural numbers.
\<close>

section \<open>Statuses\<close>

datatype pcaa_status =
    PCAA_STATUS_OK
  | PCAA_STATUS_INVALID_ARGUMENT
  | PCAA_STATUS_INVALID_COMMAND
  | PCAA_STATUS_RANGE
  | PCAA_STATUS_BUSY
  | PCAA_STATUS_NO_PENDING
  | PCAA_STATUS_NO_SPACE
  | PCAA_STATUS_MEMORY_ERROR
  | PCAA_STATUS_TRANSPORT_ERROR
  | PCAA_STATUS_DEVICE_ERROR

section \<open>Views\<close>

record cost_vector_view =
  vv_base :: u64
  vv_length :: u64
  vv_stride :: u64

record cost_matrix_view =
  mv_base :: u64
  mv_rows :: u64
  mv_columns :: u64
  mv_row_stride :: u64
  mv_column_stride :: u64

datatype pcaa_output_kind = PCAA_OUTPUT_COST | PCAA_OUTPUT_MIN_ARGMIN

record output_view =
  ov_base :: u64
  ov_length :: u64
  ov_stride :: u64
  ov_kind :: pcaa_output_kind

definition pcaa_cost_vector :: "u64 \<Rightarrow> u64 \<Rightarrow> u64 \<Rightarrow> cost_vector_view" where
  "pcaa_cost_vector base len stride = \<lparr>vv_base = base, vv_length = len, vv_stride = stride\<rparr>"

definition pcaa_cost_matrix :: "u64 \<Rightarrow> u64 \<Rightarrow> u64 \<Rightarrow> u64 \<Rightarrow> u64 \<Rightarrow> cost_matrix_view" where
  "pcaa_cost_matrix base rows columns row_stride column_stride =
     \<lparr>mv_base = base, mv_rows = rows, mv_columns = columns, mv_row_stride = row_stride,
      mv_column_stride = column_stride\<rparr>"

definition pcaa_cost_output :: "u64 \<Rightarrow> u64 \<Rightarrow> u64 \<Rightarrow> output_view" where
  "pcaa_cost_output base len stride =
     \<lparr>ov_base = base, ov_length = len, ov_stride = stride, ov_kind = PCAA_OUTPUT_COST\<rparr>"

definition pcaa_argmin_output :: "u64 \<Rightarrow> u64 \<Rightarrow> u64 \<Rightarrow> output_view" where
  "pcaa_argmin_output base len stride =
     \<lparr>ov_base = base, ov_length = len, ov_stride = stride, ov_kind = PCAA_OUTPUT_MIN_ARGMIN\<rparr>"

lemmas view_defs = pcaa_cost_vector_def pcaa_cost_matrix_def pcaa_cost_output_def
  pcaa_argmin_output_def

section \<open>Commands\<close>

record reduce2 =
  r2_first :: cost_vector_view
  r2_second :: cost_vector_view
  r2_result :: u64

record reduce3 =
  r3_first :: cost_vector_view
  r3_second :: cost_vector_view
  r3_third :: cost_vector_view
  r3_result :: u64

record vector_add =
  va_first :: cost_vector_view
  va_second :: cost_vector_view
  va_result :: output_view

record project =
  pj_matrix :: cost_matrix_view
  pj_vector :: cost_vector_view
  pj_result :: output_view

record map3_project =
  m3_first :: cost_vector_view
  m3_second :: cost_vector_view
  m3_third :: cost_matrix_view
  m3_result :: output_view

record batch_reference =
  br_child_descriptors :: u64
  br_count :: u64
  br_child_bytes :: u64
  br_result :: u64

datatype pcaa_command =
    PCAA_MAP_ADD_REDUCE_MIN reduce2
  | PCAA_MAP_ADD3_REDUCE_MIN reduce3
  | PCAA_MAP_ADD_REDUCE_MIN_ARGMIN reduce2
  | PCAA_MAP_ADD3_REDUCE_MIN_ARGMIN reduce3
  | PCAA_COST_ADD_VECTOR vector_add
  | PCAA_MINPLUS_PROJECT project
  | PCAA_MINPLUS_MAP3_PROJECT map3_project
  | PCAA_ORDERED_BATCH batch_reference

fun is_batch :: "pcaa_command \<Rightarrow> bool" where
  "is_batch (PCAA_ORDERED_BATCH _) = True"
| "is_batch _ = False"

section \<open>Wire constants\<close>

definition ACCEL_OPCODE_MAP_ADD_REDUCE_MIN :: byte where
  "ACCEL_OPCODE_MAP_ADD_REDUCE_MIN = 1"
definition ACCEL_OPCODE_MAP_ADD3_REDUCE_MIN :: byte where
  "ACCEL_OPCODE_MAP_ADD3_REDUCE_MIN = 2"
definition ACCEL_OPCODE_MAP_ADD_REDUCE_MIN_ARGMIN :: byte where
  "ACCEL_OPCODE_MAP_ADD_REDUCE_MIN_ARGMIN = 3"
definition ACCEL_OPCODE_MAP_ADD3_REDUCE_MIN_ARGMIN :: byte where
  "ACCEL_OPCODE_MAP_ADD3_REDUCE_MIN_ARGMIN = 4"
definition ACCEL_OPCODE_EXECUTE_BATCH :: byte where
  "ACCEL_OPCODE_EXECUTE_BATCH = 5"
definition ACCEL_OPCODE_COST_ADD_VECTOR :: byte where
  "ACCEL_OPCODE_COST_ADD_VECTOR = 6"
definition ACCEL_OPCODE_MINPLUS_PROJECT :: byte where
  "ACCEL_OPCODE_MINPLUS_PROJECT = 7"
definition ACCEL_OPCODE_MINPLUS_MAP3_PROJECT :: byte where
  "ACCEL_OPCODE_MINPLUS_MAP3_PROJECT = 8"

definition ACCEL_FORMAT_REDUCE2 :: byte where
  "ACCEL_FORMAT_REDUCE2 = 1"
definition ACCEL_FORMAT_REDUCE3 :: byte where
  "ACCEL_FORMAT_REDUCE3 = 2"
definition ACCEL_FORMAT_REDUCE2_ARGMIN :: byte where
  "ACCEL_FORMAT_REDUCE2_ARGMIN = 3"
definition ACCEL_FORMAT_REDUCE3_ARGMIN :: byte where
  "ACCEL_FORMAT_REDUCE3_ARGMIN = 4"
definition ACCEL_FORMAT_EXECUTE_BATCH :: byte where
  "ACCEL_FORMAT_EXECUTE_BATCH = 5"
definition ACCEL_FORMAT_COST_ADD_VECTOR_GENERAL :: byte where
  "ACCEL_FORMAT_COST_ADD_VECTOR_GENERAL = 6"
definition ACCEL_FORMAT_COST_ADD_VECTOR_INPLACE :: byte where
  "ACCEL_FORMAT_COST_ADD_VECTOR_INPLACE = 7"
definition ACCEL_FORMAT_MINPLUS_PROJECT :: byte where
  "ACCEL_FORMAT_MINPLUS_PROJECT = 8"
definition ACCEL_FORMAT_MINPLUS_MAP3_PROJECT :: byte where
  "ACCEL_FORMAT_MINPLUS_MAP3_PROJECT = 9"

lemmas opcode_defs = ACCEL_OPCODE_MAP_ADD_REDUCE_MIN_def ACCEL_OPCODE_MAP_ADD3_REDUCE_MIN_def
  ACCEL_OPCODE_MAP_ADD_REDUCE_MIN_ARGMIN_def ACCEL_OPCODE_MAP_ADD3_REDUCE_MIN_ARGMIN_def
  ACCEL_OPCODE_EXECUTE_BATCH_def ACCEL_OPCODE_COST_ADD_VECTOR_def
  ACCEL_OPCODE_MINPLUS_PROJECT_def ACCEL_OPCODE_MINPLUS_MAP3_PROJECT_def

lemmas format_defs = ACCEL_FORMAT_REDUCE2_def ACCEL_FORMAT_REDUCE3_def
  ACCEL_FORMAT_REDUCE2_ARGMIN_def ACCEL_FORMAT_REDUCE3_ARGMIN_def ACCEL_FORMAT_EXECUTE_BATCH_def
  ACCEL_FORMAT_COST_ADD_VECTOR_GENERAL_def ACCEL_FORMAT_COST_ADD_VECTOR_INPLACE_def
  ACCEL_FORMAT_MINPLUS_PROJECT_def ACCEL_FORMAT_MINPLUS_MAP3_PROJECT_def

abbreviation (input) ACCEL_COMMAND_SLOT_BYTES :: nat where
  "ACCEL_COMMAND_SLOT_BYTES \<equiv> 16"
abbreviation (input) ACCEL_COMMAND_HEADER_BYTES :: nat where
  "ACCEL_COMMAND_HEADER_BYTES \<equiv> 8"
abbreviation (input) ACCEL_COMMAND_MAX_BYTES :: nat where
  "ACCEL_COMMAND_MAX_BYTES \<equiv> 64"
abbreviation (input) ACCEL_BATCH_COMMAND_BYTES :: nat where
  "ACCEL_BATCH_COMMAND_BYTES \<equiv> 32"

abbreviation (input) UINT64_MAX :: u64 where
  "UINT64_MAX \<equiv> 18446744073709551615"
abbreviation (input) UINT32_MAX :: u64 where
  "UINT32_MAX \<equiv> 4294967295"
abbreviation (input) UINT16_MAX :: u64 where
  "UINT16_MAX \<equiv> 65535"

end
