(* ===== verification/Codec.thy ===== *)
theory Codec
  imports Pcaa_Command
begin

text \<open>
  The wire codec of \<open>pcaalib/src/codec.c\<close>: little-endian fields, the affine span test, command
  validation, and the encoder and decoder of one command and of a stream.

  A C out-parameter is an \<open>option\<close>: \<open>None\<close> is \<open>NULL\<close>, \<open>Some x\<close> a cell (or buffer) that holds \<open>x\<close>,
  and a function returns its status with the cells afterwards. The file-local functions, which
  are called with local cells only, return \<open>Inl\<close> the failing status or \<open>Inr\<close> their results.
  Functions with the suffix \<open>_bytes\<close> or \<open>_core\<close> are the bodies behind the \<open>NULL\<close> tests.
\<close>

section \<open>Bytes\<close>

definition put16 :: "byte list \<Rightarrow> nat \<Rightarrow> u16 \<Rightarrow> byte list" where
  "put16 bytes offset v = bytes[offset := ucast v, offset + 1 := ucast (drop_bit 8 v)]"

definition put32 :: "byte list \<Rightarrow> nat \<Rightarrow> u32 \<Rightarrow> byte list" where
  "put32 bytes offset v = put_le 4 bytes offset v"

definition put64 :: "byte list \<Rightarrow> nat \<Rightarrow> u64 \<Rightarrow> byte list" where
  "put64 bytes offset v = put_le 8 bytes offset v"

definition get16 :: "byte list \<Rightarrow> nat \<Rightarrow> u16" where
  "get16 bytes offset = ucast (bytes ! offset) OR push_bit 8 (ucast (bytes ! (offset + 1)))"

definition get32 :: "byte list \<Rightarrow> nat \<Rightarrow> u32" where
  "get32 bytes offset = get_le 4 bytes offset"

definition get64 :: "byte list \<Rightarrow> nat \<Rightarrow> u64" where
  "get64 bytes offset = get_le 8 bytes offset"

definition zero_bytes :: "byte list \<Rightarrow> nat \<Rightarrow> nat \<Rightarrow> bool" where
  "zero_bytes bytes first stop = list_all (\<lambda>offset. bytes ! offset = 0) [first..<stop]"

section \<open>Address ranges\<close>

definition overlap :: "u64 \<Rightarrow> u64 \<Rightarrow> u64 \<Rightarrow> u64 \<Rightarrow> bool" where
  "overlap first first_end second second_end \<longleftrightarrow> first < second_end \<and> second < first_end"

definition span :: "u64 \<Rightarrow> u64 \<Rightarrow> u64 \<Rightarrow> u64 \<Rightarrow> u64 \<Rightarrow> u64 \<Rightarrow> u64 option" where
  "span base rows columns outer_stride inner_stride width =
     (if base = 0 \<or> rows = 0 \<or> columns = 0 \<or> inner_stride = 0 \<or> (rows > 1 \<and> outer_stride = 0)
      then None
      else let outer = (rows - 1) * outer_stride;
               inner = (columns - 1) * inner_stride
        in if outer > UINT64_MAX - inner \<or> base > UINT64_MAX - width \<or>
              outer + inner > (UINT64_MAX - base - width) div width
           then None
           else Some (base + (outer + inner + 1) * width))"

section \<open>Formats and validation\<close>

definition format_size :: "byte \<Rightarrow> byte \<Rightarrow> pcaa_status + nat" where
  "format_size opcode format =
     (if format = ACCEL_FORMAT_REDUCE2 \<or> format = ACCEL_FORMAT_REDUCE2_ARGMIN then
        if opcode \<noteq> (if format = ACCEL_FORMAT_REDUCE2 then ACCEL_OPCODE_MAP_ADD_REDUCE_MIN
                     else ACCEL_OPCODE_MAP_ADD_REDUCE_MIN_ARGMIN)
        then Inl PCAA_STATUS_INVALID_COMMAND else Inr 32
      else if format = ACCEL_FORMAT_REDUCE3 \<or> format = ACCEL_FORMAT_REDUCE3_ARGMIN then
        if opcode \<noteq> (if format = ACCEL_FORMAT_REDUCE3 then ACCEL_OPCODE_MAP_ADD3_REDUCE_MIN
                     else ACCEL_OPCODE_MAP_ADD3_REDUCE_MIN_ARGMIN)
        then Inl PCAA_STATUS_INVALID_COMMAND else Inr 48
      else if format = ACCEL_FORMAT_EXECUTE_BATCH then
        if opcode \<noteq> ACCEL_OPCODE_EXECUTE_BATCH then Inl PCAA_STATUS_INVALID_COMMAND else Inr 32
      else if format = ACCEL_FORMAT_COST_ADD_VECTOR_GENERAL then
        if opcode \<noteq> ACCEL_OPCODE_COST_ADD_VECTOR then Inl PCAA_STATUS_INVALID_COMMAND else Inr 48
      else if format = ACCEL_FORMAT_COST_ADD_VECTOR_INPLACE then
        if opcode \<noteq> ACCEL_OPCODE_COST_ADD_VECTOR then Inl PCAA_STATUS_INVALID_COMMAND else Inr 32
      else if format = ACCEL_FORMAT_MINPLUS_PROJECT then
        if opcode \<noteq> ACCEL_OPCODE_MINPLUS_PROJECT then Inl PCAA_STATUS_INVALID_COMMAND else Inr 48
      else if format = ACCEL_FORMAT_MINPLUS_MAP3_PROJECT then
        if opcode \<noteq> ACCEL_OPCODE_MINPLUS_MAP3_PROJECT then Inl PCAA_STATUS_INVALID_COMMAND
        else Inr 64
      else Inl PCAA_STATUS_INVALID_COMMAND)"

text \<open>
  The shape shared by the C functions with one out-parameter: a \<open>NULL\<close> cell is refused, a failure
  leaves the cell as it was, and a success stores the result.
\<close>

definition c_call :: "'o option \<Rightarrow> pcaa_status + 'o \<Rightarrow> pcaa_status \<times> 'o option" where
  "c_call cell r =
     (case cell of
        None \<Rightarrow> (PCAA_STATUS_INVALID_ARGUMENT, None)
      | Some old \<Rightarrow> (case r of Inl status \<Rightarrow> (status, Some old)
                    | Inr v \<Rightarrow> (PCAA_STATUS_OK, Some v)))"

definition pcaa_wire_format_size :: "byte \<Rightarrow> byte \<Rightarrow> nat option \<Rightarrow> pcaa_status \<times> nat option" where
  "pcaa_wire_format_size opcode format bytes = c_call bytes (format_size opcode format)"

definition fit16 :: "u64 \<Rightarrow> pcaa_status" where
  "fit16 v = (if v > UINT16_MAX then PCAA_STATUS_RANGE else PCAA_STATUS_OK)"

definition with_size :: "byte \<Rightarrow> byte \<Rightarrow> pcaa_status + byte \<times> byte \<times> nat" where
  "with_size opcode format =
     (case format_size opcode format of Inl status \<Rightarrow> Inl status
      | Inr bytes \<Rightarrow> Inr (opcode, format, bytes))"

definition valid_reduce2 :: "bool \<Rightarrow> reduce2 \<Rightarrow> pcaa_status + byte \<times> byte \<times> nat" where
  "valid_reduce2 argmin v =
     (if fit16 (vv_length (r2_first v)) \<noteq> PCAA_STATUS_OK then Inl PCAA_STATUS_RANGE
      else if vv_length (r2_first v) \<noteq> vv_length (r2_second v) \<or> vv_stride (r2_first v) \<noteq> 1 \<or>
        vv_stride (r2_second v) \<noteq> 1 \<or>
        span (vv_base (r2_first v)) 1 (vv_length (r2_first v)) 0 1 4 = None \<or>
        span (vv_base (r2_second v)) 1 (vv_length (r2_second v)) 0 1 4 = None \<or>
        span (r2_result v) 1 1 0 1 (if argmin then 8 else 4) = None
      then Inl PCAA_STATUS_INVALID_COMMAND
      else with_size
        (if argmin then ACCEL_OPCODE_MAP_ADD_REDUCE_MIN_ARGMIN else ACCEL_OPCODE_MAP_ADD_REDUCE_MIN)
        (if argmin then ACCEL_FORMAT_REDUCE2_ARGMIN else ACCEL_FORMAT_REDUCE2))"

definition valid_reduce3 :: "bool \<Rightarrow> reduce3 \<Rightarrow> pcaa_status + byte \<times> byte \<times> nat" where
  "valid_reduce3 argmin v =
     (if fit16 (vv_length (r3_first v)) \<noteq> PCAA_STATUS_OK then Inl PCAA_STATUS_RANGE
      else if vv_length (r3_first v) \<noteq> vv_length (r3_second v) \<or>
        vv_length (r3_first v) \<noteq> vv_length (r3_third v) \<or> vv_stride (r3_first v) \<noteq> 1 \<or>
        vv_stride (r3_second v) \<noteq> 1 \<or> vv_stride (r3_third v) \<noteq> 1 \<or>
        span (vv_base (r3_first v)) 1 (vv_length (r3_first v)) 0 1 4 = None \<or>
        span (vv_base (r3_second v)) 1 (vv_length (r3_second v)) 0 1 4 = None \<or>
        span (vv_base (r3_third v)) 1 (vv_length (r3_third v)) 0 1 4 = None \<or>
        span (r3_result v) 1 1 0 1 (if argmin then 8 else 4) = None
      then Inl PCAA_STATUS_INVALID_COMMAND
      else with_size
        (if argmin then ACCEL_OPCODE_MAP_ADD3_REDUCE_MIN_ARGMIN
         else ACCEL_OPCODE_MAP_ADD3_REDUCE_MIN)
        (if argmin then ACCEL_FORMAT_REDUCE3_ARGMIN else ACCEL_FORMAT_REDUCE3))"

definition alias0 :: "vector_add \<Rightarrow> bool" where
  "alias0 v \<longleftrightarrow> ov_base (va_result v) = vv_base (va_first v) \<and>
     ov_stride (va_result v) = vv_stride (va_first v)"

definition alias1 :: "vector_add \<Rightarrow> bool" where
  "alias1 v \<longleftrightarrow> ov_base (va_result v) = vv_base (va_second v) \<and>
     ov_stride (va_result v) = vv_stride (va_second v)"

definition valid_vector_add :: "vector_add \<Rightarrow> pcaa_status + byte \<times> byte \<times> nat" where
  "valid_vector_add v =
     (if fit16 (vv_length (va_first v)) \<noteq> PCAA_STATUS_OK \<or>
         fit16 (vv_stride (va_first v)) \<noteq> PCAA_STATUS_OK \<or>
         fit16 (vv_stride (va_second v)) \<noteq> PCAA_STATUS_OK \<or>
         fit16 (ov_stride (va_result v)) \<noteq> PCAA_STATUS_OK then Inl PCAA_STATUS_RANGE
      else if vv_length (va_first v) \<noteq> vv_length (va_second v) \<or>
         vv_length (va_first v) \<noteq> ov_length (va_result v) \<or>
         ov_kind (va_result v) \<noteq> PCAA_OUTPUT_COST then Inl PCAA_STATUS_INVALID_COMMAND
      else case (span (vv_base (va_first v)) 1 (vv_length (va_first v)) 0 (vv_stride (va_first v)) 4,
                 span (vv_base (va_second v)) 1 (vv_length (va_second v)) 0
                   (vv_stride (va_second v)) 4,
                 span (ov_base (va_result v)) 1 (ov_length (va_result v)) 0
                   (ov_stride (va_result v)) 4) of
          (Some a_end, Some b_end, Some d_end) \<Rightarrow>
            if overlap (ov_base (va_result v)) d_end (vv_base (va_first v)) a_end \<and> \<not> alias0 v \<or>
               overlap (ov_base (va_result v)) d_end (vv_base (va_second v)) b_end \<and> \<not> alias1 v
            then Inl PCAA_STATUS_INVALID_COMMAND
            else with_size ACCEL_OPCODE_COST_ADD_VECTOR
              (if alias0 v \<or> alias1 v then ACCEL_FORMAT_COST_ADD_VECTOR_INPLACE
               else ACCEL_FORMAT_COST_ADD_VECTOR_GENERAL)
        | _ \<Rightarrow> Inl PCAA_STATUS_INVALID_COMMAND)"

definition valid_project :: "project \<Rightarrow> pcaa_status + byte \<times> byte \<times> nat" where
  "valid_project v =
     (if fit16 (mv_rows (pj_matrix v)) \<noteq> PCAA_STATUS_OK \<or>
         fit16 (mv_columns (pj_matrix v)) \<noteq> PCAA_STATUS_OK \<or>
         fit16 (mv_row_stride (pj_matrix v)) \<noteq> PCAA_STATUS_OK \<or>
         fit16 (mv_column_stride (pj_matrix v)) \<noteq> PCAA_STATUS_OK \<or>
         fit16 (vv_stride (pj_vector v)) \<noteq> PCAA_STATUS_OK \<or>
         fit16 (ov_stride (pj_result v)) \<noteq> PCAA_STATUS_OK then Inl PCAA_STATUS_RANGE
      else if mv_columns (pj_matrix v) \<noteq> vv_length (pj_vector v) \<or>
         mv_rows (pj_matrix v) \<noteq> ov_length (pj_result v) \<or>
         ov_kind (pj_result v) \<noteq> PCAA_OUTPUT_COST then Inl PCAA_STATUS_INVALID_COMMAND
      else case (span (mv_base (pj_matrix v)) (mv_rows (pj_matrix v)) (mv_columns (pj_matrix v))
                   (mv_row_stride (pj_matrix v)) (mv_column_stride (pj_matrix v)) 4,
                 span (vv_base (pj_vector v)) 1 (vv_length (pj_vector v)) 0
                   (vv_stride (pj_vector v)) 4,
                 span (ov_base (pj_result v)) 1 (ov_length (pj_result v)) 0
                   (ov_stride (pj_result v)) 4) of
          (Some a_end, Some b_end, Some d_end) \<Rightarrow>
            if overlap (ov_base (pj_result v)) d_end (mv_base (pj_matrix v)) a_end \<or>
               overlap (ov_base (pj_result v)) d_end (vv_base (pj_vector v)) b_end
            then Inl PCAA_STATUS_INVALID_COMMAND
            else with_size ACCEL_OPCODE_MINPLUS_PROJECT ACCEL_FORMAT_MINPLUS_PROJECT
        | _ \<Rightarrow> Inl PCAA_STATUS_INVALID_COMMAND)"

definition valid_map3_project :: "map3_project \<Rightarrow> pcaa_status + byte \<times> byte \<times> nat" where
  "valid_map3_project v =
     (if fit16 (mv_rows (m3_third v)) \<noteq> PCAA_STATUS_OK \<or>
         fit16 (mv_columns (m3_third v)) \<noteq> PCAA_STATUS_OK \<or>
         fit16 (vv_stride (m3_first v)) \<noteq> PCAA_STATUS_OK \<or>
         fit16 (vv_stride (m3_second v)) \<noteq> PCAA_STATUS_OK \<or>
         fit16 (mv_row_stride (m3_third v)) \<noteq> PCAA_STATUS_OK \<or>
         fit16 (mv_column_stride (m3_third v)) \<noteq> PCAA_STATUS_OK \<or>
         fit16 (ov_stride (m3_result v)) \<noteq> PCAA_STATUS_OK then Inl PCAA_STATUS_RANGE
      else if vv_length (m3_first v) \<noteq> mv_columns (m3_third v) \<or>
         vv_length (m3_second v) \<noteq> mv_columns (m3_third v) \<or>
         ov_length (m3_result v) \<noteq> mv_rows (m3_third v) \<or>
         ov_kind (m3_result v) \<noteq> PCAA_OUTPUT_MIN_ARGMIN then Inl PCAA_STATUS_INVALID_COMMAND
      else case (span (vv_base (m3_first v)) 1 (vv_length (m3_first v)) 0 (vv_stride (m3_first v)) 4,
                 span (vv_base (m3_second v)) 1 (vv_length (m3_second v)) 0
                   (vv_stride (m3_second v)) 4,
                 span (mv_base (m3_third v)) (mv_rows (m3_third v)) (mv_columns (m3_third v))
                   (mv_row_stride (m3_third v)) (mv_column_stride (m3_third v)) 4,
                 span (ov_base (m3_result v)) 1 (ov_length (m3_result v)) 0
                   (ov_stride (m3_result v)) 8) of
          (Some a_end, Some b_end, Some c_end, Some d_end) \<Rightarrow>
            if overlap (ov_base (m3_result v)) d_end (vv_base (m3_first v)) a_end \<or>
               overlap (ov_base (m3_result v)) d_end (vv_base (m3_second v)) b_end \<or>
               overlap (ov_base (m3_result v)) d_end (mv_base (m3_third v)) c_end
            then Inl PCAA_STATUS_INVALID_COMMAND
            else with_size ACCEL_OPCODE_MINPLUS_MAP3_PROJECT ACCEL_FORMAT_MINPLUS_MAP3_PROJECT
        | _ \<Rightarrow> Inl PCAA_STATUS_INVALID_COMMAND)"

definition valid_batch :: "batch_reference \<Rightarrow> pcaa_status + byte \<times> byte \<times> nat" where
  "valid_batch v =
     (if br_count v > UINT32_MAX \<or> br_child_bytes v > UINT32_MAX then Inl PCAA_STATUS_RANGE
      else if br_count v = 0 \<or> br_child_bytes v = 0 \<or>
         br_child_bytes v mod of_nat ACCEL_COMMAND_SLOT_BYTES \<noteq> 0 \<or>
         br_child_descriptors v = 0 \<or> br_result v = 0 \<or>
         br_child_bytes v > UINT64_MAX - br_child_descriptors v \<or> 8 > UINT64_MAX - br_result v
      then Inl PCAA_STATUS_INVALID_COMMAND
      else with_size ACCEL_OPCODE_EXECUTE_BATCH ACCEL_FORMAT_EXECUTE_BATCH)"

fun valid_command :: "pcaa_command option \<Rightarrow> pcaa_status + byte \<times> byte \<times> nat" where
  "valid_command None = Inl PCAA_STATUS_INVALID_ARGUMENT"
| "valid_command (Some (PCAA_MAP_ADD_REDUCE_MIN v)) = valid_reduce2 False v"
| "valid_command (Some (PCAA_MAP_ADD_REDUCE_MIN_ARGMIN v)) = valid_reduce2 True v"
| "valid_command (Some (PCAA_MAP_ADD3_REDUCE_MIN v)) = valid_reduce3 False v"
| "valid_command (Some (PCAA_MAP_ADD3_REDUCE_MIN_ARGMIN v)) = valid_reduce3 True v"
| "valid_command (Some (PCAA_COST_ADD_VECTOR v)) = valid_vector_add v"
| "valid_command (Some (PCAA_MINPLUS_PROJECT v)) = valid_project v"
| "valid_command (Some (PCAA_MINPLUS_MAP3_PROJECT v)) = valid_map3_project v"
| "valid_command (Some (PCAA_ORDERED_BATCH v)) = valid_batch v"

definition encoded_size_core :: "pcaa_command option \<Rightarrow> pcaa_status + nat" where
  "encoded_size_core command =
     (case valid_command command of Inl status \<Rightarrow> Inl status | Inr (_, _, result) \<Rightarrow> Inr result)"

definition pcaa_encoded_size :: "pcaa_command option \<Rightarrow> nat option \<Rightarrow> pcaa_status \<times> nat option" where
  "pcaa_encoded_size command bytes = c_call bytes (encoded_size_core command)"

section \<open>Encoding one command\<close>

definition put_reduce2 :: "byte list \<Rightarrow> reduce2 \<Rightarrow> byte list" where
  "put_reduce2 bytes v =
     (let bytes = put16 bytes 4 (ucast (vv_length (r2_first v)));
          bytes = put64 bytes 8 (vv_base (r2_first v));
          bytes = put64 bytes 16 (vv_base (r2_second v))
      in put64 bytes 24 (r2_result v))"

definition put_reduce3 :: "byte list \<Rightarrow> reduce3 \<Rightarrow> byte list" where
  "put_reduce3 bytes v =
     (let bytes = put16 bytes 4 (ucast (vv_length (r3_first v)));
          bytes = put64 bytes 8 (vv_base (r3_first v));
          bytes = put64 bytes 16 (vv_base (r3_second v));
          bytes = put64 bytes 24 (vv_base (r3_third v))
      in put64 bytes 32 (r3_result v))"

definition put_batch :: "byte list \<Rightarrow> batch_reference \<Rightarrow> byte list" where
  "put_batch bytes v =
     (let bytes = put64 bytes 8 (br_child_descriptors v);
          bytes = put64 bytes 16 (br_result v);
          bytes = put32 bytes 24 (ucast (br_count v))
      in put32 bytes 28 (ucast (br_child_bytes v)))"

definition put_vector_add :: "byte list \<Rightarrow> byte \<Rightarrow> vector_add \<Rightarrow> byte list" where
  "put_vector_add bytes format v =
     (let swapped = \<not> alias0 v \<and> format = ACCEL_FORMAT_COST_ADD_VECTOR_INPLACE;
          first = (if swapped then va_second v else va_first v);
          second = (if swapped then va_first v else va_second v);
          bytes = put16 bytes 4 (ucast (vv_length first));
          bytes = put64 bytes 8 (vv_base first);
          bytes = put64 bytes 16 (vv_base second)
      in if format = ACCEL_FORMAT_COST_ADD_VECTOR_INPLACE then
           let bytes = put16 bytes 24 (ucast (vv_stride first))
           in put16 bytes 26 (ucast (vv_stride second))
         else
           let bytes = put64 bytes 24 (ov_base (va_result v));
               bytes = put16 bytes 32 (ucast (vv_stride first));
               bytes = put16 bytes 34 (ucast (vv_stride second))
           in put16 bytes 36 (ucast (ov_stride (va_result v))))"

definition put_project :: "byte list \<Rightarrow> project \<Rightarrow> byte list" where
  "put_project bytes v =
     (let bytes = put16 bytes 4 (ucast (mv_columns (pj_matrix v)));
          bytes = put16 bytes 6 (ucast (mv_rows (pj_matrix v)));
          bytes = put64 bytes 8 (mv_base (pj_matrix v));
          bytes = put64 bytes 16 (vv_base (pj_vector v));
          bytes = put64 bytes 24 (ov_base (pj_result v));
          bytes = put16 bytes 32 (ucast (mv_column_stride (pj_matrix v)));
          bytes = put16 bytes 34 (ucast (mv_row_stride (pj_matrix v)));
          bytes = put16 bytes 36 (ucast (vv_stride (pj_vector v)))
      in put16 bytes 38 (ucast (ov_stride (pj_result v))))"

definition put_map3_project :: "byte list \<Rightarrow> map3_project \<Rightarrow> byte list" where
  "put_map3_project bytes v =
     (let bytes = put16 bytes 4 (ucast (mv_columns (m3_third v)));
          bytes = put16 bytes 6 (ucast (mv_rows (m3_third v)));
          bytes = put64 bytes 8 (vv_base (m3_first v));
          bytes = put64 bytes 16 (vv_base (m3_second v));
          bytes = put64 bytes 24 (mv_base (m3_third v));
          bytes = put64 bytes 32 (ov_base (m3_result v));
          bytes = put16 bytes 40 (ucast (vv_stride (m3_first v)));
          bytes = put16 bytes 42 (ucast (vv_stride (m3_second v)));
          bytes = put16 bytes 44 (ucast (mv_column_stride (m3_third v)));
          bytes = put16 bytes 46 (ucast (mv_row_stride (m3_third v)))
      in put16 bytes 48 (ucast (ov_stride (m3_result v))))"

fun put_command :: "byte list \<Rightarrow> byte \<Rightarrow> pcaa_command \<Rightarrow> byte list" where
  "put_command bytes format (PCAA_MAP_ADD_REDUCE_MIN v) = put_reduce2 bytes v"
| "put_command bytes format (PCAA_MAP_ADD_REDUCE_MIN_ARGMIN v) = put_reduce2 bytes v"
| "put_command bytes format (PCAA_MAP_ADD3_REDUCE_MIN v) = put_reduce3 bytes v"
| "put_command bytes format (PCAA_MAP_ADD3_REDUCE_MIN_ARGMIN v) = put_reduce3 bytes v"
| "put_command bytes format (PCAA_ORDERED_BATCH v) = put_batch bytes v"
| "put_command bytes format (PCAA_COST_ADD_VECTOR v) = put_vector_add bytes format v"
| "put_command bytes format (PCAA_MINPLUS_PROJECT v) = put_project bytes v"
| "put_command bytes format (PCAA_MINPLUS_MAP3_PROJECT v) = put_map3_project bytes v"

definition header_bytes :: "byte \<Rightarrow> byte \<Rightarrow> byte list" where
  "header_bytes opcode format =
     (let bytes = replicate ACCEL_COMMAND_MAX_BYTES 0;
          bytes = bytes[0 := opcode]
      in bytes[1 := format])"

definition command_bytes :: "byte \<Rightarrow> byte \<Rightarrow> pcaa_command \<Rightarrow> byte list" where
  "command_bytes opcode format command = put_command (header_bytes opcode format) format command"

definition copy_bytes :: "nat \<Rightarrow> byte list \<Rightarrow> byte list \<Rightarrow> byte list" where
  "copy_bytes width bytes output =
     fold (\<lambda>offset out. out[offset := bytes ! offset]) [0..<width] output"

definition pcaa_encode_one ::
  "pcaa_command option \<Rightarrow> byte list option \<Rightarrow> nat \<Rightarrow> nat option
     \<Rightarrow> pcaa_status \<times> byte list option \<times> nat option" where
  "pcaa_encode_one command destination capacity bytes_written =
     (case (destination, bytes_written) of
        (Some output, Some _) \<Rightarrow>
          (case valid_command command of
             Inl status \<Rightarrow> (status, destination, bytes_written)
           | Inr (opcode, format, width) \<Rightarrow>
               if capacity < width then (PCAA_STATUS_NO_SPACE, destination, bytes_written)
               else (PCAA_STATUS_OK,
                     Some (copy_bytes width (command_bytes opcode format (the command)) output),
                     Some width))
      | _ \<Rightarrow> (PCAA_STATUS_INVALID_ARGUMENT, destination, bytes_written))"

section \<open>Decoding one command\<close>

text \<open>
  \<open>decode_fields\<close> is the switch of \<open>pcaa_decode_one\<close> on the format byte; \<open>None\<close> is a return of
  \<open>PCAA_STATUS_INVALID_COMMAND\<close> because of a non-zero reserved field.
\<close>

definition decode_fields :: "byte list \<Rightarrow> pcaa_command option" where
  "decode_fields bytes =
     (let n = ucast (get16 bytes 4) :: u64;
          m = ucast (get16 bytes 6) :: u64;
          format = bytes ! 1
      in if format = ACCEL_FORMAT_REDUCE2 \<or> format = ACCEL_FORMAT_REDUCE2_ARGMIN then
           if m \<noteq> 0 then None
           else Some ((if format = ACCEL_FORMAT_REDUCE2 then PCAA_MAP_ADD_REDUCE_MIN
                       else PCAA_MAP_ADD_REDUCE_MIN_ARGMIN)
             \<lparr>r2_first = pcaa_cost_vector (get64 bytes 8) n 1,
              r2_second = pcaa_cost_vector (get64 bytes 16) n 1,
              r2_result = get64 bytes 24\<rparr>)
         else if format = ACCEL_FORMAT_REDUCE3 \<or> format = ACCEL_FORMAT_REDUCE3_ARGMIN then
           if m \<noteq> 0 \<or> \<not> zero_bytes bytes 40 48 then None
           else Some ((if format = ACCEL_FORMAT_REDUCE3 then PCAA_MAP_ADD3_REDUCE_MIN
                       else PCAA_MAP_ADD3_REDUCE_MIN_ARGMIN)
             \<lparr>r3_first = pcaa_cost_vector (get64 bytes 8) n 1,
              r3_second = pcaa_cost_vector (get64 bytes 16) n 1,
              r3_third = pcaa_cost_vector (get64 bytes 24) n 1,
              r3_result = get64 bytes 32\<rparr>)
         else if format = ACCEL_FORMAT_EXECUTE_BATCH then
           if n \<noteq> 0 \<or> m \<noteq> 0 then None
           else Some (PCAA_ORDERED_BATCH
             \<lparr>br_child_descriptors = get64 bytes 8, br_count = ucast (get32 bytes 24),
              br_child_bytes = ucast (get32 bytes 28), br_result = get64 bytes 16\<rparr>)
         else if format = ACCEL_FORMAT_COST_ADD_VECTOR_GENERAL then
           if m \<noteq> 0 \<or> \<not> zero_bytes bytes 38 48 then None
           else Some (PCAA_COST_ADD_VECTOR
             \<lparr>va_first = pcaa_cost_vector (get64 bytes 8) n (ucast (get16 bytes 32)),
              va_second = pcaa_cost_vector (get64 bytes 16) n (ucast (get16 bytes 34)),
              va_result = pcaa_cost_output (get64 bytes 24) n (ucast (get16 bytes 36))\<rparr>)
         else if format = ACCEL_FORMAT_COST_ADD_VECTOR_INPLACE then
           if m \<noteq> 0 \<or> \<not> zero_bytes bytes 28 32 then None
           else Some (PCAA_COST_ADD_VECTOR
             \<lparr>va_first = pcaa_cost_vector (get64 bytes 8) n (ucast (get16 bytes 24)),
              va_second = pcaa_cost_vector (get64 bytes 16) n (ucast (get16 bytes 26)),
              va_result = pcaa_cost_output (get64 bytes 8) n (ucast (get16 bytes 24))\<rparr>)
         else if format = ACCEL_FORMAT_MINPLUS_PROJECT then
           if \<not> zero_bytes bytes 40 48 then None
           else Some (PCAA_MINPLUS_PROJECT
             \<lparr>pj_matrix = pcaa_cost_matrix (get64 bytes 8) m n (ucast (get16 bytes 34))
                (ucast (get16 bytes 32)),
              pj_vector = pcaa_cost_vector (get64 bytes 16) n (ucast (get16 bytes 36)),
              pj_result = pcaa_cost_output (get64 bytes 24) m (ucast (get16 bytes 38))\<rparr>)
         else if format = ACCEL_FORMAT_MINPLUS_MAP3_PROJECT then
           if \<not> zero_bytes bytes 50 64 then None
           else Some (PCAA_MINPLUS_MAP3_PROJECT
             \<lparr>m3_first = pcaa_cost_vector (get64 bytes 8) n (ucast (get16 bytes 40)),
              m3_second = pcaa_cost_vector (get64 bytes 16) n (ucast (get16 bytes 42)),
              m3_third = pcaa_cost_matrix (get64 bytes 24) m n (ucast (get16 bytes 46))
                (ucast (get16 bytes 44)),
              m3_result = pcaa_argmin_output (get64 bytes 32) m (ucast (get16 bytes 48))\<rparr>)
         else None)"

text \<open>
  \<open>decode_core bytes\<close> is the decoder on a source whose \<open>available_bytes\<close> is \<open>length bytes\<close>. All its
  failures are \<open>PCAA_STATUS_INVALID_COMMAND\<close>.
\<close>

definition decode_core :: "byte list \<Rightarrow> (pcaa_command \<times> nat) option" where
  "decode_core bytes =
     (if length bytes < ACCEL_COMMAND_HEADER_BYTES then None
      else case format_size (bytes ! 0) (bytes ! 1) of
          Inl _ \<Rightarrow> None
        | Inr width \<Rightarrow>
            if length bytes < width \<or> \<not> zero_bytes bytes 2 4 then None
            else case decode_fields bytes of
                None \<Rightarrow> None
              | Some command \<Rightarrow>
                  if valid_command (Some command) \<noteq> Inr (bytes ! 0, bytes ! 1, width) then None
                  else Some (command, width))"

definition pcaa_decode_one ::
  "byte list option \<Rightarrow> pcaa_command option \<Rightarrow> nat option
     \<Rightarrow> pcaa_status \<times> pcaa_command option \<times> nat option" where
  "pcaa_decode_one source command bytes_consumed =
     (if source = None \<or> command = None \<or> bytes_consumed = None
      then (PCAA_STATUS_INVALID_ARGUMENT, command, bytes_consumed)
      else case decode_core (the source) of
          None \<Rightarrow> (PCAA_STATUS_INVALID_COMMAND, command, bytes_consumed)
        | Some (v, width) \<Rightarrow> (PCAA_STATUS_OK, Some v, Some width))"

section \<open>Streams\<close>

fun stream_size_loop :: "pcaa_command list \<Rightarrow> nat \<Rightarrow> pcaa_status + nat" where
  "stream_size_loop [] sum_bytes = Inr sum_bytes"
| "stream_size_loop (c # cs) sum_bytes =
     (if is_batch c then Inl PCAA_STATUS_INVALID_COMMAND
      else case encoded_size_core (Some c) of
          Inl status \<Rightarrow> Inl status
        | Inr width \<Rightarrow>
            if width > unat UINT32_MAX - sum_bytes then Inl PCAA_STATUS_RANGE
            else stream_size_loop cs (sum_bytes + width))"

definition stream_size_core :: "pcaa_command list option \<Rightarrow> pcaa_status + nat" where
  "stream_size_core commands =
     (if commands = None \<or> commands = Some [] then Inl PCAA_STATUS_INVALID_ARGUMENT
      else if length (the commands) > unat UINT32_MAX then Inl PCAA_STATUS_RANGE
      else stream_size_loop (the commands) 0)"

definition pcaa_encoded_stream_size ::
  "pcaa_command list option \<Rightarrow> nat option \<Rightarrow> pcaa_status \<times> nat option" where
  "pcaa_encoded_stream_size commands bytes = c_call bytes (stream_size_core commands)"

fun encode_stream_loop ::
  "pcaa_command list \<Rightarrow> byte list \<Rightarrow> nat \<Rightarrow> nat \<Rightarrow> pcaa_status \<times> byte list" where
  "encode_stream_loop [] buffer cursor capacity = (PCAA_STATUS_OK, buffer)"
| "encode_stream_loop (c # cs) buffer cursor capacity =
     (case pcaa_encode_one (Some c) (Some (drop cursor buffer)) capacity (Some 0) of
        (status, written, width) \<Rightarrow>
          let buffer = take cursor buffer @ the written
          in if status \<noteq> PCAA_STATUS_OK then (status, buffer)
             else encode_stream_loop cs buffer (cursor + the width) (capacity - the width))"

definition pcaa_encode_stream ::
  "pcaa_command list option \<Rightarrow> byte list option \<Rightarrow> nat \<Rightarrow> nat option
     \<Rightarrow> pcaa_status \<times> byte list option \<times> nat option" where
  "pcaa_encode_stream commands destination capacity bytes_written =
     (if destination = None \<or> bytes_written = None
      then (PCAA_STATUS_INVALID_ARGUMENT, destination, bytes_written)
      else case stream_size_core commands of
          Inl status \<Rightarrow> (status, destination, bytes_written)
        | Inr sum_bytes \<Rightarrow>
            if capacity < sum_bytes then (PCAA_STATUS_NO_SPACE, destination, bytes_written)
            else case encode_stream_loop (the commands) (the destination) 0 capacity of
                (status, buffer) \<Rightarrow>
                  if status \<noteq> PCAA_STATUS_OK then (status, Some buffer, bytes_written)
                  else (PCAA_STATUS_OK, Some buffer, Some sum_bytes))"

end
