(* ===== verification/Codec_Correct.thy ===== *)
theory Codec_Correct
  imports Codec
begin

text \<open>
  What \<open>pcaalib/src/codec.c\<close> guarantees: spans never wrap around the 64-bit address space, the
  encoder and the decoder are inverse to each other up to the operand order of an in-place
  addition, every accepted byte string is the unique wire form of its command, and a stream is the
  concatenation of its commands, decoded one after another.
\<close>

section \<open>Specification\<close>

definition swap_operands :: "vector_add \<Rightarrow> vector_add" where
  "swap_operands v = v\<lparr>va_first := va_second v, va_second := va_first v\<rparr>"

text \<open>
  The wire form of an in-place addition names the updated vector first. \<open>canonical_command\<close> is the
  command with its operands in that order; addition commutes, so it has the same meaning.
\<close>

fun canonical_command :: "pcaa_command \<Rightarrow> pcaa_command" where
  "canonical_command (PCAA_COST_ADD_VECTOR v) =
     PCAA_COST_ADD_VECTOR (if \<not> alias0 v \<and> alias1 v then swap_operands v else v)"
| "canonical_command c = c"

text \<open>The bytes of a command in memory, without buffers and cells.\<close>

definition wire :: "pcaa_command \<Rightarrow> byte list option" where
  "wire command =
     (case valid_command (Some command) of
        Inl _ \<Rightarrow> None
      | Inr (opcode, format, width) \<Rightarrow> Some (take width (command_bytes opcode format command)))"

fun wires :: "pcaa_command list \<Rightarrow> byte list list option" where
  "wires [] = Some []"
| "wires (c # cs) = (case (wire c, wires cs) of (Some w, Some ws) \<Rightarrow> Some (w # ws) | _ \<Rightarrow> None)"

fun decode_stream :: "nat \<Rightarrow> byte list \<Rightarrow> (pcaa_command list \<times> byte list) option" where
  "decode_stream 0 bs = Some ([], bs)"
| "decode_stream (Suc n) bs =
     (case decode_core bs of None \<Rightarrow> None
      | Some (c, w) \<Rightarrow> (case decode_stream n (drop w bs) of None \<Rightarrow> None
                       | Some (cs, rest) \<Rightarrow> Some (c # cs, rest)))"

definition example_project :: pcaa_command where
  "example_project = PCAA_MINPLUS_PROJECT
     \<lparr>pj_matrix = pcaa_cost_matrix 4096 2 3 3 1, pj_vector = pcaa_cost_vector 8192 3 1,
      pj_result = pcaa_cost_output 12288 2 1\<rparr>"

section \<open>Spans\<close>

lemma le16_unat: "(x::u64) \<le> UINT16_MAX \<longleftrightarrow> unat x \<le> 65535"
  by (simp add: word_le_nat_alt)

lemma unat_mult_16: 
  assumes "unat (a::u64) \<le> 65535" and "unat (b::u64) \<le> 65535"
  shows "unat (a * b) = unat a * unat b"
proof -
  have "unat a * unat b \<le> 65535 * 65535" using assms by (rule mult_le_mono)
  then show ?thesis by (intro u64_mult_exact) simp
qed

lemma unat_minus_one_16: "(a::u64) \<noteq> 0 \<Longrightarrow> unat (a - 1) = unat a - 1"
  by (simp add: unat_minus_one)

lemma span_exact:
  assumes fit: "unat rows \<le> 65535" "unat columns \<le> 65535" "unat os \<le> 65535" "unat is \<le> 65535"
    and width: "width = 4 \<or> width = 8"
  defines "len \<equiv> ((unat rows - 1) * unat os + (unat columns - 1) * unat is + 1) * unat width"
  shows "span base rows columns os is width = Some e \<longleftrightarrow>
    base \<noteq> 0 \<and> rows \<noteq> 0 \<and> columns \<noteq> 0 \<and> is \<noteq> 0 \<and> (rows = 1 \<or> os \<noteq> 0) \<and>
    unat base + len < 2 ^ 64 \<and> unat e = unat base + len"
proof (cases "base = 0 \<or> rows = 0 \<or> columns = 0 \<or> is = 0 \<or> (rows > 1 \<and> os = 0)")
  case True
  have "rows = 0 \<or> rows = 1" if "\<not> rows > 1"
    using that by (simp add: word_le_nat_alt not_less unat_eq_0 flip: unat_0_iff word_unat_eq_iff) (unat_arith)
  with True show ?thesis by (auto simp: span_def)
next
  case False
  then have nz: "base \<noteq> 0" "rows \<noteq> 0" "columns \<noteq> 0" "is \<noteq> 0" "rows = 1 \<or> os \<noteq> 0"
    by (auto simp: word_less_1 not_less order_le_less)
  define outer where "outer = (rows - 1) * os"
  define inner where "inner = (columns - 1) * is"
  have O: "unat outer = (unat rows - 1) * unat os" and I: "unat inner = (unat columns - 1) * unat is"
    using fit nz by (simp_all add: outer_def inner_def unat_mult_16 unat_minus_one)
  have "unat outer \<le> 65534 * 65535" "unat inner \<le> 65534 * 65535"
    using fit unfolding O I by (intro mult_le_mono; simp)+
  then have small: "unat outer \<le> 4294770690" "unat inner \<le> 4294770690" by simp_all
  have sum: "unat (outer + inner) = unat outer + unat inner"
    using small by (intro u64_add_exact) simp
  have sum1: "unat (outer + inner + 1) = unat outer + unat inner + 1"
    using small by (subst u64_add_exact) (simp_all add: sum)
  have W: "unat width \<le> 8" "0 < unat width" using width by auto
  have "(unat outer + unat inner + 1) * unat width \<le> 8589541381 * 8"
    using small W by (intro mult_le_mono) simp_all
  then have prod: "unat ((outer + inner + 1) * width) = len"
    by (subst u64_mult_exact) (simp_all add: sum1 len_def O I)
  have lenW: "len = (unat outer + unat inner) * unat width + unat width"
    by (simp add: len_def O I algebra_simps)
  have fits: "\<not> (outer > UINT64_MAX - inner \<or> base > UINT64_MAX - width \<or>
      outer + inner > (UINT64_MAX - base - width) div width) \<longleftrightarrow> unat base + len < 2 ^ 64"
    (is "\<not> ?bad \<longleftrightarrow> _")
  proof (cases "unat base + unat width < 2 ^ 64")
    case True
    then have "width \<le> UINT64_MAX - base" by (simp add: word_le_nat_alt u64_max_minus)
    then have "unat (UINT64_MAX - base - width) = 18446744073709551615 - unat base - unat width"
      by (simp add: unat_sub u64_max_minus)
    then have "?bad \<longleftrightarrow>
        unat outer + unat inner > (18446744073709551615 - unat base - unat width) div unat width"
      using True small by (simp add: word_less_nat_alt u64_max_minus sum unat_div) linarith
    also have "\<dots> \<longleftrightarrow> (unat outer + unat inner) * unat width > 18446744073709551615 - unat base - unat width"
      using W by (simp add: div_less_iff_less_mult)
    finally show ?thesis using True by (simp add: lenW not_less) linarith
  next
    case False
    then have "base > UINT64_MAX - width" using W by (simp add: word_less_nat_alt u64_max_minus)
    with False show ?thesis by (simp add: lenW)
  qed
  have "unat (base + (outer + inner + 1) * width) = unat base + len" if "unat base + len < 2 ^ 64"
    using that prod by (subst u64_add_exact) simp_all
  then show ?thesis
    using fits nz False by (auto simp: span_def outer_def[symmetric] inner_def[symmetric] Let_def
        simp del: One_nat_def intro: word_unat_eq_iff[THEN iffD2])
qed

section \<open>Fields of a command buffer\<close>

lemma put16_le: "put16 bs off v = put_le 2 bs off v"
  by (simp add: put16_def put_le_def numeral_2_eq_2)

lemma get16_le: "get16 bs off = get_le 2 bs off"
  by (simp add: get16_def get_le_def numeral_2_eq_2)

lemmas field_defs = put16_le put32_def put64_def get16_le get32_def get64_def

lemma get_le_take [byte_simps]:
  "off + n \<le> w \<Longrightarrow> w \<le> length bs \<Longrightarrow> get_le n (take w bs @ rest) off = get_le n bs off"
  unfolding get_le_def by (rule fold_cong) (auto simp: nth_append)

lemma zero_bytes_iff: "zero_bytes bs f l \<longleftrightarrow> (\<forall>i. f \<le> i \<and> i < l \<longrightarrow> bs ! i = 0)"
  by (auto simp: zero_bytes_def list_all_iff)

lemma zero_bytes_take [byte_simps]:
  "l \<le> w \<Longrightarrow> w \<le> length bs \<Longrightarrow> zero_bytes (take w bs @ rest) f l = zero_bytes bs f l"
  by (auto simp: zero_bytes_iff nth_append)

lemma nth_take_append [byte_simps]:
  "j < w \<Longrightarrow> w \<le> length bs \<Longrightarrow> (take w bs @ rest) ! j = bs ! j"
  by (simp add: nth_append)

lemma zero_bytes_put_other [byte_simps]:
  assumes "off + n \<le> f \<or> l \<le> off" and "l \<le> length bs"
  shows "zero_bytes (put_le n bs off v) f l = zero_bytes bs f l"
proof -
  have "put_le n bs off v ! i = bs ! i" if "f \<le> i" "i < l" for i
    using that assms by (subst nth_put_le) auto
  then show ?thesis by (simp add: zero_bytes_iff)
qed

lemma nth_put_other [byte_simps]:
  "j < off \<Longrightarrow> j < length bs \<Longrightarrow> put_le n bs off v ! j = bs ! j"
  by (simp add: nth_put_le)

lemma nth_header:
  "i < 64 \<Longrightarrow> header_bytes op fm ! i = (if i = 0 then op else if i = 1 then fm else 0)"
  unfolding header_bytes_def Let_def by (simp add: nth_list_update)

lemma header_bytes_simps [byte_simps]:
  "length (header_bytes op fm) = 64" "header_bytes op fm ! 0 = op" "header_bytes op fm ! Suc 0 = fm"
  by (simp_all add: nth_header, simp add: header_bytes_def)

lemma zero_bytes_header [byte_simps]: "2 \<le> f \<Longrightarrow> l \<le> 64 \<Longrightarrow> zero_bytes (header_bytes op fm) f l"
  by (auto simp: zero_bytes_iff nth_header)

lemma get_le_zeros:
  assumes "zero_bytes bs off (off + n)"
  shows "get_le n bs off = (0 :: 'a::len word)"
proof (rule bit_word_eqI)
  fix k assume "k < LENGTH('a)"
  show "bit (get_le n bs off :: 'a word) k = bit (0 :: 'a word) k"
    using assms by (auto simp: bit_get_le zero_bytes_iff less_mult_imp_div_less)
qed

lemma get_le_header [byte_simps]:
  "2 \<le> off \<Longrightarrow> off + n \<le> 64 \<Longrightarrow> get_le n (header_bytes op fm) off = 0"
  by (rule get_le_zeros) (auto intro: zero_bytes_header)

lemma copy_le [byte_simps]:
  assumes "LENGTH('a::len) = 8 * n" and "off + n \<le> length bs" and "j < length b"
  shows "put_le n b off (get_le n bs off :: 'a word) ! j =
    (if off \<le> j \<and> j < off + n then bs ! j else b ! j)"
proof -
  have "ucast (drop_bit (8 * (j - off)) (get_le n bs off :: 'a word)) = bs ! j"
    if "off \<le> j" "j < off + n"
  proof -
    have "bytes_le n (get_le n bs off :: 'a word) ! (j - off) = take n (drop off bs) ! (j - off)"
      using assms by (simp add: bytes_le_get_le)
    with that assms show ?thesis by simp
  qed
  with assms show ?thesis by (auto simp: nth_put_le)
qed

lemma fit16_ucast: "fit16 x = PCAA_STATUS_OK \<Longrightarrow> ucast (ucast x :: u16) = x"
  by (auto simp: fit16_def not_less word_le_nat_alt unsigned_ucast_eq take_bit_nat_eq_self_iff unsigned_take_bit_eq
      intro!: word_unat_eq_iff[THEN iffD2] split: if_splits)

lemma fit32_ucast: "x \<le> UINT32_MAX \<Longrightarrow> ucast (ucast x :: u32) = (x :: u64)"
  by (auto simp: word_le_nat_alt unsigned_ucast_eq take_bit_nat_eq_self_iff unsigned_take_bit_eq
      intro!: word_unat_eq_iff[THEN iffD2])

lemma fit16_of_ucast: "fit16 (ucast (x::u16)) = PCAA_STATUS_OK"
  using unsigned_less[of x, where 'a = nat]
  by (auto simp: fit16_def not_less word_le_nat_alt unsigned_ucast_eq
      intro: order.trans[OF take_bit_nat_less_eq_self])


section \<open>Decoding inverts encoding\<close>

lemmas accept_simps = with_size_def format_size_def opcode_defs format_defs
lemmas decode_simps = command_bytes_def field_defs decode_fields_def byte_simps view_defs
  fit16_ucast fit32_ucast format_defs Let_def

lemma decode_reduce2:
  assumes "valid_reduce2 a v = Inr (op, fm, w)"
  defines "c \<equiv> (if a then PCAA_MAP_ADD_REDUCE_MIN_ARGMIN else PCAA_MAP_ADD_REDUCE_MIN) v"
  shows "decode_fields (take w (command_bytes op fm c) @ rest) = Some c"
proof -
  obtain f s r where v: "v = \<lparr>r2_first = f, r2_second = s, r2_result = r\<rparr>" by (cases v)
  obtain fb n fs sb sn ss where f: "f = \<lparr>vv_base = fb, vv_length = n, vv_stride = fs\<rparr>"
    and s: "s = \<lparr>vv_base = sb, vv_length = sn, vv_stride = ss\<rparr>" by (cases f, cases s)
  have "fit16 n = PCAA_STATUS_OK" "sn = n" "fs = 1" "ss = 1" "w = 32"
    "fm = (if a then ACCEL_FORMAT_REDUCE2_ARGMIN else ACCEL_FORMAT_REDUCE2)"
    using assms(1) unfolding v f s by (simp_all add: valid_reduce2_def accept_simps split: if_splits)
  then show ?thesis
    unfolding v f s c_def by (simp add: put_reduce2_def decode_simps)
qed

lemma decode_reduce3:
  assumes "valid_reduce3 a v = Inr (op, fm, w)"
  defines "c \<equiv> (if a then PCAA_MAP_ADD3_REDUCE_MIN_ARGMIN else PCAA_MAP_ADD3_REDUCE_MIN) v"
  shows "decode_fields (take w (command_bytes op fm c) @ rest) = Some c"
proof -
  obtain f s t r where v: "v = \<lparr>r3_first = f, r3_second = s, r3_third = t, r3_result = r\<rparr>"
    by (cases v)
  obtain fb n fs sb sn ss tb tn ts where f: "f = \<lparr>vv_base = fb, vv_length = n, vv_stride = fs\<rparr>"
    and s: "s = \<lparr>vv_base = sb, vv_length = sn, vv_stride = ss\<rparr>"
    and t: "t = \<lparr>vv_base = tb, vv_length = tn, vv_stride = ts\<rparr>" by (cases f, cases s, cases t)
  have "fit16 n = PCAA_STATUS_OK" "sn = n" "tn = n" "fs = 1" "ss = 1" "ts = 1" "w = 48"
    "fm = (if a then ACCEL_FORMAT_REDUCE3_ARGMIN else ACCEL_FORMAT_REDUCE3)"
    using assms(1) unfolding v f s t
    by (simp_all add: valid_reduce3_def accept_simps split: if_splits)
  then show ?thesis
    unfolding v f s t c_def by (simp add: put_reduce3_def decode_simps)
qed

lemma decode_batch:
  assumes "valid_batch v = Inr (op, fm, w)"
  shows "decode_fields (take w (command_bytes op fm (PCAA_ORDERED_BATCH v)) @ rest) =
    Some (PCAA_ORDERED_BATCH v)"
proof -
  obtain d n cb r where v: "v = \<lparr>br_child_descriptors = d, br_count = n, br_child_bytes = cb,
      br_result = r\<rparr>" by (cases v)
  have "n \<le> UINT32_MAX" "cb \<le> UINT32_MAX" "w = 32" "fm = ACCEL_FORMAT_EXECUTE_BATCH"
    using assms(1) unfolding v
    by (simp_all add: valid_batch_def accept_simps not_less split: if_splits)
  then show ?thesis
    unfolding v by (simp add: put_batch_def decode_simps)
qed

lemma decode_vector_add:
  assumes "valid_vector_add v = Inr (op, fm, w)"
  shows "decode_fields (take w (command_bytes op fm (PCAA_COST_ADD_VECTOR v)) @ rest) =
    Some (canonical_command (PCAA_COST_ADD_VECTOR v))"
proof -
  obtain f s r where v: "v = \<lparr>va_first = f, va_second = s, va_result = r\<rparr>" by (cases v)
  obtain fb n fs sb sn ss rb rn rs k where f: "f = \<lparr>vv_base = fb, vv_length = n, vv_stride = fs\<rparr>"
    and s: "s = \<lparr>vv_base = sb, vv_length = sn, vv_stride = ss\<rparr>"
    and r: "r = \<lparr>ov_base = rb, ov_length = rn, ov_stride = rs, ov_kind = k\<rparr>"
    by (cases f, cases s, cases r)
  have "fit16 n = PCAA_STATUS_OK" "fit16 fs = PCAA_STATUS_OK" "fit16 ss = PCAA_STATUS_OK"
    "fit16 rs = PCAA_STATUS_OK" "sn = n" "rn = n" "k = PCAA_OUTPUT_COST"
    "w = (if alias0 v \<or> alias1 v then 32 else 48)"
    "fm = (if alias0 v \<or> alias1 v then ACCEL_FORMAT_COST_ADD_VECTOR_INPLACE
           else ACCEL_FORMAT_COST_ADD_VECTOR_GENERAL)"
    using assms(1) unfolding v f s r
    by (simp_all add: valid_vector_add_def accept_simps split: if_splits option.splits)
  then show ?thesis
    unfolding v f s r
    by (simp add: put_vector_add_def decode_simps alias0_def alias1_def swap_operands_def)
qed

lemma decode_project:
  assumes "valid_project v = Inr (op, fm, w)"
  shows "decode_fields (take w (command_bytes op fm (PCAA_MINPLUS_PROJECT v)) @ rest) =
    Some (PCAA_MINPLUS_PROJECT v)"
proof -
  obtain a x r where v: "v = \<lparr>pj_matrix = a, pj_vector = x, pj_result = r\<rparr>" by (cases v)
  obtain ab m n ars acs xb xn xs rb rn rs k where
    a: "a = \<lparr>mv_base = ab, mv_rows = m, mv_columns = n, mv_row_stride = ars, mv_column_stride = acs\<rparr>"
    and x: "x = \<lparr>vv_base = xb, vv_length = xn, vv_stride = xs\<rparr>"
    and r: "r = \<lparr>ov_base = rb, ov_length = rn, ov_stride = rs, ov_kind = k\<rparr>"
    by (cases a, cases x, cases r)
  have "fit16 m = PCAA_STATUS_OK" "fit16 n = PCAA_STATUS_OK" "fit16 ars = PCAA_STATUS_OK"
    "fit16 acs = PCAA_STATUS_OK" "fit16 xs = PCAA_STATUS_OK" "fit16 rs = PCAA_STATUS_OK"
    "xn = n" "rn = m" "k = PCAA_OUTPUT_COST" "w = 48" "fm = ACCEL_FORMAT_MINPLUS_PROJECT"
    using assms(1) unfolding v a x r
    by (simp_all add: valid_project_def accept_simps split: if_splits option.splits)
  then show ?thesis
    unfolding v a x r by (simp add: put_project_def decode_simps)
qed

lemma decode_map3_project:
  assumes "valid_map3_project v = Inr (op, fm, w)"
  shows "decode_fields (take w (command_bytes op fm (PCAA_MINPLUS_MAP3_PROJECT v)) @ rest) =
    Some (PCAA_MINPLUS_MAP3_PROJECT v)"
proof -
  obtain f s a r where v: "v = \<lparr>m3_first = f, m3_second = s, m3_third = a, m3_result = r\<rparr>"
    by (cases v)
  obtain fb fn fs sb sn ss ab m n ars acs rb rn rs k where
    f: "f = \<lparr>vv_base = fb, vv_length = fn, vv_stride = fs\<rparr>"
    and s: "s = \<lparr>vv_base = sb, vv_length = sn, vv_stride = ss\<rparr>"
    and a: "a = \<lparr>mv_base = ab, mv_rows = m, mv_columns = n, mv_row_stride = ars, mv_column_stride = acs\<rparr>"
    and r: "r = \<lparr>ov_base = rb, ov_length = rn, ov_stride = rs, ov_kind = k\<rparr>"
    by (cases f, cases s, cases a, cases r)
  have "fit16 m = PCAA_STATUS_OK" "fit16 n = PCAA_STATUS_OK" "fit16 ars = PCAA_STATUS_OK"
    "fit16 acs = PCAA_STATUS_OK" "fit16 fs = PCAA_STATUS_OK" "fit16 ss = PCAA_STATUS_OK"
    "fit16 rs = PCAA_STATUS_OK" "fn = n" "sn = n" "rn = m" "k = PCAA_OUTPUT_MIN_ARGMIN" "w = 64"
    "fm = ACCEL_FORMAT_MINPLUS_MAP3_PROJECT"
    using assms(1) unfolding v f s a r
    by (simp_all add: valid_map3_project_def accept_simps split: if_splits option.splits)
  then show ?thesis
    unfolding v f s a r
    by (simp add: put_map3_project_def decode_simps del: take_all take_all_iff)
qed

lemma decode_fields_command:
  assumes "valid_command (Some c) = Inr (op, fm, w)"
  shows "decode_fields (take w (command_bytes op fm c) @ rest) = Some (canonical_command c)"
  using assms decode_reduce2[of False] decode_reduce2[of True] decode_reduce3[of False]
    decode_reduce3[of True] decode_batch decode_vector_add decode_project decode_map3_project
  by (cases c) auto

lemma length_command_bytes [simp]: "length (command_bytes op fm c) = 64"
  by (cases c) (simp_all add: command_bytes_def put_reduce2_def put_reduce3_def put_batch_def
      put_vector_add_def put_project_def put_map3_project_def field_defs byte_simps Let_def)

lemma command_header:
  "command_bytes op fm c ! 0 = op" "command_bytes op fm c ! 1 = fm"
  "zero_bytes (command_bytes op fm c) 2 4"
  by (cases c; simp add: command_bytes_def put_reduce2_def put_reduce3_def put_batch_def
      put_vector_add_def put_project_def put_map3_project_def field_defs byte_simps Let_def)+

lemma format_size_bounds: "format_size op fm = Inr w \<Longrightarrow> w \<in> {32, 48, 64}"
  by (auto simp: format_size_def split: if_splits)

lemma valid_size:
  "valid_command (Some c) = Inr (op, fm, w) \<Longrightarrow> format_size op fm = Inr w"
  by (cases c) (auto simp: valid_reduce2_def valid_reduce3_def valid_batch_def valid_vector_add_def
      valid_project_def valid_map3_project_def with_size_def split: if_splits option.splits sum.splits)

lemma valid_canonical:
  assumes "valid_command (Some c) = Inr r"
  shows "valid_command (Some (canonical_command c)) = Inr r"
proof (cases "\<exists>v. c = PCAA_COST_ADD_VECTOR v \<and> \<not> alias0 v \<and> alias1 v")
  case True
  then obtain v where c: "c = PCAA_COST_ADD_VECTOR v" "\<not> alias0 v" "alias1 v" by blast
  have "alias0 (swap_operands v)" "\<not> alias1 (swap_operands v)"
    using c by (simp_all add: alias0_def alias1_def swap_operands_def)
  then have "valid_vector_add (swap_operands v) = Inr r"
    using c assms
    by (auto simp: valid_vector_add_def swap_operands_def split: option.splits if_splits)
  with c show ?thesis by simp
next
  case False
  then have "canonical_command c = c" by (cases c) auto
  with assms show ?thesis by simp
qed

lemma wire_length: "wire c = Some bs \<Longrightarrow> length bs \<in> {32, 48, 64}"
  using format_size_bounds valid_size by (fastforce simp: wire_def min_def split: sum.splits)

lemma decode_wire:
  assumes "wire c = Some bs"
  shows "decode_core (bs @ rest) = Some (canonical_command c, length bs)"
proof -
  from assms obtain op fm w where v: "valid_command (Some c) = Inr (op, fm, w)"
    and bs: "bs = take w (command_bytes op fm c)" by (auto simp: wire_def split: sum.splits)
  from v have fs: "format_size op fm = Inr w" by (rule valid_size)
  then have w: "8 \<le> w" "4 \<le> w" "w \<le> 64" using format_size_bounds by fastforce+
  then have "(bs @ rest) ! 0 = op" "(bs @ rest) ! 1 = fm" "zero_bytes (bs @ rest) 2 4"
    using command_header[of op fm c] by (simp_all add: bs nth_append zero_bytes_take)
  moreover have "decode_fields (bs @ rest) = Some (canonical_command c)"
    unfolding bs by (rule decode_fields_command[OF v])
  moreover have "length bs = w" using w by (simp add: bs)
  ultimately show ?thesis
    using w fs v by (simp add: decode_core_def valid_canonical)
qed

section \<open>Accepted bytes are the wire form of their command\<close>

lemma ucast_16_64_16 [simp]: "ucast (ucast (x::u16) :: u64) = x"
  by (rule bit_word_eqI) (auto simp: bit_simps)

lemma ucast_32_64_32 [simp]: "ucast (ucast (x::u32) :: u64) = x"
  by (rule bit_word_eqI) (auto simp: bit_simps)

lemma get16_zero:
  assumes "ucast (get16 bs off) = (0 :: u64)"
  shows "zero_bytes bs off (off + 2)"
proof -
  have "get16 bs off = 0" using arg_cong[OF assms, of "ucast :: u64 \<Rightarrow> u16"] by simp
  then have "bit (get_le 2 bs off :: u16) k = bit (0 :: u16) k" for k by (simp add: get16_le)
  then have b: "\<not> bit (bs ! (off + k div 8)) (k mod 8)" if "k < 16" for k
    using that by (auto simp: bit_get_le)
  have "\<not> bit (bs ! off) k" "\<not> bit (bs ! Suc off) k" if "k < 8" for k
    using b[of k] b[of "k + 8"] that by (simp_all add: div_add_self2 del: add_2_eq_Suc')
  then have "bs ! off = 0" "bs ! Suc off = 0" by (auto intro: bit_word_eqI)
  then show ?thesis by (auto simp: zero_bytes_def)
qed

lemmas copy_simps = command_bytes_def field_defs copy_le view_defs nth_header byte_simps Let_def

lemma encode_reduce2:
  assumes hd: "bs ! 0 = op" "bs ! Suc 0 = fm" and "length bs \<ge> 32" "i < 32" "zero_bytes bs 2 4" "ucast (get16 bs 6) = (0::u64)"
  shows "put_reduce2 (header_bytes op fm)
    \<lparr>r2_first = pcaa_cost_vector (get64 bs 8) (ucast (get16 bs 4)) 1,
     r2_second = pcaa_cost_vector (get64 bs 16) n 1,
     r2_result = get64 bs 24\<rparr> ! i = bs ! i"
proof -
  have z: "bs ! j = 0" if "2 \<le> j \<and> j < 4 \<or> 6 \<le> j \<and> j < 8" for j
    using that assms(5) get16_zero[OF assms(6)] by (auto simp: zero_bytes_iff)
  show ?thesis using hd assms(3,4) by (simp add: put_reduce2_def copy_simps) (intro impI z, arith)
qed

lemma encode_reduce3:
  assumes hd: "bs ! 0 = op" "bs ! Suc 0 = fm" and "length bs \<ge> 48" "i < 48" "zero_bytes bs 2 4" "ucast (get16 bs 6) = (0::u64)"
    "zero_bytes bs 40 48"
  shows "put_reduce3 (header_bytes op fm)
    \<lparr>r3_first = pcaa_cost_vector (get64 bs 8) (ucast (get16 bs 4)) 1,
     r3_second = pcaa_cost_vector (get64 bs 16) n 1,
     r3_third = pcaa_cost_vector (get64 bs 24) n' 1,
     r3_result = get64 bs 32\<rparr> ! i = bs ! i"
proof -
  have z: "bs ! j = 0" if "2 \<le> j \<and> j < 4 \<or> 6 \<le> j \<and> j < 8 \<or> 40 \<le> j \<and> j < 48" for j
    using that assms(5,7) get16_zero[OF assms(6)] by (auto simp: zero_bytes_iff)
  show ?thesis using hd assms(3,4) by (simp add: put_reduce3_def copy_simps) (intro impI z, arith)
qed

lemma encode_batch_fields:
  assumes hd: "bs ! 0 = op" "bs ! Suc 0 = fm" and "length bs \<ge> 32" "i < 32" "zero_bytes bs 2 4" "ucast (get16 bs 4) = (0::u64)"
    "ucast (get16 bs 6) = (0::u64)"
  shows "put_batch (header_bytes op fm)
    \<lparr>br_child_descriptors = get64 bs 8, br_count = ucast (get32 bs 24),
     br_child_bytes = ucast (get32 bs 28), br_result = get64 bs 16\<rparr> ! i = bs ! i"
proof -
  have z: "bs ! j = 0" if "2 \<le> j \<and> j < 8" for j
    using that assms(5) get16_zero[OF assms(6)] get16_zero[OF assms(7)]
    by (cases "j < 4"; cases "j < 6") (auto simp: zero_bytes_iff)
  show ?thesis using hd assms(3,4) by (simp add: put_batch_def copy_simps) (intro impI z, arith)
qed

lemma encode_vector_add_inplace:
  assumes hd: "bs ! 0 = op" "bs ! Suc 0 = fm" and "length bs \<ge> 32" "i < 32" "zero_bytes bs 2 4" "ucast (get16 bs 6) = (0::u64)"
    "zero_bytes bs 28 32" "fm = ACCEL_FORMAT_COST_ADD_VECTOR_INPLACE"
  shows "put_vector_add (header_bytes op fm) fm
    \<lparr>va_first = pcaa_cost_vector (get64 bs 8) (ucast (get16 bs 4)) (ucast (get16 bs 24)),
     va_second = pcaa_cost_vector (get64 bs 16) n (ucast (get16 bs 26)),
     va_result = pcaa_cost_output (get64 bs 8) n' (ucast (get16 bs 24))\<rparr> ! i = bs ! i"
proof -
  have z: "bs ! j = 0" if "2 \<le> j \<and> j < 4 \<or> 6 \<le> j \<and> j < 8 \<or> 28 \<le> j \<and> j < 32" for j
    using that assms(5,7) get16_zero[OF assms(6)] by (auto simp: zero_bytes_iff)
  show ?thesis using hd assms(3,4,8)
    by (simp add: put_vector_add_def copy_simps alias0_def) (intro impI z, arith)
qed

lemma encode_vector_add_general:
  assumes hd: "bs ! 0 = op" "bs ! Suc 0 = fm" and "length bs \<ge> 48" "i < 48" "zero_bytes bs 2 4" "ucast (get16 bs 6) = (0::u64)"
    "zero_bytes bs 38 48" "fm = ACCEL_FORMAT_COST_ADD_VECTOR_GENERAL"
  shows "put_vector_add (header_bytes op fm) fm
    \<lparr>va_first = pcaa_cost_vector (get64 bs 8) (ucast (get16 bs 4)) (ucast (get16 bs 32)),
     va_second = pcaa_cost_vector (get64 bs 16) n (ucast (get16 bs 34)),
     va_result = pcaa_cost_output (get64 bs 24) n' (ucast (get16 bs 36))\<rparr> ! i = bs ! i"
proof -
  have z: "bs ! j = 0" if "2 \<le> j \<and> j < 4 \<or> 6 \<le> j \<and> j < 8 \<or> 38 \<le> j \<and> j < 48" for j
    using that assms(5,7) get16_zero[OF assms(6)] by (auto simp: zero_bytes_iff)
  show ?thesis using hd assms(3,4,8)
    by (simp add: put_vector_add_def copy_simps format_defs) (intro impI z, arith)
qed

lemma encode_project:
  assumes hd: "bs ! 0 = op" "bs ! Suc 0 = fm" and "length bs \<ge> 48" "i < 48" "zero_bytes bs 2 4" "zero_bytes bs 40 48"
  shows "put_project (header_bytes op fm)
    \<lparr>pj_matrix = pcaa_cost_matrix (get64 bs 8) (ucast (get16 bs 6)) (ucast (get16 bs 4))
       (ucast (get16 bs 34)) (ucast (get16 bs 32)),
     pj_vector = pcaa_cost_vector (get64 bs 16) n (ucast (get16 bs 36)),
     pj_result = pcaa_cost_output (get64 bs 24) m (ucast (get16 bs 38))\<rparr> ! i = bs ! i"
proof -
  have z: "bs ! j = 0" if "2 \<le> j \<and> j < 4 \<or> 40 \<le> j \<and> j < 48" for j
    using that assms(5,6) by (auto simp: zero_bytes_iff)
  show ?thesis using hd assms(3,4) by (simp add: put_project_def copy_simps) (intro impI z, arith)
qed

lemma encode_map3_project:
  assumes hd: "bs ! 0 = op" "bs ! Suc 0 = fm" and "length bs \<ge> 64" "i < 64" "zero_bytes bs 2 4" "zero_bytes bs 50 64"
  shows "put_map3_project (header_bytes op fm)
    \<lparr>m3_first = pcaa_cost_vector (get64 bs 8) n (ucast (get16 bs 40)),
     m3_second = pcaa_cost_vector (get64 bs 16) n' (ucast (get16 bs 42)),
     m3_third = pcaa_cost_matrix (get64 bs 24) (ucast (get16 bs 6)) (ucast (get16 bs 4))
       (ucast (get16 bs 46)) (ucast (get16 bs 44)),
     m3_result = pcaa_argmin_output (get64 bs 32) m (ucast (get16 bs 48))\<rparr> ! i = bs ! i"
proof -
  have z: "bs ! j = 0" if "2 \<le> j \<and> j < 4 \<or> 50 \<le> j \<and> j < 64" for j
    using that assms(5,6) by (auto simp: zero_bytes_iff)
  show ?thesis using hd assms(3,4) by (simp add: put_map3_project_def copy_simps) (intro impI z, arith)
qed

lemma encode_fields:
  assumes "decode_fields bs = Some c" and "format_size (bs ! 0) (bs ! 1) = Inr w"
    and "w \<le> length bs" and "zero_bytes bs 2 4" and "i < w"
  shows "command_bytes (bs ! 0) (bs ! 1) c ! i = bs ! i"
  using assms unfolding decode_fields_def format_size_def Let_def command_bytes_def
  by (auto split: if_splits intro: encode_reduce2 encode_reduce3 encode_batch_fields
      encode_vector_add_inplace encode_vector_add_general encode_project encode_map3_project)

lemma wire_decode:
  assumes "decode_core bs = Some (c, w)"
  shows "wire c = Some (take w bs)"
proof -
  from assms have v: "valid_command (Some c) = Inr (bs ! 0, bs ! 1, w)"
    and f: "decode_fields bs = Some c" "format_size (bs ! 0) (bs ! 1) = Inr w" "w \<le> length bs"
      "zero_bytes bs 2 4"
    by (auto simp: decode_core_def not_less split: if_splits sum.splits option.splits)
  have e: "command_bytes (bs ! 0) (bs ! 1) c ! i = bs ! i" if "i < w" for i
    using f that by (rule encode_fields)
  have "w \<le> 64" using format_size_bounds[OF f(2)] by auto
  with f(3) have "take w (command_bytes (bs ! 0) (bs ! 1) c) = take w bs"
    by (intro nth_equalityI) (simp_all add: e del: One_nat_def)
  with v show ?thesis by (simp add: wire_def)
qed


section \<open>Encoding into a buffer\<close>

lemma copy_bytes_eq:
  "width \<le> length bytes \<Longrightarrow> width \<le> length output \<Longrightarrow>
   copy_bytes width bytes output = take width bytes @ drop width output"
proof (induction width)
  case 0
  then show ?case by (simp add: copy_bytes_def)
next
  case (Suc n)
  have "copy_bytes (Suc n) bytes output = (copy_bytes n bytes output)[n := bytes ! n]"
    by (simp add: copy_bytes_def)
  with Suc show ?case
    by (simp add: take_Suc_conv_app_nth list_update_append Cons_nth_drop_Suc[symmetric])
qed

lemma wire_valid:
  "wire c = Some bs \<longleftrightarrow> (\<exists>op fm w. valid_command (Some c) = Inr (op, fm, w) \<and>
     bs = take w (command_bytes op fm c) \<and> length bs = w \<and> w \<le> 64)"
  using format_size_bounds valid_size by (fastforce simp: wire_def split: sum.splits)

lemma encode_one_wire:
  assumes "wire c = Some bs" and "capacity \<le> length out"
  shows "pcaa_encode_one (Some c) (Some out) capacity (Some n) =
    (if capacity < length bs then (PCAA_STATUS_NO_SPACE, Some out, Some n)
     else (PCAA_STATUS_OK, Some (bs @ drop (length bs) out), Some (length bs)))"
proof -
  from assms(1) obtain op fm w where v: "valid_command (Some c) = Inr (op, fm, w)"
    and bs: "bs = take w (command_bytes op fm c)" "length bs = w" "w \<le> 64"
    unfolding wire_valid by blast
  with assms(2) show ?thesis
    by (simp add: pcaa_encode_one_def copy_bytes_eq)
qed

lemma valid_not_ok: "valid_command c \<noteq> Inl PCAA_STATUS_OK"
  by (cases c rule: valid_command.cases) (auto simp: valid_reduce2_def valid_reduce3_def
      valid_batch_def valid_vector_add_def valid_project_def valid_map3_project_def accept_simps
      split: if_splits option.splits)

lemma encode_one_no_wire:
  assumes "wire c = None"
  shows "\<exists>st. st \<noteq> PCAA_STATUS_OK \<and>
    pcaa_encode_one (Some c) (Some out) capacity (Some n) = (st, Some out, Some n)"
  using assms valid_not_ok[of "Some c"] by (auto simp: wire_def pcaa_encode_one_def split: sum.splits)

lemma encode_one_ok:
  assumes "pcaa_encode_one (Some c) (Some out) capacity (Some n) = (PCAA_STATUS_OK, Some buf, Some w)"
    and "capacity \<le> length out"
  shows "\<exists>bs. wire c = Some bs \<and> w = length bs \<and> w \<le> capacity \<and> buf = bs @ drop w out"
  using assms encode_one_wire[of c _ capacity out n] encode_one_no_wire[of c out capacity n]
  by (cases "wire c") (auto split: if_splits)

section \<open>Streams\<close>

lemma decode_stream_wires:
  "wires cs = Some ws \<Longrightarrow>
   decode_stream (length cs) (concat ws @ rest) = Some (map canonical_command cs, rest)"
  by (induction cs arbitrary: ws) (auto simp: decode_wire split: option.splits)

lemma stream_size_loop_wires:
  assumes "stream_size_loop cs s = Inr t" and "s \<le> 4294967295"
  shows "\<exists>ws. wires cs = Some ws \<and> t = s + length (concat ws) \<and> t \<le> 4294967295 \<and>
    list_all (\<lambda>c. \<not> is_batch c) cs"
  using assms
proof (induction cs arbitrary: s)
  case Nil
  then show ?case by simp
next
  case (Cons c cs)
  from Cons.prems obtain w where w: "encoded_size_core (Some c) = Inr w" "\<not> is_batch c"
      "w \<le> 4294967295 - s" "stream_size_loop cs (s + w) = Inr t"
    by (auto split: if_splits sum.splits)
  from w(1) obtain bs where "wire c = Some bs" "length bs = w"
    using format_size_bounds valid_size
    by (fastforce simp: encoded_size_core_def wire_def split: sum.splits)
  moreover have "s + w \<le> 4294967295" using w(3) Cons.prems(2) by arith
  moreover from this obtain ws where "wires cs = Some ws" "t = s + w + length (concat ws)"
      "t \<le> 4294967295" "list_all (\<lambda>c. \<not> is_batch c) cs"
    using Cons.IH[OF w(4)] by blast
  ultimately show ?case using w by auto
qed

lemma encode_stream_loop_wires:
  assumes "wires cs = Some ws" and "cursor + length (concat ws) \<le> length buffer"
    and "length (concat ws) \<le> capacity" and "cursor + capacity \<le> length buffer"
  shows "encode_stream_loop cs buffer cursor capacity = (PCAA_STATUS_OK,
    take cursor buffer @ concat ws @ drop (cursor + length (concat ws)) buffer)"
  using assms
proof (induction cs arbitrary: ws buffer cursor capacity)
  case Nil
  then show ?case by simp
next
  case (Cons c cs)
  then obtain w ws' where w: "wire c = Some w" "wires cs = Some ws'" "ws = w # ws'"
    by (auto split: option.splits)
  let ?b = "take cursor buffer @ w @ drop (length w + cursor) buffer"
  have "length ?b = length buffer" using w Cons.prems by auto
  then have "encode_stream_loop cs ?b (cursor + length w) (capacity - length w) =
     (PCAA_STATUS_OK, take (cursor + length w) ?b @ concat ws' @
       drop (cursor + length w + length (concat ws')) ?b)"
    using w Cons.prems by (intro Cons.IH) auto
  with w Cons.prems show ?case
    by (simp add: encode_one_wire add.commute add.left_commute)
qed

lemma stream_size_not_ok: "stream_size_core cs \<noteq> Inl PCAA_STATUS_OK"
proof -
  have "encoded_size_core c \<noteq> Inl PCAA_STATUS_OK" for c
    using valid_not_ok[of c] by (auto simp: encoded_size_core_def split: sum.splits)
  then have "stream_size_loop xs s \<noteq> Inl PCAA_STATUS_OK" for xs s
    by (induction xs s rule: stream_size_loop.induct) (auto split: sum.splits)
  then show ?thesis by (simp add: stream_size_core_def)
qed

lemma encode_stream_eq:
  assumes "capacity \<le> length out"
  shows "pcaa_encode_stream (Some cs) (Some out) capacity (Some n) =
    (case stream_size_core (Some cs) of
       Inl status \<Rightarrow> (status, Some out, Some n)
     | Inr t \<Rightarrow>
         if capacity < t then (PCAA_STATUS_NO_SPACE, Some out, Some n)
         else (PCAA_STATUS_OK, Some (concat (the (wires cs)) @ drop t out), Some t))"
proof (cases "stream_size_core (Some cs)")
  case (Inl st)
  then show ?thesis by (simp add: pcaa_encode_stream_def)
next
  case (Inr t)
  then have "stream_size_loop cs 0 = Inr t" by (auto simp: stream_size_core_def split: if_splits)
  then obtain ws where "wires cs = Some ws" "t = length (concat ws)"
    using stream_size_loop_wires by fastforce
  with Inr assms encode_stream_loop_wires[of cs ws 0 out capacity] show ?thesis
    by (auto simp: pcaa_encode_stream_def)
qed

section \<open>Claims\<close>



text \<open>
  C15: decoding inverts encoding. When \<open>pcaa_encode_one\<close> succeeds, \<open>pcaa_decode_one\<close> on the buffer it
  filled returns the same command (with the operands of an in-place addition in canonical order)
  and the same byte count; the count is that of a two, three or four slot format within the
  capacity, and no byte after it is written.
\<close>

theorem encode_then_decode:
  assumes "pcaa_encode_one (Some c) (Some out) capacity (Some n) = (PCAA_STATUS_OK, Some buf, Some w)"
    and "capacity \<le> length out"
  shows "pcaa_decode_one (Some buf) (Some d) (Some k) =
      (PCAA_STATUS_OK, Some (canonical_command c), Some w) \<and>
    w \<in> {32, 48, 64} \<and> w \<le> capacity \<and> length buf = length out \<and> drop w buf = drop w out"
proof -
  obtain bs where "wire c = Some bs" "w = length bs" "w \<le> capacity" "buf = bs @ drop w out"
    using encode_one_ok[OF assms] by blast
  moreover from this have "length bs \<in> {32, 48, 64}" by (intro wire_length)
  ultimately show ?thesis using assms(2) by (simp add: pcaa_decode_one_def decode_wire)
qed

theorem encode_then_decode_witness:
  "\<exists>buf. pcaa_encode_one (Some example_project) (Some (replicate 64 7)) 64 (Some 0) =
      (PCAA_STATUS_OK, Some buf, Some 48) \<and>
    pcaa_decode_one (Some buf) (Some example_project) (Some 0) =
      (PCAA_STATUS_OK, Some example_project, Some 48)"
proof -
  have v: "valid_command (Some example_project) =
      Inr (ACCEL_OPCODE_MINPLUS_PROJECT, ACCEL_FORMAT_MINPLUS_PROJECT, 48)"
    by code_simp
  then have "pcaa_encode_one (Some example_project) (Some (replicate 64 7)) 64 (Some 0) =
      (PCAA_STATUS_OK, Some (copy_bytes 48 (command_bytes ACCEL_OPCODE_MINPLUS_PROJECT
         ACCEL_FORMAT_MINPLUS_PROJECT example_project) (replicate 64 7)), Some 48)"
    by (simp add: pcaa_encode_one_def)
  moreover have "canonical_command example_project = example_project"
    by (simp add: example_project_def)
  ultimately show ?thesis using encode_then_decode by fastforce
qed

text \<open>
  C26: the wire form is unique. When \<open>pcaa_decode_one\<close> accepts a byte string, encoding the command
  it returned reproduces exactly the bytes that were consumed, so two different byte strings of a
  format never decode to the same command.
\<close>

theorem decode_then_encode:
  assumes "pcaa_decode_one (Some bs) (Some d) (Some k) = (PCAA_STATUS_OK, Some c, Some w)"
    and "w \<le> length out"
  shows "pcaa_encode_one (Some c) (Some out) w (Some n) =
      (PCAA_STATUS_OK, Some (take w bs @ drop w out), Some w) \<and> w \<le> length bs"
proof -
  have d: "decode_core bs = Some (c, w)"
    using assms(1) by (auto simp: pcaa_decode_one_def split: option.splits)
  have "length (take w bs) = w"
    using d by (auto simp: decode_core_def min_def split: if_splits sum.splits option.splits)
  with encode_one_wire[OF wire_decode[OF d] assms(2)] show ?thesis
    by (auto simp: min_def split: if_splits)
qed

theorem decode_then_encode_witness:
  "\<exists>bs. pcaa_decode_one (Some bs) (Some example_project) (Some 0) =
      (PCAA_STATUS_OK, Some example_project, Some 48) \<and>
    pcaa_encode_one (Some example_project) (Some (replicate 48 0)) 48 (Some 0) =
      (PCAA_STATUS_OK, Some (take 48 bs), Some 48)"
proof -
  let ?bs = "command_bytes ACCEL_OPCODE_MINPLUS_PROJECT ACCEL_FORMAT_MINPLUS_PROJECT example_project"
  have "decode_core ?bs = Some (example_project, 48)" by code_simp
  then have "pcaa_decode_one (Some ?bs) (Some example_project) (Some 0) =
      (PCAA_STATUS_OK, Some example_project, Some 48)" by (simp add: pcaa_decode_one_def)
  moreover from decode_then_encode[OF this, of "replicate 48 0" 0]
  have "pcaa_encode_one (Some example_project) (Some (replicate 48 0)) 48 (Some 0) =
      (PCAA_STATUS_OK, Some (take 48 ?bs), Some 48)" by simp
  ultimately show ?thesis by blast
qed

text \<open>
  C27: \<open>pcaa_encode_stream\<close> is all-or-nothing. With a buffer at least as long as the stated
  capacity, the call either returns a failing status and changes neither the buffer nor the byte
  count, or it returns \<open>PCAA_STATUS_OK\<close>; then every command is a non-batch command, the reported
  count is at most \<open>UINT32_MAX\<close> and within the capacity, the rest of the buffer is untouched, and
  decoding command after command from the start of the buffer gives back the submitted commands in
  order, consuming exactly the reported count.
\<close>

theorem encode_stream_all_or_nothing:
  assumes "capacity \<le> length out"
    and "pcaa_encode_stream (Some cs) (Some out) capacity (Some n) = (st, buf, k)"
  shows "(st \<noteq> PCAA_STATUS_OK \<and> buf = Some out \<and> k = Some n) \<or>
    (st = PCAA_STATUS_OK \<and> cs \<noteq> [] \<and> list_all (\<lambda>c. \<not> is_batch c) cs \<and>
     (\<exists>t b. k = Some t \<and> buf = Some b \<and> t \<le> 4294967295 \<and> t \<le> capacity \<and>
        length b = length out \<and>
        decode_stream (length cs) b = Some (map canonical_command cs, drop t out)))"
proof (cases "stream_size_core (Some cs)")
  case (Inl status)
  have "status \<noteq> PCAA_STATUS_OK" using Inl stream_size_not_ok by blast
  with Inl assms show ?thesis by (auto simp: encode_stream_eq)
next
  case (Inr t)
  then have "stream_size_loop cs 0 = Inr t" "cs \<noteq> []"
    by (auto simp: stream_size_core_def split: if_splits)
  then obtain ws where "wires cs = Some ws" "t = length (concat ws)" "t \<le> 4294967295"
      "list_all (\<lambda>c. \<not> is_batch c) cs"
    using stream_size_loop_wires[of cs 0 t] by auto
  with Inr assms \<open>cs \<noteq> []\<close> show ?thesis
    by (auto simp: encode_stream_eq decode_stream_wires split: if_splits)
qed

theorem encode_stream_all_or_nothing_witness:
  "\<exists>b. pcaa_encode_stream (Some [example_project, example_project]) (Some (replicate 100 0)) 100
      (Some 5) = (PCAA_STATUS_OK, Some b, Some 96) \<and>
    decode_stream 2 b = Some ([example_project, example_project], replicate 4 0)"
proof -
  let ?cs = "[example_project, example_project]"
  define b where "b = concat (the (wires ?cs)) @ drop 96 (replicate 100 (0::byte))"
  have "encoded_size_core (Some example_project) = Inr 48" "\<not> is_batch example_project"
    by code_simp+
  then have "stream_size_core (Some ?cs) = Inr 96" by (simp add: stream_size_core_def)
  then have enc: "pcaa_encode_stream (Some ?cs) (Some (replicate 100 0)) 100 (Some 5) =
      (PCAA_STATUS_OK, Some b, Some 96)"
    by (simp add: encode_stream_eq b_def del: wires.simps)
  have "decode_stream (length ?cs) b = Some (map canonical_command ?cs, drop 96 (replicate 100 0))"
    using encode_stream_all_or_nothing[OF _ enc] by simp
  moreover have "map canonical_command ?cs = ?cs" by (simp add: example_project_def)
  ultimately show ?thesis using enc by (simp add: numeral_2_eq_2)
qed

end
