(* ===== verification/Pcaa_Lib.thy ===== *)
theory Pcaa_Lib
  imports Codec_Correct
begin

text \<open>
  The command constructors and the output intersection test of \<open>pcaalib/src/pcaa.c\<close>, the parent
  descriptor of \<open>pcaalib/src/submission.c\<close>, and the dispatch of \<open>pcaalib/src/device.c\<close>. A platform
  device is a record of callbacks over a context \<open>'c\<close>; a missing callback is \<open>None\<close>, and a call
  returns its status and the context afterwards.
\<close>

section \<open>Constructors\<close>

definition constructed ::
  "pcaa_command \<Rightarrow> pcaa_command option \<Rightarrow> pcaa_status \<times> pcaa_command option" where
  "constructed v command =
     (case command of
        None \<Rightarrow> (PCAA_STATUS_INVALID_ARGUMENT, None)
      | Some old \<Rightarrow>
          (case pcaa_encoded_size (Some v) (Some 0) of
             (status, _) \<Rightarrow> (status, if status = PCAA_STATUS_OK then Some v else Some old)))"

definition pcaa_make_reduce2 ::
  "cost_vector_view \<Rightarrow> cost_vector_view \<Rightarrow> u64 \<Rightarrow> bool \<Rightarrow> pcaa_command option
     \<Rightarrow> pcaa_status \<times> pcaa_command option" where
  "pcaa_make_reduce2 first second result with_argmin =
     constructed ((if with_argmin then PCAA_MAP_ADD_REDUCE_MIN_ARGMIN else PCAA_MAP_ADD_REDUCE_MIN)
       \<lparr>r2_first = first, r2_second = second, r2_result = result\<rparr>)"

definition pcaa_make_reduce3 ::
  "cost_vector_view \<Rightarrow> cost_vector_view \<Rightarrow> cost_vector_view \<Rightarrow> u64 \<Rightarrow> bool \<Rightarrow> pcaa_command option
     \<Rightarrow> pcaa_status \<times> pcaa_command option" where
  "pcaa_make_reduce3 first second third result with_argmin =
     constructed ((if with_argmin then PCAA_MAP_ADD3_REDUCE_MIN_ARGMIN
                   else PCAA_MAP_ADD3_REDUCE_MIN)
       \<lparr>r3_first = first, r3_second = second, r3_third = third, r3_result = result\<rparr>)"

definition pcaa_make_cost_add_vector ::
  "cost_vector_view \<Rightarrow> cost_vector_view \<Rightarrow> output_view \<Rightarrow> pcaa_command option
     \<Rightarrow> pcaa_status \<times> pcaa_command option" where
  "pcaa_make_cost_add_vector first second result =
     constructed (PCAA_COST_ADD_VECTOR
       \<lparr>va_first = first, va_second = second, va_result = result\<rparr>)"

definition pcaa_make_minplus_project ::
  "cost_matrix_view \<Rightarrow> cost_vector_view \<Rightarrow> output_view \<Rightarrow> pcaa_command option
     \<Rightarrow> pcaa_status \<times> pcaa_command option" where
  "pcaa_make_minplus_project matrix vector result =
     constructed (PCAA_MINPLUS_PROJECT
       \<lparr>pj_matrix = matrix, pj_vector = vector, pj_result = result\<rparr>)"

definition pcaa_make_minplus_map3_project ::
  "cost_vector_view \<Rightarrow> cost_vector_view \<Rightarrow> cost_matrix_view \<Rightarrow> output_view \<Rightarrow> pcaa_command option
     \<Rightarrow> pcaa_status \<times> pcaa_command option" where
  "pcaa_make_minplus_map3_project first second third result =
     constructed (PCAA_MINPLUS_MAP3_PROJECT
       \<lparr>m3_first = first, m3_second = second, m3_third = third, m3_result = result\<rparr>)"

definition pcaa_make_ordered_batch ::
  "u64 \<Rightarrow> u64 \<Rightarrow> u64 \<Rightarrow> u64 \<Rightarrow> pcaa_command option \<Rightarrow> pcaa_status \<times> pcaa_command option" where
  "pcaa_make_ordered_batch child_descriptors count child_bytes result =
     constructed (PCAA_ORDERED_BATCH
       \<lparr>br_child_descriptors = child_descriptors, br_count = count, br_child_bytes = child_bytes,
        br_result = result\<rparr>)"

definition pcaa_encode_batch ::
  "u64 \<Rightarrow> u64 \<Rightarrow> u64 \<Rightarrow> u64 \<Rightarrow> byte list option \<Rightarrow> nat option
     \<Rightarrow> pcaa_status \<times> byte list option \<times> nat option" where
  "pcaa_encode_batch child_descriptors count child_bytes result output bytes_written =
     (if output = None \<or> bytes_written = None
      then (PCAA_STATUS_INVALID_ARGUMENT, output, bytes_written)
      else case pcaa_make_ordered_batch child_descriptors count child_bytes result
               (Some (PCAA_ORDERED_BATCH \<lparr>br_child_descriptors = 0, br_count = 0,
                  br_child_bytes = 0, br_result = 0\<rparr>)) of
          (status, command) \<Rightarrow>
            if status \<noteq> PCAA_STATUS_OK then (status, output, bytes_written)
            else pcaa_encode_one command output ACCEL_COMMAND_MAX_BYTES bytes_written)"

section \<open>Output intersection\<close>

text \<open>Base, count, stride and element width of the output of a non-batch command.\<close>

fun output_shape :: "pcaa_command \<Rightarrow> (u64 \<times> u64 \<times> u64 \<times> u64) option" where
  "output_shape (PCAA_MAP_ADD_REDUCE_MIN v) = Some (r2_result v, 1, 1, 4)"
| "output_shape (PCAA_MAP_ADD_REDUCE_MIN_ARGMIN v) = Some (r2_result v, 1, 1, 8)"
| "output_shape (PCAA_MAP_ADD3_REDUCE_MIN v) = Some (r3_result v, 1, 1, 4)"
| "output_shape (PCAA_MAP_ADD3_REDUCE_MIN_ARGMIN v) = Some (r3_result v, 1, 1, 8)"
| "output_shape (PCAA_COST_ADD_VECTOR v) =
     Some (ov_base (va_result v), ov_length (va_result v), ov_stride (va_result v), 4)"
| "output_shape (PCAA_MINPLUS_PROJECT v) =
     Some (ov_base (pj_result v), ov_length (pj_result v), ov_stride (pj_result v), 4)"
| "output_shape (PCAA_MINPLUS_MAP3_PROJECT v) =
     Some (ov_base (m3_result v), ov_length (m3_result v), ov_stride (m3_result v), 8)"
| "output_shape (PCAA_ORDERED_BATCH v) = None"

definition pcaa_output_overlaps :: "pcaa_command option \<Rightarrow> u64 \<Rightarrow> u64 \<Rightarrow> bool" where
  "pcaa_output_overlaps command begin_addr end_addr =
     (case command of
        None \<Rightarrow> True
      | Some c \<Rightarrow>
          if is_batch c \<or> begin_addr > end_addr then True
          else case output_shape c of
              None \<Rightarrow> True
            | Some (base, count, stride, width) \<Rightarrow>
                if base = 0 \<or> count = 0 \<or> stride = 0 \<or> count > UINT16_MAX \<or>
                   stride > UINT16_MAX \<or> base > UINT64_MAX - width \<or>
                   (count - 1) * stride > (UINT64_MAX - base - width) div width
                then True
                else list_ex (\<lambda>index.
                    let address = base + of_nat index * stride * width
                    in address < end_addr \<and> begin_addr < address + width) [0..<unat count])"

section \<open>Device dispatch\<close>

record pcaa_completion =
  cp_has_batch_result :: bool
  cp_completed :: u32
  cp_failed_index :: u32

record 'c pcaa_device =
  dev_submit_command :: "('c \<Rightarrow> pcaa_command \<Rightarrow> pcaa_status \<times> 'c) option"
  dev_submit_batch :: "('c \<Rightarrow> pcaa_command list \<Rightarrow> pcaa_status \<times> 'c) option"
  dev_wait :: "('c \<Rightarrow> pcaa_completion option \<Rightarrow> pcaa_status \<times> 'c \<times> pcaa_completion option) option"

definition pcaa_device_submit ::
  "'c pcaa_device option \<Rightarrow> 'c \<Rightarrow> pcaa_command option \<Rightarrow> pcaa_status \<times> 'c" where
  "pcaa_device_submit device context command =
     (case (Option.bind device dev_submit_command, command) of
        (Some submit, Some c) \<Rightarrow> submit context c
      | _ \<Rightarrow> (PCAA_STATUS_INVALID_ARGUMENT, context))"

definition pcaa_device_submit_batch ::
  "'c pcaa_device option \<Rightarrow> 'c \<Rightarrow> pcaa_command list option \<Rightarrow> pcaa_status \<times> 'c" where
  "pcaa_device_submit_batch device context commands =
     (case (Option.bind device dev_submit_batch, commands) of
        (Some submit, Some cs) \<Rightarrow>
          if cs = [] then (PCAA_STATUS_INVALID_ARGUMENT, context) else submit context cs
      | _ \<Rightarrow> (PCAA_STATUS_INVALID_ARGUMENT, context))"

definition reset_completion :: pcaa_completion where
  "reset_completion = \<lparr>cp_has_batch_result = False, cp_completed = 0, cp_failed_index = 4294967295\<rparr>"

definition pcaa_device_wait ::
  "'c pcaa_device option \<Rightarrow> 'c \<Rightarrow> pcaa_completion option
     \<Rightarrow> pcaa_status \<times> 'c \<times> pcaa_completion option" where
  "pcaa_device_wait device context completion =
     (let completion = map_option (\<lambda>_. reset_completion) completion
      in case Option.bind device dev_wait of
           None \<Rightarrow> (PCAA_STATUS_INVALID_ARGUMENT, context, completion)
         | Some wait \<Rightarrow> wait context completion)"

fun pcaa_status_string :: "pcaa_status \<Rightarrow> string" where
  "pcaa_status_string PCAA_STATUS_OK = ''ok''"
| "pcaa_status_string PCAA_STATUS_INVALID_ARGUMENT = ''invalid argument''"
| "pcaa_status_string PCAA_STATUS_INVALID_COMMAND = ''invalid command''"
| "pcaa_status_string PCAA_STATUS_RANGE = ''dimension or stride exceeds descriptor range''"
| "pcaa_status_string PCAA_STATUS_BUSY = ''submission in progress''"
| "pcaa_status_string PCAA_STATUS_NO_PENDING = ''no pending submission''"
| "pcaa_status_string PCAA_STATUS_NO_SPACE = ''submission storage exhausted''"
| "pcaa_status_string PCAA_STATUS_MEMORY_ERROR = ''guest memory access failed''"
| "pcaa_status_string PCAA_STATUS_TRANSPORT_ERROR = ''transport failed''"
| "pcaa_status_string PCAA_STATUS_DEVICE_ERROR = ''device reported error''"

section \<open>The bytes a command writes\<close>

text \<open>
  Where the results of a command belong, in natural numbers so that nothing can wrap: base, number of
  elements, distance of two elements in elements, and bytes of an element. A minimum is a 4-byte cost, a
  minimum with its index an 8-byte record, as the result columns of \<open>accel_protocol.h\<close> say. This table is
  the specification; \<open>output_shape\<close> above is the switch of the library, and the device has its own.
\<close>

fun output_place :: "pcaa_command \<Rightarrow> nat \<times> nat \<times> nat \<times> nat" where
  "output_place (PCAA_MAP_ADD_REDUCE_MIN v) = (unat (r2_result v), 1, 1, 4)"
| "output_place (PCAA_MAP_ADD3_REDUCE_MIN v) = (unat (r3_result v), 1, 1, 4)"
| "output_place (PCAA_MAP_ADD_REDUCE_MIN_ARGMIN v) = (unat (r2_result v), 1, 1, 8)"
| "output_place (PCAA_MAP_ADD3_REDUCE_MIN_ARGMIN v) = (unat (r3_result v), 1, 1, 8)"
| "output_place (PCAA_COST_ADD_VECTOR v) =
     (unat (ov_base (va_result v)), unat (ov_length (va_result v)), unat (ov_stride (va_result v)), 4)"
| "output_place (PCAA_MINPLUS_PROJECT v) =
     (unat (ov_base (pj_result v)), unat (ov_length (pj_result v)), unat (ov_stride (pj_result v)), 4)"
| "output_place (PCAA_MINPLUS_MAP3_PROJECT v) =
     (unat (ov_base (m3_result v)), unat (ov_length (m3_result v)), unat (ov_stride (m3_result v)), 8)"
| "output_place (PCAA_ORDERED_BATCH v) = (0, 0, 0, 0)"

text \<open>The bytes a command writes: element \<open>i\<close> occupies \<open>width\<close> bytes from \<open>base + i * stride * width\<close>.\<close>

definition output_bytes :: "pcaa_command \<Rightarrow> nat set" where
  "output_bytes c =
     (case output_place c of (base, count, stride, width) \<Rightarrow>
        {base + i * stride * width + j | i j. i < count \<and> j < width})"

lemma shape_place:
  "output_shape c = Some (base, count, stride, width) \<Longrightarrow>
   output_place c = (unat base, unat count, unat stride, unat width)"
  by (cases c) auto

lemma constructed_ok_iff:
  "constructed v (Some old) = (PCAA_STATUS_OK, Some v') \<longleftrightarrow>
     v' = v \<and> (\<exists>r. valid_command (Some v) = Inr r)"
  using valid_not_ok[of "Some v"]
  by (auto simp: constructed_def pcaa_encoded_size_def c_call_def encoded_size_core_def
      split: sum.splits)

lemma fit16_iff: "fit16 x = PCAA_STATUS_OK \<longleftrightarrow> unat x \<le> 65535"
  by (auto simp: fit16_def not_less word_le_nat_alt word_less_nat_alt)

text \<open>An accepted command has an output that satisfies the span test of the codec.\<close>

lemma valid_output:
  assumes "valid_command (Some c) = Inr r" and "output_shape c = Some (base, count, stride, width)"
  shows "\<exists>e. span base 1 count 0 stride width = Some e" and "unat count \<le> 65535"
    and "unat stride \<le> 65535" and "width = 4 \<or> width = 8"
  using assms
  by (cases c; auto simp: fit16_iff valid_reduce2_def valid_reduce3_def valid_vector_add_def
      valid_project_def valid_map3_project_def split: if_splits option.splits)+

lemma unat_of_nat_below: "i < unat (x::u64) \<Longrightarrow> unat (of_nat i :: u64) = i"
  using u64_less[of x] by (simp add: unat_of_nat take_bit_nat_eq_self)

lemma output_extent:
  assumes sp: "span base 1 count 0 stride width = Some e" and fit: "unat count \<le> 65535"
    "unat stride \<le> 65535" and w: "width = 4 \<or> width = 8" and i: "i < unat count"
  shows "unat (base + of_nat i * stride * width) = unat base + i * unat stride * unat width"
    and "unat base + i * unat stride * unat width + unat width < 2 ^ 64"
    and "i * unat stride * unat width + unat width \<le>
      ((unat count - 1) * unat stride + 1) * unat width"
proof -
  have lt: "unat base + ((unat count - 1) * unat stride + 1) * unat width < 2 ^ 64"
    using sp fit w span_exact[of 1 count 0 stride width base e] by simp
  have "i * unat stride \<le> (unat count - 1) * unat stride" using i by (intro mult_le_mono1) simp
  then have "(i * unat stride + 1) * unat width \<le> ((unat count - 1) * unat stride + 1) * unat width"
    by (intro mult_le_mono1) simp
  then show ext: "i * unat stride * unat width + unat width \<le>
      ((unat count - 1) * unat stride + 1) * unat width" by (simp add: algebra_simps)
  with lt show bound: "unat base + i * unat stride * unat width + unat width < 2 ^ 64" by linarith
  have oi: "unat (of_nat i :: u64) = i" using i by (rule unat_of_nat_below)
  have "i * unat stride \<le> 65535 * 65535" using i fit by (intro mult_le_mono) simp_all
  then have ist: "unat (of_nat i * stride) = i * unat stride"
    by (subst u64_mult_exact) (simp_all add: oi)
  have "unat (of_nat i * stride * width) = i * unat stride * unat width"
    using bound by (subst u64_mult_exact) (simp_all add: ist)
  then show "unat (base + of_nat i * stride * width) = unat base + i * unat stride * unat width"
    using bound by (subst u64_add_exact) simp_all
qed

lemma interval_meets:
  "0 < (w::nat) \<Longrightarrow> b < e \<Longrightarrow> (\<exists>j<w. b \<le> a + j \<and> a + j < e) \<longleftrightarrow> a < e \<and> b < a + w"
proof (safe, goal_cases)
  case 3
  then show ?case
    by (cases "b \<le> a") (auto intro: exI[of _ 0] exI[of _ "b - a"])
qed auto

text \<open>
  C28: the output test of \<open>pcaa.c\<close> that protects the descriptor stream is exact. For a command the
  codec accepts and a non-empty range of addresses, \<open>pcaa_output_overlaps\<close> answers whether some
  byte of the results the command has by the protocol lies in the range, although it computes every
  address in wrapping 64-bit arithmetic and takes base, count, stride and width from a switch of its own.
\<close>

theorem output_overlaps_exact:
  assumes "valid_command (Some c) = Inr r" and "\<not> is_batch c" and "begin_addr < end_addr"
  shows "pcaa_output_overlaps (Some c) begin_addr end_addr \<longleftrightarrow>
    output_bytes c \<inter> {unat begin_addr..<unat end_addr} \<noteq> {}"
proof -
  obtain base count stride width where sh: "output_shape c = Some (base, count, stride, width)"
    using assms(2) by (cases c) auto
  note v = valid_output[OF assms(1) sh]
  then obtain e where sp: "span base 1 count 0 stride width = Some e" by blast
  note ext = output_extent[OF sp v(2-4)]
  have guard: "\<not> (base = 0 \<or> count = 0 \<or> stride = 0 \<or> count > UINT16_MAX \<or>
      stride > UINT16_MAX \<or> base > UINT64_MAX - width \<or>
      (count - 1) * stride > (UINT64_MAX - base - width) div width)"
    using sp v(2,3) by (auto simp: span_def word_less_nat_alt Let_def split: if_splits)
  have addr: "(base + of_nat i * stride * width < end_addr \<and>
      begin_addr < base + of_nat i * stride * width + width) \<longleftrightarrow>
      (\<exists>j < unat width. unat base + i * unat stride * unat width + j
         \<in> {unat begin_addr..<unat end_addr})" (is "?l \<longleftrightarrow> ?r") if "i < unat count" for i
  proof -
    have "unat (base + of_nat i * stride * width + width) =
        unat base + i * unat stride * unat width + unat width"
      using ext(1,2)[OF that] by (subst u64_add_exact) simp_all
    then have "?l \<longleftrightarrow> unat base + i * unat stride * unat width < unat end_addr \<and>
        unat begin_addr < unat base + i * unat stride * unat width + unat width"
      using ext(1)[OF that] by (simp add: word_less_nat_alt)
    also have "\<dots> \<longleftrightarrow> ?r" using assms(3) v(4) by (auto simp: word_less_nat_alt interval_meets)
    finally show ?thesis .
  qed
  have "pcaa_output_overlaps (Some c) begin_addr end_addr \<longleftrightarrow> (\<exists>i < unat count.
      base + of_nat i * stride * width < end_addr \<and>
      begin_addr < base + of_nat i * stride * width + width)"
    using assms(2,3) guard sh
    by (simp add: pcaa_output_overlaps_def list_ex_iff Bex_def Let_def) auto
  also have "\<dots> \<longleftrightarrow> (\<exists>i < unat count. \<exists>j < unat width.
      unat base + i * unat stride * unat width + j \<in> {unat begin_addr..<unat end_addr})"
    using addr by blast
  also have "\<dots> \<longleftrightarrow> output_bytes c \<inter> {unat begin_addr..<unat end_addr} \<noteq> {}"
    by (auto simp: output_bytes_def shape_place[OF sh] disjoint_iff)
  finally show ?thesis .
qed

theorem output_overlaps_exact_witness:
  "pcaa_output_overlaps (Some example_project) 12292 12296 \<and>
   \<not> pcaa_output_overlaps (Some example_project) 12296 12300"
proof -
  have v: "valid_command (Some example_project) =
      Inr (ACCEL_OPCODE_MINPLUS_PROJECT, ACCEL_FORMAT_MINPLUS_PROJECT, 48)" by code_simp
  have b: "output_bytes example_project = {12288 + i * 4 + j | i j. i < 2 \<and> j < 4}"
    by (simp add: output_bytes_def example_project_def view_defs)
  have "12288 + 1 * 4 + 0 \<in> output_bytes example_project" unfolding b by fastforce
  moreover have "x < 12296" if "x \<in> output_bytes example_project" for x using that unfolding b by auto
  moreover have "\<not> is_batch example_project" by (simp add: example_project_def)
  ultimately show ?thesis
    using output_overlaps_exact[OF v, of 12292 12296] output_overlaps_exact[OF v, of 12296 12300]
    by (fastforce simp: disjoint_iff)
qed

end
