(* ===== verification/Timing_Model.thy ===== *)
theory Timing_Model
  imports Pcaa_Lib
begin

text \<open>
  The L1 cycle model of \<open>accelerator/src/timing_model.cpp\<close>. Configuration fields are 32-bit and
  counters 64-bit words, as in \<open>timing_model.h\<close>, so sums wrap where the C++ sums do. SystemC time is
  a type \<open>'t\<close> the model does not look into: \<open>tc_charge\<close> is \<open>*delay += cycle_period * cycles\<close>,
  and \<open>None\<close> stands for a \<open>cycle_period\<close> of \<open>SC_ZERO_TIME\<close>.
\<close>

datatype accel_timing_mode = kUntimed | kL1Sequential | kL1Streaming

record 't accel_timing_config =
  tc_mode :: accel_timing_mode
  tc_lanes :: u32
  tc_descriptor_bytes_per_cycle :: u32
  tc_memory_read_bytes_per_cycle :: u32
  tc_memory_write_bytes_per_cycle :: u32
  tc_batch_start_cycles :: u32
  tc_primitive_start_cycles :: u32
  tc_map_pipeline_latency :: u32
  tc_add3_map_extra_latency :: u32
  tc_reduction_tree_latency :: u32
  tc_result_latency :: u32
  tc_charge :: "(u64 \<Rightarrow> 't \<Rightarrow> 't) option"

record accel_timing_statistics =
  ts_descriptor_cycles :: u64
  ts_operand_read_cycles :: u64
  ts_compute_cycles :: u64
  ts_result_write_cycles :: u64
  ts_total_service_cycles :: u64
  ts_primitive_count :: u64
  ts_batch_count :: u64
  ts_memory_dominant_primitives :: u64
  ts_compute_dominant_primitives :: u64
  ts_lane_slots :: u64
  ts_active_lane_elements :: u64

record accel_command_timing =
  ct_descriptor_cycles :: u64
  ct_operand_read_cycles :: u64
  ct_compute_cycles :: u64
  ct_result_write_cycles :: u64
  ct_total_cycles :: u64

definition no_timing :: accel_command_timing where
  "no_timing = \<lparr>ct_descriptor_cycles = 0, ct_operand_read_cycles = 0, ct_compute_cycles = 0,
     ct_result_write_cycles = 0, ct_total_cycles = 0\<rparr>"

definition zero_statistics :: accel_timing_statistics where
  "zero_statistics = \<lparr>ts_descriptor_cycles = 0, ts_operand_read_cycles = 0, ts_compute_cycles = 0,
     ts_result_write_cycles = 0, ts_total_service_cycles = 0, ts_primitive_count = 0,
     ts_batch_count = 0, ts_memory_dominant_primitives = 0, ts_compute_dominant_primitives = 0,
     ts_lane_slots = 0, ts_active_lane_elements = 0\<rparr>"

definition divide_round_up :: "u64 \<Rightarrow> u32 \<Rightarrow> u64" where
  "divide_round_up v divisor = (v + ucast divisor - 1) div ucast divisor"

text \<open>
  The local \<open>n\<close> and \<open>outputs\<close> of both functions. For a batch the source reads \<open>reduce2.first.length\<close>
  of the union, which is the storage of \<open>batch.count\<close>.
\<close>

fun timing_n :: "pcaa_command \<Rightarrow> u64" where
  "timing_n (PCAA_MAP_ADD3_REDUCE_MIN v) = vv_length (r3_first v)"
| "timing_n (PCAA_MAP_ADD3_REDUCE_MIN_ARGMIN v) = vv_length (r3_first v)"
| "timing_n (PCAA_COST_ADD_VECTOR v) = vv_length (va_first v)"
| "timing_n (PCAA_MINPLUS_PROJECT v) = mv_columns (pj_matrix v)"
| "timing_n (PCAA_MINPLUS_MAP3_PROJECT v) = vv_length (m3_first v)"
| "timing_n (PCAA_MAP_ADD_REDUCE_MIN v) = vv_length (r2_first v)"
| "timing_n (PCAA_MAP_ADD_REDUCE_MIN_ARGMIN v) = vv_length (r2_first v)"
| "timing_n (PCAA_ORDERED_BATCH v) = br_count v"

fun timing_outputs :: "pcaa_command \<Rightarrow> u64" where
  "timing_outputs (PCAA_MINPLUS_PROJECT v) = ov_length (pj_result v)"
| "timing_outputs (PCAA_MINPLUS_MAP3_PROJECT v) = ov_length (m3_result v)"
| "timing_outputs _ = 1"

fun operand_elements :: "pcaa_command \<Rightarrow> u64" where
  "operand_elements (PCAA_MINPLUS_PROJECT v) =
     mv_columns (pj_matrix v) * (ov_length (pj_result v) + 1)"
| "operand_elements (PCAA_MINPLUS_MAP3_PROJECT v) =
     vv_length (m3_first v) * (ov_length (m3_result v) + 2)"
| "operand_elements (PCAA_MAP_ADD3_REDUCE_MIN v) = vv_length (r3_first v) * 3"
| "operand_elements (PCAA_MAP_ADD3_REDUCE_MIN_ARGMIN v) = vv_length (r3_first v) * 3"
| "operand_elements c = timing_n c * 2"

fun result_bytes :: "pcaa_command \<Rightarrow> u64" where
  "result_bytes (PCAA_MINPLUS_MAP3_PROJECT v) = ov_length (m3_result v) * 8"
| "result_bytes (PCAA_COST_ADD_VECTOR v) = vv_length (va_first v) * 4"
| "result_bytes (PCAA_MINPLUS_PROJECT v) = ov_length (pj_result v) * 4"
| "result_bytes (PCAA_MAP_ADD_REDUCE_MIN_ARGMIN v) = 8"
| "result_bytes (PCAA_MAP_ADD3_REDUCE_MIN_ARGMIN v) = 8"
| "result_bytes _ = 4"

fun three_operands :: "pcaa_command \<Rightarrow> bool" where
  "three_operands (PCAA_MAP_ADD3_REDUCE_MIN _) = True"
| "three_operands (PCAA_MAP_ADD3_REDUCE_MIN_ARGMIN _) = True"
| "three_operands (PCAA_MINPLUS_MAP3_PROJECT _) = True"
| "three_operands _ = False"

definition accel_estimate_command_cycles ::
  "pcaa_command \<Rightarrow> 't accel_timing_config \<Rightarrow> accel_command_timing" where
  "accel_estimate_command_cycles command config =
     (if tc_mode config = kUntimed \<or> tc_lanes config = 0 \<or>
         tc_descriptor_bytes_per_cycle config = 0 \<or> tc_memory_read_bytes_per_cycle config = 0 \<or>
         tc_memory_write_bytes_per_cycle config = 0 then no_timing
      else let chunks = divide_round_up (timing_n command) (tc_lanes config) *
                 timing_outputs command
        in case encoded_size_core (Some command) of
             Inl _ \<Rightarrow> no_timing
           | Inr descriptor_bytes \<Rightarrow>
               let descriptor = divide_round_up (of_nat descriptor_bytes)
                     (tc_descriptor_bytes_per_cycle config);
                   reads = divide_round_up (operand_elements command * 4)
                     (tc_memory_read_bytes_per_cycle config);
                   compute = ucast (tc_primitive_start_cycles config +
                       tc_map_pipeline_latency config) + chunks +
                     ucast (tc_reduction_tree_latency config) + ucast (tc_result_latency config) +
                     (if three_operands command then ucast (tc_add3_map_extra_latency config) else 0);
                   writes = divide_round_up (result_bytes command)
                     (tc_memory_write_bytes_per_cycle config)
               in \<lparr>ct_descriptor_cycles = descriptor, ct_operand_read_cycles = reads,
                   ct_compute_cycles = compute, ct_result_write_cycles = writes,
                   ct_total_cycles =
                     (if tc_mode config = kL1Sequential then descriptor + reads + compute + writes
                      else descriptor + max reads compute + writes)\<rparr>)"

definition accel_accumulate_semantic_command_timing ::
  "pcaa_command \<Rightarrow> 't accel_timing_config \<Rightarrow> accel_timing_statistics
     \<Rightarrow> accel_timing_statistics" where
  "accel_accumulate_semantic_command_timing command config s =
     (let timing = accel_estimate_command_cycles command config;
          n = timing_n command;
          outputs = timing_outputs command;
          chunks = divide_round_up n (tc_lanes config) * outputs
      in if ct_total_cycles timing = 0 then s
         else s\<lparr>ts_descriptor_cycles := ts_descriptor_cycles s + ct_descriptor_cycles timing,
           ts_operand_read_cycles := ts_operand_read_cycles s + ct_operand_read_cycles timing,
           ts_compute_cycles := ts_compute_cycles s + ct_compute_cycles timing,
           ts_result_write_cycles := ts_result_write_cycles s + ct_result_write_cycles timing,
           ts_total_service_cycles := ts_total_service_cycles s + ct_total_cycles timing,
           ts_primitive_count := ts_primitive_count s + 1,
           ts_lane_slots := ts_lane_slots s + chunks * ucast (tc_lanes config),
           ts_active_lane_elements := ts_active_lane_elements s + n * outputs,
           ts_memory_dominant_primitives := ts_memory_dominant_primitives s +
             (if ct_operand_read_cycles timing > ct_compute_cycles timing then 1 else 0),
           ts_compute_dominant_primitives := ts_compute_dominant_primitives s +
             (if ct_operand_read_cycles timing > ct_compute_cycles timing then 0 else 1)\<rparr>)"

end
