(* ===== verification/Guest_Memory.thy ===== *)
theory Guest_Memory
  imports Pcaa_Prelude
begin

text \<open>
  Guest physical memory as the device sees it. \<open>memory_interface\<close> is the virtual interface of
  \<open>accelerator/include/memory_interface.h\<close>: a failed read is \<open>None\<close>, a write returns whether it
  succeeded and the memory afterwards. The locale \<open>guest_memory\<close> states what a client relies on, in
  terms of a byte map: accesses of at least one byte succeed exactly on mapped ranges, and a failed
  write changes nothing. It is interpreted on \<open>GuestMemory\<close> of \<open>tools/pbqp_model_kernel.cpp\<close>, and
  \<open>SpikeMemory\<close> of \<open>accelerator/src/spike_device.cpp\<close> is shown to keep the contract of the
  simulator it wraps, with the control region unmapped.
\<close>

section \<open>The interface\<close>

record 'm memory_interface =
  mi_read :: "'m \<Rightarrow> u64 \<Rightarrow> nat \<Rightarrow> byte list option"
  mi_write :: "'m \<Rightarrow> u64 \<Rightarrow> byte list \<Rightarrow> bool \<times> 'm"

definition store_bytes :: "(nat \<Rightarrow> byte) \<Rightarrow> nat \<Rightarrow> byte list \<Rightarrow> nat \<Rightarrow> byte" where
  "store_bytes f a bs = (\<lambda>x. if a \<le> x \<and> x < a + length bs then bs ! (x - a) else f x)"

definition load_bytes :: "(nat \<Rightarrow> byte) \<Rightarrow> nat \<Rightarrow> nat \<Rightarrow> byte list" where
  "load_bytes f a n = map (\<lambda>i. f (a + i)) [0..<n]"

section \<open>GuestMemory\<close>

record guest_memory_state =
  gm_limit :: nat
  gm_bytes :: "byte list"
  gm_next_address :: u64

abbreviation (input) kInitialGuestMemoryBytes :: nat where
  "kInitialGuestMemoryBytes \<equiv> 1048576"
abbreviation (input) kFirstAllocationAddress :: u64 where
  "kFirstAllocationAddress \<equiv> 256"
abbreviation (input) kAllocationAlignment :: u64 where
  "kAllocationAlignment \<equiv> 8"

definition gm_init :: "nat \<Rightarrow> guest_memory_state" where
  "gm_init limit = \<lparr>gm_limit = limit, gm_bytes = replicate (min limit kInitialGuestMemoryBytes) 0,
     gm_next_address = kFirstAllocationAddress\<rparr>"

definition gm_contains :: "guest_memory_state \<Rightarrow> u64 \<Rightarrow> nat \<Rightarrow> bool" where
  "gm_contains m address size_bytes \<longleftrightarrow>
     unat address \<le> length (gm_bytes m) \<and> size_bytes \<le> length (gm_bytes m) - unat address"

definition gm_read :: "guest_memory_state \<Rightarrow> u64 \<Rightarrow> nat \<Rightarrow> byte list option" where
  "gm_read m address size_bytes =
     (if \<not> gm_contains m address size_bytes then None
      else Some (take size_bytes (drop (unat address) (gm_bytes m))))"

definition gm_write :: "guest_memory_state \<Rightarrow> u64 \<Rightarrow> byte list \<Rightarrow> bool \<times> guest_memory_state" where
  "gm_write m address source =
     (if \<not> gm_contains m address (length source) then (False, m)
      else (True, m\<lparr>gm_bytes := take (unat address) (gm_bytes m) @ source @
                     drop (unat address + length source) (gm_bytes m)\<rparr>))"

text \<open>
  \<open>allocate\<close> returns 0 on failure; \<open>resizable n\<close> says whether the host can grow the vector to \<open>n\<close>
  bytes (\<open>std::vector::resize\<close> throws otherwise).
\<close>

definition gm_allocate ::
  "(nat \<Rightarrow> bool) \<Rightarrow> guest_memory_state \<Rightarrow> u64 \<Rightarrow> u64 \<Rightarrow> u64 \<times> guest_memory_state" where
  "gm_allocate resizable m size_bytes alignment =
     (let aligned = (gm_next_address m + alignment - 1) div alignment * alignment
      in if aligned > 18446744073709551615 - size_bytes then (0, m)
         else let end_addr = aligned + size_bytes
           in if unat end_addr > gm_limit m then (0, m)
              else if unat end_addr > length (gm_bytes m) then
                if \<not> resizable (unat end_addr) then (0, m)
                else (aligned, m\<lparr>gm_bytes := gm_bytes m @
                        replicate (unat end_addr - length (gm_bytes m)) 0,
                        gm_next_address := end_addr\<rparr>)
              else (aligned, m\<lparr>gm_next_address := end_addr\<rparr>))"

definition gm_reset :: "guest_memory_state \<Rightarrow> guest_memory_state" where
  "gm_reset m = m\<lparr>gm_next_address := kFirstAllocationAddress\<rparr>"

definition gm_interface :: "guest_memory_state memory_interface" where
  "gm_interface = \<lparr>mi_read = gm_read, mi_write = gm_write\<rparr>"

section \<open>SpikeMemory\<close>

definition overlaps_control :: "u64 \<Rightarrow> u64 \<Rightarrow> u64 \<Rightarrow> nat \<Rightarrow> bool" where
  "overlaps_control control_base control_size address size_bytes =
     (if size_bytes = 0 then False
      else if address \<ge> control_base then address - control_base < control_size
      else unat (control_base - address) < size_bytes)"

definition spike_memory :: "'m memory_interface \<Rightarrow> u64 \<Rightarrow> u64 \<Rightarrow> 'm memory_interface" where
  "spike_memory simulator control_base control_size =
     \<lparr>mi_read = (\<lambda>m address n.
        if overlaps_control control_base control_size address n then None
        else mi_read simulator m address n),
      mi_write = (\<lambda>m address source.
        if overlaps_control control_base control_size address (length source) then (False, m)
        else mi_write simulator m address source)\<rparr>"

section \<open>Byte maps\<close>

lemma length_load_bytes [simp]: "length (load_bytes f a n) = n"
  by (simp add: load_bytes_def)

lemma nth_load_bytes [simp]: "i < n \<Longrightarrow> load_bytes f a n ! i = f (a + i)"
  by (simp add: load_bytes_def)

lemma load_store_same: "load_bytes (store_bytes f a bs) a (length bs) = bs"
  by (rule nth_equalityI) (auto simp: store_bytes_def)

lemma load_store_other:
  "b + n \<le> a \<or> a + length bs \<le> b \<Longrightarrow> load_bytes (store_bytes f a bs) b n = load_bytes f b n"
  by (rule nth_equalityI) (auto simp: store_bytes_def)

lemma load_bytes_cong: "(\<And>x. a \<le> x \<Longrightarrow> x < a + n \<Longrightarrow> f x = g x) \<Longrightarrow> load_bytes f a n = load_bytes g a n"
  by (simp add: load_bytes_def)

section \<open>The contract\<close>

locale guest_memory =
  fixes mi :: "'m memory_interface"
    and byte_at :: "'m \<Rightarrow> nat \<Rightarrow> byte"
    and mapped :: "'m \<Rightarrow> nat set"
  assumes read_mapped:
      "0 < n \<Longrightarrow> {unat a..<unat a + n} \<subseteq> mapped m \<Longrightarrow>
       mi_read mi m a n = Some (load_bytes (byte_at m) (unat a) n)"
    and read_unmapped:
      "0 < n \<Longrightarrow> \<not> {unat a..<unat a + n} \<subseteq> mapped m \<Longrightarrow> mi_read mi m a n = None"
    and write_mapped:
      "bs \<noteq> [] \<Longrightarrow> {unat a..<unat a + length bs} \<subseteq> mapped m \<Longrightarrow> mi_write mi m a bs = (ok, m') \<Longrightarrow>
       ok \<and> byte_at m' = store_bytes (byte_at m) (unat a) bs \<and> mapped m' = mapped m"
    and write_unmapped:
      "bs \<noteq> [] \<Longrightarrow> \<not> {unat a..<unat a + length bs} \<subseteq> mapped m \<Longrightarrow> mi_write mi m a bs = (False, m)"
begin

lemma read_some:
  "0 < n \<Longrightarrow> mi_read mi m a n = Some bs \<longleftrightarrow>
     {unat a..<unat a + n} \<subseteq> mapped m \<and> bs = load_bytes (byte_at m) (unat a) n"
  using read_mapped[of n a m] read_unmapped[of n a m] by (cases "{unat a..<unat a + n} \<subseteq> mapped m") auto

lemma write_true:
  assumes "bs \<noteq> []" and "mi_write mi m a bs = (True, m')"
  shows "{unat a..<unat a + length bs} \<subseteq> mapped m"
    and "byte_at m' = store_bytes (byte_at m) (unat a) bs" and "mapped m' = mapped m"
proof -
  show "{unat a..<unat a + length bs} \<subseteq> mapped m"
    using write_unmapped[of bs a m] assms by (metis Pair_inject)
  with assms write_mapped[of bs a m True m'] show "byte_at m' = store_bytes (byte_at m) (unat a) bs"
    "mapped m' = mapped m" by auto
qed

lemma write_false: "bs \<noteq> [] \<Longrightarrow> mi_write mi m a bs = (False, m') \<Longrightarrow> m' = m"
  using write_mapped[of bs a m False m'] write_unmapped[of bs a m] by auto

lemma read_after_write:
  "bs \<noteq> [] \<Longrightarrow> mi_write mi m a bs = (True, m') \<Longrightarrow> mi_read mi m' a (length bs) = Some bs"
  using write_true[of bs m a m'] by (simp add: read_mapped load_store_same)

lemma read_after_write_other:
  assumes "bs \<noteq> []" and "mi_write mi m a bs = (ok, m')" and "0 < n"
    and "unat b + n \<le> unat a \<or> unat a + length bs \<le> unat b"
  shows "mi_read mi m' b n = mi_read mi m b n"
proof (cases ok)
  case True
  then have "byte_at m' = store_bytes (byte_at m) (unat a) bs" "mapped m' = mapped m"
    using write_true[OF assms(1), of m a m'] assms(2) by simp_all
  with assms(4) read_mapped[OF assms(3), of b m] read_mapped[OF assms(3), of b m']
    read_unmapped[OF assms(3), of b m] read_unmapped[OF assms(3), of b m'] show ?thesis
    by (cases "{unat b..<unat b + n} \<subseteq> mapped m") (simp_all only: load_store_other
        not_False_eq_True True_implies_equals)
next
  case False
  with assms(2) write_false[OF assms(1), of m a m'] show ?thesis by simp
qed

end

section \<open>GuestMemory meets the contract\<close>

definition gm_mapped :: "guest_memory_state \<Rightarrow> nat set" where
  "gm_mapped m = {..<length (gm_bytes m)}"

definition gm_byte :: "guest_memory_state \<Rightarrow> nat \<Rightarrow> byte" where
  "gm_byte m x = (if x < length (gm_bytes m) then gm_bytes m ! x else 0)"

lemma gm_contains_mapped:
  "0 < n \<Longrightarrow> gm_contains m a n \<longleftrightarrow> {unat a..<unat a + n} \<subseteq> gm_mapped m"
  by (auto simp: gm_contains_def gm_mapped_def lessThan_atLeast0)

lemma gm_write_bytes:
  assumes "gm_contains m a (length bs)"
  shows "gm_byte (snd (gm_write m a bs)) = store_bytes (gm_byte m) (unat a) bs"
    and "gm_mapped (snd (gm_write m a bs)) = gm_mapped m"
  using assms
  by (auto simp: gm_write_def gm_contains_def gm_byte_def store_bytes_def gm_mapped_def nth_append
      fun_eq_iff)

interpretation gm: guest_memory gm_interface gm_byte gm_mapped
proof unfold_locales
  fix n :: nat and a :: u64 and m
  assume "0 < n" and sub: "{unat a..<unat a + n} \<subseteq> gm_mapped m"
  then have "gm_contains m a n" by (simp add: gm_contains_mapped)
  then show "mi_read gm_interface m a n = Some (load_bytes (gm_byte m) (unat a) n)"
    by (auto simp: gm_interface_def gm_read_def gm_contains_def gm_byte_def intro!: nth_equalityI)
next
  fix n :: nat and a :: u64 and m
  assume "0 < n" and "\<not> {unat a..<unat a + n} \<subseteq> gm_mapped m"
  then show "mi_read gm_interface m a n = None"
    by (simp add: gm_interface_def gm_read_def gm_contains_mapped)
next
  fix bs :: "byte list" and a :: u64 and m ok m'
  assume "bs \<noteq> []" and "{unat a..<unat a + length bs} \<subseteq> gm_mapped m"
    and w: "mi_write gm_interface m a bs = (ok, m')"
  then have c: "gm_contains m a (length bs)" by (simp add: gm_contains_mapped)
  with w have "ok" "m' = snd (gm_write m a bs)" by (auto simp: gm_interface_def gm_write_def)
  with gm_write_bytes[OF c] show "ok \<and> gm_byte m' = store_bytes (gm_byte m) (unat a) bs \<and>
      gm_mapped m' = gm_mapped m" by simp
next
  fix bs :: "byte list" and a :: u64 and m
  assume "bs \<noteq> []" and "\<not> {unat a..<unat a + length bs} \<subseteq> gm_mapped m"
  then show "mi_write gm_interface m a bs = (False, m)"
    by (simp add: gm_interface_def gm_write_def gm_contains_mapped)
qed

section \<open>SpikeMemory keeps the contract\<close>

lemma overlaps_control_iff:
  assumes "unat base + unat sz \<le> 2 ^ 64" and "0 < n" and "0 < unat sz"
  shows "overlaps_control base sz a n \<longleftrightarrow>
    {unat a..<unat a + n} \<inter> {unat base..<unat base + unat sz} \<noteq> {}"
proof (cases "a \<ge> base")
  case True
  then have "unat a = unat base + unat (a - base)" by (simp add: unat_sub word_le_nat_alt)
  with True assms(2) show ?thesis
    by (auto simp: overlaps_control_def word_less_nat_alt disjoint_iff)
next
  case False
  then have "unat base = unat a + unat (base - a)" "a < base"
    by (simp_all add: unat_sub word_le_nat_alt word_less_nat_alt)
  with False assms(2,3) show ?thesis
    by (auto simp: overlaps_control_def disjoint_iff)
qed

text \<open>
  C36: the Spike adapter turns any simulator memory that meets the contract into one that meets it
  with the device's own control region unmapped: accesses of the accelerator succeed exactly on the
  ranges the simulator maps that do not touch its MMIO window, and the failing ones change nothing.
\<close>

theorem spike_memory_contract:
  assumes "guest_memory sim byte_at mapped" and "unat base + unat sz \<le> 2 ^ 64" and "0 < unat sz"
  shows "guest_memory (spike_memory sim base sz) byte_at
    (\<lambda>m. mapped m - {unat base..<unat base + unat sz})"
proof -
  have ov: "overlaps_control base sz a n \<longleftrightarrow>
      {unat a..<unat a + n} \<inter> {unat base..<unat base + unat sz} \<noteq> {}" if "0 < n" for a n
    using assms(2) that assms(3) by (rule overlaps_control_iff)
  have sub: "{unat a..<unat a + n} \<subseteq> mapped m - {unat base..<unat base + unat sz} \<longleftrightarrow>
      {unat a..<unat a + n} \<subseteq> mapped m \<and> \<not> overlaps_control base sz a n" if "0 < n" for a n m
    using ov[OF that, of a] by blast
  show ?thesis
  proof
    fix n :: nat and a :: u64 and m
    assume n: "0 < n" and "{unat a..<unat a + n} \<subseteq> mapped m - {unat base..<unat base + unat sz}"
    then show "mi_read (spike_memory sim base sz) m a n = Some (load_bytes (byte_at m) (unat a) n)"
      unfolding sub[OF n] by (simp add: spike_memory_def guest_memory.read_mapped[OF assms(1)])
  next
    fix n :: nat and a :: u64 and m
    assume n: "0 < n" and "\<not> {unat a..<unat a + n} \<subseteq> mapped m - {unat base..<unat base + unat sz}"
    then show "mi_read (spike_memory sim base sz) m a n = None"
      unfolding sub[OF n] using guest_memory.read_unmapped[OF assms(1) n, of a m]
      by (cases "overlaps_control base sz a n") (simp_all add: spike_memory_def)
  next
    fix bs :: "byte list" and a :: u64 and m ok m'
    assume "bs \<noteq> []" and
      "{unat a..<unat a + length bs} \<subseteq> mapped m - {unat base..<unat base + unat sz}"
      and w: "mi_write (spike_memory sim base sz) m a bs = (ok, m')"
    then have n: "0 < length bs" and "{unat a..<unat a + length bs} \<subseteq> mapped m"
      "\<not> overlaps_control base sz a (length bs)" using sub[of "length bs" a m] by auto
    with w guest_memory.write_mapped[OF assms(1), of bs a m ok m']
    show "ok \<and> byte_at m' = store_bytes (byte_at m) (unat a) bs \<and>
        mapped m' - {unat base..<unat base + unat sz} = mapped m - {unat base..<unat base + unat sz}"
      by (simp add: spike_memory_def)
  next
    fix bs :: "byte list" and a :: u64 and m
    assume "bs \<noteq> []" and
      "\<not> {unat a..<unat a + length bs} \<subseteq> mapped m - {unat base..<unat base + unat sz}"
    then show "mi_write (spike_memory sim base sz) m a bs = (False, m)"
      using sub[of "length bs" a m] guest_memory.write_unmapped[OF assms(1), of bs a m]
      by (auto simp: spike_memory_def)
  qed
qed

theorem spike_memory_contract_witness:
  "guest_memory (spike_memory gm_interface 64 16) gm_byte (\<lambda>m. gm_mapped m - {64..<80})"
  using spike_memory_contract[OF gm.guest_memory_axioms, of 64 16] by simp

section \<open>The staging allocator\<close>

lemma round_up_bounds:
  assumes "0 < (k::nat)"
  shows "n \<le> (n + k - 1) div k * k" and "(n + k - 1) div k * k < n + k"
proof -
  have "(n + k - 1) div k * k = n + k - 1 - (n + k - 1) mod k" by (simp add: minus_mod_eq_div_mult)
  moreover have "(n + k - 1) mod k < k" using assms by simp
  ultimately show "n \<le> (n + k - 1) div k * k" "(n + k - 1) div k * k < n + k"
    using assms mod_less_eq_dividend[of "n + k - 1" k] by linarith+
qed

lemma round_up_word:
  assumes "0 < unat (k::u64)" and "unat (n::u64) + unat k \<le> 2 ^ 64"
  shows "unat ((n + k - 1) div k * k) = (unat n + unat k - 1) div unat k * unat k"
proof -
  have one: "unat (k - 1) = unat k - 1" using assms(1) by (simp add: unat_minus_one unat_gt_0)
  have "unat (n + (k - 1)) = unat n + unat (k - 1)"
    using assms unfolding one[symmetric] by (intro u64_add_exact) (simp add: one)
  then have up: "unat (n + k - 1) = unat n + unat k - 1"
    using assms(1) by (simp add: one add_diff_eq)
  have "(unat n + unat k - 1) div unat k * unat k < 18446744073709551616"
    by (rule order.strict_trans1[OF div_times_less_eq_dividend]) (use assms in simp)
  then show ?thesis by (subst u64_mult_exact) (simp_all add: unat_div up)
qed

text \<open>
  C37: \<open>GuestMemory::allocate\<close> returns 0 and changes nothing, or returns an aligned block that
  starts at or after every byte handed out before, lies within the limit and is readable at once;
  the bytes already staged are unchanged, and the next block starts at its end.
\<close>

theorem allocate_fresh_block:
  assumes "0 < unat alignment" and "unat (gm_next_address m) + unat alignment \<le> 2 ^ 64"
    and "gm_allocate resizable m size_bytes alignment = (a, m')" and "0 < unat (gm_next_address m)"
  shows "a = 0 \<and> m' = m \<or>
    a \<noteq> 0 \<and> unat alignment dvd unat a \<and> unat (gm_next_address m) \<le> unat a \<and>
    unat a < unat (gm_next_address m) + unat alignment \<and>
    unat (gm_next_address m') = unat a + unat size_bytes \<and> unat a + unat size_bytes \<le> gm_limit m \<and>
    gm_contains m' a (unat size_bytes) \<and>
    (\<forall>x \<in> gm_mapped m. x \<in> gm_mapped m' \<and> gm_byte m' x = gm_byte m x)"
proof -
  let ?A = "unat alignment" and ?N = "unat (gm_next_address m)"
  define aligned where "aligned = (gm_next_address m + alignment - 1) div alignment * alignment"
  have al: "unat aligned = (?N + ?A - 1) div ?A * ?A"
    unfolding aligned_def using assms(1,2) by (rule round_up_word)
  have "?N \<le> unat aligned" "unat aligned < ?N + ?A" "?A dvd unat aligned"
    unfolding al using round_up_bounds[OF assms(1)] by auto
  moreover have "aligned \<noteq> 0" using \<open>?N \<le> unat aligned\<close> assms(4) by auto
  moreover have "unat (aligned + size_bytes) = unat aligned + unat size_bytes"
    if "\<not> aligned > 18446744073709551615 - size_bytes"
    using that u64_less[of aligned]
    using u64_less[of size_bytes]
    by (intro u64_add_exact) (simp add: word_less_nat_alt u64_max_minus not_less)
  ultimately show ?thesis
    using assms(3)
    by (auto simp: gm_allocate_def aligned_def[symmetric] Let_def gm_contains_def gm_mapped_def
        gm_byte_def nth_append split: if_splits)
qed

theorem allocate_fresh_block_witness:
  "\<exists>m'. gm_allocate (\<lambda>_. True) \<lparr>gm_limit = 4096, gm_bytes = [], gm_next_address = 259\<rparr> 10 8 =
      (264, m') \<and> gm_contains m' 264 10"
proof -
  define m where "m = \<lparr>gm_limit = 4096, gm_bytes = [], gm_next_address = 259\<rparr>"
  obtain m' where a: "gm_allocate (\<lambda>_. True) m 10 8 = (264, m')"
    by (auto simp: m_def gm_allocate_def Let_def)
  have "gm_contains m' 264 (unat (10::u64))"
    using allocate_fresh_block[OF _ _ a] by (simp add: m_def)
  with a show ?thesis by (auto simp: m_def)
qed

end
