(* ===== verification/Accelerator.thy ===== *)
theory Accelerator
  imports Timing_Model Guest_Memory
begin

text \<open>
  The functional device of \<open>accelerator/src/accelerator.cpp\<close>: MMIO registers behind a TLM socket,
  the descriptor fetch, the ordered fail-stop batch, and the cost-algebra primitives. The state is
  the guest memory, the descriptor address, the status register and the timing statistics; the
  \<open>verbose_\<close> traces are not modelled. Costs are read and written little-endian, as \<open>memcpy\<close> does
  on the supported hosts. The loop counters of the source are \<open>uint32_t\<close>; every bound they meet is
  at most 65535 for a decoded command, so they are natural numbers here.
\<close>

section \<open>State\<close>

definition ACCEL_STATUS_IDLE :: u32 where "ACCEL_STATUS_IDLE = 0"
definition ACCEL_STATUS_BUSY :: u32 where "ACCEL_STATUS_BUSY = 1"
definition ACCEL_STATUS_DONE :: u32 where "ACCEL_STATUS_DONE = 2"
definition ACCEL_STATUS_ERROR :: u32 where "ACCEL_STATUS_ERROR = 3"

lemmas status_defs = ACCEL_STATUS_IDLE_def ACCEL_STATUS_BUSY_def ACCEL_STATUS_DONE_def
  ACCEL_STATUS_ERROR_def

abbreviation (input) ACCEL_MMIO_DESC_ADDR_LO :: u64 where "ACCEL_MMIO_DESC_ADDR_LO \<equiv> 0"
abbreviation (input) ACCEL_MMIO_DESC_ADDR_HI :: u64 where "ACCEL_MMIO_DESC_ADDR_HI \<equiv> 4"
abbreviation (input) ACCEL_MMIO_DOORBELL :: u64 where "ACCEL_MMIO_DOORBELL \<equiv> 8"
abbreviation (input) ACCEL_MMIO_STATUS :: u64 where "ACCEL_MMIO_STATUS \<equiv> 12"
abbreviation (input) ACCEL_MMIO_SIZE :: u64 where "ACCEL_MMIO_SIZE \<equiv> 4096"

record 'm accelerator =
  ac_memory :: 'm
  ac_descriptor_address :: u64
  ac_status :: u32
  ac_timing_statistics :: accel_timing_statistics

definition accelerator_init :: "'m \<Rightarrow> 'm accelerator" where
  "accelerator_init m = \<lparr>ac_memory = m, ac_descriptor_address = 0, ac_status = ACCEL_STATUS_IDLE,
     ac_timing_statistics = zero_statistics\<rparr>"

section \<open>Memory access\<close>

definition read_i32 :: "'m memory_interface \<Rightarrow> 'm \<Rightarrow> u64 \<Rightarrow> int option" where
  "read_i32 mi m address = map_option (\<lambda>bs. sint (get_le 4 bs 0 :: u32)) (mi_read mi m address 4)"

definition i32_bytes :: "int \<Rightarrow> byte list" where
  "i32_bytes v = bytes_le 4 (word_of_int v :: u32)"

definition write_i32 :: "'m memory_interface \<Rightarrow> 'm \<Rightarrow> u64 \<Rightarrow> int \<Rightarrow> bool \<times> 'm" where
  "write_i32 mi m address v = mi_write mi m address (i32_bytes v)"

text \<open>The eight bytes of \<open>accel_min_argmin_result_t\<close> and \<open>accel_batch_result_t\<close>.\<close>

definition min_argmin_bytes :: "int \<Rightarrow> nat \<Rightarrow> byte list" where
  "min_argmin_bytes v index = i32_bytes v @ bytes_le 4 (of_nat index :: u32)"

definition batch_result_bytes :: "u32 \<Rightarrow> u32 \<Rightarrow> byte list" where
  "batch_result_bytes completed failed_index = bytes_le 4 completed @ bytes_le 4 failed_index"

definition read_command ::
  "'m memory_interface \<Rightarrow> 'm \<Rightarrow> u64 \<Rightarrow> nat \<Rightarrow> (pcaa_command \<times> nat) option" where
  "read_command mi m address available =
     (if address = 0 \<or> available < ACCEL_COMMAND_HEADER_BYTES then None
      else case mi_read mi m address ACCEL_COMMAND_HEADER_BYTES of
          None \<Rightarrow> None
        | Some header \<Rightarrow>
            (case format_size (header ! 0) (header ! 1) of
               Inl _ \<Rightarrow> None
             | Inr width \<Rightarrow>
                 if width > available \<or> of_nat width > UINT64_MAX - address then None
                 else case mi_read mi m (address + of_nat ACCEL_COMMAND_HEADER_BYTES)
                        (width - ACCEL_COMMAND_HEADER_BYTES) of
                     None \<Rightarrow> None
                   | Some rest \<Rightarrow> decode_core (header @ rest)))"

section \<open>Primitives\<close>

text \<open>One summand of a reduction: two or three costs at the same index, added with checks.\<close>

definition reduce_term ::
  "'m memory_interface \<Rightarrow> 'm \<Rightarrow> u64 \<Rightarrow> u64 \<Rightarrow> u64 option \<Rightarrow> nat \<Rightarrow> int option" where
  "reduce_term mi m first second third i =
     (let offset = of_nat i * 4
      in case (read_i32 mi m (first + offset), read_i32 mi m (second + offset)) of
           (Some left, Some right) \<Rightarrow>
             (case third of
                None \<Rightarrow> cost_add left right
              | Some base \<Rightarrow>
                  (case read_i32 mi m (base + offset) of
                     None \<Rightarrow> None
                   | Some t \<Rightarrow>
                       (case cost_add left right of None \<Rightarrow> None | Some v \<Rightarrow> cost_add v t)))
         | _ \<Rightarrow> None)"

fun vector_term :: "'m memory_interface \<Rightarrow> 'm \<Rightarrow> pcaa_command \<Rightarrow> nat \<Rightarrow> nat \<Rightarrow> int option" where
  "vector_term mi m (PCAA_COST_ADD_VECTOR v) output inner =
     (case (read_i32 mi m (vv_base (va_first v) + of_nat output * vv_stride (va_first v) * 4),
            read_i32 mi m (vv_base (va_second v) + of_nat output * vv_stride (va_second v) * 4)) of
        (Some first, Some second) \<Rightarrow> cost_add first second
      | _ \<Rightarrow> None)"
| "vector_term mi m (PCAA_MINPLUS_PROJECT v) output inner =
     (case (read_i32 mi m (mv_base (pj_matrix v) +
              (of_nat output * mv_row_stride (pj_matrix v) +
               of_nat inner * mv_column_stride (pj_matrix v)) * 4),
            read_i32 mi m (vv_base (pj_vector v) + of_nat inner * vv_stride (pj_vector v) * 4)) of
        (Some first, Some second) \<Rightarrow> cost_add first second
      | _ \<Rightarrow> None)"
| "vector_term mi m (PCAA_MINPLUS_MAP3_PROJECT v) output inner =
     (case (read_i32 mi m (vv_base (m3_first v) + of_nat inner * vv_stride (m3_first v) * 4),
            read_i32 mi m (vv_base (m3_second v) + of_nat inner * vv_stride (m3_second v) * 4)) of
        (Some first, Some second) \<Rightarrow>
          (case cost_add first second of
             None \<Rightarrow> None
           | Some v' \<Rightarrow>
               (case read_i32 mi m (mv_base (m3_third v) +
                       (of_nat output * mv_row_stride (m3_third v) +
                        of_nat inner * mv_column_stride (m3_third v)) * 4) of
                  None \<Rightarrow> None
                | Some third \<Rightarrow> cost_add v' third))
      | _ \<Rightarrow> None)"
| "vector_term mi m _ output inner = None"

fun vector_count :: "pcaa_command \<Rightarrow> nat" where
  "vector_count (PCAA_MINPLUS_PROJECT v) = unat (vv_length (pj_vector v))"
| "vector_count (PCAA_MINPLUS_MAP3_PROJECT v) = unat (vv_length (m3_first v))"
| "vector_count _ = 1"

definition vector_output ::
  "'m memory_interface \<Rightarrow> 'm \<Rightarrow> pcaa_command \<Rightarrow> nat \<Rightarrow> (int \<times> nat) option" where
  "vector_output mi m command output = min_loop (vector_term mi m command output) (vector_count command)"

text \<open>
  The destination of \<open>execute_vector_command\<close>, which only gets the three vector commands; for the others
  the source would read the storage of \<open>project.result\<close>. The store is a minimum with its index for the
  three-operand projection and a single cost otherwise.
\<close>

fun is_map3 :: "pcaa_command \<Rightarrow> bool" where
  "is_map3 (PCAA_MINPLUS_MAP3_PROJECT _) = True"
| "is_map3 _ = False"

fun vector_destination :: "pcaa_command \<Rightarrow> output_view" where
  "vector_destination (PCAA_COST_ADD_VECTOR v) = va_result v"
| "vector_destination (PCAA_MINPLUS_MAP3_PROJECT v) = m3_result v"
| "vector_destination (PCAA_MINPLUS_PROJECT v) = pj_result v"
| "vector_destination _ = pcaa_cost_output 0 0 0"

definition vector_store ::
  "'m memory_interface \<Rightarrow> pcaa_command \<Rightarrow> nat \<Rightarrow> int \<times> nat \<Rightarrow> 'm \<Rightarrow> bool \<times> 'm" where
  "vector_store mi command output r m =
     (let destination = vector_destination command;
          address = ov_base destination +
            of_nat output * ov_stride destination * (if is_map3 command then 8 else 4)
      in if is_map3 command then mi_write mi m address (min_argmin_bytes (fst r) (snd r))
         else write_i32 mi m address (fst r))"

fun vector_loop ::
  "'m memory_interface \<Rightarrow> pcaa_command \<Rightarrow> nat list \<Rightarrow> 'm \<Rightarrow> bool \<times> 'm" where
  "vector_loop mi command [] m = (True, m)"
| "vector_loop mi command (output # outputs) m =
     (case vector_output mi m command output of
        None \<Rightarrow> (False, m)
      | Some r \<Rightarrow>
          (case vector_store mi command output r m of
             (written, m') \<Rightarrow> if written then vector_loop mi command outputs m' else (False, m')))"

definition execute_vector_command ::
  "'m memory_interface \<Rightarrow> pcaa_command \<Rightarrow> 'm \<Rightarrow> bool \<times> 'm" where
  "execute_vector_command mi command m =
     vector_loop mi command [0..<unat (ov_length (vector_destination command))] m"

definition execute_reduce ::
  "'m memory_interface \<Rightarrow> u64 \<Rightarrow> u64 \<Rightarrow> u64 option \<Rightarrow> nat \<Rightarrow> bool \<Rightarrow> u64 \<Rightarrow> 'm \<Rightarrow> bool \<times> 'm" where
  "execute_reduce mi first second third len argmin_output destination m =
     (case min_loop (reduce_term mi m first second third) len of
        None \<Rightarrow> (False, m)
      | Some (minimum, argmin) \<Rightarrow>
          if argmin_output then mi_write mi m destination (min_argmin_bytes minimum argmin)
          else write_i32 mi m destination minimum)"

fun execute_primitive :: "'m memory_interface \<Rightarrow> pcaa_command \<Rightarrow> 'm \<Rightarrow> bool \<times> 'm" where
  "execute_primitive mi (PCAA_MAP_ADD_REDUCE_MIN v) m =
     execute_reduce mi (vv_base (r2_first v)) (vv_base (r2_second v)) None
       (unat (vv_length (r2_first v))) False (r2_result v) m"
| "execute_primitive mi (PCAA_MAP_ADD_REDUCE_MIN_ARGMIN v) m =
     execute_reduce mi (vv_base (r2_first v)) (vv_base (r2_second v)) None
       (unat (vv_length (r2_first v))) True (r2_result v) m"
| "execute_primitive mi (PCAA_MAP_ADD3_REDUCE_MIN v) m =
     execute_reduce mi (vv_base (r3_first v)) (vv_base (r3_second v))
       (Some (vv_base (r3_third v))) (unat (vv_length (r3_first v))) False (r3_result v) m"
| "execute_primitive mi (PCAA_MAP_ADD3_REDUCE_MIN_ARGMIN v) m =
     execute_reduce mi (vv_base (r3_first v)) (vv_base (r3_second v))
       (Some (vv_base (r3_third v))) (unat (vv_length (r3_first v))) True (r3_result v) m"
| "execute_primitive mi (PCAA_COST_ADD_VECTOR v) m =
     execute_vector_command mi (PCAA_COST_ADD_VECTOR v) m"
| "execute_primitive mi (PCAA_MINPLUS_PROJECT v) m =
     execute_vector_command mi (PCAA_MINPLUS_PROJECT v) m"
| "execute_primitive mi (PCAA_MINPLUS_MAP3_PROJECT v) m =
     execute_vector_command mi (PCAA_MINPLUS_MAP3_PROJECT v) m"
| "execute_primitive mi (PCAA_ORDERED_BATCH v) m = (False, m)"

definition execute_command ::
  "'m memory_interface \<Rightarrow> 't accel_timing_config \<Rightarrow> pcaa_command \<Rightarrow> 'm accelerator
     \<Rightarrow> bool \<times> 'm accelerator" where
  "execute_command mi timing command a =
     (case execute_primitive mi command (ac_memory a) of
        (written, m) \<Rightarrow>
          (written, a\<lparr>ac_memory := m,
             ac_timing_statistics :=
               (if written \<and> tc_mode timing \<noteq> kUntimed
                then accel_accumulate_semantic_command_timing command timing (ac_timing_statistics a)
                else ac_timing_statistics a)\<rparr>))"

section \<open>Batches\<close>

text \<open>
  The anonymous \<open>span\<close> and \<open>overlaps\<close> of \<open>accelerator.cpp\<close> have 32-bit dimensions, which the
  calls convert from the 64-bit fields of the command.
\<close>

definition accel_span :: "u64 \<Rightarrow> u32 \<Rightarrow> u32 \<Rightarrow> u32 \<Rightarrow> u32 \<Rightarrow> u64 \<Rightarrow> u64 option" where
  "accel_span base rows columns outer_stride inner_stride width =
     (if base = 0 \<or> rows = 0 \<or> columns = 0 \<or> inner_stride = 0 \<or> (rows > 1 \<and> outer_stride = 0)
      then None
      else let outer = ucast (rows - 1) * ucast outer_stride;
               inner = ucast (columns - 1) * ucast inner_stride
        in if outer > UINT64_MAX - inner \<or> base > UINT64_MAX - width \<or>
              outer + inner > (UINT64_MAX - base - width) div width
           then None
           else let end_index = outer + inner in Some (base + (end_index + 1) * width))"

definition overlaps :: "u64 \<Rightarrow> u64 \<Rightarrow> u64 \<Rightarrow> u64 \<Rightarrow> bool" where
  "overlaps first first_end second second_end \<longleftrightarrow> first < second_end \<and> second < first_end"

definition charge_batch ::
  "'t accel_timing_config \<Rightarrow> accel_timing_statistics \<Rightarrow> accel_timing_statistics" where
  "charge_batch timing s =
     (if tc_mode timing \<noteq> kUntimed \<and> tc_descriptor_bytes_per_cycle timing \<noteq> 0 \<and>
         tc_memory_write_bytes_per_cycle timing \<noteq> 0 then
        let descriptor_cycles = ucast ((of_nat ACCEL_BATCH_COMMAND_BYTES +
              tc_descriptor_bytes_per_cycle timing - 1) div tc_descriptor_bytes_per_cycle timing);
            result_cycles = (8 + ucast (tc_memory_write_bytes_per_cycle timing) - 1) div
              ucast (tc_memory_write_bytes_per_cycle timing)
        in s\<lparr>ts_descriptor_cycles := ts_descriptor_cycles s + descriptor_cycles,
             ts_total_service_cycles := ts_total_service_cycles s +
               (descriptor_cycles + ucast (tc_batch_start_cycles timing)) + result_cycles,
             ts_result_write_cycles := ts_result_write_cycles s + result_cycles,
             ts_batch_count := ts_batch_count s + 1\<rparr>
      else s)"

text \<open>
  The loop over the children: \<open>Inl index\<close> when child \<open>index\<close> cannot be read or fails, \<open>Inr cursor\<close>
  with the final read position otherwise. The first argument counts the children still to run.
\<close>

fun batch_loop ::
  "'m memory_interface \<Rightarrow> 't accel_timing_config \<Rightarrow> u64 \<Rightarrow> u64 \<Rightarrow> u64
     \<Rightarrow> nat \<Rightarrow> nat \<Rightarrow> u64 \<Rightarrow> 'm accelerator \<Rightarrow> (nat + u64) \<times> 'm accelerator" where
  "batch_loop mi timing children children_end descriptor_end 0 index cursor a = (Inr cursor, a)"
| "batch_loop mi timing children children_end descriptor_end (Suc remaining) index cursor a =
     (case read_command mi (ac_memory a) cursor (unat (children_end - cursor)) of
        None \<Rightarrow> (Inl index, a)
      | Some (child, child_bytes) \<Rightarrow>
          if is_batch child \<or>
             pcaa_output_overlaps (Some child) children children_end \<or>
             pcaa_output_overlaps (Some child) (ac_descriptor_address a) descriptor_end
          then (Inl index, a)
          else case execute_command mi timing child a of
              (completed, a') \<Rightarrow>
                if \<not> completed then (Inl index, a')
                else batch_loop mi timing children children_end descriptor_end remaining
                       (index + 1) (cursor + of_nat child_bytes) a')"

definition write_batch_result ::
  "'m memory_interface \<Rightarrow> u64 \<Rightarrow> u32 \<Rightarrow> u32 \<Rightarrow> 'm accelerator \<Rightarrow> bool \<times> 'm accelerator" where
  "write_batch_result mi result completed failed_index a =
     (case mi_write mi (ac_memory a) result (batch_result_bytes completed failed_index) of
        (written, m) \<Rightarrow> (written, a\<lparr>ac_memory := m\<rparr>))"

definition execute_batch ::
  "'m memory_interface \<Rightarrow> 't accel_timing_config \<Rightarrow> batch_reference \<Rightarrow> 'm accelerator
     \<Rightarrow> bool \<times> 'm accelerator" where
  "execute_batch mi timing batch a =
     (case (accel_span (br_child_descriptors batch) 1 (ucast (br_child_bytes batch)) 0 1 1,
            accel_span (ac_descriptor_address a) 1 1 0 1 (of_nat ACCEL_BATCH_COMMAND_BYTES),
            accel_span (br_result batch) 1 1 0 1 8) of
        (Some children_end, Some descriptor_end, Some result_end) \<Rightarrow>
          if overlaps (br_result batch) result_end (br_child_descriptors batch) children_end \<or>
             overlaps (br_result batch) result_end (ac_descriptor_address a) descriptor_end
          then (False, a)
          else let a = a\<lparr>ac_timing_statistics := charge_batch timing (ac_timing_statistics a)\<rparr>
            in (case batch_loop mi timing (br_child_descriptors batch) children_end descriptor_end
                       (unat (br_count batch)) 0 (br_child_descriptors batch) a of
                  (Inl index, a) \<Rightarrow>
                    (False, snd (write_batch_result mi (br_result batch) (of_nat index)
                       (of_nat index) a))
                | (Inr cursor, a) \<Rightarrow>
                    if cursor \<noteq> children_end then
                      (False, snd (write_batch_result mi (br_result batch)
                         (ucast (br_count batch)) (ucast (br_count batch)) a))
                    else write_batch_result mi (br_result batch) (ucast (br_count batch))
                           4294967295 a)
      | _ \<Rightarrow> (False, a))"

section \<open>Submission and registers\<close>

definition execute ::
  "'m memory_interface \<Rightarrow> 't accel_timing_config \<Rightarrow> 'm accelerator \<Rightarrow> 't
     \<Rightarrow> bool \<times> 'm accelerator \<times> 't" where
  "execute mi timing a delay =
     (let initial_cycles = ts_total_service_cycles (ac_timing_statistics a)
      in case read_command mi (ac_memory a) (ac_descriptor_address a) ACCEL_COMMAND_MAX_BYTES of
           None \<Rightarrow> (False, a, delay)
         | Some (command, _) \<Rightarrow>
             (case (case command of
                      PCAA_ORDERED_BATCH batch \<Rightarrow> execute_batch mi timing batch a
                    | _ \<Rightarrow> execute_command mi timing command a) of
                (completed, a') \<Rightarrow>
                  (completed, a',
                   case tc_charge timing of
                     None \<Rightarrow> delay
                   | Some charge \<Rightarrow>
                       charge (ts_total_service_cycles (ac_timing_statistics a') - initial_cycles)
                         delay)))"

definition read_register :: "'m accelerator \<Rightarrow> u64 \<Rightarrow> u32 option" where
  "read_register a address =
     (if address = ACCEL_MMIO_DESC_ADDR_LO then Some (ucast (ac_descriptor_address a))
      else if address = ACCEL_MMIO_DESC_ADDR_HI
      then Some (ucast (drop_bit 32 (ac_descriptor_address a)))
      else if address = ACCEL_MMIO_STATUS then Some (ac_status a)
      else None)"

definition write_register ::
  "'m memory_interface \<Rightarrow> 't accel_timing_config \<Rightarrow> 'm accelerator \<Rightarrow> u64 \<Rightarrow> u32 \<Rightarrow> 't
     \<Rightarrow> bool \<times> 'm accelerator \<times> 't" where
  "write_register mi timing a address v delay =
     (if address = ACCEL_MMIO_DESC_ADDR_LO then
        (True, a\<lparr>ac_descriptor_address :=
           (ac_descriptor_address a AND 0xffffffff00000000) OR ucast v\<rparr>, delay)
      else if address = ACCEL_MMIO_DESC_ADDR_HI then
        (True, a\<lparr>ac_descriptor_address :=
           (ac_descriptor_address a AND 0x00000000ffffffff) OR push_bit 32 (ucast v)\<rparr>, delay)
      else if address = ACCEL_MMIO_DOORBELL then
        if ac_status a = ACCEL_STATUS_BUSY then (False, a, delay)
        else case execute mi timing (a\<lparr>ac_status := ACCEL_STATUS_BUSY\<rparr>) delay of
            (completed, a', delay') \<Rightarrow>
              (True, a'\<lparr>ac_status := if completed then ACCEL_STATUS_DONE
                          else ACCEL_STATUS_ERROR\<rparr>, delay')
      else (False, a, delay))"

datatype tlm_command = TLM_READ_COMMAND | TLM_WRITE_COMMAND | TLM_IGNORE_COMMAND

datatype tlm_response = TLM_OK_RESPONSE | TLM_INCOMPLETE_RESPONSE | TLM_ADDRESS_ERROR_RESPONSE
  | TLM_COMMAND_ERROR_RESPONSE | TLM_BURST_ERROR_RESPONSE

record tlm_generic_payload =
  tlm_command :: tlm_command
  tlm_address :: u64
  tlm_data :: "byte list option"
  tlm_data_length :: nat
  tlm_streaming_width :: nat
  tlm_byte_enable :: "byte list option"
  tlm_response :: tlm_response

definition is_valid_mmio_transaction :: "tlm_generic_payload \<Rightarrow> bool" where
  "is_valid_mmio_transaction t \<longleftrightarrow>
     tlm_data t \<noteq> None \<and> tlm_data_length t = 4 \<and> tlm_streaming_width t = 4 \<and>
     tlm_byte_enable t = None \<and> tlm_address t \<le> ACCEL_MMIO_SIZE - 4"

definition b_transport ::
  "'m memory_interface \<Rightarrow> 't accel_timing_config \<Rightarrow> 'm accelerator \<Rightarrow> tlm_generic_payload \<Rightarrow> 't
     \<Rightarrow> 'm accelerator \<times> tlm_generic_payload \<times> 't" where
  "b_transport mi timing a t delay =
     (if \<not> is_valid_mmio_transaction t
      then (a, t\<lparr>tlm_response := TLM_BURST_ERROR_RESPONSE\<rparr>, delay)
      else case tlm_command t of
          TLM_READ_COMMAND \<Rightarrow>
            (case read_register a (tlm_address t) of
               None \<Rightarrow> (a, t\<lparr>tlm_response := TLM_ADDRESS_ERROR_RESPONSE\<rparr>, delay)
             | Some v \<Rightarrow> (a, t\<lparr>tlm_data := Some (put_le 4 (the (tlm_data t)) 0 v),
                               tlm_response := TLM_OK_RESPONSE\<rparr>, delay))
        | TLM_WRITE_COMMAND \<Rightarrow>
            (case write_register mi timing a (tlm_address t) (get_le 4 (the (tlm_data t)) 0)
                    delay of
               (ok, a', delay') \<Rightarrow>
                 (a', t\<lparr>tlm_response := if ok then TLM_OK_RESPONSE
                         else TLM_ADDRESS_ERROR_RESPONSE\<rparr>, delay'))
        | TLM_IGNORE_COMMAND \<Rightarrow> (a, t\<lparr>tlm_response := TLM_COMMAND_ERROR_RESPONSE\<rparr>, delay))"

end
