(* ===== verification/Accelerator_Correct.thy ===== *)
theory Accelerator_Correct
  imports Accelerator
begin

text \<open>
  What the device computes. The specification reads the operands of a command from the byte map
  before the command runs, at addresses computed in the natural numbers, adds them with
  \<open>cost_add\<close>, takes the first minimum over the inner index, and states which bytes hold which
  result afterwards.
\<close>

section \<open>Specification\<close>

definition cost_at :: "(nat \<Rightarrow> byte) \<Rightarrow> nat \<Rightarrow> int" where
  "cost_at f a = sint (get_le 4 (load_bytes f a 4) 0 :: u32)"

fun operand_addrs :: "pcaa_command \<Rightarrow> nat \<Rightarrow> nat \<Rightarrow> nat list" where
  "operand_addrs (PCAA_MAP_ADD_REDUCE_MIN v) _ i =
     [unat (vv_base (r2_first v)) + i * 4, unat (vv_base (r2_second v)) + i * 4]"
| "operand_addrs (PCAA_MAP_ADD_REDUCE_MIN_ARGMIN v) _ i =
     [unat (vv_base (r2_first v)) + i * 4, unat (vv_base (r2_second v)) + i * 4]"
| "operand_addrs (PCAA_MAP_ADD3_REDUCE_MIN v) _ i =
     [unat (vv_base (r3_first v)) + i * 4, unat (vv_base (r3_second v)) + i * 4,
      unat (vv_base (r3_third v)) + i * 4]"
| "operand_addrs (PCAA_MAP_ADD3_REDUCE_MIN_ARGMIN v) _ i =
     [unat (vv_base (r3_first v)) + i * 4, unat (vv_base (r3_second v)) + i * 4,
      unat (vv_base (r3_third v)) + i * 4]"
| "operand_addrs (PCAA_COST_ADD_VECTOR v) out _ =
     [unat (vv_base (va_first v)) + out * unat (vv_stride (va_first v)) * 4,
      unat (vv_base (va_second v)) + out * unat (vv_stride (va_second v)) * 4]"
| "operand_addrs (PCAA_MINPLUS_PROJECT v) out i =
     [unat (mv_base (pj_matrix v)) + (out * unat (mv_row_stride (pj_matrix v)) +
        i * unat (mv_column_stride (pj_matrix v))) * 4,
      unat (vv_base (pj_vector v)) + i * unat (vv_stride (pj_vector v)) * 4]"
| "operand_addrs (PCAA_MINPLUS_MAP3_PROJECT v) out i =
     [unat (vv_base (m3_first v)) + i * unat (vv_stride (m3_first v)) * 4,
      unat (vv_base (m3_second v)) + i * unat (vv_stride (m3_second v)) * 4,
      unat (mv_base (m3_third v)) + (out * unat (mv_row_stride (m3_third v)) +
        i * unat (mv_column_stride (m3_third v))) * 4]"
| "operand_addrs (PCAA_ORDERED_BATCH v) _ _ = []"

fun inner_count :: "pcaa_command \<Rightarrow> nat" where
  "inner_count (PCAA_MAP_ADD_REDUCE_MIN v) = unat (vv_length (r2_first v))"
| "inner_count (PCAA_MAP_ADD_REDUCE_MIN_ARGMIN v) = unat (vv_length (r2_first v))"
| "inner_count (PCAA_MAP_ADD3_REDUCE_MIN v) = unat (vv_length (r3_first v))"
| "inner_count (PCAA_MAP_ADD3_REDUCE_MIN_ARGMIN v) = unat (vv_length (r3_first v))"
| "inner_count (PCAA_COST_ADD_VECTOR v) = 1"
| "inner_count (PCAA_MINPLUS_PROJECT v) = unat (mv_columns (pj_matrix v))"
| "inner_count (PCAA_MINPLUS_MAP3_PROJECT v) = unat (mv_columns (m3_third v))"
| "inner_count (PCAA_ORDERED_BATCH v) = 0"

definition output_count :: "pcaa_command \<Rightarrow> nat" where
  "output_count c = (case output_place c of (b, n, s, w) \<Rightarrow> n)"

definition output_width :: "pcaa_command \<Rightarrow> nat" where
  "output_width c = (case output_place c of (b, n, s, w) \<Rightarrow> w)"

definition output_at :: "pcaa_command \<Rightarrow> nat \<Rightarrow> nat" where
  "output_at c out = (case output_place c of (b, n, s, w) \<Rightarrow> b + out * s * w)"

text \<open>The bytes of one result: a cost, or a minimum with its index.\<close>

definition element_bytes :: "pcaa_command \<Rightarrow> int \<times> nat \<Rightarrow> byte list" where
  "element_bytes c r = (if output_width c = 8 then min_argmin_bytes (fst r) (snd r) else i32_bytes (fst r))"

text \<open>Checked addition of the operands from left to right.\<close>

definition checked_sum :: "int list \<Rightarrow> int option" where
  "checked_sum xs = (case xs of [] \<Rightarrow> None | x # ys \<Rightarrow> fold_option (\<lambda>y acc. cost_add acc y) ys x)"

definition term_value :: "(nat \<Rightarrow> byte) \<Rightarrow> nat set \<Rightarrow> pcaa_command \<Rightarrow> nat \<Rightarrow> nat \<Rightarrow> int option" where
  "term_value f mp c out i =
     (if \<forall>a \<in> set (operand_addrs c out i). {a..<a + 4} \<subseteq> mp
      then checked_sum (map (cost_at f) (operand_addrs c out i)) else None)"

definition element_value :: "(nat \<Rightarrow> byte) \<Rightarrow> nat set \<Rightarrow> pcaa_command \<Rightarrow> nat \<Rightarrow> (int \<times> nat) option" where
  "element_value f mp c out =
     (if \<forall>i < inner_count c. term_value f mp c out i \<noteq> None
      then Some (first_min (map (\<lambda>i. the (term_value f mp c out i)) [0..<inner_count c]))
      else None)"

fun is_vector :: "pcaa_command \<Rightarrow> bool" where
  "is_vector (PCAA_COST_ADD_VECTOR _) = True"
| "is_vector (PCAA_MINPLUS_PROJECT _) = True"
| "is_vector (PCAA_MINPLUS_MAP3_PROJECT _) = True"
| "is_vector _ = False"

definition output_range :: "pcaa_command \<Rightarrow> nat \<Rightarrow> nat set" where
  "output_range c out = {output_at c out..<output_at c out + output_width c}"

text \<open>The command succeeds: every element has a value and its destination is mapped.\<close>

definition succeeds :: "(nat \<Rightarrow> byte) \<Rightarrow> nat set \<Rightarrow> pcaa_command \<Rightarrow> bool" where
  "succeeds f mp c \<longleftrightarrow>
     (\<forall>out < output_count c. element_value f mp c out \<noteq> None \<and> output_range c out \<subseteq> mp)"

text \<open>A small device: four costs in guest memory and an in-place addition of two of them.\<close>

definition example_timing :: "unit accel_timing_config" where
  "example_timing = \<lparr>tc_mode = kL1Sequential, tc_lanes = 4, tc_descriptor_bytes_per_cycle = 16,
     tc_memory_read_bytes_per_cycle = 4, tc_memory_write_bytes_per_cycle = 4,
     tc_batch_start_cycles = 2, tc_primitive_start_cycles = 1, tc_map_pipeline_latency = 1,
     tc_add3_map_extra_latency = 1, tc_reduction_tree_latency = 1, tc_result_latency = 1,
     tc_charge = None\<rparr>"

definition example_add :: pcaa_command where
  "example_add = PCAA_COST_ADD_VECTOR
     \<lparr>va_first = pcaa_cost_vector 4 2 1, va_second = pcaa_cost_vector 12 2 1,
      va_result = pcaa_cost_output 4 2 1\<rparr>"

definition example_wire :: "byte list" where
  "example_wire = take 32 (command_bytes ACCEL_OPCODE_COST_ADD_VECTOR
     ACCEL_FORMAT_COST_ADD_VECTOR_INPLACE example_add)"

definition example_memory :: guest_memory_state where
  "example_memory = \<lparr>gm_limit = 136, gm_bytes = replicate 4 0 @ i32_bytes 5 @ i32_bytes 7 @
     i32_bytes 1 @ i32_bytes (- 3) @ replicate 20 0 @ example_wire @ replicate 64 0,
     gm_next_address = 256\<rparr>"

section \<open>Loops\<close>

lemma min_loop_element:
  assumes "0 < inner_count c"
  shows "min_loop (term_value f mp c out) (inner_count c) = element_value f mp c out"
proof (cases "\<forall>i < inner_count c. term_value f mp c out i \<noteq> None")
  case True
  then show ?thesis using min_loop_some[OF assms, of "term_value f mp c out"
      "\<lambda>i. the (term_value f mp c out i)"] by (simp add: element_value_def)
next
  case False
  then show ?thesis using min_loop_none by (auto simp: element_value_def)
qed

lemma cost_at_cong: "(\<And>x. a \<le> x \<Longrightarrow> x < a + 4 \<Longrightarrow> f x = g x) \<Longrightarrow> cost_at f a = cost_at g a"
  unfolding cost_at_def using load_bytes_cong[of a 4 f g] by simp

section \<open>Addresses\<close>

lemma view_extent:
  assumes sp: "span base rows columns os is width = Some e" and fit: "unat rows \<le> 65535"
    "unat columns \<le> 65535" "unat os \<le> 65535" "unat is \<le> 65535" and w: "width = 4 \<or> width = 8"
    and r: "r < unat rows" and c: "c < unat columns"
  shows "unat (base + (of_nat r * os + of_nat c * is) * width) =
      unat base + (r * unat os + c * unat is) * unat width"
    and "unat base + (r * unat os + c * unat is) * unat width + unat width \<le> unat e"
proof -
  have e: "unat e = unat base +
      ((unat rows - 1) * unat os + (unat columns - 1) * unat is + 1) * unat width"
    and lt: "unat e < 2 ^ 64"
    using sp fit w span_exact[of rows columns os "is" width base e] by auto
  have "r * unat os + c * unat is \<le> (unat rows - 1) * unat os + (unat columns - 1) * unat is"
    using r c by (intro add_mono mult_le_mono1) simp_all
  then have "(r * unat os + c * unat is + 1) * unat width \<le>
      ((unat rows - 1) * unat os + (unat columns - 1) * unat is + 1) * unat width"
    by (intro mult_le_mono1) simp
  then show ub: "unat base + (r * unat os + c * unat is) * unat width + unat width \<le> unat e"
    unfolding e by (simp add: algebra_simps)
  have "r * unat os \<le> 65535 * 65535" "c * unat is \<le> 65535 * 65535"
    using r c fit by (intro mult_le_mono; simp)+
  then have "unat (of_nat r * os) = r * unat os" "unat (of_nat c * is) = c * unat is"
    by (subst u64_mult_exact; simp add: unat_of_nat_below[OF r] unat_of_nat_below[OF c])+
  moreover from this \<open>r * unat os \<le> _\<close> \<open>c * unat is \<le> _\<close>
  have "unat (of_nat r * os + of_nat c * is) = r * unat os + c * unat is"
    by (subst u64_add_exact) simp_all
  ultimately have "unat ((of_nat r * os + of_nat c * is) * width) =
      (r * unat os + c * unat is) * unat width"
    using lt ub by (subst u64_mult_exact) simp_all
  then show "unat (base + (of_nat r * os + of_nat c * is) * width) =
      unat base + (r * unat os + c * unat is) * unat width"
    using lt ub by (subst u64_add_exact) simp_all
qed

lemma vector_extent:
  assumes "span base 1 n 0 stride width = Some e" and "unat n \<le> 65535" and "unat stride \<le> 65535"
    and "width = 4 \<or> width = 8" and "i < unat n"
  shows "unat (base + of_nat i * stride * width) = unat base + i * unat stride * unat width"
    and "unat base + i * unat stride * unat width + unat width \<le> unat e"
  using view_extent[OF assms(1) _ assms(2) _ assms(3,4) _ assms(5), of 0] by simp_all

lemmas unit_extent = vector_extent[where stride = 1 and width = 4, simplified]

lemma checked_sum_simps [simp]:
  "checked_sum [a, b] = cost_add a b"
  "checked_sum [a, b, c] = (case cost_add a b of None \<Rightarrow> None | Some v \<Rightarrow> cost_add v c)"
  by (auto simp: checked_sum_def split: option.splits)

lemma valid_vector_addD_spans:
  assumes "valid_vector_add v = Inr r"
  obtains ea eb ed where
    "span (vv_base (va_first v)) 1 (vv_length (va_first v)) 0 (vv_stride (va_first v)) 4 = Some ea"
    "span (vv_base (va_second v)) 1 (vv_length (va_first v)) 0 (vv_stride (va_second v)) 4 = Some eb"
    "span (ov_base (va_result v)) 1 (vv_length (va_first v)) 0 (ov_stride (va_result v)) 4 = Some ed"
  using assms by (simp add: valid_vector_add_def split: if_splits option.splits)

lemma valid_vector_addD:
  assumes "valid_vector_add v = Inr r"
  obtains ea eb ed where
    "span (vv_base (va_first v)) 1 (vv_length (va_first v)) 0 (vv_stride (va_first v)) 4 = Some ea"
    "span (vv_base (va_second v)) 1 (vv_length (va_first v)) 0 (vv_stride (va_second v)) 4 = Some eb"
    "span (ov_base (va_result v)) 1 (vv_length (va_first v)) 0 (ov_stride (va_result v)) 4 = Some ed"
    "unat (vv_length (va_first v)) \<le> 65535" "unat (vv_stride (va_first v)) \<le> 65535"
    "unat (vv_stride (va_second v)) \<le> 65535" "unat (ov_stride (va_result v)) \<le> 65535"
    "vv_length (va_second v) = vv_length (va_first v)" "ov_length (va_result v) = vv_length (va_first v)"
    "alias0 v \<or> \<not> overlap (ov_base (va_result v)) ed (vv_base (va_first v)) ea"
    "alias1 v \<or> \<not> overlap (ov_base (va_result v)) ed (vv_base (va_second v)) eb"
proof (cases rule: valid_vector_addD_spans[OF assms])
  case (1 ea eb ed)
  show thesis
    by (rule that[OF 1(1-3)]) (use assms 1 in \<open>auto simp: valid_vector_add_def fit16_iff split: if_splits\<close>)
qed

lemma valid_projectD_spans:
  assumes "valid_project v = Inr r"
  obtains ea eb ed where
    "span (mv_base (pj_matrix v)) (mv_rows (pj_matrix v)) (mv_columns (pj_matrix v))
       (mv_row_stride (pj_matrix v)) (mv_column_stride (pj_matrix v)) 4 = Some ea"
    "span (vv_base (pj_vector v)) 1 (mv_columns (pj_matrix v)) 0 (vv_stride (pj_vector v)) 4 = Some eb"
    "span (ov_base (pj_result v)) 1 (mv_rows (pj_matrix v)) 0 (ov_stride (pj_result v)) 4 = Some ed"
  using assms by (simp add: valid_project_def split: if_splits option.splits)

lemma valid_projectD:
  assumes "valid_project v = Inr r"
  obtains ea eb ed where
    "span (mv_base (pj_matrix v)) (mv_rows (pj_matrix v)) (mv_columns (pj_matrix v))
       (mv_row_stride (pj_matrix v)) (mv_column_stride (pj_matrix v)) 4 = Some ea"
    "span (vv_base (pj_vector v)) 1 (mv_columns (pj_matrix v)) 0 (vv_stride (pj_vector v)) 4 = Some eb"
    "span (ov_base (pj_result v)) 1 (mv_rows (pj_matrix v)) 0 (ov_stride (pj_result v)) 4 = Some ed"
    "unat (mv_rows (pj_matrix v)) \<le> 65535" "unat (mv_columns (pj_matrix v)) \<le> 65535"
    "unat (mv_row_stride (pj_matrix v)) \<le> 65535" "unat (mv_column_stride (pj_matrix v)) \<le> 65535"
    "unat (vv_stride (pj_vector v)) \<le> 65535" "unat (ov_stride (pj_result v)) \<le> 65535"
    "vv_length (pj_vector v) = mv_columns (pj_matrix v)" "ov_length (pj_result v) = mv_rows (pj_matrix v)"
    "\<not> overlap (ov_base (pj_result v)) ed (mv_base (pj_matrix v)) ea"
    "\<not> overlap (ov_base (pj_result v)) ed (vv_base (pj_vector v)) eb"
proof (cases rule: valid_projectD_spans[OF assms])
  case (1 ea eb ed)
  show thesis
    by (rule that[OF 1(1-3)]) (use assms 1 in \<open>simp_all add: valid_project_def fit16_iff split: if_splits\<close>)
qed

lemma valid_map3_projectD_spans:
  assumes "valid_map3_project v = Inr r"
  obtains ea eb ec ed where
    "span (vv_base (m3_first v)) 1 (mv_columns (m3_third v)) 0 (vv_stride (m3_first v)) 4 = Some ea"
    "span (vv_base (m3_second v)) 1 (mv_columns (m3_third v)) 0 (vv_stride (m3_second v)) 4 = Some eb"
    "span (mv_base (m3_third v)) (mv_rows (m3_third v)) (mv_columns (m3_third v))
       (mv_row_stride (m3_third v)) (mv_column_stride (m3_third v)) 4 = Some ec"
    "span (ov_base (m3_result v)) 1 (mv_rows (m3_third v)) 0 (ov_stride (m3_result v)) 8 = Some ed"
  using assms by (simp add: valid_map3_project_def split: if_splits option.splits)

lemma valid_map3_projectD:
  assumes "valid_map3_project v = Inr r"
  obtains ea eb ec ed where
    "span (vv_base (m3_first v)) 1 (mv_columns (m3_third v)) 0 (vv_stride (m3_first v)) 4 = Some ea"
    "span (vv_base (m3_second v)) 1 (mv_columns (m3_third v)) 0 (vv_stride (m3_second v)) 4 = Some eb"
    "span (mv_base (m3_third v)) (mv_rows (m3_third v)) (mv_columns (m3_third v))
       (mv_row_stride (m3_third v)) (mv_column_stride (m3_third v)) 4 = Some ec"
    "span (ov_base (m3_result v)) 1 (mv_rows (m3_third v)) 0 (ov_stride (m3_result v)) 8 = Some ed"
    "unat (mv_rows (m3_third v)) \<le> 65535" "unat (mv_columns (m3_third v)) \<le> 65535"
    "unat (mv_row_stride (m3_third v)) \<le> 65535" "unat (mv_column_stride (m3_third v)) \<le> 65535"
    "unat (vv_stride (m3_first v)) \<le> 65535" "unat (vv_stride (m3_second v)) \<le> 65535"
    "unat (ov_stride (m3_result v)) \<le> 65535"
    "vv_length (m3_first v) = mv_columns (m3_third v)" "vv_length (m3_second v) = mv_columns (m3_third v)"
    "ov_length (m3_result v) = mv_rows (m3_third v)"
    "\<not> overlap (ov_base (m3_result v)) ed (vv_base (m3_first v)) ea"
    "\<not> overlap (ov_base (m3_result v)) ed (vv_base (m3_second v)) eb"
    "\<not> overlap (ov_base (m3_result v)) ed (mv_base (m3_third v)) ec"
proof (cases rule: valid_map3_projectD_spans[OF assms])
  case (1 ea eb ec ed)
  show thesis
    by (rule that[OF 1(1-4)]) (use assms 1 in \<open>simp_all add: valid_map3_project_def fit16_iff split: if_splits\<close>)
qed

lemma valid_reduce2D:
  assumes "valid_reduce2 b v = Inr r"
  obtains ea eb where
    "span (vv_base (r2_first v)) 1 (vv_length (r2_first v)) 0 1 4 = Some ea"
    "span (vv_base (r2_second v)) 1 (vv_length (r2_first v)) 0 1 4 = Some eb"
    "unat (vv_length (r2_first v)) \<le> 65535"
  using assms by (auto simp: valid_reduce2_def fit16_iff split: if_splits)

lemma valid_reduce3D:
  assumes "valid_reduce3 b v = Inr r"
  obtains ea eb ec where
    "span (vv_base (r3_first v)) 1 (vv_length (r3_first v)) 0 1 4 = Some ea"
    "span (vv_base (r3_second v)) 1 (vv_length (r3_first v)) 0 1 4 = Some eb"
    "span (vv_base (r3_third v)) 1 (vv_length (r3_first v)) 0 1 4 = Some ec"
    "unat (vv_length (r3_first v)) \<le> 65535"
  using assms by (auto simp: valid_reduce3_def fit16_iff split: if_splits)

lemma span_nonempty: "span base rows columns os is width = Some e \<Longrightarrow> 0 < unat columns"
  by (auto simp: span_def unat_gt_0 split: if_splits)

lemma inner_count_pos:
  assumes "valid_command (Some c) = Inr r" and "\<not> is_batch c"
  shows "0 < inner_count c"
  using assms
  by (cases c) (auto elim!: valid_reduce2D valid_reduce3D valid_vector_addD valid_projectD
      valid_map3_projectD dest: span_nonempty)

section \<open>Outputs do not disturb later operands\<close>

lemma stride_step:
  assumes "(x::nat) < y" and "0 < s"
  shows "x * s * w + w \<le> y * s * w"
proof -
  have "x * s + 1 \<le> y * s"
    using assms mult_le_mono1[of "Suc x" y s] by simp
  then have "(x * s + 1) * w \<le> y * s * w" by (rule mult_le_mono1)
  then show ?thesis by (simp add: algebra_simps)
qed

lemma disjoint_views:
  assumes "\<not> overlap rb ed ab ea" and "unat ab \<le> a" and "a + 4 \<le> unat ea"
    and "unat rb \<le> out" and "out + w \<le> unat ed"
  shows "a + 4 \<le> out \<or> out + w \<le> a"
  using assms by (auto simp: overlap_def word_less_nat_alt)

lemma add_stable:
  assumes "valid_vector_add v = Inr r" and "out < out'" and "out' < unat (ov_length (va_result v))"
    and "a \<in> set (operand_addrs (PCAA_COST_ADD_VECTOR v) out' i)"
  shows "a + 4 \<le> output_at (PCAA_COST_ADD_VECTOR v) out \<or>
    output_at (PCAA_COST_ADD_VECTOR v) out + 4 \<le> a"
  using assms(1)
proof (rule valid_vector_addD, goal_cases)
  case (1 ea eb ed)
  have o: "out < unat (vv_length (va_first v))" "out' < unat (vv_length (va_first v))"
    using assms 1(9) by auto
  note ext = vector_extent(2)[OF 1(1) 1(4) 1(5) _ o(2)] vector_extent(2)[OF 1(2) 1(4) 1(6) _ o(2)]
    vector_extent(2)[OF 1(3) 1(4) 1(7) _ o(1)]
  have pos: "0 < unat (ov_stride (va_result v))"
    using 1(3) by (auto simp: span_def unat_gt_0 split: if_splits)
  note step = stride_step[OF assms(2) pos, of 4]
  consider "a = unat (vv_base (va_first v)) + out' * unat (vv_stride (va_first v)) * 4"
    | "a = unat (vv_base (va_second v)) + out' * unat (vv_stride (va_second v)) * 4"
    using assms(4) by auto
  then show ?case
  proof cases
    case a: 1
    show ?thesis
    proof (cases "alias0 v")
      case True
      with a step show ?thesis by (auto simp: alias0_def output_at_def)
    next
      case False
      with 1(10) have "\<not> overlap (ov_base (va_result v)) ed (vv_base (va_first v)) ea" by simp
      from disjoint_views[OF this] a ext show ?thesis by (simp add: output_at_def)
    qed
  next
    case a: 2
    show ?thesis
    proof (cases "alias1 v")
      case True
      with a step show ?thesis by (auto simp: alias1_def output_at_def)
    next
      case False
      with 1(11) have "\<not> overlap (ov_base (va_result v)) ed (vv_base (va_second v)) eb" by simp
      from disjoint_views[OF this] a ext show ?thesis by (simp add: output_at_def)
    qed
  qed
qed

lemma project_stable:
  assumes "valid_project v = Inr r" and "out < out'" and "out' < unat (ov_length (pj_result v))"
    and "i < unat (mv_columns (pj_matrix v))"
    and "a \<in> set (operand_addrs (PCAA_MINPLUS_PROJECT v) out' i)"
  shows "a + 4 \<le> output_at (PCAA_MINPLUS_PROJECT v) out \<or>
    output_at (PCAA_MINPLUS_PROJECT v) out + 4 \<le> a"
  using assms(1)
proof (rule valid_projectD, goal_cases)
  case (1 ea eb ed)
  have o: "out < unat (mv_rows (pj_matrix v))" "out' < unat (mv_rows (pj_matrix v))"
    using assms 1(11) by auto
  note ext = view_extent(2)[OF 1(1) 1(4-7) _ o(2) assms(4)]
    vector_extent(2)[OF 1(2) 1(5) 1(8) _ assms(4)] vector_extent(2)[OF 1(3) 1(4) 1(9) _ o(1)]
  let ?o = "output_at (PCAA_MINPLUS_PROJECT v) out"
  have w: "unat (ov_base (pj_result v)) \<le> ?o" "?o + 4 \<le> unat ed"
    using ext by (simp_all add: output_at_def)
  from assms(5) ext consider "unat (mv_base (pj_matrix v)) \<le> a" "a + 4 \<le> unat ea"
    | "unat (vv_base (pj_vector v)) \<le> a" "a + 4 \<le> unat eb"
    by (auto simp del: distrib_right_numeral)
  then show ?case
    by cases (rule disjoint_views[OF 1(12) _ _ w] disjoint_views[OF 1(13) _ _ w]; assumption)+
qed

lemma map3_stable:
  assumes "valid_map3_project v = Inr r" and "out < out'"
    and "out' < unat (ov_length (m3_result v))" and "i < unat (mv_columns (m3_third v))"
    and "a \<in> set (operand_addrs (PCAA_MINPLUS_MAP3_PROJECT v) out' i)"
  shows "a + 4 \<le> output_at (PCAA_MINPLUS_MAP3_PROJECT v) out \<or>
    output_at (PCAA_MINPLUS_MAP3_PROJECT v) out + 8 \<le> a"
  using assms(1)
proof (rule valid_map3_projectD, goal_cases)
  case (1 ea eb ec ed)
  have o: "out < unat (mv_rows (m3_third v))" "out' < unat (mv_rows (m3_third v))"
    using assms 1(14) by auto
  note ext = vector_extent(2)[OF 1(1) 1(6) 1(9) _ assms(4)]
    vector_extent(2)[OF 1(2) 1(6) 1(10) _ assms(4)] view_extent(2)[OF 1(3) 1(5-8) _ o(2) assms(4)]
    vector_extent(2)[OF 1(4) 1(5) 1(11) _ o(1)]
  let ?o = "output_at (PCAA_MINPLUS_MAP3_PROJECT v) out"
  have w: "unat (ov_base (m3_result v)) \<le> ?o" "?o + 8 \<le> unat ed"
    using ext by (simp_all add: output_at_def)
  from assms(5) ext consider "unat (vv_base (m3_first v)) \<le> a" "a + 4 \<le> unat ea"
    | "unat (vv_base (m3_second v)) \<le> a" "a + 4 \<le> unat eb"
    | "unat (mv_base (m3_third v)) \<le> a" "a + 4 \<le> unat ec"
    by (auto simp del: distrib_right_numeral)
  then show ?case
    by cases (rule disjoint_views[OF 1(15) _ _ w] disjoint_views[OF 1(16) _ _ w]
        disjoint_views[OF 1(17) _ _ w]; assumption)+
qed

text \<open>The address of a result in the wrapping arithmetic of the device.\<close>

definition output_address :: "pcaa_command \<Rightarrow> nat \<Rightarrow> u64" where
  "output_address c out =
     (case output_place c of (b, n, s, w) \<Rightarrow> of_nat b + of_nat out * of_nat s * of_nat w)"

lemma vector_store_write:
  "is_vector c \<Longrightarrow> vector_store mi c out r m = mi_write mi m (output_address c out) (element_bytes c r)"
  by (cases c) (simp_all add: vector_store_def output_address_def element_bytes_def output_width_def
      write_i32_def Let_def)

text \<open>The outputs themselves: in range, one after another, and within the output byte set.\<close>

lemma output_facts:
  assumes "valid_command (Some c) = Inr r" and "\<not> is_batch c" and "out < output_count c"
  shows "unat (output_address c out) = output_at c out"
    and "{output_at c out..<output_at c out + output_width c} \<subseteq> output_bytes c"
    and "output_width c = 4 \<or> output_width c = 8"
    and "out' < out \<Longrightarrow> output_at c out' + output_width c \<le> output_at c out"
proof -
  obtain b n s w where sh: "output_shape c = Some (b, n, s, w)" using assms(2) by (cases c) auto
  note v = valid_output[OF assms(1) sh] and pl = shape_place[OF sh]
  then obtain e where sp: "span b 1 n 0 s w = Some e" by blast
  have o: "out < unat n" using assms(3) by (simp add: output_count_def pl)
  show "unat (output_address c out) = output_at c out"
    using vector_extent(1)[OF sp v(2-4) o] by (simp add: output_address_def output_at_def pl)
  have "\<exists>i j. x = unat b + i * unat s * unat w + j \<and> i < unat n \<and> j < unat w"
    if "unat b + out * unat s * unat w \<le> x" "x < unat b + out * unat s * unat w + unat w" for x
    using that o by (intro exI[of _ out] exI[of _ "x - (unat b + out * unat s * unat w)"]) auto
  then show "{output_at c out..<output_at c out + output_width c} \<subseteq> output_bytes c"
    by (auto simp: output_at_def output_width_def output_bytes_def pl)
  show "output_width c = 4 \<or> output_width c = 8" using v(4) by (auto simp: output_width_def pl)
  have "0 < unat s" using sp by (auto simp: span_def unat_gt_0 split: if_splits)
  then show "output_at c out' + output_width c \<le> output_at c out" if "out' < out"
    using stride_step[OF that, of "unat s" "unat w"] by (simp add: output_at_def output_width_def pl)
qed

lemma operands_stable:
  assumes "valid_command (Some c) = Inr r" and "is_vector c" and "out < out'" and "out' < output_count c"
    and "i < inner_count c" and "a \<in> set (operand_addrs c out' i)"
  shows "a + 4 \<le> output_at c out \<or> output_at c out + output_width c \<le> a"
  using assms by (cases c) (auto simp: output_count_def output_width_def
      dest: add_stable project_stable map3_stable)

lemma element_value_cong:
  assumes "\<And>i a x. i < inner_count c \<Longrightarrow> a \<in> set (operand_addrs c out i) \<Longrightarrow> a \<le> x \<Longrightarrow> x < a + 4 \<Longrightarrow>
    f x = g x"
  shows "element_value f mp c out = element_value g mp c out"
proof -
  have t: "term_value f mp c out i = term_value g mp c out i" if "i < inner_count c" for i
  proof -
    have "map (cost_at f) (operand_addrs c out i) = map (cost_at g) (operand_addrs c out i)"
      using assms[OF that] by (intro map_cong refl cost_at_cong) blast
    then show ?thesis by (simp only: term_value_def)
  qed
  have m: "map (\<lambda>i. the (term_value f mp c out i)) [0..<inner_count c] =
      map (\<lambda>i. the (term_value g mp c out i)) [0..<inner_count c]" by (simp add: t)
  show ?thesis unfolding element_value_def m by (simp add: t)
qed

lemma length_element_bytes:
  assumes "valid_command (Some c) = Inr r" and "\<not> is_batch c"
  shows "length (element_bytes c v) = output_width c"
proof -
  obtain b n s w where sh: "output_shape c = Some (b, n, s, w)" using assms(2) by (cases c) auto
  from valid_output(4)[OF assms(1) sh] show ?thesis
    by (auto simp: element_bytes_def output_width_def shape_place[OF sh] i32_bytes_def min_argmin_bytes_def)
qed

lemma all_from_step:
  "k < n \<Longrightarrow> (\<forall>x. k \<le> x \<and> x < n \<longrightarrow> P x) \<longleftrightarrow> P k \<and> (\<forall>x. Suc k \<le> x \<and> x < (n::nat) \<longrightarrow> P x)"
  by (metis Suc_leD le_antisym not_less_eq_eq order_refl)

section \<open>Terms\<close>

context guest_memory
begin

lemma read_i32_eq:
  "read_i32 mi m a =
     (if {unat a..<unat a + 4} \<subseteq> mapped m then Some (cost_at (byte_at m) (unat a)) else None)"
  using read_mapped[of 4 a m] read_unmapped[of 4 a m]
  by (cases "{unat a..<unat a + 4} \<subseteq> mapped m") (simp_all add: read_i32_def cost_at_def)

lemma add_term:
  assumes "valid_vector_add v = Inr r" and "out < unat (ov_length (va_result v))"
  shows "vector_term mi m (PCAA_COST_ADD_VECTOR v) out i =
    term_value (byte_at m) (mapped m) (PCAA_COST_ADD_VECTOR v) out i"
  using assms(1)
proof (rule valid_vector_addD, goal_cases)
  case (1 ea eb ed)
  note x = vector_extent(1)[OF 1(1) 1(4) 1(5), of out] vector_extent(1)[OF 1(2) 1(4) 1(6), of out]
  show ?case using assms(2) 1(9) by (simp add: read_i32_eq term_value_def x)
qed

lemma project_term:
  assumes "valid_project v = Inr r" and "out < unat (ov_length (pj_result v))"
    and "i < unat (mv_columns (pj_matrix v))"
  shows "vector_term mi m (PCAA_MINPLUS_PROJECT v) out i =
    term_value (byte_at m) (mapped m) (PCAA_MINPLUS_PROJECT v) out i"
  using assms(1)
proof (rule valid_projectD, goal_cases)
  case (1 ea eb ed)
  note x = view_extent(1)[OF 1(1) 1(4-7), of out i] vector_extent(1)[OF 1(2) 1(5) 1(8), of i]
  show ?case using assms(2,3) 1(11)
    by (simp add: read_i32_eq term_value_def x del: distrib_right_numeral)
qed

lemma map3_term:
  assumes "valid_map3_project v = Inr r" and "out < unat (ov_length (m3_result v))"
    and "i < unat (mv_columns (m3_third v))"
  shows "vector_term mi m (PCAA_MINPLUS_MAP3_PROJECT v) out i =
    term_value (byte_at m) (mapped m) (PCAA_MINPLUS_MAP3_PROJECT v) out i"
  using assms(1)
proof (rule valid_map3_projectD, goal_cases)
  case (1 ea eb ec ed)
  note x = vector_extent(1)[OF 1(1) 1(6) 1(9), of i] vector_extent(1)[OF 1(2) 1(6) 1(10), of i]
    view_extent(1)[OF 1(3) 1(5-8), of out i]
  show ?case using assms(2,3) 1(14)
    by (simp add: read_i32_eq term_value_def x del: distrib_right_numeral split: option.splits)
qed

lemma reduce2_term:
  assumes "valid_reduce2 b v = Inr r" and "i < unat (vv_length (r2_first v))"
  shows "reduce_term mi m (vv_base (r2_first v)) (vv_base (r2_second v)) None i =
    term_value (byte_at m) (mapped m) (PCAA_MAP_ADD_REDUCE_MIN v) out i"
  using assms(1)
proof (rule valid_reduce2D, goal_cases)
  case (1 ea eb)
  note x = unit_extent(1)[OF 1(1,3), of i] unit_extent(1)[OF 1(2,3), of i]
  show ?case using assms(2) by (simp add: reduce_term_def Let_def read_i32_eq term_value_def x)
qed

lemma reduce3_term:
  assumes "valid_reduce3 b v = Inr r" and "i < unat (vv_length (r3_first v))"
  shows "reduce_term mi m (vv_base (r3_first v)) (vv_base (r3_second v))
      (Some (vv_base (r3_third v))) i =
    term_value (byte_at m) (mapped m) (PCAA_MAP_ADD3_REDUCE_MIN v) out i"
  using assms(1)
proof (rule valid_reduce3D, goal_cases)
  case (1 ea eb ec)
  note x = unit_extent(1)[OF 1(1,4), of i] unit_extent(1)[OF 1(2,4), of i]
    unit_extent(1)[OF 1(3,4), of i]
  show ?case using assms(2) by (simp add: reduce_term_def Let_def read_i32_eq term_value_def x)
qed

lemma vector_output_eq:
  assumes "valid_command (Some c) = Inr r" and "is_vector c" and "out < output_count c"
  shows "vector_output mi m c out = element_value (byte_at m) (mapped m) c out"
proof -
  have "\<not> is_batch c" using assms(2) by (cases c) auto
  then have pos: "0 < inner_count c" using assms(1) inner_count_pos by blast
  have "vector_term mi m c out i = term_value (byte_at m) (mapped m) c out i"
    if "i < inner_count c" for i
    using assms that by (cases c) (auto simp: output_count_def add_term project_term map3_term
        simp del: vector_term.simps)
  moreover have "vector_count c = inner_count c"
    using assms(1,2) by (cases c) (auto elim!: valid_projectD valid_map3_projectD)
  ultimately show ?thesis
    using min_loop_element[OF pos] min_loop_cong[OF refl, of "inner_count c" "vector_term mi m c out"]
    by (simp add: vector_output_def)
qed

lemma vector_loop_spec:
  assumes v: "valid_command (Some c) = Inr r" and vec: "is_vector c"
    and "vector_loop mi c [k..<output_count c] m = (ok, m')" and "mapped m = mp"
    and "\<And>out. k \<le> out \<Longrightarrow> out < output_count c \<Longrightarrow>
      element_value (byte_at m) mp c out = element_value f mp c out"
  shows "mapped m' = mp \<and>
    (\<forall>x. (\<forall>out. k \<le> out \<and> out < output_count c \<longrightarrow> x \<notin> output_range c out) \<longrightarrow>
       byte_at m' x = byte_at m x) \<and>
    (ok \<longleftrightarrow> (\<forall>out. k \<le> out \<and> out < output_count c \<longrightarrow>
       element_value f mp c out \<noteq> None \<and> output_range c out \<subseteq> mp)) \<and>
    (ok \<longrightarrow> (\<forall>out. k \<le> out \<and> out < output_count c \<longrightarrow>
       load_bytes (byte_at m') (output_at c out) (output_width c) =
         element_bytes c (the (element_value f mp c out))))"
  using assms(3-5)
proof (induction "output_count c - k" arbitrary: k m)
  case 0
  then show ?case by auto
next
  case (Suc d)
  then have k: "k < output_count c" by simp
  then have upt: "[k..<output_count c] = k # [Suc k..<output_count c]" by (simp add: upt_conv_Cons)
  have nb: "\<not> is_batch c" using vec by (cases c) auto
  note of = output_facts[OF v nb k]
  have out: "vector_output mi m c k = element_value f mp c k"
    using vector_output_eq[OF v vec k] Suc.prems(2,3) k by simp
  show ?case
  proof (cases "element_value f mp c k")
    case None
    then have "ok = False" "m' = m" using Suc.prems(1) out by (auto simp: upt vector_store_write[OF vec])
    then show ?thesis using None k Suc.prems(2) by auto
  next
    case (Some e)
    have len: "length (element_bytes c e) = output_width c" by (rule length_element_bytes[OF v nb])
    then have ne: "element_bytes c e \<noteq> []" using of(3) by auto
    obtain w m1 where w: "mi_write mi m (output_address c k) (element_bytes c e) = (w, m1)"
      by (cases "mi_write mi m (output_address c k) (element_bytes c e)")
    show ?thesis
    proof (cases "output_range c k \<subseteq> mp")
      case False
      then have "w = False \<and> m1 = m"
        using write_unmapped[OF ne, of "output_address c k" m] w of(1) len Suc.prems(2)
        by (simp add: output_range_def)
      then have "ok = False" "m' = m" using Suc.prems(1) out Some w by (auto simp: upt vector_store_write[OF vec])
      then show ?thesis using False k Suc.prems(2) by auto
    next
      case True
      then have w1: "w" "byte_at m1 = store_bytes (byte_at m) (output_at c k) (element_bytes c e)"
          "mapped m1 = mp"
        using write_mapped[OF ne _ w] of(1) len Suc.prems(2) by (auto simp: output_range_def)
      have rest: "vector_loop mi c [Suc k..<output_count c] m1 = (ok, m')"
        using Suc.prems(1) out Some w w1(1) by (simp add: upt vector_store_write[OF vec])
      have same: "byte_at m1 x = byte_at m x" if "x \<notin> output_range c k" for x
        using that len by (auto simp: w1(2) store_bytes_def output_range_def)
      have stable: "element_value (byte_at m1) mp c out = element_value f mp c out"
        if "Suc k \<le> out" "out < output_count c" for out
      proof -
        have "x \<notin> output_range c k"
          if "i < inner_count c" "a \<in> set (operand_addrs c out i)" "a \<le> x" "x < a + 4" for i a x
          using operands_stable[OF v vec _ \<open>out < output_count c\<close> that(1,2), of k] \<open>Suc k \<le> out\<close> that(3,4)
          by (auto simp: output_range_def)
        then have "element_value (byte_at m1) mp c out = element_value (byte_at m) mp c out"
          using same by (intro element_value_cong) blast
        then show ?thesis using Suc.prems(3) that by simp
      qed
      have "d = output_count c - Suc k" using Suc.hyps(2) by simp
      note IH = Suc.hyps(1)[OF this rest w1(3) stable]
      have later: "x \<notin> output_range c out"
        if "x \<in> output_range c k" "Suc k \<le> out" "out < output_count c" for x out
        using output_facts(4)[OF v nb that(3), of k] that(1,2) by (auto simp: output_range_def)
      have "load_bytes (byte_at m') (output_at c k) (output_width c) =
          load_bytes (byte_at m1) (output_at c k) (output_width c)"
        using IH later by (intro load_bytes_cong) (auto simp: output_range_def)
      also have "\<dots> = element_bytes c e"
        using load_store_same[of "byte_at m" "output_at c k" "element_bytes c e"] len
        by (simp add: w1(2))
      finally have at_k: "load_bytes (byte_at m') (output_at c k) (output_width c) =
          element_bytes c (the (element_value f mp c k))" using Some by simp
      show ?thesis
        using IH same at_k Some True k
        by (intro conjI) (simp_all add: all_from_step[of k "output_count c"])
    qed
  qed
qed

lemma reduce_spec:
  assumes v: "valid_command (Some c) = Inr r" and "\<not> is_batch c" and "\<not> is_vector c"
    and x: "execute_primitive mi c m = (ok, m')"
  shows "mapped m' = mapped m \<and> (\<forall>x. x \<notin> output_range c 0 \<longrightarrow> byte_at m' x = byte_at m x) \<and>
    (ok \<longleftrightarrow> element_value (byte_at m) (mapped m) c 0 \<noteq> None \<and> output_range c 0 \<subseteq> mapped m) \<and>
    (ok \<longrightarrow> load_bytes (byte_at m') (output_at c 0) (output_width c) =
       element_bytes c (the (element_value (byte_at m) (mapped m) c 0)))"
proof -
  have n1: "0 < output_count c" using assms(2,3) by (cases c) (auto simp: output_count_def)
  note of = output_facts[OF v assms(2) n1]
  have term2: "term_value f mp (PCAA_MAP_ADD_REDUCE_MIN_ARGMIN w) =
      term_value f mp (PCAA_MAP_ADD_REDUCE_MIN w)" for f mp w
    by (simp add: term_value_def fun_eq_iff)
  have term3: "term_value f mp (PCAA_MAP_ADD3_REDUCE_MIN_ARGMIN w) =
      term_value f mp (PCAA_MAP_ADD3_REDUCE_MIN w)" for f mp w
    by (simp add: term_value_def fun_eq_iff)
  have "execute_primitive mi c m = (case min_loop (term_value (byte_at m) (mapped m) c 0)
        (inner_count c) of
      None \<Rightarrow> (False, m) | Some e \<Rightarrow> mi_write mi m (output_address c 0) (element_bytes c e))"
    using v assms(2,3)
    by (cases c) (auto simp: execute_reduce_def write_i32_def output_address_def
        output_width_def element_bytes_def term2 term3 reduce2_term[where out = 0] reduce3_term[where out = 0]
        cong: min_loop_cong split: option.splits)
  then have ex: "execute_primitive mi c m = (case element_value (byte_at m) (mapped m) c 0 of
      None \<Rightarrow> (False, m) | Some e \<Rightarrow> mi_write mi m (output_address c 0) (element_bytes c e))"
    using min_loop_element[OF inner_count_pos[OF v assms(2)]] by simp
  show ?thesis
  proof (cases "element_value (byte_at m) (mapped m) c 0")
    case None
    with ex x show ?thesis by simp
  next
    case (Some e)
    have len: "length (element_bytes c e) = output_width c" by (rule length_element_bytes[OF v assms(2)])
    then have ne: "element_bytes c e \<noteq> []" using of(3) by auto
    have w: "mi_write mi m (output_address c 0) (element_bytes c e) = (ok, m')"
      using ex x Some by simp
    show ?thesis
    proof (cases "output_range c 0 \<subseteq> mapped m")
      case True
      then have "ok" "byte_at m' = store_bytes (byte_at m) (output_at c 0) (element_bytes c e)"
          "mapped m' = mapped m"
        using write_mapped[OF ne _ w] of(1) len by (auto simp: output_range_def)
      with True Some show ?thesis
        using len load_store_same[of "byte_at m" "output_at c 0" "element_bytes c e"]
        by (auto simp: store_bytes_def output_range_def)
    next
      case False
      then have "\<not> ok" "m' = m"
        using write_unmapped[OF ne, of "output_address c 0" m] w of(1) len
        by (auto simp: output_range_def)
      with False Some show ?thesis by simp
    qed
  qed
qed

lemma primitive_spec:
  assumes v: "valid_command (Some c) = Inr r" and nb: "\<not> is_batch c"
    and x: "execute_primitive mi c m = (ok, m')"
  shows "mapped m' = mapped m" and "x \<notin> output_bytes c \<Longrightarrow> byte_at m' x = byte_at m x"
    and "ok \<longleftrightarrow> succeeds (byte_at m) (mapped m) c"
    and "ok \<Longrightarrow> out < output_count c \<Longrightarrow>
      load_bytes (byte_at m') (output_at c out) (output_width c) =
      element_bytes c (the (element_value (byte_at m) (mapped m) c out))"
proof -
  have sub: "output_range c out \<subseteq> output_bytes c" if "out < output_count c" for out
    using output_facts(2)[OF v nb that] by (simp add: output_range_def)
  have spec: "mapped m' = mapped m \<and>
    (\<forall>x. (\<forall>out < output_count c. x \<notin> output_range c out) \<longrightarrow> byte_at m' x = byte_at m x) \<and>
    (ok \<longleftrightarrow> succeeds (byte_at m) (mapped m) c) \<and>
    (ok \<longrightarrow> (\<forall>out < output_count c. load_bytes (byte_at m') (output_at c out) (output_width c) =
       element_bytes c (the (element_value (byte_at m) (mapped m) c out))))"
  proof (cases "is_vector c")
    case True
    then have "vector_loop mi c [0..<output_count c] m = (ok, m')"
      using x by (cases c) (auto simp: execute_vector_command_def output_count_def)
    from vector_loop_spec[OF v True this refl, of "byte_at m"] show ?thesis
      by (simp add: succeeds_def)
  next
    case False
    then have "output_count c = 1" using nb by (cases c) (auto simp: output_count_def)
    with reduce_spec[OF v nb False x] show ?thesis by (simp add: succeeds_def)
  qed
  then show "mapped m' = mapped m" "ok \<longleftrightarrow> succeeds (byte_at m) (mapped m) c" by auto
  show "byte_at m' x = byte_at m x" if "x \<notin> output_bytes c" using spec sub that by blast
  show "load_bytes (byte_at m') (output_at c out) (output_width c) =
      element_bytes c (the (element_value (byte_at m) (mapped m) c out))"
    if "ok" "out < output_count c" using spec that by blast
qed

end

section \<open>Claim\<close>

text \<open>
  C16: every cost primitive of the device does what its specification says. On guest memory that
  meets the contract and for a command the codec accepts, \<open>execute_command\<close> succeeds exactly when
  all operands are mapped, no checked addition fails and all destinations are mapped; then output
  element \<open>out\<close> holds the first minimum over the inner index of the sums of the operands as they
  were before the command, in-place additions included (for an addition that is the single sum).
  Whether it succeeds or not, only output bytes of the command change, and neither the mapping nor
  the descriptor and status registers do.
\<close>

theorem execute_command_correct:
  assumes "guest_memory mi byte_at mapped" and "valid_command (Some c) = Inr r" and "\<not> is_batch c"
    and "execute_command mi timing c a = (ok, a')"
  shows "(ok \<longleftrightarrow> succeeds (byte_at (ac_memory a)) (mapped (ac_memory a)) c) \<and>
    (ok \<longrightarrow> (\<forall>out < output_count c.
       load_bytes (byte_at (ac_memory a')) (output_at c out) (output_width c) =
         element_bytes c (the (element_value (byte_at (ac_memory a)) (mapped (ac_memory a)) c out)))) \<and>
    (\<forall>x. x \<notin> output_bytes c \<longrightarrow> byte_at (ac_memory a') x = byte_at (ac_memory a) x) \<and>
    mapped (ac_memory a') = mapped (ac_memory a) \<and>
    ac_descriptor_address a' = ac_descriptor_address a \<and> ac_status a' = ac_status a"
proof -
  have x: "execute_primitive mi c (ac_memory a) = (ok, ac_memory a')"
    and "ac_descriptor_address a' = ac_descriptor_address a" "ac_status a' = ac_status a"
    using assms(4) by (auto simp: execute_command_def split: prod.splits)
  with guest_memory.primitive_spec[OF assms(1-3) x] show ?thesis by auto
qed

theorem execute_command_correct_witness:
  "\<exists>a'. execute_command gm_interface example_timing example_add (accelerator_init example_memory) =
      (True, a') \<and> succeeds (gm_byte example_memory) (gm_mapped example_memory) example_add \<and>
    gm_byte (ac_memory a') 12 = gm_byte example_memory 12"
proof -
  let ?x = "execute_command gm_interface example_timing example_add (accelerator_init example_memory)"
  have v: "valid_command (Some example_add) =
      Inr (ACCEL_OPCODE_COST_ADD_VECTOR, ACCEL_FORMAT_COST_ADD_VECTOR_INPLACE, 32)" by code_simp
  have "fst ?x" by code_simp
  then have x: "?x = (True, snd ?x)" by (metis prod.collapse)
  have "\<not> is_batch example_add" by (simp add: example_add_def)
  moreover have "12 \<notin> output_bytes example_add"
    by (auto simp: output_bytes_def example_add_def view_defs)
  ultimately show ?thesis
    using x execute_command_correct[OF gm.guest_memory_axioms v _ x]
    by (intro exI[of _ "snd ?x"]) (simp add: accelerator_init_def)
qed

end
