(* ===== verification/Accelerator_Batch.thy ===== *)
theory Accelerator_Batch
  imports Accelerator_Correct
begin

text \<open>
  The ordered batch of \<open>accelerator.cpp\<close> against its specification. \<open>run_children\<close> runs commands in
  order, stops at the first one that is refused or fails, and counts the ones that completed.
\<close>

section \<open>Specification\<close>

fun run_children ::
  "'m memory_interface \<Rightarrow> 't accel_timing_config \<Rightarrow> (pcaa_command \<Rightarrow> bool) \<Rightarrow> pcaa_command list
     \<Rightarrow> 'm accelerator \<Rightarrow> nat \<times> 'm accelerator" where
  "run_children mi timing protected [] a = (0, a)"
| "run_children mi timing protected (c # cs) a =
     (if is_batch c \<or> protected c then (0, a)
      else case execute_command mi timing c a of
          (done_ok, a') \<Rightarrow>
            if \<not> done_ok then (0, a')
            else case run_children mi timing protected cs a' of (k, a'') \<Rightarrow> (Suc k, a''))"

definition protects :: "u64 \<Rightarrow> u64 \<Rightarrow> u64 \<Rightarrow> u64 \<Rightarrow> pcaa_command \<Rightarrow> bool" where
  "protects children children_end descriptor descriptor_end c \<longleftrightarrow>
     pcaa_output_overlaps (Some c) children children_end \<or>
     pcaa_output_overlaps (Some c) descriptor descriptor_end"

definition example_batch :: batch_reference where
  "example_batch = \<lparr>br_child_descriptors = 40, br_count = 1, br_child_bytes = 32, br_result = 80\<rparr>"

definition example_device :: "guest_memory_state accelerator" where
  "example_device = (accelerator_init example_memory)\<lparr>ac_descriptor_address := 96\<rparr>"

section \<open>Fetching a command\<close>

lemma load_bytes_split: "load_bytes f a (n + k) = load_bytes f a n @ load_bytes f (a + n) k"
  by (rule nth_equalityI) (auto simp: nth_append)

lemma take_load_bytes: "k \<le> n \<Longrightarrow> take k (load_bytes f a n) = load_bytes f a k"
  by (rule nth_equalityI) auto

context guest_memory
begin

lemma read_command_wire:
  assumes w: "wire c = Some bs" and mem: "load_bytes (byte_at m) (unat address) (length bs) = bs"
    and mp: "{unat address..<unat address + length bs} \<subseteq> mapped m"
    and "address \<noteq> 0" and avail: "length bs \<le> available"
    and bound: "unat address + length bs < 2 ^ 64"
  shows "read_command mi m address available = Some (canonical_command c, length bs)"
proof -
  have len: "length bs \<in> {32, 48, 64}" using w by (rule wire_length)
  then have l8: "8 \<le> length bs" by auto
  have header: "mi_read mi m address 8 = Some (take 8 bs)"
    using mp l8 mem take_load_bytes[OF l8, of "byte_at m" "unat address"]
    by (subst read_mapped) auto
  have a8: "unat (address + 8) = unat address + 8"
    using bound l8 by (subst u64_add_exact) simp_all
  have "load_bytes (byte_at m) (unat address + 8) (length bs - 8) = drop 8 bs"
    using mem load_bytes_split[of "byte_at m" "unat address" 8 "length bs - 8"] l8
    by (metis add_diff_inverse_nat append_eq_conv_conj le_add_diff_inverse length_load_bytes)
  then have rest: "mi_read mi m (address + 8) (length bs - 8) = Some (drop 8 bs)"
    using mp l8 len by (subst read_mapped) (auto simp: a8)
  have fs: "format_size (take 8 bs ! 0) (take 8 bs ! 1) = Inr (length bs)"
    using decode_wire[OF w, of "[]"] l8
    by (auto simp: decode_core_def split: if_splits sum.splits option.splits)
  have "of_nat (length bs) \<le> UINT64_MAX - address"
    using bound len by (auto simp: word_le_nat_alt u64_max_minus)
  with header rest fs avail l8 assms(4) decode_wire[OF w, of "[]"] show ?thesis
    by (simp add: read_command_def not_less)
qed

end

lemma accel_span_bytes:
  assumes "accel_span base 1 n 0 1 1 = Some e"
  shows "base \<noteq> 0" and "0 < unat n" and "unat e = unat base + unat n"
proof -
  show nz: "base \<noteq> 0" "0 < unat n" using assms by (auto simp: accel_span_def unat_gt_0 split: if_splits)
  define k where "k = (ucast (n - 1) :: u64)"
  have k: "unat k = unat n - 1"
    using nz(2) unsigned_less[of n, where 'a = nat]
    by (simp add: k_def unsigned_ucast_eq unat_minus_one unat_gt_0 take_bit_nat_eq_self)
  have e: "e = base + (k + 1)" and le: "\<not> base > UINT64_MAX - 1" "\<not> k > UINT64_MAX - base - 1"
    using assms by (auto simp: accel_span_def Let_def k_def split: if_splits)
  have "unat (UINT64_MAX - base - 1) = 18446744073709551615 - unat base - 1"
    using le(1) by (simp add: unat_sub u64_max_minus word_le_nat_alt word_less_nat_alt not_less)
  with le have b: "unat base + unat k + 1 < 18446744073709551616"
    by (simp add: word_less_nat_alt u64_max_minus)
  then have "unat (k + 1) = unat k + 1" by (subst u64_add_exact) simp_all
  with b have "unat e = unat base + (unat k + 1)" unfolding e by (subst u64_add_exact) simp_all
  with k nz(2) show "unat e = unat base + unat n" by simp
qed

section \<open>The loop over the children\<close>

lemma execute_command_frame:
  assumes "execute_command mi timing c a = (ok, a')"
  shows "ac_descriptor_address a' = ac_descriptor_address a" and "ac_status a' = ac_status a"
    and "execute_primitive mi c (ac_memory a) = (ok, ac_memory a')"
  using assms by (auto simp: execute_command_def split: prod.splits)

lemma wire_canonical_valid:
  assumes "wire c = Some bs"
  shows "\<exists>r. valid_command (Some (canonical_command c)) = Inr r"
  using assms valid_canonical[of c] by (auto simp: wire_def split: sum.splits)

context guest_memory
begin

lemma batch_loop_run:
  assumes "wires cs = Some ws"
    and "unat cursor + length (concat ws) = unat children_end" and "unat children \<le> unat cursor"
    and "children \<noteq> 0" and "children < children_end"
    and "load_bytes (byte_at (ac_memory a)) (unat cursor) (length (concat ws)) = concat ws"
    and "{unat children..<unat children_end} \<subseteq> mapped (ac_memory a)"
    and "protected = protects children children_end (ac_descriptor_address a) descriptor_end"
  shows "batch_loop mi timing children children_end descriptor_end (length cs) index cursor a =
    (case run_children mi timing protected (map canonical_command cs) a of
       (k, a') \<Rightarrow> (if k = length cs then Inr children_end else Inl (index + k), a'))"
  using assms
proof (induction cs arbitrary: ws cursor a index)
  case Nil
  then show ?case by (simp add: word_unat_eq_iff)
next
  case (Cons c cs)
  then obtain w ws' where w: "wire c = Some w" "wires cs = Some ws'" "ws = w # ws'"
    by (auto split: option.splits)
  let ?c = "canonical_command c"
  let ?n = "length (concat ws')"
  have len: "0 < length w" "length w \<le> 64" using wire_length[OF w(1)] by auto
  have sum: "unat cursor + (length w + ?n) = unat children_end" using Cons.prems(2) w by simp
  have split: "load_bytes (byte_at (ac_memory a)) (unat cursor) (length w) = w"
    "load_bytes (byte_at (ac_memory a)) (unat cursor + length w) ?n = concat ws'"
    using Cons.prems(6) w(3) load_bytes_split[of "byte_at (ac_memory a)" "unat cursor" "length w" ?n]
    by auto
  have ce: "unat (children_end - cursor) = length w + ?n"
    using sum by (subst unat_sub) (auto simp: word_le_nat_alt)
  have fetch: "read_command mi (ac_memory a) cursor (unat (children_end - cursor)) =
      Some (?c, length w)"
    using Cons.prems(3,4,7) sum split(1) ce u64_less[of children_end]
    by (intro read_command_wire[OF w(1)]) (auto simp: unat_eq_0)
  show ?case
  proof (cases "is_batch ?c \<or> protected ?c")
    case True
    then show ?thesis using fetch Cons.prems(8) by (auto simp: protects_def)
  next
    case ok: False
    obtain done_ok a1 where x: "execute_command mi timing ?c a = (done_ok, a1)"
      by (cases "execute_command mi timing ?c a")
    note fr = execute_command_frame[OF x]
    show ?thesis
    proof (cases done_ok)
      case False
      then show ?thesis using fetch ok x Cons.prems(8) by (auto simp: protects_def)
    next
      case True
      obtain r where v: "valid_command (Some ?c) = Inr r" using wire_canonical_valid[OF w(1)] by blast
      have "output_bytes ?c \<inter> {unat children..<unat children_end} = {}"
        using output_overlaps_exact[OF v _ Cons.prems(5)] ok Cons.prems(8) by (auto simp: protects_def)
      then have "byte_at (ac_memory a1) x = byte_at (ac_memory a) x"
        if "unat cursor + length w \<le> x" "x < unat children_end" for x
        using that ok Cons.prems(3) by (intro primitive_spec(2)[OF v _ fr(3)]) (auto simp: disjoint_iff)
      then have keep: "load_bytes (byte_at (ac_memory a1)) (unat cursor + length w) ?n = concat ws'"
        using split(2) sum load_bytes_cong[of "unat cursor + length w" ?n "byte_at (ac_memory a1)"
          "byte_at (ac_memory a)"] by simp
      have mp: "mapped (ac_memory a1) = mapped (ac_memory a)"
        using primitive_spec(1)[OF v _ fr(3)] ok by simp
      have cur: "unat (cursor + of_nat (length w)) = unat cursor + length w"
        using sum u64_less[of children_end] len(2)
        by (subst u64_add_exact) (simp_all add: unat_of_nat take_bit_nat_eq_self)
      have "batch_loop mi timing children children_end descriptor_end (length cs) (index + 1)
          (cursor + of_nat (length w)) a1 =
        (case run_children mi timing protected (map canonical_command cs) a1 of
          (k, a') \<Rightarrow> (if k = length cs then Inr children_end else Inl (index + 1 + k), a'))"
        using Cons.prems(3-5,7,8) sum keep mp fr(1)
        by (intro Cons.IH[OF w(2)]) (simp_all add: cur)
      then show ?thesis
        using fetch ok x True Cons.prems(8) by (auto simp: protects_def split: prod.splits)
    qed
  qed
qed

lemma run_children_mapped:
  assumes "\<And>c. c \<in> set cs \<Longrightarrow> \<exists>r. valid_command (Some c) = Inr r"
    and "run_children mi timing protected cs a = (k, a')"
  shows "mapped (ac_memory a') = mapped (ac_memory a) \<and> k \<le> length cs"
  using assms
proof (induction cs arbitrary: a k)
  case Nil
  then show ?case by simp
next
  case (Cons c cs)
  obtain r where v: "valid_command (Some c) = Inr r" using Cons.prems(1)[of c] by auto
  obtain ok a1 where x: "execute_command mi timing c a = (ok, a1)"
    by (cases "execute_command mi timing c a")
  have "\<not> is_batch c \<Longrightarrow> mapped (ac_memory a1) = mapped (ac_memory a)"
    using primitive_spec(1)[OF v _ execute_command_frame(3)[OF x]] by blast
  then show ?case
    using Cons.prems(2) x Cons.IH[of a1] Cons.prems(1)
    by (cases "run_children mi timing protected cs a1") (auto split: if_splits)
qed

lemma write_batch_result_spec:
  assumes "{unat result..<unat result + 8} \<subseteq> mapped (ac_memory a)"
    and "write_batch_result mi result completed failed a = (ok, a')"
  shows "ok" and "load_bytes (byte_at (ac_memory a')) (unat result) 8 = batch_result_bytes completed failed"
    and "x \<notin> {unat result..<unat result + 8} \<Longrightarrow> byte_at (ac_memory a') x = byte_at (ac_memory a) x"
    and "mapped (ac_memory a') = mapped (ac_memory a)"
proof -
  let ?bs = "batch_result_bytes completed failed"
  have len: "length ?bs = 8" by (simp add: batch_result_bytes_def)
  then have ne: "?bs \<noteq> []" by auto
  have w: "mi_write mi (ac_memory a) result ?bs = (ok, ac_memory a')"
    using assms(2) by (auto simp: write_batch_result_def split: prod.splits)
  have st: "ok" "byte_at (ac_memory a') = store_bytes (byte_at (ac_memory a)) (unat result) ?bs"
    "mapped (ac_memory a') = mapped (ac_memory a)"
    using write_mapped[OF ne _ w] assms(1) len by auto
  show ok and "mapped (ac_memory a') = mapped (ac_memory a)" by (rule st(1), rule st(3))
  show "load_bytes (byte_at (ac_memory a')) (unat result) 8 = ?bs"
    using load_store_same[of _ _ ?bs] len by (simp add: st(2))
  show "byte_at (ac_memory a') x = byte_at (ac_memory a) x" if "x \<notin> {unat result..<unat result + 8}"
    using that len by (auto simp: st(2) store_bytes_def)
qed

end

lemma wires_valid:
  "wires cs = Some ws \<Longrightarrow> c \<in> set (map canonical_command cs) \<Longrightarrow> \<exists>r. valid_command (Some c) = Inr r"
  by (induction cs arbitrary: ws) (auto split: option.splits dest: wire_canonical_valid)

lemma encode_stream_wires:
  assumes "pcaa_encode_stream (Some cs) (Some out) capacity (Some n) =
      (PCAA_STATUS_OK, Some buf, Some bytes)" and "capacity \<le> length out"
  obtains ws where "wires cs = Some ws" and "bytes = length (concat ws)" and "take bytes buf = concat ws"
    and "bytes \<le> 4294967295" and "length cs \<le> 4294967295" and "cs \<noteq> []"
proof -
  from assms have size: "stream_size_core (Some cs) = Inr bytes"
    and buf: "buf = concat (the (wires cs)) @ drop bytes out"
    by (auto simp: encode_stream_eq stream_size_not_ok split: sum.splits if_splits)
  then have "stream_size_loop cs 0 = Inr bytes" "length cs \<le> 4294967295" "cs \<noteq> []"
    by (auto simp: stream_size_core_def split: if_splits)
  with stream_size_loop_wires[of cs 0 bytes] buf that show thesis by auto
qed

context guest_memory
begin

lemma encoded_batch:
  assumes "pcaa_encode_stream (Some cs) (Some out) capacity (Some n) =
      (PCAA_STATUS_OK, Some buf, Some bytes)" and "capacity \<le> length out"
    and "load_bytes (byte_at (ac_memory a)) (unat (br_child_descriptors batch)) bytes = take bytes buf"
    and "br_child_bytes batch = of_nat bytes" and "br_count batch = of_nat (length cs)"
    and "accel_span (br_child_descriptors batch) 1 (ucast (br_child_bytes batch)) 0 1 1 =
      Some children_end"
    and "accel_span (ac_descriptor_address a) 1 1 0 1 32 = Some descriptor_end"
    and "accel_span (br_result batch) 1 1 0 1 8 = Some result_end"
    and "\<not> overlaps (br_result batch) result_end (br_child_descriptors batch) children_end"
    and "\<not> overlaps (br_result batch) result_end (ac_descriptor_address a) descriptor_end"
    and "{unat (br_child_descriptors batch)..<unat children_end} \<subseteq> mapped (ac_memory a)"
    and "{unat (br_result batch)..<unat (br_result batch) + 8} \<subseteq> mapped (ac_memory a)"
    and "run_children mi timing (protects (br_child_descriptors batch) children_end
        (ac_descriptor_address a) descriptor_end) (map canonical_command cs)
        (a\<lparr>ac_timing_statistics := charge_batch timing (ac_timing_statistics a)\<rparr>) = (k, a1)"
    and "execute_batch mi timing batch a = (ok, a')"
  shows "(ok \<longleftrightarrow> k = length cs) \<and>
    load_bytes (byte_at (ac_memory a')) (unat (br_result batch)) 8 =
      batch_result_bytes (of_nat k) (if ok then 4294967295 else of_nat k) \<and>
    (\<forall>x. x \<notin> {unat (br_result batch)..<unat (br_result batch) + 8} \<longrightarrow>
       byte_at (ac_memory a') x = byte_at (ac_memory a1) x) \<and>
    ac_timing_statistics a' = ac_timing_statistics a1 \<and> mapped (ac_memory a') = mapped (ac_memory a)"
proof -
  obtain ws where ws: "wires cs = Some ws" "bytes = length (concat ws)" "take bytes buf = concat ws"
      "bytes \<le> 4294967295" "length cs \<le> 4294967295" "cs \<noteq> []"
    using encode_stream_wires[OF assms(1,2)] by blast
  have nb: "unat (ucast (br_child_bytes batch) :: u32) = bytes"
    using ws(4) by (simp add: assms(4) unsigned_ucast_eq unat_of_nat take_bit_nat_eq_self)
  have cnt: "unat (br_count batch) = length cs"
    using ws(5) by (simp add: assms(5) unat_of_nat take_bit_nat_eq_self)
  have cnt32: "ucast (br_count batch) = (of_nat (length cs) :: u32)"
    using ws(5) by (simp add: assms(5) word_unat_eq_iff unsigned_ucast_eq unat_of_nat take_bit_nat_eq_self)
  note sp = accel_span_bytes[OF assms(6)]
  have lt: "br_child_descriptors batch < children_end"
    using sp(2,3) by (simp add: word_less_nat_alt)
  let ?a = "a\<lparr>ac_timing_statistics := charge_batch timing (ac_timing_statistics a)\<rparr>"
  have loop: "batch_loop mi timing (br_child_descriptors batch) children_end descriptor_end
      (unat (br_count batch)) 0 (br_child_descriptors batch) ?a =
      (if k = length cs then Inr children_end else Inl k, a1)"
    using batch_loop_run[OF ws(1), of "br_child_descriptors batch" children_end
        "br_child_descriptors batch" ?a _ descriptor_end timing 0] sp nb ws(2,3) lt assms(3,11,13)
    by (simp add: cnt)
  have mp: "mapped (ac_memory a1) = mapped (ac_memory a)" "k \<le> length cs"
    using run_children_mapped[OF wires_valid[OF ws(1)] assms(13)] by simp_all
  obtain ok' a2 where w2: "write_batch_result mi (br_result batch) (of_nat k)
      (if k = length cs then 4294967295 else of_nat k) a1 = (ok', a2)"
    by (cases "write_batch_result mi (br_result batch) (of_nat k)
      (if k = length cs then 4294967295 else of_nat k) a1")
  have "a' = a2" and ok: "ok = (if k = length cs then ok' else False)"
    using assms(14) loop cnt cnt32 assms(6-10) w2
    by (cases "k = length cs"; simp add: execute_batch_def Let_def)+
  with w2 have w: "write_batch_result mi (br_result batch) (of_nat k)
      (if k = length cs then 4294967295 else of_nat k) a1 = (ok', a')" by simp
  have "ac_timing_statistics a' = ac_timing_statistics a1"
    using w by (auto simp: write_batch_result_def split: prod.splits)
  moreover have "{unat (br_result batch)..<unat (br_result batch) + 8} \<subseteq> mapped (ac_memory a1)"
    using assms(12) mp by simp
  note write_batch_result_spec[OF this w]
  ultimately show ?thesis using ok mp(1) by auto
qed

end

section \<open>Claim\<close>

text \<open>
  C17: end to end, an ordered batch runs exactly the host's commands. When guest memory holds the
  stream that \<open>pcaa_encode_stream\<close> produced and the parent descriptor names it, \<open>execute_batch\<close>
  performs \<open>run_children\<close> on the submitted commands: each is fetched as it was encoded even though
  earlier children write to guest memory, execution stops at the first command that fails or would
  overwrite the child stream or the parent descriptor, the batch succeeds exactly when all of them
  completed, and the result record holds the completed count with \<open>UINT32_MAX\<close> or the failing
  index.
\<close>

theorem batch_runs_encoded_stream:
  assumes "guest_memory mi byte_at mapped"
    and "pcaa_encode_stream (Some cs) (Some out) capacity (Some n) =
      (PCAA_STATUS_OK, Some buf, Some bytes)" and "capacity \<le> length out"
    and "load_bytes (byte_at (ac_memory a)) (unat (br_child_descriptors batch)) bytes = take bytes buf"
    and "br_child_bytes batch = of_nat bytes" and "br_count batch = of_nat (length cs)"
    and "accel_span (br_child_descriptors batch) 1 (ucast (br_child_bytes batch)) 0 1 1 =
      Some children_end"
    and "accel_span (ac_descriptor_address a) 1 1 0 1 32 = Some descriptor_end"
    and "accel_span (br_result batch) 1 1 0 1 8 = Some result_end"
    and "\<not> overlaps (br_result batch) result_end (br_child_descriptors batch) children_end"
    and "\<not> overlaps (br_result batch) result_end (ac_descriptor_address a) descriptor_end"
    and "{unat (br_child_descriptors batch)..<unat children_end} \<subseteq> mapped (ac_memory a)"
    and "{unat (br_result batch)..<unat (br_result batch) + 8} \<subseteq> mapped (ac_memory a)"
    and "run_children mi timing (protects (br_child_descriptors batch) children_end
        (ac_descriptor_address a) descriptor_end) (map canonical_command cs)
        (a\<lparr>ac_timing_statistics := charge_batch timing (ac_timing_statistics a)\<rparr>) = (k, a1)"
    and "execute_batch mi timing batch a = (ok, a')"
  shows "(ok \<longleftrightarrow> k = length cs) \<and>
    load_bytes (byte_at (ac_memory a')) (unat (br_result batch)) 8 =
      batch_result_bytes (of_nat k) (if ok then 4294967295 else of_nat k) \<and>
    (\<forall>x. x \<notin> {unat (br_result batch)..<unat (br_result batch) + 8} \<longrightarrow>
       byte_at (ac_memory a') x = byte_at (ac_memory a1) x) \<and>
    ac_timing_statistics a' = ac_timing_statistics a1"
  using guest_memory.encoded_batch[OF assms] by blast

theorem batch_runs_encoded_stream_witness:
  "\<exists>a'. execute_batch gm_interface example_timing example_batch example_device = (True, a') \<and>
    load_bytes (gm_byte (ac_memory a')) 80 8 = batch_result_bytes 1 4294967295"
proof -
  let ?x = "execute_batch gm_interface example_timing example_batch example_device"
  have "fst ?x" by code_simp
  then have x: "?x = (True, snd ?x)" by (metis prod.collapse)
  have "encoded_size_core (Some example_add) = Inr 32" "\<not> is_batch example_add" by code_simp+
  then have size: "stream_size_core (Some [example_add]) = Inr 32" by (simp add: stream_size_core_def)
  have wires: "wires [example_add] = Some [example_wire]" by code_simp
  have enc: "pcaa_encode_stream (Some [example_add]) (Some (replicate 32 0)) 32 (Some 0) =
      (PCAA_STATUS_OK, Some example_wire, Some 32)"
    using size by (simp add: encode_stream_eq wires del: wires.simps)
  have stream: "load_bytes (gm_byte (ac_memory example_device)) (unat (br_child_descriptors example_batch)) 32 =
      take 32 example_wire" by code_simp
  have spans: "accel_span (br_child_descriptors example_batch) 1
      (ucast (br_child_bytes example_batch)) 0 1 1 = Some 72"
    "accel_span (ac_descriptor_address example_device) 1 1 0 1 32 = Some 128"
    "accel_span (br_result example_batch) 1 1 0 1 8 = Some 88"
    "\<not> overlaps (br_result example_batch) 88 (br_child_descriptors example_batch) 72"
    "\<not> overlaps (br_result example_batch) 88 (ac_descriptor_address example_device) 128"
    by code_simp+
  have "length (gm_bytes (ac_memory example_device)) = 136" by code_simp
  then have mp: "{unat (br_child_descriptors example_batch)..<unat (72::u64)} \<subseteq>
      gm_mapped (ac_memory example_device)"
    "{unat (br_result example_batch)..<unat (br_result example_batch) + 8} \<subseteq>
      gm_mapped (ac_memory example_device)"
    by (auto simp: gm_mapped_def example_batch_def)
  have cnt: "br_child_bytes example_batch = of_nat 32" "br_count example_batch = of_nat (length [example_add])"
    by (simp_all add: example_batch_def)
  obtain k a1 where run: "run_children gm_interface example_timing
      (protects (br_child_descriptors example_batch) 72 (ac_descriptor_address example_device) 128)
      (map canonical_command [example_add])
      (example_device\<lparr>ac_timing_statistics :=
         charge_batch example_timing (ac_timing_statistics example_device)\<rparr>) = (k, a1)"
    by (cases "run_children gm_interface example_timing
      (protects (br_child_descriptors example_batch) 72 (ac_descriptor_address example_device) 128)
      (map canonical_command [example_add])
      (example_device\<lparr>ac_timing_statistics :=
         charge_batch example_timing (ac_timing_statistics example_device)\<rparr>)")
  from batch_runs_encoded_stream[OF gm.guest_memory_axioms enc _ stream cnt spans mp run x]
  have "load_bytes (gm_byte (ac_memory (snd ?x))) (unat (br_result example_batch)) 8 =
      batch_result_bytes 1 4294967295" by simp
  with x show ?thesis by (intro exI[of _ "snd ?x"]) (simp add: example_batch_def)
qed

end
