(* ===== verification/Accelerator_Mmio.thy ===== *)
theory Accelerator_Mmio
  imports Accelerator_Batch
begin

text \<open>
  The register interface of \<open>accelerator.cpp\<close> as a state machine: \<open>mmio_reachable\<close> closes the
  initial device under TLM transactions and under changes of guest memory by the host. Between
  transactions the device is never busy, so a doorbell is always served, and the two halves of the
  descriptor address read back as they were written.
\<close>

section \<open>Reachable devices\<close>

inductive mmio_reachable :: "'m memory_interface \<Rightarrow> 't accel_timing_config \<Rightarrow> 'm accelerator \<Rightarrow> bool"
  for mi timing where
  start: "mmio_reachable mi timing (accelerator_init m)"
| transport: "mmio_reachable mi timing a \<Longrightarrow> b_transport mi timing a t delay = (a', t', delay') \<Longrightarrow>
    mmio_reachable mi timing a'"
| host: "mmio_reachable mi timing a \<Longrightarrow> mmio_reachable mi timing (a\<lparr>ac_memory := m\<rparr>)"

text \<open>A 32-bit register access as the drivers issue it.\<close>

definition mmio_access :: "tlm_command \<Rightarrow> u64 \<Rightarrow> byte list \<Rightarrow> tlm_generic_payload" where
  "mmio_access cmd address data = \<lparr>tlm_command = cmd, tlm_address = address, tlm_data = Some data,
     tlm_data_length = 4, tlm_streaming_width = 4, tlm_byte_enable = None,
     tlm_response = TLM_INCOMPLETE_RESPONSE\<rparr>"

section \<open>The status register\<close>

text \<open>Only \<open>write_register\<close> assigns the registers; execution leaves both alone.\<close>

definition registers :: "'m accelerator \<Rightarrow> u64 \<times> u32" where
  "registers a = (ac_descriptor_address a, ac_status a)"

lemma registers_command [simp]: "registers (snd (execute_command mi timing c a)) = registers a"
  by (simp add: execute_command_def registers_def split: prod.split)

lemma registers_batch_result [simp]: "registers (snd (write_batch_result mi res p q a)) = registers a"
  by (simp add: write_batch_result_def registers_def split: prod.split)

lemma registers_batch_loop [simp]:
  "registers (snd (batch_loop mi timing ch ce de n i cur a)) = registers a"
proof (induction n arbitrary: i cur a)
  case (Suc n)
  show ?case
  proof (cases "read_command mi (ac_memory a) cur (unat (ce - cur))")
    case (Some p)
    obtain c w where p: "p = (c, w)" by (cases p)
    obtain ok a' where x: "execute_command mi timing c a = (ok, a')"
      by (cases "execute_command mi timing c a")
    then have "registers a' = registers a" using registers_command[of mi timing c a] by simp
    with Some p x Suc show ?thesis by simp
  qed simp
qed simp

lemma registers_batch [simp]: "registers (snd (execute_batch mi timing batch a)) = registers a"
proof -
  have loop: "registers a' = registers a"
    if "batch_loop mi timing ch ce de n i cur (a\<lparr>ac_timing_statistics := s\<rparr>) = (r, a')"
    for ch ce de n i cur s r a'
    using registers_batch_loop[of mi timing ch ce de n i cur "a\<lparr>ac_timing_statistics := s\<rparr>"] that
    by (simp add: registers_def)
  show ?thesis
    by (auto simp: execute_batch_def Let_def loop split: option.split prod.split sum.split)
qed

lemma registers_execute:
  assumes "execute mi timing a delay = (ok, a', delay')"
  shows "registers a' = registers a"
proof (cases "read_command mi (ac_memory a) (ac_descriptor_address a) ACCEL_COMMAND_MAX_BYTES")
  case (Some p)
  obtain c w where p: "p = (c, w)" by (cases p)
  obtain ok1 a1 where x: "(case c of PCAA_ORDERED_BATCH batch \<Rightarrow> execute_batch mi timing batch a
      | _ \<Rightarrow> execute_command mi timing c a) = (ok1, a1)" by fastforce
  have "registers (snd (case c of PCAA_ORDERED_BATCH batch \<Rightarrow> execute_batch mi timing batch a
      | _ \<Rightarrow> execute_command mi timing c a)) = registers a" by (cases c) simp_all
  with x have "registers a1 = registers a" by simp
  moreover have "a' = a1" using assms Some p x by (simp add: execute_def Let_def)
  ultimately show ?thesis by simp
qed (use assms in \<open>simp add: execute_def\<close>)

lemma write_register_status:
  assumes "write_register mi timing a address v delay = (ok, a', delay')"
    and "ac_status a \<noteq> ACCEL_STATUS_BUSY"
  shows "ac_status a' \<noteq> ACCEL_STATUS_BUSY"
  using assms by (auto simp: write_register_def status_defs split: if_splits prod.splits)

lemma not_busy: "mmio_reachable mi timing a \<Longrightarrow> ac_status a \<noteq> ACCEL_STATUS_BUSY"
proof (induction rule: mmio_reachable.induct)
  case (start m)
  then show ?case by (simp add: accelerator_init_def status_defs)
next
  case (transport a t delay a' t' delay')
  then show ?case
    by (auto simp: b_transport_def split: if_splits tlm_command.splits option.splits prod.splits
        dest: write_register_status)
qed simp

lemma descriptor_halves:
  "(((y AND 0xffffffff00000000) OR ucast (ucast x :: u32)) AND 0x00000000ffffffff) OR
     push_bit 32 (ucast (ucast (drop_bit 32 x) :: u32)) = (x :: u64)"
proof -
  have lo: "(0x00000000ffffffff :: u64) = mask 32"
    and hi: "(0xffffffff00000000 :: u64) = push_bit 32 (mask 32)"
    by (simp_all add: mask_eq_exp_minus_1)
  show ?thesis unfolding lo hi by (rule bit_word_eqI) (auto simp: bit_simps)
qed

section \<open>Claims\<close>

text \<open>
  C29: the doorbell protocol. On every device that MMIO transactions and host memory updates can
  reach, a 32-bit write to \<open>DOORBELL\<close> is accepted, runs the submission at the descriptor address to
  its end within the transaction, and leaves \<open>DONE\<close> or \<open>ERROR\<close> in the status register according to
  its outcome; the descriptor address is unchanged and a following read of \<open>STATUS\<close> returns that
  status.
\<close>

theorem doorbell_completes:
  assumes "mmio_reachable mi timing a" and "length data = 4"
    and "b_transport mi timing a (mmio_access TLM_WRITE_COMMAND 8 data) delay = (a', t', delay')"
    and "execute mi timing (a\<lparr>ac_status := ACCEL_STATUS_BUSY\<rparr>) delay = (completed, a1, delay1)"
  shows "tlm_response t' = TLM_OK_RESPONSE \<and> ac_memory a' = ac_memory a1 \<and> delay' = delay1 \<and>
    ac_status a' = (if completed then ACCEL_STATUS_DONE else ACCEL_STATUS_ERROR) \<and>
    ac_descriptor_address a' = ac_descriptor_address a \<and>
    b_transport mi timing a' (mmio_access TLM_READ_COMMAND 12 data) delay' =
      (a', (mmio_access TLM_READ_COMMAND 12 data)\<lparr>tlm_data := Some (bytes_le 4 (ac_status a')),
         tlm_response := TLM_OK_RESPONSE\<rparr>, delay')"
proof -
  have nb: "ac_status a \<noteq> ACCEL_STATUS_BUSY" using assms(1) by (rule not_busy)
  have "registers a1 = registers (a\<lparr>ac_status := ACCEL_STATUS_BUSY\<rparr>)"
    using assms(4) by (rule registers_execute)
  then have da: "ac_descriptor_address a1 = ac_descriptor_address a" by (simp add: registers_def)
  have put: "put_le 4 data 0 v = bytes_le 4 v" for v :: u32
    using assms(2) by (intro nth_equalityI) (auto simp: nth_put_le)
  show ?thesis
    using assms(3,4) nb da
    by (auto simp: b_transport_def mmio_access_def is_valid_mmio_transaction_def write_register_def
        read_register_def put)
qed

theorem doorbell_completes_witness:
  "\<exists>a' t' d'. b_transport gm_interface example_timing (accelerator_init example_memory)
      (mmio_access TLM_WRITE_COMMAND 8 [1, 0, 0, 0]) () = (a', t', d') \<and>
    tlm_response t' = TLM_OK_RESPONSE \<and> ac_status a' = ACCEL_STATUS_ERROR"
proof -
  let ?a = "accelerator_init example_memory"
  have x: "execute gm_interface example_timing (?a\<lparr>ac_status := ACCEL_STATUS_BUSY\<rparr>) () =
      (False, ?a\<lparr>ac_status := ACCEL_STATUS_BUSY\<rparr>, ())"
    by (simp add: execute_def read_command_def accelerator_init_def)
  obtain a' t' d' where b: "b_transport gm_interface example_timing ?a
      (mmio_access TLM_WRITE_COMMAND 8 [1, 0, 0, 0]) () = (a', t', d')" by (metis prod_cases3)
  from doorbell_completes[OF mmio_reachable.start _ b x] b show ?thesis by auto
qed

text \<open>
  C35: the descriptor address registers. Writing the low and the high half of a 64-bit address
  through the socket, in this order, stores exactly that address, whatever the register held
  before, and changes nothing else in the device; reading the two registers returns the halves.
\<close>

theorem descriptor_address_round_trip:
  fixes x :: u64
  assumes "b_transport mi timing a (mmio_access TLM_WRITE_COMMAND 0 (bytes_le 4 (ucast x :: u32)))
      delay = (a1, t1, d1)"
    and "b_transport mi timing a1
      (mmio_access TLM_WRITE_COMMAND 4 (bytes_le 4 (ucast (drop_bit 32 x) :: u32))) d1 = (a2, t2, d2)"
  shows "a2 = a\<lparr>ac_descriptor_address := x\<rparr> \<and> tlm_response t1 = TLM_OK_RESPONSE \<and>
    tlm_response t2 = TLM_OK_RESPONSE \<and> d2 = delay \<and>
    read_register a2 0 = Some (ucast x) \<and> read_register a2 4 = Some (ucast (drop_bit 32 x))"
proof -
  have get: "get_le 4 (bytes_le 4 (v::u32)) 0 = v" for v by (rule get_le_bytes_le) simp
  have "(((ac_descriptor_address a AND 0xffffffff00000000) OR ucast (ucast x :: u32)) AND
      0x00000000ffffffff) OR push_bit 32 (ucast (ucast (drop_bit 32 x) :: u32)) = x"
    by (rule descriptor_halves)
  with assms show ?thesis
    by (auto simp: b_transport_def mmio_access_def is_valid_mmio_transaction_def write_register_def
        read_register_def get)
qed

theorem descriptor_address_round_trip_witness:
  "\<exists>a2 t2 d2. b_transport gm_interface example_timing
      (fst (b_transport gm_interface example_timing (accelerator_init example_memory)
        (mmio_access TLM_WRITE_COMMAND 0 (bytes_le 4 (0x9abcdef0 :: u32))) ()))
      (mmio_access TLM_WRITE_COMMAND 4 (bytes_le 4 (0x12345678 :: u32))) () = (a2, t2, d2) \<and>
    ac_descriptor_address a2 = 0x123456789abcdef0"
proof -
  let ?x = "0x123456789abcdef0 :: u64"
  have halves: "(ucast ?x :: u32) = 0x9abcdef0" "(ucast (drop_bit 32 ?x) :: u32) = 0x12345678" by simp_all
  obtain a1 t1 where b1: "b_transport gm_interface example_timing (accelerator_init example_memory)
      (mmio_access TLM_WRITE_COMMAND 0 (bytes_le 4 (ucast ?x :: u32))) () = (a1, t1, ())"
    by (metis prod_cases3 old.unit.exhaust)
  obtain a2 t2 where b2: "b_transport gm_interface example_timing a1
      (mmio_access TLM_WRITE_COMMAND 4 (bytes_le 4 (ucast (drop_bit 32 ?x) :: u32))) () = (a2, t2, ())"
    by (metis prod_cases3 old.unit.exhaust)
  from descriptor_address_round_trip[OF b1 b2] b1 b2 show ?thesis unfolding halves by auto
qed

end
