(* ===== verification/Systemc_Device.thy ===== *)
theory Systemc_Device
  imports Accelerator_Batch Accelerator_Mmio
begin

text \<open>
  The host adapter of \<open>pcaalib/src/systemc_device.cpp\<close>: it stages encoded descriptors in guest memory
  and drives the MMIO registers of a SystemC target. The memory, the allocator of staging space and
  the target socket that the constructor receives by reference are the record \<open>systemc_target\<close>, whose
  functions share one state \<open>'w\<close>; an allocator returns 0 when it fails. \<open>accelerator_target\<close> is the
  wiring of \<open>tools/pbqp_model_kernel.cpp\<close>: the memory of the accelerator is the one the host writes.
\<close>

section \<open>The adapter\<close>

record 'w systemc_target =
  st_memory :: "'w memory_interface"
  st_allocate :: "('w \<Rightarrow> nat \<Rightarrow> u64 \<times> 'w) option"
  st_b_transport :: "'w \<Rightarrow> tlm_generic_payload \<Rightarrow> 'w \<times> tlm_generic_payload"

record 'w systemc_device =
  sd_world :: 'w
  sd_batch_result_address :: u64
  sd_pending_batch_count :: nat
  sd_pending :: bool

definition PcaaSystemCDevice :: "'w \<Rightarrow> 'w systemc_device" where
  "PcaaSystemCDevice w = \<lparr>sd_world = w, sd_batch_result_address = 0, sd_pending_batch_count = 0, sd_pending = False\<rparr>"

text \<open>A transaction on the word \<open>value\<close>, which the target may overwrite.\<close>

definition sc_transport :: "'w systemc_target \<Rightarrow> 'w \<Rightarrow> u64 \<Rightarrow> u32 \<Rightarrow> bool \<Rightarrow> bool \<times> u32 \<times> 'w" where
  "sc_transport target w address v write =
     (case st_b_transport target w
             (mmio_access (if write then TLM_WRITE_COMMAND else TLM_READ_COMMAND) address (bytes_le 4 v)) of
        (w', transaction) \<Rightarrow>
          (tlm_response transaction = TLM_OK_RESPONSE, get_le 4 (the (tlm_data transaction)) 0, w'))"

definition sc_mmio_write :: "'w systemc_target \<Rightarrow> 'w \<Rightarrow> u64 \<Rightarrow> u32 \<Rightarrow> bool \<times> 'w" where
  "sc_mmio_write target w address v = (case sc_transport target w address v True of (ok, _, w') \<Rightarrow> (ok, w'))"

definition sc_mmio_read :: "'w systemc_target \<Rightarrow> 'w \<Rightarrow> u64 \<Rightarrow> u32 \<Rightarrow> bool \<times> u32 \<times> 'w" where
  "sc_mmio_read target w address v = sc_transport target w address v False"

definition sc_ring :: "'w systemc_target \<Rightarrow> 'w \<Rightarrow> u64 \<Rightarrow> bool \<times> 'w" where
  "sc_ring target w descriptor_address =
     (case sc_mmio_write target w ACCEL_MMIO_DESC_ADDR_LO (ucast descriptor_address) of
        (ok1, w1) \<Rightarrow>
          if \<not> ok1 then (False, w1)
          else (case sc_mmio_write target w1 ACCEL_MMIO_DESC_ADDR_HI (ucast (drop_bit 32 descriptor_address)) of
              (ok2, w2) \<Rightarrow>
                if \<not> ok2 then (False, w2) else sc_mmio_write target w2 ACCEL_MMIO_DOORBELL 1))"

definition sc_submit_command ::
  "'w systemc_target \<Rightarrow> 'w systemc_device \<Rightarrow> pcaa_command option \<Rightarrow> pcaa_status \<times> 'w systemc_device" where
  "sc_submit_command target d command =
     (if sd_pending d then (PCAA_STATUS_BUSY, d)
      else case st_allocate target of
          None \<Rightarrow> (PCAA_STATUS_INVALID_ARGUMENT, d)
        | Some allocate \<Rightarrow>
            (case pcaa_encode_one command (Some (replicate ACCEL_COMMAND_MAX_BYTES 0)) ACCEL_COMMAND_MAX_BYTES (Some 0) of
               (encoded_status, encoded, width) \<Rightarrow>
                 if encoded_status \<noteq> PCAA_STATUS_OK then (encoded_status, d)
                 else case allocate (sd_world d) (the width) of
                     (address, w1) \<Rightarrow>
                       if address = 0 then (PCAA_STATUS_NO_SPACE, d\<lparr>sd_world := w1\<rparr>)
                       else (case mi_write (st_memory target) w1 address (take (the width) (the encoded)) of
                           (written, w2) \<Rightarrow>
                             if \<not> written then (PCAA_STATUS_MEMORY_ERROR, d\<lparr>sd_world := w2\<rparr>)
                             else (case sc_ring target w2 address of
                                 (rung, w3) \<Rightarrow>
                                   if \<not> rung then (PCAA_STATUS_TRANSPORT_ERROR, d\<lparr>sd_world := w3\<rparr>)
                                   else (PCAA_STATUS_OK,
                                     d\<lparr>sd_world := w3, sd_pending_batch_count := 0, sd_pending := True\<rparr>)))))"

text \<open>
  The staging of a batch after its three allocations; \<open>encoded\<close> is the child stream. The result record
  starts as \<open>{0, UINT32_MAX}\<close>.
\<close>

definition sc_stage_batch ::
  "'w systemc_target \<Rightarrow> byte list \<Rightarrow> nat \<Rightarrow> u64 \<Rightarrow> u64 \<Rightarrow> u64 \<Rightarrow> 'w systemc_device \<Rightarrow> pcaa_status \<times> 'w systemc_device" where
  "sc_stage_batch target encoded count child_address result_address parent_address d =
     (case mi_write (st_memory target) (sd_world d) child_address encoded of
        (ok1, w1) \<Rightarrow>
          if \<not> ok1 then (PCAA_STATUS_MEMORY_ERROR, d\<lparr>sd_world := w1\<rparr>)
          else (case mi_write (st_memory target) w1 result_address (batch_result_bytes 0 4294967295) of
              (ok2, w2) \<Rightarrow>
                if \<not> ok2 then (PCAA_STATUS_MEMORY_ERROR, d\<lparr>sd_world := w2\<rparr>)
                else (case pcaa_encode_batch child_address (of_nat count) (of_nat (length encoded)) result_address
                         (Some (replicate ACCEL_COMMAND_MAX_BYTES 0)) (Some (length encoded)) of
                    (parent_status, parent, bytes_written) \<Rightarrow>
                      if parent_status \<noteq> PCAA_STATUS_OK then (parent_status, d\<lparr>sd_world := w2\<rparr>)
                      else (case mi_write (st_memory target) w2 parent_address (take (the bytes_written) (the parent)) of
                          (ok3, w3) \<Rightarrow>
                            if \<not> ok3 then (PCAA_STATUS_MEMORY_ERROR, d\<lparr>sd_world := w3\<rparr>)
                            else (case sc_ring target w3 parent_address of
                                (rung, w4) \<Rightarrow>
                                  if \<not> rung then (PCAA_STATUS_TRANSPORT_ERROR, d\<lparr>sd_world := w4\<rparr>)
                                  else (PCAA_STATUS_OK,
                                    d\<lparr>sd_world := w4, sd_batch_result_address := result_address,
                                      sd_pending_batch_count := count, sd_pending := True\<rparr>))))))"

definition sc_submit_batch ::
  "(nat \<Rightarrow> bool) \<Rightarrow> 'w systemc_target \<Rightarrow> 'w systemc_device \<Rightarrow> pcaa_command list option \<Rightarrow> pcaa_status \<times> 'w systemc_device" where
  "sc_submit_batch host_grants target d commands =
     (if sd_pending d then (PCAA_STATUS_BUSY, d)
      else case st_allocate target of
          None \<Rightarrow> (PCAA_STATUS_INVALID_ARGUMENT, d)
        | Some allocate \<Rightarrow>
            (case pcaa_encoded_stream_size commands (Some 0) of
               (measured, child_bytes) \<Rightarrow>
                 if measured \<noteq> PCAA_STATUS_OK then (measured, d)
                 else if \<not> host_grants (the child_bytes) then (PCAA_STATUS_NO_SPACE, d)
                 else (case pcaa_encode_stream commands (Some (replicate (the child_bytes) 0)) (the child_bytes) (Some 0) of
                     (encoded_status, encoded, _) \<Rightarrow>
                       if encoded_status \<noteq> PCAA_STATUS_OK then (encoded_status, d)
                       else (case allocate (sd_world d) (the child_bytes) of
                           (child_address, w1) \<Rightarrow>
                             (case allocate w1 8 of
                                (result_address, w2) \<Rightarrow>
                                  (case allocate w2 ACCEL_BATCH_COMMAND_BYTES of
                                     (parent_address, w3) \<Rightarrow>
                                       if child_address = 0 \<or> result_address = 0 \<or> parent_address = 0
                                       then (PCAA_STATUS_NO_SPACE, d\<lparr>sd_world := w3\<rparr>)
                                       else sc_stage_batch target (the encoded) (length (the commands))
                                         child_address result_address parent_address (d\<lparr>sd_world := w3\<rparr>)))))))"

definition batch_completion :: "u32 \<Rightarrow> u32 \<Rightarrow> pcaa_completion \<Rightarrow> pcaa_completion" where
  "batch_completion completed failed_index cp =
     (if completed \<noteq> 0 \<or> failed_index \<noteq> 4294967295
      then \<lparr>cp_has_batch_result = True, cp_completed = completed, cp_failed_index = failed_index\<rparr> else cp)"

definition sc_wait ::
  "'w systemc_target \<Rightarrow> 'w systemc_device \<Rightarrow> pcaa_completion option
     \<Rightarrow> pcaa_status \<times> 'w systemc_device \<times> pcaa_completion option" where
  "sc_wait target d completion =
     (if \<not> sd_pending d then (PCAA_STATUS_NO_PENDING, d, completion)
      else case sc_mmio_read target (sd_world d) ACCEL_MMIO_STATUS ACCEL_STATUS_IDLE of
          (ok, status, w1) \<Rightarrow>
            if \<not> ok then (PCAA_STATUS_TRANSPORT_ERROR, d\<lparr>sd_world := w1\<rparr>, completion)
            else if status = ACCEL_STATUS_IDLE \<or> status = ACCEL_STATUS_BUSY
              then (PCAA_STATUS_BUSY, d\<lparr>sd_world := w1\<rparr>, completion)
            else let d1 = d\<lparr>sd_world := w1, sd_pending := False\<rparr>
              in if sd_pending_batch_count d = 0
                 then (if status = ACCEL_STATUS_DONE then PCAA_STATUS_OK else PCAA_STATUS_DEVICE_ERROR, d1, completion)
                 else (case mi_read (st_memory target) w1 (sd_batch_result_address d) 8 of
                     None \<Rightarrow> (PCAA_STATUS_MEMORY_ERROR, d1, completion)
                   | Some result \<Rightarrow>
                       let completed = get_le 4 result 0 :: u32; failed_index = get_le 4 result 4 :: u32
                       in (if status = ACCEL_STATUS_DONE \<and> unat completed = sd_pending_batch_count d \<and>
                              failed_index = 4294967295 then PCAA_STATUS_OK else PCAA_STATUS_DEVICE_ERROR,
                           d1, map_option (batch_completion completed failed_index) completion)))"

text \<open>The callbacks that the constructor stores in the device table.\<close>

definition systemc_callbacks :: "(nat \<Rightarrow> bool) \<Rightarrow> 'w systemc_target \<Rightarrow> ('w systemc_device) pcaa_device" where
  "systemc_callbacks host_grants target =
     \<lparr>dev_submit_command = Some (\<lambda>d command. sc_submit_command target d (Some command)),
      dev_submit_batch = Some (\<lambda>d commands. sc_submit_batch host_grants target d (Some commands)),
      dev_wait = Some (sc_wait target)\<rparr>"

section \<open>The wiring with the accelerator\<close>

text \<open>Every transaction starts with \<open>SC_ZERO_TIME\<close>, here \<open>zero_time\<close>; the delay it returns is dropped.\<close>

definition accelerator_target ::
  "'m memory_interface \<Rightarrow> 't accel_timing_config \<Rightarrow> 't \<Rightarrow> ('m \<Rightarrow> nat \<Rightarrow> u64 \<times> 'm) \<Rightarrow> ('m accelerator) systemc_target" where
  "accelerator_target mi timing zero_time allocate =
     \<lparr>st_memory = \<lparr>mi_read = (\<lambda>a. mi_read mi (ac_memory a)),
        mi_write = (\<lambda>a address bs. case mi_write mi (ac_memory a) address bs of (ok, m) \<Rightarrow> (ok, a\<lparr>ac_memory := m\<rparr>))\<rparr>,
      st_allocate = Some (\<lambda>a n. case allocate (ac_memory a) n of (address, m) \<Rightarrow> (address, a\<lparr>ac_memory := m\<rparr>)),
      st_b_transport = (\<lambda>a t. case b_transport mi timing a t zero_time of (a', t', _) \<Rightarrow> (a', t'))\<rparr>"

end
