(* ===== verification/Systemc_Correct.thy ===== *)
theory Systemc_Correct
  imports Systemc_Device
begin

text \<open>
  What a client of the SystemC adapter observes when the target is the accelerator: a submission and
  the wait that follows it run the command, or the commands of a batch, on guest memory.
\<close>

text \<open>A block of staging space: not null, inside the address space, mapped.\<close>

definition block :: "nat set \<Rightarrow> u64 \<Rightarrow> nat \<Rightarrow> bool" where
  "block mp address n \<longleftrightarrow> address \<noteq> 0 \<and> unat address + n < 2 ^ 64 \<and> {unat address..<unat address + n} \<subseteq> mp"

section \<open>Canonical operand order does not matter\<close>

lemma element_value_canonical: "element_value f mp (canonical_command c) = element_value f mp c"
proof (rule ext)
  fix out
  have "term_value f mp (canonical_command c) out i = term_value f mp c out i" for i
    by (cases c) (auto simp: term_value_def swap_operands_def cost_add_commute)
  moreover have "inner_count (canonical_command c) = inner_count c" by (cases c) simp_all
  ultimately show "element_value f mp (canonical_command c) out = element_value f mp c out"
    by (simp add: element_value_def)
qed

lemma place_canonical: "output_place (canonical_command c) = output_place c"
  by (cases c) (simp_all add: swap_operands_def)

lemma canonical_simps [simp]:
  "output_count (canonical_command c) = output_count c" "output_width (canonical_command c) = output_width c"
  "output_at (canonical_command c) = output_at c" "output_bytes (canonical_command c) = output_bytes c"
  by (simp_all add: output_count_def output_width_def output_at_def output_bytes_def place_canonical fun_eq_iff)

lemma canonical_batch [simp]: "is_batch (canonical_command c) = is_batch c"
  by (cases c) simp_all

lemma canonical_element [simp]: "element_bytes (canonical_command c) r = element_bytes c r"
  by (simp add: element_bytes_def)

lemma canonical_range [simp]: "output_range (canonical_command c) = output_range c"
  by (simp add: output_range_def fun_eq_iff)

lemma canonical_succeeds [simp]: "succeeds f mp (canonical_command c) = succeeds f mp c"
  by (simp add: succeeds_def element_value_canonical)

section \<open>The registers as the adapter drives them\<close>

lemma target_sel [simp]:
  "mi_read (st_memory (accelerator_target mi timing z al)) a = mi_read mi (ac_memory a)"
  "mi_write (st_memory (accelerator_target mi timing z al)) a address bs =
     (case mi_write mi (ac_memory a) address bs of (ok, m) \<Rightarrow> (ok, a\<lparr>ac_memory := m\<rparr>))"
  "st_allocate (accelerator_target mi timing z al) =
     Some (\<lambda>a n. case al (ac_memory a) n of (address, m) \<Rightarrow> (address, a\<lparr>ac_memory := m\<rparr>))"
  by (simp_all add: accelerator_target_def)

lemma get_word [simp]: "get_le 4 (bytes_le 4 (v :: u32)) 0 = v"
  by (rule get_le_bytes_le) simp

lemma status_read:
  "sc_mmio_read (accelerator_target mi timing z al) a ACCEL_MMIO_STATUS v = (True, ac_status a, a)"
proof -
  have "put_le 4 (bytes_le 4 v) 0 (ac_status a) = bytes_le 4 (ac_status a)"
    by (intro nth_equalityI) (auto simp: nth_put_le)
  then show ?thesis
    by (simp add: sc_mmio_read_def sc_transport_def accelerator_target_def b_transport_def mmio_access_def
        is_valid_mmio_transaction_def read_register_def)
qed

lemma ring_executes:
  assumes "ac_status a \<noteq> ACCEL_STATUS_BUSY"
    and "execute mi timing (a\<lparr>ac_descriptor_address := x, ac_status := ACCEL_STATUS_BUSY\<rparr>) z = (completed, a1, z1)"
  shows "sc_ring (accelerator_target mi timing z al) a x =
    (True, a1\<lparr>ac_status := if completed then ACCEL_STATUS_DONE else ACCEL_STATUS_ERROR\<rparr>)"
  using assms descriptor_halves[of "ac_descriptor_address a" x]
  by (simp add: sc_ring_def sc_mmio_write_def sc_transport_def accelerator_target_def b_transport_def mmio_access_def
      is_valid_mmio_transaction_def write_register_def)

section \<open>One command\<close>

context guest_memory
begin

lemma execute_wire:
  assumes w: "wire c = Some bs" and mem: "load_bytes (byte_at (ac_memory a)) (unat (ac_descriptor_address a)) (length bs) = bs"
    and mp: "{unat (ac_descriptor_address a)..<unat (ac_descriptor_address a) + length bs} \<subseteq> mapped (ac_memory a)"
    and "ac_descriptor_address a \<noteq> 0" and "unat (ac_descriptor_address a) + length bs < 2 ^ 64"
  shows "read_command mi (ac_memory a) (ac_descriptor_address a) ACCEL_COMMAND_MAX_BYTES = Some (canonical_command c, length bs)"
proof -
  have "length bs \<le> ACCEL_COMMAND_MAX_BYTES" using wire_length[OF w] by auto
  then show ?thesis by (rule read_command_wire[OF w mem mp assms(4) _ assms(5)])
qed

lemma command_executes:
  assumes "read_command mi (ac_memory a) (ac_descriptor_address a) ACCEL_COMMAND_MAX_BYTES = Some (c, n)" and "\<not> is_batch c"
    and "execute_command mi timing c a = (ok, a')"
  shows "\<exists>z'. execute mi timing a z = (ok, a', z')"
  using assms by (cases c) (auto simp: execute_def Let_def)

lemma batch_executes:
  assumes "read_command mi (ac_memory a) (ac_descriptor_address a) ACCEL_COMMAND_MAX_BYTES = Some (PCAA_ORDERED_BATCH batch, n)"
    and "execute_batch mi timing batch a = (ok, a')"
  shows "\<exists>z'. execute mi timing a z = (ok, a', z')"
  using assms by (auto simp: execute_def Let_def)

lemma write_stored:
  assumes "bs \<noteq> []" and "{unat a..<unat a + length bs} \<subseteq> mapped m"
  obtains m' where "mi_write mi m a bs = (True, m')" and "byte_at m' = store_bytes (byte_at m) (unat a) bs"
    and "mapped m' = mapped m"
  using write_mapped[OF assms, of "fst (mi_write mi m a bs)" "snd (mi_write mi m a bs)"] by (metis prod.collapse)

lemma submit_command_form:
  assumes w: "wire c = Some bs" and nb: "\<not> is_batch c" and idle: "\<not> sd_pending d" "ac_status (sd_world d) \<noteq> ACCEL_STATUS_BUSY"
    and al: "al (ac_memory (sd_world d)) (length bs) = (address, m1)" "block (mapped m1) address (length bs)"
  obtains m2 ok a' where "byte_at m2 = store_bytes (byte_at m1) (unat address) bs" and "mapped m2 = mapped m1"
    and "execute_primitive mi (canonical_command c) m2 = (ok, ac_memory a')"
    and "ac_status a' = (if ok then ACCEL_STATUS_DONE else ACCEL_STATUS_ERROR)"
    and "sc_submit_command (accelerator_target mi timing z al) d (Some c) =
      (PCAA_STATUS_OK, d\<lparr>sd_world := a', sd_pending_batch_count := 0, sd_pending := True\<rparr>)"
proof -
  have blk: "address \<noteq> 0" "unat address + length bs < 2 ^ 64" "{unat address..<unat address + length bs} \<subseteq> mapped m1"
    using al(2) by (simp_all add: block_def)
  have len: "length bs \<in> {32, 48, 64}" by (rule wire_length[OF w])
  then have ne: "bs \<noteq> []" by auto
  obtain m2 where m2: "mi_write mi m1 address bs = (True, m2)" "byte_at m2 = store_bytes (byte_at m1) (unat address) bs"
    "mapped m2 = mapped m1" by (rule write_stored[OF ne blk(3)])
  let ?a = "(sd_world d)\<lparr>ac_memory := m2, ac_descriptor_address := address, ac_status := ACCEL_STATUS_BUSY\<rparr>"
  obtain ok a1 where x: "execute_command mi timing (canonical_command c) ?a = (ok, a1)" by fastforce
  have "read_command mi (ac_memory ?a) (ac_descriptor_address ?a) ACCEL_COMMAND_MAX_BYTES = Some (canonical_command c, length bs)"
    by (rule execute_wire[OF w]) (use blk m2 in \<open>simp_all add: load_store_same\<close>)
  from command_executes[OF this _ x] nb obtain z' where run: "execute mi timing ?a z = (ok, a1, z')" by auto
  let ?a' = "a1\<lparr>ac_status := if ok then ACCEL_STATUS_DONE else ACCEL_STATUS_ERROR\<rparr>"
  have ring: "sc_ring (accelerator_target mi timing z al) ((sd_world d)\<lparr>ac_memory := m2\<rparr>) address = (True, ?a')"
    by (rule ring_executes) (use idle(2) run in simp_all)
  have enc: "pcaa_encode_one (Some c) (Some (replicate 64 0)) 64 (Some 0) =
      (PCAA_STATUS_OK, Some (bs @ drop (length bs) (replicate 64 0)), Some (length bs))"
    using encode_one_wire[OF w, of 64 "replicate 64 0" 0] len by auto
  have "sc_submit_command (accelerator_target mi timing z al) d (Some c) =
      (PCAA_STATUS_OK, d\<lparr>sd_world := ?a', sd_pending_batch_count := 0, sd_pending := True\<rparr>)"
    using idle(1) al(1) blk(1) m2(1) ring by (simp add: sc_submit_command_def enc)
  moreover have "execute_primitive mi (canonical_command c) m2 = (ok, ac_memory ?a')"
    using execute_command_frame(3)[OF x] by simp
  moreover have "ac_status ?a' = (if ok then ACCEL_STATUS_DONE else ACCEL_STATUS_ERROR)" by simp
  ultimately show thesis by (intro that[OF m2(2,3)])
qed

end

lemma wait_command_form:
  assumes "sd_pending d" and "sd_pending_batch_count d = 0"
    and "ac_status (sd_world d) = (if ok then ACCEL_STATUS_DONE else ACCEL_STATUS_ERROR)"
  shows "sc_wait (accelerator_target mi timing z al) d completion =
    (if ok then PCAA_STATUS_OK else PCAA_STATUS_DEVICE_ERROR, d\<lparr>sd_pending := False\<rparr>, completion)"
  using assms by (simp add: sc_wait_def status_read status_defs)

text \<open>
  C18: a command submitted through the host facade and the SystemC adapter runs on the accelerator.
  On an idle adapter, when the allocator returns a mapped block, the submission is accepted and the
  wait that follows returns \<open>PCAA_STATUS_OK\<close> exactly when every operand and destination of the command
  is mapped and no addition fails; then the output holds the first minima of the operand sums. Nothing
  outside the staging block and the output bytes changes, and the adapter is idle again.
\<close>

theorem submit_wait_computes:
  assumes "guest_memory mi byte_at mapped" and "wire c = Some bs" and "\<not> is_batch c"
    and "\<not> sd_pending d" and "ac_status (sd_world d) \<noteq> ACCEL_STATUS_BUSY"
    and "allocate (ac_memory (sd_world d)) (length bs) = (address, m1)" and "block (mapped m1) address (length bs)"
    and "device = systemc_callbacks host_grants (accelerator_target mi timing zero_time allocate)"
    and "staged = store_bytes (byte_at m1) (unat address) bs"
  shows "\<exists>d1 d2. pcaa_device_submit (Some device) d (Some c) = (PCAA_STATUS_OK, d1) \<and>
    pcaa_device_wait (Some device) d1 completion =
      (if succeeds staged (mapped m1) c then PCAA_STATUS_OK else PCAA_STATUS_DEVICE_ERROR, d2,
       map_option (\<lambda>_. reset_completion) completion) \<and>
    (succeeds staged (mapped m1) c \<longrightarrow> (\<forall>out < output_count c.
       load_bytes (byte_at (ac_memory (sd_world d2))) (output_at c out) (output_width c) =
         element_bytes c (the (element_value staged (mapped m1) c out)))) \<and>
    (\<forall>x. x \<notin> output_bytes c \<longrightarrow> byte_at (ac_memory (sd_world d2)) x = staged x) \<and>
    mapped (ac_memory (sd_world d2)) = mapped m1 \<and> \<not> sd_pending d2"
proof -
  obtain m2 ok a' where run: "byte_at m2 = staged" "mapped m2 = mapped m1"
    "execute_primitive mi (canonical_command c) m2 = (ok, ac_memory a')"
    "ac_status a' = (if ok then ACCEL_STATUS_DONE else ACCEL_STATUS_ERROR)"
    "sc_submit_command (accelerator_target mi timing zero_time allocate) d (Some c) =
      (PCAA_STATUS_OK, d\<lparr>sd_world := a', sd_pending_batch_count := 0, sd_pending := True\<rparr>)"
    by (rule guest_memory.submit_command_form[where al = allocate and timing = timing and z = zero_time, OF assms(1-7), folded assms(9)]; rule that; assumption)
  let ?d1 = "d\<lparr>sd_world := a', sd_pending_batch_count := 0, sd_pending := True\<rparr>"
  obtain r where v: "valid_command (Some (canonical_command c)) = Inr r" using wire_canonical_valid[OF assms(2)] by blast
  have nb: "\<not> is_batch (canonical_command c)" using assms(3) by simp
  note spec = guest_memory.primitive_spec[OF assms(1) v nb run(3), unfolded run(1,2) canonical_simps canonical_element
      canonical_succeeds element_value_canonical]
  have "pcaa_device_submit (Some device) d (Some c) = (PCAA_STATUS_OK, ?d1)"
    using run(5) by (simp add: pcaa_device_submit_def assms(8) systemc_callbacks_def)
  moreover have "pcaa_device_wait (Some device) ?d1 completion =
      (if ok then PCAA_STATUS_OK else PCAA_STATUS_DEVICE_ERROR, ?d1\<lparr>sd_pending := False\<rparr>, map_option (\<lambda>_. reset_completion) completion)"
    using wait_command_form[of ?d1 ok mi timing zero_time allocate] run(4) by (simp add: pcaa_device_wait_def assms(8) systemc_callbacks_def)
  ultimately show ?thesis using spec by (intro exI[of _ ?d1] exI[of _ "?d1\<lparr>sd_pending := False\<rparr>"]) simp
qed

definition example_staging :: "guest_memory_state \<Rightarrow> nat \<Rightarrow> u64 \<times> guest_memory_state" where
  "example_staging m n = gm_allocate (\<lambda>_. True) m (of_nat n) kAllocationAlignment"

definition example_host :: "guest_memory_state accelerator systemc_device" where
  "example_host = PcaaSystemCDevice (accelerator_init (example_memory\<lparr>gm_limit := 512\<rparr>))"

theorem submit_wait_computes_witness:
  "\<exists>d1 d2. pcaa_device_submit (Some (systemc_callbacks (\<lambda>_. True) (accelerator_target gm_interface example_timing () example_staging)))
       example_host (Some example_add) = (PCAA_STATUS_OK, d1) \<and>
     pcaa_device_wait (Some (systemc_callbacks (\<lambda>_. True) (accelerator_target gm_interface example_timing () example_staging)))
       d1 None = (PCAA_STATUS_OK, d2, None)"
proof -
  let ?r = "example_staging (ac_memory (sd_world example_host)) 32"
  have w: "wire example_add = Some example_wire" by code_simp
  have l: "length example_wire = 32" by code_simp
  have al: "example_staging (ac_memory (sd_world example_host)) (length example_wire) = (256, snd ?r)"
    unfolding l by (rule prod_eqI) (simp, code_simp, simp)
  have "length (gm_bytes (snd ?r)) = 288" by code_simp
  then have mp: "gm_mapped (snd ?r) = {..<288}" by (simp add: gm_mapped_def)
  obtain m2 where m2: "gm_write (snd ?r) 256 example_wire = (True, m2)"
    "gm_byte m2 = store_bytes (gm_byte (snd ?r)) (unat (256 :: u64)) example_wire" "gm_mapped m2 = gm_mapped (snd ?r)"
    by (rule gm.write_stored[of example_wire 256 "snd ?r"]) (use mp l in \<open>auto simp: gm_interface_def\<close>)
  obtain r where v: "valid_command (Some example_add) = Inr r" using w unfolding wire_valid by blast
  have "fst (execute_primitive gm_interface example_add (snd (gm_write (snd ?r) 256 example_wire)))" by code_simp
  then obtain m3 where "execute_primitive gm_interface example_add m2 = (True, m3)" unfolding m2(1) by (metis prod.collapse snd_conv)
  from gm.primitive_spec(3)[OF v _ this]
  have s: "succeeds (store_bytes (gm_byte (snd ?r)) (unat (256 :: u64)) example_wire) (gm_mapped (snd ?r)) example_add"
    by (simp add: m2(2,3) example_add_def)
  have blk: "block (gm_mapped (snd ?r)) 256 (length example_wire)" by (auto simp: block_def mp l)
  have "\<not> is_batch example_add" "\<not> sd_pending example_host" "ac_status (sd_world example_host) \<noteq> ACCEL_STATUS_BUSY"
    by code_simp+
  from submit_wait_computes[where allocate = example_staging and host_grants = "\<lambda>_. True" and timing = example_timing
      and zero_time = "()" and completion = None, OF gm.guest_memory_axioms w this al blk refl refl] s
  show ?thesis by auto
qed

section \<open>A batch\<close>

definition apart :: "u64 \<Rightarrow> nat \<Rightarrow> u64 \<Rightarrow> nat \<Rightarrow> bool" where
  "apart a n b k \<longleftrightarrow> unat a + n \<le> unat b \<or> unat b + k \<le> unat a"

lemma span_bytes:
  assumes "block mp base (unat n)" and "n \<noteq> 0"
  shows "accel_span base 1 n 0 1 1 = Some (base + of_nat (unat n))"
proof -
  have b: "base \<noteq> 0" "unat base + unat n < 18446744073709551616" using assms(1) by (simp_all add: block_def)
  define k where "k = (ucast (n - 1) :: u64)"
  have n: "0 < unat n" using assms(2) by (simp add: unat_gt_0)
  have k: "unat k = unat n - 1"
    using n unsigned_less[of n, where 'a = nat]
    by (simp add: k_def unsigned_ucast_eq unat_minus_one unat_gt_0 take_bit_nat_eq_self assms(2))
  have "\<not> base > UINT64_MAX - 1" using b n by (simp add: word_less_nat_alt not_less)
  moreover from this have "unat (UINT64_MAX - base - 1) = 18446744073709551615 - unat base - 1"
    by (simp add: unat_sub u64_max_minus word_le_nat_alt word_less_nat_alt not_less)
  then have "\<not> k > UINT64_MAX - base - 1" using b k by (simp add: word_less_nat_alt)
  moreover have "k + 1 = of_nat (unat n)"
  proof -
    have "unat (of_nat (unat n) :: u64) = unat n" using b by (subst unat_of_nat) (simp add: take_bit_nat_eq_self)
    moreover have "unat (k + 1) = unat n" using k n b by (subst u64_add_exact) simp_all
    ultimately show ?thesis by (metis word_unat_eq_iff)
  qed
  ultimately show ?thesis using assms(2) b(1) by (simp add: accel_span_def Let_def k_def)
qed

lemma span_record:
  assumes "block mp base (unat w)" and "w \<noteq> 0"
  shows "accel_span base 1 1 0 1 w = Some (base + w)"
proof -
  have "\<not> base > UINT64_MAX - w" using assms(1) by (auto simp: block_def word_less_nat_alt not_less u64_max_minus)
  then show ?thesis using assms by (simp add: accel_span_def block_def)
qed

lemma end_exact: "unat (a :: u64) + n < 2 ^ 64 \<Longrightarrow> unat (a + of_nat n) = unat a + n"
  by (subst u64_add_exact) (simp_all add: unat_of_nat take_bit_nat_eq_self)

lemma apart_overlaps:
  assumes "apart a n b k" and "unat a + n < 2 ^ 64" and "unat b + k < 2 ^ 64"
  shows "\<not> overlaps a (a + of_nat n) b (b + of_nat k)"
  using assms end_exact[of a n] end_exact[of b k] by (auto simp: overlaps_def apart_def word_less_nat_alt)

lemma wires_slots: "wires cs = Some ws \<Longrightarrow> 16 dvd length (concat ws) \<and> (cs \<noteq> [] \<longrightarrow> 0 < length (concat ws))"
proof (induction cs arbitrary: ws)
  case (Cons c cs)
  then obtain w ws' where w: "wire c = Some w" "wires cs = Some ws'" "ws = w # ws'" by (auto split: option.splits)
  have "length w \<in> {32, 48, 64}" by (rule wire_length[OF w(1)])
  then have "16 dvd length w" "0 < length w" by auto
  with Cons.IH[OF w(2)] w(3) show ?case by simp
qed simp

lemma batch_wire:
  assumes "0 < n" and "n \<le> 4294967295" and "0 < bytes" and "bytes \<le> 4294967295" and "16 dvd bytes"
    and "block mp child bytes" and "block mp result 8"
  shows "\<exists>bs. wire (PCAA_ORDERED_BATCH \<lparr>br_child_descriptors = child, br_count = of_nat n, br_child_bytes = of_nat bytes,
      br_result = result\<rparr>) = Some bs \<and> length bs = 32"
proof -
  have u: "unat (of_nat n :: u64) = n" "unat (of_nat bytes :: u64) = bytes"
    using assms(2,4) by (simp_all add: unat_of_nat take_bit_nat_eq_self)
  have "(of_nat bytes :: u64) mod 16 = 0" using assms(5) u(2) by (simp add: word_unat_eq_iff unat_mod)
  moreover have "\<not> of_nat bytes > UINT64_MAX - child" "\<not> 8 > UINT64_MAX - result"
    using assms(6,7) u by (auto simp: block_def word_less_nat_alt u64_max_minus)
  moreover have "\<not> of_nat n > UINT32_MAX" "\<not> of_nat bytes > UINT32_MAX" "of_nat n \<noteq> (0 :: u64)" "of_nat bytes \<noteq> (0 :: u64)"
    using assms(1-4) u by (simp_all add: word_less_nat_alt word_unat_eq_iff)
  ultimately show ?thesis using assms(6,7) by (simp add: wire_def valid_batch_def accept_simps block_def)
qed

context guest_memory
begin

text \<open>The three writes of the staging, and what memory holds after them.\<close>

lemma staged_blocks:
  assumes ne: "stream \<noteq> []" "record \<noteq> []" "parent \<noteq> []"
    and blk: "block (mapped m) child (length stream)" "block (mapped m) result (length record)" "block (mapped m) descriptor (length parent)"
    and ap: "apart child (length stream) result (length record)" "apart child (length stream) descriptor (length parent)"
      "apart result (length record) descriptor (length parent)"
  obtains m1 m2 m3 where "mi_write mi m child stream = (True, m1)" and "mi_write mi m1 result record = (True, m2)"
    and "mi_write mi m2 descriptor parent = (True, m3)" and "mapped m3 = mapped m"
    and "load_bytes (byte_at m3) (unat child) (length stream) = stream"
    and "load_bytes (byte_at m3) (unat descriptor) (length parent) = parent"
    and "\<forall>x. x \<notin> {unat child..<unat child + length stream} \<longrightarrow> x \<notin> {unat result..<unat result + length record} \<longrightarrow>
      x \<notin> {unat descriptor..<unat descriptor + length parent} \<longrightarrow> byte_at m3 x = byte_at m x"
proof -
  obtain m1 where m1: "mi_write mi m child stream = (True, m1)" "byte_at m1 = store_bytes (byte_at m) (unat child) stream"
    "mapped m1 = mapped m" by (rule write_stored[OF ne(1), of child m]) (use blk(1) in \<open>simp add: block_def\<close>)
  obtain m2 where m2: "mi_write mi m1 result record = (True, m2)" "byte_at m2 = store_bytes (byte_at m1) (unat result) record"
    "mapped m2 = mapped m1" by (rule write_stored[OF ne(2), of result m1]) (use blk(2) m1 in \<open>simp add: block_def\<close>)
  obtain m3 where m3: "mi_write mi m2 descriptor parent = (True, m3)" "byte_at m3 = store_bytes (byte_at m2) (unat descriptor) parent"
    "mapped m3 = mapped m2" by (rule write_stored[OF ne(3), of descriptor m2]) (use blk(3) m1 m2 in \<open>simp add: block_def\<close>)
  have "load_bytes (byte_at m3) (unat child) (length stream) = stream"
    using ap by (simp add: m1(2) m2(2) m3(2) apart_def load_store_other load_store_same)
  moreover have "load_bytes (byte_at m3) (unat descriptor) (length parent) = parent" by (simp add: m3(2) load_store_same)
  moreover have "byte_at m3 x = byte_at m x" if "x \<notin> {unat child..<unat child + length stream}"
    "x \<notin> {unat result..<unat result + length record}" "x \<notin> {unat descriptor..<unat descriptor + length parent}" for x
    using that by (auto simp: m1(2) m2(2) m3(2) store_bytes_def)
  ultimately show thesis using that[OF m1(1) m2(1) m3(1)] m1(3) m2(3) m3(3) by simp
qed

lemma encode_batch_wire:
  assumes "wire (PCAA_ORDERED_BATCH \<lparr>br_child_descriptors = child, br_count = n, br_child_bytes = bytes, br_result = result\<rparr>) = Some bs"
  shows "pcaa_encode_batch child n bytes result (Some (replicate 64 0)) (Some k) =
    (PCAA_STATUS_OK, Some (bs @ drop (length bs) (replicate 64 0)), Some (length bs))"
proof -
  let ?c = "PCAA_ORDERED_BATCH \<lparr>br_child_descriptors = child, br_count = n, br_child_bytes = bytes, br_result = result\<rparr>"
  obtain r where "valid_command (Some ?c) = Inr r" using assms unfolding wire_valid by blast
  then have "constructed ?c (Some old) = (PCAA_STATUS_OK, Some ?c)" for old
    by (subst constructed_ok_iff) (cases r; simp)
  moreover have "length bs \<le> 64" using wire_length[OF assms] by auto
  ultimately show ?thesis
    using encode_one_wire[OF assms, of 64 "replicate 64 0" k] by (simp add: pcaa_encode_batch_def pcaa_make_ordered_batch_def)
qed

lemma batch_runs:
  assumes size: "stream_size_core (Some cs) = Inr bytes" and ws: "wires cs = Some ws" and b: "bytes = length (concat ws)"
      "0 < bytes" "bytes \<le> 4294967295"
    and ld: "load_bytes (byte_at (ac_memory a)) (unat child) bytes = concat ws" and da: "ac_descriptor_address a = descriptor"
    and blk: "block (mapped (ac_memory a)) child bytes" "block (mapped (ac_memory a)) result 8" "block (mapped (ac_memory a)) descriptor 32"
    and ap: "apart child bytes result 8" "apart child bytes descriptor 32" "apart result 8 descriptor 32"
    and run: "run_children mi timing (protects child (child + of_nat bytes) descriptor (descriptor + 32)) (map canonical_command cs)
      (a\<lparr>ac_timing_statistics := charge_batch timing (ac_timing_statistics a)\<rparr>) = (k, a1)"
    and x: "execute_batch mi timing \<lparr>br_child_descriptors = child, br_count = of_nat (length cs), br_child_bytes = of_nat bytes,
      br_result = result\<rparr> a = (ok, a2)"
  shows "(ok \<longleftrightarrow> k = length cs) \<and>
    load_bytes (byte_at (ac_memory a2)) (unat result) 8 = batch_result_bytes (of_nat k) (if ok then 4294967295 else of_nat k) \<and>
    (\<forall>x. x \<notin> {unat result..<unat result + 8} \<longrightarrow> byte_at (ac_memory a2) x = byte_at (ac_memory a1) x) \<and>
    ac_timing_statistics a2 = ac_timing_statistics a1 \<and> mapped (ac_memory a2) = mapped (ac_memory a)"
proof -
  let ?batch = "\<lparr>br_child_descriptors = child, br_count = of_nat (length cs), br_child_bytes = of_nat bytes, br_result = result\<rparr>"
  have nb: "unat (of_nat bytes :: u32) = bytes" using b(3) by (simp add: unat_of_nat take_bit_nat_eq_self)
  then have nz: "(of_nat bytes :: u32) \<noteq> 0" using b(2) by (auto simp: word_unat_eq_iff)
  have cast: "ucast (of_nat bytes :: u64) = (of_nat bytes :: u32)"
    using b(3) by (simp add: word_unat_eq_iff unsigned_ucast_eq unat_of_nat take_bit_nat_eq_self)
  have bounds: "unat child + bytes < 2 ^ 64" "unat result + 8 < 2 ^ 64" "unat descriptor + 32 < 2 ^ 64"
    using blk by (simp_all add: block_def)
  have spans: "accel_span child 1 (of_nat bytes) 0 1 1 = Some (child + of_nat bytes)"
    "accel_span descriptor 1 1 0 1 32 = Some (descriptor + 32)" "accel_span result 1 1 0 1 8 = Some (result + 8)"
    using span_bytes[of _ child "of_nat bytes"] span_record[of _ descriptor 32] span_record[of _ result 8] blk nz nb by simp_all
  have ov: "\<not> overlaps result (result + 8) child (child + of_nat bytes)" "\<not> overlaps result (result + 8) descriptor (descriptor + 32)"
    using apart_overlaps[of result 8 child bytes] apart_overlaps[of result 8 descriptor 32] ap bounds by (auto simp: apart_def)
  have mp: "{unat child..<unat (child + of_nat bytes)} \<subseteq> mapped (ac_memory a)" "{unat result..<unat result + 8} \<subseteq> mapped (ac_memory a)"
    using blk by (simp_all add: block_def end_exact)
  have enc: "pcaa_encode_stream (Some cs) (Some (replicate bytes 0)) bytes (Some 0) = (PCAA_STATUS_OK, Some (concat ws), Some bytes)"
    using size by (simp add: encode_stream_eq ws)
  have tk: "take bytes (concat ws) = concat ws" using b(1) by simp
  show ?thesis
    using encoded_batch[OF enc, of a ?batch "child + of_nat bytes" "descriptor + 32" "result + 8" timing k a1 ok a2]
      ld da spans ov mp run x tk by (simp add: cast)
qed

lemma batch_form:
  fixes cs :: "pcaa_command list" and child result descriptor :: u64
  defines "bytes \<equiv> length (concat (the (wires cs)))"
  assumes size: "stream_size_core (Some cs) = Inr bytes" and idle: "ac_status a \<noteq> ACCEL_STATUS_BUSY"
    and blk: "block (mapped m) child bytes" "block (mapped m) result 8" "block (mapped m) descriptor 32"
    and ap: "apart child bytes result 8" "apart child bytes descriptor 32" "apart result 8 descriptor 32"
    and m: "ac_memory a = m"
  obtains m' k a1 a' where "mapped m' = mapped m"
    and "\<forall>x. x \<notin> {unat child..<unat child + bytes} \<longrightarrow> x \<notin> {unat result..<unat result + 8} \<longrightarrow>
      x \<notin> {unat descriptor..<unat descriptor + 32} \<longrightarrow> byte_at m' x = byte_at m x"
    and "run_children mi timing (protects child (child + of_nat bytes) descriptor (descriptor + 32)) (map canonical_command cs)
      (a\<lparr>ac_memory := m', ac_descriptor_address := descriptor, ac_status := ACCEL_STATUS_BUSY,
         ac_timing_statistics := charge_batch timing (ac_timing_statistics a)\<rparr>) = (k, a1)"
    and "k \<le> length cs"
    and "ac_status a' = (if k = length cs then ACCEL_STATUS_DONE else ACCEL_STATUS_ERROR)"
    and "mapped (ac_memory a') = mapped m"
    and "load_bytes (byte_at (ac_memory a')) (unat result) 8 =
      batch_result_bytes (of_nat k) (if k = length cs then 4294967295 else of_nat k)"
    and "\<forall>x. x \<notin> {unat result..<unat result + 8} \<longrightarrow> byte_at (ac_memory a') x = byte_at (ac_memory a1) x"
    and "\<And>d. sd_world d = a \<Longrightarrow> sc_stage_batch (accelerator_target mi timing z al) (concat (the (wires cs))) (length cs)
      child result descriptor d = (PCAA_STATUS_OK, d\<lparr>sd_world := a', sd_batch_result_address := result,
        sd_pending_batch_count := length cs, sd_pending := True\<rparr>)"
proof -
  have loop: "stream_size_loop cs 0 = Inr bytes" and n: "length cs \<le> 4294967295" "cs \<noteq> []"
    using size by (auto simp: stream_size_core_def split: if_splits)
  obtain ws where ws: "wires cs = Some ws" and b: "bytes = length (concat ws)" "bytes \<le> 4294967295"
    using stream_size_loop_wires[OF loop] by auto
  have b0: "0 < bytes" "16 dvd bytes" using wires_slots[OF ws] n(2) b(1) by auto
  let ?st = "concat ws" and ?rec = "batch_result_bytes 0 4294967295"
  let ?batch = "\<lparr>br_child_descriptors = child, br_count = of_nat (length cs), br_child_bytes = of_nat bytes, br_result = result\<rparr>"
  have len: "length ?rec = 8" by (simp add: batch_result_bytes_def)
  obtain pb where pb: "wire (PCAA_ORDERED_BATCH ?batch) = Some pb" "length pb = 32"
    using batch_wire[OF _ n(1) b0(1) b(2) b0(2) blk(1,2)] n(2) by auto
  obtain m1 m2 m3 where w: "mi_write mi m child ?st = (True, m1)" "mi_write mi m1 result ?rec = (True, m2)"
    "mi_write mi m2 descriptor pb = (True, m3)" and mp: "mapped m3 = mapped m"
    and ld: "load_bytes (byte_at m3) (unat child) bytes = ?st" "load_bytes (byte_at m3) (unat descriptor) 32 = pb"
    and out: "\<forall>x. x \<notin> {unat child..<unat child + bytes} \<longrightarrow> x \<notin> {unat result..<unat result + 8} \<longrightarrow>
      x \<notin> {unat descriptor..<unat descriptor + 32} \<longrightarrow> byte_at m3 x = byte_at m x"
    by (rule staged_blocks[of ?st ?rec pb m child result descriptor, unfolded len pb(2) b(1)[symmetric]])
       (use b b0 blk ap len pb(2) in auto)
  let ?a = "a\<lparr>ac_memory := m3, ac_descriptor_address := descriptor, ac_status := ACCEL_STATUS_BUSY\<rparr>"
  let ?c = "?a\<lparr>ac_timing_statistics := charge_batch timing (ac_timing_statistics ?a)\<rparr>"
  obtain k a1 where run: "run_children mi timing (protects child (child + of_nat bytes) descriptor (descriptor + 32))
      (map canonical_command cs) ?c = (k, a1)" by fastforce
  obtain ok a2 where x: "execute_batch mi timing ?batch ?a = (ok, a2)" by fastforce
  have spec: "(ok \<longleftrightarrow> k = length cs) \<and>
    load_bytes (byte_at (ac_memory a2)) (unat result) 8 = batch_result_bytes (of_nat k) (if ok then 4294967295 else of_nat k) \<and>
    (\<forall>x. x \<notin> {unat result..<unat result + 8} \<longrightarrow> byte_at (ac_memory a2) x = byte_at (ac_memory a1) x) \<and>
    ac_timing_statistics a2 = ac_timing_statistics a1 \<and> mapped (ac_memory a2) = mapped (ac_memory ?a)"
    by (rule batch_runs[OF size ws b(1) b0(1) b(2) _ _ _ _ _ ap run x]) (use ld blk mp in simp_all)
  have k: "k \<le> length cs" using run_children_mapped[OF wires_valid[OF ws] run] by simp
  have "read_command mi (ac_memory ?a) (ac_descriptor_address ?a) ACCEL_COMMAND_MAX_BYTES =
      Some (canonical_command (PCAA_ORDERED_BATCH ?batch), length pb)"
    by (rule execute_wire[OF pb(1)]) (use ld pb(2) blk(3) mp in \<open>simp_all add: block_def\<close>)
  then obtain z' where ex: "execute mi timing ?a z = (ok, a2, z')" using batch_executes[of ?a ?batch "length pb" timing ok a2 z] x by auto
  let ?a' = "a2\<lparr>ac_status := if ok then ACCEL_STATUS_DONE else ACCEL_STATUS_ERROR\<rparr>"
  have ring: "sc_ring (accelerator_target mi timing z al) (a\<lparr>ac_memory := m3\<rparr>) descriptor = (True, ?a')"
    by (rule ring_executes) (use idle ex in simp_all)
  have "sc_stage_batch (accelerator_target mi timing z al) ?st (length cs) child result descriptor d =
      (PCAA_STATUS_OK, d\<lparr>sd_world := ?a', sd_batch_result_address := result, sd_pending_batch_count := length cs, sd_pending := True\<rparr>)"
    if "sd_world d = a" for d
    using that w ring m encode_batch_wire[OF pb(1)] b(1) by (simp add: sc_stage_batch_def)
  then show thesis using that[of m3 k a1 ?a'] mp out run spec k ws by simp
qed

end

lemma result_fields [simp]:
  "get_le 4 (batch_result_bytes completed failed) 0 = completed" "get_le 4 (batch_result_bytes completed failed) 4 = failed"
  by (rule get_le_bytes; simp add: batch_result_bytes_def nth_append)+

lemma wait_batch_form:
  assumes "guest_memory mi byte_at mapped" and p: "sd_pending d" "sd_pending_batch_count d = n" "0 < n" "n \<le> 4294967295" "k \<le> n"
    and st: "ac_status (sd_world d) = (if k = n then ACCEL_STATUS_DONE else ACCEL_STATUS_ERROR)"
    and mem: "{unat (sd_batch_result_address d)..<unat (sd_batch_result_address d) + 8} \<subseteq> mapped (ac_memory (sd_world d))"
      "load_bytes (byte_at (ac_memory (sd_world d))) (unat (sd_batch_result_address d)) 8 =
        batch_result_bytes (of_nat k) (if k = n then 4294967295 else of_nat k)"
  shows "sc_wait (accelerator_target mi timing z al) d completion =
    (if k = n then PCAA_STATUS_OK else PCAA_STATUS_DEVICE_ERROR, d\<lparr>sd_pending := False\<rparr>,
     map_option (\<lambda>_. \<lparr>cp_has_batch_result = True, cp_completed = of_nat k, cp_failed_index = if k = n then 4294967295 else of_nat k\<rparr>) completion)"
proof -
  have k: "unat (of_nat k :: u32) = k" using p(4,5) by (simp add: unat_of_nat take_bit_nat_eq_self)
  have rd: "mi_read mi (ac_memory (sd_world d)) (sd_batch_result_address d) 8 =
      Some (batch_result_bytes (of_nat k) (if k = n then 4294967295 else of_nat k))"
    using guest_memory.read_mapped[OF assms(1) _ mem(1)] mem(2) by simp
  have ne: "(of_nat k :: u32) \<noteq> 0 \<or> (if k = n then 4294967295 else of_nat k :: u32) \<noteq> 4294967295"
    using k p(3) by (auto simp: word_unat_eq_iff)
  have cp: "batch_completion (of_nat k) (if k = n then 4294967295 else of_nat k) =
      (\<lambda>_. \<lparr>cp_has_batch_result = True, cp_completed = of_nat k, cp_failed_index = if k = n then 4294967295 else of_nat k\<rparr>)"
    using ne by (simp add: batch_completion_def fun_eq_iff)
  show ?thesis using p st k cp
    by (cases "k = n") (simp_all add: sc_wait_def status_read status_defs rd)
qed

text \<open>
  C20: an ordered batch submitted through the host facade and the SystemC adapter. On an idle adapter,
  when the host can hold the stream and the allocator returns three mapped blocks that do not overlap,
  the submission is accepted and the commands run in order on guest memory, which differs from the
  memory before the submission only in the three blocks. The wait returns \<open>PCAA_STATUS_OK\<close> exactly when
  all commands completed, and its completion record holds their number and the index of the first
  command that failed or that would overwrite a descriptor.
\<close>

theorem submit_batch_runs:
  assumes "guest_memory mi byte_at mapped" and "stream_size_core (Some cs) = Inr bytes" and "host_grants bytes"
    and "\<not> sd_pending d" and "ac_status (sd_world d) \<noteq> ACCEL_STATUS_BUSY"
    and "allocate (ac_memory (sd_world d)) bytes = (child, m1)" and "allocate m1 8 = (result, m2)" and "allocate m2 32 = (descriptor, m)"
    and "block (mapped m) child bytes" and "block (mapped m) result 8" and "block (mapped m) descriptor 32"
    and "apart child bytes result 8" and "apart child bytes descriptor 32" and "apart result 8 descriptor 32"
    and "device = systemc_callbacks host_grants (accelerator_target mi timing zero_time allocate)"
  shows "\<exists>m' k a1 d1 d2. mapped m' = mapped m \<and>
    (\<forall>x. x \<notin> {unat child..<unat child + bytes} \<longrightarrow> x \<notin> {unat result..<unat result + 8} \<longrightarrow>
      x \<notin> {unat descriptor..<unat descriptor + 32} \<longrightarrow> byte_at m' x = byte_at m x) \<and>
    run_children mi timing (protects child (child + of_nat bytes) descriptor (descriptor + 32)) (map canonical_command cs)
      ((sd_world d)\<lparr>ac_memory := m', ac_descriptor_address := descriptor, ac_status := ACCEL_STATUS_BUSY,
         ac_timing_statistics := charge_batch timing (ac_timing_statistics (sd_world d))\<rparr>) = (k, a1) \<and>
    pcaa_device_submit_batch (Some device) d (Some cs) = (PCAA_STATUS_OK, d1) \<and>
    pcaa_device_wait (Some device) d1 completion =
      (if k = length cs then PCAA_STATUS_OK else PCAA_STATUS_DEVICE_ERROR, d2,
       map_option (\<lambda>_. \<lparr>cp_has_batch_result = True, cp_completed = of_nat k,
          cp_failed_index = if k = length cs then 4294967295 else of_nat k\<rparr>) completion) \<and>
    (\<forall>x. x \<notin> {unat result..<unat result + 8} \<longrightarrow> byte_at (ac_memory (sd_world d2)) x = byte_at (ac_memory a1) x) \<and>
    \<not> sd_pending d2"
proof -
  have loop: "stream_size_loop cs 0 = Inr bytes" and n: "length cs \<le> 4294967295" "cs \<noteq> []"
    using assms(2) by (auto simp: stream_size_core_def split: if_splits)
  have cw: "length (concat (the (wires cs))) = bytes" using stream_size_loop_wires[OF loop] by auto
  let ?a = "(sd_world d)\<lparr>ac_memory := m\<rparr>" and ?t = "accelerator_target mi timing zero_time allocate"
  obtain m' k a1 a' where run: "mapped m' = mapped m"
    "\<forall>x. x \<notin> {unat child..<unat child + bytes} \<longrightarrow> x \<notin> {unat result..<unat result + 8} \<longrightarrow>
      x \<notin> {unat descriptor..<unat descriptor + 32} \<longrightarrow> byte_at m' x = byte_at m x"
    "run_children mi timing (protects child (child + of_nat bytes) descriptor (descriptor + 32)) (map canonical_command cs)
      (?a\<lparr>ac_memory := m', ac_descriptor_address := descriptor, ac_status := ACCEL_STATUS_BUSY,
         ac_timing_statistics := charge_batch timing (ac_timing_statistics ?a)\<rparr>) = (k, a1)"
    "k \<le> length cs" "ac_status a' = (if k = length cs then ACCEL_STATUS_DONE else ACCEL_STATUS_ERROR)"
    "mapped (ac_memory a') = mapped m"
    "load_bytes (byte_at (ac_memory a')) (unat result) 8 =
      batch_result_bytes (of_nat k) (if k = length cs then 4294967295 else of_nat k)"
    "\<forall>x. x \<notin> {unat result..<unat result + 8} \<longrightarrow> byte_at (ac_memory a') x = byte_at (ac_memory a1) x"
    "\<And>d. sd_world d = ?a \<Longrightarrow> sc_stage_batch ?t (concat (the (wires cs))) (length cs)
      child result descriptor d = (PCAA_STATUS_OK, d\<lparr>sd_world := a', sd_batch_result_address := result,
        sd_pending_batch_count := length cs, sd_pending := True\<rparr>)"
    by (rule guest_memory.batch_form[where cs = cs and a = ?a and m = m and timing = timing and z = zero_time and al = allocate,
          OF assms(1), unfolded cw, OF assms(2) _ assms(9-14)]; (rule that; assumption)?) (use assms(5) in simp_all)
  let ?d1 = "d\<lparr>sd_world := a', sd_batch_result_address := result, sd_pending_batch_count := length cs, sd_pending := True\<rparr>"
  have enc: "pcaa_encode_stream (Some cs) (Some (replicate bytes 0)) bytes (Some 0) =
      (PCAA_STATUS_OK, Some (concat (the (wires cs))), Some bytes)"
    using assms(2) by (simp add: encode_stream_eq)
  have "pcaa_device_submit_batch (Some device) d (Some cs) = (PCAA_STATUS_OK, ?d1)"
    using assms(2-4,6-11) run(9)[of "d\<lparr>sd_world := ?a\<rparr>"] n(2) enc
    by (simp add: pcaa_device_submit_batch_def assms(15) systemc_callbacks_def sc_submit_batch_def pcaa_encoded_stream_size_def
        c_call_def block_def)
  moreover have "pcaa_device_wait (Some device) ?d1 completion =
      (if k = length cs then PCAA_STATUS_OK else PCAA_STATUS_DEVICE_ERROR, ?d1\<lparr>sd_pending := False\<rparr>,
       map_option (\<lambda>_. \<lparr>cp_has_batch_result = True, cp_completed = of_nat k,
          cp_failed_index = if k = length cs then 4294967295 else of_nat k\<rparr>) completion)"
    using wait_batch_form[OF assms(1), of ?d1 "length cs" k timing zero_time allocate "map_option (\<lambda>_. reset_completion) completion"]
      run(4-7) n assms(10)
    by (simp add: pcaa_device_wait_def assms(15) systemc_callbacks_def option.map_comp comp_def block_def del: if_split)
  ultimately show ?thesis using run(1-3,8)
    by (intro exI[of _ m'] exI[of _ k] exI[of _ a1] exI[of _ ?d1] exI[of _ "?d1\<lparr>sd_pending := False\<rparr>"]) simp
qed

theorem submit_batch_runs_witness:
  "\<exists>k d1 d2. pcaa_device_submit_batch (Some (systemc_callbacks (\<lambda>_. True)
       (accelerator_target gm_interface example_timing () example_staging))) example_host (Some [example_add]) = (PCAA_STATUS_OK, d1) \<and>
     pcaa_device_wait (Some (systemc_callbacks (\<lambda>_. True) (accelerator_target gm_interface example_timing () example_staging)))
       d1 None = (if k = length [example_add] then PCAA_STATUS_OK else PCAA_STATUS_DEVICE_ERROR, d2, None) \<and> \<not> sd_pending d2"
proof -
  let ?ma = "ac_memory (sd_world example_host)"
  let ?mb = "snd (example_staging ?ma 32)" let ?mc = "snd (example_staging ?mb 8)" let ?md = "snd (example_staging ?mc 32)"
  have "fst (example_staging ?ma 32) = 256" "fst (example_staging ?mb 8) = 288" "fst (example_staging ?mc 32) = 296"
    by code_simp+
  then have al: "example_staging ?ma 32 = (256, ?mb)" "example_staging ?mb 8 = (288, ?mc)" "example_staging ?mc 32 = (296, ?md)"
    by (simp_all add: prod_eq_iff)
  have "encoded_size_core (Some example_add) = Inr 32" "\<not> is_batch example_add" by code_simp+
  then have size: "stream_size_core (Some [example_add]) = Inr 32" by (simp add: stream_size_core_def)
  have "length (gm_bytes ?md) = 328" by code_simp
  then have mp: "gm_mapped ?md = {..<328}" by (simp add: gm_mapped_def)
  have blk: "block (gm_mapped ?md) 256 32" "block (gm_mapped ?md) 288 8" "block (gm_mapped ?md) 296 32"
    by (auto simp: block_def mp)
  have ap: "apart 256 32 288 8" "apart 256 32 296 32" "apart 288 8 296 32" by (simp_all add: apart_def)
  have idle: "\<not> sd_pending example_host" "ac_status (sd_world example_host) \<noteq> ACCEL_STATUS_BUSY" by code_simp+
  from submit_batch_runs[where allocate = example_staging and host_grants = "\<lambda>_. True" and timing = example_timing
      and zero_time = "()" and completion = None, OF gm.guest_memory_axioms size _ idle al blk ap refl]
  show ?thesis by auto
qed

end
