(* ===== verification/Pbqp_Statistics.thy ===== *)
theory Pbqp_Statistics
  imports Cost_Math
begin

text \<open>
  The workload counters of \<open>pbqp_statistics_t\<close> (\<open>software/pbqp/pbqp.h\<close>) as a function from counter
  names to values. Every field is one constructor with the source's name: the scalar fields in five
  groups (so that the datatypes stay small), the array fields as \<open>Ar name index\<close>. A counter is an
  \<open>unsigned\<close> or a \<open>uint64_t\<close>, so \<open>bump\<close> adds modulo \<open>2 ^ 32\<close> or \<open>2 ^ 64\<close>.
\<close>

section \<open>Counters\<close>

datatype reduction_counter =
    nodes | initial_edges | r0_count | r1_count | r2_count | rn_count | rn_degree_min
  | rn_degree_max | rn_degree_total | rn_projection_count | rn_projection_primitives
  | rn_projection_map_elements | rn_projection_operand_bytes | rn_projection_result_bytes
  | rn_score_accumulation_elements | rn_commit_elements | rn_commit_bytes

datatype cascade_counter =
    condition_count | condition_elements | condition_matrix_read_bytes
  | condition_unary_read_bytes | condition_unary_write_bytes | commit_matrix_read_bytes
  | commit_unary_read_bytes | commit_unary_write_bytes | r0_after_rn | r1_after_rn | r2_after_rn
  | first_rn_active_nodes | first_rn_active_edges | maximum_irreducible_core_nodes
  | maximum_irreducible_core_edges | rn_episodes | rn_cascade_total_length
  | rn_cascade_maximum_length

datatype local_counter =
    local_search_node_evaluations | local_search_sweeps | local_search_accepted_moves
  | local_search_slice_accumulations | local_search_slice_elements
  | local_search_matrix_read_bytes | local_search_score_read_bytes
  | local_search_score_write_bytes | local_search_argmin_reductions
  | local_search_argmin_elements

datatype mix_counter =
    minplus_project_elements | minplus_project_descriptors | minplus_project_bytes
  | project_accumulate_elements | project_accumulate_bytes | slice_accumulate_elements
  | slice_accumulate_operations | slice_accumulate_bytes | map3_reduce_elements
  | map3_reduce_descriptors | scalar_project_descriptors | vector_project_descriptors
  | vector_add_descriptors | scalar_map3_descriptors | partial_map3_descriptors
  | map3_reduce_bytes | argmin_vector_elements | argmin_vector_descriptors | argmin_vector_bytes
  | operation_mix_operand_bytes | operation_mix_result_bytes

datatype submission_counter =
    search_nodes_visited | search_branches_created | search_maximum_depth | search_limit_hits
  | search_nodes_pruned | logical_map_elements | logical_bytes_read | logical_bytes_written
  | contiguous_views | strided_views | scratch_packs | scratch_bytes | top_level_submissions
  | batch_submissions | batch_primitive_descriptors | maximum_batch_size
  | batch_descriptor_bytes | batch_child_descriptor_bytes | vector_add_dst_src0
  | vector_add_dst_src1 | vector_add_inplace_descriptors | vector_add_general_descriptors
  | unique_packed_views

datatype array_counter =
    rn_degree_histogram | rn_nodes | rn_choices | rn_cascade_r0 | rn_cascade_r1 | rn_cascade_r2
  | rn_cascade_length_histogram | primitive_submissions | vector_length_histogram

datatype counter =
    Rd reduction_counter | Cd cascade_counter | Ls local_counter | Mx mix_counter
  | Sb submission_counter | Ar array_counter nat

type_synonym pbqp_statistics = "counter \<Rightarrow> nat"

text \<open>The \<open>uint64_t\<close> fields.\<close>

definition wide_counters :: "counter list" where
  "wide_counters = [Rd rn_degree_total, Rd rn_projection_map_elements, Rd rn_projection_operand_bytes
   , Rd rn_projection_result_bytes, Rd rn_score_accumulation_elements, Rd rn_commit_elements
   , Rd rn_commit_bytes, Cd condition_elements, Cd condition_matrix_read_bytes
   , Cd condition_unary_read_bytes, Cd condition_unary_write_bytes, Cd commit_matrix_read_bytes
   , Cd commit_unary_read_bytes, Cd commit_unary_write_bytes
   , Ls local_search_slice_accumulations, Ls local_search_slice_elements
   , Ls local_search_matrix_read_bytes, Ls local_search_score_read_bytes
   , Ls local_search_score_write_bytes, Ls local_search_argmin_elements
   , Mx minplus_project_elements, Mx minplus_project_bytes, Mx project_accumulate_elements
   , Mx project_accumulate_bytes, Mx slice_accumulate_elements, Mx slice_accumulate_bytes
   , Mx map3_reduce_elements, Mx map3_reduce_bytes, Mx argmin_vector_elements
   , Mx argmin_vector_bytes, Mx operation_mix_operand_bytes, Mx operation_mix_result_bytes
   , Sb search_nodes_visited, Sb search_branches_created, Sb logical_map_elements
   , Sb logical_bytes_read, Sb logical_bytes_written, Sb scratch_bytes
   , Sb batch_descriptor_bytes, Sb batch_child_descriptor_bytes]"

definition counter_modulus :: "counter \<Rightarrow> nat" where
  "counter_modulus c = (if c \<in> set wide_counters then 2 ^ 64 else 2 ^ 32)"

definition bump :: "counter \<Rightarrow> nat \<Rightarrow> pbqp_statistics \<Rightarrow> pbqp_statistics" where
  "bump c k s = s(c := (s c + k) mod counter_modulus c)"

definition bumps :: "(counter \<times> nat) list \<Rightarrow> pbqp_statistics \<Rightarrow> pbqp_statistics" where
  "bumps cs s = fold (\<lambda>(c, k). bump c k) cs s"

definition no_statistics :: pbqp_statistics where
  "no_statistics = (\<lambda>_. 0)"

section \<open>Recording functions of the solver\<close>

definition record_view :: "nat \<Rightarrow> pbqp_statistics \<Rightarrow> pbqp_statistics" where
  "record_view stride s =
     (if stride = 1 then bump (Sb contiguous_views) 1 s else bump (Sb strided_views) 1 s)"

definition record_operation :: "nat \<Rightarrow> nat \<Rightarrow> nat \<Rightarrow> nat \<Rightarrow> pbqp_statistics \<Rightarrow> pbqp_statistics" where
  "record_operation opcode len input_count result_bytes =
     bumps [(Ar primitive_submissions opcode, 1), (Ar vector_length_histogram len, 1),
       (Sb logical_map_elements, len), (Sb logical_bytes_read, len * input_count * 4),
       (Sb logical_bytes_written, result_bytes)]"

definition record_minplus_project :: "nat \<Rightarrow> nat \<Rightarrow> pbqp_statistics \<Rightarrow> pbqp_statistics" where
  "record_minplus_project len result_bytes =
     bumps [(Mx minplus_project_elements, len), (Mx minplus_project_descriptors, 1),
       (Mx minplus_project_bytes, 2 * len * 4 + result_bytes),
       (Mx operation_mix_operand_bytes, 2 * len * 4), (Mx operation_mix_result_bytes, result_bytes)]"

definition record_map3_reduce :: "nat \<Rightarrow> pbqp_statistics \<Rightarrow> pbqp_statistics" where
  "record_map3_reduce len =
     bumps [(Mx map3_reduce_elements, len), (Mx map3_reduce_descriptors, 1),
       (Mx map3_reduce_bytes, 3 * len * 4 + 8), (Mx operation_mix_operand_bytes, 3 * len * 4),
       (Mx operation_mix_result_bytes, 8)]"

definition record_argmin_vector :: "nat \<Rightarrow> pbqp_statistics \<Rightarrow> pbqp_statistics" where
  "record_argmin_vector len =
     bumps [(Mx argmin_vector_elements, len), (Mx argmin_vector_descriptors, 1),
       (Mx argmin_vector_bytes, 2 * len * 4 + 8), (Mx operation_mix_operand_bytes, 2 * len * 4),
       (Mx operation_mix_result_bytes, 8)]"

text \<open>The scalar counters that \<open>AddBranchStatistics\<close> accumulates, in its order.\<close>

definition branch_counters :: "counter list" where
  "branch_counters = [Rd r0_count, Rd r1_count, Rd r2_count, Cd condition_count, Cd condition_elements
   , Cd condition_matrix_read_bytes, Cd condition_unary_read_bytes
   , Cd condition_unary_write_bytes, Rd rn_commit_elements, Rd rn_commit_bytes
   , Cd commit_matrix_read_bytes, Cd commit_unary_read_bytes, Cd commit_unary_write_bytes
   , Sb logical_map_elements, Sb logical_bytes_read, Sb logical_bytes_written
   , Mx minplus_project_elements, Mx minplus_project_descriptors, Mx minplus_project_bytes
   , Mx project_accumulate_elements, Mx project_accumulate_bytes, Mx slice_accumulate_elements
   , Mx slice_accumulate_operations, Mx slice_accumulate_bytes, Mx map3_reduce_elements
   , Mx map3_reduce_descriptors, Mx scalar_project_descriptors, Mx vector_project_descriptors
   , Mx vector_add_descriptors, Mx scalar_map3_descriptors, Mx partial_map3_descriptors
   , Mx map3_reduce_bytes, Mx argmin_vector_elements, Mx argmin_vector_descriptors
   , Mx argmin_vector_bytes, Mx operation_mix_operand_bytes, Mx operation_mix_result_bytes
   , Sb contiguous_views, Sb strided_views, Sb scratch_packs, Sb scratch_bytes
   , Sb top_level_submissions, Sb batch_submissions, Sb batch_primitive_descriptors
   , Sb batch_descriptor_bytes, Sb batch_child_descriptor_bytes, Sb vector_add_dst_src0
   , Sb vector_add_dst_src1, Sb vector_add_inplace_descriptors
   , Sb vector_add_general_descriptors, Sb unique_packed_views]"

text \<open>
  \<open>total += branch - base\<close> in unsigned arithmetic for the listed scalars and the two arrays, the
  maximum for the batch size, and no change for every other counter.
\<close>

definition add_branch_statistics ::
  "pbqp_statistics \<Rightarrow> pbqp_statistics \<Rightarrow> pbqp_statistics \<Rightarrow> nat \<Rightarrow> pbqp_statistics" where
  "add_branch_statistics sum_stats base branch domain_capacity = (\<lambda>c.
     let added = nat ((int (sum_stats c) + int (branch c) - int (base c)) mod int (counter_modulus c))
     in case c of
          Ar primitive_submissions opcode \<Rightarrow> if opcode < 9 then added else sum_stats c
        | Ar vector_length_histogram len \<Rightarrow> if len \<le> domain_capacity then added else sum_stats c
        | _ \<Rightarrow>
            if c = Sb maximum_batch_size then max (branch c) (sum_stats c)
            else if c \<in> set branch_counters then added else sum_stats c)"

text \<open>
  The pointer members of the structure: the arrays other than \<open>primitive_submissions\<close>. A plain
  structure copy shares them, so \<open>share_arrays s t\<close> is \<open>t\<close> with the arrays of \<open>s\<close>.
\<close>

definition share_arrays :: "pbqp_statistics \<Rightarrow> pbqp_statistics \<Rightarrow> pbqp_statistics" where
  "share_arrays s t = (\<lambda>c. case c of Ar a i \<Rightarrow> if a = primitive_submissions then t c else s c
     | _ \<Rightarrow> t c)"

record search_control =
  sc_nodes_visited :: nat
  sc_branches_created :: nat
  sc_maximum_depth :: nat
  sc_limit_hits :: nat
  sc_nodes_pruned :: nat

definition record_search_statistics :: "search_control \<Rightarrow> pbqp_statistics \<Rightarrow> pbqp_statistics" where
  "record_search_statistics search s =
     s(Sb search_nodes_visited := sc_nodes_visited search,
       Sb search_branches_created := sc_branches_created search,
       Sb search_maximum_depth := sc_maximum_depth search,
       Sb search_limit_hits := sc_limit_hits search,
       Sb search_nodes_pruned := sc_nodes_pruned search)"

end
