(* ===== verification/Pbqp_Storage.thy ===== *)
theory Pbqp_Storage
  imports Pcaa_Prelude
begin

text \<open>
  Storage of the PBQP solver (\<open>software/pbqp/pbqp_storage.cpp\<close>): the size of the single block behind
  a problem, computed in \<open>size_t\<close> arithmetic with explicit overflow tests, the sections into which
  \<open>BindProblemStorage\<close> cuts the block, and the LIFO arena allocator over caller-owned bytes.

  \<open>size_t\<close> is a \<open>u64\<close> and \<open>sizeof\<close> follows the LP64 layout of the hosts and of RV64:
  \<open>pbqp_node_t\<close> and \<open>pbqp_edge_t\<close> take 32 bytes, \<open>int32_t\<close> and \<open>unsigned\<close> four. An output
  parameter that is written only on success is an option. The arena keeps its bytes as a list; the
  saved \<open>used\<close> of each block stands in the eight bytes before it, as in the source.
\<close>

section \<open>Size of the problem block\<close>

abbreviation (input) SIZE_MAX :: u64 where "SIZE_MAX \<equiv> 18446744073709551615"
abbreviation (input) kStorageAlignment :: u64 where "kStorageAlignment \<equiv> 8"
abbreviation (input) sizeof_pbqp_node :: u64 where "sizeof_pbqp_node \<equiv> 32"
abbreviation (input) sizeof_pbqp_edge :: u64 where "sizeof_pbqp_edge \<equiv> 32"
abbreviation (input) sizeof_int32 :: u64 where "sizeof_int32 \<equiv> 4"
abbreviation (input) sizeof_unsigned :: u64 where "sizeof_unsigned \<equiv> 4"
abbreviation (input) sizeof_size_t :: u64 where "sizeof_size_t \<equiv> 8"

definition AddStorage :: "u64 \<Rightarrow> u64 \<Rightarrow> u64 \<Rightarrow> u64 option" where
  "AddStorage total_size count element_size =
     (if count \<noteq> 0 \<and> element_size > SIZE_MAX div count then None
      else let bytes = count * element_size
        in if bytes > SIZE_MAX - (kStorageAlignment - 1) then None
           else let aligned = (bytes + kStorageAlignment - 1) AND NOT (kStorageAlignment - 1)
             in if total_size > SIZE_MAX - aligned then None else Some (total_size + aligned))"

definition Multiply :: "u64 \<Rightarrow> u64 \<Rightarrow> u64 option" where
  "Multiply first second =
     (if first \<noteq> 0 \<and> second > SIZE_MAX div first then None else Some (first * second))"

fun add_sections :: "u64 \<Rightarrow> (u64 \<times> u64) list \<Rightarrow> u64 option" where
  "add_sections size_so_far [] = Some size_so_far"
| "add_sections size_so_far ((count, element_size) # rest) =
     (case AddStorage size_so_far count element_size of
        None \<Rightarrow> None | Some size_so_far' \<Rightarrow> add_sections size_so_far' rest)"

text \<open>
  \<open>ProblemStorageSize\<close>. Its capacities are \<open>unsigned\<close>, converted to \<open>size_t\<close> at every use; the
  chain of \<open>||\<close> stops at the first failure.
\<close>

definition ProblemStorageSize :: "u32 \<Rightarrow> u32 \<Rightarrow> u32 \<Rightarrow> u64" where
  "ProblemStorageSize node_capacity edge_capacity domain_capacity =
     (let nodes_n = ucast node_capacity; edges_n = ucast edge_capacity; domain_n = ucast domain_capacity
      in if domain_n \<noteq> 0 \<and> domain_n > SIZE_MAX div domain_n then 0
         else let domain_square = domain_n * domain_n
           in case Multiply nodes_n 7 of None \<Rightarrow> 0 | Some statistics_count \<Rightarrow>
             if statistics_count > SIZE_MAX - domain_n \<or> statistics_count + domain_n > SIZE_MAX - 3 then 0
             else case Multiply nodes_n domain_n of None \<Rightarrow> 0 | Some unary_count \<Rightarrow>
               case Multiply edges_n domain_square of None \<Rightarrow> 0 | Some edge_cost_count \<Rightarrow>
                 case Multiply nodes_n domain_square of None \<Rightarrow> 0 | Some reconstruction_count \<Rightarrow>
                   (case add_sections 0
                      [(nodes_n, sizeof_pbqp_node), (edges_n, sizeof_pbqp_edge),
                       (unary_count, sizeof_int32), (edge_cost_count, sizeof_int32),
                       (nodes_n, sizeof_unsigned), (reconstruction_count, sizeof_unsigned),
                       (statistics_count + ucast (domain_capacity + 3), sizeof_unsigned)] of
                      None \<Rightarrow> 0 | Some size_n \<Rightarrow> size_n))"

definition pbqp_problem_storage_size :: "u32 \<Rightarrow> u32 \<Rightarrow> u32 \<Rightarrow> u64" where
  "pbqp_problem_storage_size = ProblemStorageSize"

section \<open>Sections of the block\<close>

text \<open>
  \<open>BindProblemStorage\<close> as the byte offsets it gives to the arrays. \<open>AddStorage\<close> is called with
  its result ignored, so a section whose size overflows advances the cursor by zero.
\<close>

record problem_layout =
  ly_nodes :: u64
  ly_edges :: u64
  ly_unary :: u64
  ly_cost :: u64
  ly_elimination_order :: u64
  ly_reconstruction :: u64
  ly_statistics :: u64

definition section_bytes :: "u64 \<Rightarrow> u64 \<Rightarrow> u64" where
  "section_bytes count element_size =
     (case AddStorage 0 count element_size of None \<Rightarrow> 0 | Some bytes \<Rightarrow> bytes)"

definition BindProblemStorage :: "u32 \<Rightarrow> u32 \<Rightarrow> u32 \<Rightarrow> problem_layout" where
  "BindProblemStorage node_capacity edge_capacity domain_capacity =
     (let nodes_n = ucast node_capacity; edges_n = ucast edge_capacity; domain_n = ucast domain_capacity;
          domain_square = domain_n * domain_n;
          c1 = section_bytes nodes_n sizeof_pbqp_node;
          c2 = c1 + section_bytes edges_n sizeof_pbqp_edge;
          c3 = c2 + section_bytes (nodes_n * domain_n) sizeof_int32;
          c4 = c3 + section_bytes (edges_n * domain_square) sizeof_int32;
          c5 = c4 + section_bytes nodes_n sizeof_unsigned;
          c6 = c5 + section_bytes (nodes_n * domain_square) sizeof_unsigned
      in \<lparr>ly_nodes = 0, ly_edges = c1, ly_unary = c2, ly_cost = c3, ly_elimination_order = c4,
          ly_reconstruction = c5, ly_statistics = c6\<rparr>)"

section \<open>Arena allocator\<close>

text \<open>
  \<open>ar_base\<close> is the address of \<open>storage\<close>, \<open>ar_bytes\<close> its contents; a null \<open>storage\<close> is
  \<open>None\<close>. A returned pointer is given as its offset in the storage.
\<close>

record pbqp_arena =
  ar_storage :: "(u64 \<times> byte list) option"
  ar_capacity :: u64
  ar_used :: u64

definition pbqp_arena_init :: "pbqp_arena option \<Rightarrow> (u64 \<times> byte list) option \<Rightarrow> u64 \<Rightarrow> pbqp_arena option" where
  "pbqp_arena_init arena storage size_n =
     map_option (\<lambda>_. \<lparr>ar_storage = storage, ar_capacity = size_n, ar_used = 0\<rparr>) arena"

definition ArenaAllocate :: "pbqp_arena \<Rightarrow> u64 \<Rightarrow> u64 option \<times> pbqp_arena" where
  "ArenaAllocate arena size_n =
     (case ar_storage arena of
        None \<Rightarrow> (None, arena)
      | Some (base, bytes) \<Rightarrow>
          if ar_used arena > SIZE_MAX - sizeof_size_t - (kStorageAlignment - 1) then (None, arena)
          else let current = base + ar_used arena + sizeof_size_t
            in if current < base then (None, arena)
               else let aligned = (current + kStorageAlignment - 1) AND NOT (kStorageAlignment - 1)
                 in if aligned < current then (None, arena)
                    else let allocation_offset = aligned - base
                      in if allocation_offset > ar_capacity arena \<or>
                            size_n > ar_capacity arena - allocation_offset then (None, arena)
                         else (Some allocation_offset,
                               arena\<lparr>ar_storage := Some (base,
                                        put_le 8 bytes (unat (allocation_offset - sizeof_size_t)) (ar_used arena)),
                                     ar_used := allocation_offset + size_n\<rparr>))"

definition ArenaDeallocate :: "pbqp_arena \<Rightarrow> u64 option \<Rightarrow> u64 \<Rightarrow> pbqp_arena" where
  "ArenaDeallocate arena allocation size_n =
     (case (ar_storage arena, allocation) of
        (Some (base, bytes), Some offset) \<Rightarrow>
          if offset + size_n \<noteq> ar_used arena then arena
          else arena\<lparr>ar_used := get_le 8 bytes (unat (offset - sizeof_size_t))\<rparr>
      | _ \<Rightarrow> arena)"

end
