(* ===== verification/Pbqp_Problem.thy ===== *)
theory Pbqp_Problem
  imports Pbqp_Statistics Pbqp_Storage
begin

text \<open>
  The PBQP graph of \<open>software/pbqp/pbqp.h\<close> and its life cycle: statuses and options as datatypes,
  \<open>pbqp_problem_t\<close> and its nodes and edges as records, construction, cloning, the checked
  \<open>pbqp_add_node\<close> and \<open>pbqp_add_edge\<close>, evaluation and the brute-force oracle.

  \<^item> A pointer argument is an option, \<open>None\<close> the null pointer; an array behind a pointer is a list.
  \<^item> \<open>unsigned\<close> capacities, counts and subscripts are natural numbers. Subscript products are at
    most \<open>domain_capacity\<^sup>2\<close>, which \<open>pbqp_wf\<close> keeps below \<open>2 ^ 32\<close>.
  \<^item> The flat \<open>reconstruction\<close> array is the list of its rows, row \<open>n\<close> being
    \<open>Reconstruction(problem, n)\<close>.
  \<^item> An allocator is an option: \<open>None\<close> when a function pointer is missing, \<open>Some grants\<close> when
    \<open>allocate\<close> answers a request of a given size with memory exactly if \<open>grants\<close> holds.
\<close>

section \<open>Types of \<open>pbqp.h\<close>\<close>

datatype pbqp_status =
    PBQP_OK | PBQP_CAPACITY_ERROR | PBQP_ARGUMENT_ERROR | PBQP_COST_RANGE_ERROR | PBQP_IRREDUCIBLE
  | PBQP_SEARCH_LIMIT | PBQP_PRUNED | PBQP_KERNEL_ERROR

datatype pbqp_mode = PBQP_MODE_SOFTWARE | PBQP_MODE_ACCELERATOR

datatype pbqp_solver_strategy =
    PBQP_STRATEGY_REDUCE_ONLY | PBQP_STRATEGY_HEURISTIC_RN
  | PBQP_STRATEGY_EXACT_CORE_ENUMERATION | PBQP_STRATEGY_EXACT_BRANCH_REDUCE
  | PBQP_STRATEGY_LOCAL_SEARCH | PBQP_STRATEGY_HEURISTIC_RN_LOCAL_SEARCH

datatype pbqp_rn_policy = PBQP_RN_MIN_DEGREE | PBQP_RN_MAX_DEGREE | PBQP_RN_MIN_WORK

text \<open>The last constructor stands for the values above the enumeration, which the solver handle refuses.\<close>

datatype pbqp_rn_batching = PBQP_RN_BATCH_PER_NODE | PBQP_RN_BATCH_PER_EDGE | PBQP_RN_BATCH_INVALID

datatype reduction_kind = kReductionR0 | kReductionR1 | kReductionR2 | kReductionRN | kReductionBranch

record pbqp_node =
  nd_active :: bool
  nd_domain :: nat
  nd_unary :: "int list"
  nd_first_neighbor :: nat
  nd_second_neighbor :: nat
  nd_reduction_kind :: reduction_kind

record pbqp_edge =
  eg_active :: bool
  eg_first :: nat
  eg_second :: nat
  eg_stride :: nat
  eg_cost :: "int list"

record pbqp_problem =
  pb_allocator :: bool
  pb_storage :: bool
  pb_node_capacity :: nat
  pb_edge_capacity :: nat
  pb_domain_capacity :: nat
  pb_node_count :: nat
  pb_edge_count :: nat
  pb_nodes :: "pbqp_node list"
  pb_edges :: "pbqp_edge list"
  pb_reconstruction :: "nat list list"
  pb_objective_offset :: int
  pb_elimination_order :: "nat list"
  pb_elimination_count :: nat
  pb_statistics :: pbqp_statistics

record pbqp_solution =
  so_optimum :: int
  so_assignment :: "nat list option"
  so_assignment_capacity :: nat

abbreviation node_at :: "pbqp_problem \<Rightarrow> nat \<Rightarrow> pbqp_node" where
  "node_at p n \<equiv> pb_nodes p ! n"

abbreviation edge_at :: "pbqp_problem \<Rightarrow> nat \<Rightarrow> pbqp_edge" where
  "edge_at p e \<equiv> pb_edges p ! e"

section \<open>Life cycle\<close>

text \<open>\<open>*problem = {}\<close>.\<close>

definition empty_problem :: pbqp_problem where
  "empty_problem = \<lparr>pb_allocator = False, pb_storage = False, pb_node_capacity = 0,
     pb_edge_capacity = 0, pb_domain_capacity = 0, pb_node_count = 0, pb_edge_count = 0,
     pb_nodes = [], pb_edges = [], pb_reconstruction = [], pb_objective_offset = 0,
     pb_elimination_order = [], pb_elimination_count = 0, pb_statistics = no_statistics\<rparr>"

text \<open>The zeroed block, cut into its arrays.\<close>

definition zero_node :: "nat \<Rightarrow> pbqp_node" where
  "zero_node domain_capacity = \<lparr>nd_active = False, nd_domain = 0,
     nd_unary = replicate domain_capacity 0, nd_first_neighbor = 0, nd_second_neighbor = 0,
     nd_reduction_kind = kReductionR0\<rparr>"

definition zero_edge :: "nat \<Rightarrow> pbqp_edge" where
  "zero_edge domain_capacity = \<lparr>eg_active = False, eg_first = 0, eg_second = 0,
     eg_stride = domain_capacity, eg_cost = replicate (domain_capacity * domain_capacity) 0\<rparr>"

definition zeroed_problem :: "nat \<Rightarrow> nat \<Rightarrow> nat \<Rightarrow> pbqp_problem" where
  "zeroed_problem node_capacity edge_capacity domain_capacity =
     empty_problem\<lparr>pb_allocator := True, pb_storage := True, pb_node_capacity := node_capacity,
       pb_edge_capacity := edge_capacity, pb_domain_capacity := domain_capacity,
       pb_nodes := replicate node_capacity (zero_node domain_capacity),
       pb_edges := replicate edge_capacity (zero_edge domain_capacity),
       pb_reconstruction := replicate node_capacity (replicate (domain_capacity * domain_capacity) 0),
       pb_elimination_order := replicate node_capacity 0\<rparr>"

definition pbqp_init ::
  "pbqp_problem option \<Rightarrow> (u64 \<Rightarrow> bool) option \<Rightarrow> u32 \<Rightarrow> u32 \<Rightarrow> u32 \<Rightarrow> pbqp_status \<times> pbqp_problem option" where
  "pbqp_init problem allocator node_capacity edge_capacity domain_capacity =
     (case (problem, allocator) of
        (Some _, Some grants) \<Rightarrow>
          if node_capacity = 0 \<or> domain_capacity = 0 then (PBQP_ARGUMENT_ERROR, problem)
          else let storage_size = ProblemStorageSize node_capacity edge_capacity domain_capacity
            in if storage_size = 0 then (PBQP_CAPACITY_ERROR, Some empty_problem)
               else if \<not> grants storage_size then (PBQP_CAPACITY_ERROR, Some empty_problem)
               else (PBQP_OK, Some (zeroed_problem (unat node_capacity) (unat edge_capacity)
                       (unat domain_capacity)))
      | _ \<Rightarrow> (PBQP_ARGUMENT_ERROR, problem))"

definition pbqp_destroy :: "pbqp_problem option \<Rightarrow> pbqp_problem option" where
  "pbqp_destroy problem = map_option (\<lambda>_. empty_problem) problem"

text \<open>
  \<open>CopyStatistics\<close>: the scalars and the embedded \<open>primitive_submissions\<close> come from the source,
  each pointed-to array is copied up to its capacity.
\<close>

definition array_length :: "array_counter \<Rightarrow> nat \<Rightarrow> nat \<Rightarrow> nat" where
  "array_length a node_capacity domain_capacity =
     (case a of
        rn_degree_histogram \<Rightarrow> node_capacity + 1
      | rn_cascade_length_histogram \<Rightarrow> node_capacity + 1
      | vector_length_histogram \<Rightarrow> domain_capacity + 1
      | primitive_submissions \<Rightarrow> 9
      | _ \<Rightarrow> node_capacity)"

definition copy_statistics ::
  "pbqp_statistics \<Rightarrow> pbqp_statistics \<Rightarrow> nat \<Rightarrow> nat \<Rightarrow> pbqp_statistics" where
  "copy_statistics destination source node_capacity domain_capacity = (\<lambda>c. case c of
       Ar a i \<Rightarrow> if i < array_length a node_capacity domain_capacity then source c else destination c
     | _ \<Rightarrow> source c)"

definition pbqp_problem_clone ::
  "pbqp_problem option \<Rightarrow> pbqp_problem option \<Rightarrow> (u64 \<Rightarrow> bool) option \<Rightarrow> pbqp_status \<times> pbqp_problem option" where
  "pbqp_problem_clone destination source allocator =
     (case (destination, source) of
        (Some _, Some s) \<Rightarrow>
          if \<not> pb_storage s then (PBQP_ARGUMENT_ERROR, destination)
          else (case pbqp_init destination allocator (of_nat (pb_node_capacity s))
                  (of_nat (pb_edge_capacity s)) (of_nat (pb_domain_capacity s)) of
               (PBQP_OK, Some d) \<Rightarrow>
                 (PBQP_OK, Some (d\<lparr>pb_nodes := pb_nodes s, pb_edges := pb_edges s,
                    pb_reconstruction := pb_reconstruction s,
                    pb_elimination_order := pb_elimination_order s,
                    pb_node_count := pb_node_count s, pb_edge_count := pb_edge_count s,
                    pb_objective_offset := pb_objective_offset s,
                    pb_elimination_count := pb_elimination_count s,
                    pb_statistics := copy_statistics (pb_statistics d) (pb_statistics s)
                      (pb_node_capacity s) (pb_domain_capacity s)\<rparr>))
             | failed \<Rightarrow> failed)
      | _ \<Rightarrow> (PBQP_ARGUMENT_ERROR, destination))"

definition pbqp_solution_init ::
  "pbqp_solution option \<Rightarrow> nat list option \<Rightarrow> nat \<Rightarrow> pbqp_solution option" where
  "pbqp_solution_init solution assignment assignment_capacity =
     map_option (\<lambda>_. \<lparr>so_optimum = ACCEL_INF, so_assignment = assignment,
       so_assignment_capacity = assignment_capacity\<rparr>) solution"

section \<open>Building the graph\<close>

definition pbqp_max_finite_cost :: "pbqp_problem option \<Rightarrow> int" where
  "pbqp_max_finite_cost problem =
     (case problem of
        None \<Rightarrow> 0
      | Some p \<Rightarrow> let terms = int (pb_node_capacity p) + int (pb_edge_capacity p)
          in if terms = 0 then 0 else (ACCEL_INF - 1) div terms)"

definition IsValidCost :: "pbqp_problem \<Rightarrow> int \<Rightarrow> bool" where
  "IsValidCost p cost \<longleftrightarrow>
     (let maximum = pbqp_max_finite_cost (Some p)
      in cost = ACCEL_INF \<or> cost \<ge> - maximum \<and> cost \<le> maximum)"

definition pbqp_add_node ::
  "pbqp_problem option \<Rightarrow> nat \<Rightarrow> int list option \<Rightarrow> pbqp_status \<times> pbqp_problem option" where
  "pbqp_add_node problem domain unary =
     (case (problem, unary) of
        (Some p, Some costs) \<Rightarrow>
          if domain = 0 \<or> domain > pb_domain_capacity p then (PBQP_ARGUMENT_ERROR, problem)
          else if pb_node_count p = pb_node_capacity p then (PBQP_CAPACITY_ERROR, problem)
          else if \<exists>index \<in> {..<domain}. \<not> IsValidCost p (costs ! index)
            then (PBQP_COST_RANGE_ERROR, problem)
          else let n = pb_node_count p; node = node_at p n
            in (PBQP_OK, Some (p\<lparr>pb_node_count := n + 1,
                  pb_nodes := (pb_nodes p)[n := node\<lparr>nd_active := True, nd_domain := domain,
                    nd_unary := fold (\<lambda>index u. u[index := costs ! index]) [0..<domain] (nd_unary node)\<rparr>]\<rparr>))
      | _ \<Rightarrow> (PBQP_ARGUMENT_ERROR, problem))"

text \<open>\<open>edge_joins\<close> is the test that \<open>pbqp_add_edge\<close> and \<open>Graph::FindEdge\<close> share.\<close>

definition edge_joins :: "pbqp_edge \<Rightarrow> nat \<Rightarrow> nat \<Rightarrow> bool" where
  "edge_joins edge first second \<longleftrightarrow>
     eg_active edge \<and> (eg_first edge = first \<and> eg_second edge = second \<or>
       eg_first edge = second \<and> eg_second edge = first)"

definition first_index :: "(nat \<Rightarrow> bool) \<Rightarrow> nat \<Rightarrow> nat option" where
  "first_index P n = find P [0..<n]"

definition pbqp_add_edge ::
  "pbqp_problem option \<Rightarrow> nat \<Rightarrow> nat \<Rightarrow> int list option \<Rightarrow> pbqp_status \<times> pbqp_problem option" where
  "pbqp_add_edge problem first second costs_array =
     (case (problem, costs_array) of
        (Some p, Some costs) \<Rightarrow>
          if first \<ge> pb_node_count p \<or> second \<ge> pb_node_count p \<or> first = second
            then (PBQP_ARGUMENT_ERROR, problem)
          else if \<exists>index \<in> {..<pb_edge_capacity p}. edge_joins (edge_at p index) first second
            then (PBQP_ARGUMENT_ERROR, problem)
          else let first_domain = nd_domain (node_at p first); second_domain = nd_domain (node_at p second)
            in if \<exists>a \<in> {..<first_domain}. \<exists>b \<in> {..<second_domain}.
                    \<not> IsValidCost p (costs ! (a * second_domain + b))
                 then (PBQP_COST_RANGE_ERROR, problem)
               else (case first_index (\<lambda>index. \<not> eg_active (edge_at p index)) (pb_edge_capacity p) of
                   None \<Rightarrow> (PBQP_CAPACITY_ERROR, problem)
                 | Some index \<Rightarrow>
                     let edge = edge_at p index
                     in (PBQP_OK, Some (p\<lparr>pb_edge_count := pb_edge_count p + 1,
                           pb_edges := (pb_edges p)[index := edge\<lparr>eg_active := True,
                             eg_first := first, eg_second := second,
                             eg_cost := fold (\<lambda>(a, b) cost. cost[a * eg_stride edge + b :=
                                   costs ! (a * second_domain + b)])
                                 (List.product [0..<first_domain] [0..<second_domain])
                                 (eg_cost edge)\<rparr>]\<rparr>)))
      | _ \<Rightarrow> (PBQP_ARGUMENT_ERROR, problem))"

section \<open>Evaluation and brute force\<close>

definition pbqp_evaluate :: "pbqp_problem \<Rightarrow> nat list \<Rightarrow> int" where
  "pbqp_evaluate p assignment =
     fold (\<lambda>index sum_cost.
         let edge = edge_at p index
         in if eg_active edge
            then accel_cost_add sum_cost (eg_cost edge !
                   (assignment ! eg_first edge * eg_stride edge + assignment ! eg_second edge))
            else sum_cost)
       [0..<pb_edge_capacity p]
       (fold (\<lambda>n sum_cost. accel_cost_add sum_cost (nd_unary (node_at p n) ! (assignment ! n)))
         [0..<pb_node_count p] 0)"

text \<open>\<open>memcpy\<close> or the copying loop over the first \<open>n\<close> entries of an array.\<close>

definition copy_prefix :: "nat \<Rightarrow> 'a list \<Rightarrow> 'a list \<Rightarrow> 'a list" where
  "copy_prefix n source destination = take n source @ drop n destination"

text \<open>
  \<open>Enumerate\<close> for the node \<open>node_count - remaining\<close>; the state is the assignment, the optimum and
  assignment of the solution and \<open>has_assignment\<close>.
\<close>

type_synonym enumeration = "nat list \<times> (int \<times> nat list) \<times> bool"

primrec Enumerate :: "nat \<Rightarrow> pbqp_problem \<Rightarrow> enumeration \<Rightarrow> enumeration" where
  "Enumerate 0 p st =
     (case st of (assignment, solution, has_assignment) \<Rightarrow>
        let v = pbqp_evaluate p assignment
        in if \<not> has_assignment \<or> v < fst solution
           then (assignment, (v, copy_prefix (pb_node_count p) assignment (snd solution)), True)
           else st)"
| "Enumerate (Suc remaining) p st =
     (let node = pb_node_count p - Suc remaining
      in fold (\<lambda>choice (assignment, rest). Enumerate remaining p (assignment[node := choice], rest))
           [0..<nd_domain (node_at p node)] st)"

definition pbqp_bruteforce ::
  "(u64 \<Rightarrow> bool) option \<Rightarrow> pbqp_problem option \<Rightarrow> pbqp_solution option \<Rightarrow> pbqp_status \<times> pbqp_solution option" where
  "pbqp_bruteforce allocator problem solution =
     (case (problem, solution) of
        (Some p, Some s) \<Rightarrow>
          (case so_assignment s of
             None \<Rightarrow> (PBQP_ARGUMENT_ERROR, solution)
           | Some out \<Rightarrow>
               if so_assignment_capacity s < pb_node_count p then (PBQP_ARGUMENT_ERROR, solution)
               else if pb_node_count p = 0 \<or>
                       (case allocator of None \<Rightarrow> True | Some grants \<Rightarrow> \<not> grants (of_nat (pb_node_count p) * 4))
                 then (PBQP_CAPACITY_ERROR, solution)
               else let result = fst (snd (Enumerate (pb_node_count p) p
                          (replicate (pb_node_count p) 0, (ACCEL_INF, out), False)))
                 in (PBQP_OK, Some (s\<lparr>so_optimum := fst result, so_assignment := Some (snd result)\<rparr>)))
      | _ \<Rightarrow> (PBQP_ARGUMENT_ERROR, solution))"

end
