(* ===== verification/Pbqp_Kernel.thy ===== *)
theory Pbqp_Kernel
  imports Pbqp_Problem
begin

text \<open>
  The cost-kernel boundary of the PBQP solver: the strided views, the table of function pointers
  \<open>pbqp_cost_kernel_t\<close>, the wrapper class \<open>CostKernel\<close> with its fall-backs, and the software kernel
  of \<open>software/pbqp/pbqp.cpp\<close>.

  \<^item> A view is the array its \<open>base\<close> points into, the offset of \<open>base\<close> in it, a length and a
    stride.
  \<^item> A kernel function pointer is an option. The function gets the kernel's own context \<open>'k\<close> and
    the statistics that \<open>set_statistics\<close> last selected (those of the graph being solved), and returns
    either \<open>Inl status\<close> (nonzero; the caller reads no result then) or \<open>Inr\<close> the results it stored.
    A kernel without \<open>set_statistics\<close>, like the software kernel, leaves those statistics alone.
  \<^item> The jobs of one \<open>project_add_batch\<close> call of the solver share one score vector, which is an
    argument and the result of the call.
\<close>

section \<open>Views and jobs\<close>

record pbqp_vector_view =
  kv_base :: "int list"
  kv_offset :: nat
  kv_length :: nat
  kv_stride :: nat

record pbqp_matrix_view =
  km_base :: "int list"
  km_rows :: nat
  km_columns :: nat
  km_row_stride :: nat
  km_column_stride :: nat

definition view_at :: "pbqp_vector_view \<Rightarrow> nat \<Rightarrow> int" where
  "view_at v i = kv_base v ! (kv_offset v + i * kv_stride v)"

definition matrix_at :: "pbqp_matrix_view \<Rightarrow> nat \<Rightarrow> nat \<Rightarrow> int" where
  "matrix_at m r c = km_base m ! (r * km_row_stride m + c * km_column_stride m)"

definition whole_view :: "int list \<Rightarrow> nat \<Rightarrow> pbqp_vector_view" where
  "whole_view xs len = \<lparr>kv_base = xs, kv_offset = 0, kv_length = len, kv_stride = 1\<rparr>"

type_synonym pbqp_min2_job = "pbqp_vector_view \<times> pbqp_vector_view"
type_synonym pbqp_min3_job = "pbqp_vector_view \<times> pbqp_vector_view \<times> pbqp_vector_view"
type_synonym pbqp_project_add_job = "pbqp_matrix_view \<times> pbqp_vector_view"
type_synonym pbqp_map3_project_job = "pbqp_vector_view \<times> pbqp_vector_view \<times> pbqp_matrix_view"
type_synonym min_argmin = "int \<times> nat"
type_synonym ('k, 'r) kernel_call = "'k \<Rightarrow> pbqp_statistics \<Rightarrow> (int + 'r) \<times> 'k \<times> pbqp_statistics"

record 'k pbqp_cost_kernel =
  min2_argmin :: "(pbqp_vector_view \<Rightarrow> pbqp_vector_view \<Rightarrow> ('k, min_argmin) kernel_call) option"
  min3_argmin :: "(pbqp_vector_view \<Rightarrow> pbqp_vector_view \<Rightarrow> pbqp_vector_view \<Rightarrow> ('k, min_argmin) kernel_call) option"
  min2_argmin_batch :: "(pbqp_min2_job list \<Rightarrow> ('k, min_argmin list) kernel_call) option"
  min3_argmin_batch :: "(pbqp_min3_job list \<Rightarrow> ('k, min_argmin list) kernel_call) option"
  min2_value :: "(pbqp_vector_view \<Rightarrow> pbqp_vector_view \<Rightarrow> ('k, int) kernel_call) option"
  min2_value_batch :: "(pbqp_min2_job list \<Rightarrow> ('k, int list) kernel_call) option"
  cost_add_vector :: "(pbqp_vector_view \<Rightarrow> pbqp_vector_view \<Rightarrow> ('k, int list) kernel_call) option"
  minplus_project :: "(pbqp_matrix_view \<Rightarrow> pbqp_vector_view \<Rightarrow> ('k, int list) kernel_call) option"
  minplus_map3_project ::
    "(pbqp_vector_view \<Rightarrow> pbqp_vector_view \<Rightarrow> pbqp_matrix_view \<Rightarrow> ('k, min_argmin list) kernel_call) option"
  project_add_batch :: "(pbqp_project_add_job list \<Rightarrow> int list \<Rightarrow> ('k, int list) kernel_call) option"
  map3_project_batch :: "(pbqp_map3_project_job list \<Rightarrow> ('k, min_argmin list) kernel_call) option"

section \<open>The wrapper class\<close>

text \<open>
  The state of \<open>CostKernel\<close>: the kernel's context, the statistics in use and \<open>*last_status_\<close>.
\<close>

record 'k kernel_state =
  ks_context :: 'k
  ks_statistics :: pbqp_statistics
  ks_last_status :: int

definition Record :: "('k, 'r) kernel_call \<Rightarrow> 'k kernel_state \<Rightarrow> (int + 'r) \<times> 'k kernel_state" where
  "Record call ks =
     (case call (ks_context ks) (ks_statistics ks) of
        (result, context, stats) \<Rightarrow>
          (result, ks\<lparr>ks_context := context, ks_statistics := stats,
             ks_last_status := (case result of Inl status \<Rightarrow> status | Inr _ \<Rightarrow> ks_last_status ks)\<rparr>))"

fun each_job :: "('j \<Rightarrow> 's \<Rightarrow> (int + 'r) \<times> 's) \<Rightarrow> 'j list \<Rightarrow> 's \<Rightarrow> (int + 'r list) \<times> 's" where
  "each_job run [] s = (Inr [], s)"
| "each_job run (job # jobs) s =
     (case run job s of
        (Inl status, s') \<Rightarrow> (Inl status, s')
      | (Inr r, s') \<Rightarrow>
          (case each_job run jobs s' of
             (Inl status, s'') \<Rightarrow> (Inl status, s'')
           | (Inr rs, s'') \<Rightarrow> (Inr (r # rs), s'')))"

definition Min2 ::
  "'k pbqp_cost_kernel \<Rightarrow> pbqp_min2_job \<Rightarrow> 'k kernel_state \<Rightarrow> (int + min_argmin) \<times> 'k kernel_state" where
  "Min2 api job = (case job of (a, b) \<Rightarrow> Record (the (min2_argmin api) a b))"

definition Min3 ::
  "'k pbqp_cost_kernel \<Rightarrow> pbqp_min3_job \<Rightarrow> 'k kernel_state \<Rightarrow> (int + min_argmin) \<times> 'k kernel_state" where
  "Min3 api job = (case job of (a, b, c) \<Rightarrow> Record (the (min3_argmin api) a b c))"

definition Min2Batch ::
  "'k pbqp_cost_kernel \<Rightarrow> pbqp_min2_job list \<Rightarrow> 'k kernel_state \<Rightarrow> (int + min_argmin list) \<times> 'k kernel_state" where
  "Min2Batch api jobs =
     (case min2_argmin_batch api of Some batch \<Rightarrow> Record (batch jobs) | None \<Rightarrow> each_job (Min2 api) jobs)"

definition Min3Batch ::
  "'k pbqp_cost_kernel \<Rightarrow> pbqp_min3_job list \<Rightarrow> 'k kernel_state \<Rightarrow> (int + min_argmin list) \<times> 'k kernel_state" where
  "Min3Batch api jobs =
     (case min3_argmin_batch api of Some batch \<Rightarrow> Record (batch jobs) | None \<Rightarrow> each_job (Min3 api) jobs)"

definition Min2Value ::
  "'k pbqp_cost_kernel \<Rightarrow> pbqp_min2_job \<Rightarrow> 'k kernel_state \<Rightarrow> (int + int) \<times> 'k kernel_state" where
  "Min2Value api job ks =
     (case min2_value api of
        Some call \<Rightarrow> (case job of (a, b) \<Rightarrow> Record (call a b) ks)
      | None \<Rightarrow> (case Min2 api job ks of
            (Inl status, ks') \<Rightarrow> (Inl status, ks') | (Inr argmin, ks') \<Rightarrow> (Inr (fst argmin), ks')))"

definition Min2ValueBatch ::
  "'k pbqp_cost_kernel \<Rightarrow> pbqp_min2_job list \<Rightarrow> 'k kernel_state \<Rightarrow> (int + int list) \<times> 'k kernel_state" where
  "Min2ValueBatch api jobs =
     (case min2_value_batch api of
        Some batch \<Rightarrow> Record (batch jobs) | None \<Rightarrow> each_job (Min2Value api) jobs)"

definition ProjectAddBatch ::
  "'k pbqp_cost_kernel \<Rightarrow> pbqp_project_add_job list \<Rightarrow> int list \<Rightarrow> 'k kernel_state \<Rightarrow>
     (int + int list) \<times> 'k kernel_state" where
  "ProjectAddBatch api jobs scores =
     (case project_add_batch api of
        Some batch \<Rightarrow> Record (batch jobs scores) | None \<Rightarrow> Record (\<lambda>k s. (Inl (- 1), k, s)))"

definition Map3ProjectBatch ::
  "'k pbqp_cost_kernel \<Rightarrow> pbqp_map3_project_job list \<Rightarrow> 'k kernel_state \<Rightarrow>
     (int + min_argmin list) \<times> 'k kernel_state" where
  "Map3ProjectBatch api jobs =
     (case map3_project_batch api of
        Some batch \<Rightarrow> Record (batch jobs) | None \<Rightarrow> Record (\<lambda>k s. (Inl (- 1), k, s)))"

section \<open>The software kernel\<close>

text \<open>
  Each function as a partial function on views: \<open>None\<close> is the return value \<open>-1\<close>. \<open>min_loop\<close> is the
  loop that starts from \<open>{ACCEL_INF, 0}\<close> and keeps the first minimum.
\<close>

definition SoftwareMin2 :: "pbqp_vector_view \<Rightarrow> pbqp_vector_view \<Rightarrow> min_argmin option" where
  "SoftwareMin2 first second =
     min_loop (\<lambda>index. cost_add (view_at first index) (view_at second index)) (kv_length first)"

definition SoftwareMin3 ::
  "pbqp_vector_view \<Rightarrow> pbqp_vector_view \<Rightarrow> pbqp_vector_view \<Rightarrow> min_argmin option" where
  "SoftwareMin3 first second third =
     min_loop (\<lambda>index. case cost_add (view_at first index) (view_at second index) of
         None \<Rightarrow> None | Some sum_cost \<Rightarrow> cost_add sum_cost (view_at third index)) (kv_length first)"

definition SoftwareMin2Value :: "pbqp_vector_view \<Rightarrow> pbqp_vector_view \<Rightarrow> int option" where
  "SoftwareMin2Value first second =
     map_option fst (min_loop (\<lambda>index. cost_add (view_at first index) (view_at second index))
       (kv_length first))"

fun map_jobs :: "('j \<Rightarrow> 'r option) \<Rightarrow> 'j list \<Rightarrow> 'r list option" where
  "map_jobs run [] = Some []"
| "map_jobs run (job # jobs) =
     (case run job of
        None \<Rightarrow> None
      | Some r \<Rightarrow> (case map_jobs run jobs of None \<Rightarrow> None | Some rs \<Rightarrow> Some (r # rs)))"

definition SoftwareMin2Batch :: "pbqp_min2_job list \<Rightarrow> min_argmin list option" where
  "SoftwareMin2Batch = map_jobs (\<lambda>(a, b). SoftwareMin2 a b)"

definition SoftwareMin2ValueBatch :: "pbqp_min2_job list \<Rightarrow> int list option" where
  "SoftwareMin2ValueBatch = map_jobs (\<lambda>(a, b). SoftwareMin2Value a b)"

definition SoftwareMin3Batch :: "pbqp_min3_job list \<Rightarrow> min_argmin list option" where
  "SoftwareMin3Batch = map_jobs (\<lambda>(a, b, c). SoftwareMin3 a b c)"

text \<open>
  \<open>SoftwareCostAddVector\<close> checks every sum before it stores the first one. Its only caller passes
  the destination as the second operand, so each sum is stored where it was read.
\<close>

definition SoftwareCostAddVector :: "pbqp_vector_view \<Rightarrow> pbqp_vector_view \<Rightarrow> int list option" where
  "SoftwareCostAddVector first second =
     (if kv_length first \<noteq> kv_length second then None
      else map_jobs (\<lambda>index. cost_add (view_at first index) (view_at second index)) [0..<kv_length first])"

definition SoftwareMinplusProject :: "pbqp_matrix_view \<Rightarrow> pbqp_vector_view \<Rightarrow> int list option" where
  "SoftwareMinplusProject matrix vector =
     (if km_columns matrix \<noteq> kv_length vector then None
      else map_jobs (\<lambda>out. map_option fst
               (min_loop (\<lambda>inner. cost_add (matrix_at matrix out inner) (view_at vector inner)) (km_columns matrix)))
             [0..<km_rows matrix])"

definition SoftwareMap3Project ::
  "pbqp_vector_view \<Rightarrow> pbqp_vector_view \<Rightarrow> pbqp_matrix_view \<Rightarrow> min_argmin list option" where
  "SoftwareMap3Project unary fixed_edge varying_edge =
     (if kv_length unary \<noteq> kv_length fixed_edge \<or> kv_length unary \<noteq> km_columns varying_edge then None
      else map_jobs (\<lambda>out. min_loop (\<lambda>inner.
               case cost_add (view_at unary inner) (view_at fixed_edge inner) of
                 None \<Rightarrow> None | Some sum_cost \<Rightarrow> cost_add sum_cost (matrix_at varying_edge out inner))
               (kv_length unary))
             [0..<km_rows varying_edge])"

definition SoftwareProjectAddBatch :: "pbqp_project_add_job list \<Rightarrow> int list \<Rightarrow> int list option" where
  "SoftwareProjectAddBatch jobs scores =
     fold_option (\<lambda>(matrix, unary) scores.
         case SoftwareMinplusProject matrix unary of
           None \<Rightarrow> None
         | Some temporary \<Rightarrow>
             (case SoftwareCostAddVector (whole_view temporary (km_rows matrix))
                     (whole_view scores (km_rows matrix)) of
                None \<Rightarrow> None
              | Some sums \<Rightarrow> Some (copy_prefix (km_rows matrix) sums scores)))
       jobs scores"

definition SoftwareMap3ProjectBatch :: "pbqp_map3_project_job list \<Rightarrow> min_argmin list option" where
  "SoftwareMap3ProjectBatch jobs =
     map_option concat (map_jobs (\<lambda>(unary, fixed_edge, varying_edge).
       SoftwareMap3Project unary fixed_edge varying_edge) jobs)"

text \<open>The table that \<open>pbqp_make_software_kernel\<close> fills: \<open>-1\<close> on failure, no statistics touched.\<close>

definition software_call :: "'r option \<Rightarrow> ('k, 'r) kernel_call" where
  "software_call result k s = ((case result of None \<Rightarrow> Inl (- 1) | Some r \<Rightarrow> Inr r), k, s)"

definition pbqp_make_software_kernel :: "'k pbqp_cost_kernel" where
  "pbqp_make_software_kernel =
     \<lparr>min2_argmin = Some (\<lambda>a b. software_call (SoftwareMin2 a b)),
      min3_argmin = Some (\<lambda>a b c. software_call (SoftwareMin3 a b c)),
      min2_argmin_batch = Some (\<lambda>jobs. software_call (SoftwareMin2Batch jobs)),
      min3_argmin_batch = Some (\<lambda>jobs. software_call (SoftwareMin3Batch jobs)),
      min2_value = Some (\<lambda>a b. software_call (SoftwareMin2Value a b)),
      min2_value_batch = Some (\<lambda>jobs. software_call (SoftwareMin2ValueBatch jobs)),
      cost_add_vector = Some (\<lambda>a b. software_call (SoftwareCostAddVector a b)),
      minplus_project = Some (\<lambda>m v. software_call (SoftwareMinplusProject m v)),
      minplus_map3_project = Some (\<lambda>u f v. software_call (SoftwareMap3Project u f v)),
      project_add_batch = Some (\<lambda>jobs scores. software_call (SoftwareProjectAddBatch jobs scores)),
      map3_project_batch = Some (\<lambda>jobs. software_call (SoftwareMap3ProjectBatch jobs))\<rparr>"

end
