(* ===== verification/Model_Kernel.thy ===== *)
theory Model_Kernel
  imports Systemc_Correct Pbqp_Kernel
begin

text \<open>
  The hosted cost kernel of \<open>tools/pbqp_model_kernel.cpp\<close>: every call of the PBQP solver copies its
  operands into guest memory, submits the commands as one batch through the SystemC adapter, waits and
  reads the results back. The model is that of the functional accelerator; the L2 branch of the class is
  left out.

  \<^item> The context is the record \<open>model_kernel\<close>; the guest memory \<open>memory_\<close> is the memory of the accelerator
    behind the device, as in the constructor. The statistics that \<open>set_statistics\<close> selected are the
    statistics argument of a kernel call.
  \<^item> \<open>kernel_environment\<close> holds what the class gets from outside: whether guest memory can grow and the
    host can hold an encoded stream, the timing configuration, and the addresses of the caller's arrays,
    which are the keys of the view cache. \<open>ke_address k i v\<close> is the address of the \<open>i\<close>-th view of the call
    on context \<open>k\<close>, and \<open>ke_scores k\<close> that of the score vector.
  \<^item> A call returns \<open>Inl\<close> the nonzero status code or \<open>Inr\<close> what it stored. Host allocations of the local
    command vectors and the messages on the error stream are not modelled.
\<close>

section \<open>State\<close>

record cycle_breakdown =
  cb_descriptor :: u64
  cb_operands :: u64
  cb_compute :: u64
  cb_result :: u64
  cb_total :: u64
  cb_descriptors :: u64

record vector_cycle_projection =
  vc_project_scalar :: cycle_breakdown
  vc_project_vector :: cycle_breakdown
  vc_map3_scalar :: cycle_breakdown
  vc_map3_partial :: cycle_breakdown
  vc_map3_full :: cycle_breakdown

type_synonym view_key = "nat \<times> nat \<times> nat"

record model_kernel =
  mk_staging_status :: pcaa_status
  mk_view_cache :: "view_key \<rightharpoonup> u64"
  mk_cycles :: vector_cycle_projection
  mk_device :: "guest_memory_state accelerator systemc_device"

record 't kernel_environment =
  ke_grow :: "nat \<Rightarrow> bool"
  ke_host_grants :: "nat \<Rightarrow> bool"
  ke_timing :: "'t accel_timing_config"
  ke_zero_time :: 't
  ke_address :: "model_kernel \<Rightarrow> nat \<Rightarrow> pbqp_vector_view \<Rightarrow> nat"
  ke_scores :: "model_kernel \<Rightarrow> nat"

definition mk_memory :: "model_kernel \<Rightarrow> guest_memory_state" where
  "mk_memory k = ac_memory (sd_world (mk_device k))"

definition set_memory :: "guest_memory_state \<Rightarrow> model_kernel \<Rightarrow> model_kernel" where
  "set_memory m k = k\<lparr>mk_device := (mk_device k)\<lparr>sd_world := (sd_world (mk_device k))\<lparr>ac_memory := m\<rparr>\<rparr>\<rparr>"

primrec status_code :: "pcaa_status \<Rightarrow> int" where
  "status_code PCAA_STATUS_OK = 0"
| "status_code PCAA_STATUS_INVALID_ARGUMENT = 1"
| "status_code PCAA_STATUS_INVALID_COMMAND = 2"
| "status_code PCAA_STATUS_RANGE = 3"
| "status_code PCAA_STATUS_BUSY = 4"
| "status_code PCAA_STATUS_NO_PENDING = 5"
| "status_code PCAA_STATUS_NO_SPACE = 6"
| "status_code PCAA_STATUS_MEMORY_ERROR = 7"
| "status_code PCAA_STATUS_TRANSPORT_ERROR = 8"
| "status_code PCAA_STATUS_DEVICE_ERROR = 9"

section \<open>Projected cycles\<close>

definition round_up_div :: "u64 \<Rightarrow> u64 \<Rightarrow> u64" where
  "round_up_div v divisor = (v + divisor - 1) div divisor"

abbreviation (input) kTimedRunnerLanes :: u64 where "kTimedRunnerLanes \<equiv> 4"
abbreviation (input) kTimedRunnerBytesPerCycle :: u64 where "kTimedRunnerBytesPerCycle \<equiv> 16"

definition record_cycles :: "u64 \<Rightarrow> u64 \<Rightarrow> u64 \<Rightarrow> u64 \<Rightarrow> cycle_breakdown \<Rightarrow> cycle_breakdown" where
  "record_cycles descriptor_bytes operand_count compute_chunks stored_bytes b =
     (let descriptor = round_up_div descriptor_bytes kTimedRunnerBytesPerCycle;
          operands = round_up_div (operand_count * 4) kTimedRunnerBytesPerCycle;
          result = round_up_div stored_bytes kTimedRunnerBytesPerCycle
      in b\<lparr>cb_descriptor := cb_descriptor b + descriptor, cb_operands := cb_operands b + operands,
           cb_compute := cb_compute b + compute_chunks, cb_result := cb_result b + result,
           cb_total := cb_total b + descriptor + max operands compute_chunks + result,
           cb_descriptors := cb_descriptors b + 1\<rparr>)"

definition view_key :: "nat \<Rightarrow> pbqp_vector_view \<Rightarrow> view_key" where
  "view_key address v = (address, kv_length v, kv_stride v)"

text \<open>
  The groups of \<open>record_project_cycle_projection\<close>: operand elements, compute chunks and outputs per unary
  view. The source keeps them in a map ordered by address; the order does not change the sums.
\<close>

fun add_to_group :: "view_key \<Rightarrow> u64 \<Rightarrow> u64 \<Rightarrow> (view_key \<times> u64 \<times> u64 \<times> u64) list \<Rightarrow> (view_key \<times> u64 \<times> u64 \<times> u64) list" where
  "add_to_group key unary len [] = [(key, unary + len, round_up_div len kTimedRunnerLanes, 1)]"
| "add_to_group key unary len ((key', operands, chunks, outputs) # groups) =
     (if key = key' then (key', operands + len, chunks + round_up_div len kTimedRunnerLanes, outputs + 1) # groups
      else (key', operands, chunks, outputs) # add_to_group key unary len groups)"

definition record_project_cycle_projection ::
  "(nat \<Rightarrow> pbqp_vector_view \<Rightarrow> nat) \<Rightarrow> pbqp_min2_job list \<Rightarrow> vector_cycle_projection \<Rightarrow> vector_cycle_projection" where
  "record_project_cycle_projection address jobs vc =
     (let scalar = fold (\<lambda>(matrix, unary). record_cycles 32 (2 * of_nat (kv_length matrix))
            (round_up_div (of_nat (kv_length matrix)) kTimedRunnerLanes) 4) jobs (vc_project_scalar vc);
          groups = fold (\<lambda>(index, matrix, unary). add_to_group (view_key (address (2 * index + 1) unary) unary)
            (of_nat (kv_length unary)) (of_nat (kv_length matrix))) (enumerate 0 jobs) [];
          vector = fold (\<lambda>(key, operands, chunks, outputs). record_cycles 48 operands chunks (outputs * 4)) groups
            (vc_project_vector vc)
      in vc\<lparr>vc_project_scalar := scalar, vc_project_vector := vector\<rparr>)"

text \<open>\<open>emplace\<close> into a map from views to lengths: the first entry of a key stays.\<close>

definition emplace_slice :: "view_key \<Rightarrow> u64 \<Rightarrow> (view_key \<times> u64) list \<Rightarrow> (view_key \<times> u64) list" where
  "emplace_slice key len slices = (if key \<in> set (map fst slices) then slices else slices @ [(key, len)])"

definition record_map3_cycle_projection ::
  "(nat \<Rightarrow> pbqp_vector_view \<Rightarrow> nat) \<Rightarrow> pbqp_min3_job list \<Rightarrow> vector_cycle_projection \<Rightarrow> vector_cycle_projection" where
  "record_map3_cycle_projection address jobs vc =
     (case jobs of
        [] \<Rightarrow> vc
      | (a0, _, _) # _ \<Rightarrow>
          let scalar = fold (\<lambda>(a, b, c). record_cycles 48 (3 * of_nat (kv_length a))
                (round_up_div (of_nat (kv_length a)) kTimedRunnerLanes) 8) jobs (vc_map3_scalar vc);
              firsts = fold (\<lambda>(index, a, b, c). emplace_slice (view_key (address (3 * index + 1) b) b) (of_nat (kv_length a)))
                (enumerate 0 jobs) [];
              seconds = fold (\<lambda>(index, a, b, c). emplace_slice (view_key (address (3 * index + 2) c) c) (of_nat (kv_length a)))
                (enumerate 0 jobs) [];
              chunks = round_up_div (of_nat (kv_length a0)) kTimedRunnerLanes;
              second_elements = sum_list (map snd seconds); first_elements = sum_list (map snd firsts);
              partial = fold (\<lambda>(key, len). record_cycles 64 (of_nat (kv_length a0) + len + second_elements)
                (of_nat (length seconds) * chunks) (of_nat (length seconds) * 8)) firsts (vc_map3_partial vc);
              full = record_cycles 64 (of_nat (kv_length a0) + first_elements + second_elements)
                (of_nat (length jobs) * chunks) (of_nat (length jobs) * 8) (vc_map3_full vc)
          in vc\<lparr>vc_map3_scalar := scalar, vc_map3_partial := partial, vc_map3_full := full\<rparr>)"

definition record_vector_project_projection ::
  "pbqp_project_add_job list \<Rightarrow> vector_cycle_projection \<Rightarrow> vector_cycle_projection" where
  "record_vector_project_projection =
     fold (\<lambda>(matrix, unary) vc.
       let columns = of_nat (km_columns matrix); rows = of_nat (km_rows matrix); chunks = round_up_div columns kTimedRunnerLanes
       in vc\<lparr>vc_project_scalar := (record_cycles 32 (2 * columns) chunks 4 ^^ km_rows matrix) (vc_project_scalar vc),
             vc_project_vector := record_cycles 48 (columns * (rows + 1)) (rows * chunks) (rows * 4) (vc_project_vector vc)\<rparr>)"

definition record_vector_map3_projection ::
  "pbqp_map3_project_job list \<Rightarrow> vector_cycle_projection \<Rightarrow> vector_cycle_projection" where
  "record_vector_map3_projection jobs vc =
     (let (vc1, operands, all_chunks, results) =
        fold (\<lambda>(unary, fixed, varying) (vc, operands, all_chunks, results).
            let columns = of_nat (km_columns varying); rows = of_nat (km_rows varying); chunks = round_up_div columns kTimedRunnerLanes
            in (vc\<lparr>vc_map3_scalar := (record_cycles 48 (3 * columns) chunks 8 ^^ km_rows varying) (vc_map3_scalar vc),
                  vc_map3_partial := record_cycles 64 (columns * (rows + 2)) (rows * chunks) (rows * 8) (vc_map3_partial vc)\<rparr>,
                operands + columns * (rows + 1), all_chunks + rows * chunks, results + rows * 8))
          jobs (vc, 0, 0, 0)
      in if jobs = [] then vc1
         else vc1\<lparr>vc_map3_full := record_cycles 64 operands all_chunks results (vc_map3_full vc1)\<rparr>)"

section \<open>Staging\<close>

definition begin_batch :: "model_kernel \<Rightarrow> model_kernel" where
  "begin_batch k = (set_memory (gm_reset (mk_memory k)) k)\<lparr>mk_view_cache := Map.empty, mk_staging_status := PCAA_STATUS_OK\<rparr>"

definition device_allocate :: "'t kernel_environment \<Rightarrow> guest_memory_state \<Rightarrow> nat \<Rightarrow> u64 \<times> guest_memory_state" where
  "device_allocate env m bytes = gm_allocate (ke_grow env) m (of_nat bytes) kAllocationAlignment"

definition allocate_storage :: "'t kernel_environment \<Rightarrow> u64 \<Rightarrow> model_kernel \<Rightarrow> u64 \<times> model_kernel" where
  "allocate_storage env bytes k =
     (case gm_allocate (ke_grow env) (mk_memory k) bytes kAllocationAlignment of
        (address, m) \<Rightarrow>
          (address, (set_memory m k)\<lparr>mk_staging_status :=
             if address = 0 \<and> mk_staging_status k = PCAA_STATUS_OK then PCAA_STATUS_NO_SPACE else mk_staging_status k\<rparr>))"

text \<open>The loop of writes of one cost each, up to the first failure.\<close>

fun write_costs :: "(u64 \<times> int) list \<Rightarrow> guest_memory_state \<Rightarrow> bool \<times> guest_memory_state" where
  "write_costs [] m = (True, m)"
| "write_costs ((address, v) # ws) m =
     (case gm_write m address (i32_bytes v) of (ok, m') \<Rightarrow> if \<not> ok then (False, m') else write_costs ws m')"

definition copy_view :: "'t kernel_environment \<Rightarrow> nat \<Rightarrow> pbqp_vector_view \<Rightarrow> model_kernel \<Rightarrow> u64 \<times> model_kernel" where
  "copy_view env base view k =
     (let key = view_key base view
      in case mk_view_cache k key of
           Some address \<Rightarrow> (address, k)
         | None \<Rightarrow>
             if int (kv_length view) > 18446744073709551615 div 4 then (0, k\<lparr>mk_staging_status := PCAA_STATUS_RANGE\<rparr>)
             else (case allocate_storage env (of_nat (kv_length view) * 4) k of
                 (address, k1) \<Rightarrow>
                   if address = 0 then (0, k1)
                   else (case write_costs (map (\<lambda>index. (address + of_nat index * 4, view_at view index)) [0..<kv_length view])
                           (mk_memory k1) of
                       (ok, m) \<Rightarrow>
                         if \<not> ok then (0, (set_memory m k1)\<lparr>mk_staging_status := PCAA_STATUS_MEMORY_ERROR\<rparr>)
                         else (address, (set_memory m k1)\<lparr>mk_view_cache := (mk_view_cache k1)(key \<mapsto> address)\<rparr>))))"

definition copy_matrix :: "'t kernel_environment \<Rightarrow> pbqp_matrix_view \<Rightarrow> model_kernel \<Rightarrow> u64 \<times> model_kernel" where
  "copy_matrix env matrix k =
     (case allocate_storage env (of_nat (km_rows matrix) * of_nat (km_columns matrix) * 4) k of
        (address, k1) \<Rightarrow>
          if address = 0 then (0, k1)
          else (case write_costs (map (\<lambda>(row, column). (address + (of_nat row * of_nat (km_columns matrix) + of_nat column) * 4,
                       matrix_at matrix row column)) (List.product [0..<km_rows matrix] [0..<km_columns matrix])) (mk_memory k1) of
              (ok, m) \<Rightarrow>
                if \<not> ok then (0, (set_memory m k1)\<lparr>mk_staging_status := PCAA_STATUS_MEMORY_ERROR\<rparr>)
                else (address, set_memory m k1)))"

section \<open>Submission\<close>

definition record_batch_submission :: "pcaa_command list \<Rightarrow> nat \<Rightarrow> pbqp_statistics \<Rightarrow> pbqp_statistics" where
  "record_batch_submission commands child_bytes s =
     (let command_count = length commands mod 2 ^ 32;
          s1 = bumps [(Sb top_level_submissions, 1), (Sb batch_submissions, 1), (Sb batch_primitive_descriptors, command_count)] s;
          s2 = (if command_count > s1 (Sb maximum_batch_size) then s1(Sb maximum_batch_size := command_count) else s1);
          s3 = bumps [(Sb batch_descriptor_bytes, ACCEL_BATCH_COMMAND_BYTES + child_bytes),
             (Sb batch_child_descriptor_bytes, child_bytes)] s2
      in fold (\<lambda>command s.
           case command of
             PCAA_COST_ADD_VECTOR add \<Rightarrow>
               bumps [(Sb vector_add_dst_src0, of_bool (alias0 add)), (Sb vector_add_dst_src1, of_bool (alias1 add)),
                 (Sb vector_add_inplace_descriptors, of_bool (alias0 add \<or> alias1 add)),
                 (Sb vector_add_general_descriptors, of_bool (\<not> alias0 add \<and> \<not> alias1 add))] s
           | _ \<Rightarrow> s) commands s3)"

definition model_device :: "'t kernel_environment \<Rightarrow> (guest_memory_state accelerator systemc_device) pcaa_device" where
  "model_device env = systemc_callbacks (ke_host_grants env)
     (accelerator_target gm_interface (ke_timing env) (ke_zero_time env) (device_allocate env))"

definition mk_submit_batch ::
  "'t kernel_environment \<Rightarrow> pcaa_command list \<Rightarrow> model_kernel \<Rightarrow> pbqp_statistics \<Rightarrow> pcaa_status \<times> model_kernel \<times> pbqp_statistics" where
  "mk_submit_batch env commands k s =
     (case pcaa_encoded_stream_size (Some commands) (Some 0) of
        (measured, child_bytes) \<Rightarrow>
          if measured \<noteq> PCAA_STATUS_OK then (measured, k, s)
          else (case pcaa_device_submit_batch (Some (model_device env)) (mk_device k) (Some commands) of
              (submitted, d1) \<Rightarrow>
                if submitted \<noteq> PCAA_STATUS_OK then (submitted, k\<lparr>mk_device := d1\<rparr>, s)
                else (case pcaa_device_wait (Some (model_device env)) d1 (Some reset_completion) of
                    (completed, d2, _) \<Rightarrow>
                      (completed, k\<lparr>mk_device := d2\<rparr>, record_batch_submission commands (the child_bytes) s))))"

section \<open>The kernel functions\<close>

text \<open>
  The loop over the jobs of a call: \<open>stage\<close> copies the operands of one job, allocates its result and
  builds its commands.
\<close>

type_synonym 'j stager = "nat \<Rightarrow> 'j \<Rightarrow> model_kernel \<Rightarrow> (int + pcaa_command list \<times> u64) \<times> model_kernel"

fun stage_jobs :: "'j stager \<Rightarrow> nat \<Rightarrow> 'j list \<Rightarrow> model_kernel \<Rightarrow> (int + pcaa_command list \<times> u64 list) \<times> model_kernel" where
  "stage_jobs stage index [] k = (Inr ([], []), k)"
| "stage_jobs stage index (job # jobs) k =
     (case stage index job k of
        (Inl code, k1) \<Rightarrow> (Inl code, k1)
      | (Inr (commands, address), k1) \<Rightarrow>
          (case stage_jobs stage (index + 1) jobs k1 of
             (Inl code, k2) \<Rightarrow> (Inl code, k2)
           | (Inr (rest_commands, addresses), k2) \<Rightarrow> (Inr (commands @ rest_commands, address # addresses), k2)))"

definition zero_command :: pcaa_command where
  "zero_command = PCAA_MAP_ADD_REDUCE_MIN \<lparr>r2_first = pcaa_cost_vector 0 0 0, r2_second = pcaa_cost_vector 0 0 0, r2_result = 0\<rparr>"

text \<open>A constructor call and the early return of its status.\<close>

definition built_command :: "(pcaa_command option \<Rightarrow> pcaa_status \<times> pcaa_command option) \<Rightarrow> pcaa_status + pcaa_command" where
  "built_command build = (case build (Some zero_command) of (status, c) \<Rightarrow> if status \<noteq> PCAA_STATUS_OK then Inl status else Inr (the c))"

definition staged_vector :: "u64 \<Rightarrow> nat \<Rightarrow> cost_vector_view" where
  "staged_vector address len = pcaa_cost_vector address (of_nat len) 1"

definition staged_matrix :: "u64 \<Rightarrow> pbqp_matrix_view \<Rightarrow> cost_matrix_view" where
  "staged_matrix address m = pcaa_cost_matrix address (of_nat (km_rows m)) (of_nat (km_columns m)) (of_nat (km_columns m)) 1"

definition stage_min2 :: "'t kernel_environment \<Rightarrow> (nat \<Rightarrow> pbqp_vector_view \<Rightarrow> nat) \<Rightarrow> bool \<Rightarrow> pbqp_min2_job stager" where
  "stage_min2 env address with_argmin index job k =
     (case job of (a, b) \<Rightarrow>
        case copy_view env (address (2 * index) a) a k of (first, k1) \<Rightarrow>
        case copy_view env (address (2 * index + 1) b) b k1 of (second, k2) \<Rightarrow>
        case allocate_storage env (if with_argmin then 8 else 4) k2 of (result, k3) \<Rightarrow>
          if first = 0 \<or> second = 0 \<or> result = 0 then (Inl (status_code (mk_staging_status k3)), k3)
          else (case built_command (pcaa_make_reduce2 (staged_vector first (kv_length a)) (staged_vector second (kv_length b))
                        result with_argmin) of
              Inl status \<Rightarrow> (Inl (status_code status), k3)
            | Inr c \<Rightarrow> (Inr ([c], result), k3)))"

definition stage_min3 :: "'t kernel_environment \<Rightarrow> (nat \<Rightarrow> pbqp_vector_view \<Rightarrow> nat) \<Rightarrow> pbqp_min3_job stager" where
  "stage_min3 env address index job k =
     (case job of (a, b, c) \<Rightarrow>
        case copy_view env (address (3 * index) a) a k of (first, k1) \<Rightarrow>
        case copy_view env (address (3 * index + 1) b) b k1 of (second, k2) \<Rightarrow>
        case copy_view env (address (3 * index + 2) c) c k2 of (third, k3) \<Rightarrow>
        case allocate_storage env 8 k3 of (result, k4) \<Rightarrow>
          if first = 0 \<or> second = 0 \<or> third = 0 \<or> result = 0 then (Inl (status_code (mk_staging_status k4)), k4)
          else (case built_command (pcaa_make_reduce3 (staged_vector first (kv_length a)) (staged_vector second (kv_length b))
                        (staged_vector third (kv_length c)) result True) of
              Inl status \<Rightarrow> (Inl (status_code status), k4)
            | Inr cmd \<Rightarrow> (Inr ([cmd], result), k4)))"

text \<open>The scores are copied, or found in the cache, before the other operands of a job.\<close>

definition stage_project_add ::
  "'t kernel_environment \<Rightarrow> (nat \<Rightarrow> pbqp_vector_view \<Rightarrow> nat) \<Rightarrow> nat \<Rightarrow> int list \<Rightarrow> pbqp_project_add_job stager" where
  "stage_project_add env address scores_address scores index job k =
     (case job of (m, v) \<Rightarrow>
        let rows = km_rows m
        in case copy_view env scores_address (whole_view scores rows) k of (s, k1) \<Rightarrow>
          if s = 0 then (Inl (status_code (mk_staging_status k1)), k1)
          else case copy_matrix env m k1 of (matrix, k2) \<Rightarrow>
            case copy_view env (address index v) v k2 of (unary, k3) \<Rightarrow>
            case allocate_storage env (of_nat rows * 4) k3 of (temporary, k4) \<Rightarrow>
              if matrix = 0 \<or> unary = 0 \<or> temporary = 0 then (Inl (status_code (mk_staging_status k4)), k4)
              else (case built_command (pcaa_make_minplus_project (staged_matrix matrix m) (staged_vector unary (kv_length v))
                            (pcaa_cost_output temporary (of_nat rows) 1)) of
                  Inl status \<Rightarrow> (Inl (status_code status), k4)
                | Inr project \<Rightarrow>
                    (case built_command (pcaa_make_cost_add_vector (staged_vector temporary rows) (staged_vector s rows)
                            (pcaa_cost_output s (of_nat rows) 1)) of
                       Inl status \<Rightarrow> (Inl (status_code status), k4)
                     | Inr add \<Rightarrow> (Inr ([project, add], s), k4))))"

definition stage_map3 :: "'t kernel_environment \<Rightarrow> (nat \<Rightarrow> pbqp_vector_view \<Rightarrow> nat) \<Rightarrow> pbqp_map3_project_job stager" where
  "stage_map3 env address index job k =
     (case job of (u, f, m) \<Rightarrow>
        case copy_view env (address (2 * index) u) u k of (unary, k1) \<Rightarrow>
        case copy_view env (address (2 * index + 1) f) f k1 of (fixed, k2) \<Rightarrow>
        case copy_matrix env m k2 of (varying, k3) \<Rightarrow>
        case allocate_storage env (of_nat (km_rows m) * 8) k3 of (result, k4) \<Rightarrow>
          if unary = 0 \<or> fixed = 0 \<or> varying = 0 \<or> result = 0 then (Inl (status_code (mk_staging_status k4)), k4)
          else (case built_command (pcaa_make_minplus_map3_project (staged_vector unary (kv_length u)) (staged_vector fixed (kv_length f))
                        (staged_matrix varying m) (pcaa_argmin_output result (of_nat (km_rows m)) 1)) of
              Inl status \<Rightarrow> (Inl (status_code status), k4)
            | Inr c \<Rightarrow> (Inr ([c], result), k4)))"

definition stage_add_vector :: "'t kernel_environment \<Rightarrow> (nat \<Rightarrow> pbqp_vector_view \<Rightarrow> nat) \<Rightarrow> pbqp_min2_job stager" where
  "stage_add_vector env address index job k =
     (case job of (a, b) \<Rightarrow>
        case copy_view env (address 0 a) a k of (first, k1) \<Rightarrow>
        case copy_view env (address 1 b) b k1 of (second, k2) \<Rightarrow>
        case allocate_storage env (of_nat (kv_length a) * 4) k2 of (result, k3) \<Rightarrow>
          if first = 0 \<or> second = 0 \<or> result = 0 then (Inl (status_code (mk_staging_status k3)), k3)
          else (case built_command (pcaa_make_cost_add_vector (staged_vector first (kv_length a)) (staged_vector second (kv_length b))
                        (pcaa_cost_output result (of_nat (kv_length a)) 1)) of
              Inl status \<Rightarrow> (Inl (status_code status), k3)
            | Inr c \<Rightarrow> (Inr ([c], result), k3)))"

definition stage_project :: "'t kernel_environment \<Rightarrow> (nat \<Rightarrow> pbqp_vector_view \<Rightarrow> nat) \<Rightarrow> pbqp_project_add_job stager" where
  "stage_project env address index job k =
     (case job of (m, v) \<Rightarrow>
        case copy_matrix env m k of (matrix, k1) \<Rightarrow>
        case copy_view env (address 0 v) v k1 of (unary, k2) \<Rightarrow>
        case allocate_storage env (of_nat (km_rows m) * 4) k2 of (result, k3) \<Rightarrow>
          if matrix = 0 \<or> unary = 0 \<or> result = 0 then (Inl (status_code (mk_staging_status k3)), k3)
          else (case built_command (pcaa_make_minplus_project (staged_matrix matrix m) (staged_vector unary (kv_length v))
                        (pcaa_cost_output result (of_nat (km_rows m)) 1)) of
              Inl status \<Rightarrow> (Inl (status_code status), k3)
            | Inr c \<Rightarrow> (Inr ([c], result), k3)))"

text \<open>Reading the results back, in the order of the jobs.\<close>

fun read_results :: "guest_memory_state \<Rightarrow> (u64 \<times> nat) list \<Rightarrow> byte list list option" where
  "read_results m [] = Some []"
| "read_results m ((address, bytes) # rs) =
     (case gm_read m address bytes of
        None \<Rightarrow> None | Some bs \<Rightarrow> (case read_results m rs of None \<Rightarrow> None | Some bss \<Rightarrow> Some (bs # bss)))"

definition costs_of :: "byte list \<Rightarrow> int list" where
  "costs_of bs = map (\<lambda>i. sint (get_le 4 bs (4 * i) :: u32)) [0..<length bs div 4]"

definition argmins_of :: "byte list \<Rightarrow> min_argmin list" where
  "argmins_of bs = map (\<lambda>i. (sint (get_le 4 bs (8 * i) :: u32), unat (get_le 4 bs (8 * i + 4) :: u32))) [0..<length bs div 8]"

definition run_jobs ::
  "'t kernel_environment \<Rightarrow> 'j stager \<Rightarrow> ('j \<Rightarrow> nat) \<Rightarrow> 'j list \<Rightarrow> (model_kernel, byte list list) kernel_call" where
  "run_jobs env stage result_size jobs k s =
     (case stage_jobs stage 0 jobs (begin_batch k) of
        (Inl code, k1) \<Rightarrow> (Inl code, k1, s)
      | (Inr (commands, addresses), k1) \<Rightarrow>
          (case mk_submit_batch env commands k1 s of
             (status, k2, s2) \<Rightarrow>
               if status \<noteq> PCAA_STATUS_OK then (Inl (status_code status), k2, s2)
               else (case read_results (mk_memory k2) (zip addresses (map result_size jobs)) of
                   None \<Rightarrow> (Inl (status_code PCAA_STATUS_MEMORY_ERROR), k2, s2)
                 | Some bss \<Rightarrow> (Inr bss, k2, s2))))"

definition with_cycles :: "(vector_cycle_projection \<Rightarrow> vector_cycle_projection) \<Rightarrow> model_kernel \<Rightarrow> model_kernel" where
  "with_cycles f k = k\<lparr>mk_cycles := f (mk_cycles k)\<rparr>"

definition map_call :: "('a \<Rightarrow> 'b) \<Rightarrow> ('k, 'a) kernel_call \<Rightarrow> ('k, 'b) kernel_call" where
  "map_call f call k s = (case call k s of (r, k', s') \<Rightarrow> (map_sum id f r, k', s'))"

definition mk_min2_batch :: "'t kernel_environment \<Rightarrow> pbqp_min2_job list \<Rightarrow> (model_kernel, min_argmin list) kernel_call" where
  "mk_min2_batch env jobs k =
     map_call (concat \<circ> map argmins_of) (run_jobs env (stage_min2 env (ke_address env k) True) (\<lambda>_. 8) jobs) k"

definition mk_min3_batch :: "'t kernel_environment \<Rightarrow> pbqp_min3_job list \<Rightarrow> (model_kernel, min_argmin list) kernel_call" where
  "mk_min3_batch env jobs k =
     map_call (concat \<circ> map argmins_of) (run_jobs env (stage_min3 env (ke_address env k)) (\<lambda>_. 8) jobs)
       (with_cycles (record_map3_cycle_projection (ke_address env k) jobs) k)"

definition mk_min2_value_batch :: "'t kernel_environment \<Rightarrow> pbqp_min2_job list \<Rightarrow> (model_kernel, int list) kernel_call" where
  "mk_min2_value_batch env jobs k =
     map_call (concat \<circ> map costs_of) (run_jobs env (stage_min2 env (ke_address env k) False) (\<lambda>_. 4) jobs)
       (with_cycles (record_project_cycle_projection (ke_address env k) jobs) k)"

text \<open>Every job stores the rows it read over the first scores.\<close>

definition mk_project_add_batch ::
  "'t kernel_environment \<Rightarrow> pbqp_project_add_job list \<Rightarrow> int list \<Rightarrow> (model_kernel, int list) kernel_call" where
  "mk_project_add_batch env jobs scores k s =
     (if jobs = [] then (Inr scores, k, s)
      else map_call (\<lambda>bss. fold (\<lambda>bs scores. copy_prefix (length (costs_of bs)) (costs_of bs) scores) bss scores)
        (run_jobs env (stage_project_add env (ke_address env k) (ke_scores env k) scores) (\<lambda>(m, v). km_rows m * 4) jobs)
        (with_cycles (record_vector_project_projection jobs) k) s)"

definition mk_map3_project_batch ::
  "'t kernel_environment \<Rightarrow> pbqp_map3_project_job list \<Rightarrow> (model_kernel, min_argmin list) kernel_call" where
  "mk_map3_project_batch env jobs k s =
     (if jobs = [] then (Inr [], k, s)
      else map_call (concat \<circ> map argmins_of)
        (run_jobs env (stage_map3 env (ke_address env k)) (\<lambda>(u, f, m). km_rows m * 8) jobs)
        (with_cycles (record_vector_map3_projection jobs) k) s)"

definition mk_cost_add_vector ::
  "'t kernel_environment \<Rightarrow> pbqp_vector_view \<Rightarrow> pbqp_vector_view \<Rightarrow> (model_kernel, int list) kernel_call" where
  "mk_cost_add_vector env a b k =
     map_call (concat \<circ> map costs_of) (run_jobs env (stage_add_vector env (ke_address env k)) (\<lambda>(a, b). kv_length a * 4) [(a, b)]) k"

definition mk_minplus_project ::
  "'t kernel_environment \<Rightarrow> pbqp_matrix_view \<Rightarrow> pbqp_vector_view \<Rightarrow> (model_kernel, int list) kernel_call" where
  "mk_minplus_project env m v k =
     map_call (concat \<circ> map costs_of) (run_jobs env (stage_project env (ke_address env k)) (\<lambda>(m, v). km_rows m * 4) [(m, v)]) k"

definition make_kernel :: "'t kernel_environment \<Rightarrow> model_kernel pbqp_cost_kernel" where
  "make_kernel env =
     \<lparr>min2_argmin = Some (\<lambda>a b. map_call hd (mk_min2_batch env [(a, b)])),
      min3_argmin = Some (\<lambda>a b c. map_call hd (mk_min3_batch env [(a, b, c)])),
      min2_argmin_batch = Some (mk_min2_batch env),
      min3_argmin_batch = Some (mk_min3_batch env),
      min2_value = Some (\<lambda>a b. map_call hd (mk_min2_value_batch env [(a, b)])),
      min2_value_batch = Some (mk_min2_value_batch env),
      cost_add_vector = Some (mk_cost_add_vector env),
      minplus_project = Some (mk_minplus_project env),
      minplus_map3_project = Some (\<lambda>u f m. mk_map3_project_batch env [(u, f, m)]),
      project_add_batch = Some (mk_project_add_batch env),
      map3_project_batch = Some (mk_map3_project_batch env)\<rparr>"

definition ModelKernel :: "guest_memory_state \<Rightarrow> model_kernel" where
  "ModelKernel m =
     (let zero = \<lparr>cb_descriptor = 0, cb_operands = 0, cb_compute = 0, cb_result = 0, cb_total = 0, cb_descriptors = 0\<rparr>
      in \<lparr>mk_staging_status = PCAA_STATUS_OK, mk_view_cache = Map.empty,
          mk_cycles = \<lparr>vc_project_scalar = zero, vc_project_vector = zero, vc_map3_scalar = zero, vc_map3_partial = zero,
            vc_map3_full = zero\<rparr>,
          mk_device = PcaaSystemCDevice (accelerator_init m)\<rparr>)"

end
