(* ===== verification/Pbqp_Graph.thy ===== *)
theory Pbqp_Graph
  imports Pbqp_Problem
begin

text \<open>
  The queries of class \<open>Graph\<close> in \<open>software/pbqp/pbqp.cpp\<close> and its one update, \<open>AddFillEdge\<close>. A
  search that returns an index or \<open>-1\<close> is an option. The two-element \<open>edge_indices\<close> array that
  \<open>NeighborCount\<close> fills is a list of length two; \<open>FindReducibleNode\<close> fills it too, but every
  caller calls \<open>NeighborCount\<close> again for the node found, so only the node is returned here.
  Sums of \<open>unsigned\<close> or \<open>uint64_t\<close> wrap where the source's do.
\<close>

definition incident :: "pbqp_edge \<Rightarrow> nat \<Rightarrow> bool" where
  "incident edge node \<longleftrightarrow> eg_active edge \<and> (eg_first edge = node \<or> eg_second edge = node)"

definition FindEdge :: "pbqp_problem \<Rightarrow> nat \<Rightarrow> nat \<Rightarrow> nat option" where
  "FindEdge p first second =
     first_index (\<lambda>index. edge_joins (edge_at p index) first second) (pb_edge_capacity p)"

definition NeighborCount :: "pbqp_problem \<Rightarrow> nat \<Rightarrow> nat list \<Rightarrow> nat \<times> nat list" where
  "NeighborCount p node edge_indices =
     fold (\<lambda>index (count, indices).
         if \<not> incident (edge_at p index) node then (count, indices)
         else (count + 1, if count < 2 then indices[count := index] else indices))
       [0..<pb_edge_capacity p] (0, edge_indices)"

abbreviation degree_of :: "pbqp_problem \<Rightarrow> nat \<Rightarrow> nat" where
  "degree_of p node \<equiv> fst (NeighborCount p node [])"

definition FindReducibleNode :: "pbqp_problem \<Rightarrow> nat option" where
  "FindReducibleNode p =
     first_index (\<lambda>node. nd_active (node_at p node) \<and> degree_of p node \<le> 2) (pb_node_count p)"

definition ActiveNodeCount :: "pbqp_problem \<Rightarrow> nat" where
  "ActiveNodeCount p =
     fold (\<lambda>node count. count + (if nd_active (node_at p node) then 1 else 0)) [0..<pb_node_count p] 0"

definition ActiveEdgeCount :: "pbqp_problem \<Rightarrow> nat" where
  "ActiveEdgeCount p =
     fold (\<lambda>index count. count + (if eg_active (edge_at p index) then 1 else 0))
       [0..<pb_edge_capacity p] 0"

definition MaximumDegree :: "pbqp_problem \<Rightarrow> nat" where
  "MaximumDegree p =
     fold (\<lambda>node maximum.
         if nd_active (node_at p node) \<and> degree_of p node > maximum then degree_of p node else maximum)
       [0..<pb_node_count p] 0"

definition UnaryElements :: "pbqp_problem \<Rightarrow> nat" where
  "UnaryElements p =
     fold (\<lambda>node elements.
         if nd_active (node_at p node) then (elements + nd_domain (node_at p node)) mod 2 ^ 32 else elements)
       [0..<pb_node_count p] 0"

definition MatrixElements :: "pbqp_problem \<Rightarrow> nat" where
  "MatrixElements p =
     fold (\<lambda>index elements.
         let edge = edge_at p index
         in if eg_active edge
            then (elements + nd_domain (node_at p (eg_first edge)) * nd_domain (node_at p (eg_second edge)))
                   mod 2 ^ 32
            else elements)
       [0..<pb_edge_capacity p] 0"

definition OtherNode :: "pbqp_edge \<Rightarrow> nat \<Rightarrow> nat" where
  "OtherNode edge node = (if eg_first edge = node then eg_second edge else eg_first edge)"

definition rn_work :: "pbqp_problem \<Rightarrow> nat \<Rightarrow> nat" where
  "rn_work p node =
     fold (\<lambda>index work.
         if incident (edge_at p index) node
         then (work + nd_domain (node_at p (OtherNode (edge_at p index) node))) mod 2 ^ 64 else work)
       [0..<pb_edge_capacity p] 0 * nd_domain (node_at p node) mod 2 ^ 64"

text \<open>The selection of \<open>SelectRnNode\<close>; the state is the selected node with its degree and work.\<close>

definition rn_better :: "pbqp_rn_policy \<Rightarrow> nat \<Rightarrow> nat \<Rightarrow> nat \<Rightarrow> nat \<times> nat \<times> nat \<Rightarrow> bool" where
  "rn_better policy node degree work best =
     (case best of (selected, selected_degree, selected_work) \<Rightarrow>
        case policy of
          PBQP_RN_MIN_DEGREE \<Rightarrow>
            degree < selected_degree \<or> degree = selected_degree \<and> node < selected
        | PBQP_RN_MAX_DEGREE \<Rightarrow>
            degree > selected_degree \<or> degree = selected_degree \<and> node < selected
        | PBQP_RN_MIN_WORK \<Rightarrow>
            work < selected_work \<or> work = selected_work \<and>
              (degree < selected_degree \<or> degree = selected_degree \<and> node < selected))"

definition rn_select_step ::
  "pbqp_rn_policy \<Rightarrow> pbqp_problem \<Rightarrow> nat \<Rightarrow> (nat \<times> nat \<times> nat) option \<Rightarrow> (nat \<times> nat \<times> nat) option" where
  "rn_select_step policy p node selected =
     (if \<not> nd_active (node_at p node) then selected
      else let degree = degree_of p node;
               work = (if policy = PBQP_RN_MIN_WORK then rn_work p node else 0)
        in case selected of
             None \<Rightarrow> Some (node, degree, work)
           | Some best \<Rightarrow> if rn_better policy node degree work best then Some (node, degree, work) else selected)"

definition SelectRnNode :: "pbqp_rn_policy \<Rightarrow> pbqp_problem \<Rightarrow> nat option" where
  "SelectRnNode policy p = map_option fst (fold (rn_select_step policy p) [0..<pb_node_count p] None)"

definition AddFillEdge :: "pbqp_problem \<Rightarrow> nat \<Rightarrow> nat \<Rightarrow> nat option \<times> pbqp_problem" where
  "AddFillEdge p first second =
     (case first_index (\<lambda>index. \<not> eg_active (edge_at p index)) (pb_edge_capacity p) of
        None \<Rightarrow> (None, p)
      | Some index \<Rightarrow>
          let edge = edge_at p index; stride = eg_stride edge
          in (Some index, p\<lparr>pb_edge_count := pb_edge_count p + 1,
                pb_edges := (pb_edges p)[index :=
                  \<lparr>eg_active = True, eg_first = first, eg_second = second, eg_stride = stride,
                   eg_cost = copy_prefix (stride * stride) (replicate (stride * stride) 0) (eg_cost edge)\<rparr>]\<rparr>))"

end
