(* ===== verification/Pbqp_Reduce.thy ===== *)
theory Pbqp_Reduce
  imports Pbqp_Graph Pbqp_Kernel
begin

text \<open>
  The reductions of class \<open>Solver\<close> in \<open>software/pbqp/pbqp.cpp\<close>: R0, R1, R2, the heuristic RN, the
  conditioning of a node, and the reconstruction of the eliminated choices, with the statistics and
  the trace events they record.

  The state of a solve is the graph, the kernel's context, \<open>last_kernel_status\<close>, the events emitted so
  far and the number of workspace allocations requested so far. Allocators are code outside the
  solver: \<open>sv_grants n\<close> says whether the \<open>n\<close>th request of the solve is answered with memory, which
  covers every allocator, since a run of the solver is one sequence of requests. An \<open>Array\<close> of
  length zero makes no request and stays null.
\<close>

text \<open>The opcodes of \<open>accel_protocol.h\<close> that index \<open>primitive_submissions\<close>.\<close>

abbreviation (input) opcode_map_add_reduce_min :: nat where "opcode_map_add_reduce_min \<equiv> 1"
abbreviation (input) opcode_map_add_reduce_min_argmin :: nat where "opcode_map_add_reduce_min_argmin \<equiv> 3"
abbreviation (input) opcode_map_add3_reduce_min_argmin :: nat where "opcode_map_add3_reduce_min_argmin \<equiv> 4"
abbreviation (input) opcode_cost_add_vector :: nat where "opcode_cost_add_vector \<equiv> 6"
abbreviation (input) opcode_minplus_project :: nat where "opcode_minplus_project \<equiv> 7"
abbreviation (input) opcode_minplus_map3_project :: nat where "opcode_minplus_map3_project \<equiv> 8"

section \<open>Solver state\<close>

datatype pbqp_trace_event_type =
    PBQP_TRACE_R0 | PBQP_TRACE_R1 | PBQP_TRACE_R2 | PBQP_TRACE_RN_SELECT | PBQP_TRACE_RN_SCORE
  | PBQP_TRACE_RN_COMMIT | PBQP_TRACE_LOCAL_SCORE | PBQP_TRACE_LOCAL_MOVE
  | PBQP_TRACE_BRANCH_SELECT | PBQP_TRACE_BRANCH_CONDITION

datatype pbqp_trace_phase =
    PBQP_TRACE_REDUCTION | PBQP_TRACE_HEURISTIC | PBQP_TRACE_LOCAL_SEARCH | PBQP_TRACE_EXACT_SEARCH

record pbqp_solver_event =
  ev_type :: pbqp_trace_event_type
  ev_phase :: pbqp_trace_phase
  ev_policy :: pbqp_rn_policy
  ev_node :: int
  ev_choice :: int
  ev_active_nodes :: nat
  ev_active_edges :: nat
  ev_maximum_degree :: nat
  ev_unary_elements :: nat
  ev_matrix_elements :: nat
  ev_r0_count :: nat
  ev_r1_count :: nat
  ev_r2_count :: nat
  ev_rn_count :: nat
  ev_minplus_project_elements :: nat
  ev_project_accumulate_elements :: nat
  ev_slice_accumulate_elements :: nat
  ev_map3_reduce_elements :: nat
  ev_argmin_vector_elements :: nat
  ev_primitive_descriptors :: nat
  ev_structural_operations :: nat
  ev_branch_domain :: nat
  ev_operand_bytes :: nat
  ev_result_bytes :: nat

record pbqp_solver_config =
  cf_strategy :: pbqp_solver_strategy
  cf_rn_policy :: pbqp_rn_policy
  cf_rn_batching :: pbqp_rn_batching
  cf_maximum_search_nodes :: nat
  cf_trace_sink :: bool
  cf_workspace_allocator :: bool

text \<open>The members of class \<open>Solver\<close> that do not change during a solve, and the allocation oracle.\<close>

record 'k solver =
  sv_api :: "'k pbqp_cost_kernel"
  sv_config :: pbqp_solver_config
  sv_grants :: "nat \<Rightarrow> bool"

record 'k solver_state =
  ss_problem :: pbqp_problem
  ss_context :: 'k
  ss_kernel_status :: int
  ss_trace :: "pbqp_solver_event list"
  ss_allocations :: nat

definition set_problem :: "pbqp_problem \<Rightarrow> 'k solver_state \<Rightarrow> 'k solver_state" where
  "set_problem p st = st\<lparr>ss_problem := p\<rparr>"

definition with_statistics ::
  "(pbqp_statistics \<Rightarrow> pbqp_statistics) \<Rightarrow> 'k solver_state \<Rightarrow> 'k solver_state" where
  "with_statistics f st = set_problem ((ss_problem st)\<lparr>pb_statistics := f (pb_statistics (ss_problem st))\<rparr>) st"

text \<open>A call through \<open>kernel_\<close>, whose statistics are those of the graph.\<close>

definition on_kernel ::
  "('k kernel_state \<Rightarrow> (int + 'r) \<times> 'k kernel_state) \<Rightarrow> 'k solver_state \<Rightarrow> (int + 'r) \<times> 'k solver_state" where
  "on_kernel call st =
     (case call \<lparr>ks_context = ss_context st, ks_statistics = pb_statistics (ss_problem st),
                 ks_last_status = ss_kernel_status st\<rparr> of
        (result, ks) \<Rightarrow>
          (result, st\<lparr>ss_problem := (ss_problem st)\<lparr>pb_statistics := ks_statistics ks\<rparr>,
             ss_context := ks_context ks, ss_kernel_status := ks_last_status ks\<rparr>))"

fun allocate_arrays :: "(nat \<Rightarrow> bool) \<Rightarrow> nat list \<Rightarrow> nat \<Rightarrow> bool \<times> nat" where
  "allocate_arrays grants [] n = (True, n)"
| "allocate_arrays grants (count # counts) n =
     (if count = 0 then (False, snd (allocate_arrays grants counts n))
      else case allocate_arrays grants counts (Suc n) of (ok, n') \<Rightarrow> (grants n \<and> ok, n'))"

definition workspace :: "'k solver \<Rightarrow> nat list \<Rightarrow> 'k solver_state \<Rightarrow> bool \<times> 'k solver_state" where
  "workspace sv counts st =
     (if \<not> cf_workspace_allocator (sv_config sv) \<and> \<not> pb_allocator (ss_problem st) then (False, st)
      else case allocate_arrays (sv_grants sv) counts (ss_allocations st) of
        (ok, n) \<Rightarrow> (ok, st\<lparr>ss_allocations := n\<rparr>))"

section \<open>Trace events\<close>

text \<open>
  The arguments of \<open>Emit\<close> after the node and the choice: the five element counts, the descriptors
  and structural operations, the two byte counts and the branch domain.
\<close>

record event_work =
  wk_project :: nat
  wk_project_accumulate :: nat
  wk_slice :: nat
  wk_map3 :: nat
  wk_argmin :: nat
  wk_descriptors :: nat
  wk_structural :: nat
  wk_operand_bytes :: nat
  wk_result_bytes :: nat
  wk_branch_domain :: nat

definition no_work :: event_work where
  "no_work = \<lparr>wk_project = 0, wk_project_accumulate = 0, wk_slice = 0, wk_map3 = 0, wk_argmin = 0,
     wk_descriptors = 0, wk_structural = 0, wk_operand_bytes = 0, wk_result_bytes = 0,
     wk_branch_domain = 0\<rparr>"

definition Emit ::
  "'k solver \<Rightarrow> pbqp_trace_event_type \<Rightarrow> pbqp_trace_phase \<Rightarrow> int \<Rightarrow> int \<Rightarrow> event_work \<Rightarrow>
     'k solver_state \<Rightarrow> 'k solver_state" where
  "Emit sv type phase node choice work st =
     (if \<not> cf_trace_sink (sv_config sv) then st
      else let p = ss_problem st
        in st\<lparr>ss_trace := ss_trace st @
             [\<lparr>ev_type = type, ev_phase = phase, ev_policy = cf_rn_policy (sv_config sv),
               ev_node = node, ev_choice = choice, ev_active_nodes = ActiveNodeCount p,
               ev_active_edges = ActiveEdgeCount p, ev_maximum_degree = MaximumDegree p,
               ev_unary_elements = UnaryElements p, ev_matrix_elements = MatrixElements p,
               ev_r0_count = (if type = PBQP_TRACE_R0 then 1 else 0),
               ev_r1_count = (if type = PBQP_TRACE_R1 then 1 else 0),
               ev_r2_count = (if type = PBQP_TRACE_R2 then 1 else 0),
               ev_rn_count = (if type = PBQP_TRACE_RN_COMMIT then 1 else 0),
               ev_minplus_project_elements = wk_project work mod 2 ^ 64,
               ev_project_accumulate_elements = wk_project_accumulate work mod 2 ^ 64,
               ev_slice_accumulate_elements = wk_slice work mod 2 ^ 64,
               ev_map3_reduce_elements = wk_map3 work mod 2 ^ 64,
               ev_argmin_vector_elements = wk_argmin work mod 2 ^ 64,
               ev_primitive_descriptors = wk_descriptors work mod 2 ^ 32,
               ev_structural_operations = wk_structural work mod 2 ^ 32,
               ev_branch_domain = wk_branch_domain work mod 2 ^ 32,
               ev_operand_bytes = wk_operand_bytes work mod 2 ^ 64,
               ev_result_bytes = wk_result_bytes work mod 2 ^ 64\<rparr>]\<rparr>)"

definition ReductionPhase :: "'k solver \<Rightarrow> pbqp_trace_phase" where
  "ReductionPhase sv =
     (if cf_strategy (sv_config sv) = PBQP_STRATEGY_HEURISTIC_RN then PBQP_TRACE_HEURISTIC
      else PBQP_TRACE_REDUCTION)"

section \<open>Edge views\<close>

definition EdgeView :: "pbqp_edge \<Rightarrow> nat \<Rightarrow> nat \<Rightarrow> nat \<Rightarrow> pbqp_vector_view" where
  "EdgeView edge node other_value len =
     (if node = eg_first edge
      then \<lparr>kv_base = eg_cost edge, kv_offset = other_value, kv_length = len, kv_stride = eg_stride edge\<rparr>
      else \<lparr>kv_base = eg_cost edge, kv_offset = other_value * eg_stride edge, kv_length = len, kv_stride = 1\<rparr>)"

definition ConditionedEdgeView :: "pbqp_edge \<Rightarrow> nat \<Rightarrow> nat \<Rightarrow> nat \<Rightarrow> pbqp_vector_view" where
  "ConditionedEdgeView edge node node_value neighbor_length =
     (if node = eg_first edge
      then \<lparr>kv_base = eg_cost edge, kv_offset = node_value * eg_stride edge, kv_length = neighbor_length,
            kv_stride = 1\<rparr>
      else \<lparr>kv_base = eg_cost edge, kv_offset = node_value, kv_length = neighbor_length,
            kv_stride = eg_stride edge\<rparr>)"

definition ConditionedEdgeMatrix :: "pbqp_edge \<Rightarrow> nat \<Rightarrow> nat \<Rightarrow> nat \<Rightarrow> pbqp_matrix_view" where
  "ConditionedEdgeMatrix edge node output_domain reduction_domain =
     \<lparr>km_base = eg_cost edge, km_rows = output_domain, km_columns = reduction_domain,
      km_row_stride = (if node = eg_first edge then eg_stride edge else 1),
      km_column_stride = (if node = eg_first edge then 1 else eg_stride edge)\<rparr>"

definition EdgeMatrix :: "pbqp_edge \<Rightarrow> nat \<Rightarrow> nat \<Rightarrow> nat \<Rightarrow> pbqp_matrix_view" where
  "EdgeMatrix edge node output_domain reduction_domain =
     \<lparr>km_base = eg_cost edge, km_rows = output_domain, km_columns = reduction_domain,
      km_row_stride = (if node = eg_first edge then 1 else eg_stride edge),
      km_column_stride = (if node = eg_first edge then eg_stride edge else 1)\<rparr>"

section \<open>Updates of the graph\<close>

definition set_node :: "nat \<Rightarrow> (pbqp_node \<Rightarrow> pbqp_node) \<Rightarrow> pbqp_problem \<Rightarrow> pbqp_problem" where
  "set_node n f p = p\<lparr>pb_nodes := (pb_nodes p)[n := f (node_at p n)]\<rparr>"

definition set_edge :: "nat \<Rightarrow> (pbqp_edge \<Rightarrow> pbqp_edge) \<Rightarrow> pbqp_problem \<Rightarrow> pbqp_problem" where
  "set_edge e f p = p\<lparr>pb_edges := (pb_edges p)[e := f (edge_at p e)]\<rparr>"

definition add_unary :: "nat \<Rightarrow> int \<Rightarrow> pbqp_node \<Rightarrow> pbqp_node" where
  "add_unary i cost node = node\<lparr>nd_unary := (nd_unary node)[i := accel_cost_add (nd_unary node ! i) cost]\<rparr>"

text \<open>\<open>Reconstruction(problem, n)[i] = choice\<close>.\<close>

definition set_reconstruction :: "nat \<Rightarrow> nat \<Rightarrow> nat \<Rightarrow> pbqp_problem \<Rightarrow> pbqp_problem" where
  "set_reconstruction n i choice p =
     p\<lparr>pb_reconstruction := (pb_reconstruction p)[n := (pb_reconstruction p ! n)[i := choice]]\<rparr>"

definition add_offset :: "int \<Rightarrow> pbqp_problem \<Rightarrow> pbqp_problem" where
  "add_offset cost p = p\<lparr>pb_objective_offset := accel_cost_add (pb_objective_offset p) cost\<rparr>"

definition drop_edge :: "nat \<Rightarrow> pbqp_problem \<Rightarrow> pbqp_problem" where
  "drop_edge e p = (set_edge e (\<lambda>edge. edge\<lparr>eg_active := False\<rparr>) p)\<lparr>pb_edge_count := pb_edge_count p - 1\<rparr>"

text \<open>
  The common tail of the reductions: \<open>reduction_kind\<close>, \<open>active = 0\<close> and
  \<open>elimination_order[elimination_count++] = node_index\<close>.
\<close>

definition eliminate :: "reduction_kind \<Rightarrow> nat \<Rightarrow> pbqp_problem \<Rightarrow> pbqp_problem" where
  "eliminate kind n p =
     (set_node n (\<lambda>node. node\<lparr>nd_reduction_kind := kind, nd_active := False\<rparr>) p)
       \<lparr>pb_elimination_order := (pb_elimination_order p)[pb_elimination_count p := n],
        pb_elimination_count := pb_elimination_count p + 1\<rparr>"

section \<open>R0\<close>

text \<open>\<open>min_step\<close> is the loop body \<open>if (value == 0 || node.unary[value] < best)\<close>.\<close>

definition ReduceR0 :: "'k solver \<Rightarrow> nat \<Rightarrow> 'k solver_state \<Rightarrow> pbqp_status \<times> 'k solver_state" where
  "ReduceR0 sv node_index st =
     (let p = ss_problem st; node = node_at p node_index;
          (best, choice) = fold (\<lambda>v. min_step v (nd_unary node ! v)) [0..<nd_domain node] (ACCEL_INF, 0);
          p' = eliminate kReductionR0 node_index (set_reconstruction node_index 0 choice (add_offset best p))
      in (PBQP_OK, Emit sv PBQP_TRACE_R0 (ReductionPhase sv) (int node_index) (int choice) no_work
            (with_statistics (bump (Rd r0_count) 1) (set_problem p' st))))"

section \<open>R1\<close>

definition record_r1_job :: "pbqp_edge \<Rightarrow> nat \<Rightarrow> nat \<Rightarrow> nat \<Rightarrow> pbqp_statistics \<Rightarrow> pbqp_statistics" where
  "record_r1_job edge node_index domain neighbor_value s =
     bump (Mx scalar_project_descriptors) 1
       (record_minplus_project domain 8
         (record_operation opcode_map_add_reduce_min_argmin domain 2 8
           (record_view (kv_stride (EdgeView edge node_index neighbor_value domain)) (record_view 1 s))))"

text \<open>The loop over the results; it stops at the first index outside the node's domain.\<close>

fun r1_apply :: "nat \<Rightarrow> nat \<Rightarrow> min_argmin list \<Rightarrow> nat list \<Rightarrow> pbqp_problem \<Rightarrow> bool \<times> pbqp_problem" where
  "r1_apply node_index neighbor_index results [] p = (True, p)"
| "r1_apply node_index neighbor_index results (v # vs) p =
     (case results ! v of (cost, index) \<Rightarrow>
        if index \<ge> nd_domain (node_at p node_index) then (False, p)
        else r1_apply node_index neighbor_index results vs
               (set_reconstruction node_index v index (set_node neighbor_index (add_unary v cost) p)))"

definition ReduceR1 :: "'k solver \<Rightarrow> nat \<Rightarrow> nat \<Rightarrow> 'k solver_state \<Rightarrow> pbqp_status \<times> 'k solver_state" where
  "ReduceR1 sv node_index edge_index st =
     (let p = ss_problem st; edge = edge_at p edge_index; neighbor_index = OtherNode edge node_index;
          domain = nd_domain (node_at p node_index); neighbor_domain = nd_domain (node_at p neighbor_index);
          (ok, st1) = workspace sv [neighbor_domain, neighbor_domain] st
      in if \<not> ok then (PBQP_CAPACITY_ERROR, st1)
         else let st2 = with_statistics (fold (record_r1_job edge node_index domain) [0..<neighbor_domain]) st1;
                  jobs = map (\<lambda>v. (whole_view (nd_unary (node_at p node_index)) domain,
                                   EdgeView edge node_index v domain)) [0..<neighbor_domain]
           in case on_kernel (Min2Batch (sv_api sv) jobs) st2 of
                (Inl _, st3) \<Rightarrow> (PBQP_KERNEL_ERROR, st3)
              | (Inr results, st3) \<Rightarrow>
                  (case r1_apply node_index neighbor_index results [0..<neighbor_domain] (ss_problem st3) of
                     (False, p') \<Rightarrow> (PBQP_ARGUMENT_ERROR, set_problem p' st3)
                   | (True, p') \<Rightarrow>
                       let p'' = eliminate kReductionR1 node_index
                             (set_node node_index (\<lambda>node. node\<lparr>nd_first_neighbor := neighbor_index\<rparr>)
                               (drop_edge edge_index p'));
                           elements = domain * neighbor_domain
                       in (PBQP_OK, Emit sv PBQP_TRACE_R1 (ReductionPhase sv) (int node_index) (- 1)
                             (no_work\<lparr>wk_project := elements, wk_descriptors := neighbor_domain,
                                wk_structural := 1, wk_operand_bytes := 2 * elements * 4,
                                wk_result_bytes := neighbor_domain * 8\<rparr>)
                             (with_statistics (bump (Rd r1_count) 1) (set_problem p'' st3)))))"

section \<open>R2\<close>

definition record_r2_scalar ::
  "pbqp_edge \<Rightarrow> pbqp_edge \<Rightarrow> nat \<Rightarrow> nat \<Rightarrow> nat \<times> nat \<Rightarrow> pbqp_statistics \<Rightarrow> pbqp_statistics" where
  "record_r2_scalar first_edge second_edge node_index domain values_pair s =
     (case values_pair of (first_value, second_value) \<Rightarrow>
        bump (Mx scalar_map3_descriptors) 1
          (record_map3_reduce domain
            (record_operation opcode_map_add3_reduce_min_argmin domain 3 8
              (record_view (kv_stride (EdgeView second_edge node_index second_value domain))
                (record_view (kv_stride (EdgeView first_edge node_index first_value domain))
                  (record_view 1 s))))))"

definition record_r2_vector ::
  "pbqp_edge \<Rightarrow> pbqp_edge \<Rightarrow> nat \<Rightarrow> nat \<Rightarrow> nat \<Rightarrow> nat \<Rightarrow> pbqp_statistics \<Rightarrow> pbqp_statistics" where
  "record_r2_vector first_edge second_edge node_index domain second_domain first_value s =
     (let elements = second_domain * domain
      in fold (\<lambda>second_value s.
             record_view (kv_stride (EdgeView second_edge node_index second_value domain))
               (record_view (kv_stride (EdgeView first_edge node_index first_value domain)) (record_view 1 s)))
           [0..<second_domain]
           (bumps [(Ar primitive_submissions opcode_minplus_map3_project, 1), (Ar vector_length_histogram domain, 1),
              (Mx partial_map3_descriptors, 1), (Sb logical_map_elements, elements),
              (Sb logical_bytes_read, 3 * elements * 4), (Sb logical_bytes_written, second_domain * 8),
              (Mx map3_reduce_elements, elements), (Mx map3_reduce_descriptors, 1),
              (Mx map3_reduce_bytes, 3 * elements * 4 + second_domain * 8),
              (Mx operation_mix_operand_bytes, 3 * elements * 4),
              (Mx operation_mix_result_bytes, second_domain * 8)] s))"

definition fill_index :: "pbqp_edge \<Rightarrow> nat \<Rightarrow> nat \<Rightarrow> nat \<Rightarrow> nat \<Rightarrow> nat" where
  "fill_index fill_edge first_neighbor second_neighbor first_value second_value =
     (if eg_first fill_edge = first_neighbor then first_value else second_value) * eg_stride fill_edge +
     (if eg_second fill_edge = second_neighbor then second_value else first_value)"

definition add_edge_cost :: "nat \<Rightarrow> int \<Rightarrow> pbqp_edge \<Rightarrow> pbqp_edge" where
  "add_edge_cost i cost edge = edge\<lparr>eg_cost := (eg_cost edge)[i := accel_cost_add (eg_cost edge ! i) cost]\<rparr>"

text \<open>The loop over the results; \<open>results ! (a * second_domain + b)\<close> is \<open>results[job_count++]\<close>.\<close>

fun r2_apply ::
  "nat \<Rightarrow> nat \<Rightarrow> nat \<Rightarrow> nat \<Rightarrow> nat \<Rightarrow> min_argmin list \<Rightarrow> (nat \<times> nat) list \<Rightarrow> pbqp_problem \<Rightarrow> bool \<times> pbqp_problem" where
  "r2_apply node_index first_neighbor second_neighbor second_domain fill results [] p = (True, p)"
| "r2_apply node_index first_neighbor second_neighbor second_domain fill results ((a, b) # rest) p =
     (case results ! (a * second_domain + b) of (cost, index) \<Rightarrow>
        if index \<ge> nd_domain (node_at p node_index) then (False, p)
        else r2_apply node_index first_neighbor second_neighbor second_domain fill results rest
               (set_edge fill (add_edge_cost (fill_index (edge_at p fill) first_neighbor second_neighbor a b) cost)
                 (set_reconstruction node_index (a * second_domain + b) index p)))"

definition find_or_add_edge :: "nat \<Rightarrow> nat \<Rightarrow> pbqp_problem \<Rightarrow> nat option \<times> pbqp_problem" where
  "find_or_add_edge first second p =
     (case FindEdge p first second of None \<Rightarrow> AddFillEdge p first second | Some e \<Rightarrow> (Some e, p))"

definition ReduceR2 :: "'k solver \<Rightarrow> nat \<Rightarrow> nat \<Rightarrow> nat \<Rightarrow> 'k solver_state \<Rightarrow> pbqp_status \<times> 'k solver_state" where
  "ReduceR2 sv node_index first_edge_index second_edge_index st =
     (let p = ss_problem st; first_edge = edge_at p first_edge_index; second_edge = edge_at p second_edge_index;
          first_neighbor = OtherNode first_edge node_index; second_neighbor = OtherNode second_edge node_index;
          unary = nd_unary (node_at p node_index); domain = nd_domain (node_at p node_index);
          first_domain = nd_domain (node_at p first_neighbor);
          second_domain = nd_domain (node_at p second_neighbor)
      in case find_or_add_edge first_neighbor second_neighbor p of
           (None, p1) \<Rightarrow> (PBQP_CAPACITY_ERROR, set_problem p1 st)
         | (Some fill, p1) \<Rightarrow>
             let maximum_jobs = first_domain * second_domain;
                 vector_path = (cf_rn_batching (sv_config sv) = PBQP_RN_BATCH_PER_NODE \<and>
                   map3_project_batch (sv_api sv) \<noteq> None);
                 (ok, st1) = workspace sv (if vector_path then [first_domain, maximum_jobs]
                                           else [maximum_jobs, maximum_jobs]) (set_problem p1 st)
             in if \<not> ok then (PBQP_CAPACITY_ERROR, st1)
                else let st2 = with_statistics (if vector_path
                         then fold (record_r2_vector first_edge second_edge node_index domain second_domain)
                                [0..<first_domain]
                         else fold (record_r2_scalar first_edge second_edge node_index domain)
                                (List.product [0..<first_domain] [0..<second_domain])) st1;
                       called = (if vector_path
                         then on_kernel (Map3ProjectBatch (sv_api sv)
                           (map (\<lambda>a. (whole_view unary domain, EdgeView first_edge node_index a domain,
                                EdgeMatrix second_edge node_index second_domain domain)) [0..<first_domain])) st2
                         else on_kernel (Min3Batch (sv_api sv)
                           (map (\<lambda>(a, b). (whole_view unary domain, EdgeView first_edge node_index a domain,
                                EdgeView second_edge node_index b domain))
                              (List.product [0..<first_domain] [0..<second_domain]))) st2)
                  in case called of
                       (Inl _, st3) \<Rightarrow> (PBQP_KERNEL_ERROR, st3)
                     | (Inr results, st3) \<Rightarrow>
                         (case r2_apply node_index first_neighbor second_neighbor second_domain fill results
                                 (List.product [0..<first_domain] [0..<second_domain]) (ss_problem st3) of
                            (False, p') \<Rightarrow> (PBQP_ARGUMENT_ERROR, set_problem p' st3)
                          | (True, p') \<Rightarrow>
                              let p'' = eliminate kReductionR2 node_index
                                    (set_node node_index (\<lambda>node. node\<lparr>nd_first_neighbor := first_neighbor,
                                        nd_second_neighbor := second_neighbor\<rparr>)
                                      (drop_edge second_edge_index (drop_edge first_edge_index p')));
                                  descriptors = (if vector_path then first_domain else first_domain * second_domain);
                                  elements = descriptors * domain
                              in (PBQP_OK, Emit sv PBQP_TRACE_R2 (ReductionPhase sv) (int node_index) (- 1)
                                    (no_work\<lparr>wk_map3 := elements, wk_descriptors := descriptors,
                                       wk_structural := 1, wk_operand_bytes := 3 * elements * 4,
                                       wk_result_bytes := descriptors * 8\<rparr>)
                                    (with_statistics (bump (Rd r2_count) 1) (set_problem p'' st3)))))"

section \<open>Conditioning\<close>

definition record_condition :: "reduction_kind \<Rightarrow> nat \<Rightarrow> pbqp_statistics \<Rightarrow> pbqp_statistics" where
  "record_condition kind d =
     bumps ([(Cd condition_elements, d), (Cd condition_matrix_read_bytes, d * 4),
        (Cd condition_unary_read_bytes, d * 4), (Cd condition_unary_write_bytes, d * 4),
        (Mx slice_accumulate_elements, d), (Mx slice_accumulate_operations, 1),
        (Mx slice_accumulate_bytes, 3 * d * 4), (Mx operation_mix_operand_bytes, 2 * d * 4),
        (Mx operation_mix_result_bytes, d * 4)] @
       (if kind = kReductionRN
        then [(Rd rn_commit_elements, d), (Cd commit_matrix_read_bytes, d * 4),
          (Cd commit_unary_read_bytes, d * 4), (Cd commit_unary_write_bytes, d * 4),
          (Rd rn_commit_bytes, 3 * d * 4)]
        else []))"

definition condition_edge ::
  "nat \<Rightarrow> nat \<Rightarrow> reduction_kind \<Rightarrow> nat \<Rightarrow> pbqp_problem \<Rightarrow> pbqp_problem" where
  "condition_edge node_index choice kind edge_index p =
     (let edge = edge_at p edge_index
      in if \<not> incident edge node_index then p
         else let neighbor_index = OtherNode edge node_index;
                  d = nd_domain (node_at p neighbor_index);
                  slice = ConditionedEdgeView edge node_index choice d;
                  p1 = fold (\<lambda>v. set_node neighbor_index (add_unary v (view_at slice v))) [0..<d] p
           in drop_edge edge_index (p1\<lparr>pb_statistics := record_condition kind d (pb_statistics p1)\<rparr>))"

definition ConditionNode ::
  "nat \<Rightarrow> nat \<Rightarrow> reduction_kind \<Rightarrow> pbqp_problem \<Rightarrow> pbqp_status \<times> pbqp_problem" where
  "ConditionNode node_index choice kind p =
     (let node = node_at p node_index
      in if \<not> nd_active node \<or> choice \<ge> nd_domain node then (PBQP_ARGUMENT_ERROR, p)
         else let p1 = add_offset (nd_unary node ! choice)
                    (p\<lparr>pb_statistics := bump (Cd condition_count) 1 (pb_statistics p)\<rparr>);
                  p2 = fold (condition_edge node_index choice kind) [0..<pb_edge_capacity p] p1
           in (PBQP_OK, eliminate kind node_index (set_reconstruction node_index 0 choice p2)))"

section \<open>RN\<close>

definition RecordIrreducibleCore :: "pbqp_problem \<Rightarrow> pbqp_problem" where
  "RecordIrreducibleCore p =
     (let s = pb_statistics p; nodes_n = ActiveNodeCount p; edges_n = ActiveEdgeCount p;
          s1 = (if s (Rd rn_count) = 0
                then s(Cd first_rn_active_nodes := nodes_n, Cd first_rn_active_edges := edges_n) else s);
          s2 = (if nodes_n > s1 (Cd maximum_irreducible_core_nodes)
                then s1(Cd maximum_irreducible_core_nodes := nodes_n) else s1);
          s3 = (if edges_n > s2 (Cd maximum_irreducible_core_edges)
                then s2(Cd maximum_irreducible_core_edges := edges_n) else s2)
      in p\<lparr>pb_statistics := bump (Cd rn_episodes) 1 s3\<rparr>)"

definition record_rn_node :: "nat \<Rightarrow> pbqp_statistics \<Rightarrow> pbqp_statistics" where
  "record_rn_node degree s =
     (let s1 = bumps [(Rd rn_count, 1), (Rd rn_degree_total, degree)] s;
          s2 = (if s1 (Rd rn_count) = 1 \<or> degree < s1 (Rd rn_degree_min)
                then s1(Rd rn_degree_min := degree) else s1);
          s3 = (if degree > s2 (Rd rn_degree_max) then s2(Rd rn_degree_max := degree) else s2)
      in bump (Ar rn_degree_histogram degree) 1 s3)"

definition record_rn_vector ::
  "pbqp_edge \<Rightarrow> nat \<Rightarrow> nat \<Rightarrow> nat \<Rightarrow> pbqp_statistics \<Rightarrow> pbqp_statistics" where
  "record_rn_vector edge node_index domain neighbor_domain s =
     (let elements = domain * neighbor_domain
      in bumps [(Ar primitive_submissions opcode_minplus_project, 1),
           (Ar primitive_submissions opcode_cost_add_vector, 1),
           (Ar vector_length_histogram neighbor_domain, 1), (Ar vector_length_histogram domain, 1),
           (Mx vector_project_descriptors, 1), (Mx vector_add_descriptors, 1),
           (Rd rn_projection_primitives, 1), (Sb logical_map_elements, elements + domain),
           (Sb logical_bytes_read, (2 * elements + 2 * domain) * 4),
           (Sb logical_bytes_written, 2 * domain * 4), (Mx minplus_project_elements, elements),
           (Mx minplus_project_descriptors, 1), (Mx minplus_project_bytes, (2 * elements + domain) * 4),
           (Mx operation_mix_operand_bytes, 2 * elements * 4), (Mx operation_mix_result_bytes, domain * 4),
           (Rd rn_projection_map_elements, elements), (Rd rn_projection_operand_bytes, 2 * elements * 4),
           (Rd rn_projection_result_bytes, domain * 4)]
          (record_view 1 (fold (\<lambda>v. record_view (kv_stride (ConditionedEdgeView edge node_index v neighbor_domain)))
             [0..<domain] s)))"

definition record_rn_scalar ::
  "pbqp_edge \<Rightarrow> nat \<Rightarrow> nat \<Rightarrow> nat \<Rightarrow> pbqp_statistics \<Rightarrow> pbqp_statistics" where
  "record_rn_scalar edge node_index neighbor_domain v s =
     bumps [(Mx scalar_project_descriptors, 1), (Rd rn_projection_primitives, 1),
         (Rd rn_projection_map_elements, neighbor_domain),
         (Rd rn_projection_operand_bytes, 2 * neighbor_domain * 4), (Rd rn_projection_result_bytes, 4)]
       (record_minplus_project neighbor_domain 4
         (record_operation opcode_map_add_reduce_min neighbor_domain 2 4
           (record_view 1
             (record_view (kv_stride (ConditionedEdgeView edge node_index v neighbor_domain)) s))))"

definition record_rn_accumulate :: "nat \<Rightarrow> pbqp_statistics \<Rightarrow> pbqp_statistics" where
  "record_rn_accumulate domain =
     bumps [(Rd rn_score_accumulation_elements, domain), (Mx project_accumulate_elements, domain),
       (Mx project_accumulate_bytes, 3 * domain * 4), (Mx operation_mix_operand_bytes, 2 * domain * 4),
       (Mx operation_mix_result_bytes, domain * 4)]"

text \<open>\<open>scores[value] = accel_cost_add(scores[value], results[value])\<close> for every value of the domain.\<close>

definition add_scores :: "nat \<Rightarrow> int list \<Rightarrow> int list \<Rightarrow> int list" where
  "add_scores domain results scores =
     fold (\<lambda>v s. s[v := accel_cost_add (s ! v) (results ! v)]) [0..<domain] scores"

record rn_jobs =
  rj_scores :: "int list"
  rj_jobs :: "pbqp_min2_job list"
  rj_vector_jobs :: "pbqp_project_add_job list"

text \<open>
  The loop of \<open>ReduceRN\<close> over the edges. Per-edge batching submits the jobs of an edge at once; the
  other two paths collect jobs, and \<open>job_offset\<close> is the length of the collected list.
\<close>

fun rn_edge_loop ::
  "'k solver \<Rightarrow> bool \<Rightarrow> nat \<Rightarrow> nat list \<Rightarrow> rn_jobs \<Rightarrow> 'k solver_state \<Rightarrow> pbqp_status \<times> rn_jobs \<times> 'k solver_state" where
  "rn_edge_loop sv vector_path node_index [] rj st = (PBQP_OK, rj, st)"
| "rn_edge_loop sv vector_path node_index (edge_index # rest) rj st =
     (let p = ss_problem st; edge = edge_at p edge_index
      in if \<not> incident edge node_index then rn_edge_loop sv vector_path node_index rest rj st
         else let domain = nd_domain (node_at p node_index); neighbor = node_at p (OtherNode edge node_index);
                  unary = whole_view (nd_unary neighbor) (nd_domain neighbor);
                  edge_jobs = map (\<lambda>v. (ConditionedEdgeView edge node_index v (nd_domain neighbor), unary)) [0..<domain];
                  st1 = with_statistics (bump (Rd rn_projection_count) 1)
                    (with_statistics (if vector_path
                       then record_rn_vector edge node_index domain (nd_domain neighbor)
                       else fold (record_rn_scalar edge node_index (nd_domain neighbor)) [0..<domain]) st)
           in if cf_rn_batching (sv_config sv) = PBQP_RN_BATCH_PER_EDGE
              then (case on_kernel (Min2ValueBatch (sv_api sv) edge_jobs) st1 of
                      (Inl _, st2) \<Rightarrow> (PBQP_KERNEL_ERROR, rj, st2)
                    | (Inr results, st2) \<Rightarrow>
                        rn_edge_loop sv vector_path node_index rest
                          (rj\<lparr>rj_scores := add_scores domain results (rj_scores rj)\<rparr>)
                          (with_statistics (record_rn_accumulate domain) st2))
              else rn_edge_loop sv vector_path node_index rest
                     (if vector_path
                      then rj\<lparr>rj_vector_jobs := rj_vector_jobs rj @
                             [(ConditionedEdgeMatrix edge node_index domain (nd_domain neighbor), unary)]\<rparr>
                      else rj\<lparr>rj_jobs := rj_jobs rj @ edge_jobs\<rparr>)
                     (with_statistics (record_rn_accumulate domain) st1))"

text \<open>The submissions after the loop and the resulting scores.\<close>

definition rn_submit ::
  "'k solver \<Rightarrow> bool \<Rightarrow> nat \<Rightarrow> nat \<Rightarrow> rn_jobs \<Rightarrow> 'k solver_state \<Rightarrow> (pbqp_status + int list) \<times> 'k solver_state" where
  "rn_submit sv vector_path degree domain rj st =
     (if vector_path
      then if length (rj_vector_jobs rj) \<noteq> degree then (Inl PBQP_ARGUMENT_ERROR, st)
           else (case on_kernel (ProjectAddBatch (sv_api sv) (rj_vector_jobs rj) (rj_scores rj)) st of
                   (Inl _, st1) \<Rightarrow> (Inl PBQP_KERNEL_ERROR, st1)
                 | (Inr scores, st1) \<Rightarrow> (Inr scores, st1))
      else if cf_rn_batching (sv_config sv) = PBQP_RN_BATCH_PER_NODE
      then if length (rj_jobs rj) \<noteq> degree * domain then (Inl PBQP_ARGUMENT_ERROR, st)
           else (case on_kernel (Min2ValueBatch (sv_api sv) (rj_jobs rj)) st of
                   (Inl _, st1) \<Rightarrow> (Inl PBQP_KERNEL_ERROR, st1)
                 | (Inr results, st1) \<Rightarrow>
                     (Inr (fold (\<lambda>k. add_scores domain (drop (k * domain) results)) [0..<degree] (rj_scores rj)), st1))
      else (Inr (rj_scores rj), st))"

definition wrapping_difference :: "nat \<Rightarrow> nat \<Rightarrow> nat \<Rightarrow> nat" where
  "wrapping_difference width a b = nat ((int a - int b) mod 2 ^ width)"

definition rn_choose :: "int list \<Rightarrow> nat \<Rightarrow> nat" where
  "rn_choose scores domain =
     fold (\<lambda>v choice. if scores ! v < scores ! choice then v else choice) [1..<domain] 0"

text \<open>
  The end of \<open>ReduceRN\<close>: the score event, the RN record and the commitment. \<open>before_elements\<close> is an
  \<open>unsigned\<close> copy of a \<open>uint64_t\<close> counter.
\<close>

definition rn_commit ::
  "'k solver \<Rightarrow> nat \<Rightarrow> pbqp_statistics \<Rightarrow> int list \<Rightarrow> 'k solver_state \<Rightarrow> pbqp_status \<times> 'k solver_state" where
  "rn_commit sv node_index earlier scores st =
     (let domain = nd_domain (node_at (ss_problem st) node_index); choice = rn_choose scores domain;
          s = pb_statistics (ss_problem st);
          since = (\<lambda>w c. wrapping_difference w (s c) (earlier c));
          accumulate = since 64 (Rd rn_score_accumulation_elements);
          st1 = Emit sv PBQP_TRACE_RN_SCORE PBQP_TRACE_HEURISTIC (int node_index) (int choice)
            (no_work\<lparr>wk_project := since 64 (Rd rn_projection_map_elements),
               wk_project_accumulate := accumulate,
               wk_descriptors := since 32 (Rd rn_projection_primitives), wk_structural := 2,
               wk_operand_bytes := since 64 (Rd rn_projection_operand_bytes) + 2 * accumulate * 4,
               wk_result_bytes := since 64 (Rd rn_projection_result_bytes) + accumulate * 4\<rparr>) st;
          rn_index = wrapping_difference 32 (s (Rd rn_count)) 1;
          st2 = with_statistics (\<lambda>s. s(Ar rn_nodes rn_index := node_index, Ar rn_choices rn_index := choice)) st1;
          before_elements = pb_statistics (ss_problem st2) (Rd rn_commit_elements) mod 2 ^ 32;
          (status, p') = ConditionNode node_index choice kReductionRN (ss_problem st2);
          st3 = set_problem p' st2
      in if status \<noteq> PBQP_OK then (status, st3)
         else let elements = wrapping_difference 64 (pb_statistics p' (Rd rn_commit_elements)) before_elements
           in (status, Emit sv PBQP_TRACE_RN_COMMIT PBQP_TRACE_HEURISTIC (int node_index) (int choice)
                 (no_work\<lparr>wk_slice := elements, wk_structural := 1, wk_operand_bytes := 2 * elements * 4,
                    wk_result_bytes := elements * 4\<rparr>) st3))"

definition ReduceRN :: "'k solver \<Rightarrow> nat \<Rightarrow> 'k solver_state \<Rightarrow> pbqp_status \<times> 'k solver_state" where
  "ReduceRN sv node_index st =
     (let p = ss_problem st; domain = nd_domain (node_at p node_index); degree = degree_of p node_index
      in if domain \<noteq> 0 \<and> degree > (2 ^ 64 - 1) div domain then (PBQP_CAPACITY_ERROR, st)
         else let node_job_count = degree * domain;
                  per_node = (cf_rn_batching (sv_config sv) = PBQP_RN_BATCH_PER_NODE);
                  vector_path = (per_node \<and> project_add_batch (sv_api sv) \<noteq> None);
                  job_capacity = (if per_node then node_job_count else domain);
                  (ok, st1) = workspace sv (if vector_path then [domain, degree, node_job_count]
                                            else [domain, job_capacity, job_capacity]) st
           in if \<not> ok then (PBQP_CAPACITY_ERROR, st1)
              else (case rn_edge_loop sv vector_path node_index [0..<pb_edge_capacity p]
                      \<lparr>rj_scores = copy_prefix domain (nd_unary (node_at p node_index)) (replicate domain 0),
                       rj_jobs = [], rj_vector_jobs = []\<rparr>
                      (with_statistics (record_rn_node degree) st1) of
                   (status, rj, st2) \<Rightarrow>
                     if status \<noteq> PBQP_OK then (status, st2)
                     else (case rn_submit sv vector_path degree domain rj st2 of
                          (Inl failed, st3) \<Rightarrow> (failed, st3)
                        | (Inr scores, st3) \<Rightarrow> rn_commit sv node_index (pb_statistics p) scores st3)))"

section \<open>Reconstruction\<close>

text \<open>The step of \<open>ReconstructSolution\<close> for one eliminated node, and the loop from the last one back.\<close>

definition reconstruct_node :: "pbqp_problem \<Rightarrow> nat \<Rightarrow> nat list \<Rightarrow> nat list" where
  "reconstruct_node p node_index assignment =
     (let node = node_at p node_index; choice = pb_reconstruction p ! node_index
      in assignment[node_index := choice !
           (case nd_reduction_kind node of
              kReductionR1 \<Rightarrow> assignment ! nd_first_neighbor node
            | kReductionR2 \<Rightarrow> assignment ! nd_first_neighbor node *
                  nd_domain (node_at p (nd_second_neighbor node)) + assignment ! nd_second_neighbor node
            | _ \<Rightarrow> 0)])"

definition ReconstructSolution :: "pbqp_problem \<Rightarrow> nat list \<Rightarrow> nat list" where
  "ReconstructSolution p assignment =
     fold (reconstruct_node p) (rev (take (pb_elimination_count p) (pb_elimination_order p))) assignment"

end
