(* ===== verification/Pbqp_Search.thy ===== *)
theory Pbqp_Search
  imports Pbqp_Reduce
begin

text \<open>
  The searches of class \<open>Solver\<close> in \<open>software/pbqp/pbqp.cpp\<close>: local descent and its multi-start
  driver, the enumeration of an irreducible core, the lower bound and the branch-and-reduce search
  with pruning.

  A solution is the pair of its optimum and its assignment array. The descent loop has no bound in
  the source: it is a \<open>partial_function\<close> in the option monad, \<open>None\<close> meaning that it does not return.
  The reduction loop and the recursion of \<open>SolveBranchAndReduce\<close> eliminate a node each time, so they
  recurse on fuel, \<open>None\<close> meaning that the fuel ran out.
\<close>

type_synonym solution_cell = "int \<times> nat list"

section \<open>Local search\<close>

definition record_local_slice :: "nat \<Rightarrow> pbqp_statistics \<Rightarrow> pbqp_statistics" where
  "record_local_slice d =
     bumps [(Ls local_search_slice_accumulations, 1), (Ls local_search_slice_elements, d),
       (Ls local_search_matrix_read_bytes, d * 4), (Ls local_search_score_read_bytes, d * 4),
       (Ls local_search_score_write_bytes, d * 4), (Mx slice_accumulate_elements, d),
       (Mx slice_accumulate_operations, 1), (Mx slice_accumulate_bytes, 3 * d * 4),
       (Mx operation_mix_operand_bytes, 2 * d * 4), (Mx operation_mix_result_bytes, d * 4)]"

definition local_slice :: "pbqp_problem \<Rightarrow> nat list \<Rightarrow> nat \<Rightarrow> nat \<Rightarrow> int list" where
  "local_slice p assignment node_index edge_index =
     (let edge = edge_at p edge_index; neighbor = OtherNode edge node_index;
          d = nd_domain (node_at p node_index)
      in map (view_at (ConditionedEdgeView edge neighbor (assignment ! neighbor) d)) [0..<d])"

text \<open>
  The scores of a node: its unary costs plus one slice per incident edge. Only the first
  \<open>node.domain\<close> entries of the scratch array are read afterwards, and all of them are written here.
\<close>

definition local_scores :: "pbqp_problem \<Rightarrow> nat list \<Rightarrow> nat \<Rightarrow> int list" where
  "local_scores p assignment node_index =
     (let d = nd_domain (node_at p node_index)
      in fold (\<lambda>edge_index scores.
             if incident (edge_at p edge_index) node_index
             then add_scores d (local_slice p assignment node_index edge_index) scores else scores)
           [0..<pb_edge_capacity p]
           (copy_prefix d (nd_unary (node_at p node_index)) (replicate (pb_domain_capacity p) 0)))"

text \<open>One iteration of the node loop; the state is \<open>changed\<close>, the assignment and the solver state.\<close>

definition descent_node ::
  "'k solver \<Rightarrow> nat \<Rightarrow> bool \<times> nat list \<times> 'k solver_state \<Rightarrow> pbqp_status \<times> bool \<times> nat list \<times> 'k solver_state" where
  "descent_node sv node_index current =
     (case current of (changed, assignment, st) \<Rightarrow>
        let p = ss_problem st; d = nd_domain (node_at p node_index); degree = degree_of p node_index;
            scores = local_scores p assignment node_index;
            st1 = with_statistics (\<lambda>s. record_argmin_vector d (record_operation opcode_map_add_reduce_min_argmin d 2 8
                (record_view 1 (record_view 1 (((record_local_slice d) ^^ degree) s))))) st
        in case on_kernel (Min2 (sv_api sv)
                  (whole_view scores d, whole_view (replicate (pb_domain_capacity p) 0) d)) st1 of
             (Inl _, st2) \<Rightarrow> (PBQP_KERNEL_ERROR, changed, assignment, st2)
           | (Inr (best_value, best_index), st2) \<Rightarrow>
               if best_index \<ge> d then (PBQP_ARGUMENT_ERROR, changed, assignment, st2)
               else let slice_elements = degree * d;
                        st3 = with_statistics (bumps [(Ls local_search_node_evaluations, 1),
                            (Ls local_search_argmin_reductions, 1), (Ls local_search_argmin_elements, d)])
                          (Emit sv PBQP_TRACE_LOCAL_SCORE PBQP_TRACE_LOCAL_SEARCH (int node_index) (int best_index)
                            (no_work\<lparr>wk_slice := slice_elements, wk_argmin := d, wk_descriptors := 1,
                               wk_structural := 2, wk_operand_bytes := 2 * (slice_elements + d) * 4,
                               wk_result_bytes := slice_elements * 4 + 8\<rparr>) st2)
                 in if best_value < scores ! (assignment ! node_index)
                    then (PBQP_OK, True, assignment[node_index := best_index],
                          Emit sv PBQP_TRACE_LOCAL_MOVE PBQP_TRACE_LOCAL_SEARCH (int node_index) (int best_index) no_work
                            (with_statistics (bump (Ls local_search_accepted_moves) 1) st3))
                    else (PBQP_OK, changed, assignment, st3))"

fun descent_sweep ::
  "'k solver \<Rightarrow> nat list \<Rightarrow> bool \<times> nat list \<times> 'k solver_state \<Rightarrow> pbqp_status \<times> bool \<times> nat list \<times> 'k solver_state" where
  "descent_sweep sv [] current = (PBQP_OK, current)"
| "descent_sweep sv (n # ns) current =
     (case descent_node sv n current of
        (status, current') \<Rightarrow> if status \<noteq> PBQP_OK then (status, current') else descent_sweep sv ns current')"

partial_function (option) descent_loop ::
  "'k solver \<Rightarrow> nat list \<Rightarrow> 'k solver_state \<Rightarrow> (pbqp_status \<times> nat list \<times> 'k solver_state) option" where
  [code]: "descent_loop sv assignment st =
     (case descent_sweep sv [0..<pb_node_count (ss_problem st)]
             (False, assignment, with_statistics (bump (Ls local_search_sweeps) 1) st) of
        (status, changed, assignment', st') \<Rightarrow>
          if status \<noteq> PBQP_OK then Some (status, assignment', st')
          else if changed then descent_loop sv assignment' st'
          else Some (PBQP_OK, assignment', st'))"

text \<open>\<open>RunLocalDescent\<close> changes the caller's assignment array in place; the array is returned too.\<close>

definition RunLocalDescent ::
  "'k solver \<Rightarrow> nat list \<Rightarrow> solution_cell \<Rightarrow> 'k solver_state \<Rightarrow>
     (pbqp_status \<times> nat list \<times> solution_cell \<times> 'k solver_state) option" where
  "RunLocalDescent sv assignment solution st =
     (let dc = pb_domain_capacity (ss_problem st); (ok, st1) = workspace sv [dc, dc] st
      in if \<not> ok then Some (PBQP_CAPACITY_ERROR, assignment, solution, st1)
         else (case descent_loop sv assignment st1 of
              None \<Rightarrow> None
            | Some (status, assignment', st2) \<Rightarrow>
                if status \<noteq> PBQP_OK then Some (status, assignment', solution, st2)
                else Some (PBQP_OK, assignment',
                  (pbqp_evaluate (ss_problem st2) assignment',
                   copy_prefix (pb_node_count (ss_problem st2)) assignment' (snd solution)), st2)))"

text \<open>
  The restarts of \<open>SolveLocalSearch\<close> over the pairs of a node and a nonzero value. \<open>initial\<close> is the
  array the descents changed so far; only the perturbed node is set back to zero.
\<close>

fun local_starts ::
  "'k solver \<Rightarrow> (nat \<times> nat) list \<Rightarrow> nat list \<Rightarrow> solution_cell \<Rightarrow> nat list \<Rightarrow> 'k solver_state \<Rightarrow>
     (pbqp_status \<times> solution_cell \<times> 'k solver_state) option" where
  "local_starts sv [] initial best candidate_array st = Some (PBQP_OK, best, st)"
| "local_starts sv ((node, v) # rest) initial best candidate_array st =
     (case RunLocalDescent sv (initial[node := v]) (ACCEL_INF, candidate_array) st of
        None \<Rightarrow> None
      | Some (status, initial', candidate, st') \<Rightarrow>
          if status \<noteq> PBQP_OK then Some (status, best, st')
          else local_starts sv rest (initial'[node := 0])
                 (if fst candidate < fst best
                  then (fst candidate, copy_prefix (pb_node_count (ss_problem st')) (snd candidate) (snd best))
                  else best)
                 (snd candidate) st')"

definition SolveLocalSearch ::
  "'k solver \<Rightarrow> solution_cell \<Rightarrow> 'k solver_state \<Rightarrow> (pbqp_status \<times> solution_cell \<times> 'k solver_state) option" where
  "SolveLocalSearch sv solution st =
     (let p = ss_problem st; n = pb_node_count p; (ok, st1) = workspace sv [n, n, n] st
      in if \<not> ok then Some (PBQP_CAPACITY_ERROR, solution, st1)
         else (case RunLocalDescent sv (replicate n 0) (ACCEL_INF, replicate n 0) st1 of
              None \<Rightarrow> None
            | Some (status, initial, best, st2) \<Rightarrow>
                if status \<noteq> PBQP_OK then Some (status, solution, st2)
                else (case local_starts sv
                        (concat (map (\<lambda>node. map (Pair node) [1..<nd_domain (node_at p node)]) [0..<n]))
                        initial best (replicate n 0) st2 of
                     None \<Rightarrow> None
                   | Some (status, best', st3) \<Rightarrow>
                       if status \<noteq> PBQP_OK then Some (status, solution, st3)
                       else Some (PBQP_OK, (fst best', copy_prefix n (snd best') (snd solution)), st3))))"

section \<open>Enumeration of the core\<close>

definition EvaluateActiveCore :: "pbqp_problem \<Rightarrow> nat list \<Rightarrow> int" where
  "EvaluateActiveCore p assignment =
     fold (\<lambda>index sum_cost.
         let edge = edge_at p index
         in if eg_active edge
            then accel_cost_add sum_cost (eg_cost edge !
                   (assignment ! eg_first edge * eg_stride edge + assignment ! eg_second edge))
            else sum_cost)
       [0..<pb_edge_capacity p]
       (fold (\<lambda>n sum_cost. if nd_active (node_at p n)
            then accel_cost_add sum_cost (nd_unary (node_at p n) ! (assignment ! n)) else sum_cost)
         [0..<pb_node_count p] 0)"

record core_search =
  co_statistics :: pbqp_statistics
  co_assignment :: "nat list"
  co_solution :: solution_cell
  co_has_assignment :: bool
  co_limit_hit :: bool

text \<open>The entry of \<open>EnumerateActiveCore\<close>: the search limit, the visit counter and the depth.\<close>

definition core_visit :: "nat \<Rightarrow> nat \<Rightarrow> core_search \<Rightarrow> core_search" where
  "core_visit maximum_search_nodes node co =
     (if maximum_search_nodes \<noteq> 0 \<and> co_statistics co (Sb search_nodes_visited) = maximum_search_nodes
      then co\<lparr>co_limit_hit := True\<rparr>
      else let s = bump (Sb search_nodes_visited) 1 (co_statistics co)
        in co\<lparr>co_statistics := (if node > s (Sb search_maximum_depth)
                then s(Sb search_maximum_depth := node) else s)\<rparr>)"

definition core_leaf :: "pbqp_problem \<Rightarrow> core_search \<Rightarrow> core_search" where
  "core_leaf p co =
     (let v = EvaluateActiveCore p (co_assignment co)
      in if \<not> co_has_assignment co \<or> v < fst (co_solution co)
         then co\<lparr>co_solution := (v, copy_prefix (pb_node_count p) (co_assignment co) (snd (co_solution co))),
                 co_has_assignment := True\<rparr>
         else co)"

primrec EnumerateActiveCore :: "nat \<Rightarrow> nat \<Rightarrow> pbqp_problem \<Rightarrow> core_search \<Rightarrow> core_search" where
  "EnumerateActiveCore 0 maximum_search_nodes p co =
     (let co1 = core_visit maximum_search_nodes (pb_node_count p) co
      in if co_limit_hit co1 then co1 else core_leaf p co1)"
| "EnumerateActiveCore (Suc remaining) maximum_search_nodes p co =
     (let node = pb_node_count p - Suc remaining; co1 = core_visit maximum_search_nodes node co
      in if co_limit_hit co1 then co1
         else if \<not> nd_active (node_at p node) then EnumerateActiveCore remaining maximum_search_nodes p co1
         else fold (\<lambda>v co. if co_limit_hit co then co
                else EnumerateActiveCore remaining maximum_search_nodes p
                       (co\<lparr>co_statistics := bump (Sb search_branches_created) 1 (co_statistics co),
                           co_assignment := (co_assignment co)[node := v]\<rparr>))
              [0..<nd_domain (node_at p node)] co1)"

section \<open>Branch and reduce\<close>

text \<open>The cheapest entry of each active table, started from the first entry as in the source.\<close>

definition RemainingCoreLowerBound :: "pbqp_problem \<Rightarrow> int" where
  "RemainingCoreLowerBound p =
     fold (\<lambda>index bound.
         let edge = edge_at p index
         in if \<not> eg_active edge then bound
            else accel_cost_add bound (fold (\<lambda>(row, col) minimum. min (eg_cost edge ! (row * eg_stride edge + col)) minimum)
                   (List.product [0..<nd_domain (node_at p (eg_first edge))]
                      [0..<nd_domain (node_at p (eg_second edge))])
                   (eg_cost edge ! 0)))
       [0..<pb_edge_capacity p]
       (fold (\<lambda>index bound.
           let node = node_at p index
           in if \<not> nd_active node then bound
              else accel_cost_add bound (fold (\<lambda>choice minimum. min (nd_unary node ! choice) minimum)
                     [1..<nd_domain node] (nd_unary node ! 0)))
         [0..<pb_node_capacity p] 0)"

text \<open>\<open>NeighborCount\<close> and the reduction it selects.\<close>

definition reduce_node :: "'k solver \<Rightarrow> nat \<Rightarrow> 'k solver_state \<Rightarrow> pbqp_status \<times> 'k solver_state" where
  "reduce_node sv node st =
     (case NeighborCount (ss_problem st) node [0, 0] of
        (degree, edge_indices) \<Rightarrow>
          if degree = 0 then ReduceR0 sv node st
          else if degree = 1 then ReduceR1 sv node (edge_indices ! 0) st
          else ReduceR2 sv node (edge_indices ! 0) (edge_indices ! 1) st)"

primrec reduce_all :: "nat \<Rightarrow> 'k solver \<Rightarrow> 'k solver_state \<Rightarrow> (pbqp_status \<times> 'k solver_state) option" where
  "reduce_all 0 sv st = None"
| "reduce_all (Suc fuel) sv st =
     (case FindReducibleNode (ss_problem st) of
        None \<Rightarrow> Some (PBQP_OK, st)
      | Some node \<Rightarrow>
          (case reduce_node sv node st of
             (status, st') \<Rightarrow> if status \<noteq> PBQP_OK then Some (status, st') else reduce_all fuel sv st'))"

definition count_up :: "nat \<Rightarrow> nat \<Rightarrow> nat" where
  "count_up width n = (n + 1) mod 2 ^ width"

definition limit_hit :: "search_control \<Rightarrow> 'k solver_state \<Rightarrow> search_control \<times> 'k solver_state" where
  "limit_hit search st =
     (let search' = search\<lparr>sc_limit_hits := count_up 32 (sc_limit_hits search)\<rparr>
      in (search', with_statistics (record_search_statistics search') st))"

text \<open>\<open>Problem child_storage(*state, allocator)\<close>: one allocation request, then the deep copy.\<close>

definition clone_state :: "'k solver \<Rightarrow> 'k solver_state \<Rightarrow> pbqp_status \<times> pbqp_problem \<times> 'k solver_state" where
  "clone_state sv st =
     (let p = ss_problem st; n = ss_allocations st;
          allocator = (if cf_workspace_allocator (sv_config sv) \<or> pb_allocator p
                       then Some (\<lambda>_. sv_grants sv n) else None)
      in case pbqp_problem_clone (Some empty_problem) (Some p) allocator of
           (status, child) \<Rightarrow>
             (status, (case child of Some c \<Rightarrow> c | None \<Rightarrow> empty_problem), st\<lparr>ss_allocations := n + 1\<rparr>))"

definition branch_elements :: "pbqp_problem \<Rightarrow> nat \<Rightarrow> nat" where
  "branch_elements p branch_node =
     fold (\<lambda>e elements. if incident (edge_at p e) branch_node
           then (elements + nd_domain (node_at p (OtherNode (edge_at p e) branch_node))) mod 2 ^ 32 else elements)
       [0..<pb_edge_capacity p] 0"

text \<open>
  The loop over the values of the branch node. \<open>base\<close> and \<open>aggregate\<close> are structure copies of the
  state's statistics: their pointer members are the state's own arrays, which \<open>share_arrays\<close> makes
  explicit. \<open>solve\<close> is the recursive call; \<open>bl_best\<close> is \<open>None\<close> until \<open>has_best\<close> is set. The result
  \<open>Inl\<close> is a return from the middle of the loop.
\<close>

record 'k branch_loop =
  bl_best :: "solution_cell option"
  bl_best_array :: "nat list"
  bl_aggregate :: pbqp_statistics
  bl_search :: search_control
  bl_state :: "'k solver_state"

type_synonym 'k branch_solver =
  "nat \<Rightarrow> search_control \<Rightarrow> int \<Rightarrow> solution_cell \<Rightarrow> 'k solver_state \<Rightarrow>
     (pbqp_status \<times> solution_cell \<times> search_control \<times> 'k solver_state) option"

definition child_best_known :: "int \<Rightarrow> solution_cell option \<Rightarrow> int" where
  "child_best_known best_known best =
     (let own = (case best of None \<Rightarrow> ACCEL_INF | Some b \<Rightarrow> fst b)
      in if best_known < own then best_known else own)"

definition branch_merge ::
  "pbqp_statistics \<Rightarrow> pbqp_status \<Rightarrow> solution_cell \<Rightarrow> search_control \<Rightarrow> pbqp_problem \<Rightarrow> 'k solver_state \<Rightarrow>
     'k branch_loop \<Rightarrow> 'k branch_loop" where
  "branch_merge base status candidate search parent st bl =
     (let child = ss_problem st;
          aggregate = add_branch_statistics (share_arrays (pb_statistics parent) (bl_aggregate bl))
            (share_arrays (pb_statistics parent) base) (pb_statistics child) (pb_domain_capacity child);
          best = (if status = PBQP_OK \<and>
                     (case bl_best bl of None \<Rightarrow> True | Some b \<Rightarrow> fst candidate < fst b)
                  then Some (fst candidate, copy_prefix (pb_node_count parent) (snd candidate)
                         (case bl_best bl of None \<Rightarrow> bl_best_array bl | Some b \<Rightarrow> snd b))
                  else bl_best bl)
      in bl\<lparr>bl_best := best, bl_aggregate := aggregate, bl_search := search,
            bl_state := set_problem (parent\<lparr>pb_statistics := share_arrays aggregate (pb_statistics parent)\<rparr>) st\<rparr>)"

fun branch_values ::
  "'k branch_solver \<Rightarrow> 'k solver \<Rightarrow> nat \<Rightarrow> nat \<Rightarrow> int \<Rightarrow> pbqp_statistics \<Rightarrow> nat list \<Rightarrow> 'k branch_loop \<Rightarrow>
     ((pbqp_status \<times> search_control \<times> 'k solver_state) + 'k branch_loop) option" where
  "branch_values solve sv branch_node depth best_known base [] bl = Some (Inr bl)"
| "branch_values solve sv branch_node depth best_known base (v # vs) bl =
     (let st = bl_state bl; parent = ss_problem st; search = bl_search bl
      in case clone_state sv st of
           (status, cloned, st1) \<Rightarrow>
             if status \<noteq> PBQP_OK
             then (case limit_hit search st1 of (search', st2) \<Rightarrow> Some (Inl (PBQP_SEARCH_LIMIT, search', st2)))
             else let child = cloned\<lparr>pb_statistics := copy_statistics (pb_statistics cloned)
                          (share_arrays (pb_statistics parent) base) (pb_node_capacity cloned)
                          (pb_domain_capacity cloned)\<rparr>;
                      elements = branch_elements child branch_node
               in case ConditionNode branch_node v kReductionBranch child of
                    (condition, child1) \<Rightarrow>
                      if condition \<noteq> PBQP_OK then Some (Inl (condition, search, st1))
                      else let st2 = Emit sv PBQP_TRACE_BRANCH_CONDITION PBQP_TRACE_EXACT_SEARCH
                                 (int branch_node) (int v)
                                 (no_work\<lparr>wk_slice := elements, wk_structural := 1,
                                    wk_operand_bytes := 2 * elements * 4, wk_result_bytes := elements * 4\<rparr>)
                                 (set_problem child1 st1);
                               (ok, st3) = workspace sv [pb_node_count parent] (set_problem parent st2)
                        in if \<not> ok
                           then (case limit_hit search st3 of
                                   (search', st4) \<Rightarrow> Some (Inl (PBQP_SEARCH_LIMIT, search', st4)))
                           else (case solve (depth + 1)
                                   (search\<lparr>sc_branches_created := count_up 64 (sc_branches_created search)\<rparr>)
                                   (child_best_known best_known (bl_best bl))
                                   (ACCEL_INF, replicate (pb_node_count parent) 0) (set_problem child1 st3) of
                                None \<Rightarrow> None
                              | Some (status, candidate, search', st4) \<Rightarrow>
                                  if status \<noteq> PBQP_OK \<and> status \<noteq> PBQP_PRUNED
                                  then Some (Inl (status, search', with_statistics (record_search_statistics search')
                                         (set_problem parent st4)))
                                  else branch_values solve sv branch_node depth best_known base vs
                                         (branch_merge base status candidate search' parent st4 bl)))"

text \<open>The part of \<open>SolveBranchAndReduce\<close> after the reductions: prune, finish, or branch.\<close>

definition branch_step ::
  "'k branch_solver \<Rightarrow> 'k solver \<Rightarrow> 'k branch_solver" where
  "branch_step solve sv depth search best_known solution st =
     (let p = ss_problem st
      in if best_known \<noteq> ACCEL_INF \<and>
            accel_cost_add (pb_objective_offset p) (RemainingCoreLowerBound p) \<ge> best_known
         then let search' = search\<lparr>sc_nodes_pruned := count_up 32 (sc_nodes_pruned search)\<rparr>
           in Some (PBQP_PRUNED, solution, search', with_statistics (record_search_statistics search') st)
         else if ActiveNodeCount p = 0
         then Some (PBQP_OK, (pb_objective_offset p, ReconstructSolution p (snd solution)), search,
                with_statistics (record_search_statistics search) st)
         else (case SelectRnNode (cf_rn_policy (sv_config sv)) p of
              None \<Rightarrow> Some (PBQP_IRREDUCIBLE, solution, search, st)
            | Some branch_node \<Rightarrow>
                let domain = nd_domain (node_at p branch_node);
                    st1 = Emit sv PBQP_TRACE_BRANCH_SELECT PBQP_TRACE_EXACT_SEARCH (int branch_node) (- 1)
                      (no_work\<lparr>wk_branch_domain := domain\<rparr>) st;
                    (ok, st2) = workspace sv [pb_node_count p] st1
                in if \<not> ok
                   then (case limit_hit search st2 of (search', st3) \<Rightarrow> Some (PBQP_SEARCH_LIMIT, solution, search', st3))
                   else (case branch_values solve sv branch_node depth best_known (pb_statistics p) [0..<domain]
                            \<lparr>bl_best = None, bl_best_array = replicate (pb_node_count p) 0,
                             bl_aggregate = pb_statistics p, bl_search = search, bl_state = st2\<rparr> of
                        None \<Rightarrow> None
                      | Some (Inl (status, search', st3)) \<Rightarrow> Some (status, solution, search', st3)
                      | Some (Inr bl) \<Rightarrow>
                          let st3 = with_statistics (record_search_statistics (bl_search bl))
                                (with_statistics (\<lambda>_. bl_aggregate bl) (bl_state bl))
                          in (case bl_best bl of
                                None \<Rightarrow> Some (PBQP_PRUNED, solution, bl_search bl, st3)
                              | Some best \<Rightarrow>
                                  Some (PBQP_OK, (fst best, copy_prefix (pb_node_count p) (snd best) (snd solution)),
                                        bl_search bl, st3)))))"

definition no_search :: search_control where
  "no_search = \<lparr>sc_nodes_visited = 0, sc_branches_created = 0, sc_maximum_depth = 0, sc_limit_hits = 0,
     sc_nodes_pruned = 0\<rparr>"

primrec SolveBranchAndReduce :: "nat \<Rightarrow> 'k solver \<Rightarrow> 'k branch_solver" where
  "SolveBranchAndReduce 0 sv = (\<lambda>depth search best_known solution st. None)"
| "SolveBranchAndReduce (Suc fuel) sv = (\<lambda>depth search best_known solution st.
     let maximum = cf_maximum_search_nodes (sv_config sv)
     in if maximum \<noteq> 0 \<and> sc_nodes_visited search \<ge> maximum
        then (case limit_hit search st of (search', st') \<Rightarrow> Some (PBQP_SEARCH_LIMIT, solution, search', st'))
        else let search1 = search\<lparr>sc_nodes_visited := count_up 64 (sc_nodes_visited search),
                   sc_maximum_depth := max depth (sc_maximum_depth search)\<rparr>
          in case reduce_all (Suc (pb_node_count (ss_problem st))) sv st of
               None \<Rightarrow> None
             | Some (status, st1) \<Rightarrow>
                 if status \<noteq> PBQP_OK then Some (status, solution, search1, st1)
                 else branch_step (SolveBranchAndReduce fuel sv) sv depth search1 best_known solution st1)"

end
