(* ===== verification/Pbqp_Solver.thy ===== *)
theory Pbqp_Solver
  imports Pbqp_Search
begin

text \<open>
  \<open>Solver::Solve\<close> and the solver handle of the C interface (\<open>software/pbqp/pbqp.cpp\<close>): the reduction
  loop with its RN episodes, the choice between the strategies, and \<open>pbqp_solver_create\<close> and
  \<open>pbqp_solver_solve\<close>. The loop eliminates a node per iteration and gets \<open>node_count + 1\<close> units of
  fuel; \<open>None\<close> is a solve that does not return. The final \<open>assert\<close> of the combined strategy is a
  theorem of the development, not a branch.
\<close>

section \<open>The reduction loop\<close>

definition record_rn_cascade :: "nat option \<Rightarrow> pbqp_statistics \<Rightarrow> pbqp_statistics" where
  "record_rn_cascade rn_episode s =
     (case rn_episode of
        None \<Rightarrow> s
      | Some i \<Rightarrow>
          let len = (s (Ar rn_cascade_r0 i) + s (Ar rn_cascade_r1 i) + s (Ar rn_cascade_r2 i)) mod 2 ^ 32;
              s1 = bumps [(Ar rn_cascade_length_histogram len, 1), (Cd rn_cascade_total_length, len)] s
          in if len > s1 (Cd rn_cascade_maximum_length) then s1(Cd rn_cascade_maximum_length := len) else s1)"

definition record_after_rn :: "nat option \<Rightarrow> nat \<Rightarrow> pbqp_statistics \<Rightarrow> pbqp_statistics" where
  "record_after_rn rn_episode degree s =
     (case rn_episode of
        None \<Rightarrow> s
      | Some i \<Rightarrow>
          if degree = 0 then bumps [(Cd r0_after_rn, 1), (Ar rn_cascade_r0 i, 1)] s
          else if degree = 1 then bumps [(Cd r1_after_rn, 1), (Ar rn_cascade_r1 i, 1)] s
          else bumps [(Cd r2_after_rn, 1), (Ar rn_cascade_r2 i, 1)] s)"

text \<open>How the loop ends: with a status, or irreducible with an exact strategy still to run.\<close>

datatype loop_end = Returned pbqp_status solution_cell | CoreLeft

definition rn_episode_step :: "'k solver \<Rightarrow> nat option \<Rightarrow> 'k solver_state \<Rightarrow> pbqp_status \<times> nat option \<times> 'k solver_state" where
  "rn_episode_step sv rn_episode st =
     (let st1 = with_statistics (record_rn_cascade rn_episode) st;
          st2 = set_problem (RecordIrreducibleCore (ss_problem st1)) st1
      in case SelectRnNode (cf_rn_policy (sv_config sv)) (ss_problem st2) of
           None \<Rightarrow> (PBQP_IRREDUCIBLE, rn_episode, st2)
         | Some rn_node \<Rightarrow>
             (case ReduceRN sv rn_node (Emit sv PBQP_TRACE_RN_SELECT PBQP_TRACE_HEURISTIC (int rn_node) (- 1) no_work st2) of
                (status, st3) \<Rightarrow>
                  if status \<noteq> PBQP_OK then (status, rn_episode, st3)
                  else (PBQP_OK, Some (wrapping_difference 32 (pb_statistics (ss_problem st3) (Rd rn_count)) 1), st3)))"

primrec solve_loop ::
  "nat \<Rightarrow> 'k solver \<Rightarrow> nat option \<Rightarrow> solution_cell \<Rightarrow> 'k solver_state \<Rightarrow> (loop_end \<times> 'k solver_state) option" where
  "solve_loop 0 sv rn_episode solution st = None"
| "solve_loop (Suc fuel) sv rn_episode solution st =
     (case FindReducibleNode (ss_problem st) of
        None \<Rightarrow>
          if ActiveNodeCount (ss_problem st) = 0
          then let st1 = with_statistics (record_rn_cascade rn_episode) st; p = ss_problem st1
            in Some (Returned PBQP_OK (pb_objective_offset p, ReconstructSolution p (snd solution)), st1)
          else if cf_strategy (sv_config sv) = PBQP_STRATEGY_REDUCE_ONLY
          then Some (Returned PBQP_IRREDUCIBLE solution, st)
          else if cf_strategy (sv_config sv) = PBQP_STRATEGY_HEURISTIC_RN
          then (case rn_episode_step sv rn_episode st of
                  (status, rn_episode', st1) \<Rightarrow>
                    if status \<noteq> PBQP_OK then Some (Returned status solution, st1)
                    else solve_loop fuel sv rn_episode' solution st1)
          else Some (CoreLeft, st)
      | Some node \<Rightarrow>
          (case reduce_node sv node st of
             (status, st1) \<Rightarrow>
               let st2 = with_statistics (record_after_rn rn_episode (degree_of (ss_problem st) node)) st1
               in if status \<noteq> PBQP_OK then Some (Returned status solution, st2)
                  else solve_loop fuel sv rn_episode solution st2))"

section \<open>Strategies\<close>

definition solve_core ::
  "'k solver \<Rightarrow> solution_cell \<Rightarrow> 'k solver_state \<Rightarrow> pbqp_status \<times> solution_cell \<times> 'k solver_state" where
  "solve_core sv solution st =
     (let p = ss_problem st; n = pb_node_count p; (ok, st1) = workspace sv [n] st
      in if \<not> ok then (PBQP_CAPACITY_ERROR, solution, st1)
         else let co = EnumerateActiveCore n (cf_maximum_search_nodes (sv_config sv)) p
                    \<lparr>co_statistics = pb_statistics p, co_assignment = replicate n 0,
                     co_solution = (ACCEL_INF, snd solution), co_has_assignment = False, co_limit_hit = False\<rparr>;
                  st2 = with_statistics (\<lambda>_. co_statistics co) st1
           in if co_limit_hit co
              then (PBQP_SEARCH_LIMIT, co_solution co, with_statistics (bump (Sb search_limit_hits) 1) st2)
              else (PBQP_OK, (accel_cost_add (pb_objective_offset p) (fst (co_solution co)),
                      ReconstructSolution p (snd (co_solution co))), st2))"

text \<open>\<open>Solve\<close> for every strategy but the combined one.\<close>

definition solve_strategy ::
  "'k solver \<Rightarrow> solution_cell \<Rightarrow> 'k solver_state \<Rightarrow> (pbqp_status \<times> solution_cell \<times> 'k solver_state) option" where
  "solve_strategy sv solution st =
     (let p = ss_problem st;
          st1 = with_statistics (\<lambda>s. s(Rd nodes := pb_node_count p, Rd initial_edges := pb_edge_count p)) st;
          strategy = cf_strategy (sv_config sv)
      in if strategy = PBQP_STRATEGY_LOCAL_SEARCH then SolveLocalSearch sv solution st1
         else (case solve_loop (Suc (pb_node_count p)) sv None solution st1 of
              None \<Rightarrow> None
            | Some (Returned status solution', st2) \<Rightarrow> Some (status, solution', st2)
            | Some (CoreLeft, st2) \<Rightarrow>
                if strategy = PBQP_STRATEGY_EXACT_BRANCH_REDUCE
                then (case SolveBranchAndReduce (Suc (pb_node_count p)) sv 0 no_search ACCEL_INF solution st2 of
                        None \<Rightarrow> None
                      | Some (status, solution', search, st3) \<Rightarrow> Some (status, solution', st3))
                else if strategy = PBQP_STRATEGY_EXACT_CORE_ENUMERATION then Some (solve_core sv solution st2)
                else Some (PBQP_ARGUMENT_ERROR, solution, st2)))"

definition with_strategy :: "pbqp_solver_strategy \<Rightarrow> 'k solver \<Rightarrow> 'k solver" where
  "with_strategy strategy sv = sv\<lparr>sv_config := (sv_config sv)\<lparr>cf_strategy := strategy\<rparr>\<rparr>"

text \<open>
  The combined strategy: solve a problem by RN, then descend from its assignment on the clone of the
  original graph. The final graph is the reduced one, with the statistics of the clone.
\<close>

definition solve_rn_local ::
  "'k solver \<Rightarrow> solution_cell \<Rightarrow> 'k solver_state \<Rightarrow> (pbqp_status \<times> solution_cell \<times> 'k solver_state) option" where
  "solve_rn_local sv solution st =
     (let n = pb_node_count (ss_problem st)
      in case clone_state sv st of
           (clone_status, original, st1) \<Rightarrow>
             (case workspace sv [n] st1 of
                (ok, st2) \<Rightarrow>
                  if clone_status \<noteq> PBQP_OK \<or> \<not> ok then Some (PBQP_CAPACITY_ERROR, solution, st2)
                  else (case solve_strategy (with_strategy PBQP_STRATEGY_HEURISTIC_RN sv)
                               (ACCEL_INF, replicate n 0) st2 of
                       None \<Rightarrow> None
                     | Some (rn_status, rn_solution, st3) \<Rightarrow>
                         if rn_status \<noteq> PBQP_OK then Some (rn_status, solution, st3)
                         else let p = ss_problem st3;
                                  original' = original\<lparr>pb_statistics := copy_statistics (pb_statistics original)
                                    (pb_statistics p) (pb_node_capacity p) (pb_domain_capacity p)\<rparr>
                           in (case RunLocalDescent sv (snd rn_solution) solution (set_problem original' st3) of
                                 None \<Rightarrow> None
                               | Some (status, _, solution', st4) \<Rightarrow>
                                   let p' = (if status = PBQP_OK
                                       then p\<lparr>pb_statistics := copy_statistics (pb_statistics p)
                                              (pb_statistics (ss_problem st4)) (pb_node_capacity p) (pb_domain_capacity p)\<rparr>
                                       else p)
                                   in Some (status, solution', set_problem p' st4)))))"

definition Solve ::
  "'k solver \<Rightarrow> pbqp_solution option \<Rightarrow> 'k solver_state option \<Rightarrow>
     (pbqp_status \<times> pbqp_solution option \<times> 'k solver_state option) option" where
  "Solve sv solution state =
     (case (solution, state) of
        (Some sol, Some st) \<Rightarrow>
          (case so_assignment sol of
             None \<Rightarrow> Some (PBQP_ARGUMENT_ERROR, solution, state)
           | Some assignment \<Rightarrow>
               if so_assignment_capacity sol < pb_node_count (ss_problem st)
               then Some (PBQP_ARGUMENT_ERROR, solution, state)
               else (case (if cf_strategy (sv_config sv) = PBQP_STRATEGY_HEURISTIC_RN_LOCAL_SEARCH
                           then solve_rn_local sv (so_optimum sol, assignment) st
                           else solve_strategy sv (so_optimum sol, assignment) st) of
                    None \<Rightarrow> None
                  | Some (status, (optimum, assignment'), st') \<Rightarrow>
                      Some (status, Some (sol\<lparr>so_optimum := optimum, so_assignment := Some assignment'\<rparr>), Some st')))
      | _ \<Rightarrow> Some (PBQP_ARGUMENT_ERROR, solution, state))"

section \<open>The solver handle\<close>

text \<open>
  \<open>pbqp_solver_t\<close>. The kernel's \<open>context\<close> is part of the kernel structure; a missing half of the
  workspace allocator is the pair of tests on the two function pointers.
\<close>

record 'k pbqp_solver =
  so_mode :: pbqp_mode
  so_kernel :: "'k pbqp_cost_kernel"
  so_config :: pbqp_solver_config
  so_last_kernel_status :: int

definition pbqp_solver_default_config :: pbqp_solver_config where
  "pbqp_solver_default_config = \<lparr>cf_strategy = PBQP_STRATEGY_EXACT_CORE_ENUMERATION,
     cf_rn_policy = PBQP_RN_MIN_DEGREE, cf_rn_batching = PBQP_RN_BATCH_PER_NODE,
     cf_maximum_search_nodes = 0, cf_trace_sink = False, cf_workspace_allocator = False\<rparr>"

definition pbqp_solver_create_with_config ::
  "'k pbqp_solver option \<Rightarrow> pbqp_mode \<Rightarrow> 'k pbqp_cost_kernel option \<Rightarrow> pbqp_solver_config option \<Rightarrow> bool \<Rightarrow>
     pbqp_status \<times> 'k pbqp_solver option" where
  "pbqp_solver_create_with_config solver_handle mode api config has_deallocate =
     (case (solver_handle, api, config) of
        (Some _, Some k, Some cf) \<Rightarrow>
          if min2_argmin k = None \<or> min3_argmin k = None \<or>
             cf_rn_batching cf = PBQP_RN_BATCH_INVALID \<or> cf_workspace_allocator cf \<noteq> has_deallocate
          then (PBQP_ARGUMENT_ERROR, solver_handle)
          else (PBQP_OK, Some \<lparr>so_mode = mode, so_kernel = k, so_config = cf, so_last_kernel_status = 0\<rparr>)
      | _ \<Rightarrow> (PBQP_ARGUMENT_ERROR, solver_handle))"

definition pbqp_solver_create ::
  "'k pbqp_solver option \<Rightarrow> pbqp_mode \<Rightarrow> 'k pbqp_cost_kernel option \<Rightarrow> pbqp_status \<times> 'k pbqp_solver option" where
  "pbqp_solver_create solver_handle mode api =
     pbqp_solver_create_with_config solver_handle mode api (Some pbqp_solver_default_config) False"

text \<open>
  \<open>pbqp_solver_solve\<close>: \<open>grants\<close> answers the allocation requests of this solve, \<open>context\<close> is the
  kernel's context before it. The result holds the status, the solution, the graph and the solver
  handle afterwards, the context and the events emitted.
\<close>

record 'k solve_result =
  sr_status :: pbqp_status
  sr_solution :: "pbqp_solution option"
  sr_problem :: "pbqp_problem option"
  sr_solver :: "'k pbqp_solver option"
  sr_context :: 'k
  sr_trace :: "pbqp_solver_event list"

definition pbqp_solver_solve ::
  "(nat \<Rightarrow> bool) \<Rightarrow> 'k \<Rightarrow> 'k pbqp_solver option \<Rightarrow> pbqp_problem option \<Rightarrow> pbqp_solution option \<Rightarrow>
     'k solve_result option" where
  "pbqp_solver_solve grants k solver_handle problem solution =
     (case solver_handle of
        None \<Rightarrow> Some \<lparr>sr_status = PBQP_ARGUMENT_ERROR, sr_solution = solution, sr_problem = problem,
           sr_solver = None, sr_context = k, sr_trace = []\<rparr>
      | Some handle \<Rightarrow>
          (case Solve \<lparr>sv_api = so_kernel handle, sv_config = so_config handle, sv_grants = grants\<rparr> solution
                  (map_option (\<lambda>p. \<lparr>ss_problem = p, ss_context = k, ss_kernel_status = 0, ss_trace = [],
                     ss_allocations = 0\<rparr>) problem) of
             None \<Rightarrow> None
           | Some (status, solution', state) \<Rightarrow>
               Some \<lparr>sr_status = status, sr_solution = solution',
                 sr_problem = map_option ss_problem state,
                 sr_solver = Some (handle\<lparr>so_last_kernel_status :=
                   (case state of None \<Rightarrow> 0 | Some st \<Rightarrow> ss_kernel_status st)\<rparr>),
                 sr_context = (case state of None \<Rightarrow> k | Some st \<Rightarrow> ss_context st),
                 sr_trace = (case state of None \<Rightarrow> [] | Some st \<Rightarrow> ss_trace st)\<rparr>))"

end
