(* ===== verification/Graph_Runner.thy ===== *)
theory Graph_Runner
  imports Graph_Text Model_Kernel Pbqp_Solver
begin

text \<open>
  The graph runner \<open>tools/pbqp_run.cpp\<close>: it loads a text graph, builds the PBQP problem, solves it on
  the hosted cost kernel and prints the result. Modelled is the standard output, the trace file and the
  exit code of the plain and the timed build; messages on the error stream and the statistics that
  \<open>--verbose\<close> adds there are left out, as is the build with the L2 model.

  \<^item> \<open>runner_environment\<close> holds what the process gets from outside: the files, whether the trace file
    can be opened, the answers of \<open>malloc\<close> and the environment of the cost kernel. \<open>re_timed\<close> is the
    build option \<open>PCAA_GRAPH_RUN_TIMED\<close>, \<open>re_charge\<close> the wait for a number of 1 ns cycles.
  \<^item> A run that does not return is \<open>None\<close>.
\<close>

section \<open>Trace output\<close>

primrec trace_type_name :: "pbqp_trace_event_type \<Rightarrow> string" where
  "trace_type_name PBQP_TRACE_R0 = ''R0''"
| "trace_type_name PBQP_TRACE_R1 = ''R1''"
| "trace_type_name PBQP_TRACE_R2 = ''R2''"
| "trace_type_name PBQP_TRACE_RN_SELECT = ''RN_SELECT''"
| "trace_type_name PBQP_TRACE_RN_SCORE = ''RN_SCORE''"
| "trace_type_name PBQP_TRACE_RN_COMMIT = ''RN_COMMIT''"
| "trace_type_name PBQP_TRACE_LOCAL_SCORE = ''LOCAL_SCORE''"
| "trace_type_name PBQP_TRACE_LOCAL_MOVE = ''LOCAL_MOVE''"
| "trace_type_name PBQP_TRACE_BRANCH_SELECT = ''BRANCH_SELECT''"
| "trace_type_name PBQP_TRACE_BRANCH_CONDITION = ''BRANCH_CONDITION''"

primrec trace_phase_name :: "pbqp_trace_phase \<Rightarrow> string" where
  "trace_phase_name PBQP_TRACE_REDUCTION = ''reduction''"
| "trace_phase_name PBQP_TRACE_HEURISTIC = ''heuristic''"
| "trace_phase_name PBQP_TRACE_LOCAL_SEARCH = ''local-search''"
| "trace_phase_name PBQP_TRACE_EXACT_SEARCH = ''exact-search''"

primrec trace_policy_name :: "pbqp_rn_policy \<Rightarrow> string" where
  "trace_policy_name PBQP_RN_MIN_DEGREE = ''min-degree''"
| "trace_policy_name PBQP_RN_MAX_DEGREE = ''max-degree''"
| "trace_policy_name PBQP_RN_MIN_WORK = ''min-work''"

text \<open>One member of the JSON object: \<open>"name":\<close> and the text of its value.\<close>

definition quoted :: "string \<Rightarrow> string" where
  "quoted s = CHR 0x22 # s @ [CHR 0x22]"

definition json_member :: "string \<times> string \<Rightarrow> string" where
  "json_member m = quoted (fst m) @ '':'' @ snd m"

fun separated :: "string \<Rightarrow> string list \<Rightarrow> string" where
  "separated sep [] = []"
| "separated sep [s] = s"
| "separated sep (s # t # rest) = s @ sep @ separated sep (t # rest)"

definition event_members :: "nat \<Rightarrow> pbqp_solver_event \<Rightarrow> (string \<times> string) list" where
  "event_members sequence_n event =
     [(''sequence'', show_nat sequence_n), (''phase'', quoted (trace_phase_name (ev_phase event))),
      (''type'', quoted (trace_type_name (ev_type event))), (''policy'', quoted (trace_policy_name (ev_policy event))),
      (''node'', show_int (ev_node event)), (''choice'', show_int (ev_choice event)),
      (''active_nodes'', show_nat (ev_active_nodes event)), (''active_edges'', show_nat (ev_active_edges event)),
      (''maximum_degree'', show_nat (ev_maximum_degree event)), (''unary_elements'', show_nat (ev_unary_elements event)),
      (''matrix_elements'', show_nat (ev_matrix_elements event)), (''r0'', show_nat (ev_r0_count event)),
      (''r1'', show_nat (ev_r1_count event)), (''r2'', show_nat (ev_r2_count event)), (''rn'', show_nat (ev_rn_count event)),
      (''project'', show_nat (ev_minplus_project_elements event)),
      (''project_accumulate'', show_nat (ev_project_accumulate_elements event)),
      (''slice'', show_nat (ev_slice_accumulate_elements event)), (''map3'', show_nat (ev_map3_reduce_elements event)),
      (''argmin'', show_nat (ev_argmin_vector_elements event)),
      (''primitive_descriptors'', show_nat (ev_primitive_descriptors event)),
      (''structural_operations'', show_nat (ev_structural_operations event)),
      (''branch_domain'', show_nat (ev_branch_domain event)), (''operand_bytes'', show_nat (ev_operand_bytes event)),
      (''result_bytes'', show_nat (ev_result_bytes event))]"

definition emit_event :: "nat \<Rightarrow> pbqp_solver_event \<Rightarrow> string" where
  "emit_event sequence_n event = ''{'' @ separated '','' (map json_member (event_members sequence_n event)) @ ''}'' @ [newline]"

definition trace_text :: "pbqp_solver_event list \<Rightarrow> string" where
  "trace_text events = concat (map (\<lambda>k. emit_event (k mod 2 ^ 32) (events ! k)) [0..<length events])"

section \<open>Building the problem\<close>

abbreviation (input) PBQP_MAX_NODES :: nat where "PBQP_MAX_NODES \<equiv> 64"
abbreviation (input) PBQP_MAX_DOMAIN :: nat where "PBQP_MAX_DOMAIN \<equiv> 6"
abbreviation (input) PBQP_MAX_EDGES :: nat where "PBQP_MAX_EDGES \<equiv> 2016"
abbreviation (input) UINT_MAX :: int where "UINT_MAX \<equiv> 4294967295"

definition strategy_name :: "pbqp_solver_strategy \<Rightarrow> string" where
  "strategy_name strategy =
     (case strategy of
        PBQP_STRATEGY_REDUCE_ONLY \<Rightarrow> ''REDUCE_ONLY''
      | PBQP_STRATEGY_HEURISTIC_RN \<Rightarrow> ''HEURISTIC_RN''
      | PBQP_STRATEGY_EXACT_CORE_ENUMERATION \<Rightarrow> ''EXACT_CORE_ENUMERATION''
      | PBQP_STRATEGY_EXACT_BRANCH_REDUCE \<Rightarrow> ''EXACT_BRANCH_REDUCE''
      | PBQP_STRATEGY_LOCAL_SEARCH \<Rightarrow> ''LOCAL_SEARCH''
      | PBQP_STRATEGY_HEURISTIC_RN_LOCAL_SEARCH \<Rightarrow> ''HEURISTIC_RN_LOCAL_SEARCH'')"

definition add_input_node :: "input_node \<Rightarrow> pbqp_problem \<Rightarrow> pbqp_problem option" where
  "add_input_node node p =
     (case pbqp_add_node (Some p) (length (in_unary node)) (Some (in_unary node)) of
        (PBQP_OK, p') \<Rightarrow> p'
      | _ \<Rightarrow> None)"

definition add_input_edge :: "input_edge \<Rightarrow> pbqp_problem \<Rightarrow> pbqp_problem option" where
  "add_input_edge edge p =
     (case pbqp_add_edge (Some p) (ie_first edge) (ie_second edge) (Some (ie_costs edge)) of
        (PBQP_OK, p') \<Rightarrow> p'
      | _ \<Rightarrow> None)"

text \<open>\<open>None\<close> is the result false, after which the problem is destroyed or was never initialised.\<close>

definition build_problem :: "(u64 \<Rightarrow> bool) \<Rightarrow> input_problem \<Rightarrow> bool \<Rightarrow> pbqp_problem option" where
  "build_problem heap input fixed_capacity =
     (let nodes = length (ip_nodes input); edges = length (ip_edges input);
          maximum_domain = fold (\<lambda>node m. max m (length (in_unary node))) (ip_nodes input) 0
      in if fixed_capacity \<and> (nodes > PBQP_MAX_NODES \<or> edges > PBQP_MAX_EDGES) then None
         else if int nodes > UINT_MAX \<or> int edges \<ge> UINT_MAX then None
         else if int maximum_domain > UINT_MAX then None
         else let node_capacity = (if fixed_capacity then PBQP_MAX_NODES else nodes);
                  domain_capacity = (if fixed_capacity then PBQP_MAX_DOMAIN else maximum_domain);
                  edge_capacity = (if fixed_capacity then PBQP_MAX_EDGES else edges + 1)
           in (case pbqp_init (Some empty_problem) (Some heap) (of_nat node_capacity) (of_nat edge_capacity)
                     (of_nat domain_capacity) of
                (PBQP_OK, Some p) \<Rightarrow>
                  Option.bind (fold_option add_input_node (ip_nodes input) p) (fold_option add_input_edge (ip_edges input))
              | _ \<Rightarrow> None))"

section \<open>The command line\<close>

datatype solver_mode = kBareMetal | kLocal

record runner_options =
  ro_verbose :: bool
  ro_solver_mode :: solver_mode
  ro_saw_solver_mode :: bool
  ro_saw_strategy :: bool
  ro_trace_path :: "string option"
  ro_config :: pbqp_solver_config
  ro_path :: "string option"

definition runner_defaults :: runner_options where
  "runner_defaults = \<lparr>ro_verbose = False, ro_solver_mode = kLocal, ro_saw_solver_mode = False, ro_saw_strategy = False,
     ro_trace_path = None, ro_config = pbqp_solver_default_config, ro_path = None\<rparr>"

definition parse_strategy :: "string \<Rightarrow> pbqp_solver_strategy option" where
  "parse_strategy s =
     (if s = ''reduce-only'' then Some PBQP_STRATEGY_REDUCE_ONLY
      else if s = ''heuristic-rn'' then Some PBQP_STRATEGY_HEURISTIC_RN
      else if s = ''exact-branch-reduce'' then Some PBQP_STRATEGY_EXACT_BRANCH_REDUCE
      else if s = ''exact-core-enumeration'' then Some PBQP_STRATEGY_EXACT_CORE_ENUMERATION
      else if s = ''local-search'' then Some PBQP_STRATEGY_LOCAL_SEARCH
      else if s = ''heuristic-rn-local-search'' then Some PBQP_STRATEGY_HEURISTIC_RN_LOCAL_SEARCH
      else None)"

definition parse_rn_policy :: "string \<Rightarrow> pbqp_rn_policy option" where
  "parse_rn_policy s =
     (if s = ''min-degree'' then Some PBQP_RN_MIN_DEGREE
      else if s = ''max-degree'' then Some PBQP_RN_MAX_DEGREE
      else if s = ''min-work'' then Some PBQP_RN_MIN_WORK
      else None)"

definition parse_rn_batching :: "string \<Rightarrow> pbqp_rn_batching option" where
  "parse_rn_batching s =
     (if s = ''per-node'' then Some PBQP_RN_BATCH_PER_NODE
      else if s = ''per-edge'' then Some PBQP_RN_BATCH_PER_EDGE
      else None)"

definition parse_solver_mode :: "string \<Rightarrow> solver_mode option" where
  "parse_solver_mode s =
     (if s = ''bare-metal'' then Some kBareMetal else if s = ''local'' then Some kLocal else None)"

definition parse_search_nodes :: "string \<Rightarrow> nat option" where
  "parse_search_nodes s =
     (case stoul s of
        None \<Rightarrow> None
      | Some (v, parsed) \<Rightarrow> if parsed \<noteq> length s \<or> v > UINT_MAX then None else Some (nat v))"

text \<open>The branches of the chain that take a value.\<close>

definition runner_option :: "string \<Rightarrow> string \<Rightarrow> runner_options \<Rightarrow> runner_options option" where
  "runner_option argument arg_value opts =
     (let config = ro_config opts
      in if argument = ''--solver'' then
           map_option (\<lambda>mode. opts\<lparr>ro_solver_mode := mode, ro_saw_solver_mode := True\<rparr>) (parse_solver_mode arg_value)
         else if argument = ''--strategy'' then
           map_option (\<lambda>s. opts\<lparr>ro_config := config\<lparr>cf_strategy := s\<rparr>, ro_saw_strategy := True\<rparr>) (parse_strategy arg_value)
         else if argument = ''--rn-policy'' then
           map_option (\<lambda>s. opts\<lparr>ro_config := config\<lparr>cf_rn_policy := s\<rparr>\<rparr>) (parse_rn_policy arg_value)
         else if argument = ''--rn-batching'' then
           map_option (\<lambda>s. opts\<lparr>ro_config := config\<lparr>cf_rn_batching := s\<rparr>\<rparr>) (parse_rn_batching arg_value)
         else if argument = ''--maximum-search-nodes'' then
           map_option (\<lambda>n. opts\<lparr>ro_config := config\<lparr>cf_maximum_search_nodes := n\<rparr>\<rparr>) (parse_search_nodes arg_value)
         else Some (opts\<lparr>ro_trace_path := Some arg_value\<rparr>))"

definition takes_value :: "string \<Rightarrow> runner_options \<Rightarrow> bool" where
  "takes_value argument opts \<longleftrightarrow> argument = ''--solver'' \<and> \<not> ro_saw_solver_mode opts \<or>
     argument \<in> {''--strategy'', ''--rn-policy'', ''--rn-batching'', ''--maximum-search-nodes'', ''--trace''}"

text \<open>\<open>Inl\<close> is an early return: the exit code and whether the help or the version was printed.\<close>

datatype early_return = Help_shown | Version_shown | Bad_usage

fun runner_arguments :: "string list \<Rightarrow> runner_options \<Rightarrow> early_return + runner_options" where
  "runner_arguments [] opts = Inr opts"
| "runner_arguments [argument] opts =
     (if argument = ''--help'' then Inl Help_shown
      else if argument = ''--version'' then Inl Version_shown
      else if argument = ''--verbose'' \<and> \<not> ro_verbose opts then Inr (opts\<lparr>ro_verbose := True\<rparr>)
      else if ro_path opts = None then Inr (opts\<lparr>ro_path := Some argument\<rparr>)
      else Inl Bad_usage)"
| "runner_arguments (argument # next_n # rest) opts =
     (if argument = ''--help'' then Inl Help_shown
      else if argument = ''--version'' then Inl Version_shown
      else if argument = ''--verbose'' \<and> \<not> ro_verbose opts then runner_arguments (next_n # rest) (opts\<lparr>ro_verbose := True\<rparr>)
      else if takes_value argument opts then
        (case runner_option argument next_n opts of
           None \<Rightarrow> Inl Bad_usage
         | Some opts' \<Rightarrow> runner_arguments rest opts')
      else if ro_path opts = None then runner_arguments (next_n # rest) (opts\<lparr>ro_path := Some argument\<rparr>)
      else Inl Bad_usage)"

section \<open>The program\<close>

record 't runner_environment =
  re_version :: string
  re_file :: "string \<Rightarrow> string option"
  re_trace_opens :: "string \<Rightarrow> bool"
  re_heap :: "u64 \<Rightarrow> bool"
  re_workspace :: "nat \<Rightarrow> bool"
  re_kernel :: "'t kernel_environment"
  re_timed :: bool
  re_charge :: "u64 \<Rightarrow> 't \<Rightarrow> 't"

definition usage_lines :: "string list" where
  "usage_lines =
     [''Usage: pcaa_graph_run [OPTIONS] GRAPH.pbqp'', [],
      ''Run a PBQP graph through the PCAA SystemC model.'', [],
      ''Options:'',
      ''  --solver bare-metal|local  Select bounded shared or host-local execution.'',
      ''  --strategy reduce-only|heuristic-rn|exact-core-enumeration|exact-branch-reduce|'',
      ''             local-search|heuristic-rn-local-search'',
      ''                              Select the solving algorithm (default: heuristic-rn).'',
      ''  --rn-policy min-degree|max-degree|min-work'',
      ''                              Select RN node choice (default: min-degree).'',
      ''  --rn-batching per-node|per-edge'',
      ''                              Use vector RN/R2 jobs or retain scalar reference jobs.'',
      ''  --maximum-search-nodes N   Bound an exact search; zero leaves the limit unset.'',
      ''  --verbose                   Trace model activity to standard error.'',
      ''  --trace FILE                Write stable JSONL solver events to FILE.'',
      ''  --help                      Show this help text.'',
      ''  --version                   Show the runner version.'']"

definition print_usage :: string where
  "print_usage = concat (map (\<lambda>line. line @ [newline]) usage_lines)"

definition default_timing_config :: "'t accel_timing_config" where
  "default_timing_config = \<lparr>tc_mode = kUntimed, tc_lanes = 1, tc_descriptor_bytes_per_cycle = 16,
     tc_memory_read_bytes_per_cycle = 4, tc_memory_write_bytes_per_cycle = 4, tc_batch_start_cycles = 0,
     tc_primitive_start_cycles = 0, tc_map_pipeline_latency = 0, tc_add3_map_extra_latency = 0,
     tc_reduction_tree_latency = 0, tc_result_latency = 0, tc_charge = None\<rparr>"

definition runner_timing_config :: "'t runner_environment \<Rightarrow> 't accel_timing_config" where
  "runner_timing_config env =
     (if re_timed env
      then default_timing_config\<lparr>tc_mode := kL1Streaming, tc_lanes := 4, tc_descriptor_bytes_per_cycle := 16,
             tc_memory_read_bytes_per_cycle := 16, tc_memory_write_bytes_per_cycle := 16, tc_charge := Some (re_charge env)\<rparr>
      else default_timing_config)"

text \<open>What a finished process leaves: exit code, standard output and the trace file, if one was opened.\<close>

record runner_result =
  rr_exit :: nat
  rr_output :: string
  rr_trace :: "string option"

definition exit_with :: "nat \<Rightarrow> string \<Rightarrow> runner_result" where
  "exit_with code output = \<lparr>rr_exit = code, rr_output = output, rr_trace = None\<rparr>"

definition exact_kind :: "pbqp_solver_strategy \<Rightarrow> bool" where
  "exact_kind strategy \<longleftrightarrow> strategy = PBQP_STRATEGY_EXACT_CORE_ENUMERATION \<or> strategy = PBQP_STRATEGY_EXACT_BRANCH_REDUCE"

definition solution_kind :: "pbqp_solver_strategy \<Rightarrow> string" where
  "solution_kind strategy =
     (if strategy \<noteq> PBQP_STRATEGY_LOCAL_SEARCH \<and> \<not> exact_kind strategy then ''heuristic''
      else if exact_kind strategy then ''exact'' else ''local-optimum'')"

definition strategy_line :: "pbqp_solver_strategy \<Rightarrow> string" where
  "strategy_line strategy = ''strategy '' @ strategy_name strategy @ [newline]"

definition report :: "pbqp_solver_strategy \<Rightarrow> int \<Rightarrow> nat list \<Rightarrow> string" where
  "report strategy optimum assignment =
     ''optimum '' @ show_int optimum @ newline # ''assignment'' @ concat (map (\<lambda>v. CHR '' '' # show_nat v) assignment) @
     newline # ''solution '' @ solution_kind strategy @ newline # strategy_line strategy"

text \<open>The lines of the timed build.\<close>

definition counted_fields :: "(string \<times> u64) list \<Rightarrow> string" where
  "counted_fields entries = concat (map (\<lambda>(name, v). CHR '' '' # name @ CHR ''='' # show_nat (unat v)) entries)"

definition projection_line :: "string \<times> cycle_breakdown \<Rightarrow> string" where
  "projection_line p = (case p of (name, b) \<Rightarrow> ''projection '' @ name @ counted_fields [(''cycles'', cb_total b), (''descriptor'', cb_descriptor b),
     (''operands'', cb_operands b), (''compute'', cb_compute b), (''result'', cb_result b), (''descriptors'', cb_descriptors b)] @ [newline])"

definition timing_report :: "model_kernel \<Rightarrow> string" where
  "timing_report k =
     (let timing = ac_timing_statistics (sd_world (mk_device k)); cycles = mk_cycles k
      in ''timing'' @ counted_fields [(''cycles'', ts_total_service_cycles timing), (''descriptor'', ts_descriptor_cycles timing),
             (''operands'', ts_operand_read_cycles timing), (''compute'', ts_compute_cycles timing),
             (''result'', ts_result_write_cycles timing), (''primitives'', ts_primitive_count timing),
             (''batches'', ts_batch_count timing)] @ [newline] @
           concat (map projection_line [(''project-scalar'', vc_project_scalar cycles), (''project-vector'', vc_project_vector cycles),
             (''map3-scalar'', vc_map3_scalar cycles), (''map3-partial'', vc_map3_partial cycles), (''map3-full'', vc_map3_full cycles)]) @
           (if ts_primitive_count timing = 0
            then ''timing note=no accelerator primitives were issued; the PBQP core was solved in software'' @ [newline] else []))"

text \<open>
  From the built problem to the end of \<open>sc_main\<close>: the exit code, the standard output and the events.
  The previous contents of the local \<open>solver\<close> and \<open>fixed_solution\<close> do not matter.
\<close>

definition finish_solve ::
  "'t runner_environment \<Rightarrow> pbqp_solver_strategy \<Rightarrow> pbqp_problem \<Rightarrow> model_kernel solve_result \<Rightarrow> nat \<times> string" where
  "finish_solve env strategy original r =
     (if sr_status r = PBQP_IRREDUCIBLE then (0, ''status IRREDUCIBLE'' @ newline # strategy_line strategy)
      else if sr_status r = PBQP_SEARCH_LIMIT then (0, ''status SEARCH_LIMIT'' @ newline # strategy_line strategy)
      else case (sr_status r, sr_solution r) of
        (PBQP_OK, Some solution) \<Rightarrow>
          (case so_assignment solution of
             None \<Rightarrow> (1, [])
           | Some assignment \<Rightarrow>
               if pbqp_evaluate original assignment \<noteq> so_optimum solution then (1, [])
               else (0, report strategy (so_optimum solution) assignment @
                 (if re_timed env then timing_report (sr_context r) else [])))
      | _ \<Rightarrow> (1, []))"

definition run_solver ::
  "'t runner_environment \<Rightarrow> pbqp_solver_config \<Rightarrow> nat \<Rightarrow> pbqp_problem \<Rightarrow> (nat \<times> string \<times> pbqp_solver_event list) option" where
  "run_solver env config n problem =
     (let kernel = make_kernel ((re_kernel env)\<lparr>ke_timing := runner_timing_config env\<rparr>);
          context = ModelKernel (gm_init 18446744073709551615);
          solution = pbqp_solution_init (Some \<lparr>so_optimum = 0, so_assignment = None, so_assignment_capacity = 0\<rparr>)
            (Some (replicate n 0)) n;
          local_solver = \<lparr>so_mode = PBQP_MODE_SOFTWARE, so_kernel = kernel, so_config = config, so_last_kernel_status = 0\<rparr>
      in case pbqp_problem_clone (Some empty_problem) (Some problem) (Some (re_heap env)) of
           (PBQP_OK, Some original) \<Rightarrow>
             (case pbqp_solver_create_with_config (Some local_solver) PBQP_MODE_ACCELERATOR (Some kernel) (Some config) False of
                (PBQP_OK, handle) \<Rightarrow>
                  map_option (\<lambda>r. case finish_solve env (cf_strategy config) original r of (code, output) \<Rightarrow> (code, output, sr_trace r))
                    (pbqp_solver_solve (re_workspace env) context handle (Some problem) solution)
              | _ \<Rightarrow> Some (1, [], []))
         | _ \<Rightarrow> Some (1, [], []))"

text \<open>From the parsed options on.\<close>

definition run_input :: "'t runner_environment \<Rightarrow> runner_options \<Rightarrow> input_problem \<Rightarrow> runner_result option" where
  "run_input env opts input =
     (let traces = ro_trace_path opts \<noteq> None;
          result = (\<lambda>(code, output, events). \<lparr>rr_exit = code, rr_output = output,
            rr_trace = (if traces then Some (trace_text events) else None)\<rparr>)
      in if (case ro_trace_path opts of None \<Rightarrow> False | Some path \<Rightarrow> \<not> re_trace_opens env path) then Some (exit_with 2 [])
         else case build_problem (re_heap env) input (ro_solver_mode opts = kBareMetal) of
             None \<Rightarrow> Some (result (2, [], []))
           | Some problem \<Rightarrow>
               map_option result
                 (run_solver env ((ro_config opts)\<lparr>cf_trace_sink := traces\<rparr>) (length (ip_nodes input)) problem))"

definition sc_main :: "'t runner_environment \<Rightarrow> string list \<Rightarrow> runner_result option" where
  "sc_main env arguments =
     (case runner_arguments arguments runner_defaults of
        Inl Help_shown \<Rightarrow> Some (exit_with 0 print_usage)
      | Inl Version_shown \<Rightarrow> Some (exit_with 0 (''pcaa_graph_run '' @ re_version env @ [newline]))
      | Inl Bad_usage \<Rightarrow> Some (exit_with 2 [])
      | Inr opts \<Rightarrow>
          (case ro_path opts of
             None \<Rightarrow> Some (exit_with 2 [])
           | Some path \<Rightarrow>
               if \<not> ro_saw_solver_mode opts then Some (exit_with 2 [])
               else let opts' = (if ro_saw_strategy opts then opts
                      else opts\<lparr>ro_config := (ro_config opts)\<lparr>cf_strategy := PBQP_STRATEGY_HEURISTIC_RN\<rparr>\<rparr>)
                 in (case load_problem (re_file env path) \<lparr>ip_nodes = [], ip_edges = []\<rparr> of
                       None \<Rightarrow> Some (exit_with 2 [])
                     | Some input \<Rightarrow> run_input env opts' input)))"

end
