(* ===== verification/Graph_Text_Correct.thy ===== *)
theory Graph_Text_Correct
  imports Graph_Text
begin

text \<open>
  The graph loader: decimal numbers are read back as they are printed, a line is read token by token,
  and every problem the loader accepts is valid.
\<close>

section \<open>Decimal numbers\<close>

named_theorems text_simps \<open>reading back what was printed\<close>

lemma digit_char:
  assumes "d < 10"
  shows "is_digit (char_of (48 + d))" and "digit_value (char_of (48 + d)) = d"
  using assms by (simp_all add: is_digit_def digit_value_def)

lemma show_nat_digits: "c \<in> set (show_nat n) \<Longrightarrow> is_digit c"
proof (induction n rule: show_nat.induct)
  case (1 n)
  then show ?case using digit_char(1)[of n] digit_char(1)[of "n mod 10"]
    by (subst (asm) (2) show_nat.simps) (auto split: if_splits)
qed

lemma show_nat_nonempty [simp]: "show_nat n \<noteq> []"
  by (subst show_nat.simps) simp

lemma decimal_value_snoc: "decimal_value (s @ [c]) = 10 * decimal_value s + digit_value c"
  by (simp add: decimal_value_def)

lemma decimal_value_show [text_simps]: "decimal_value (show_nat n) = n"
proof (induction n rule: show_nat.induct)
  case (1 n)
  show ?case
  proof (cases "n < 10")
    case True
    then show ?thesis using digit_char(2)[OF True] by (subst show_nat.simps) (simp add: decimal_value_def)
  next
    case False
    then show ?thesis using 1 digit_char(2)[of "n mod 10"] by (subst show_nat.simps) (simp add: decimal_value_snoc)
  qed
qed

lemma digit_not_space: "is_digit c \<Longrightarrow> \<not> is_space c"
  by (auto simp: is_digit_def is_space_def)

lemma digit_plain: "is_digit c \<Longrightarrow> c \<noteq> newline \<and> c \<noteq> CHR ''#'' \<and> c \<noteq> CHR ''-'' \<and> c \<noteq> CHR ''+'' \<and> c \<noteq> CHR ''I''"
  by (auto simp: is_digit_def newline_def)

text \<open>The rest of a line after a number: empty, or not continuing it.\<close>

definition after_number :: "string \<Rightarrow> bool" where
  "after_number s \<longleftrightarrow> s = [] \<or> is_space (hd s)"

lemma after_number_simps [simp]: "after_number []" "after_number (c # s) \<longleftrightarrow> is_space c"
  by (simp_all add: after_number_def)

lemma takeWhile_run: "(\<And>c. c \<in> set xs \<Longrightarrow> P c) \<Longrightarrow> ys = [] \<or> \<not> P (hd ys) \<Longrightarrow> takeWhile P (xs @ ys) = xs \<and> dropWhile P (xs @ ys) = ys"
  by (induction xs; cases ys) auto

lemma space_blank [simp]: "is_space (CHR '' '')"
  by (simp add: is_space_def)

lemma show_int_cases:
  obtains "i < 0" and "show_int i = CHR ''-'' # show_nat (nat (- i))" | "0 \<le> i" and "show_int i = show_nat (nat i)"
  by (cases "i < 0") (auto simp: show_int_def)

lemma show_int_token:
  shows "show_int i \<noteq> []" and "c \<in> set (show_int i) \<Longrightarrow> \<not> is_space c \<and> c \<noteq> newline \<and> c \<noteq> CHR ''#'' \<and> c \<noteq> CHR ''I''"
proof -
  show "show_int i \<noteq> []" by (cases i rule: show_int_cases) simp_all
  assume c: "c \<in> set (show_int i)"
  have "c = CHR ''-'' \<or> is_digit c"
  proof (cases i rule: show_int_cases)
    case 1
    then show ?thesis using c show_nat_digits[of c "nat (- i)"] by auto
  next
    case 2
    then show ?thesis using c show_nat_digits[of c "nat i"] by auto
  qed
  then show "\<not> is_space c \<and> c \<noteq> newline \<and> c \<noteq> CHR ''#'' \<and> c \<noteq> CHR ''I''"
    using digit_not_space[of c] digit_plain[of c] by (auto simp: is_space_def newline_def)
qed

lemma nonspace_head: "s \<noteq> [] \<Longrightarrow> (\<And>c. c \<in> set s \<Longrightarrow> \<not> is_space c) \<Longrightarrow> dropWhile is_space (s @ t) = s @ t"
  by (cases s) auto

lemma scan_show:
  assumes "after_number t"
  shows "scan_integer (show_int i @ t) = Some (i < 0, nat \<bar>i\<bar>, t)"
proof -
  have s: "dropWhile is_space (show_int i @ t) = show_int i @ t"
    by (rule nonspace_head) (use show_int_token in blast)+
  have t: "t = [] \<or> \<not> is_digit (hd t)" using assms digit_not_space by (auto simp: after_number_def)
  note r = takeWhile_run[of "show_nat n" is_digit t for n, OF show_nat_digits t]
  have plain: "split_sign (show_nat n @ t) = (False, show_nat n @ t)" for n
    using show_nat_digits[of _ n] digit_plain by (cases "show_nat n") (auto simp: split_sign_def)
  have minus: "split_sign (CHR ''-'' # u) = (True, u)" for u by (simp add: split_sign_def)
  show ?thesis
    using s by (cases i rule: show_int_cases) (simp_all add: scan_integer_def minus plain r text_simps)
qed

lemma scan_blank: "is_space c \<Longrightarrow> scan_integer (c # s) = scan_integer s"
  by (simp add: scan_integer_def)

section \<open>Tokens\<close>

lemma read_word_token [text_simps]:
  assumes "w \<noteq> []" and "\<And>c. c \<in> set w \<Longrightarrow> \<not> is_space c" and "after_number t"
  shows "read_word (w @ t) = Some (w, t)"
  using nonspace_head[of w t] takeWhile_run[of w "\<lambda>c. \<not> is_space c" t] assms by (auto simp: read_word_def after_number_def)

lemma read_word_blank [text_simps]: "is_space c \<Longrightarrow> read_word (c # s) = read_word s"
  by (simp add: read_word_def)

lemma read_word_empty [text_simps]: "read_word [] = None"
  by (simp add: read_word_def)

lemma read_word_int [text_simps]: "after_number t \<Longrightarrow> read_word (show_int i @ t) = Some (show_int i, t)"
  by (rule read_word_token) (use show_int_token in auto)

lemma read_size_int [text_simps]: "after_number t \<Longrightarrow> 0 \<le> i \<Longrightarrow> i < 2 ^ 64 \<Longrightarrow> read_size (show_int i @ t) = Some (nat i, t)"
  by (simp add: read_size_def scan_show signed_value_def)

lemma read_size_blank [text_simps]: "is_space c \<Longrightarrow> read_size (c # s) = read_size s"
  by (simp add: read_size_def scan_blank)

lemma parse_cost_int [text_simps]:
  assumes "- (2 ^ 31) \<le> i" and "i < 2 ^ 31"
  shows "parse_cost (show_int i) = Some i"
proof -
  have "show_int i \<noteq> ''INF''" using show_int_token(2)[of "CHR ''I''" i] by auto
  moreover have "signed_value (i < 0) (nat \<bar>i\<bar>) = i" by (simp add: signed_value_def)
  then have "stoll (show_int i) = Some (i, length (show_int i))"
    using scan_show[of "[]" i] assms by (simp add: stoll_def convert_def)
  ultimately show ?thesis using assms by (simp add: parse_cost_def)
qed

section \<open>Lines\<close>

lemma getlines_line: "(\<And>c. c \<in> set l \<Longrightarrow> c \<noteq> newline) \<Longrightarrow> getlines (l @ newline # s) = l # getlines s"
  using takeWhile_run[of l "\<lambda>c. c \<noteq> newline" "newline # s"] by (cases l) simp_all

text \<open>A text is a list of lines, each closed by a newline.\<close>

lemma getlines_lines:
  "(\<And>l c. l \<in> set ls \<Longrightarrow> c \<in> set l \<Longrightarrow> c \<noteq> newline) \<Longrightarrow> getlines (concat (map (\<lambda>l. l @ [newline]) ls) @ s) = ls @ getlines s"
proof (induction ls)
  case (Cons l ls)
  have "getlines (l @ newline # u) = l # getlines u" for u by (rule getlines_line) (use Cons.prems in auto)
  moreover have "getlines (concat (map (\<lambda>l. l @ [newline]) ls) @ s) = ls @ getlines s"
    by (rule Cons.IH) (use Cons.prems in auto)
  ultimately show ?case by simp
qed simp

lemma parse_cost_tokens_length: "parse_cost_tokens n s = Some (cs, t) \<Longrightarrow> length cs = n"
  by (induction n arbitrary: s cs t) (auto split: option.splits prod.splits)

lemma parse_costs_length: "parse_costs s n = Some cs \<Longrightarrow> length cs = n"
  using parse_cost_tokens_length by (auto simp: parse_costs_def split: option.splits if_splits)

lemma parse_cost_bounds: "parse_cost s = Some c \<Longrightarrow> - (2 ^ 31) \<le> c \<and> c < 2 ^ 31"
  by (auto simp: parse_cost_def ACCEL_INF_def INT32_MAX_def split: if_splits option.splits)

lemma parse_cost_tokens_bounds: "parse_cost_tokens n s = Some (cs, t) \<Longrightarrow> c \<in> set cs \<Longrightarrow> - (2 ^ 31) \<le> c \<and> c < 2 ^ 31"
  by (induction n arbitrary: s cs t) (use parse_cost_bounds in \<open>fastforce split: option.splits prod.splits\<close>)+

lemma parse_costs_bounds: "parse_costs s n = Some cs \<Longrightarrow> c \<in> set cs \<Longrightarrow> - (2 ^ 31) \<le> c \<and> c < 2 ^ 31"
  using parse_cost_tokens_bounds by (auto simp: parse_costs_def split: option.splits if_splits)

section \<open>Accepted problems\<close>

abbreviation empty_input :: input_problem where
  "empty_input \<equiv> \<lparr>ip_nodes = [], ip_edges = []\<rparr>"

definition domain_at :: "input_problem \<Rightarrow> nat \<Rightarrow> nat" where
  "domain_at p n = length (in_unary (ip_nodes p ! n))"

definition loadable_cost :: "int \<Rightarrow> bool" where
  "loadable_cost c \<longleftrightarrow> - (2 ^ 31) \<le> c \<and> c \<le> ACCEL_INF"

definition valid_node :: "input_node \<Rightarrow> bool" where
  "valid_node n \<longleftrightarrow> in_unary n \<noteq> [] \<and> int (length (in_unary n)) \<le> kMaximumHostDomain \<and> (\<forall>c \<in> set (in_unary n). loadable_cost c)"

definition valid_edge_of :: "input_problem \<Rightarrow> input_edge \<Rightarrow> bool" where
  "valid_edge_of p e \<longleftrightarrow> ie_first e < length (ip_nodes p) \<and> ie_second e < length (ip_nodes p) \<and> ie_first e \<noteq> ie_second e \<and>
     length (ie_costs e) = domain_at p (ie_first e) * domain_at p (ie_second e) \<and> (\<forall>c \<in> set (ie_costs e). loadable_cost c)"

definition valid_input :: "input_problem \<Rightarrow> bool" where
  "valid_input p \<longleftrightarrow> (\<forall>n \<in> set (ip_nodes p). valid_node n) \<and> (\<forall>e \<in> set (ip_edges p). valid_edge_of p e)"

definition loader_ok :: "loader \<Rightarrow> bool" where
  "loader_ok ld \<longleftrightarrow> valid_input (ld_problem ld) \<and> (ld_saw_nodes ld \<longrightarrow> 0 < ld_declared_nodes ld \<and>
     length (ip_nodes (ld_problem ld)) \<le> ld_declared_nodes ld)"

lemma valid_edge_extend: "valid_edge_of p e \<Longrightarrow> valid_edge_of (p\<lparr>ip_nodes := ip_nodes p @ ns\<rparr>) e"
  by (auto simp: valid_edge_of_def domain_at_def nth_append)

lemma valid_edge_edges [simp]: "valid_edge_of (p\<lparr>ip_edges := es\<rparr>) e = valid_edge_of p e"
  by (simp add: valid_edge_of_def domain_at_def)

lemma loaded_costs: "parse_costs s n = Some cs \<Longrightarrow> list_all is_valid_input_cost cs \<Longrightarrow> c \<in> set cs \<Longrightarrow> loadable_cost c"
  using parse_costs_bounds[of s n cs c] by (auto simp: loadable_cost_def is_valid_input_cost_def list_all_iff)

lemma load_line_ok:
  assumes "load_line text_n ld = Some ld'" and "loader_ok ld"
  shows "loader_ok ld'"
proof (cases "read_word (takeWhile (\<lambda>c. c \<noteq> CHR ''#'') text_n)")
  case None
  then show ?thesis using assms by (simp add: load_line_def)
next
  case (Some kl)
  then obtain kind line where k: "read_word (takeWhile (\<lambda>c. c \<noteq> CHR ''#'') text_n) = Some (kind, line)" by (cases kl) auto
  have "loader_ok ld'" if "load_nodes_line line ld = Some ld'"
    using that assms(2) by (auto simp: load_nodes_line_def loader_ok_def split: if_splits option.splits prod.splits)
  moreover have "loader_ok ld'" if n: "load_node_line line ld = Some ld'"
  proof -
    obtain domain rest costs where c: "domain \<noteq> 0" "int domain \<le> kMaximumHostDomain" "parse_costs rest domain = Some costs"
      "list_all is_valid_input_cost costs" "ld_saw_nodes ld" "length (ip_nodes (ld_problem ld)) \<noteq> ld_declared_nodes ld"
      "ld' = ld\<lparr>ld_problem := (ld_problem ld)\<lparr>ip_nodes := ip_nodes (ld_problem ld) @ [\<lparr>in_unary = costs\<rparr>]\<rparr>\<rparr>"
      using n by (auto simp: load_node_line_def Let_def split: if_splits option.splits prod.splits)
    have "valid_node \<lparr>in_unary = costs\<rparr>" using c(1,2) parse_costs_length[OF c(3)] loaded_costs[OF c(3,4)] by (auto simp: valid_node_def)
    then show ?thesis using assms(2) c(5,6) valid_edge_extend by (auto simp: loader_ok_def valid_input_def c(7))
  qed
  moreover have "loader_ok ld'" if e: "load_edge_line line ld = Some ld'"
  proof -
    let ?p = "ld_problem ld"
    obtain first second rest costs where c: "first < length (ip_nodes ?p)" "second < length (ip_nodes ?p)" "first \<noteq> second"
      "parse_costs rest (domain_at ?p first * domain_at ?p second) = Some costs" "list_all is_valid_input_cost costs"
      "ld' = ld\<lparr>ld_problem := ?p\<lparr>ip_edges := ip_edges ?p @ [\<lparr>ie_first = first, ie_second = second, ie_costs = costs\<rparr>]\<rparr>\<rparr>"
      using e by (auto simp: load_edge_line_def domain_at_def Let_def not_le split: if_splits option.splits prod.splits)
    have "valid_edge_of ?p \<lparr>ie_first = first, ie_second = second, ie_costs = costs\<rparr>"
      using c(1-3) parse_costs_length[OF c(4)] loaded_costs[OF c(4,5)] by (auto simp: valid_edge_of_def)
    then show ?thesis using assms(2) by (auto simp: loader_ok_def valid_input_def c(6))
  qed
  ultimately show ?thesis using assms(1) k by (auto simp: load_line_def split: if_splits)
qed

lemma load_problem_valid:
  assumes "load_problem file empty_input = Some p"
  shows "valid_input p" and "ip_nodes p \<noteq> []"
proof -
  let ?ld0 = "\<lparr>ld_problem = empty_input, ld_saw_nodes = False, ld_declared_nodes = 0\<rparr>"
  obtain text_n ld where ld: "fold_option load_line (getlines text_n) ?ld0 = Some ld"
    "ld_saw_nodes ld" "length (ip_nodes (ld_problem ld)) = ld_declared_nodes ld" "p = ld_problem ld"
    using assms by (auto simp: load_problem_def split: option.splits if_splits)
  have "loader_ok ?ld0" by (simp add: loader_ok_def valid_input_def)
  then have "loader_ok ld" by (rule fold_option_invariant[OF ld(1)]) (blast intro: load_line_ok)
  then show "valid_input p" "ip_nodes p \<noteq> []" using ld(2-4) by (auto simp: loader_ok_def)
qed

text \<open>
  C23: what the loader accepts. Every problem read from a file has at least one node, between 1 and
  65536 costs per node, edges between two different declared nodes with one cost per pair of values,
  and every cost in the 32-bit range and at most \<open>ACCEL_INF\<close>; for any bytes in the file.
\<close>

theorem loaded_problem_valid:
  assumes "load_problem file \<lparr>ip_nodes = [], ip_edges = []\<rparr> = Some p"
  shows "ip_nodes p \<noteq> [] \<and> valid_input p"
  using load_problem_valid[OF assms] by simp

definition example_text :: string where
  "example_text = ''nodes 2 # two'' @ [newline] @ ''node 2 0 +7'' @ [newline, newline] @ ''node 1 INF'' @ [newline] @ ''edge 0 1 -3 04''"

definition example_input :: input_problem where
  "example_input = \<lparr>ip_nodes = [\<lparr>in_unary = [0, 7]\<rparr>, \<lparr>in_unary = [ACCEL_INF]\<rparr>],
     ip_edges = [\<lparr>ie_first = 0, ie_second = 1, ie_costs = [-3, 4]\<rparr>]\<rparr>"

lemma example_loads: "load_problem (Some example_text) \<lparr>ip_nodes = [], ip_edges = []\<rparr> = Some example_input"
  by code_simp

theorem loaded_problem_valid_witness: "ip_nodes example_input \<noteq> [] \<and> valid_input example_input"
  by (rule loaded_problem_valid[OF example_loads])

end
