(* ===== verification/Pbqp_Cost.thy ===== *)
theory Pbqp_Cost
  imports Pbqp_Solver
begin

text \<open>
  What the numbers of a PBQP graph mean. \<open>total_cost\<close> is the cost of an assignment in the extended
  integers: the objective offset plus the active tables. \<open>pbqp_wf\<close> is the invariant of the graph:
  array shapes, domains, at most one active edge per pair of active nodes, and an elimination order
  that lists the inactive nodes. \<open>costs_bounded\<close> bounds the finite costs: every table has a weight
  (how many input tables were merged into it), its finite entries are at most weight times
  \<open>pbqp_max_finite_cost\<close>, and the weights sum to at most the capacities. This makes the saturating
  additions exact (\<open>add_exact\<close>), the fact behind all the exactness results.
\<close>

section \<open>Definitions\<close>

definition edge_cost :: "pbqp_edge \<Rightarrow> nat \<Rightarrow> nat \<Rightarrow> int" where
  "edge_cost edge a b = eg_cost edge ! (a * eg_stride edge + b)"

definition node_term :: "pbqp_problem \<Rightarrow> nat list \<Rightarrow> nat \<Rightarrow> ecost" where
  "node_term p x n = (if nd_active (node_at p n) then cost_abs (nd_unary (node_at p n) ! (x ! n)) else 0)"

definition edge_term :: "pbqp_problem \<Rightarrow> nat list \<Rightarrow> nat \<Rightarrow> ecost" where
  "edge_term p x e = (if eg_active (edge_at p e)
     then cost_abs (edge_cost (edge_at p e) (x ! eg_first (edge_at p e)) (x ! eg_second (edge_at p e))) else 0)"

definition core_cost :: "pbqp_problem \<Rightarrow> nat list \<Rightarrow> ecost" where
  "core_cost p x = (\<Sum>n<pb_node_count p. node_term p x n) + (\<Sum>e<pb_edge_capacity p. edge_term p x e)"

definition total_cost :: "pbqp_problem \<Rightarrow> nat list \<Rightarrow> ecost" where
  "total_cost p x = cost_abs (pb_objective_offset p) + core_cost p x"

text \<open>An assignment that gives every active node a value of its domain.\<close>

definition valid_assignment :: "pbqp_problem \<Rightarrow> nat list \<Rightarrow> bool" where
  "valid_assignment p x \<longleftrightarrow> pb_node_count p \<le> length x \<and>
     (\<forall>n < pb_node_count p. nd_active (node_at p n) \<longrightarrow> x ! n < nd_domain (node_at p n))"

definition shape_ok :: "pbqp_problem \<Rightarrow> bool" where
  "shape_ok p \<longleftrightarrow>
     length (pb_nodes p) = pb_node_capacity p \<and> length (pb_edges p) = pb_edge_capacity p \<and>
     length (pb_reconstruction p) = pb_node_capacity p \<and>
     length (pb_elimination_order p) = pb_node_capacity p \<and>
     (\<forall>n < pb_node_capacity p. length (nd_unary (node_at p n)) = pb_domain_capacity p \<and>
        length (pb_reconstruction p ! n) = pb_domain_capacity p * pb_domain_capacity p) \<and>
     (\<forall>e < pb_edge_capacity p. eg_stride (edge_at p e) = pb_domain_capacity p \<and>
        length (eg_cost (edge_at p e)) = pb_domain_capacity p * pb_domain_capacity p) \<and>
     pb_node_count p \<le> pb_node_capacity p \<and> pb_node_capacity p < 2 ^ 32 \<and> pb_edge_capacity p < 2 ^ 32 \<and>
     0 < pb_domain_capacity p \<and> pb_domain_capacity p * pb_domain_capacity p < 2 ^ 32"

definition graph_ok :: "pbqp_problem \<Rightarrow> bool" where
  "graph_ok p \<longleftrightarrow>
     (\<forall>n < pb_node_count p. 0 < nd_domain (node_at p n) \<and> nd_domain (node_at p n) \<le> pb_domain_capacity p \<and>
        nd_second_neighbor (node_at p n) < pb_node_count p) \<and>
     (\<forall>n < pb_node_capacity p. nd_active (node_at p n) \<longrightarrow> n < pb_node_count p) \<and>
     (\<forall>e < pb_edge_capacity p. eg_active (edge_at p e) \<longrightarrow>
        eg_first (edge_at p e) < pb_node_count p \<and> eg_second (edge_at p e) < pb_node_count p \<and>
        eg_first (edge_at p e) \<noteq> eg_second (edge_at p e) \<and>
        nd_active (node_at p (eg_first (edge_at p e))) \<and> nd_active (node_at p (eg_second (edge_at p e)))) \<and>
     (\<forall>e < pb_edge_capacity p. \<forall>f < pb_edge_capacity p. eg_active (edge_at p e) \<longrightarrow>
        edge_joins (edge_at p f) (eg_first (edge_at p e)) (eg_second (edge_at p e)) \<longrightarrow> e = f)"

definition eliminated :: "pbqp_problem \<Rightarrow> nat list" where
  "eliminated p = take (pb_elimination_count p) (pb_elimination_order p)"

definition order_ok :: "pbqp_problem \<Rightarrow> bool" where
  "order_ok p \<longleftrightarrow> pb_elimination_count p \<le> pb_node_count p \<and> distinct (eliminated p) \<and>
     set (eliminated p) = {n. n < pb_node_count p \<and> \<not> nd_active (node_at p n)}"

definition pbqp_wf :: "pbqp_problem \<Rightarrow> bool" where
  "pbqp_wf p \<longleftrightarrow> shape_ok p \<and> graph_ok p \<and> order_ok p"

text \<open>A cost that is infinite or at most \<open>w\<close> times the finite input bound.\<close>

definition max_finite :: "pbqp_problem \<Rightarrow> int" where
  "max_finite p = pbqp_max_finite_cost (Some p)"

definition within :: "pbqp_problem \<Rightarrow> nat \<Rightarrow> int \<Rightarrow> bool" where
  "within p w c \<longleftrightarrow> c = ACCEL_INF \<or> \<bar>c\<bar> \<le> int w * max_finite p"

text \<open>The finite entries of the offset and of the active tables, bounded by weights.\<close>

definition tables_within :: "pbqp_problem \<Rightarrow> nat \<Rightarrow> (nat \<Rightarrow> nat) \<Rightarrow> (nat \<Rightarrow> nat) \<Rightarrow> bool" where
  "tables_within p wo wn we \<longleftrightarrow>
     within p wo (pb_objective_offset p) \<and>
     (\<forall>n < pb_node_count p. nd_active (node_at p n) \<longrightarrow>
        (\<forall>v < nd_domain (node_at p n). within p (wn n) (nd_unary (node_at p n) ! v))) \<and>
     (\<forall>e < pb_edge_capacity p. eg_active (edge_at p e) \<longrightarrow>
        (\<forall>a < nd_domain (node_at p (eg_first (edge_at p e))).
          \<forall>b < nd_domain (node_at p (eg_second (edge_at p e))). within p (we e) (edge_cost (edge_at p e) a b)))"

definition weighted :: "pbqp_problem \<Rightarrow> nat \<Rightarrow> (nat \<Rightarrow> nat) \<Rightarrow> (nat \<Rightarrow> nat) \<Rightarrow> bool" where
  "weighted p wo wn we \<longleftrightarrow> tables_within p wo wn we \<and>
     wo + (\<Sum>n<pb_node_count p. wn n) + (\<Sum>e<pb_edge_capacity p. we e) \<le> pb_node_capacity p + pb_edge_capacity p"

definition costs_bounded :: "pbqp_problem \<Rightarrow> bool" where
  "costs_bounded p \<longleftrightarrow> (\<exists>wo wn we. weighted p wo wn we)"

text \<open>A graph as the caller built it: nothing eliminated and input costs only.\<close>

definition fresh_problem :: "pbqp_problem \<Rightarrow> bool" where
  "fresh_problem p \<longleftrightarrow> pb_objective_offset p = 0 \<and> pb_elimination_count p = 0 \<and>
     pb_allocator p \<and> pb_storage p \<and>
     (\<forall>n < pb_node_count p. nd_active (node_at p n) \<and>
        (\<forall>v < nd_domain (node_at p n). IsValidCost p (nd_unary (node_at p n) ! v))) \<and>
     (\<forall>e < pb_edge_capacity p. eg_active (edge_at p e) \<longrightarrow>
        (\<forall>a < nd_domain (node_at p (eg_first (edge_at p e))).
          \<forall>b < nd_domain (node_at p (eg_second (edge_at p e))). IsValidCost p (edge_cost (edge_at p e) a b)))"

section \<open>Statistics do not matter\<close>

lemma statistics_irrelevant [simp]:
  "node_term (p\<lparr>pb_statistics := s\<rparr>) x n = node_term p x n"
  "edge_term (p\<lparr>pb_statistics := s\<rparr>) x e = edge_term p x e"
  "core_cost (p\<lparr>pb_statistics := s\<rparr>) x = core_cost p x"
  "total_cost (p\<lparr>pb_statistics := s\<rparr>) x = total_cost p x"
  "valid_assignment (p\<lparr>pb_statistics := s\<rparr>) x = valid_assignment p x"
  "pbqp_wf (p\<lparr>pb_statistics := s\<rparr>) = pbqp_wf p"
  "eliminated (p\<lparr>pb_statistics := s\<rparr>) = eliminated p"
  "max_finite (p\<lparr>pb_statistics := s\<rparr>) = max_finite p"
  "within (p\<lparr>pb_statistics := s\<rparr>) w c = within p w c"
  "tables_within (p\<lparr>pb_statistics := s\<rparr>) wo wn we = tables_within p wo wn we"
  "weighted (p\<lparr>pb_statistics := s\<rparr>) wo wn we = weighted p wo wn we"
  "costs_bounded (p\<lparr>pb_statistics := s\<rparr>) = costs_bounded p"
proof -
  show t: "node_term (p\<lparr>pb_statistics := s\<rparr>) x n = node_term p x n"
    "edge_term (p\<lparr>pb_statistics := s\<rparr>) x e = edge_term p x e" for n e
    by (simp_all add: node_term_def edge_term_def)
  then show c: "core_cost (p\<lparr>pb_statistics := s\<rparr>) x = core_cost p x" by (simp add: core_cost_def)
  then show "total_cost (p\<lparr>pb_statistics := s\<rparr>) x = total_cost p x" by (simp add: total_cost_def)
  show "valid_assignment (p\<lparr>pb_statistics := s\<rparr>) x = valid_assignment p x"
    by (simp add: valid_assignment_def)
  show el: "eliminated (p\<lparr>pb_statistics := s\<rparr>) = eliminated p" by (simp add: eliminated_def)
  then show "pbqp_wf (p\<lparr>pb_statistics := s\<rparr>) = pbqp_wf p"
    by (simp add: pbqp_wf_def shape_ok_def graph_ok_def order_ok_def)
  show mf: "max_finite (p\<lparr>pb_statistics := s\<rparr>) = max_finite p"
    by (simp add: max_finite_def pbqp_max_finite_cost_def)
  then show wi: "within (p\<lparr>pb_statistics := s\<rparr>) w c = within p w c" for w c by (simp add: within_def)
  then show tw: "tables_within (p\<lparr>pb_statistics := s\<rparr>) wo wn we = tables_within p wo wn we" for wo wn we
    by (simp add: tables_within_def)
  then show we: "weighted (p\<lparr>pb_statistics := s\<rparr>) wo wn we = weighted p wo wn we" for wo wn we
    by (simp add: weighted_def)
  then show "costs_bounded (p\<lparr>pb_statistics := s\<rparr>) = costs_bounded p" by (simp add: costs_bounded_def)
qed

section \<open>Tables and edges\<close>

lemma within_cong:
  "pb_node_capacity p' = pb_node_capacity p \<Longrightarrow> pb_edge_capacity p' = pb_edge_capacity p \<Longrightarrow>
   within p' = within p"
  by (intro ext) (simp add: within_def max_finite_def pbqp_max_finite_cost_def)

lemma tables_withinI:
  assumes "within p wo (pb_objective_offset p)"
    and "\<And>n v. n < pb_node_count p \<Longrightarrow> nd_active (node_at p n) \<Longrightarrow> v < nd_domain (node_at p n) \<Longrightarrow>
      within p (wn n) (nd_unary (node_at p n) ! v)"
    and "\<And>e a b. e < pb_edge_capacity p \<Longrightarrow> eg_active (edge_at p e) \<Longrightarrow>
      a < nd_domain (node_at p (eg_first (edge_at p e))) \<Longrightarrow> b < nd_domain (node_at p (eg_second (edge_at p e))) \<Longrightarrow>
      within p (we e) (edge_cost (edge_at p e) a b)"
  shows "tables_within p wo wn we"
  using assms by (simp add: tables_within_def)

lemma tables_withinD:
  assumes "tables_within p wo wn we"
  shows "within p wo (pb_objective_offset p)"
    and "n < pb_node_count p \<Longrightarrow> nd_active (node_at p n) \<Longrightarrow> v < nd_domain (node_at p n) \<Longrightarrow>
      within p (wn n) (nd_unary (node_at p n) ! v)"
    and "e < pb_edge_capacity p \<Longrightarrow> eg_active (edge_at p e) \<Longrightarrow>
      a < nd_domain (node_at p (eg_first (edge_at p e))) \<Longrightarrow> b < nd_domain (node_at p (eg_second (edge_at p e))) \<Longrightarrow>
      within p (we e) (edge_cost (edge_at p e) a b)"
  using assms by (simp_all add: tables_within_def)

lemma wf_edge:
  assumes "pbqp_wf p" and "e < pb_edge_capacity p" and "eg_active (edge_at p e)"
  shows "eg_first (edge_at p e) < pb_node_count p" and "eg_second (edge_at p e) < pb_node_count p"
    and "eg_first (edge_at p e) \<noteq> eg_second (edge_at p e)"
    and "nd_active (node_at p (eg_first (edge_at p e)))" and "nd_active (node_at p (eg_second (edge_at p e)))"
  using assms by (auto simp: pbqp_wf_def graph_ok_def)

section \<open>Exact additions\<close>

lemma max_finite_budget:
  shows "0 \<le> max_finite p" and "int (pb_node_capacity p + pb_edge_capacity p) * max_finite p < ACCEL_INF"
proof -
  let ?t = "int (pb_node_capacity p) + int (pb_edge_capacity p)"
  have inf: "0 < ACCEL_INF" by (simp add: cost_consts)
  show "0 \<le> max_finite p"
    using inf by (simp add: max_finite_def pbqp_max_finite_cost_def Let_def pos_imp_zdiv_nonneg_iff)
  show "int (pb_node_capacity p + pb_edge_capacity p) * max_finite p < ACCEL_INF"
  proof (cases "?t = 0")
    case True
    then show ?thesis using inf by (simp add: max_finite_def pbqp_max_finite_cost_def)
  next
    case False
    then have "0 < ?t" by linarith
    then have "?t * ((ACCEL_INF - 1) div ?t) \<le> ACCEL_INF - 1"
      using minus_mod_eq_mult_div[of "ACCEL_INF - 1" ?t] pos_mod_sign[of ?t "ACCEL_INF - 1"] by linarith
    then show ?thesis using False by (simp add: max_finite_def pbqp_max_finite_cost_def)
  qed
qed

lemma within_finite:
  assumes "within p w c" and "c \<noteq> ACCEL_INF" and "w \<le> pb_node_capacity p + pb_edge_capacity p"
  shows "\<bar>c\<bar> < ACCEL_INF"
proof -
  have "\<bar>c\<bar> \<le> int w * max_finite p" using assms by (simp add: within_def)
  also have "\<dots> \<le> int (pb_node_capacity p + pb_edge_capacity p) * max_finite p"
    using assms(3) max_finite_budget(1)[of p] by (intro mult_right_mono) simp_all
  finally show ?thesis using max_finite_budget(2)[of p] by linarith
qed

lemma within_mono: "within p w c \<Longrightarrow> w \<le> v \<Longrightarrow> within p v c"
proof -
  assume "within p w c" "w \<le> v"
  moreover have "int w * max_finite p \<le> int v * max_finite p"
    using \<open>w \<le> v\<close> max_finite_budget(1)[of p] by (intro mult_right_mono) simp_all
  ultimately show ?thesis by (auto simp: within_def)
qed

lemma within_valid:
  "within p w c \<Longrightarrow> w \<le> pb_node_capacity p + pb_edge_capacity p \<Longrightarrow> valid_cost c \<and> c \<le> ACCEL_INF"
  using within_finite[of p w c] by (cases "c = ACCEL_INF") (auto simp: valid_cost_def cost_consts)

lemma cost_abs_finite: "cost_abs c = Fin c" if "c \<noteq> ACCEL_INF"
  using that by (simp add: cost_abs_def)

lemma add_exact:
  assumes "within p w a" and "within p v b" and "w + v \<le> pb_node_capacity p + pb_edge_capacity p"
  shows "cost_add a b = Some (accel_cost_add a b)"
    and "cost_abs (accel_cost_add a b) = cost_abs a + cost_abs b"
    and "within p (w + v) (accel_cost_add a b)"
proof -
  have le: "a \<le> ACCEL_INF" "b \<le> ACCEL_INF"
    using within_valid[OF assms(1)] within_valid[OF assms(2)] assms(3) by auto
  consider (inf) "a = ACCEL_INF \<or> b = ACCEL_INF" | (fin) "a \<noteq> ACCEL_INF" "b \<noteq> ACCEL_INF" by blast
  then have "cost_add a b = Some (accel_cost_add a b) \<and>
      cost_abs (accel_cost_add a b) = cost_abs a + cost_abs b \<and> within p (w + v) (accel_cost_add a b)"
  proof cases
    case inf
    have "cost_add a b = Some ACCEL_INF" using inf le by (auto simp: cost_add_eq)
    then show ?thesis
      using inf by (cases "cost_abs a"; cases "cost_abs b")
        (auto simp: accel_cost_add_eq cost_abs_def plus_ecost_def within_def split: if_splits)
  next
    case fin
    have ab: "\<bar>a\<bar> \<le> int w * max_finite p" "\<bar>b\<bar> \<le> int v * max_finite p"
      using assms fin by (auto simp: within_def)
    then have sum_le: "\<bar>a + b\<bar> \<le> int (w + v) * max_finite p" by (simp add: distrib_right)
    moreover have "int (w + v) * max_finite p \<le> int (pb_node_capacity p + pb_edge_capacity p) * max_finite p"
      using assms(3) max_finite_budget(1)[of p] by (intro mult_right_mono) simp_all
    ultimately have bound: "\<bar>a + b\<bar> < ACCEL_INF" using max_finite_budget(2)[of p] by linarith
    then have "cost_add a b = Some (a + b)"
      using fin le by (auto simp: cost_add_eq cost_consts)
    moreover have "a + b \<noteq> ACCEL_INF" using bound by auto
    ultimately show ?thesis
      using fin sum_le by (simp add: accel_cost_add_eq cost_abs_def plus_ecost_def within_def)
  qed
  then show "cost_add a b = Some (accel_cost_add a b)"
    and "cost_abs (accel_cost_add a b) = cost_abs a + cost_abs b"
    and "within p (w + v) (accel_cost_add a b)" by blast+
qed

lemma cost_abs_mono:
  assumes "a \<le> b" and "a \<le> ACCEL_INF" and "b \<le> ACCEL_INF"
  shows "cost_abs a \<le> cost_abs b"
  using assms by (auto simp: cost_abs_def)

lemma cost_abs_le_iff:
  "a \<le> ACCEL_INF \<Longrightarrow> b \<le> ACCEL_INF \<Longrightarrow> cost_abs a \<le> cost_abs b \<longleftrightarrow> a \<le> b"
  by (auto simp: cost_abs_def)

lemma cost_abs_inject: "cost_abs a = cost_abs b \<longleftrightarrow> a = b"
  by (auto simp: cost_abs_def)

lemma within_zero [simp]: "within p w 0"
  using max_finite_budget(1)[of p] by (simp add: within_def)

lemma cost_abs_zero [simp]: "cost_abs 0 = 0"
  by (simp add: cost_abs_def zero_ecost_def cost_consts)

text \<open>A loop that adds the selected costs of a list, as in the evaluations of the source.\<close>

lemma fold_add_exact:
  assumes "within p w0 s" and "\<And>i. i \<in> set xs \<Longrightarrow> P i \<Longrightarrow> within p (w i) (f i)"
    and "w0 + sum_list (map w xs) \<le> pb_node_capacity p + pb_edge_capacity p"
  shows "cost_abs (fold (\<lambda>i s. if P i then accel_cost_add s (f i) else s) xs s) =
      cost_abs s + sum_list (map (\<lambda>i. if P i then cost_abs (f i) else 0) xs) \<and>
    within p (w0 + sum_list (map w xs)) (fold (\<lambda>i s. if P i then accel_cost_add s (f i) else s) xs s)"
  using assms
proof (induction xs arbitrary: s w0)
  case Nil
  then show ?case by simp
next
  case (Cons i xs)
  let ?s = "if P i then accel_cost_add s (f i) else s"
  have fit: "w0 + w i \<le> pb_node_capacity p + pb_edge_capacity p" using Cons.prems(3) by simp
  have "within p (w0 + w i) ?s" and s: "cost_abs ?s = cost_abs s + (if P i then cost_abs (f i) else 0)"
    using add_exact[OF Cons.prems(1) _ fit] Cons.prems within_mono[OF Cons.prems(1), of "w0 + w i"] by auto
  then show ?case
    using Cons.IH[of "w0 + w i" ?s] Cons.prems by (auto simp: add.assoc)
qed

lemma fold_add_range:
  assumes "within p w0 s" and "\<And>i. i < n \<Longrightarrow> P i \<Longrightarrow> within p (w i) (f i)"
    and "w0 + (\<Sum>i<n. w i) \<le> pb_node_capacity p + pb_edge_capacity p"
  shows "cost_abs (fold (\<lambda>i s. if P i then accel_cost_add s (f i) else s) [0..<n] s) =
      cost_abs s + (\<Sum>i<n. if P i then cost_abs (f i) else 0)"
    and "within p (w0 + (\<Sum>i<n. w i)) (fold (\<lambda>i s. if P i then accel_cost_add s (f i) else s) [0..<n] s)"
  using fold_add_exact[of p w0 s "[0..<n]" P w f] assms
  by (simp_all add: sum_set_upt_conv_sum_list_nat[symmetric] atLeast0LessThan)

section \<open>Evaluation\<close>

lemma valid_edge_values:
  assumes "pbqp_wf p" and "valid_assignment p x" and "e < pb_edge_capacity p" and "eg_active (edge_at p e)"
  shows "x ! eg_first (edge_at p e) < nd_domain (node_at p (eg_first (edge_at p e)))"
    and "x ! eg_second (edge_at p e) < nd_domain (node_at p (eg_second (edge_at p e)))"
  using assms by (auto simp: pbqp_wf_def graph_ok_def valid_assignment_def)

lemma evaluate_core:
  assumes wf: "pbqp_wf p" and w: "weighted p wo wn we" and x: "valid_assignment p x"
  shows "cost_abs (EvaluateActiveCore p x) = core_cost p x"
    and "within p ((\<Sum>n<pb_node_count p. wn n) + (\<Sum>e<pb_edge_capacity p. we e)) (EvaluateActiveCore p x)"
proof -
  let ?nodes = "fold (\<lambda>n s. if nd_active (node_at p n)
      then accel_cost_add s (nd_unary (node_at p n) ! (x ! n)) else s) [0..<pb_node_count p] 0"
  have wn: "within p (wn n) (nd_unary (node_at p n) ! (x ! n))"
    if "n < pb_node_count p" and "nd_active (node_at p n)" for n
    using w x that by (auto simp: weighted_def tables_within_def valid_assignment_def)
  have we: "within p (we e) (edge_cost (edge_at p e) (x ! eg_first (edge_at p e)) (x ! eg_second (edge_at p e)))"
    if "e < pb_edge_capacity p" and "eg_active (edge_at p e)" for e
    using w that valid_edge_values[OF wf x that] by (auto simp: weighted_def tables_within_def)
  have fit: "(\<Sum>n<pb_node_count p. wn n) + (\<Sum>e<pb_edge_capacity p. we e) \<le> pb_node_capacity p + pb_edge_capacity p"
    using w by (simp add: weighted_def)
  have n1: "cost_abs ?nodes = (\<Sum>n<pb_node_count p. node_term p x n)"
    and n2: "within p (\<Sum>n<pb_node_count p. wn n) ?nodes"
    using fold_add_range[of p 0 0 "pb_node_count p" "\<lambda>n. nd_active (node_at p n)" wn
        "\<lambda>n. nd_unary (node_at p n) ! (x ! n)"] wn fit by (simp_all add: node_term_def)
  show "cost_abs (EvaluateActiveCore p x) = core_cost p x"
    and "within p ((\<Sum>n<pb_node_count p. wn n) + (\<Sum>e<pb_edge_capacity p. we e)) (EvaluateActiveCore p x)"
    using fold_add_range[of p _ ?nodes "pb_edge_capacity p" "\<lambda>e. eg_active (edge_at p e)" we
        "\<lambda>e. edge_cost (edge_at p e) (x ! eg_first (edge_at p e)) (x ! eg_second (edge_at p e))",
        OF n2 we fit]
    unfolding EvaluateActiveCore_def core_cost_def edge_term_def edge_cost_def Let_def n1 by simp_all
qed

lemma input_within: "IsValidCost p c \<Longrightarrow> within p 1 c"
  by (auto simp: IsValidCost_def within_def max_finite_def Let_def)

lemma fresh_weighted:
  assumes "pbqp_wf p" and "fresh_problem p"
  shows "weighted p 0 (\<lambda>n. 1) (\<lambda>e. 1)"
proof -
  have "pb_node_count p \<le> pb_node_capacity p" using assms(1) by (simp add: pbqp_wf_def shape_ok_def)
  then show ?thesis using assms(2) input_within by (auto simp: weighted_def tables_within_def fresh_problem_def)
qed

lemma evaluate_fresh:
  assumes "fresh_problem p"
  shows "pbqp_evaluate p x = EvaluateActiveCore p x"
proof -
  have "fold (\<lambda>n s. accel_cost_add s (nd_unary (node_at p n) ! (x ! n))) [0..<pb_node_count p] 0 =
      fold (\<lambda>n s. if nd_active (node_at p n) then accel_cost_add s (nd_unary (node_at p n) ! (x ! n)) else s)
        [0..<pb_node_count p] 0"
    using assms by (intro fold_cong) (auto simp: fresh_problem_def)
  then show ?thesis by (simp add: pbqp_evaluate_def EvaluateActiveCore_def)
qed

lemma evaluate_exact:
  assumes "pbqp_wf p" and "fresh_problem p" and "valid_assignment p x"
  shows "cost_abs (pbqp_evaluate p x) = total_cost p x" and "pbqp_evaluate p x \<le> ACCEL_INF"
proof -
  have "total_cost p x = core_cost p x" using assms(2) by (simp add: total_cost_def fresh_problem_def)
  then show "cost_abs (pbqp_evaluate p x) = total_cost p x"
    using evaluate_core(1)[OF assms(1) fresh_weighted[OF assms(1,2)] assms(3)] evaluate_fresh[OF assms(2)]
    by simp
  have "pb_node_count p + pb_edge_capacity p \<le> pb_node_capacity p + pb_edge_capacity p"
    using assms(1) by (simp add: pbqp_wf_def shape_ok_def)
  then show "pbqp_evaluate p x \<le> ACCEL_INF"
    using evaluate_core(2)[OF assms(1) fresh_weighted[OF assms(1,2)] assms(3)] evaluate_fresh[OF assms(2)]
      within_valid by fastforce
qed

section \<open>Sums that change in one place\<close>

lemma sum_change_one:
  fixes f g :: "nat \<Rightarrow> 'a::comm_monoid_add"
  assumes "n < k" and "\<And>i. i < k \<Longrightarrow> i \<noteq> n \<Longrightarrow> g i = f i"
  obtains r where "sum f {..<k} = f n + r" and "sum g {..<k} = g n + r"
proof
  show "sum f {..<k} = f n + sum f ({..<k} - {n})" using assms(1) by (simp add: sum.remove)
  have "sum g ({..<k} - {n}) = sum f ({..<k} - {n})" using assms(2) by (intro sum.cong) auto
  then show "sum g {..<k} = g n + sum f ({..<k} - {n})"
    using assms(1) by (simp add: sum.remove)
qed

lemma sum_change_two:
  fixes f g :: "nat \<Rightarrow> 'a::comm_monoid_add"
  assumes "n < k" and "m < k" and "n \<noteq> m" and "\<And>i. i < k \<Longrightarrow> i \<noteq> n \<Longrightarrow> i \<noteq> m \<Longrightarrow> g i = f i"
  obtains r where "sum f {..<k} = f n + (f m + r)" and "sum g {..<k} = g n + (g m + r)"
proof
  let ?R = "{..<k} - {n} - {m}"
  have split: "sum h {..<k} = h n + (h m + sum h ?R)" for h :: "nat \<Rightarrow> 'a"
    using assms(1-3) by (simp add: sum.remove[of _ n] sum.remove[of _ m])
  show "sum f {..<k} = f n + (f m + sum f ?R)" by (rule split)
  have "sum g ?R = sum f ?R" using assms(4) by (intro sum.cong) auto
  then show "sum g {..<k} = g n + (g m + sum f ?R)" using split[of g] by simp
qed

lemma sum_fun_upd:
  fixes f :: "nat \<Rightarrow> nat"
  assumes "n < k"
  shows "sum (f(n := v)) {..<k} + f n = sum f {..<k} + v"
  by (rule sum_change_one[of n k "f(n := v)" f]) (use assms in auto)

end
