(* ===== verification/Pbqp_Kernel_Correct.thy ===== *)
theory Pbqp_Kernel_Correct
  imports Pbqp_Kernel
begin

text \<open>
  The contract between the solver and a cost kernel, as two locales. \<open>cost_kernel\<close>: on operands that
  are costs and whose checked sums all exist, a call that reports success stored the first minima of the sums.
  \<open>total_kernel\<close> adds that such calls do succeed. The lemmas of the locales lift the laws of the
  function pointers to the wrapper class, with and without the optional batch entries. The software
  kernel satisfies both.
\<close>

section \<open>Specification of the primitives\<close>

definition sum2 :: "pbqp_vector_view \<Rightarrow> pbqp_vector_view \<Rightarrow> int list" where
  "sum2 a b = map (\<lambda>i. accel_cost_add (view_at a i) (view_at b i)) [0..<kv_length a]"

definition exact2 :: "pbqp_vector_view \<Rightarrow> pbqp_vector_view \<Rightarrow> bool" where
  "exact2 a b \<longleftrightarrow> 0 < kv_length a \<and> kv_length b = kv_length a \<and>
     (\<forall>i < kv_length a. valid_cost (view_at a i) \<and> valid_cost (view_at b i) \<and> cost_add (view_at a i) (view_at b i) \<noteq> None)"

definition sum3 :: "pbqp_vector_view \<Rightarrow> pbqp_vector_view \<Rightarrow> (nat \<Rightarrow> int) \<Rightarrow> int list" where
  "sum3 a b c = map (\<lambda>i. accel_cost_add (accel_cost_add (view_at a i) (view_at b i)) (c i)) [0..<kv_length a]"

definition exact3 :: "pbqp_vector_view \<Rightarrow> pbqp_vector_view \<Rightarrow> (nat \<Rightarrow> int) \<Rightarrow> bool" where
  "exact3 a b c \<longleftrightarrow> 0 < kv_length a \<and> kv_length b = kv_length a \<and>
     (\<forall>i < kv_length a. valid_cost (view_at a i) \<and> valid_cost (view_at b i) \<and> valid_cost (c i) \<and>
        cost_add (view_at a i) (view_at b i) \<noteq> None \<and> cost_add (accel_cost_add (view_at a i) (view_at b i)) (c i) \<noteq> None)"

definition exact_min3 :: "pbqp_vector_view \<Rightarrow> pbqp_vector_view \<Rightarrow> pbqp_vector_view \<Rightarrow> bool" where
  "exact_min3 a b c \<longleftrightarrow> exact3 a b (view_at c) \<and> kv_length c = kv_length a"

definition row_view :: "pbqp_matrix_view \<Rightarrow> nat \<Rightarrow> pbqp_vector_view" where
  "row_view m r = \<lparr>kv_base = km_base m, kv_offset = r * km_row_stride m, kv_length = km_columns m,
     kv_stride = km_column_stride m\<rparr>"

definition project_row :: "pbqp_matrix_view \<Rightarrow> pbqp_vector_view \<Rightarrow> nat \<Rightarrow> int" where
  "project_row m v r = fst (first_min (sum2 (row_view m r) v))"

text \<open>The scores after one projection job, and the condition under which it cannot fail.\<close>

definition project_add :: "pbqp_project_add_job \<Rightarrow> int list \<Rightarrow> int list" where
  "project_add job scores =
     (case job of (m, v) \<Rightarrow> map (\<lambda>r. accel_cost_add (project_row m v r) (scores ! r)) [0..<length scores])"

definition exact_project :: "pbqp_project_add_job \<Rightarrow> int list \<Rightarrow> bool" where
  "exact_project job scores \<longleftrightarrow>
     (case job of (m, v) \<Rightarrow> km_rows m = length scores \<and> km_columns m = kv_length v \<and> (\<forall>r < km_rows m. exact2 (row_view m r) v \<and>
        valid_cost (scores ! r) \<and> cost_add (project_row m v r) (scores ! r) \<noteq> None))"

fun exact_projects :: "pbqp_project_add_job list \<Rightarrow> int list \<Rightarrow> bool" where
  "exact_projects [] scores = True"
| "exact_projects (job # jobs) scores \<longleftrightarrow>
     exact_project job scores \<and> exact_projects jobs (project_add job scores)"

definition map3_rows :: "pbqp_map3_project_job \<Rightarrow> min_argmin list" where
  "map3_rows job = (case job of (u, f, m) \<Rightarrow> map (\<lambda>r. first_min (sum3 u f (matrix_at m r))) [0..<km_rows m])"

definition exact_map3 :: "pbqp_map3_project_job \<Rightarrow> bool" where
  "exact_map3 job \<longleftrightarrow> (case job of (u, f, m) \<Rightarrow> km_columns m = kv_length u \<and> kv_length f = kv_length u \<and>
     km_rows m < 2 ^ 32 \<and> (\<forall>r < km_rows m. exact3 u f (matrix_at m r)))"

section \<open>Lists of jobs\<close>

lemma each_job_success:
  assumes "each_job run jobs s = (Inr rs, s')"
    and "\<And>job s r s'. job \<in> set jobs \<Longrightarrow> run job s = (Inr r, s') \<Longrightarrow> r = g job"
  shows "rs = map g jobs"
  using assms
proof (induction jobs arbitrary: s rs)
  case Nil
  then show ?case by simp
next
  case (Cons job jobs)
  obtain r s1 rs1 where run: "run job s = (Inr r, s1)" and rest: "each_job run jobs s1 = (Inr rs1, s')"
    and rs: "rs = r # rs1"
    using Cons.prems(1) by (auto split: prod.splits sum.splits)
  show ?case using Cons.prems(2)[OF _ run] Cons.IH[OF rest] Cons.prems(2) rs by simp
qed

lemma each_job_total:
  assumes "\<And>job s. job \<in> set jobs \<Longrightarrow> \<exists>r s'. run job s = (Inr r, s')"
  shows "\<exists>rs s'. each_job run jobs s = (Inr rs, s')"
  using assms
proof (induction jobs arbitrary: s)
  case (Cons job jobs)
  obtain r s1 where "run job s = (Inr r, s1)" using Cons.prems[of job s] by auto
  moreover obtain rs s2 where "each_job run jobs s1 = (Inr rs, s2)" using Cons by fastforce
  ultimately show ?case by simp
qed simp

lemma map_jobs_eq:
  "(\<And>job. job \<in> set jobs \<Longrightarrow> run job = Some (g job)) \<Longrightarrow> map_jobs run jobs = Some (map g jobs)"
  by (induction jobs) auto

section \<open>The contract\<close>

locale cost_kernel =
  fixes api :: "'k pbqp_cost_kernel"
  assumes min2_law: "min2_argmin api = Some f2 \<Longrightarrow> exact2 a b \<Longrightarrow> fst (f2 a b k s) = Inr r \<Longrightarrow>
      r = first_min (sum2 a b)"
    and min3_law: "min3_argmin api = Some f3 \<Longrightarrow> exact_min3 a b c \<Longrightarrow> fst (f3 a b c k s) = Inr r \<Longrightarrow>
      r = first_min (sum3 a b (view_at c))"
    and min2_batch_law: "min2_argmin_batch api = Some g2 \<Longrightarrow> (\<And>a b. (a, b) \<in> set jobs2 \<Longrightarrow> exact2 a b) \<Longrightarrow>
      fst (g2 jobs2 k s) = Inr rs \<Longrightarrow> rs = map (\<lambda>(a, b). first_min (sum2 a b)) jobs2"
    and min3_batch_law: "min3_argmin_batch api = Some g3 \<Longrightarrow>
      (\<And>a b c. (a, b, c) \<in> set jobs3 \<Longrightarrow> exact_min3 a b c) \<Longrightarrow>
      fst (g3 jobs3 k s) = Inr rs \<Longrightarrow> rs = map (\<lambda>(a, b, c). first_min (sum3 a b (view_at c))) jobs3"
    and min2_value_law: "min2_value api = Some fv \<Longrightarrow> exact2 a b \<Longrightarrow> fst (fv a b k s) = Inr v \<Longrightarrow>
      v = fst (first_min (sum2 a b))"
    and min2_value_batch_law: "min2_value_batch api = Some gv \<Longrightarrow> (\<And>a b. (a, b) \<in> set jobs2 \<Longrightarrow> exact2 a b) \<Longrightarrow>
      fst (gv jobs2 k s) = Inr vs \<Longrightarrow> vs = map (\<lambda>(a, b). fst (first_min (sum2 a b))) jobs2"
    and project_add_law: "project_add_batch api = Some gp \<Longrightarrow> exact_projects jobsp scores \<Longrightarrow>
      fst (gp jobsp scores k s) = Inr vs \<Longrightarrow> vs = fold project_add jobsp scores"
    and map3_law: "map3_project_batch api = Some gm \<Longrightarrow> (\<And>u f m. (u, f, m) \<in> set jobsm \<Longrightarrow> exact_map3 (u, f, m)) \<Longrightarrow>
      fst (gm jobsm k s) = Inr rs \<Longrightarrow> rs = concat (map map3_rows jobsm)"
    and required: "min2_argmin api \<noteq> None" "min3_argmin api \<noteq> None"
begin

lemma record_success: "Record call ks = (Inr r, ks') \<Longrightarrow> fst (call (ks_context ks) (ks_statistics ks)) = Inr r"
  by (auto simp: Record_def split: prod.splits)

lemma Min2_correct:
  assumes "exact2 a b" and "Min2 api (a, b) ks = (Inr r, ks')"
  shows "r = first_min (sum2 a b)"
proof -
  obtain f where f: "min2_argmin api = Some f" using required by auto
  then have "Record (f a b) ks = (Inr r, ks')" using assms(2) by (simp add: Min2_def)
  from min2_law[OF f assms(1) record_success[OF this]] show ?thesis .
qed

lemma Min3_correct:
  assumes "exact_min3 a b c" and "Min3 api (a, b, c) ks = (Inr r, ks')"
  shows "r = first_min (sum3 a b (view_at c))"
proof -
  obtain f where f: "min3_argmin api = Some f" using required by auto
  then have "Record (f a b c) ks = (Inr r, ks')" using assms(2) by (simp add: Min3_def)
  from min3_law[OF f assms(1) record_success[OF this]] show ?thesis .
qed

lemma Min2Batch_correct:
  assumes "\<And>a b. (a, b) \<in> set jobs \<Longrightarrow> exact2 a b" and "Min2Batch api jobs ks = (Inr rs, ks')"
  shows "rs = map (\<lambda>(a, b). first_min (sum2 a b)) jobs"
proof (cases "min2_argmin_batch api")
  case None
  then have "each_job (Min2 api) jobs ks = (Inr rs, ks')" using assms(2) by (simp add: Min2Batch_def)
  then show ?thesis by (rule each_job_success) (use Min2_correct assms(1) in auto)
next
  case (Some g)
  then have "Record (g jobs) ks = (Inr rs, ks')" using assms(2) by (simp add: Min2Batch_def)
  from min2_batch_law[OF Some _ record_success[OF this]] show ?thesis using assms(1) by blast
qed

lemma Min3Batch_correct:
  assumes "\<And>a b c. (a, b, c) \<in> set jobs \<Longrightarrow> exact_min3 a b c" and "Min3Batch api jobs ks = (Inr rs, ks')"
  shows "rs = map (\<lambda>(a, b, c). first_min (sum3 a b (view_at c))) jobs"
proof (cases "min3_argmin_batch api")
  case None
  then have "each_job (Min3 api) jobs ks = (Inr rs, ks')" using assms(2) by (simp add: Min3Batch_def)
  then show ?thesis by (rule each_job_success) (use Min3_correct assms(1) in auto)
next
  case (Some g)
  then have "Record (g jobs) ks = (Inr rs, ks')" using assms(2) by (simp add: Min3Batch_def)
  from min3_batch_law[OF Some _ record_success[OF this]] show ?thesis using assms(1) by blast
qed

lemma Min2Value_correct:
  assumes "exact2 a b" and "Min2Value api (a, b) ks = (Inr v, ks')"
  shows "v = fst (first_min (sum2 a b))"
proof (cases "min2_value api")
  case None
  then obtain r where "Min2 api (a, b) ks = (Inr r, ks')" and "v = fst r"
    using assms(2) by (auto simp: Min2Value_def split: prod.splits sum.splits)
  then show ?thesis using Min2_correct[OF assms(1)] by simp
next
  case (Some f)
  then have "Record (f a b) ks = (Inr v, ks')" using assms(2) by (simp add: Min2Value_def)
  from min2_value_law[OF Some _ record_success[OF this]] show ?thesis using assms(1) by blast
qed

lemma Min2ValueBatch_correct:
  assumes "\<And>a b. (a, b) \<in> set jobs \<Longrightarrow> exact2 a b" and "Min2ValueBatch api jobs ks = (Inr vs, ks')"
  shows "vs = map (\<lambda>(a, b). fst (first_min (sum2 a b))) jobs"
proof (cases "min2_value_batch api")
  case None
  then have "each_job (Min2Value api) jobs ks = (Inr vs, ks')" using assms(2) by (simp add: Min2ValueBatch_def)
  then show ?thesis by (rule each_job_success) (use Min2Value_correct assms(1) in auto)
next
  case (Some g)
  then have "Record (g jobs) ks = (Inr vs, ks')" using assms(2) by (simp add: Min2ValueBatch_def)
  from min2_value_batch_law[OF Some _ record_success[OF this]] show ?thesis using assms(1) by blast
qed

lemma ProjectAddBatch_correct:
  assumes "exact_projects jobs scores" and "ProjectAddBatch api jobs scores ks = (Inr vs, ks')"
  shows "vs = fold project_add jobs scores"
proof (cases "project_add_batch api")
  case None
  then show ?thesis using assms(2) by (simp add: ProjectAddBatch_def Record_def)
next
  case (Some g)
  then have "Record (g jobs scores) ks = (Inr vs, ks')" using assms(2) by (simp add: ProjectAddBatch_def)
  from project_add_law[OF Some _ record_success[OF this]] show ?thesis using assms(1) by blast
qed

lemma Map3ProjectBatch_correct:
  assumes "\<And>job. job \<in> set jobs \<Longrightarrow> exact_map3 job" and "Map3ProjectBatch api jobs ks = (Inr rs, ks')"
  shows "rs = concat (map map3_rows jobs)"
proof (cases "map3_project_batch api")
  case None
  then show ?thesis using assms(2) by (simp add: Map3ProjectBatch_def Record_def)
next
  case (Some g)
  then have "Record (g jobs) ks = (Inr rs, ks')" using assms(2) by (simp add: Map3ProjectBatch_def)
  from map3_law[OF Some _ record_success[OF this]] show ?thesis using assms(1) by blast
qed

end

locale total_kernel = cost_kernel api for api :: "'k pbqp_cost_kernel" +
  assumes min2_total: "min2_argmin api = Some f2 \<Longrightarrow> exact2 a b \<Longrightarrow> isl (fst (f2 a b k s)) = False"
    and min3_total: "min3_argmin api = Some f3 \<Longrightarrow> exact_min3 a b c \<Longrightarrow> isl (fst (f3 a b c k s)) = False"
    and min2_batch_total: "min2_argmin_batch api = Some g2 \<Longrightarrow> (\<And>a b. (a, b) \<in> set jobs2 \<Longrightarrow> exact2 a b) \<Longrightarrow>
      isl (fst (g2 jobs2 k s)) = False"
    and min3_batch_total: "min3_argmin_batch api = Some g3 \<Longrightarrow>
      (\<And>a b c. (a, b, c) \<in> set jobs3 \<Longrightarrow> exact_min3 a b c) \<Longrightarrow> isl (fst (g3 jobs3 k s)) = False"
    and map3_total: "map3_project_batch api = Some gm \<Longrightarrow> (\<And>u f m. (u, f, m) \<in> set jobsm \<Longrightarrow> exact_map3 (u, f, m)) \<Longrightarrow>
      isl (fst (gm jobsm k s)) = False"
begin

lemma record_total:
  assumes "\<not> isl (fst (call (ks_context ks) (ks_statistics ks)))"
  shows "\<exists>r ks'. Record call ks = (Inr r, ks')"
  using assms by (cases "fst (call (ks_context ks) (ks_statistics ks))") (auto simp: Record_def split: prod.splits)

lemma Min2_total:
  assumes "exact2 a b"
  shows "\<exists>r ks'. Min2 api (a, b) ks = (Inr r, ks')"
proof -
  obtain f where f: "min2_argmin api = Some f" using required by auto
  then show ?thesis using record_total[of "f a b" ks] min2_total[OF f assms] by (simp add: Min2_def)
qed

lemma Min3_total:
  assumes "exact_min3 a b c"
  shows "\<exists>r ks'. Min3 api (a, b, c) ks = (Inr r, ks')"
proof -
  obtain f where f: "min3_argmin api = Some f" using required by auto
  then show ?thesis using record_total[of "f a b c" ks] min3_total[OF f assms] by (simp add: Min3_def)
qed

lemma Min2Batch_total:
  assumes "\<And>a b. (a, b) \<in> set jobs \<Longrightarrow> exact2 a b"
  shows "\<exists>rs ks'. Min2Batch api jobs ks = (Inr rs, ks')"
proof (cases "min2_argmin_batch api")
  case None
  then show ?thesis using each_job_total[of jobs "Min2 api" ks] Min2_total assms by (auto simp: Min2Batch_def)
next
  case (Some g)
  have "\<not> isl (fst (g jobs (ks_context ks) (ks_statistics ks)))"
    using min2_batch_total[OF Some] assms by simp
  with record_total[of "g jobs" ks] Some show ?thesis by (simp add: Min2Batch_def)
qed

lemma Min3Batch_total:
  assumes "\<And>a b c. (a, b, c) \<in> set jobs \<Longrightarrow> exact_min3 a b c"
  shows "\<exists>rs ks'. Min3Batch api jobs ks = (Inr rs, ks')"
proof (cases "min3_argmin_batch api")
  case None
  then show ?thesis using each_job_total[of jobs "Min3 api" ks] Min3_total assms by (auto simp: Min3Batch_def)
next
  case (Some g)
  have "\<not> isl (fst (g jobs (ks_context ks) (ks_statistics ks)))"
    using min3_batch_total[OF Some] assms by simp
  with record_total[of "g jobs" ks] Some show ?thesis by (simp add: Min3Batch_def)
qed

lemma Map3ProjectBatch_total:
  assumes "map3_project_batch api \<noteq> None" and "\<And>job. job \<in> set jobs \<Longrightarrow> exact_map3 job"
  shows "\<exists>rs ks'. Map3ProjectBatch api jobs ks = (Inr rs, ks')"
proof -
  obtain g where g: "map3_project_batch api = Some g" using assms(1) by auto
  have "\<not> isl (fst (g jobs (ks_context ks) (ks_statistics ks)))" using map3_total[OF g] assms(2) by simp
  with record_total[of "g jobs" ks] g show ?thesis by (simp add: Map3ProjectBatch_def)
qed

end

section \<open>The software kernel\<close>

lemma cost_add_defined: "cost_add a b \<noteq> None \<Longrightarrow> cost_add a b = Some (accel_cost_add a b)"
  by (auto simp: accel_cost_add_eq)

lemma software_min2: "exact2 a b \<Longrightarrow> SoftwareMin2 a b = Some (first_min (sum2 a b))"
  unfolding SoftwareMin2_def sum2_def by (rule min_loop_some) (auto simp: exact2_def cost_add_defined)

lemma software_min2_value: "exact2 a b \<Longrightarrow> SoftwareMin2Value a b = Some (fst (first_min (sum2 a b)))"
  using software_min2[of a b] by (simp add: SoftwareMin2Value_def SoftwareMin2_def)

lemma software_min3: "exact_min3 a b c \<Longrightarrow> SoftwareMin3 a b c = Some (first_min (sum3 a b (view_at c)))"
  unfolding SoftwareMin3_def sum3_def
  by (rule min_loop_some) (auto simp: exact_min3_def exact3_def cost_add_defined split: option.splits)

lemma software_map3: "exact_map3 (u, f, m) \<Longrightarrow> SoftwareMap3Project u f m = Some (map3_rows (u, f, m))"
  unfolding SoftwareMap3Project_def map3_rows_def exact_map3_def
  by (auto simp: sum3_def exact3_def cost_add_defined intro!: map_jobs_eq min_loop_some)

lemma view_at_row: "view_at (row_view m r) i = matrix_at m r i"
  by (simp add: view_at_def row_view_def matrix_at_def)

lemma software_project:
  assumes "exact_project (m, v) scores"
  shows "SoftwareMinplusProject m v = Some (map (project_row m v) [0..<length scores])"
proof (cases "length scores = 0")
  case False
  then have "km_columns m = kv_length v" using assms by (simp add: exact_project_def)
  moreover have "min_loop (\<lambda>i. cost_add (matrix_at m r i) (view_at v i)) (km_columns m) =
      Some (first_min (sum2 (row_view m r) v))" if "r < length scores" for r
    using software_min2[of "row_view m r" v] assms that
    by (simp add: exact_project_def SoftwareMin2_def view_at_row) (simp add: row_view_def)
  ultimately have "map_jobs (\<lambda>out. map_option fst (min_loop (\<lambda>inner. cost_add (matrix_at m out inner)
        (view_at v inner)) (km_columns m))) [0..<length scores] = Some (map (project_row m v) [0..<length scores])"
    by (intro map_jobs_eq) (simp add: project_row_def)
  moreover have "km_rows m = length scores" using assms by (simp add: exact_project_def)
  ultimately show ?thesis
    using \<open>km_columns m = kv_length v\<close> by (simp add: SoftwareMinplusProject_def)
next
  case True
  then show ?thesis using assms
    by (auto simp: SoftwareMinplusProject_def exact_project_def)
qed

lemma software_project_add:
  "exact_projects jobs scores \<Longrightarrow> SoftwareProjectAddBatch jobs scores = Some (fold project_add jobs scores)"
proof (induction jobs arbitrary: scores)
  case Nil
  then show ?case by (simp add: SoftwareProjectAddBatch_def)
next
  case (Cons job jobs)
  obtain m v where job: "job = (m, v)" by (cases job)
  have ex: "exact_project (m, v) scores" using Cons.prems job by simp
  have rows: "km_rows m = length scores" using ex by (simp add: exact_project_def)
  let ?tmp = "map (project_row m v) [0..<length scores]"
  have "map_jobs (\<lambda>i. cost_add (view_at (whole_view ?tmp (length scores)) i)
      (view_at (whole_view scores (length scores)) i)) [0..<length scores] =
      Some (map (\<lambda>i. accel_cost_add (project_row m v i) (scores ! i)) [0..<length scores])"
    using ex rows by (intro map_jobs_eq)
      (auto simp: view_at_def whole_view_def exact_project_def accel_cost_add_eq)
  then have "SoftwareCostAddVector (whole_view ?tmp (km_rows m)) (whole_view scores (km_rows m)) =
      Some (project_add job scores)"
    by (simp add: SoftwareCostAddVector_def project_add_def job rows) (simp add: whole_view_def)
  moreover have "copy_prefix (length scores) (project_add job scores) scores = project_add job scores"
    by (simp add: copy_prefix_def project_add_def split: prod.splits)
  ultimately show ?case
    using Cons.IH[of "project_add job scores"] Cons.prems software_project[OF ex]
    by (simp add: SoftwareProjectAddBatch_def job rows)
qed

lemma software_batches:
  "(\<And>a b. (a, b) \<in> set jobs \<Longrightarrow> exact2 a b) \<Longrightarrow>
     SoftwareMin2Batch jobs = Some (map (\<lambda>(a, b). first_min (sum2 a b)) jobs)"
  "(\<And>a b. (a, b) \<in> set jobs \<Longrightarrow> exact2 a b) \<Longrightarrow>
     SoftwareMin2ValueBatch jobs = Some (map (\<lambda>(a, b). fst (first_min (sum2 a b))) jobs)"
  "(\<And>a b c. (a, b, c) \<in> set jobs3 \<Longrightarrow> exact_min3 a b c) \<Longrightarrow>
     SoftwareMin3Batch jobs3 = Some (map (\<lambda>(a, b, c). first_min (sum3 a b (view_at c))) jobs3)"
  "(\<And>u f m. (u, f, m) \<in> set jobsm \<Longrightarrow> exact_map3 (u, f, m)) \<Longrightarrow>
     SoftwareMap3ProjectBatch jobsm = Some (concat (map map3_rows jobsm))"
  unfolding SoftwareMin2Batch_def SoftwareMin2ValueBatch_def SoftwareMin3Batch_def SoftwareMap3ProjectBatch_def
proof -
  assume "\<And>a b. (a, b) \<in> set jobs \<Longrightarrow> exact2 a b"
  then show "map_jobs (\<lambda>(a, b). SoftwareMin2 a b) jobs = Some (map (\<lambda>(a, b). first_min (sum2 a b)) jobs)"
    and "map_jobs (\<lambda>(a, b). SoftwareMin2Value a b) jobs = Some (map (\<lambda>(a, b). fst (first_min (sum2 a b))) jobs)"
    by (auto intro!: map_jobs_eq simp: software_min2 software_min2_value)
next
  assume "\<And>a b c. (a, b, c) \<in> set jobs3 \<Longrightarrow> exact_min3 a b c"
  then show "map_jobs (\<lambda>(a, b, c). SoftwareMin3 a b c) jobs3 =
      Some (map (\<lambda>(a, b, c). first_min (sum3 a b (view_at c))) jobs3)"
    by (auto intro!: map_jobs_eq simp: software_min3)
next
  assume "\<And>u f m. (u, f, m) \<in> set jobsm \<Longrightarrow> exact_map3 (u, f, m)"
  then have "map_jobs (\<lambda>(u, f, m). SoftwareMap3Project u f m) jobsm = Some (map map3_rows jobsm)"
    by (auto intro!: map_jobs_eq simp: software_map3)
  then show "map_option concat (map_jobs (\<lambda>(u, f, m). SoftwareMap3Project u f m) jobsm) =
      Some (concat (map map3_rows jobsm))" by simp
qed

lemmas software_success = software_min2 software_min2_value software_min3 software_project_add software_batches

lemma software_fields:
  "min2_argmin pbqp_make_software_kernel = Some (\<lambda>a b. software_call (SoftwareMin2 a b))"
  "min3_argmin pbqp_make_software_kernel = Some (\<lambda>a b c. software_call (SoftwareMin3 a b c))"
  "min2_argmin_batch pbqp_make_software_kernel = Some (\<lambda>jobs. software_call (SoftwareMin2Batch jobs))"
  "min3_argmin_batch pbqp_make_software_kernel = Some (\<lambda>jobs. software_call (SoftwareMin3Batch jobs))"
  "min2_value pbqp_make_software_kernel = Some (\<lambda>a b. software_call (SoftwareMin2Value a b))"
  "min2_value_batch pbqp_make_software_kernel = Some (\<lambda>jobs. software_call (SoftwareMin2ValueBatch jobs))"
  "project_add_batch pbqp_make_software_kernel = Some (\<lambda>jobs scores. software_call (SoftwareProjectAddBatch jobs scores))"
  "map3_project_batch pbqp_make_software_kernel = Some (\<lambda>jobs. software_call (SoftwareMap3ProjectBatch jobs))"
  by (simp_all add: pbqp_make_software_kernel_def)

interpretation sw: total_kernel "pbqp_make_software_kernel :: 'k pbqp_cost_kernel"
  by unfold_locales (auto simp: software_fields software_call_def software_success)

end
