(* ===== verification/Pbqp_Elimination.thy ===== *)
theory Pbqp_Elimination
  imports Pbqp_Cost Pbqp_Kernel_Correct
begin

text \<open>
  How a step of the solver changes the cost of assignments. \<open>exact_step n p p'\<close> says that the
  elimination of node \<open>n\<close> keeps the invariants, never raises the cost of an assignment, and that the
  reconstruction of \<open>n\<close> recovers the cost; \<open>attained_step\<close> keeps the last half only, which is what
  committing a node to one value gives. \<open>reduces\<close> and \<open>attains\<close> compose such steps from the graph the
  caller passed, through \<open>ReconstructSolution\<close>.
\<close>

named_theorems graph_simps \<open>selectors of an updated graph\<close>

section \<open>Steps and their composition\<close>

definition elim_frame :: "nat \<Rightarrow> pbqp_problem \<Rightarrow> pbqp_problem \<Rightarrow> bool" where
  "elim_frame n p p' \<longleftrightarrow>
     pb_node_capacity p' = pb_node_capacity p \<and> pb_edge_capacity p' = pb_edge_capacity p \<and>
     pb_domain_capacity p' = pb_domain_capacity p \<and> pb_node_count p' = pb_node_count p \<and>
     pb_allocator p' = pb_allocator p \<and> pb_storage p' = pb_storage p \<and>
     (\<forall>k < pb_node_count p. nd_domain (node_at p' k) = nd_domain (node_at p k)) \<and>
     (\<forall>k < pb_node_count p. k \<noteq> n \<longrightarrow> nd_active (node_at p' k) = nd_active (node_at p k) \<and>
        nd_reduction_kind (node_at p' k) = nd_reduction_kind (node_at p k) \<and>
        nd_first_neighbor (node_at p' k) = nd_first_neighbor (node_at p k) \<and>
        nd_second_neighbor (node_at p' k) = nd_second_neighbor (node_at p k) \<and>
        pb_reconstruction p' ! k = pb_reconstruction p ! k) \<and>
     n < pb_node_count p \<and> nd_active (node_at p n) \<and> \<not> nd_active (node_at p' n) \<and>
     eliminated p' = eliminated p @ [n]"

definition attained_step :: "nat \<Rightarrow> pbqp_problem \<Rightarrow> pbqp_problem \<Rightarrow> bool" where
  "attained_step n p p' \<longleftrightarrow> pbqp_wf p' \<and> costs_bounded p' \<and> elim_frame n p p' \<and>
     (\<forall>x. valid_assignment p' x \<longrightarrow> valid_assignment p (reconstruct_node p' n x) \<and>
        total_cost p (reconstruct_node p' n x) = total_cost p' x)"

definition exact_step :: "nat \<Rightarrow> pbqp_problem \<Rightarrow> pbqp_problem \<Rightarrow> bool" where
  "exact_step n p p' \<longleftrightarrow> attained_step n p p' \<and>
     (\<forall>x. valid_assignment p x \<longrightarrow> total_cost p' x \<le> total_cost p x)"

definition attains :: "pbqp_problem \<Rightarrow> pbqp_problem \<Rightarrow> bool" where
  "attains p0 p \<longleftrightarrow> pbqp_wf p \<and> costs_bounded p \<and>
     pb_node_capacity p = pb_node_capacity p0 \<and> pb_edge_capacity p = pb_edge_capacity p0 \<and>
     pb_domain_capacity p = pb_domain_capacity p0 \<and> pb_node_count p = pb_node_count p0 \<and>
     pb_allocator p = pb_allocator p0 \<and> pb_storage p = pb_storage p0 \<and>
     (\<forall>x. valid_assignment p0 x \<longrightarrow> valid_assignment p x) \<and>
     (\<forall>x. valid_assignment p x \<longrightarrow> valid_assignment p0 (ReconstructSolution p x) \<and>
        total_cost p0 (ReconstructSolution p x) = total_cost p x)"

definition reduces :: "pbqp_problem \<Rightarrow> pbqp_problem \<Rightarrow> bool" where
  "reduces p0 p \<longleftrightarrow> attains p0 p \<and> (\<forall>x. valid_assignment p0 x \<longrightarrow> total_cost p x \<le> total_cost p0 x)"

lemma length_reconstruct_node [simp]: "length (reconstruct_node p n x) = length x"
  by (simp add: reconstruct_node_def Let_def)

lemma elim_frame_valid: "elim_frame n p p' \<Longrightarrow> valid_assignment p x \<Longrightarrow> valid_assignment p' x"
  unfolding elim_frame_def valid_assignment_def by metis

lemma reconstruct_frame:
  assumes wf: "pbqp_wf p" "pbqp_wf p'" and fr: "elim_frame n p p'"
  shows "ReconstructSolution p' x = ReconstructSolution p (reconstruct_node p' n x)"
proof -
  have same: "reconstruct_node p' k y = reconstruct_node p k y" if "k \<in> set (eliminated p)" for k y
  proof -
    have k: "k < pb_node_count p" "\<not> nd_active (node_at p k)"
      using that wf(1) by (auto simp: pbqp_wf_def order_ok_def)
    then have "k \<noteq> n" using fr by (auto simp: elim_frame_def)
    then show ?thesis
      using fr k wf(1)
      by (simp add: elim_frame_def reconstruct_node_def Let_def pbqp_wf_def graph_ok_def split: reduction_kind.split)
  qed
  have "ReconstructSolution p' x = fold (reconstruct_node p') (rev (eliminated p)) (reconstruct_node p' n x)"
    using fr by (simp add: ReconstructSolution_def eliminated_def[symmetric] elim_frame_def)
  also have "\<dots> = fold (reconstruct_node p) (rev (eliminated p)) (reconstruct_node p' n x)"
    using same by (intro fold_cong) auto
  finally show ?thesis by (simp add: ReconstructSolution_def eliminated_def)
qed


lemma attains_step:
  assumes "attains p0 p" and "attained_step n p p'"
  shows "attains p0 p'"
proof -
  have wf: "pbqp_wf p" "pbqp_wf p'" and fr: "elim_frame n p p'"
    using assms by (auto simp: attains_def attained_step_def)
  have rec: "ReconstructSolution p' x = ReconstructSolution p (reconstruct_node p' n x)" for x
    by (rule reconstruct_frame[OF wf fr])
  have "valid_assignment p0 (ReconstructSolution p' x) \<and> total_cost p0 (ReconstructSolution p' x) = total_cost p' x"
    if "valid_assignment p' x" for x
    using that assms by (simp add: rec attains_def attained_step_def)
  then show ?thesis
    using assms elim_frame_valid[OF fr] by (simp add: attains_def attained_step_def elim_frame_def)
qed

lemma reduces_step:
  assumes "reduces p0 p" and "exact_step n p p'"
  shows "reduces p0 p'"
proof -
  have "attains p0 p'" using assms attains_step by (auto simp: reduces_def exact_step_def)
  moreover have "total_cost p' x \<le> total_cost p0 x" if "valid_assignment p0 x" for x
  proof -
    have "valid_assignment p x" using assms(1) that by (simp add: reduces_def attains_def)
    then have "total_cost p' x \<le> total_cost p x" using assms(2) by (simp add: exact_step_def)
    also have "\<dots> \<le> total_cost p0 x" using assms(1) that by (simp add: reduces_def)
    finally show ?thesis .
  qed
  ultimately show ?thesis by (simp add: reduces_def)
qed

lemma reduces_refl:
  assumes "pbqp_wf p" and "costs_bounded p" and "pb_elimination_count p = 0"
  shows "reduces p p"
  using assms by (simp add: reduces_def attains_def ReconstructSolution_def)

lemma frame_active_count:
  assumes "elim_frame n p p'"
  shows "Suc (card {k. k < pb_node_count p' \<and> nd_active (node_at p' k)}) =
    card {k. k < pb_node_count p \<and> nd_active (node_at p k)}"
proof -
  let ?A = "{k. k < pb_node_count p \<and> nd_active (node_at p k)}"
  have "{k. k < pb_node_count p' \<and> nd_active (node_at p' k)} = ?A - {n}" and "n \<in> ?A"
    using assms by (auto simp: elim_frame_def)
  then show ?thesis using card_Suc_Diff1[of ?A n] by simp
qed

section \<open>The invariant after an elimination\<close>

definition elim_update :: "nat \<Rightarrow> pbqp_problem \<Rightarrow> pbqp_problem \<Rightarrow> bool" where
  "elim_update n p p' \<longleftrightarrow> shape_ok p' \<and>
     pb_node_capacity p' = pb_node_capacity p \<and> pb_edge_capacity p' = pb_edge_capacity p \<and>
     pb_domain_capacity p' = pb_domain_capacity p \<and> pb_node_count p' = pb_node_count p \<and>
     (\<forall>k < pb_node_capacity p. nd_domain (node_at p' k) = nd_domain (node_at p k) \<and>
        nd_active (node_at p' k) = (nd_active (node_at p k) \<and> k \<noteq> n)) \<and>
     (\<forall>k < pb_node_count p. nd_second_neighbor (node_at p' k) < pb_node_count p) \<and>
     (\<forall>e < pb_edge_capacity p. eg_active (edge_at p' e) \<longrightarrow> eg_active (edge_at p e) \<and>
        eg_first (edge_at p' e) = eg_first (edge_at p e) \<and> eg_second (edge_at p' e) = eg_second (edge_at p e) \<and>
        eg_first (edge_at p e) \<noteq> n \<and> eg_second (edge_at p e) \<noteq> n) \<and>
     pb_elimination_order p' = (pb_elimination_order p)[pb_elimination_count p := n] \<and>
     pb_elimination_count p' = pb_elimination_count p + 1"

lemma eliminated_snoc:
  assumes wf: "pbqp_wf p" and n: "n < pb_node_count p" "nd_active (node_at p n)" and up: "elim_update n p p'"
  shows "eliminated p' = eliminated p @ [n]" and "pb_elimination_count p < pb_node_count p"
proof -
  let ?c = "pb_elimination_count p"
  have len: "?c \<le> pb_node_count p" "pb_node_count p \<le> length (pb_elimination_order p)"
    using wf by (auto simp: pbqp_wf_def order_ok_def shape_ok_def)
  have sub: "set (eliminated p) \<subseteq> {..<pb_node_count p} - {n}" and dist: "distinct (eliminated p)"
    using wf n by (auto simp: pbqp_wf_def order_ok_def)
  have "card (set (eliminated p)) \<le> pb_node_count p - 1"
    using card_mono[OF _ sub] n(1) by simp
  moreover have "card (set (eliminated p)) = ?c"
    using dist len by (simp add: distinct_card) (simp add: eliminated_def)
  ultimately show lt: "?c < pb_node_count p" using n(1) by linarith
  then show "eliminated p' = eliminated p @ [n]"
    using up len by (simp add: elim_update_def eliminated_def take_Suc_conv_app_nth take_update_cancel)
qed

lemma elim_wf:
  assumes wf: "pbqp_wf p" and n: "n < pb_node_count p" "nd_active (node_at p n)" and up: "elim_update n p p'"
  shows "pbqp_wf p'"
proof -
  have g: "graph_ok p" and cap: "pb_node_count p \<le> pb_node_capacity p"
    using wf by (auto simp: pbqp_wf_def shape_ok_def)
  have nodes_in: "eg_first (edge_at p e) < pb_node_capacity p" "eg_second (edge_at p e) < pb_node_capacity p"
    if "e < pb_edge_capacity p" "eg_active (edge_at p e)" for e
    using g that cap by (auto simp: graph_ok_def intro: less_le_trans)
  have "graph_ok p'"
    unfolding graph_ok_def
  proof (intro conjI allI impI)
    fix k assume "k < pb_node_count p'"
    then have "k < pb_node_count p" "k < pb_node_capacity p" using up cap by (auto simp: elim_update_def)
    then show "0 < nd_domain (node_at p' k)" "nd_domain (node_at p' k) \<le> pb_domain_capacity p'"
      "nd_second_neighbor (node_at p' k) < pb_node_count p'"
      using up g by (auto simp: elim_update_def graph_ok_def)
  next
    fix k assume "k < pb_node_capacity p'" "nd_active (node_at p' k)"
    then show "k < pb_node_count p'" using up g by (auto simp: elim_update_def graph_ok_def)
  next
    fix e assume e: "e < pb_edge_capacity p'" "eg_active (edge_at p' e)"
    then have e': "e < pb_edge_capacity p" "eg_active (edge_at p e)" using up by (auto simp: elim_update_def)
    show "eg_first (edge_at p' e) < pb_node_count p'" "eg_second (edge_at p' e) < pb_node_count p'"
      "eg_first (edge_at p' e) \<noteq> eg_second (edge_at p' e)"
      using up g e e' by (auto simp: elim_update_def graph_ok_def)
    show "nd_active (node_at p' (eg_first (edge_at p' e)))" "nd_active (node_at p' (eg_second (edge_at p' e)))"
      using up g e e' nodes_in[OF e'] by (auto simp: elim_update_def graph_ok_def)
  next
    fix e f
    assume e: "e < pb_edge_capacity p'" "f < pb_edge_capacity p'" "eg_active (edge_at p' e)"
      "edge_joins (edge_at p' f) (eg_first (edge_at p' e)) (eg_second (edge_at p' e))"
    then have "eg_active (edge_at p e)" "edge_joins (edge_at p f) (eg_first (edge_at p e)) (eg_second (edge_at p e))"
      using up by (auto simp: elim_update_def edge_joins_def)
    then show "e = f" using g e up by (auto simp: elim_update_def graph_ok_def)
  qed
  moreover have "order_ok p'"
  proof -
    have el: "eliminated p' = eliminated p @ [n]" "pb_elimination_count p < pb_node_count p"
      by (rule eliminated_snoc[OF wf n up])+
    moreover have "{k. k < pb_node_count p' \<and> \<not> nd_active (node_at p' k)} =
        insert n {k. k < pb_node_count p \<and> \<not> nd_active (node_at p k)}"
      using up cap n by (auto simp: elim_update_def)
    ultimately show ?thesis using wf n up by (auto simp: order_ok_def pbqp_wf_def elim_update_def)
  qed
  ultimately show ?thesis using up by (simp add: pbqp_wf_def elim_update_def)
qed

section \<open>Eliminating one variable exactly\<close>

text \<open>
  \<open>loc i x\<close> is the cost of the tables around \<open>n\<close> when \<open>n\<close> takes value \<open>i\<close> and its neighbours take
  their values in \<open>x\<close>; the step replaces them by their minimum over \<open>i\<close>, attained at \<open>ch x\<close>.
\<close>

lemma exact_stepI:
  assumes wf': "pbqp_wf p'" and cb': "costs_bounded p'" and fr: "elim_frame n p p'"
    and split: "\<And>x y. (\<And>k. k \<noteq> n \<Longrightarrow> y ! k = x ! k) \<Longrightarrow> valid_assignment p' x \<Longrightarrow>
      \<exists>r. total_cost p y = loc (y ! n) x + r \<and> total_cost p' x = best x + r"
    and least: "\<And>x i. valid_assignment p' x \<Longrightarrow> i < nd_domain (node_at p n) \<Longrightarrow> best x \<le> loc i x"
    and attained: "\<And>x. valid_assignment p' x \<Longrightarrow> ch x < nd_domain (node_at p n) \<and> best x = loc (ch x) x"
    and rec: "\<And>x. valid_assignment p' x \<Longrightarrow> reconstruct_node p' n x = x[n := ch x]"
  shows "exact_step n p p'"
proof -
  have n: "n < pb_node_count p" "nd_active (node_at p n)" using fr by (auto simp: elim_frame_def)
  have "valid_assignment p (x[n := ch x]) \<and> total_cost p (x[n := ch x]) = total_cost p' x"
    if x: "valid_assignment p' x" for x
  proof
    have len: "n < length x" using x n fr by (simp add: valid_assignment_def elim_frame_def)
    show "valid_assignment p (x[n := ch x])"
      using x fr attained[OF x] len by (auto simp: valid_assignment_def elim_frame_def nth_list_update)
    obtain r where "total_cost p (x[n := ch x]) = loc (x[n := ch x] ! n) x + r" "total_cost p' x = best x + r"
      using split[of "x[n := ch x]" x] x by auto
    then show "total_cost p (x[n := ch x]) = total_cost p' x" using attained[OF x] len by simp
  qed
  moreover have "total_cost p' x \<le> total_cost p x" if x: "valid_assignment p x" for x
  proof -
    have x': "valid_assignment p' x" by (rule elim_frame_valid[OF fr x])
    obtain r where r: "total_cost p x = loc (x ! n) x + r" "total_cost p' x = best x + r"
      using split[of x x] x' by auto
    have "x ! n < nd_domain (node_at p n)" using x n by (auto simp: valid_assignment_def)
    from least[OF x' this] show ?thesis unfolding r by (intro add_mono) auto
  qed
  ultimately show ?thesis using wf' cb' fr rec by (simp add: exact_step_def attained_step_def)
qed

section \<open>Edges seen from a node\<close>

definition edge_between :: "pbqp_edge \<Rightarrow> nat \<Rightarrow> nat \<Rightarrow> nat \<Rightarrow> int" where
  "edge_between edge n i v = (if n = eg_first edge then edge_cost edge i v else edge_cost edge v i)"

lemma edge_views:
  "view_at (EdgeView edge n v d) i = edge_between edge n i v"
  "view_at (ConditionedEdgeView edge n c d) v = edge_between edge n c v"
  "matrix_at (EdgeMatrix edge n rows cols) v i = edge_between edge n i v"
  "matrix_at (ConditionedEdgeMatrix edge n rows cols) i v = edge_between edge n i v"
  by (simp_all add: view_at_def matrix_at_def EdgeView_def ConditionedEdgeView_def EdgeMatrix_def
      ConditionedEdgeMatrix_def edge_between_def edge_cost_def add.commute)

lemma edge_term_between:
  "incident (edge_at p e) n \<Longrightarrow>
   edge_term p x e = cost_abs (edge_between (edge_at p e) n (x ! n) (x ! OtherNode (edge_at p e) n))"
  by (auto simp: edge_term_def incident_def edge_between_def OtherNode_def)

lemma other_node:
  assumes "pbqp_wf p" and "e < pb_edge_capacity p" and "incident (edge_at p e) n"
  shows "OtherNode (edge_at p e) n < pb_node_count p" and "nd_active (node_at p (OtherNode (edge_at p e) n))"
    and "OtherNode (edge_at p e) n \<noteq> n"
  using assms wf_edge[OF assms(1,2)] by (auto simp: incident_def OtherNode_def)

lemma edge_between_within:
  assumes "tables_within p wo wn we" and "e < pb_edge_capacity p" and "incident (edge_at p e) n"
    and "i < nd_domain (node_at p n)" and "v < nd_domain (node_at p (OtherNode (edge_at p e) n))"
  shows "within p (we e) (edge_between (edge_at p e) n i v)"
  using assms tables_withinD(3)[OF assms(1,2)]
  by (auto simp: incident_def edge_between_def OtherNode_def split: if_splits)

end
