(* ===== verification/Pbqp_Reductions.thy ===== *)
theory Pbqp_Reductions
  imports Pbqp_Elimination
begin

text \<open>
  The three exact reductions as updates of the graph: R0 folds a node without neighbours into the
  offset, R1 folds a node and its only edge into the neighbour's table, R2 folds a node and its two
  edges into the edge between its neighbours. Each is an \<open>exact_step\<close>; the weights of the merged
  tables add up, so the additions stay exact.
\<close>

section \<open>R0\<close>

text \<open>An isolated node is given the value \<open>c\<close>: its cost moves to the offset.\<close>

definition fix_problem :: "reduction_kind \<Rightarrow> nat \<Rightarrow> nat \<Rightarrow> pbqp_problem \<Rightarrow> pbqp_problem" where
  "fix_problem kind n c p =
     eliminate kind n (set_reconstruction n 0 c (add_offset (nd_unary (node_at p n) ! c) p))"

definition isolated :: "pbqp_problem \<Rightarrow> nat \<Rightarrow> bool" where
  "isolated p n \<longleftrightarrow> (\<forall>e < pb_edge_capacity p. \<not> incident (edge_at p e) n)"

lemma fix_frame:
  assumes wf: "pbqp_wf p" and n: "n < pb_node_count p" "nd_active (node_at p n)" and iso: "isolated p n"
    and p': "p' = fix_problem kind n c p"
  shows "pbqp_wf p'" and "elim_frame n p p'" and "pb_edges p' = pb_edges p"
    and "pb_objective_offset p' = accel_cost_add (pb_objective_offset p) (nd_unary (node_at p n) ! c)"
    and "\<And>k. k \<noteq> n \<Longrightarrow> node_at p' k = node_at p k"
    and "kind \<noteq> kReductionR1 \<Longrightarrow> kind \<noteq> kReductionR2 \<Longrightarrow> reconstruct_node p' n x = x[n := c]"
proof -
  note p'' = p'[unfolded fix_problem_def]
  have cap: "n < pb_node_capacity p" and dc: "0 < pb_domain_capacity p * pb_domain_capacity p"
    using wf n by (auto simp: pbqp_wf_def graph_ok_def shape_ok_def)
  show "pb_edges p' = pb_edges p" and "\<And>k. k \<noteq> n \<Longrightarrow> node_at p' k = node_at p k"
    and "pb_objective_offset p' = accel_cost_add (pb_objective_offset p) (nd_unary (node_at p n) ! c)"
    by (auto simp: p'' eliminate_def set_reconstruction_def add_offset_def set_node_def)
  have up: "elim_update n p p'"
    using wf n iso by (auto simp: p'' elim_update_def eliminate_def set_reconstruction_def add_offset_def set_node_def
        pbqp_wf_def shape_ok_def graph_ok_def nth_list_update incident_def isolated_def)
  show "pbqp_wf p'" by (rule elim_wf[OF wf n up])
  show "elim_frame n p p'"
    using eliminated_snoc(1)[OF wf n up] up n wf
    by (auto simp: elim_frame_def p'' eliminate_def set_reconstruction_def add_offset_def set_node_def nth_list_update
        pbqp_wf_def shape_ok_def)
  show "reconstruct_node p' n x = x[n := c]" if "kind \<noteq> kReductionR1" "kind \<noteq> kReductionR2"
    using cap wf dc that by (cases kind) (simp_all add: reconstruct_node_def p'' eliminate_def set_reconstruction_def
        add_offset_def set_node_def pbqp_wf_def shape_ok_def)
qed

lemma frame_same:
  assumes "elim_frame n p p'"
  shows "pb_node_count p' = pb_node_count p" "pb_edge_capacity p' = pb_edge_capacity p"
    "pb_node_capacity p' = pb_node_capacity p"
    "\<And>k. k < pb_node_count p \<Longrightarrow> nd_domain (node_at p' k) = nd_domain (node_at p k)"
    "\<And>k. k < pb_node_count p \<Longrightarrow> nd_active (node_at p' k) \<longleftrightarrow> nd_active (node_at p k) \<and> k \<noteq> n"
    "n < pb_node_count p" "nd_active (node_at p n)" "within p' = within p"
  using assms within_cong[of p' p] by (auto simp: elim_frame_def)

lemma fix_bounded:
  assumes wf: "pbqp_wf p" and cb: "costs_bounded p" and n: "n < pb_node_count p" "nd_active (node_at p n)"
    and iso: "isolated p n" and p': "p' = fix_problem kind n c p" and c: "c < nd_domain (node_at p n)"
  shows "costs_bounded p'"
    and "cost_abs (pb_objective_offset p') = cost_abs (pb_objective_offset p) + cost_abs (nd_unary (node_at p n) ! c)"
proof -
  note sel = fix_frame(2-5)[OF wf n iso p']
  note same = frame_same[OF sel(1)]
  obtain wo wn we where w: "weighted p wo wn we" using cb by (auto simp: costs_bounded_def)
  then have t: "tables_within p wo wn we" by (simp add: weighted_def)
  have sum_n: "sum (wn(n := 0)) {..<pb_node_count p} + wn n = sum wn {..<pb_node_count p}"
    using sum_fun_upd[OF n(1), of wn 0] by simp
  then have fit: "wo + wn n \<le> pb_node_capacity p + pb_edge_capacity p" using w by (simp add: weighted_def)
  note add = add_exact[OF tables_withinD(1)[OF t] tables_withinD(2)[OF t n c] fit]
  then show "cost_abs (pb_objective_offset p') = cost_abs (pb_objective_offset p) + cost_abs (nd_unary (node_at p n) ! c)"
    by (simp add: sel(3))
  have "tables_within p' (wo + wn n) (wn(n := 0)) we"
  proof (rule tables_withinI)
    fix k v assume "k < pb_node_count p'" "nd_active (node_at p' k)" "v < nd_domain (node_at p' k)"
    then show "within p' ((wn(n := 0)) k) (nd_unary (node_at p' k) ! v)"
      using tables_withinD(2)[OF t, of k v] sel(4)[of k] by (auto simp: same)
  next
    fix e a b assume e: "e < pb_edge_capacity p'" "eg_active (edge_at p' e)"
      "a < nd_domain (node_at p' (eg_first (edge_at p' e)))" "b < nd_domain (node_at p' (eg_second (edge_at p' e)))"
    then show "within p' (we e) (edge_cost (edge_at p' e) a b)"
      using tables_withinD(3)[OF t, of e a b] wf_edge[OF wf, of e] by (simp add: same sel(2))
  qed (use add(3) in \<open>simp add: same sel(3)\<close>)
  then have "weighted p' (wo + wn n) (wn(n := 0)) we"
    using w sum_n unfolding weighted_def same by linarith
  then show "costs_bounded p'" by (auto simp: costs_bounded_def)
qed

lemma fix_cost:
  assumes wf: "pbqp_wf p" and cb: "costs_bounded p" and n: "n < pb_node_count p" "nd_active (node_at p n)"
    and iso: "isolated p n" and p': "p' = fix_problem kind n c p" and c: "c < nd_domain (node_at p n)"
    and y: "\<And>k. k \<noteq> n \<Longrightarrow> y ! k = x ! k"
  shows "\<exists>r. total_cost p y = cost_abs (nd_unary (node_at p n) ! (y ! n)) + r \<and>
    total_cost p' x = cost_abs (nd_unary (node_at p n) ! c) + r"
proof -
  note sel = fix_frame(2-5)[OF wf n iso p']
  note same = frame_same[OF sel(1)]
  have nt: "node_term p' x k = node_term p y k" if "k \<noteq> n" for k
    using that y by (simp add: node_term_def sel(4))
  have et: "edge_term p' x e = edge_term p y e" if "e < pb_edge_capacity p" for e
    using that y iso by (auto simp: edge_term_def sel(2) incident_def isolated_def)
  obtain r where r: "sum (node_term p y) {..<pb_node_count p} = node_term p y n + r"
    "sum (node_term p' x) {..<pb_node_count p} = node_term p' x n + r"
    using sum_change_one[OF n(1), of "node_term p' x" "node_term p y"] nt by metis
  have "node_term p' x n = 0" "node_term p y n = cost_abs (nd_unary (node_at p n) ! (y ! n))"
    using n same(5)[OF n(1)] by (simp_all add: node_term_def)
  moreover have "sum (edge_term p' x) {..<pb_edge_capacity p'} = sum (edge_term p y) {..<pb_edge_capacity p}"
    using et by (intro sum.cong) (auto simp: same)
  ultimately show ?thesis
    using r fix_bounded(2)[OF wf cb n iso p' c]
    by (intro exI[of _ "cost_abs (pb_objective_offset p) + r + sum (edge_term p y) {..<pb_edge_capacity p}"])
      (simp add: total_cost_def core_cost_def same ac_simps)
qed

definition r0_choice :: "nat \<Rightarrow> pbqp_problem \<Rightarrow> nat" where
  "r0_choice n p = snd (first_min (map (\<lambda>v. nd_unary (node_at p n) ! v) [0..<nd_domain (node_at p n)]))"

lemma r0_exact:
  assumes wf: "pbqp_wf p" and cb: "costs_bounded p" and n: "n < pb_node_count p" "nd_active (node_at p n)"
    and iso: "isolated p n"
  shows "exact_step n p (fix_problem kReductionR0 n (r0_choice n p) p)"
proof -
  let ?u = "\<lambda>v. nd_unary (node_at p n) ! v" and ?c = "r0_choice n p"
  have d: "0 < nd_domain (node_at p n)" using wf n by (auto simp: pbqp_wf_def graph_ok_def)
  note fm = first_min_upt[OF d, where f = ?u, folded r0_choice_def]
  obtain wo wn we where w: "weighted p wo wn we" using cb by (auto simp: costs_bounded_def)
  then have t: "tables_within p wo wn we" by (simp add: weighted_def)
  have "wn n \<le> sum wn {..<pb_node_count p}" using n by (auto intro: member_le_sum)
  then have fit: "wn n \<le> pb_node_capacity p + pb_edge_capacity p" using w by (simp add: weighted_def)
  have least: "cost_abs (?u ?c) \<le> cost_abs (?u i)" if "i < nd_domain (node_at p n)" for i
    using fm(3)[OF that] fm(2) within_valid[OF tables_withinD(2)[OF t n that] fit]
      within_valid[OF tables_withinD(2)[OF t n fm(1)] fit] by (intro cost_abs_mono) auto
  show ?thesis
    by (rule exact_stepI[where loc = "\<lambda>i _. cost_abs (?u i)" and best = "\<lambda>_. cost_abs (?u ?c)" and ch = "\<lambda>_. ?c"])
      (use fix_frame(1,2,6)[OF wf n iso refl] fix_bounded(1)[OF wf cb n iso refl fm(1)]
        fix_cost[OF wf cb n iso refl fm(1)] least fm(1) in auto)
qed

section \<open>R1\<close>

text \<open>The best value of node \<open>n\<close> against each value of its neighbour.\<close>

definition r1_best :: "pbqp_problem \<Rightarrow> nat \<Rightarrow> nat \<Rightarrow> nat \<Rightarrow> int \<times> nat" where
  "r1_best p n e v = first_min (map (\<lambda>i. accel_cost_add (nd_unary (node_at p n) ! i)
     (edge_between (edge_at p e) n i v)) [0..<nd_domain (node_at p n)])"

definition r1_update :: "nat \<Rightarrow> nat \<Rightarrow> pbqp_problem \<Rightarrow> pbqp_problem \<Rightarrow> bool" where
  "r1_update n e p p' \<longleftrightarrow> (let m = OtherNode (edge_at p e) n in
     elim_update n p p' \<and> elim_frame n p p' \<and> pb_objective_offset p' = pb_objective_offset p \<and>
     \<not> eg_active (edge_at p' e) \<and> (\<forall>f. f \<noteq> e \<longrightarrow> edge_at p' f = edge_at p f) \<and>
     (\<forall>k. k \<noteq> n \<longrightarrow> k \<noteq> m \<longrightarrow> nd_unary (node_at p' k) = nd_unary (node_at p k)) \<and>
     (\<forall>v < nd_domain (node_at p m).
        nd_unary (node_at p' m) ! v = accel_cost_add (nd_unary (node_at p m) ! v) (fst (r1_best p n e v))) \<and>
     (\<forall>x. x ! m < nd_domain (node_at p m) \<longrightarrow> reconstruct_node p' n x = x[n := snd (r1_best p n e (x ! m))]))"

lemma r1_best_props:
  assumes wf: "pbqp_wf p" and w: "weighted p wo wn we" and n: "n < pb_node_count p" "nd_active (node_at p n)"
    and e: "e < pb_edge_capacity p" "incident (edge_at p e) n"
    and v: "v < nd_domain (node_at p (OtherNode (edge_at p e) n))"
  shows "snd (r1_best p n e v) < nd_domain (node_at p n)"
    and "cost_abs (fst (r1_best p n e v)) = cost_abs (nd_unary (node_at p n) ! snd (r1_best p n e v)) +
      cost_abs (edge_between (edge_at p e) n (snd (r1_best p n e v)) v)"
    and "i < nd_domain (node_at p n) \<Longrightarrow> cost_abs (fst (r1_best p n e v)) \<le>
      cost_abs (nd_unary (node_at p n) ! i) + cost_abs (edge_between (edge_at p e) n i v)"
    and "within p (wn n + we e) (fst (r1_best p n e v))"
proof -
  let ?f = "\<lambda>i. accel_cost_add (nd_unary (node_at p n) ! i) (edge_between (edge_at p e) n i v)"
  have d: "0 < nd_domain (node_at p n)" using wf n by (simp add: pbqp_wf_def graph_ok_def)
  note fm = first_min_upt[OF d, where f = ?f, folded r1_best_def]
  have t: "tables_within p wo wn we" using w by (simp add: weighted_def)
  have "wn n \<le> sum wn {..<pb_node_count p}" "we e \<le> sum we {..<pb_edge_capacity p}"
    using n e by (auto intro: member_le_sum)
  then have fit: "wn n + we e \<le> pb_node_capacity p + pb_edge_capacity p" using w by (simp add: weighted_def)
  have add: "cost_abs (?f i) = cost_abs (nd_unary (node_at p n) ! i) + cost_abs (edge_between (edge_at p e) n i v)"
    "within p (wn n + we e) (?f i)" if "i < nd_domain (node_at p n)" for i
    using add_exact[OF tables_withinD(2)[OF t n that] edge_between_within[OF t e that v] fit] by auto
  show lt: "snd (r1_best p n e v) < nd_domain (node_at p n)" by (rule fm)
  show "cost_abs (fst (r1_best p n e v)) = cost_abs (nd_unary (node_at p n) ! snd (r1_best p n e v)) +
      cost_abs (edge_between (edge_at p e) n (snd (r1_best p n e v)) v)"
    using fm(2) add(1)[OF lt] by simp
  show bw: "within p (wn n + we e) (fst (r1_best p n e v))" using fm(2) add(2)[OF lt] by simp
  assume i: "i < nd_domain (node_at p n)"
  have "cost_abs (fst (r1_best p n e v)) \<le> cost_abs (?f i)"
    using fm(3)[OF i] within_valid[OF bw fit] within_valid[OF add(2)[OF i] fit] by (intro cost_abs_mono) auto
  then show "cost_abs (fst (r1_best p n e v)) \<le>
      cost_abs (nd_unary (node_at p n) ! i) + cost_abs (edge_between (edge_at p e) n i v)"
    using add(1)[OF i] by simp
qed

lemma r1_bounded:
  assumes wf: "pbqp_wf p" and w: "weighted p wo wn we" and e: "e < pb_edge_capacity p" "incident (edge_at p e) n"
    and up: "r1_update n e p p'" and m: "m = OtherNode (edge_at p e) n"
  shows "costs_bounded p'" and "\<And>v. v < nd_domain (node_at p m) \<Longrightarrow>
    cost_abs (nd_unary (node_at p' m) ! v) = cost_abs (nd_unary (node_at p m) ! v) + cost_abs (fst (r1_best p n e v))"
proof -
  have fr: "elim_frame n p p'" and off: "pb_objective_offset p' = pb_objective_offset p"
    and ee: "\<not> eg_active (edge_at p' e)" and eo: "\<And>f. f \<noteq> e \<Longrightarrow> edge_at p' f = edge_at p f"
    and uo: "\<And>k. k \<noteq> n \<Longrightarrow> k \<noteq> m \<Longrightarrow> nd_unary (node_at p' k) = nd_unary (node_at p k)"
    and um: "\<And>v. v < nd_domain (node_at p m) \<Longrightarrow>
      nd_unary (node_at p' m) ! v = accel_cost_add (nd_unary (node_at p m) ! v) (fst (r1_best p n e v))"
    using up by (auto simp: r1_update_def Let_def m)
  note same = frame_same[OF fr]
  have mm: "m < pb_node_count p" "nd_active (node_at p m)" "m \<noteq> n" using other_node[OF wf e] by (auto simp: m)
  have t: "tables_within p wo wn we" using w by (simp add: weighted_def)
  note best = r1_best_props(4)[OF wf w same(6,7) e, folded m]
  let ?wn = "wn(m := wn m + (wn n + we e), n := 0)" and ?we = "we(e := 0)"
  have sums: "sum ?wn {..<pb_node_count p} + sum ?we {..<pb_edge_capacity p} =
      sum wn {..<pb_node_count p} + sum we {..<pb_edge_capacity p}"
    using sum_fun_upd[OF same(6), of "wn(m := wn m + (wn n + we e))" 0]
      sum_fun_upd[OF mm(1), of wn "wn m + (wn n + we e)"] sum_fun_upd[OF e(1), of we 0] mm(3) by simp
  have "?wn m \<le> sum ?wn {..<pb_node_count p}" using mm(1) by (intro member_le_sum) auto
  then have fit: "wn m + (wn n + we e) \<le> pb_node_capacity p + pb_edge_capacity p"
    using sums w mm(3) by (simp add: weighted_def)
  show add: "cost_abs (nd_unary (node_at p' m) ! v) = cost_abs (nd_unary (node_at p m) ! v) +
      cost_abs (fst (r1_best p n e v))" if "v < nd_domain (node_at p m)" for v
    using add_exact(2)[OF tables_withinD(2)[OF t mm(1,2) that] best[OF that] fit] um[OF that] by simp
  have wm: "within p (wn m + (wn n + we e)) (nd_unary (node_at p' m) ! v)" if "v < nd_domain (node_at p m)" for v
    using add_exact(3)[OF tables_withinD(2)[OF t mm(1,2) that] best[OF that] fit] um[OF that] by simp
  have "tables_within p' wo ?wn ?we"
  proof (rule tables_withinI)
    fix k v assume "k < pb_node_count p'" "nd_active (node_at p' k)" "v < nd_domain (node_at p' k)"
    then show "within p' (?wn k) (nd_unary (node_at p' k) ! v)"
      using tables_withinD(2)[OF t, of k v] wm[of v] uo[of k] by (cases "k = m") (auto simp: same)
  next
    fix f a b
    assume f: "f < pb_edge_capacity p'" "eg_active (edge_at p' f)" "a < nd_domain (node_at p' (eg_first (edge_at p' f)))"
      "b < nd_domain (node_at p' (eg_second (edge_at p' f)))"
    then have "f \<noteq> e" using ee by auto
    moreover have "eg_first (edge_at p f) < pb_node_count p" "eg_second (edge_at p f) < pb_node_count p"
      using wf_edge[OF wf, of f] f \<open>f \<noteq> e\<close> eo by (simp_all add: same)
    ultimately show "within p' (?we f) (edge_cost (edge_at p' f) a b)"
      using tables_withinD(3)[OF t, of f a b] f by (simp add: same eo)
  qed (use tables_withinD(1)[OF t] in \<open>simp add: same off\<close>)
  then show "costs_bounded p'" using w sums unfolding costs_bounded_def weighted_def same by (metis add.assoc)
qed

lemma r1_exact:
  assumes wf: "pbqp_wf p" and cb: "costs_bounded p" and e: "e < pb_edge_capacity p" "incident (edge_at p e) n"
    and only: "\<And>f. f < pb_edge_capacity p \<Longrightarrow> incident (edge_at p f) n \<Longrightarrow> f = e"
    and up: "r1_update n e p p'"
  shows "exact_step n p p'"
proof -
  define m where "m = OtherNode (edge_at p e) n"
  have eu: "elim_update n p p'" and fr: "elim_frame n p p'"
    and off: "pb_objective_offset p' = pb_objective_offset p"
    and ee: "\<not> eg_active (edge_at p' e)" and eo: "\<And>f. f \<noteq> e \<Longrightarrow> edge_at p' f = edge_at p f"
    and uo: "\<And>k. k \<noteq> n \<Longrightarrow> k \<noteq> m \<Longrightarrow> nd_unary (node_at p' k) = nd_unary (node_at p k)"
    and rec: "\<And>x. x ! m < nd_domain (node_at p m) \<Longrightarrow> reconstruct_node p' n x = x[n := snd (r1_best p n e (x ! m))]"
    using up by (auto simp: r1_update_def Let_def m_def)
  note same = frame_same[OF fr]
  note n = same(6,7)
  have m: "m < pb_node_count p" "nd_active (node_at p m)" "m \<noteq> n"
    using other_node[OF wf e] by (auto simp: m_def)
  obtain wo wn we where w: "weighted p wo wn we" using cb by (auto simp: costs_bounded_def)
  note best = r1_best_props[OF wf w n e, folded m_def]
  note add = r1_bounded[OF wf w e up m_def]
  let ?loc = "\<lambda>i x. cost_abs (nd_unary (node_at p n) ! i) + cost_abs (edge_between (edge_at p e) n i (x ! m))"
  have vm: "x ! m < nd_domain (node_at p m)" if "valid_assignment p' x" for x
    using that m by (auto simp: valid_assignment_def same)
  show ?thesis
  proof (rule exact_stepI[where loc = ?loc and best = "\<lambda>x. cost_abs (fst (r1_best p n e (x ! m)))"
        and ch = "\<lambda>x. snd (r1_best p n e (x ! m))"])
    show "pbqp_wf p'" by (rule elim_wf[OF wf n eu])
    show "costs_bounded p'" and "elim_frame n p p'" by (rule add(1), rule fr)
  next
    fix x y assume y: "\<And>k. k \<noteq> n \<Longrightarrow> y ! k = x ! k" and x: "valid_assignment p' x"
    have nt: "node_term p' x k = node_term p y k" if "k < pb_node_count p" "k \<noteq> n" "k \<noteq> m" for k
      using that y uo by (simp add: node_term_def same)
    have et: "edge_term p' x f = edge_term p y f" if "f < pb_edge_capacity p" "f \<noteq> e" for f
    proof -
      have "\<not> incident (edge_at p f) n" using that only by blast
      then show ?thesis using eo[OF that(2)] by (auto simp: edge_term_def incident_def y)
    qed
    obtain r where r: "sum (node_term p y) {..<pb_node_count p} = node_term p y n + (node_term p y m + r)"
      "sum (node_term p' x) {..<pb_node_count p} = node_term p' x n + (node_term p' x m + r)"
      using sum_change_two[OF n(1) m(1) m(3)[symmetric], of "node_term p' x" "node_term p y"] nt by metis
    obtain s where s: "sum (edge_term p y) {..<pb_edge_capacity p} = edge_term p y e + s"
      "sum (edge_term p' x) {..<pb_edge_capacity p} = edge_term p' x e + s"
      using sum_change_one[OF e(1), of "edge_term p' x" "edge_term p y"] et by metis
    have "node_term p' x n = 0" "edge_term p' x e = 0"
      "node_term p' x m = node_term p y m + cost_abs (fst (r1_best p n e (x ! m)))"
      using n m y add(2)[OF vm[OF x]] by (auto simp: node_term_def edge_term_def same ee)
    moreover have "node_term p y n = cost_abs (nd_unary (node_at p n) ! (y ! n))"
      "edge_term p y e = cost_abs (edge_between (edge_at p e) n (y ! n) (x ! m))"
      using n m y edge_term_between[OF e(2)] by (simp_all add: node_term_def m_def[symmetric])
    ultimately show "\<exists>r. total_cost p y = ?loc (y ! n) x + r \<and>
        total_cost p' x = cost_abs (fst (r1_best p n e (x ! m))) + r"
      using r s by (intro exI[of _ "cost_abs (pb_objective_offset p) + node_term p y m + r + s"])
        (simp add: total_cost_def core_cost_def same off ac_simps)
  qed (use best(1-3) vm rec in auto)
qed

section \<open>R2\<close>

text \<open>The best value of node \<open>n\<close> against each pair of values of its two neighbours.\<close>

definition r2_best :: "pbqp_problem \<Rightarrow> nat \<Rightarrow> nat \<Rightarrow> nat \<Rightarrow> nat \<Rightarrow> nat \<Rightarrow> int \<times> nat" where
  "r2_best p n e1 e2 a b = first_min (map (\<lambda>i. accel_cost_add (accel_cost_add (nd_unary (node_at p n) ! i)
     (edge_between (edge_at p e1) n i a)) (edge_between (edge_at p e2) n i b)) [0..<nd_domain (node_at p n)])"

definition r2_update :: "nat \<Rightarrow> nat \<Rightarrow> nat \<Rightarrow> nat \<Rightarrow> pbqp_problem \<Rightarrow> pbqp_problem \<Rightarrow> bool" where
  "r2_update n e1 e2 f p p' \<longleftrightarrow>
     (let m1 = OtherNode (edge_at p e1) n; m2 = OtherNode (edge_at p e2) n in
     elim_update n p p' \<and> elim_frame n p p' \<and> pb_objective_offset p' = pb_objective_offset p \<and>
     \<not> eg_active (edge_at p' e1) \<and> \<not> eg_active (edge_at p' e2) \<and> eg_active (edge_at p' f) \<and>
     (\<forall>g. g \<noteq> e1 \<longrightarrow> g \<noteq> e2 \<longrightarrow> g \<noteq> f \<longrightarrow> edge_at p' g = edge_at p g) \<and>
     (\<forall>k. k \<noteq> n \<longrightarrow> nd_unary (node_at p' k) = nd_unary (node_at p k)) \<and>
     (\<forall>a < nd_domain (node_at p m1). \<forall>b < nd_domain (node_at p m2). edge_between (edge_at p' f) m1 a b =
        accel_cost_add (edge_between (edge_at p f) m1 a b) (fst (r2_best p n e1 e2 a b))) \<and>
     (\<forall>x. x ! m1 < nd_domain (node_at p m1) \<longrightarrow> x ! m2 < nd_domain (node_at p m2) \<longrightarrow>
        reconstruct_node p' n x = x[n := snd (r2_best p n e1 e2 (x ! m1) (x ! m2))]))"

lemma r2_best_props:
  assumes wf: "pbqp_wf p" and w: "weighted p wo wn we" and n: "n < pb_node_count p" "nd_active (node_at p n)"
    and e1: "e1 < pb_edge_capacity p" "incident (edge_at p e1) n"
    and e2: "e2 < pb_edge_capacity p" "incident (edge_at p e2) n" and ne: "e1 \<noteq> e2"
    and a: "a < nd_domain (node_at p (OtherNode (edge_at p e1) n))"
    and b: "b < nd_domain (node_at p (OtherNode (edge_at p e2) n))"
  shows "snd (r2_best p n e1 e2 a b) < nd_domain (node_at p n)"
    and "cost_abs (fst (r2_best p n e1 e2 a b)) = cost_abs (nd_unary (node_at p n) ! snd (r2_best p n e1 e2 a b)) +
      cost_abs (edge_between (edge_at p e1) n (snd (r2_best p n e1 e2 a b)) a) +
      cost_abs (edge_between (edge_at p e2) n (snd (r2_best p n e1 e2 a b)) b)"
    and "i < nd_domain (node_at p n) \<Longrightarrow> cost_abs (fst (r2_best p n e1 e2 a b)) \<le>
      cost_abs (nd_unary (node_at p n) ! i) + cost_abs (edge_between (edge_at p e1) n i a) +
      cost_abs (edge_between (edge_at p e2) n i b)"
    and "within p (wn n + we e1 + we e2) (fst (r2_best p n e1 e2 a b))"
    and "i < nd_domain (node_at p n) \<Longrightarrow>
      cost_add (nd_unary (node_at p n) ! i) (edge_between (edge_at p e1) n i a) \<noteq> None \<and>
      cost_add (accel_cost_add (nd_unary (node_at p n) ! i) (edge_between (edge_at p e1) n i a))
        (edge_between (edge_at p e2) n i b) \<noteq> None"
proof -
  let ?g = "\<lambda>i. accel_cost_add (nd_unary (node_at p n) ! i) (edge_between (edge_at p e1) n i a)"
  let ?f = "\<lambda>i. accel_cost_add (?g i) (edge_between (edge_at p e2) n i b)"
  let ?sum = "\<lambda>i. cost_abs (nd_unary (node_at p n) ! i) + cost_abs (edge_between (edge_at p e1) n i a) +
      cost_abs (edge_between (edge_at p e2) n i b)"
  have d: "0 < nd_domain (node_at p n)" using wf n by (simp add: pbqp_wf_def graph_ok_def)
  note fm = first_min_upt[OF d, where f = ?f, folded r2_best_def]
  have t: "tables_within p wo wn we" using w by (simp add: weighted_def)
  have "wn n \<le> sum wn {..<pb_node_count p}" using n by (auto intro: member_le_sum)
  moreover have "we e1 + we e2 = sum we {e1, e2}" using ne by simp
  moreover have "sum we {e1, e2} \<le> sum we {..<pb_edge_capacity p}"
    using e1(1) e2(1) by (intro sum_mono2) auto
  ultimately have fit: "wn n + we e1 + we e2 \<le> pb_node_capacity p + pb_edge_capacity p"
    and fit1: "wn n + we e1 \<le> pb_node_capacity p + pb_edge_capacity p" using w by (simp_all add: weighted_def)
  have add1: "within p (wn n + we e1) (?g i)" "cost_abs (?g i) =
      cost_abs (nd_unary (node_at p n) ! i) + cost_abs (edge_between (edge_at p e1) n i a)"
    "cost_add (nd_unary (node_at p n) ! i) (edge_between (edge_at p e1) n i a) \<noteq> None"
    if "i < nd_domain (node_at p n)" for i
    using add_exact[OF tables_withinD(2)[OF t n that] edge_between_within[OF t e1 that a] fit1] by auto
  have add: "cost_abs (?f i) = ?sum i" "within p (wn n + we e1 + we e2) (?f i)"
    "cost_add (?g i) (edge_between (edge_at p e2) n i b) \<noteq> None"
    if "i < nd_domain (node_at p n)" for i
    using add_exact[OF add1(1)[OF that] edge_between_within[OF t e2 that b] fit] add1(2)[OF that] by auto
  show lt: "snd (r2_best p n e1 e2 a b) < nd_domain (node_at p n)" by (rule fm)
  show "cost_abs (fst (r2_best p n e1 e2 a b)) = ?sum (snd (r2_best p n e1 e2 a b))"
    using fm(2) add(1)[OF lt] by simp
  show bw: "within p (wn n + we e1 + we e2) (fst (r2_best p n e1 e2 a b))" using fm(2) add(2)[OF lt] by simp
  assume i: "i < nd_domain (node_at p n)"
  show "cost_add (nd_unary (node_at p n) ! i) (edge_between (edge_at p e1) n i a) \<noteq> None \<and>
      cost_add (?g i) (edge_between (edge_at p e2) n i b) \<noteq> None"
    using add1(3)[OF i] add(3)[OF i] by blast
  have "cost_abs (fst (r2_best p n e1 e2 a b)) \<le> cost_abs (?f i)"
    using fm(3)[OF i] within_valid[OF bw fit] within_valid[OF add(2)[OF i] fit] by (intro cost_abs_mono) auto
  then show "cost_abs (fst (r2_best p n e1 e2 a b)) \<le> ?sum i" using add(1)[OF i] by simp
qed

text \<open>The edge that receives the result joins the two neighbours and is neither of the two edges.\<close>

definition r2_site :: "nat \<Rightarrow> nat \<Rightarrow> nat \<Rightarrow> nat \<Rightarrow> pbqp_problem \<Rightarrow> bool" where
  "r2_site n e1 e2 f p \<longleftrightarrow> e1 < pb_edge_capacity p \<and> incident (edge_at p e1) n \<and>
     e2 < pb_edge_capacity p \<and> incident (edge_at p e2) n \<and> e1 \<noteq> e2 \<and> f < pb_edge_capacity p \<and>
     edge_joins (edge_at p f) (OtherNode (edge_at p e1) n) (OtherNode (edge_at p e2) n) \<and>
     (\<forall>g < pb_edge_capacity p. incident (edge_at p g) n \<longrightarrow> g = e1 \<or> g = e2)"

lemma r2_site_props:
  assumes wf: "pbqp_wf p" and site: "r2_site n e1 e2 f p" and m1: "m1 = OtherNode (edge_at p e1) n"
    and m2: "m2 = OtherNode (edge_at p e2) n"
  shows "f \<noteq> e1" "f \<noteq> e2" "incident (edge_at p f) m1" "OtherNode (edge_at p f) m1 = m2"
    "\<not> incident (edge_at p f) n" "m1 < pb_node_count p" "m2 < pb_node_count p" "nd_active (node_at p m1)"
    "nd_active (node_at p m2)" "m1 \<noteq> n" "m2 \<noteq> n" "m1 \<noteq> m2"
proof -
  have e: "e1 < pb_edge_capacity p" "incident (edge_at p e1) n" "e2 < pb_edge_capacity p" "incident (edge_at p e2) n"
    "f < pb_edge_capacity p" and j: "edge_joins (edge_at p f) m1 m2"
    using site by (auto simp: r2_site_def m1 m2)
  show o: "m1 < pb_node_count p" "m2 < pb_node_count p" "nd_active (node_at p m1)" "nd_active (node_at p m2)"
    "m1 \<noteq> n" "m2 \<noteq> n"
    using other_node[OF wf e(1,2)] other_node[OF wf e(3,4)] by (auto simp: m1 m2)
  show "\<not> incident (edge_at p f) n" using j o by (auto simp: incident_def edge_joins_def)
  then show "f \<noteq> e1" "f \<noteq> e2" using e by auto
  have act: "eg_active (edge_at p f)" using j by (simp add: edge_joins_def)
  show "m1 \<noteq> m2" using wf_edge(3)[OF wf e(5) act] j by (auto simp: edge_joins_def)
  then show "incident (edge_at p f) m1" "OtherNode (edge_at p f) m1 = m2"
    using j by (auto simp: incident_def OtherNode_def edge_joins_def)
qed

lemma r2_bounded:
  assumes wf: "pbqp_wf p" and w: "weighted p wo wn we" and site: "r2_site n e1 e2 f p"
    and up: "r2_update n e1 e2 f p p'" and m1: "m1 = OtherNode (edge_at p e1) n" and m2: "m2 = OtherNode (edge_at p e2) n"
  shows "costs_bounded p'" and "\<And>a b. a < nd_domain (node_at p m1) \<Longrightarrow> b < nd_domain (node_at p m2) \<Longrightarrow>
    cost_abs (edge_between (edge_at p' f) m1 a b) =
      cost_abs (edge_between (edge_at p f) m1 a b) + cost_abs (fst (r2_best p n e1 e2 a b))"
proof -
  have eu: "elim_update n p p'" and fr: "elim_frame n p p'" and off: "pb_objective_offset p' = pb_objective_offset p"
    and ee: "\<not> eg_active (edge_at p' e1)" "\<not> eg_active (edge_at p' e2)" "eg_active (edge_at p' f)"
    and eo: "\<And>g. g \<noteq> e1 \<Longrightarrow> g \<noteq> e2 \<Longrightarrow> g \<noteq> f \<Longrightarrow> edge_at p' g = edge_at p g"
    and uo: "\<And>k. k \<noteq> n \<Longrightarrow> nd_unary (node_at p' k) = nd_unary (node_at p k)"
    and um: "\<And>a b. a < nd_domain (node_at p m1) \<Longrightarrow> b < nd_domain (node_at p m2) \<Longrightarrow>
      edge_between (edge_at p' f) m1 a b =
        accel_cost_add (edge_between (edge_at p f) m1 a b) (fst (r2_best p n e1 e2 a b))"
    using up by (auto simp: r2_update_def Let_def m1 m2)
  note same = frame_same[OF fr] and o = r2_site_props[OF wf site m1 m2]
  have e: "e1 < pb_edge_capacity p" "incident (edge_at p e1) n" "e2 < pb_edge_capacity p" "incident (edge_at p e2) n"
    "e1 \<noteq> e2" "f < pb_edge_capacity p" using site by (auto simp: r2_site_def)
  have t: "tables_within p wo wn we" using w by (simp add: weighted_def)
  note best = r2_best_props(4)[OF wf w same(6,7) e(1,2,3,4,5), folded m1 m2]
  let ?v = "wn n + we e1 + we e2"
  let ?wn = "wn(n := 0)" and ?we = "we(f := we f + ?v, e1 := 0, e2 := 0)"
  have sums: "sum ?wn {..<pb_node_count p} + sum ?we {..<pb_edge_capacity p} =
      sum wn {..<pb_node_count p} + sum we {..<pb_edge_capacity p}"
    using sum_fun_upd[OF same(6), of wn 0] sum_fun_upd[OF e(6), of we "we f + ?v"]
      sum_fun_upd[OF e(1), of "we(f := we f + ?v)" 0] sum_fun_upd[OF e(3), of "we(f := we f + ?v, e1 := 0)" 0]
      o(1,2) e(5) by simp
  have "?we f \<le> sum ?we {..<pb_edge_capacity p}" using e(6) by (intro member_le_sum) auto
  then have fit: "we f + ?v \<le> pb_node_capacity p + pb_edge_capacity p"
    using sums w o(1,2) by (simp add: weighted_def)
  have fw: "within p (we f) (edge_between (edge_at p f) m1 a b)"
    if "a < nd_domain (node_at p m1)" "b < nd_domain (node_at p m2)" for a b
    using edge_between_within[OF t e(6) o(3)] that o(4) by simp
  have both: "cost_abs (edge_between (edge_at p' f) m1 a b) =
      cost_abs (edge_between (edge_at p f) m1 a b) + cost_abs (fst (r2_best p n e1 e2 a b))"
    "within p (we f + ?v) (edge_between (edge_at p' f) m1 a b)"
    if "a < nd_domain (node_at p m1)" "b < nd_domain (node_at p m2)" for a b
    using add_exact(2,3)[OF fw[OF that] best[OF that] fit] um[OF that] by simp_all
  show "\<And>a b. a < nd_domain (node_at p m1) \<Longrightarrow> b < nd_domain (node_at p m2) \<Longrightarrow>
      cost_abs (edge_between (edge_at p' f) m1 a b) =
      cost_abs (edge_between (edge_at p f) m1 a b) + cost_abs (fst (r2_best p n e1 e2 a b))" by (rule both)
  have ends: "eg_first (edge_at p' f) = eg_first (edge_at p f)" "eg_second (edge_at p' f) = eg_second (edge_at p f)"
    using eu ee(3) e(6) by (auto simp: elim_update_def)
  have "tables_within p' wo ?wn ?we"
  proof (rule tables_withinI)
    fix k v assume "k < pb_node_count p'" "nd_active (node_at p' k)" "v < nd_domain (node_at p' k)"
    then show "within p' (?wn k) (nd_unary (node_at p' k) ! v)"
      using tables_withinD(2)[OF t, of k v] uo[of k] by (auto simp: same)
  next
    fix g a b
    assume g: "g < pb_edge_capacity p'" "eg_active (edge_at p' g)" "a < nd_domain (node_at p' (eg_first (edge_at p' g)))"
      "b < nd_domain (node_at p' (eg_second (edge_at p' g)))"
    then have ne: "g \<noteq> e1" "g \<noteq> e2" using ee by auto
    have old: "eg_active (edge_at p g)" "eg_first (edge_at p' g) = eg_first (edge_at p g)"
      "eg_second (edge_at p' g) = eg_second (edge_at p g)"
      using eu g by (auto simp: elim_update_def)
    have in_range: "a < nd_domain (node_at p (eg_first (edge_at p g)))" "b < nd_domain (node_at p (eg_second (edge_at p g)))"
      using g old wf_edge[OF wf, of g] by (auto simp: same)
    show "within p' (?we g) (edge_cost (edge_at p' g) a b)"
    proof (cases "g = f")
      case True
      have "edge_cost (edge_at p' f) a b = edge_between (edge_at p' f) m1 (if m1 = eg_first (edge_at p f) then a else b)
          (if m1 = eg_first (edge_at p f) then b else a)"
        by (simp add: edge_between_def ends)
      then show ?thesis
        using both(2) in_range ne True o(3,4) by (auto simp: same incident_def OtherNode_def split: if_splits)
    next
      case False
      then show ?thesis using tables_withinD(3)[OF t, of g a b] g old in_range ne eo[OF ne False] by (simp add: same)
    qed
  qed (use tables_withinD(1)[OF t] in \<open>simp add: same off\<close>)
  then show "costs_bounded p'" using w sums unfolding costs_bounded_def weighted_def same by (metis add.assoc)
qed

lemma r2_exact:
  assumes wf: "pbqp_wf p" and cb: "costs_bounded p" and site: "r2_site n e1 e2 f p" and up: "r2_update n e1 e2 f p p'"
  shows "exact_step n p p'"
proof -
  define m1 m2 where m1: "m1 = OtherNode (edge_at p e1) n" and m2: "m2 = OtherNode (edge_at p e2) n"
  have eu: "elim_update n p p'" and fr: "elim_frame n p p'" and off: "pb_objective_offset p' = pb_objective_offset p"
    and ee: "\<not> eg_active (edge_at p' e1)" "\<not> eg_active (edge_at p' e2)" "eg_active (edge_at p' f)"
    and eo: "\<And>g. g \<noteq> e1 \<Longrightarrow> g \<noteq> e2 \<Longrightarrow> g \<noteq> f \<Longrightarrow> edge_at p' g = edge_at p g"
    and uo: "\<And>k. k \<noteq> n \<Longrightarrow> nd_unary (node_at p' k) = nd_unary (node_at p k)"
    and rec: "\<And>x. x ! m1 < nd_domain (node_at p m1) \<Longrightarrow> x ! m2 < nd_domain (node_at p m2) \<Longrightarrow>
      reconstruct_node p' n x = x[n := snd (r2_best p n e1 e2 (x ! m1) (x ! m2))]"
    using up by (auto simp: r2_update_def Let_def m1 m2)
  note same = frame_same[OF fr] and o = r2_site_props[OF wf site m1 m2]
  have e: "e1 < pb_edge_capacity p" "incident (edge_at p e1) n" "e2 < pb_edge_capacity p" "incident (edge_at p e2) n"
    "e1 \<noteq> e2" "f < pb_edge_capacity p" using site by (auto simp: r2_site_def)
  obtain wo wn we where w: "weighted p wo wn we" using cb by (auto simp: costs_bounded_def)
  note best = r2_best_props[OF wf w same(6,7) e(1,2,3,4,5), folded m1 m2] and add = r2_bounded[OF wf w site up m1 m2]
  have ends: "eg_first (edge_at p' f) = eg_first (edge_at p f)" "eg_second (edge_at p' f) = eg_second (edge_at p f)"
    using eu ee(3) e(6) by (auto simp: elim_update_def)
  let ?loc = "\<lambda>i x. cost_abs (nd_unary (node_at p n) ! i) + cost_abs (edge_between (edge_at p e1) n i (x ! m1)) +
    cost_abs (edge_between (edge_at p e2) n i (x ! m2))"
  let ?best = "\<lambda>x. cost_abs (fst (r2_best p n e1 e2 (x ! m1) (x ! m2)))"
  have vm: "x ! m1 < nd_domain (node_at p m1)" "x ! m2 < nd_domain (node_at p m2)" if "valid_assignment p' x" for x
    using that o by (auto simp: valid_assignment_def same)
  show ?thesis
  proof (rule exact_stepI[where loc = ?loc and best = ?best and ch = "\<lambda>x. snd (r2_best p n e1 e2 (x ! m1) (x ! m2))"])
    show "pbqp_wf p'" by (rule elim_wf[OF wf same(6,7) eu])
    show "costs_bounded p'" and "elim_frame n p p'" by (rule add(1), rule fr)
  next
    fix x y assume y: "\<And>k. k \<noteq> n \<Longrightarrow> y ! k = x ! k" and x: "valid_assignment p' x"
    have nt: "node_term p' x k = node_term p y k" if "k < pb_node_count p" "k \<noteq> n" for k
      using that y uo by (simp add: node_term_def same)
    have et: "edge_term p' x g = edge_term p y g" if "g < pb_edge_capacity p" "g \<noteq> e1" "g \<noteq> e2" "g \<noteq> f" for g
    proof -
      have "\<not> incident (edge_at p g) n" using that site by (auto simp: r2_site_def)
      then show ?thesis using eo[OF that(2-4)] by (auto simp: edge_term_def incident_def y)
    qed
    obtain r where r: "sum (node_term p y) {..<pb_node_count p} = node_term p y n + r"
      "sum (node_term p' x) {..<pb_node_count p} = node_term p' x n + r"
      using sum_change_one[OF same(6), of "node_term p' x" "node_term p y"] nt by metis
    let ?R = "{..<pb_edge_capacity p} - {e1, e2, f}"
    have three: "sum h {..<pb_edge_capacity p} = h e1 + (h e2 + (h f + sum h ?R))" for h :: "nat \<Rightarrow> ecost"
    proof -
      have "sum h {..<pb_edge_capacity p} = sum h ?R + sum h {e1, e2, f}" using e by (intro sum.subset_diff) auto
      then show ?thesis using e(5) o(1,2) by (simp add: ac_simps)
    qed
    have rest: "sum (edge_term p' x) ?R = sum (edge_term p y) ?R" using et by (intro sum.cong) auto
    have "incident (edge_at p' f) m1" "OtherNode (edge_at p' f) m1 = m2"
      using o(3,4) ee(3) ends by (auto simp: incident_def OtherNode_def)
    then have "edge_term p' x f = edge_term p y f + ?best x"
      using edge_term_between[of p' f m1 x] edge_term_between[OF o(3), of y] add(2)[OF vm[OF x]] o y by simp
    moreover have "node_term p' x n = 0" "edge_term p' x e1 = 0" "edge_term p' x e2 = 0"
      using ee same by (auto simp: node_term_def edge_term_def)
    moreover have "node_term p y n = cost_abs (nd_unary (node_at p n) ! (y ! n))"
      "edge_term p y e1 = cost_abs (edge_between (edge_at p e1) n (y ! n) (x ! m1))"
      "edge_term p y e2 = cost_abs (edge_between (edge_at p e2) n (y ! n) (x ! m2))"
      using same(6,7) o y edge_term_between[OF e(2)] edge_term_between[OF e(4)]
      by (simp_all add: node_term_def m1[symmetric] m2[symmetric])
    ultimately show "\<exists>r. total_cost p y = ?loc (y ! n) x + r \<and> total_cost p' x = ?best x + r"
      using r three[of "edge_term p y"] three[of "edge_term p' x"] rest
      by (intro exI[of _ "cost_abs (pb_objective_offset p) + r + edge_term p y f + sum (edge_term p y) ?R"])
        (simp add: total_cost_def core_cost_def same off ac_simps)
  qed (use best(1-3) vm rec in auto)
qed

section \<open>The fill edge\<close>

lemma first_index_some: "first_index P n = Some i \<Longrightarrow> i < n \<and> P i"
  by (auto simp: first_index_def find_Some_iff)

lemma first_index_none: "first_index P n = None \<longleftrightarrow> (\<forall>i < n. \<not> P i)"
  by (auto simp: first_index_def find_None_iff)

definition fill_frame :: "pbqp_problem \<Rightarrow> pbqp_problem \<Rightarrow> bool" where
  "fill_frame p p1 \<longleftrightarrow> (\<exists>es c. p1 = p\<lparr>pb_edges := es, pb_edge_count := c\<rparr>) \<and> pbqp_wf p1 \<and>
     (\<forall>wo wn we. weighted p wo wn we \<longrightarrow> costs_bounded p1) \<and>
     (\<forall>g < pb_edge_capacity p. eg_active (edge_at p g) \<longrightarrow> edge_at p1 g = edge_at p g) \<and>
     (\<forall>x. valid_assignment p x \<longrightarrow> total_cost p1 x = total_cost p x)"

lemma fill_frame_refl: "pbqp_wf p \<Longrightarrow> fill_frame p p"
proof -
  assume "pbqp_wf p"
  moreover have "p = p\<lparr>pb_edges := pb_edges p, pb_edge_count := pb_edge_count p\<rparr>" by simp
  ultimately show ?thesis unfolding fill_frame_def by (metis costs_bounded_def)
qed

lemma fill_exact_step:
  assumes "fill_frame p p1" and "exact_step n p1 p'"
  shows "exact_step n p p'"
proof -
  obtain es c where p1: "p1 = p\<lparr>pb_edges := es, pb_edge_count := c\<rparr>"
    and cost: "\<And>x. valid_assignment p x \<Longrightarrow> total_cost p1 x = total_cost p x"
    using assms(1) by (auto simp: fill_frame_def)
  have "valid_assignment p1 x = valid_assignment p x" for x by (simp add: p1 valid_assignment_def)
  moreover have "elim_frame n p1 p' = elim_frame n p p'" by (simp add: p1 elim_frame_def eliminated_def)
  ultimately show ?thesis using assms(2) cost by (auto simp: exact_step_def attained_step_def)
qed

definition fresh_edge :: "pbqp_problem \<Rightarrow> nat \<Rightarrow> nat \<Rightarrow> pbqp_edge" where
  "fresh_edge p m1 m2 = \<lparr>eg_active = True, eg_first = m1, eg_second = m2, eg_stride = pb_domain_capacity p,
     eg_cost = replicate (pb_domain_capacity p * pb_domain_capacity p) 0\<rparr>"

lemma fresh_edge_cost:
  assumes "a < pb_domain_capacity p" and "b < pb_domain_capacity p"
  shows "edge_cost (fresh_edge p m1 m2) a b = 0"
proof -
  have "a * pb_domain_capacity p + b < Suc a * pb_domain_capacity p" using assms(2) by simp
  also have "\<dots> \<le> pb_domain_capacity p * pb_domain_capacity p" using assms(1) by (intro mult_le_mono1) simp
  finally show ?thesis by (simp add: edge_cost_def fresh_edge_def)
qed

lemma add_fill_edge:
  assumes wf: "pbqp_wf p" and m: "m1 < pb_node_count p" "m2 < pb_node_count p" "m1 \<noteq> m2"
    "nd_active (node_at p m1)" "nd_active (node_at p m2)"
    and free: "FindEdge p m1 m2 = None" and add: "AddFillEdge p m1 m2 = (Some f, p1)"
  shows "fill_frame p p1" and "f < pb_edge_capacity p" and "edge_at p1 f = fresh_edge p m1 m2"
    and "\<not> eg_active (edge_at p f)" and "\<And>g. g \<noteq> f \<Longrightarrow> edge_at p1 g = edge_at p g"
proof -
  have sh: "shape_ok p" and g: "graph_ok p" and o: "order_ok p" using wf by (auto simp: pbqp_wf_def)
  have idx: "first_index (\<lambda>index. \<not> eg_active (edge_at p index)) (pb_edge_capacity p) = Some f"
    using add by (auto simp: AddFillEdge_def Let_def split: option.splits)
  show f: "f < pb_edge_capacity p" and inact: "\<not> eg_active (edge_at p f)" using first_index_some[OF idx] by auto
  let ?dc = "pb_domain_capacity p"
  have p1: "p1 = p\<lparr>pb_edge_count := pb_edge_count p + 1, pb_edges := (pb_edges p)[f := fresh_edge p m1 m2]\<rparr>"
    using add idx sh f by (simp add: AddFillEdge_def Let_def shape_ok_def copy_prefix_def fresh_edge_def)
  have sel: "pb_nodes p1 = pb_nodes p" "pb_edge_capacity p1 = pb_edge_capacity p"
    "pb_node_count p1 = pb_node_count p" "pb_objective_offset p1 = pb_objective_offset p"
    "pb_node_capacity p1 = pb_node_capacity p" by (simp_all add: p1)
  have len: "f < length (pb_edges p)" using f sh by (simp add: shape_ok_def)
  show ef: "edge_at p1 f = fresh_edge p m1 m2" using len by (simp add: p1)
  show eo: "edge_at p1 h = edge_at p h" if "h \<noteq> f" for h using that by (simp add: p1)
  have nojoin: "\<not> edge_joins (edge_at p h) m1 m2" if "h < pb_edge_capacity p" for h
    using free that by (auto simp: FindEdge_def first_index_none)
  have ends: "eg_active (edge_at p1 f)" "eg_first (edge_at p1 f) = m1" "eg_second (edge_at p1 f) = m2"
    by (simp_all add: ef fresh_edge_def)
  have "shape_ok p1" using sh len by (auto simp: shape_ok_def p1 fresh_edge_def nth_list_update)
  moreover have "graph_ok p1"
    unfolding graph_ok_def
  proof (intro conjI allI impI)
    fix e assume e: "e < pb_edge_capacity p1" "eg_active (edge_at p1 e)"
    show "eg_first (edge_at p1 e) < pb_node_count p1" "eg_second (edge_at p1 e) < pb_node_count p1"
      "eg_first (edge_at p1 e) \<noteq> eg_second (edge_at p1 e)"
      "nd_active (node_at p1 (eg_first (edge_at p1 e)))" "nd_active (node_at p1 (eg_second (edge_at p1 e)))"
      using wf_edge[OF wf, of e] e m ends eo[of e] by (cases "e = f"; simp add: p1)+
  next
    fix e h assume e: "e < pb_edge_capacity p1" "h < pb_edge_capacity p1" "eg_active (edge_at p1 e)"
      "edge_joins (edge_at p1 h) (eg_first (edge_at p1 e)) (eg_second (edge_at p1 e))"
    have cap: "pb_edge_capacity p1 = pb_edge_capacity p" by (simp add: p1)
    consider "e = f" "h = f" | "e = f" "h \<noteq> f" | "e \<noteq> f" "h = f" | "e \<noteq> f" "h \<noteq> f" by blast
    then show "e = h"
    proof cases
      case 2
      then show ?thesis using e nojoin[of h] eo[of h] ends by (simp add: cap)
    next
      case 3
      then have "edge_joins (edge_at p e) m1 m2" using e ends eo[of e] by (auto simp: edge_joins_def)
      then show ?thesis using nojoin[of e] e by (simp add: cap)
    next
      case 4
      then show ?thesis using e g eo[of e] eo[of h] unfolding cap graph_ok_def by metis
    qed simp
  qed (use g in \<open>auto simp: graph_ok_def p1\<close>)
  moreover have "order_ok p1" using o by (simp add: order_ok_def eliminated_def p1)
  ultimately have wf1: "pbqp_wf p1" by (simp add: pbqp_wf_def)
  have dom: "nd_domain (node_at p k) \<le> ?dc" if "k < pb_node_count p" for k using g that by (simp add: graph_ok_def)
  have zero: "edge_cost (edge_at p1 f) a b = 0" if "a < nd_domain (node_at p m1)" "b < nd_domain (node_at p m2)" for a b
    using that dom[OF m(1)] dom[OF m(2)] by (simp add: ef fresh_edge_cost)
  have "costs_bounded p1" if w: "weighted p wo wn we" for wo wn we
  proof -
    have t: "tables_within p wo wn we" using w by (simp add: weighted_def)
    have wi: "within p1 = within p" by (rule within_cong) (simp_all add: p1)
    have "tables_within p1 wo wn (we(f := 0))"
    proof (rule tables_withinI)
      fix e a b assume e: "e < pb_edge_capacity p1" "eg_active (edge_at p1 e)"
        "a < nd_domain (node_at p1 (eg_first (edge_at p1 e)))" "b < nd_domain (node_at p1 (eg_second (edge_at p1 e)))"
      then show "within p1 ((we(f := 0)) e) (edge_cost (edge_at p1 e) a b)"
        using tables_withinD(3)[OF t, of e a b] eo[of e] ends zero[of a b] by (cases "e = f") (auto simp: wi sel)
    qed (use tables_withinD(1,2)[OF t] in \<open>auto simp: wi sel\<close>)
    moreover have "sum (we(f := 0)) {..<pb_edge_capacity p} \<le> sum we {..<pb_edge_capacity p}"
      using sum_fun_upd[OF f, of we 0] by linarith
    ultimately have "weighted p1 wo wn (we(f := 0))" using w by (simp add: weighted_def sel)
    then show ?thesis by (auto simp: costs_bounded_def)
  qed
  moreover have "total_cost p1 x = total_cost p x" if x: "valid_assignment p x" for x
  proof -
    have "edge_term p1 x f = 0" using zero x m ends by (simp add: edge_term_def valid_assignment_def)
    moreover have "edge_term p x f = 0" using inact by (simp add: edge_term_def)
    ultimately have "edge_term p1 x e = edge_term p x e" for e using eo[of e] by (cases "e = f") (auto simp: edge_term_def)
    moreover have "node_term p1 x k = node_term p x k" for k by (simp add: node_term_def p1)
    ultimately show ?thesis by (simp add: total_cost_def core_cost_def p1)
  qed
  moreover have "p1 = p\<lparr>pb_edges := (pb_edges p)[f := fresh_edge p m1 m2], pb_edge_count := pb_edge_count p + 1\<rparr>"
    by (simp add: p1)
  ultimately show "fill_frame p p1" using wf1 eo inact unfolding fill_frame_def by metis
qed

lemma find_or_add_edge_frame:
  assumes wf: "pbqp_wf p" and m: "m1 < pb_node_count p" "m2 < pb_node_count p" "m1 \<noteq> m2"
    "nd_active (node_at p m1)" "nd_active (node_at p m2)" and add: "find_or_add_edge m1 m2 p = (Some f, p1)"
  shows "fill_frame p p1" and "f < pb_edge_capacity p" and "edge_joins (edge_at p1 f) m1 m2"
    and "\<And>g n. g < pb_edge_capacity p \<Longrightarrow> n \<noteq> m1 \<Longrightarrow> n \<noteq> m2 \<Longrightarrow> incident (edge_at p1 g) n \<longleftrightarrow> incident (edge_at p g) n"
proof -
  have "fill_frame p p1 \<and> f < pb_edge_capacity p \<and> edge_joins (edge_at p1 f) m1 m2 \<and>
    (\<forall>g n. g < pb_edge_capacity p \<longrightarrow> n \<noteq> m1 \<longrightarrow> n \<noteq> m2 \<longrightarrow> incident (edge_at p1 g) n \<longleftrightarrow> incident (edge_at p g) n)"
  proof (cases "FindEdge p m1 m2")
    case None
    then have add': "AddFillEdge p m1 m2 = (Some f, p1)" using add by (simp add: find_or_add_edge_def)
    note fe = add_fill_edge[OF wf m None add']
    have "incident (edge_at p1 g) n \<longleftrightarrow> incident (edge_at p g) n" if "n \<noteq> m1" "n \<noteq> m2" for g n
      using fe(3,4) fe(5)[of g] that by (cases "g = f") (auto simp: incident_def fresh_edge_def)
    then show ?thesis using fe by (auto simp: edge_joins_def fresh_edge_def)
  next
    case (Some f')
    then show ?thesis
      using add fill_frame_refl[OF wf] first_index_some[OF Some[unfolded FindEdge_def]]
      by (auto simp: find_or_add_edge_def)
  qed
  then show "fill_frame p p1" and "f < pb_edge_capacity p" and "edge_joins (edge_at p1 f) m1 m2"
    and "\<And>g n. g < pb_edge_capacity p \<Longrightarrow> n \<noteq> m1 \<Longrightarrow> n \<noteq> m2 \<Longrightarrow> incident (edge_at p1 g) n \<longleftrightarrow> incident (edge_at p g) n"
    by blast+
qed

end
