(* ===== verification/Pbqp_Condition.thy ===== *)
theory Pbqp_Condition
  imports Pbqp_Reductions
begin

text \<open>
  Conditioning, the step shared by RN and by the branches of the exact search: \<open>ConditionNode\<close> fixes a
  node to one value, adds the matching slice of each edge to the neighbour's table and drops the
  edges. Assignments that give the node this value keep their cost.
\<close>

section \<open>Adding a vector to the table of a node\<close>

definition add_unaries :: "(nat \<Rightarrow> int) \<Rightarrow> nat \<Rightarrow> pbqp_node \<Rightarrow> pbqp_node" where
  "add_unaries f d node = node\<lparr>nd_unary := fold (\<lambda>v u. u[v := accel_cost_add (u ! v) (f v)]) [0..<d] (nd_unary node)\<rparr>"

lemma set_node_set_node: "m < length (pb_nodes p) \<Longrightarrow> set_node m f (set_node m g p) = set_node m (\<lambda>nd. f (g nd)) p"
  by (simp add: set_node_def)

lemma fold_set_node:
  assumes "m < length (pb_nodes p)"
  shows "fold (\<lambda>v. set_node m (F v)) vs p = set_node m (fold F vs) p"
  using assms
proof (induction vs arbitrary: p)
  case Nil
  then show ?case by (simp add: set_node_def)
next
  case (Cons v vs)
  then show ?case using set_node_set_node[of m p] by (simp add: set_node_def comp_def)
qed

lemma fold_add_unary: "fold (\<lambda>v. add_unary v (f v)) vs node =
    node\<lparr>nd_unary := fold (\<lambda>v u. u[v := accel_cost_add (u ! v) (f v)]) vs (nd_unary node)\<rparr>"
  by (induction vs arbitrary: node) (simp_all add: add_unary_def)

lemma add_unaries_fold:
  "m < length (pb_nodes p) \<Longrightarrow>
   fold (\<lambda>v. set_node m (add_unary v (f v))) [0..<d] p = set_node m (add_unaries f d) p"
  by (simp add: fold_set_node fold_add_unary add_unaries_def set_node_def)

lemma add_unaries_simps [simp]:
  "nd_active (add_unaries f d node) = nd_active node" "nd_domain (add_unaries f d node) = nd_domain node"
  "nd_reduction_kind (add_unaries f d node) = nd_reduction_kind node"
  "nd_first_neighbor (add_unaries f d node) = nd_first_neighbor node"
  "nd_second_neighbor (add_unaries f d node) = nd_second_neighbor node"
  "length (nd_unary (add_unaries f d node)) = length (nd_unary node)"
  using length_fold_update[where g = "\<lambda>v. v" and h = "\<lambda>v c. accel_cost_add c (f v)"]
  by (simp_all add: add_unaries_def)

lemma add_unaries_nth:
  "v < d \<Longrightarrow> v < length (nd_unary node) \<Longrightarrow>
   nd_unary (add_unaries f d node) ! v = accel_cost_add (nd_unary node ! v) (f v)"
  using fold_update_range[where h = "\<lambda>v c. accel_cost_add c (f v)"] by (simp add: add_unaries_def)

section \<open>One edge\<close>

definition condition_frame :: "nat \<Rightarrow> pbqp_problem \<Rightarrow> pbqp_problem \<Rightarrow> bool" where
  "condition_frame n p q \<longleftrightarrow>
     pb_node_capacity q = pb_node_capacity p \<and> pb_edge_capacity q = pb_edge_capacity p \<and>
     pb_domain_capacity q = pb_domain_capacity p \<and> pb_node_count q = pb_node_count p \<and>
     pb_allocator q = pb_allocator p \<and> pb_storage q = pb_storage p \<and>
     pb_objective_offset q = pb_objective_offset p \<and> pb_reconstruction q = pb_reconstruction p \<and>
     pb_elimination_order q = pb_elimination_order p \<and> pb_elimination_count q = pb_elimination_count p \<and>
     (\<forall>k. nd_domain (node_at q k) = nd_domain (node_at p k) \<and> nd_active (node_at q k) = nd_active (node_at p k) \<and>
        nd_reduction_kind (node_at q k) = nd_reduction_kind (node_at p k) \<and>
        nd_first_neighbor (node_at q k) = nd_first_neighbor (node_at p k) \<and>
        nd_second_neighbor (node_at q k) = nd_second_neighbor (node_at p k)) \<and>
     nd_unary (node_at q n) = nd_unary (node_at p n)"

lemma condition_frame_refl: "condition_frame n p p"
  by (simp add: condition_frame_def)

lemma condition_frame_trans: "condition_frame n p q \<Longrightarrow> condition_frame n q r \<Longrightarrow> condition_frame n p r"
  by (simp add: condition_frame_def)

lemma condition_edge_form:
  assumes wf: "pbqp_wf p" and e: "e < pb_edge_capacity p" "incident (edge_at p e) n"
    and m: "m = OtherNode (edge_at p e) n"
  obtains s where "condition_edge n c kind e p =
    drop_edge e (set_node m (add_unaries (edge_between (edge_at p e) n c) (nd_domain (node_at p m))) p)
      \<lparr>pb_statistics := s\<rparr>"
proof -
  have "m < length (pb_nodes p)" using other_node(1)[OF wf e] wf by (simp add: m pbqp_wf_def shape_ok_def)
  note fold = add_unaries_fold[OF this]
  let ?d = "nd_domain (node_at p m)"
  have "condition_edge n c kind e p = drop_edge e (fold (\<lambda>v. set_node m (add_unary v (edge_between (edge_at p e) n c v)))
      [0..<?d] p)\<lparr>pb_statistics := record_condition kind ?d (pb_statistics (fold (\<lambda>v. set_node m
        (add_unary v (edge_between (edge_at p e) n c v))) [0..<?d] p))\<rparr>"
    using e(2) by (simp add: condition_edge_def Let_def m[symmetric] edge_views drop_edge_def set_edge_def)
  then show ?thesis unfolding fold by (rule that)
qed

lemma condition_edge_sel:
  assumes wf: "pbqp_wf p" and e: "e < pb_edge_capacity p" "incident (edge_at p e) n"
    and m: "m = OtherNode (edge_at p e) n" and q: "q = condition_edge n c kind e p"
  shows "node_at q m = add_unaries (edge_between (edge_at p e) n c) (nd_domain (node_at p m)) (node_at p m)"
    and "\<And>k. k \<noteq> m \<Longrightarrow> node_at q k = node_at p k" and "edge_at q e = (edge_at p e)\<lparr>eg_active := False\<rparr>"
    and "\<And>g. g \<noteq> e \<Longrightarrow> edge_at q g = edge_at p g" and "condition_frame n p q" and "shape_ok q"
    and "v < nd_domain (node_at p m) \<Longrightarrow> nd_unary (node_at q m) ! v =
      accel_cost_add (nd_unary (node_at p m) ! v) (edge_between (edge_at p e) n c v)"
proof -
  let ?f = "edge_between (edge_at p e) n c" and ?d = "nd_domain (node_at p m)"
  note o = other_node[OF wf e, folded m]
  have sh: "shape_ok p" using wf by (auto simp: pbqp_wf_def)
  obtain s where qs: "q = drop_edge e (set_node m (add_unaries ?f ?d) p)\<lparr>pb_statistics := s\<rparr>"
    using condition_edge_form[OF wf e m, of c kind] q by metis
  have len: "m < length (pb_nodes p)" "e < length (pb_edges p)" using o(1) e sh by (auto simp: shape_ok_def)
  show sel: "node_at q m = add_unaries ?f ?d (node_at p m)" and "\<And>k. k \<noteq> m \<Longrightarrow> node_at q k = node_at p k"
    and "edge_at q e = (edge_at p e)\<lparr>eg_active := False\<rparr>" and "\<And>g. g \<noteq> e \<Longrightarrow> edge_at q g = edge_at p g"
    using len by (simp_all add: qs drop_edge_def set_edge_def set_node_def)
  show "condition_frame n p q"
    using len o(3) by (auto simp: qs condition_frame_def drop_edge_def set_edge_def set_node_def nth_list_update)
  show "shape_ok q"
    using sh len by (auto simp: shape_ok_def qs drop_edge_def set_edge_def set_node_def nth_list_update)
  assume v: "v < ?d"
  have "length (nd_unary (node_at p m)) = pb_domain_capacity p" using sh len by (simp add: shape_ok_def)
  moreover have "?d \<le> pb_domain_capacity p" using wf o(1) by (simp add: pbqp_wf_def graph_ok_def)
  ultimately show "nd_unary (node_at q m) ! v = accel_cost_add (nd_unary (node_at p m) ! v) (?f v)"
    using v by (simp add: sel add_unaries_nth)
qed

lemma condition_edge_wf:
  assumes wf: "pbqp_wf p" and e: "e < pb_edge_capacity p" "incident (edge_at p e) n"
    and q: "q = condition_edge n c kind e p"
  shows "pbqp_wf q"
proof -
  note sel = condition_edge_sel[OF wf e refl q]
  have g: "graph_ok p" and o: "order_ok p" and fr: "condition_frame n p q" using wf sel(5) by (auto simp: pbqp_wf_def)
  have act: "eg_active (edge_at q h) \<Longrightarrow> edge_at q h = edge_at p h" for h
    using sel(3,4) by (cases "h = e") auto
  have "graph_ok q"
    unfolding graph_ok_def
  proof (intro conjI allI impI)
    fix h assume "h < pb_edge_capacity q" "eg_active (edge_at q h)"
    then have "h < pb_edge_capacity p" "eg_active (edge_at p h)" "edge_at q h = edge_at p h"
      using act[of h] fr by (auto simp: condition_frame_def)
    with wf_edge[OF wf this(1,2)] fr
    show "eg_first (edge_at q h) < pb_node_count q" "eg_second (edge_at q h) < pb_node_count q"
      "eg_first (edge_at q h) \<noteq> eg_second (edge_at q h)" "nd_active (node_at q (eg_first (edge_at q h)))"
      "nd_active (node_at q (eg_second (edge_at q h)))" by (simp_all add: condition_frame_def)
  next
    fix h k assume hk: "h < pb_edge_capacity q" "k < pb_edge_capacity q" "eg_active (edge_at q h)"
      "edge_joins (edge_at q k) (eg_first (edge_at q h)) (eg_second (edge_at q h))"
    then have "edge_at q h = edge_at p h" "edge_at q k = edge_at p k"
      using act[of h] act[of k] by (auto simp: edge_joins_def)
    then show "h = k" using hk g fr by (simp add: graph_ok_def condition_frame_def)
  qed (use g fr in \<open>auto simp: graph_ok_def condition_frame_def\<close>)
  moreover have "order_ok q" using o fr by (simp add: order_ok_def eliminated_def condition_frame_def)
  ultimately show ?thesis using sel(6) by (simp add: pbqp_wf_def)
qed

lemma condition_edge_bounded:
  assumes wf: "pbqp_wf p" and cb: "costs_bounded p" and c: "c < nd_domain (node_at p n)"
    and e: "e < pb_edge_capacity p" "incident (edge_at p e) n" and q: "q = condition_edge n c kind e p"
    and m: "m = OtherNode (edge_at p e) n"
  shows "costs_bounded q" and "\<And>v. v < nd_domain (node_at p m) \<Longrightarrow> cost_abs (nd_unary (node_at q m) ! v) =
    cost_abs (nd_unary (node_at p m) ! v) + cost_abs (edge_between (edge_at p e) n c v)"
proof -
  note sel = condition_edge_sel[OF wf e m q] and o = other_node[OF wf e, folded m]
  have fr: "condition_frame n p q" by (rule sel)
  obtain wo wn we where w: "weighted p wo wn we" using cb by (auto simp: costs_bounded_def)
  then have t: "tables_within p wo wn we" by (simp add: weighted_def)
  let ?wn = "wn(m := wn m + we e)" and ?we = "we(e := 0)"
  have sums: "sum ?wn {..<pb_node_count p} + sum ?we {..<pb_edge_capacity p} =
      sum wn {..<pb_node_count p} + sum we {..<pb_edge_capacity p}"
    using sum_fun_upd[OF o(1), of wn "wn m + we e"] sum_fun_upd[OF e(1), of we 0] by linarith
  have "?wn m \<le> sum ?wn {..<pb_node_count p}" using o(1) by (intro member_le_sum) auto
  then have fit: "wn m + we e \<le> pb_node_capacity p + pb_edge_capacity p"
    using sums w by (simp add: weighted_def)
  have add: "cost_abs (nd_unary (node_at q m) ! v) =
      cost_abs (nd_unary (node_at p m) ! v) + cost_abs (edge_between (edge_at p e) n c v)"
    "within p (wn m + we e) (nd_unary (node_at q m) ! v)" if "v < nd_domain (node_at p m)" for v
    using add_exact(2,3)[OF tables_withinD(2)[OF t o(1,2) that]
        edge_between_within[OF t e c that[unfolded m]] fit] sel(7)[OF that] by auto
  then show "\<And>v. v < nd_domain (node_at p m) \<Longrightarrow> cost_abs (nd_unary (node_at q m) ! v) =
    cost_abs (nd_unary (node_at p m) ! v) + cost_abs (edge_between (edge_at p e) n c v)" by blast
  have wi: "within q = within p" by (rule within_cong) (use fr in \<open>simp_all add: condition_frame_def\<close>)
  have "tables_within q wo ?wn ?we"
  proof (rule tables_withinI)
    fix k v assume "k < pb_node_count q" "nd_active (node_at q k)" "v < nd_domain (node_at q k)"
    then show "within q (?wn k) (nd_unary (node_at q k) ! v)"
      using tables_withinD(2)[OF t, of k v] add(2)[of v] sel(2)[of k] fr
      by (cases "k = m") (auto simp: wi condition_frame_def)
  next
    fix g a b assume g: "g < pb_edge_capacity q" "eg_active (edge_at q g)"
      "a < nd_domain (node_at q (eg_first (edge_at q g)))" "b < nd_domain (node_at q (eg_second (edge_at q g)))"
    then have "g \<noteq> e" using sel(3) by auto
    then show "within q (?we g) (edge_cost (edge_at q g) a b)"
      using g tables_withinD(3)[OF t, of g a b] sel(4)[of g] fr by (auto simp: wi condition_frame_def)
  qed (use tables_withinD(1)[OF t] fr in \<open>simp add: wi condition_frame_def\<close>)
  moreover have "wo + sum ?wn {..<pb_node_count q} + sum ?we {..<pb_edge_capacity q} \<le>
      pb_node_capacity q + pb_edge_capacity q"
    using w sums fr by (simp add: weighted_def condition_frame_def)
  ultimately show "costs_bounded q" unfolding costs_bounded_def weighted_def by blast
qed

text \<open>What \<open>condition_edge\<close> keeps and what it does to the graph.\<close>

definition conditioned :: "nat \<Rightarrow> nat \<Rightarrow> pbqp_problem \<Rightarrow> pbqp_problem \<Rightarrow> bool" where
  "conditioned n c p q \<longleftrightarrow> pbqp_wf q \<and> costs_bounded q \<and> condition_frame n p q \<and>
     (\<forall>x. valid_assignment p x \<longrightarrow> x ! n = c \<longrightarrow> total_cost q x = total_cost p x)"

lemma condition_edge_cost:
  assumes wf: "pbqp_wf p" and cb: "costs_bounded p" and c: "c < nd_domain (node_at p n)"
    and e: "e < pb_edge_capacity p" "incident (edge_at p e) n" and q: "q = condition_edge n c kind e p"
    and x: "valid_assignment p x" "x ! n = c"
  shows "total_cost q x = total_cost p x"
proof -
  define m where m: "m = OtherNode (edge_at p e) n"
  note sel = condition_edge_sel[OF wf e m q] and o = other_node[OF wf e, folded m]
  have fr: "condition_frame n p q" by (rule sel)
  have xm: "x ! m < nd_domain (node_at p m)" using x o by (simp add: valid_assignment_def)
  obtain r where r: "sum (node_term p x) {..<pb_node_count p} = node_term p x m + r"
    "sum (node_term q x) {..<pb_node_count p} = node_term q x m + r"
    using sum_change_one[OF o(1), of "node_term q x" "node_term p x"] sel(2) by (metis node_term_def)
  obtain s where s: "sum (edge_term p x) {..<pb_edge_capacity p} = edge_term p x e + s"
    "sum (edge_term q x) {..<pb_edge_capacity p} = edge_term q x e + s"
    using sum_change_one[OF e(1), of "edge_term q x" "edge_term p x"] sel(4) by (metis edge_term_def)
  have "node_term q x m = node_term p x m + cost_abs (edge_between (edge_at p e) n c (x ! m))"
    using condition_edge_bounded(2)[OF wf cb c e q m xm] o(2) fr by (simp add: node_term_def condition_frame_def)
  moreover have "edge_term q x e = 0" by (simp add: edge_term_def sel(3))
  moreover have "edge_term p x e = cost_abs (edge_between (edge_at p e) n c (x ! m))"
    using edge_term_between[OF e(2)] x m by simp
  ultimately show ?thesis
    using r s fr by (simp add: total_cost_def core_cost_def condition_frame_def ac_simps)
qed

lemma condition_edge_step:
  assumes wf: "pbqp_wf p" and cb: "costs_bounded p" and c: "c < nd_domain (node_at p n)"
    and e: "e < pb_edge_capacity p" and q: "q = condition_edge n c kind e p"
  shows "conditioned n c p q" and "\<not> incident (edge_at q e) n" and "\<And>g. g \<noteq> e \<Longrightarrow> edge_at q g = edge_at p g"
proof -
  have "conditioned n c p q \<and> \<not> incident (edge_at q e) n \<and> (\<forall>g. g \<noteq> e \<longrightarrow> edge_at q g = edge_at p g)"
  proof (cases "incident (edge_at p e) n")
    case False
    then show ?thesis using wf cb by (simp add: q condition_edge_def condition_frame_refl conditioned_def)
  next
    case True
    show ?thesis
      using condition_edge_wf[OF wf e True q] condition_edge_bounded(1)[OF wf cb c e True q refl]
        condition_edge_sel(3,4,5)[OF wf e True refl q] condition_edge_cost[OF wf cb c e True q]
      by (auto simp: conditioned_def incident_def)
  qed
  then show "conditioned n c p q" and "\<not> incident (edge_at q e) n" and "\<And>g. g \<noteq> e \<Longrightarrow> edge_at q g = edge_at p g"
    by blast+
qed

section \<open>The whole loop\<close>

lemma conditioned_refl: "pbqp_wf p \<Longrightarrow> costs_bounded p \<Longrightarrow> conditioned n c p p"
  by (simp add: conditioned_def condition_frame_refl)

lemma conditioned_trans:
  assumes "conditioned n c p q" and "conditioned n c q r"
  shows "conditioned n c p r"
proof -
  have "valid_assignment q x" if "valid_assignment p x" for x
    using that assms(1) by (simp add: conditioned_def condition_frame_def valid_assignment_def)
  then show ?thesis using assms condition_frame_trans by (auto simp: conditioned_def)
qed

lemma condition_edges:
  assumes wf: "pbqp_wf p" and cb: "costs_bounded p" and c: "c < nd_domain (node_at p n)" and j: "j \<le> pb_edge_capacity p"
    and q: "q = fold (condition_edge n c kind) [0..<j] p"
  shows "conditioned n c p q \<and> (\<forall>g < j. \<not> incident (edge_at q g) n) \<and> (\<forall>g \<ge> j. edge_at q g = edge_at p g)"
  using j q
proof (induction j arbitrary: q)
  case 0
  then show ?case using conditioned_refl[OF wf cb] by simp
next
  case (Suc j)
  let ?q = "fold (condition_edge n c kind) [0..<j] p"
  have IH: "conditioned n c p ?q" "\<And>g. g < j \<Longrightarrow> \<not> incident (edge_at ?q g) n" "\<And>g. g \<ge> j \<Longrightarrow> edge_at ?q g = edge_at p g"
    using Suc by auto
  have lt: "j < pb_edge_capacity ?q" and wfq: "pbqp_wf ?q" "costs_bounded ?q" "c < nd_domain (node_at ?q n)"
    using IH(1) Suc.prems c by (auto simp: conditioned_def condition_frame_def)
  have "q = condition_edge n c kind j ?q" using Suc.prems by simp
  note step = condition_edge_step[OF wfq lt this]
  show ?case using conditioned_trans[OF IH(1) step(1)] step(2,3) IH(2,3) by (metis le_Suc_eq less_Suc_eq Suc_leD nat_less_le)
qed

section \<open>Conditioning a node\<close>

lemma set_node_offset: "set_node m f (add_offset k p) = add_offset k (set_node m f p)"
  by (simp add: add_offset_def set_node_def)

lemma fold_set_node_offset:
  "fold (\<lambda>v. set_node m (F v)) vs (add_offset k p) = add_offset k (fold (\<lambda>v. set_node m (F v)) vs p)"
  by (induction vs arbitrary: p) (simp_all add: set_node_offset)

lemma add_offset_simps [simp]:
  "pb_nodes (add_offset k p) = pb_nodes p" "pb_edges (add_offset k p) = pb_edges p"
  "pb_statistics (add_offset k p) = pb_statistics p"
  by (simp_all add: add_offset_def)

lemma condition_edge_offset:
  "condition_edge n c kind e (add_offset k p) = add_offset k (condition_edge n c kind e p)"
  by (simp add: condition_edge_def Let_def fold_set_node_offset) (simp add: add_offset_def drop_edge_def set_edge_def)

lemma condition_edges_offset:
  "fold (condition_edge n c kind) es (add_offset k p) = add_offset k (fold (condition_edge n c kind) es p)"
  by (induction es arbitrary: p) (simp_all add: condition_edge_offset)

lemma condition_node_form:
  assumes "nd_active (node_at p n)" and "c < nd_domain (node_at p n)" and "pbqp_wf p" and "costs_bounded p"
    and "ConditionNode n c kind p = (status, p')"
  obtains q where "status = PBQP_OK" "p' = fix_problem kind n c q" "conditioned n c p q" "isolated q n"
proof -
  let ?p = "p\<lparr>pb_statistics := bump (Cd condition_count) 1 (pb_statistics p)\<rparr>"
  define q where "q = fold (condition_edge n c kind) [0..<pb_edge_capacity p] ?p"
  have q: "conditioned n c ?p q" "\<And>g. g < pb_edge_capacity p \<Longrightarrow> \<not> incident (edge_at q g) n"
    using condition_edges[of ?p c n "pb_edge_capacity p" q kind] assms by (auto simp: q_def)
  have "isolated q n" using q by (simp add: isolated_def conditioned_def condition_frame_def)
  moreover have c: "conditioned n c p q" using q(1) by (simp add: conditioned_def condition_frame_def)
  moreover have "nd_unary (node_at q n) = nd_unary (node_at p n)"
    using q(1) by (simp add: conditioned_def condition_frame_def)
  then have "p' = fix_problem kind n c q" "status = PBQP_OK"
    using assms(1,2,5) by (auto simp: ConditionNode_def Let_def condition_edges_offset fix_problem_def q_def)
  ultimately show ?thesis using that by blast
qed

lemma conditioned_frame: "conditioned n c p q \<Longrightarrow> elim_frame n q r \<Longrightarrow> elim_frame n p r"
  by (simp add: conditioned_def condition_frame_def elim_frame_def eliminated_def)

theorem condition_node_step:
  assumes wf: "pbqp_wf p" and cb: "costs_bounded p" and n: "n < pb_node_count p" "nd_active (node_at p n)"
    and c: "c < nd_domain (node_at p n)" and kind: "kind \<noteq> kReductionR1" "kind \<noteq> kReductionR2"
    and run: "ConditionNode n c kind p = (status, p')"
  shows "status = PBQP_OK" and "attained_step n p p'"
    and "\<And>x. valid_assignment p x \<Longrightarrow> x ! n = c \<Longrightarrow> total_cost p' x = total_cost p x"
    and "isolated p' n"
proof -
  obtain q where ok: "status = PBQP_OK" and p': "p' = fix_problem kind n c q" and q: "conditioned n c p q"
    and iso: "isolated q n"
    using condition_node_form[OF n(2) c wf cb run] by blast
  show "status = PBQP_OK" by (rule ok)
  have qwf: "pbqp_wf q" "costs_bounded q" "n < pb_node_count q" "nd_active (node_at q n)" "c < nd_domain (node_at q n)"
    and valid: "\<And>x. valid_assignment q x \<longleftrightarrow> valid_assignment p x"
    using q n c by (auto simp: conditioned_def condition_frame_def valid_assignment_def)
  have fr: "elim_frame n q p'" by (rule fix_frame(2)[OF qwf(1,3,4) iso p'])
  have cost: "total_cost q y = total_cost p' x" if "\<And>k. k \<noteq> n \<Longrightarrow> y ! k = x ! k" "y ! n = c" for x y
    using fix_cost[OF qwf(1-4) iso p' qwf(5) that(1)] that(2) by auto
  show "total_cost p' x = total_cost p x" if "valid_assignment p x" "x ! n = c" for x
    using cost[of x x] that q by (simp add: conditioned_def)
  show "isolated p' n"
    using iso fix_frame(3)[OF qwf(1,3,4) iso p'] fr by (simp add: isolated_def elim_frame_def)
  have "valid_assignment p (x[n := c]) \<and> total_cost p (x[n := c]) = total_cost p' x" if x: "valid_assignment p' x" for x
  proof -
    have len: "n < length x" using x fr qwf(3) by (simp add: valid_assignment_def elim_frame_def)
    have v: "valid_assignment p (x[n := c])"
      unfolding valid[symmetric] using x qwf(5) len by (auto simp: valid_assignment_def frame_same[OF fr] nth_list_update)
    have "total_cost q (x[n := c]) = total_cost p' x" using cost[of "x[n := c]" x] len by simp
    then show ?thesis using v len q by (simp add: conditioned_def)
  qed
  then show "attained_step n p p'"
    using fix_frame(1,6)[OF qwf(1,3,4) iso p'] fix_bounded(1)[OF qwf(1-4) iso p' qwf(5)]
      conditioned_frame[OF q fr] kind by (simp add: attained_step_def)
qed

end
