(* ===== verification/Pbqp_Reduce_Correct.thy ===== *)
theory Pbqp_Reduce_Correct
  imports Pbqp_Condition
begin

text \<open>
  The reductions as the solver runs them: a successful \<open>ReduceR0\<close>, \<open>ReduceR1\<close> or \<open>ReduceR2\<close> is an exact
  elimination step, with any kernel that keeps the contract \<open>cost_kernel\<close>. Statistics, trace events,
  workspace requests and the kernel's context do not touch the graph.
\<close>

section \<open>Solver state and graph\<close>

definition same_graph :: "pbqp_problem \<Rightarrow> pbqp_problem \<Rightarrow> bool" where
  "same_graph p q \<longleftrightarrow> (\<exists>s. q = p\<lparr>pb_statistics := s\<rparr>)"

lemma same_graph_refl [simp]: "same_graph p p"
  unfolding same_graph_def by (rule exI[of _ "pb_statistics p"]) simp

lemma same_graph_trans: "same_graph p q \<Longrightarrow> same_graph q r \<Longrightarrow> same_graph p r"
  by (auto simp: same_graph_def)

lemma same_graph_statistics [simp]: "same_graph p (p\<lparr>pb_statistics := s\<rparr>)"
  by (auto simp: same_graph_def)

lemma with_statistics_graph: "same_graph (ss_problem st) (ss_problem (with_statistics f st))"
  by (simp add: with_statistics_def set_problem_def)

lemma emit_problem [simp]: "ss_problem (Emit sv ty ph n c w st) = ss_problem st"
  by (simp add: Emit_def Let_def)

lemma set_problem_problem [simp]: "ss_problem (set_problem p st) = p"
  by (simp add: set_problem_def)

lemma workspace_problem: "workspace sv counts st = (ok, st') \<Longrightarrow> ss_problem st' = ss_problem st"
  by (auto simp: workspace_def split: if_splits prod.splits)

lemma on_kernel_graph: "on_kernel call st = (r, st') \<Longrightarrow> same_graph (ss_problem st) (ss_problem st')"
  by (auto simp: on_kernel_def same_graph_def split: prod.splits)

lemma on_kernel_call:
  "on_kernel call st = (r, st') \<Longrightarrow> \<exists>ks ks'. call ks = (r, ks')"
  by (auto simp: on_kernel_def split: prod.splits)

text \<open>The step relations look at the graph only.\<close>

lemma elim_frame_statistics [simp]:
  "elim_frame n (p\<lparr>pb_statistics := s\<rparr>) p' = elim_frame n p p'"
  "elim_frame n p (p'\<lparr>pb_statistics := s\<rparr>) = elim_frame n p p'"
  by (simp_all add: elim_frame_def)

lemma reconstruct_node_statistics [simp]:
  "reconstruct_node (p\<lparr>pb_statistics := s\<rparr>) n x = reconstruct_node p n x"
  by (simp add: reconstruct_node_def Let_def split: reduction_kind.split)

lemma step_statistics [simp]:
  "attained_step n (p\<lparr>pb_statistics := s\<rparr>) p' = attained_step n p p'"
  "attained_step n p (p'\<lparr>pb_statistics := s\<rparr>) = attained_step n p p'"
  "exact_step n (p\<lparr>pb_statistics := s\<rparr>) p' = exact_step n p p'"
  "exact_step n p (p'\<lparr>pb_statistics := s\<rparr>) = exact_step n p p'"
  by (simp_all add: attained_step_def exact_step_def)

lemma isolated_statistics [simp]: "isolated (p\<lparr>pb_statistics := s\<rparr>) n = isolated p n"
  by (simp add: isolated_def)

lemma exact_step_same:
  "same_graph p q \<Longrightarrow> exact_step n q r \<Longrightarrow> same_graph r r' \<Longrightarrow> exact_step n p r'"
  by (auto simp: same_graph_def)

section \<open>Degrees\<close>

definition incident_edges :: "pbqp_problem \<Rightarrow> nat \<Rightarrow> nat list" where
  "incident_edges p n = filter (\<lambda>e. incident (edge_at p e) n) [0..<pb_edge_capacity p]"

lemma neighbor_fold:
  "fold (\<lambda>e (count, indices). if \<not> P e then (count, indices)
       else (count + 1, if count < 2 then indices[count := e] else indices)) xs (0, [a, b]) =
   (length (filter P xs), take 2 (filter P xs) @ drop (length (filter P xs)) [a, b])"
proof (induction xs rule: rev_induct)
  case (snoc x xs)
  consider "filter P xs = []" | u where "filter P xs = [u]" | u v ws where "filter P xs = u # v # ws"
    by (metis neq_Nil_conv)
  then show ?case
    using snoc by cases (auto simp: numeral_2_eq_2)
qed simp

lemma neighbor_fold_nil:
  "fst (fold (\<lambda>e (count, indices). if \<not> P e then (count, indices)
       else (count + 1, if count < 2 then indices[count := e] else indices)) xs (k, l)) = k + length (filter P xs)"
  by (induction xs arbitrary: k l) auto

lemma neighbor_count:
  "NeighborCount p n [a, b] = (length (incident_edges p n),
     take 2 (incident_edges p n) @ drop (length (incident_edges p n)) [a, b])"
  unfolding NeighborCount_def incident_edges_def by (rule neighbor_fold)

lemma degree_of_eq [simp]: "degree_of p n = length (incident_edges p n)"
  unfolding NeighborCount_def incident_edges_def by (simp add: neighbor_fold_nil)

lemma incident_edges_set: "e \<in> set (incident_edges p n) \<longleftrightarrow> e < pb_edge_capacity p \<and> incident (edge_at p e) n"
  by (auto simp: incident_edges_def)

lemma incident_edges_nil: "incident_edges p n = [] \<longleftrightarrow> isolated p n"
  by (auto simp: incident_edges_def isolated_def filter_empty_conv)

lemma incident_edges_distinct: "distinct (incident_edges p n)"
  by (simp add: incident_edges_def)

lemma reducible_node:
  assumes "FindReducibleNode p = Some n"
  shows "n < pb_node_count p" and "nd_active (node_at p n)" and "length (incident_edges p n) \<le> 2"
  using first_index_some[OF assms[unfolded FindReducibleNode_def]] by simp_all

section \<open>R0\<close>

lemma reduce_r0_exact:
  assumes "pbqp_wf p" and "costs_bounded p" and "n < pb_node_count p" "nd_active (node_at p n)"
    and "isolated p n" and "ss_problem st = p" and run: "ReduceR0 sv n st = (status, st')"
  shows "status = PBQP_OK" and "exact_step n p (ss_problem st')"
proof -
  let ?us = "map (\<lambda>v. nd_unary (node_at p n) ! v) [0..<nd_domain (node_at p n)]"
  have d: "0 < nd_domain (node_at p n)" using assms by (simp add: pbqp_wf_def graph_ok_def)
  have "fold (\<lambda>v. min_step v (nd_unary (node_at p n) ! v)) [0..<nd_domain (node_at p n)] (ACCEL_INF, 0) = first_min ?us"
  proof -
    have "fold (\<lambda>v. min_step v (nd_unary (node_at p n) ! v)) [0..<nd_domain (node_at p n)] (ACCEL_INF, 0) =
        fold (\<lambda>v. min_step v (?us ! v)) [0..<length ?us] (ACCEL_INF, 0)" by (intro fold_cong) auto
    then show ?thesis using min_step_fold[of ?us] d by simp
  qed
  moreover have "fst (first_min ?us) = nd_unary (node_at p n) ! r0_choice n p"
    using first_min_upt(2)[OF d, of "\<lambda>v. nd_unary (node_at p n) ! v"] by (simp add: r0_choice_def)
  ultimately have "status = PBQP_OK \<and> same_graph (fix_problem kReductionR0 n (r0_choice n p) p) (ss_problem st')"
    using run assms(6) by (auto simp: ReduceR0_def Let_def split_beta fix_problem_def r0_choice_def with_statistics_def)
  then show "status = PBQP_OK" and "exact_step n p (ss_problem st')"
    using exact_step_same[OF same_graph_refl r0_exact[OF assms(1-5)]] by auto
qed

section \<open>R1\<close>

lemma set_node_reconstruction:
  "set_node m f (set_reconstruction n i c p) = set_reconstruction n i c (set_node m f p)"
  by (simp add: set_node_def set_reconstruction_def)

lemma fold_set_reconstruction:
  assumes "n < length (pb_reconstruction p)"
  shows "fold (\<lambda>x. set_reconstruction n (g x) (h x)) xs p =
    p\<lparr>pb_reconstruction := (pb_reconstruction p)[n := fold (\<lambda>x r. r[g x := h x]) xs (pb_reconstruction p ! n)]\<rparr>"
  using assms
proof (induction xs arbitrary: p)
  case Nil
  then show ?case by simp
next
  case (Cons x xs)
  let ?p = "set_reconstruction n (g x) (h x) p"
  have "n < length (pb_reconstruction ?p)" using Cons.prems by (simp add: set_reconstruction_def)
  then show ?case using Cons.IH[of ?p] Cons.prems by (simp add: set_reconstruction_def)
qed

lemma fold_reconstruction_commute:
  "fold (\<lambda>x. set_reconstruction n (g x) (h x)) xs (set_node m f p) =
   set_node m f (fold (\<lambda>x. set_reconstruction n (g x) (h x)) xs p)"
  by (induction xs arbitrary: p) (simp_all add: set_node_reconstruction[symmetric])

lemma r1_apply_fold:
  assumes "\<And>v. v \<in> set vs \<Longrightarrow> snd (rs ! v) < nd_domain (node_at p n)" and "m \<noteq> n"
  shows "r1_apply n m rs vs p = (True, fold (\<lambda>v. set_node m (add_unary v (fst (rs ! v)))) vs
    (fold (\<lambda>v. set_reconstruction n v (snd (rs ! v))) vs p))"
  using assms(1)
proof (induction vs arbitrary: p)
  case (Cons v vs)
  have "nd_domain (node_at (set_reconstruction n v c (set_node m f p)) n) = nd_domain (node_at p n)" for f c
    using assms(2) by (simp add: set_reconstruction_def set_node_def)
  moreover have "snd (rs ! v) < nd_domain (node_at p n)" using Cons.prems by simp
  ultimately show ?case
    using Cons by (cases "rs ! v") (simp add: set_node_reconstruction[symmetric] fold_reconstruction_commute)
qed simp

definition r1_problem :: "nat \<Rightarrow> nat \<Rightarrow> (nat \<Rightarrow> int \<times> nat) \<Rightarrow> pbqp_problem \<Rightarrow> pbqp_problem" where
  "r1_problem n e best p =
     (let m = OtherNode (edge_at p e) n; d = nd_domain (node_at p m);
          row = fold (\<lambda>v r. r[v := snd (best v)]) [0..<d] (pb_reconstruction p ! n)
      in eliminate kReductionR1 n (set_node n (\<lambda>node. node\<lparr>nd_first_neighbor := m\<rparr>) (drop_edge e
           (set_node m (add_unaries (\<lambda>v. fst (best v)) d)
             (p\<lparr>pb_reconstruction := (pb_reconstruction p)[n := row]\<rparr>)))))"

lemma r1_problem_sel:
  assumes sh: "shape_ok p" and n: "n < pb_node_count p" and m: "m = OtherNode (edge_at p e) n" "m < pb_node_count p" "m \<noteq> n"
    and e: "e < pb_edge_capacity p" and q: "q = r1_problem n e best p"
  shows "node_at q n = (node_at p n)\<lparr>nd_first_neighbor := m, nd_reduction_kind := kReductionR1, nd_active := False\<rparr>"
    and "node_at q m = add_unaries (\<lambda>v. fst (best v)) (nd_domain (node_at p m)) (node_at p m)"
    and "\<And>k. k \<noteq> n \<Longrightarrow> k \<noteq> m \<Longrightarrow> node_at q k = node_at p k"
    and "edge_at q e = (edge_at p e)\<lparr>eg_active := False\<rparr>" and "\<And>g. g \<noteq> e \<Longrightarrow> edge_at q g = edge_at p g"
    and "pb_reconstruction q = (pb_reconstruction p)[n :=
      fold (\<lambda>v r. r[v := snd (best v)]) [0..<nd_domain (node_at p m)] (pb_reconstruction p ! n)]"
    and "pb_elimination_order q = (pb_elimination_order p)[pb_elimination_count p := n]"
    and "pb_elimination_count q = pb_elimination_count p + 1"
    and "length (pb_nodes q) = length (pb_nodes p)" "length (pb_edges q) = length (pb_edges p)"
    and "pb_node_capacity q = pb_node_capacity p" "pb_edge_capacity q = pb_edge_capacity p"
    "pb_domain_capacity q = pb_domain_capacity p" "pb_node_count q = pb_node_count p"
    "pb_allocator q = pb_allocator p" "pb_storage q = pb_storage p" "pb_objective_offset q = pb_objective_offset p"
proof -
  have len: "n < length (pb_nodes p)" "m < length (pb_nodes p)" "e < length (pb_edges p)"
    using sh n m e by (auto simp: shape_ok_def)
  note defs = q r1_problem_def Let_def m(1)[symmetric] eliminate_def set_node_def drop_edge_def set_edge_def
  show "node_at q n = (node_at p n)\<lparr>nd_first_neighbor := m, nd_reduction_kind := kReductionR1, nd_active := False\<rparr>"
    "node_at q m = add_unaries (\<lambda>v. fst (best v)) (nd_domain (node_at p m)) (node_at p m)"
    "edge_at q e = (edge_at p e)\<lparr>eg_active := False\<rparr>"
    using len m(3) by (simp_all add: defs)
  show "\<And>k. k \<noteq> n \<Longrightarrow> k \<noteq> m \<Longrightarrow> node_at q k = node_at p k" "\<And>g. g \<noteq> e \<Longrightarrow> edge_at q g = edge_at p g"
    by (simp_all add: defs)
qed (simp_all add: q r1_problem_def Let_def m(1)[symmetric] eliminate_def set_node_def drop_edge_def set_edge_def)

lemma length_fold_set [simp]: "length (fold (\<lambda>x r. r[g x := h x]) xs r) = length r"
  by (induction xs arbitrary: r) auto

lemma fold_set_range: "v < d \<Longrightarrow> v < length r \<Longrightarrow> fold (\<lambda>v r. r[v := h v]) [0..<d] r ! v = h v"
  using fold_update_range[where h = "\<lambda>v _. h v"] by simp

lemma r1_problem_update:
  assumes wf: "pbqp_wf p" and n: "n < pb_node_count p" "nd_active (node_at p n)"
    and e: "e < pb_edge_capacity p" "incident (edge_at p e) n"
    and only: "\<And>f. f < pb_edge_capacity p \<Longrightarrow> incident (edge_at p f) n \<Longrightarrow> f = e"
    and best: "\<And>v. v < nd_domain (node_at p (OtherNode (edge_at p e) n)) \<Longrightarrow> best v = r1_best p n e v"
  shows "r1_update n e p (r1_problem n e best p)"
proof -
  define m where m: "m = OtherNode (edge_at p e) n"
  define q where q: "q = r1_problem n e best p"
  have sh: "shape_ok p" and g: "graph_ok p" using wf by (auto simp: pbqp_wf_def)
  note o = other_node[OF wf e, folded m]
  note sel = r1_problem_sel[OF sh n(1) m o(1,3) e(1) q]
  have cap: "n < pb_node_capacity p" "m < pb_node_capacity p" using sh n(1) o(1) by (auto simp: shape_ok_def)
  have dm: "nd_domain (node_at p m) \<le> pb_domain_capacity p" using g o(1) by (simp add: graph_ok_def)
  have dc: "pb_domain_capacity p \<le> pb_domain_capacity p * pb_domain_capacity p" using sh by (simp add: shape_ok_def)
  have node: "nd_domain (node_at q k) = nd_domain (node_at p k) \<and> nd_active (node_at q k) = (nd_active (node_at p k) \<and> k \<noteq> n) \<and>
      nd_second_neighbor (node_at q k) = nd_second_neighbor (node_at p k) \<and>
      length (nd_unary (node_at q k)) = length (nd_unary (node_at p k))" for k
    using sel(1-3) o(3) by (cases "k = n"; cases "k = m") auto
  have keep: "nd_reduction_kind (node_at q k) = nd_reduction_kind (node_at p k) \<and>
      nd_first_neighbor (node_at q k) = nd_first_neighbor (node_at p k)" if "k \<noteq> n" for k
    using that sel(2,3) by (cases "k = m") auto
  have edge: "eg_first (edge_at q h) = eg_first (edge_at p h) \<and> eg_second (edge_at q h) = eg_second (edge_at p h) \<and>
      eg_active (edge_at q h) = (eg_active (edge_at p h) \<and> h \<noteq> e) \<and>
      eg_stride (edge_at q h) = eg_stride (edge_at p h) \<and> eg_cost (edge_at q h) = eg_cost (edge_at p h)" for h
    using sel(4,5) by (cases "h = e") auto
  have "shape_ok q" using sh cap by (auto simp: shape_ok_def sel node edge nth_list_update)
  then have up: "elim_update n p q"
    using g only by (auto simp: elim_update_def sel node edge graph_ok_def incident_def)
  have "elim_frame n p q"
    using eliminated_snoc(1)[OF wf n up] n keep by (auto simp: elim_frame_def sel(6-) node)
  moreover have "nd_unary (node_at q m) ! v = accel_cost_add (nd_unary (node_at p m) ! v) (fst (r1_best p n e v))"
    if "v < nd_domain (node_at p m)" for v
    using that best[folded m, OF that] dm sh cap by (simp add: sel(2) add_unaries_nth shape_ok_def)
  moreover have "reconstruct_node q n x = x[n := snd (r1_best p n e (x ! m))]" if "x ! m < nd_domain (node_at p m)" for x
  proof -
    have "x ! m < pb_domain_capacity p * pb_domain_capacity p" using that dm dc by linarith
    then have "x ! m < length (pb_reconstruction p ! n)" using sh cap by (simp add: shape_ok_def)
    then show ?thesis
      using that best[folded m, OF that] sh cap
      by (simp add: reconstruct_node_def sel(1,6) fold_set_range shape_ok_def)
  qed
  ultimately show ?thesis
    using up sel(3-5) by (auto simp: r1_update_def Let_def m[symmetric] q[symmetric] sel(17))
qed

lemma r1_best_sum:
  "first_min (sum2 (whole_view (nd_unary (node_at p n)) (nd_domain (node_at p n)))
     (EdgeView (edge_at p e) n v (nd_domain (node_at p n)))) = r1_best p n e v"
  by (simp add: sum2_def r1_best_def edge_views) (simp add: whole_view_def view_at_def)

lemma r1_jobs_exact:
  assumes wf: "pbqp_wf p" and cb: "costs_bounded p" and n: "n < pb_node_count p" "nd_active (node_at p n)"
    and e: "e < pb_edge_capacity p" "incident (edge_at p e) n"
    and v: "v < nd_domain (node_at p (OtherNode (edge_at p e) n))"
  shows "exact2 (whole_view (nd_unary (node_at p n)) (nd_domain (node_at p n)))
    (EdgeView (edge_at p e) n v (nd_domain (node_at p n)))"
proof -
  obtain wo wn we where w: "weighted p wo wn we" using cb by (auto simp: costs_bounded_def)
  have "wn n \<le> sum wn {..<pb_node_count p}" "we e \<le> sum we {..<pb_edge_capacity p}"
    using n e by (auto intro: member_le_sum)
  then have fit: "wn n + we e \<le> pb_node_capacity p + pb_edge_capacity p" using w by (simp add: weighted_def)
  have t: "tables_within p wo wn we" using w by (simp add: weighted_def)
  have "valid_cost (nd_unary (node_at p n) ! i) \<and> valid_cost (edge_between (edge_at p e) n i v) \<and>
      cost_add (nd_unary (node_at p n) ! i) (edge_between (edge_at p e) n i v) \<noteq> None" if "i < nd_domain (node_at p n)" for i
    using add_exact(1)[OF tables_withinD(2)[OF t n that] edge_between_within[OF t e that v] fit]
      within_valid[OF tables_withinD(2)[OF t n that]] within_valid[OF edge_between_within[OF t e that v]] fit by simp
  moreover have "0 < nd_domain (node_at p n)" using wf n by (simp add: pbqp_wf_def graph_ok_def)
  ultimately show ?thesis
    by (simp add: exact2_def edge_views) (simp add: whole_view_def view_at_def EdgeView_def)
qed

text \<open>What \<open>r1_apply\<close> and the tail of \<open>ReduceR1\<close> do to the graph when the results are the minima.\<close>

lemma r1_apply_problem:
  assumes wf: "pbqp_wf p" and n: "n < pb_node_count p" and m: "m = OtherNode (edge_at p e) n" "m < pb_node_count p" "m \<noteq> n"
    and rs: "\<And>v. v < nd_domain (node_at p m) \<Longrightarrow> rs ! v = best v \<and> snd (best v) < nd_domain (node_at p n)"
    and run: "r1_apply n m rs [0..<nd_domain (node_at p m)] p = (ok, p')"
  shows "ok" and "eliminate kReductionR1 n (set_node n (\<lambda>node. node\<lparr>nd_first_neighbor := m\<rparr>) (drop_edge e p')) =
    r1_problem n e best p"
proof -
  let ?d = "nd_domain (node_at p m)"
  have len: "n < length (pb_reconstruction p)" "m < length (pb_nodes p)"
    using wf n m(2) by (auto simp: pbqp_wf_def shape_ok_def)
  have row: "fold (\<lambda>v r. r[v := snd (rs ! v)]) [0..<?d] r = fold (\<lambda>v r. r[v := snd (best v)]) [0..<?d] r" for r
    using rs by (intro fold_cong) auto
  have "fold (\<lambda>v u. u[v := accel_cost_add (u ! v) (fst (rs ! v))]) [0..<?d] u =
      fold (\<lambda>v u. u[v := accel_cost_add (u ! v) (fst (best v))]) [0..<?d] u" for u
    using rs by (intro fold_cong) auto
  then have una: "add_unaries (\<lambda>v. fst (rs ! v)) ?d = add_unaries (\<lambda>v. fst (best v)) ?d"
    by (intro ext) (simp add: add_unaries_def)
  have "r1_apply n m rs [0..<?d] p = (True, fold (\<lambda>v. set_node m (add_unary v (fst (rs ! v)))) [0..<?d]
      (fold (\<lambda>v. set_reconstruction n v (snd (rs ! v))) [0..<?d] p))"
    using rs m(3) by (intro r1_apply_fold) auto
  then show "ok" and "eliminate kReductionR1 n (set_node n (\<lambda>node. node\<lparr>nd_first_neighbor := m\<rparr>) (drop_edge e p')) =
    r1_problem n e best p"
    using run len by (simp_all add: fold_set_reconstruction add_unaries_fold row r1_problem_def Let_def m(1)[symmetric] una)
qed

lemma reduce_r1_run:
  assumes run: "ReduceR1 sv n e st = (PBQP_OK, st')" and p: "p = ss_problem st" and m: "m = OtherNode (edge_at p e) n"
    and d: "d = nd_domain (node_at p n)" and dm: "dm = nd_domain (node_at p m)"
  obtains ks ks' rs s p' where
    "Min2Batch (sv_api sv) (map (\<lambda>v. (whole_view (nd_unary (node_at p n)) d, EdgeView (edge_at p e) n v d)) [0..<dm]) ks =
      (Inr rs, ks')"
    and "r1_apply n m rs [0..<dm] (p\<lparr>pb_statistics := s\<rparr>) = (True, p')"
    and "same_graph (eliminate kReductionR1 n (set_node n (\<lambda>node. node\<lparr>nd_first_neighbor := m\<rparr>) (drop_edge e p')))
      (ss_problem st')"
proof -
  note abbr = p[symmetric] m[symmetric] d[symmetric] dm[symmetric]
  obtain ok st1 where ws: "workspace sv [dm, dm] st = (ok, st1)" by fastforce
  let ?st2 = "with_statistics (fold (record_r1_job (edge_at p e) n d) [0..<dm]) st1"
  obtain r st3 where call: "on_kernel (Min2Batch (sv_api sv)
      (map (\<lambda>v. (whole_view (nd_unary (node_at p n)) d, EdgeView (edge_at p e) n v d)) [0..<dm])) ?st2 = (r, st3)" by fastforce
  note run' = run[unfolded ReduceR1_def Let_def abbr ws prod.case call]
  have ok: "ok" using run' by (auto split: if_splits)
  obtain rs where r: "r = Inr rs" using run' ok by (cases r) auto
  obtain b p' where ap: "r1_apply n m rs [0..<dm] (ss_problem st3) = (b, p')" by fastforce
  have b: "b" using run' ok by (cases b) (auto simp: r ap)
  have "same_graph p (ss_problem st3)"
    using same_graph_trans[OF with_statistics_graph on_kernel_graph[OF call]] workspace_problem[OF ws] by (simp add: p)
  then obtain s where "ss_problem st3 = p\<lparr>pb_statistics := s\<rparr>" by (auto simp: same_graph_def)
  moreover have "same_graph (eliminate kReductionR1 n (set_node n (\<lambda>node. node\<lparr>nd_first_neighbor := m\<rparr>)
      (drop_edge e p'))) (ss_problem st')"
    using run' ok b by (auto simp: r ap with_statistics_def)
  moreover obtain ks ks' where "Min2Batch (sv_api sv)
      (map (\<lambda>v. (whole_view (nd_unary (node_at p n)) d, EdgeView (edge_at p e) n v d)) [0..<dm]) ks = (Inr rs, ks')"
    using on_kernel_call[OF call] r by blast
  ultimately show ?thesis using that[of ks rs ks' s p'] ap b by simp
qed

context cost_kernel
begin

lemma reduce_r1_exact:
  assumes wf: "pbqp_wf (ss_problem st)" and cb: "costs_bounded (ss_problem st)"
    and n: "n < pb_node_count (ss_problem st)" "nd_active (node_at (ss_problem st) n)"
    and e: "incident_edges (ss_problem st) n = [e]"
    and api: "sv_api sv = api" and run: "ReduceR1 sv n e st = (PBQP_OK, st')"
  shows "exact_step n (ss_problem st) (ss_problem st')"
proof -
  define p where "p = ss_problem st"
  define m where m: "m = OtherNode (edge_at p e) n"
  have e': "e < pb_edge_capacity p" "incident (edge_at p e) n"
    and only: "\<And>f. f < pb_edge_capacity p \<Longrightarrow> incident (edge_at p f) n \<Longrightarrow> f = e"
    using e incident_edges_set[of _ p n] by (auto simp: p_def)
  note wf' = wf[folded p_def] and cb' = cb[folded p_def] and n' = n[folded p_def]
  note o = other_node[OF wf' e', folded m]
  let ?d = "nd_domain (node_at p n)" and ?dm = "nd_domain (node_at p m)"
  let ?jobs = "map (\<lambda>v. (whole_view (nd_unary (node_at p n)) ?d, EdgeView (edge_at p e) n v ?d)) [0..<?dm]"
  obtain ks ks' rs s p' where call: "Min2Batch api ?jobs ks = (Inr rs, ks')"
    and ap: "r1_apply n m rs [0..<?dm] (p\<lparr>pb_statistics := s\<rparr>) = (True, p')"
    and st': "same_graph (eliminate kReductionR1 n (set_node n (\<lambda>node. node\<lparr>nd_first_neighbor := m\<rparr>) (drop_edge e p')))
      (ss_problem st')"
    by (rule reduce_r1_run[OF run p_def m refl refl, unfolded api])
  let ?q = "p\<lparr>pb_statistics := s\<rparr>"
  have "rs = map (\<lambda>(a, b). first_min (sum2 a b)) ?jobs"
    by (rule Min2Batch_correct[OF _ call]) (use r1_jobs_exact[OF wf' cb' n' e'] m in auto)
  then have rs: "rs ! v = r1_best ?q n e v" if "v < ?dm" for v using that by (simp add: r1_best_sum) (simp add: r1_best_def)
  obtain wo wn we where w: "weighted p wo wn we" using cb' by (auto simp: costs_bounded_def)
  have "snd (r1_best ?q n e v) < ?d" if "v < ?dm" for v
    using r1_best_props(1)[OF wf' w n' e', folded m, OF that] by (simp add: r1_best_def)
  then have "same_graph (r1_problem n e (r1_best ?q n e) ?q) (ss_problem st')"
    using r1_apply_problem(2)[of ?q n m e rs "r1_best ?q n e" True p'] ap wf' n'(1) m o(1,3) rs st' by simp
  moreover have q: "pbqp_wf ?q" "costs_bounded ?q" "n < pb_node_count ?q" "nd_active (node_at ?q n)"
    "e < pb_edge_capacity ?q" "incident (edge_at ?q e) n" using wf' cb' n' e' by simp_all
  have "f = e" if "f < pb_edge_capacity ?q" "incident (edge_at ?q f) n" for f using that by (intro only) simp_all
  from r1_exact[OF q(1,2,5,6) this r1_problem_update[OF q(1,3-6) this refl]]
  have "exact_step n ?q (r1_problem n e (r1_best ?q n e) ?q)" .
  ultimately show ?thesis unfolding p_def[symmetric] by (rule exact_step_same[OF same_graph_statistics, rotated])
qed

end

end
