(* ===== verification/Pbqp_R2_Correct.thy ===== *)
theory Pbqp_R2_Correct
  imports Pbqp_Reduce_Correct
begin

text \<open>
  \<open>ReduceR2\<close>, on both of its paths (one projection per value of the first neighbour, or one scalar
  reduction per pair), and the step of the reduction loop that selects between R0, R1 and R2.
\<close>

section \<open>R2\<close>

subsection \<open>Indices of pairs\<close>

lemma product_index:
  assumes "a < m" and "b < n"
  shows "a * n + b < length (List.product [0..<m] [0..<n])" and "List.product [0..<m] [0..<n] ! (a * n + b) = (a, b)"
proof -
  have "a * n + b < Suc a * n" using assms by simp
  also have "\<dots> \<le> m * n" using assms by (intro mult_le_mono1) simp
  finally have lt: "a * n + b < m * n" .
  then show "a * n + b < length (List.product [0..<m] [0..<n])" by simp
  then show "List.product [0..<m] [0..<n] ! (a * n + b) = (a, b)"
    using assms lt by (subst product_nth) (simp_all add: div_add1_eq)
qed

lemma product_rows:
  "concat (map (\<lambda>a. map (g a) [0..<n]) [0..<m]) = map (\<lambda>(a, b). g a b) (List.product [0..<m] [0..<n])"
  by (simp add: product_concat_map map_concat comp_def)

lemma pair_index_less: "a < k \<Longrightarrow> b < k \<Longrightarrow> a * k + b < k * (k::nat)"
  using product_index(1)[of a k b k] by simp

lemma pair_index_inject:
  "b < k \<Longrightarrow> b' < k \<Longrightarrow> a * k + b = a' * k + (b'::nat) \<longleftrightarrow> a = a' \<and> b = b'"
proof -
  assume "b < k" "b' < k"
  then have "(a * k + b) div k = a" "(a' * k + b') div k = a'" "(a * k + b) mod k = b" "(a' * k + b') mod k = b'"
    by (simp_all add: div_add1_eq)
  then show ?thesis by metis
qed

lemma fold_set_pairs:
  assumes "a < m" and "b < n" and "m * n \<le> length r"
  shows "fold (\<lambda>(a, b) r. r[a * n + b := h a b]) (List.product [0..<m] [0..<n]) r ! (a * n + b) = h a b"
proof -
  have inj: "inj_on (\<lambda>(a, b). a * n + b) (set (List.product [0..<m] [0..<n]))"
    by (auto simp: inj_on_def pair_index_inject)
  have "a * n + b < length r" using product_index(1)[OF assms(1,2)] assms(3) by simp
  then show ?thesis
    using fold_update_hit[OF _ inj, of "(a, b)" r "\<lambda>(a, b) _. h a b"] assms
    by (simp add: distinct_product split_beta')
qed

subsection \<open>The fill edge\<close>

lemma edge_between_fill:
  assumes "edge_joins edge m1 m2" and "m1 \<noteq> m2"
  shows "edge_between edge m1 a b = eg_cost edge ! fill_index edge m1 m2 a b"
  using assms by (auto simp: edge_joins_def edge_between_def fill_index_def edge_cost_def)

lemma fill_index_less:
  "a < eg_stride edge \<Longrightarrow> b < eg_stride edge \<Longrightarrow> fill_index edge m1 m2 a b < eg_stride edge * eg_stride edge"
  by (simp add: fill_index_def pair_index_less)

lemma fill_index_inject:
  assumes "edge_joins edge m1 m2" and "m1 \<noteq> m2" and "a < eg_stride edge" "b < eg_stride edge" "c < eg_stride edge" "d < eg_stride edge"
  shows "fill_index edge m1 m2 a b = fill_index edge m1 m2 c d \<longleftrightarrow> a = c \<and> b = d"
  using assms by (auto simp: fill_index_def pair_index_inject edge_joins_def)

definition add_pairs :: "(nat \<times> nat) list \<Rightarrow> (nat \<Rightarrow> nat \<Rightarrow> nat) \<Rightarrow> (nat \<Rightarrow> nat \<Rightarrow> int) \<Rightarrow> int list \<Rightarrow> int list" where
  "add_pairs ps ix f cost = fold (\<lambda>(a, b) c. c[ix a b := accel_cost_add (c ! ix a b) (f a b)]) ps cost"

lemma length_add_pairs [simp]: "length (add_pairs ps ix f cost) = length cost"
  unfolding add_pairs_def by (induction ps arbitrary: cost) (auto split: prod.splits)

lemma add_pairs_nth:
  assumes "distinct ps" and "inj_on (\<lambda>(a, b). ix a b) (set ps)" and "(a, b) \<in> set ps" and "ix a b < length cost"
  shows "add_pairs ps ix f cost ! ix a b = accel_cost_add (cost ! ix a b) (f a b)"
  using fold_update_hit[OF assms(1,2,3), of cost "\<lambda>(a, b) c. accel_cost_add c (f a b)"] assms(4)
  by (simp add: add_pairs_def split_beta')

lemma set_edge_reconstruction:
  "set_edge f F (set_reconstruction n i c p) = set_reconstruction n i c (set_edge f F p)"
  by (simp add: set_edge_def set_reconstruction_def)

lemma r2_apply_fold:
  assumes "\<And>a b. (a, b) \<in> set ps \<Longrightarrow> snd (rs ! (a * sd + b)) < nd_domain (node_at p n)" and "f < length (pb_edges p)"
  shows "r2_apply n m1 m2 sd f rs ps p = (True, set_edge f (\<lambda>edge. edge\<lparr>eg_cost :=
      add_pairs ps (fill_index (edge_at p f) m1 m2) (\<lambda>a b. fst (rs ! (a * sd + b))) (eg_cost edge)\<rparr>)
    (fold (\<lambda>(a, b). set_reconstruction n (a * sd + b) (snd (rs ! (a * sd + b)))) ps p))"
  using assms
proof (induction ps arbitrary: p)
  case Nil
  then show ?case by (simp add: set_edge_def add_pairs_def)
next
  case (Cons ab ps)
  obtain a b where ab: "ab = (a, b)" by (cases ab)
  let ?r = "rs ! (a * sd + b)"
  let ?q = "set_edge f (add_edge_cost (fill_index (edge_at p f) m1 m2 a b) (fst ?r))
    (set_reconstruction n (a * sd + b) (snd ?r) p)"
  have q: "pb_nodes ?q = pb_nodes p" "length (pb_edges ?q) = length (pb_edges p)"
    by (simp_all add: set_edge_def set_reconstruction_def)
  have eq: "edge_at ?q f = add_edge_cost (fill_index (edge_at p f) m1 m2 a b) (fst ?r) (edge_at p f)"
    using Cons.prems(2) by (simp add: set_edge_def set_reconstruction_def)
  then have fi: "fill_index (edge_at ?q f) m1 m2 = fill_index (edge_at p f) m1 m2"
    by (intro ext) (simp add: fill_index_def add_edge_cost_def)
  have move: "fold (\<lambda>(a, b). set_reconstruction n (a * sd + b) (snd (rs ! (a * sd + b)))) ps (set_edge f F x) =
      set_edge f F (fold (\<lambda>(a, b). set_reconstruction n (a * sd + b) (snd (rs ! (a * sd + b)))) ps x)" for F x
    by (induction ps arbitrary: x) (auto simp: set_edge_reconstruction[symmetric])
  have edges: "pb_edges (fold (\<lambda>(a, b). set_reconstruction n (a * sd + b) (snd (rs ! (a * sd + b)))) ps x) = pb_edges x" for x
    by (induction ps arbitrary: x) (auto simp: set_reconstruction_def)
  have "r2_apply n m1 m2 sd f rs (ab # ps) p = r2_apply n m1 m2 sd f rs ps ?q"
    using Cons.prems(1)[of a b] by (cases ?r) (simp add: ab)
  also have "\<dots> = (True, set_edge f (\<lambda>edge. edge\<lparr>eg_cost :=
      add_pairs ps (fill_index (edge_at p f) m1 m2) (\<lambda>a b. fst (rs ! (a * sd + b))) (eg_cost edge)\<rparr>)
    (fold (\<lambda>(a, b). set_reconstruction n (a * sd + b) (snd (rs ! (a * sd + b)))) ps ?q))"
    using Cons.IH[of ?q] Cons.prems fi q by simp
  finally show ?case
    using Cons.prems(2) by (simp add: ab move) (simp add: set_edge_def edges add_edge_cost_def add_pairs_def set_reconstruction_def)
qed

subsection \<open>The step\<close>

definition r2_problem :: "nat \<Rightarrow> nat \<Rightarrow> nat \<Rightarrow> nat \<Rightarrow> (nat \<Rightarrow> nat \<Rightarrow> int \<times> nat) \<Rightarrow> pbqp_problem \<Rightarrow> pbqp_problem" where
  "r2_problem n e1 e2 f best p =
     (let m1 = OtherNode (edge_at p e1) n; m2 = OtherNode (edge_at p e2) n;
          ps = List.product [0..<nd_domain (node_at p m1)] [0..<nd_domain (node_at p m2)];
          row = fold (\<lambda>(a, b) r. r[a * nd_domain (node_at p m2) + b := snd (best a b)]) ps (pb_reconstruction p ! n)
      in eliminate kReductionR2 n (set_node n (\<lambda>node. node\<lparr>nd_first_neighbor := m1, nd_second_neighbor := m2\<rparr>)
           (drop_edge e2 (drop_edge e1 (set_edge f (\<lambda>edge. edge\<lparr>eg_cost :=
               add_pairs ps (fill_index (edge_at p f) m1 m2) (\<lambda>a b. fst (best a b)) (eg_cost edge)\<rparr>)
             (p\<lparr>pb_reconstruction := (pb_reconstruction p)[n := row]\<rparr>))))))"

lemma r2_problem_sel:
  assumes sh: "shape_ok p" and n: "n < pb_node_count p" and e: "e1 < pb_edge_capacity p" "e2 < pb_edge_capacity p"
    "f < pb_edge_capacity p" "f \<noteq> e1" "f \<noteq> e2" "e1 \<noteq> e2"
    and m: "m1 = OtherNode (edge_at p e1) n" "m2 = OtherNode (edge_at p e2) n"
    and ps: "ps = List.product [0..<nd_domain (node_at p m1)] [0..<nd_domain (node_at p m2)]"
    and q: "q = r2_problem n e1 e2 f best p"
  shows "node_at q n = (node_at p n)\<lparr>nd_first_neighbor := m1, nd_second_neighbor := m2,
      nd_reduction_kind := kReductionR2, nd_active := False\<rparr>"
    and "\<And>k. k \<noteq> n \<Longrightarrow> node_at q k = node_at p k"
    and "edge_at q e1 = (edge_at p e1)\<lparr>eg_active := False\<rparr>" and "edge_at q e2 = (edge_at p e2)\<lparr>eg_active := False\<rparr>"
    and "edge_at q f = (edge_at p f)\<lparr>eg_cost :=
      add_pairs ps (fill_index (edge_at p f) m1 m2) (\<lambda>a b. fst (best a b)) (eg_cost (edge_at p f))\<rparr>"
    and "\<And>g. g \<noteq> e1 \<Longrightarrow> g \<noteq> e2 \<Longrightarrow> g \<noteq> f \<Longrightarrow> edge_at q g = edge_at p g"
    and "pb_reconstruction q = (pb_reconstruction p)[n :=
      fold (\<lambda>(a, b) r. r[a * nd_domain (node_at p m2) + b := snd (best a b)]) ps (pb_reconstruction p ! n)]"
    and "pb_elimination_order q = (pb_elimination_order p)[pb_elimination_count p := n]"
    and "pb_elimination_count q = pb_elimination_count p + 1"
    and "length (pb_nodes q) = length (pb_nodes p)" "length (pb_edges q) = length (pb_edges p)"
    and "pb_node_capacity q = pb_node_capacity p" "pb_edge_capacity q = pb_edge_capacity p"
    "pb_domain_capacity q = pb_domain_capacity p" "pb_node_count q = pb_node_count p"
    "pb_allocator q = pb_allocator p" "pb_storage q = pb_storage p" "pb_objective_offset q = pb_objective_offset p"
proof -
  have len: "n < length (pb_nodes p)" "e1 < length (pb_edges p)" "e2 < length (pb_edges p)" "f < length (pb_edges p)"
    using sh n e by (auto simp: shape_ok_def)
  note defs = q r2_problem_def Let_def m[symmetric] ps[symmetric] eliminate_def set_node_def drop_edge_def set_edge_def
  show "node_at q n = (node_at p n)\<lparr>nd_first_neighbor := m1, nd_second_neighbor := m2,
      nd_reduction_kind := kReductionR2, nd_active := False\<rparr>" "\<And>k. k \<noteq> n \<Longrightarrow> node_at q k = node_at p k"
    using len by (simp_all add: defs)
  show "edge_at q e1 = (edge_at p e1)\<lparr>eg_active := False\<rparr>" "edge_at q e2 = (edge_at p e2)\<lparr>eg_active := False\<rparr>"
    "edge_at q f = (edge_at p f)\<lparr>eg_cost :=
      add_pairs ps (fill_index (edge_at p f) m1 m2) (\<lambda>a b. fst (best a b)) (eg_cost (edge_at p f))\<rparr>"
    "\<And>g. g \<noteq> e1 \<Longrightarrow> g \<noteq> e2 \<Longrightarrow> g \<noteq> f \<Longrightarrow> edge_at q g = edge_at p g"
    using len e by (simp_all add: defs)
qed (simp_all add: q r2_problem_def Let_def m[symmetric] ps[symmetric] eliminate_def set_node_def drop_edge_def set_edge_def)

lemma length_fold_pairs [simp]: "length (fold (\<lambda>(a, b) r. r[g a b := h a b]) ps r) = length r"
  by (induction ps arbitrary: r) auto

lemma r2_problem_frame:
  assumes wf: "pbqp_wf p" and n: "n < pb_node_count p" "nd_active (node_at p n)" and site: "r2_site n e1 e2 f p"
    and q: "q = r2_problem n e1 e2 f best p"
  shows "elim_update n p q" and "elim_frame n p q"
proof -
  define m1 m2 where m: "m1 = OtherNode (edge_at p e1) n" "m2 = OtherNode (edge_at p e2) n"
  have sh: "shape_ok p" and g: "graph_ok p" using wf by (auto simp: pbqp_wf_def)
  note o = r2_site_props[OF wf site m]
  have e: "e1 < pb_edge_capacity p" "e2 < pb_edge_capacity p" "f < pb_edge_capacity p" "e1 \<noteq> e2"
    and only: "\<And>h. h < pb_edge_capacity p \<Longrightarrow> incident (edge_at p h) n \<Longrightarrow> h = e1 \<or> h = e2"
    using site by (auto simp: r2_site_def)
  note sel = r2_problem_sel[OF sh n(1) e(1-3) o(1,2) e(4) m refl q]
  have cap: "n < pb_node_capacity p" using sh n(1) by (auto simp: shape_ok_def)
  have node: "nd_domain (node_at q k) = nd_domain (node_at p k) \<and> nd_active (node_at q k) = (nd_active (node_at p k) \<and> k \<noteq> n) \<and>
      nd_unary (node_at q k) = nd_unary (node_at p k)" for k
    using sel(1,2) by (cases "k = n") auto
  have second: "nd_second_neighbor (node_at q k) < pb_node_count p" if "k < pb_node_count p" for k
    using that sel(1,2) g o(7) by (cases "k = n") (auto simp: graph_ok_def)
  have edge: "eg_first (edge_at q h) = eg_first (edge_at p h) \<and> eg_second (edge_at q h) = eg_second (edge_at p h) \<and>
      eg_active (edge_at q h) = (eg_active (edge_at p h) \<and> h \<noteq> e1 \<and> h \<noteq> e2) \<and>
      eg_stride (edge_at q h) = eg_stride (edge_at p h) \<and> length (eg_cost (edge_at q h)) = length (eg_cost (edge_at p h))" for h
  proof -
    consider "h = e1" | "h = e2" | "h = f" | "h \<noteq> e1" "h \<noteq> e2" "h \<noteq> f" by blast
    then show ?thesis using o(1,2) by cases (simp_all add: sel(3-6))
  qed
  have "shape_ok q" using sh cap by (auto simp: shape_ok_def sel(7-) node edge nth_list_update)
  moreover have "eg_first (edge_at p h) \<noteq> n \<and> eg_second (edge_at p h) \<noteq> n"
    if "h < pb_edge_capacity p" "eg_active (edge_at q h)" for h
    using only[OF that(1)] that(2) edge[of h] by (auto simp: incident_def)
  ultimately show up: "elim_update n p q"
    using second by (simp add: elim_update_def sel(8-) node edge)
  show "elim_frame n p q"
    using eliminated_snoc(1)[OF wf n up] n by (auto simp: elim_frame_def sel(2,7-) node)
qed

lemma r2_problem_update:
  assumes wf: "pbqp_wf p" and n: "n < pb_node_count p" "nd_active (node_at p n)" and site: "r2_site n e1 e2 f p"
    and m: "m1 = OtherNode (edge_at p e1) n" "m2 = OtherNode (edge_at p e2) n"
    and best: "\<And>a b. a < nd_domain (node_at p m1) \<Longrightarrow> b < nd_domain (node_at p m2) \<Longrightarrow> best a b = r2_best p n e1 e2 a b"
  shows "r2_update n e1 e2 f p (r2_problem n e1 e2 f best p)"
proof -
  define q where q: "q = r2_problem n e1 e2 f best p"
  let ?ps = "List.product [0..<nd_domain (node_at p m1)] [0..<nd_domain (node_at p m2)]"
  have sh: "shape_ok p" and g: "graph_ok p" using wf by (auto simp: pbqp_wf_def)
  note o = r2_site_props[OF wf site m]
  have e: "e1 < pb_edge_capacity p" "e2 < pb_edge_capacity p" "f < pb_edge_capacity p" "e1 \<noteq> e2"
    and j: "edge_joins (edge_at p f) m1 m2"
    using site by (auto simp: r2_site_def m)
  note sel = r2_problem_sel[OF sh n(1) e(1-3) o(1,2) e(4) m refl q]
  let ?ed = "edge_at p f" and ?dc = "pb_domain_capacity p"
  have ed: "eg_stride ?ed = ?dc" "length (eg_cost ?ed) = ?dc * ?dc" using sh e(3) by (auto simp: shape_ok_def)
  have dom: "nd_domain (node_at p m1) \<le> ?dc" "nd_domain (node_at p m2) \<le> ?dc"
    using g o(6,7) by (auto simp: graph_ok_def)
  have inj: "inj_on (\<lambda>(a, b). fill_index ?ed m1 m2 a b) (set ?ps)"
    using fill_index_inject[OF j o(12)] dom by (auto simp: inj_on_def ed)
  have "edge_between (edge_at q f) m1 a b = accel_cost_add (edge_between ?ed m1 a b) (fst (r2_best p n e1 e2 a b))"
    if ab: "a < nd_domain (node_at p m1)" "b < nd_domain (node_at p m2)" for a b
  proof -
    have "fill_index ?ed m1 m2 a b < length (eg_cost ?ed)"
      using fill_index_less[of a ?ed b m1 m2] ab dom by (simp add: ed)
    then have "add_pairs ?ps (fill_index ?ed m1 m2) (\<lambda>a b. fst (best a b)) (eg_cost ?ed) ! fill_index ?ed m1 m2 a b =
        accel_cost_add (eg_cost ?ed ! fill_index ?ed m1 m2 a b) (fst (best a b))"
      using ab by (intro add_pairs_nth inj) (auto simp: distinct_product)
    moreover have "edge_joins (edge_at q f) m1 m2" "fill_index (edge_at q f) m1 m2 a b = fill_index ?ed m1 m2 a b"
      using j by (simp_all add: sel(5) edge_joins_def fill_index_def)
    ultimately show ?thesis
      using edge_between_fill[OF j o(12)] edge_between_fill[of "edge_at q f", OF _ o(12)] best[OF ab] by (simp add: sel(5))
  qed
  moreover have "reconstruct_node q n x = x[n := snd (r2_best p n e1 e2 (x ! m1) (x ! m2))]"
    if x: "x ! m1 < nd_domain (node_at p m1)" "x ! m2 < nd_domain (node_at p m2)" for x
  proof -
    have cap: "n < pb_node_capacity p" using sh n(1) by (auto simp: shape_ok_def)
    have "nd_domain (node_at p m1) * nd_domain (node_at p m2) \<le> ?dc * ?dc" using dom by (intro mult_le_mono)
    then have row: "nd_domain (node_at p m1) * nd_domain (node_at p m2) \<le> length (pb_reconstruction p ! n)"
      using sh cap by (simp add: shape_ok_def)
    have "n < length (pb_reconstruction p)" using sh cap by (simp add: shape_ok_def)
    then show ?thesis
      using best[OF x] fold_set_pairs[OF x row, of "\<lambda>a b. snd (best a b)"] sel(2)[OF o(11)]
      by (simp add: reconstruct_node_def sel(1,7))
  qed
  ultimately show ?thesis
    using r2_problem_frame[OF wf n site q] sel(2-6) j by (simp add: r2_update_def Let_def m[symmetric] q[symmetric] sel(18) edge_joins_def)
qed

lemma r2_apply_problem:
  assumes wf: "pbqp_wf p" and n: "n < pb_node_count p" and f: "f < pb_edge_capacity p"
    and m: "m1 = OtherNode (edge_at p e1) n" "m2 = OtherNode (edge_at p e2) n" and d: "d1 = nd_domain (node_at p m1)" "d2 = nd_domain (node_at p m2)"
    and rs: "\<And>a b. a < d1 \<Longrightarrow> b < d2 \<Longrightarrow> rs ! (a * d2 + b) = best a b \<and> snd (best a b) < nd_domain (node_at p n)"
    and run: "r2_apply n m1 m2 d2 f rs (List.product [0..<d1] [0..<d2]) p = (ok, p')"
  shows "ok" and "eliminate kReductionR2 n (set_node n (\<lambda>node. node\<lparr>nd_first_neighbor := m1, nd_second_neighbor := m2\<rparr>)
    (drop_edge e2 (drop_edge e1 p'))) = r2_problem n e1 e2 f best p"
proof -
  let ?ps = "List.product [0..<d1] [0..<d2]"
  have len: "n < length (pb_reconstruction p)" "f < length (pb_edges p)"
    using wf n f by (auto simp: pbqp_wf_def shape_ok_def)
  have row: "fold (\<lambda>(a, b) r. r[a * d2 + b := snd (rs ! (a * d2 + b))]) ?ps r =
      fold (\<lambda>(a, b) r. r[a * d2 + b := snd (best a b)]) ?ps r" for r
    using rs by (intro fold_cong) auto
  have pairs: "add_pairs ?ps ix (\<lambda>a b. fst (rs ! (a * d2 + b))) c = add_pairs ?ps ix (\<lambda>a b. fst (best a b)) c" for ix c
    unfolding add_pairs_def using rs by (intro fold_cong) auto
  have "r2_apply n m1 m2 d2 f rs ?ps p = (True, set_edge f (\<lambda>edge. edge\<lparr>eg_cost :=
      add_pairs ?ps (fill_index (edge_at p f) m1 m2) (\<lambda>a b. fst (rs ! (a * d2 + b))) (eg_cost edge)\<rparr>)
    (fold (\<lambda>(a, b). set_reconstruction n (a * d2 + b) (snd (rs ! (a * d2 + b)))) ?ps p))"
    using rs len by (intro r2_apply_fold) auto
  moreover have "fold (\<lambda>(a, b). set_reconstruction n (a * d2 + b) (snd (rs ! (a * d2 + b)))) ?ps p =
      p\<lparr>pb_reconstruction := (pb_reconstruction p)[n :=
        fold (\<lambda>(a, b) r. r[a * d2 + b := snd (best a b)]) ?ps (pb_reconstruction p ! n)]\<rparr>"
    using fold_set_reconstruction[OF len(1), of "\<lambda>(a, b). a * d2 + b" "\<lambda>(a, b). snd (rs ! (a * d2 + b))" ?ps] row
    by (simp add: split_beta')
  ultimately show "ok" and "eliminate kReductionR2 n (set_node n (\<lambda>node. node\<lparr>nd_first_neighbor := m1, nd_second_neighbor := m2\<rparr>)
    (drop_edge e2 (drop_edge e1 p'))) = r2_problem n e1 e2 f best p"
    using run by (simp_all add: pairs r2_problem_def Let_def m[symmetric] d[symmetric])
qed

text \<open>The two ways \<open>ReduceR2\<close> asks the kernel for the minima.\<close>

definition r2_call ::
  "'k pbqp_cost_kernel \<Rightarrow> bool \<Rightarrow> pbqp_problem \<Rightarrow> nat \<Rightarrow> nat \<Rightarrow> nat \<Rightarrow> nat \<Rightarrow> nat \<Rightarrow> 'k kernel_state \<Rightarrow>
     (int + min_argmin list) \<times> 'k kernel_state" where
  "r2_call api vector_path p n e1 e2 d1 d2 =
     (let unary = whole_view (nd_unary (node_at p n)) (nd_domain (node_at p n)); d = nd_domain (node_at p n)
      in if vector_path
         then Map3ProjectBatch api (map (\<lambda>a. (unary, EdgeView (edge_at p e1) n a d, EdgeMatrix (edge_at p e2) n d2 d)) [0..<d1])
         else Min3Batch api (map (\<lambda>(a, b). (unary, EdgeView (edge_at p e1) n a d, EdgeView (edge_at p e2) n b d))
                (List.product [0..<d1] [0..<d2])))"

definition r2_record :: "bool \<Rightarrow> pbqp_problem \<Rightarrow> nat \<Rightarrow> nat \<Rightarrow> nat \<Rightarrow> nat \<Rightarrow> nat \<Rightarrow> pbqp_statistics \<Rightarrow> pbqp_statistics" where
  "r2_record path p n e1 e2 d1 d2 =
     (if path then fold (record_r2_vector (edge_at p e1) (edge_at p e2) n (nd_domain (node_at p n)) d2) [0..<d1]
      else fold (record_r2_scalar (edge_at p e1) (edge_at p e2) n (nd_domain (node_at p n))) (List.product [0..<d1] [0..<d2]))"

definition r2_finish ::
  "'k solver \<Rightarrow> bool \<Rightarrow> pbqp_problem \<Rightarrow> nat \<Rightarrow> nat \<Rightarrow> nat \<Rightarrow> nat \<Rightarrow> nat \<Rightarrow> nat \<Rightarrow> nat \<Rightarrow> nat \<Rightarrow> 'k solver_state \<Rightarrow> pbqp_status \<times> 'k solver_state" where
  "r2_finish sv path p n e1 e2 m1 m2 d1 d2 f st2 =
     (case on_kernel (r2_call (sv_api sv) path p n e1 e2 d1 d2) st2 of
        (Inl _, st3) \<Rightarrow> (PBQP_KERNEL_ERROR, st3)
      | (Inr results, st3) \<Rightarrow>
          (case r2_apply n m1 m2 d2 f results (List.product [0..<d1] [0..<d2]) (ss_problem st3) of
             (False, p') \<Rightarrow> (PBQP_ARGUMENT_ERROR, set_problem p' st3)
           | (True, p') \<Rightarrow>
               let descriptors = (if path then d1 else d1 * d2); elements = descriptors * nd_domain (node_at p n)
               in (PBQP_OK, Emit sv PBQP_TRACE_R2 (ReductionPhase sv) (int n) (- 1)
                (no_work\<lparr>wk_map3 := elements, wk_descriptors := descriptors, wk_structural := 1,
                   wk_operand_bytes := 3 * elements * 4, wk_result_bytes := descriptors * 8\<rparr>)
                (with_statistics (bump (Rd r2_count) 1) (set_problem
                  (eliminate kReductionR2 n (set_node n (\<lambda>node. node\<lparr>nd_first_neighbor := m1, nd_second_neighbor := m2\<rparr>)
                    (drop_edge e2 (drop_edge e1 p')))) st3)))))"

lemma reduce_r2_eq:
  assumes p: "p = ss_problem st" and m: "m1 = OtherNode (edge_at p e1) n" "m2 = OtherNode (edge_at p e2) n"
    and d1: "d1 = nd_domain (node_at p m1)" and d2: "d2 = nd_domain (node_at p m2)"
    and path: "path = (cf_rn_batching (sv_config sv) = PBQP_RN_BATCH_PER_NODE \<and> map3_project_batch (sv_api sv) \<noteq> None)"
  shows "ReduceR2 sv n e1 e2 st =
    (case find_or_add_edge m1 m2 p of
       (None, p1) \<Rightarrow> (PBQP_CAPACITY_ERROR, set_problem p1 st)
     | (Some f, p1) \<Rightarrow>
         (case workspace sv (if path then [d1, d1 * d2] else [d1 * d2, d1 * d2]) (set_problem p1 st) of
            (ok, st1) \<Rightarrow> if \<not> ok then (PBQP_CAPACITY_ERROR, st1)
              else r2_finish sv path p n e1 e2 m1 m2 d1 d2 f (with_statistics (r2_record path p n e1 e2 d1 d2) st1)))"
  unfolding ReduceR2_def p[symmetric] m[symmetric] d1[symmetric] d2[symmetric] path[symmetric]
    r2_finish_def r2_call_def r2_record_def
  by (cases path; simp only: Let_def p[symmetric] m[symmetric] d1[symmetric] d2[symmetric] path[symmetric] if_True if_False)

lemma reduce_r2_run:
  assumes run: "ReduceR2 sv n e1 e2 st = (PBQP_OK, st')" and p: "p = ss_problem st"
    and m: "m1 = OtherNode (edge_at p e1) n" "m2 = OtherNode (edge_at p e2) n"
    and d1: "d1 = nd_domain (node_at p m1)" and d2: "d2 = nd_domain (node_at p m2)"
  obtains f p1 s path ks rs ks' p' where "find_or_add_edge m1 m2 p = (Some f, p1)"
    and "r2_call (sv_api sv) path p n e1 e2 d1 d2 ks = (Inr rs, ks')"
    and "r2_apply n m1 m2 d2 f rs (List.product [0..<d1] [0..<d2]) (p1\<lparr>pb_statistics := s\<rparr>) = (True, p')"
    and "same_graph (eliminate kReductionR2 n (set_node n (\<lambda>node. node\<lparr>nd_first_neighbor := m1, nd_second_neighbor := m2\<rparr>)
      (drop_edge e2 (drop_edge e1 p')))) (ss_problem st')"
proof -
  define path where "path = (cf_rn_batching (sv_config sv) = PBQP_RN_BATCH_PER_NODE \<and> map3_project_batch (sv_api sv) \<noteq> None)"
  obtain fo p1 where fo: "find_or_add_edge m1 m2 p = (fo, p1)" by fastforce
  obtain ok st1 where ws: "workspace sv (if path then [d1, d1 * d2] else [d1 * d2, d1 * d2]) (set_problem p1 st) = (ok, st1)"
    by fastforce
  note run' = run[unfolded reduce_r2_eq[OF p m d1 d2 path_def] fo prod.case]
  obtain f where f: "fo = Some f" using run' by (cases fo) auto
  let ?st2 = "with_statistics (r2_record path p n e1 e2 d1 d2) st1"
  have fin: "r2_finish sv path p n e1 e2 m1 m2 d1 d2 f ?st2 = (PBQP_OK, st')"
    using run' f ws by (auto split: if_splits)
  obtain r st3 where call: "on_kernel (r2_call (sv_api sv) path p n e1 e2 d1 d2) ?st2 = (r, st3)" by fastforce
  note fin' = fin[unfolded r2_finish_def call prod.case Let_def]
  obtain rs where r: "r = Inr rs" using fin' by (cases r) auto
  obtain b p' where ap: "r2_apply n m1 m2 d2 f rs (List.product [0..<d1] [0..<d2]) (ss_problem st3) = (b, p')" by fastforce
  note fin'' = fin'[unfolded r sum.case ap prod.case]
  have b: "b" using fin'' by (cases b) auto
  have "same_graph p1 (ss_problem st3)"
    using same_graph_trans[OF with_statistics_graph on_kernel_graph[OF call]] workspace_problem[OF ws] by simp
  then obtain s where "ss_problem st3 = p1\<lparr>pb_statistics := s\<rparr>" by (auto simp: same_graph_def)
  moreover have "same_graph (eliminate kReductionR2 n (set_node n (\<lambda>node. node\<lparr>nd_first_neighbor := m1, nd_second_neighbor := m2\<rparr>)
      (drop_edge e2 (drop_edge e1 p')))) (ss_problem st')"
    using fin'' b by (auto simp: with_statistics_def)
  moreover obtain ks ks' where "r2_call (sv_api sv) path p n e1 e2 d1 d2 ks = (Inr rs, ks')"
    using on_kernel_call[OF call] r by blast
  ultimately show ?thesis using that[of f p1 path ks rs ks' s p'] ap b fo f by simp
qed

lemma r2_jobs_exact:
  assumes wf: "pbqp_wf p" and cb: "costs_bounded p" and n: "n < pb_node_count p" "nd_active (node_at p n)"
    and e: "e1 < pb_edge_capacity p" "incident (edge_at p e1) n" "e2 < pb_edge_capacity p" "incident (edge_at p e2) n" "e1 \<noteq> e2"
    and a: "a < nd_domain (node_at p (OtherNode (edge_at p e1) n))" and b: "b < nd_domain (node_at p (OtherNode (edge_at p e2) n))"
    and d: "d = nd_domain (node_at p n)"
  shows "exact3 (whole_view (nd_unary (node_at p n)) d) (EdgeView (edge_at p e1) n a d) (\<lambda>i. edge_between (edge_at p e2) n i b)"
proof -
  obtain wo wn we where w: "weighted p wo wn we" using cb by (auto simp: costs_bounded_def)
  have "0 < d" using wf n by (simp add: d pbqp_wf_def graph_ok_def)
  moreover have "view_at (whole_view (nd_unary (node_at p n)) d) i = nd_unary (node_at p n) ! i"
    "kv_length (whole_view (nd_unary (node_at p n)) d) = d" "kv_length (EdgeView edge n v d) = d" for i v edge
    by (simp_all add: whole_view_def view_at_def EdgeView_def)
  ultimately show ?thesis
    using r2_best_props(5)[OF wf w n e a b] r1_jobs_exact[OF wf cb n e(1,2) a] r1_jobs_exact[OF wf cb n e(3,4) b]
    by (simp add: exact3_def exact2_def edge_views d)
qed

lemma two_neighbors:
  assumes wf: "pbqp_wf p"
    and e: "e1 < pb_edge_capacity p" "incident (edge_at p e1) n" "e2 < pb_edge_capacity p" "incident (edge_at p e2) n" "e1 \<noteq> e2"
  shows "OtherNode (edge_at p e1) n \<noteq> OtherNode (edge_at p e2) n"
proof
  assume eq: "OtherNode (edge_at p e1) n = OtherNode (edge_at p e2) n"
  have act: "eg_active (edge_at p e1)" using e(2) by (simp add: incident_def)
  have "edge_joins (edge_at p e2) (eg_first (edge_at p e1)) (eg_second (edge_at p e1))"
    using eq e(2,4) other_node(3)[OF wf e(1,2)] by (auto simp: incident_def OtherNode_def edge_joins_def split: if_splits)
  then show False using wf act e(1,3,5) unfolding pbqp_wf_def graph_ok_def by blast
qed

lemma domain_small:
  assumes "pbqp_wf p" and "n < pb_node_count p"
  shows "nd_domain (node_at p n) < 2 ^ 32"
proof -
  let ?c = "pb_domain_capacity p"
  have "?c * ?c < 2 ^ 32" "nd_domain (node_at p n) \<le> ?c"
    using assms by (simp_all add: pbqp_wf_def shape_ok_def graph_ok_def)
  moreover have "?c \<le> ?c * ?c" by (cases "?c = 0") simp_all
  ultimately show ?thesis by linarith
qed

lemma edge_columns:
  "view_at (EdgeView edge n b d) = (\<lambda>i. edge_between edge n i b)"
  "matrix_at (EdgeMatrix edge n rows d) b = (\<lambda>i. edge_between edge n i b)"
  "km_rows (EdgeMatrix edge n rows d) = rows" "km_columns (EdgeMatrix edge n rows d) = d"
  "kv_length (EdgeView edge n b d) = d" "kv_length (whole_view u d) = d"
  by (auto simp: edge_views) (simp_all add: EdgeMatrix_def EdgeView_def whole_view_def)

context cost_kernel
begin

lemma r2_call_results:
  assumes wf: "pbqp_wf p" and cb: "costs_bounded p" and n: "n < pb_node_count p" "nd_active (node_at p n)"
    and e: "e1 < pb_edge_capacity p" "incident (edge_at p e1) n" "e2 < pb_edge_capacity p" "incident (edge_at p e2) n" "e1 \<noteq> e2"
    and d1: "d1 = nd_domain (node_at p (OtherNode (edge_at p e1) n))"
    and d2: "d2 = nd_domain (node_at p (OtherNode (edge_at p e2) n))"
    and run: "r2_call api path p n e1 e2 d1 d2 ks = (Inr rs, ks')"
  shows "rs = map (\<lambda>(a, b). r2_best p n e1 e2 a b) (List.product [0..<d1] [0..<d2])"
proof -
  let ?d = "nd_domain (node_at p n)" and ?u = "whole_view (nd_unary (node_at p n)) (nd_domain (node_at p n))"
  note ex = r2_jobs_exact[OF wf cb n e _ _ refl, folded d1 d2]
  have small: "d2 < 2 ^ 32" unfolding d2 by (rule domain_small[OF wf other_node(1)[OF wf e(3,4)]])
  have "view_at ?u i = nd_unary (node_at p n) ! i" for i by (simp add: whole_view_def view_at_def)
  then have sum: "first_min (sum3 ?u (EdgeView (edge_at p e1) n a ?d) (\<lambda>i. edge_between (edge_at p e2) n i b)) =
      r2_best p n e1 e2 a b" for a b
    by (simp add: sum3_def r2_best_def edge_columns)
  show ?thesis
  proof (cases path)
    case True
    then have "Map3ProjectBatch api (map (\<lambda>a. (?u, EdgeView (edge_at p e1) n a ?d, EdgeMatrix (edge_at p e2) n d2 ?d)) [0..<d1]) ks =
        (Inr rs, ks')" using run by (simp add: r2_call_def Let_def)
    note call = this
    have "rs = concat (map map3_rows (map (\<lambda>a. (?u, EdgeView (edge_at p e1) n a ?d, EdgeMatrix (edge_at p e2) n d2 ?d)) [0..<d1]))"
      by (rule Map3ProjectBatch_correct[OF _ call]) (use ex small in \<open>auto simp: exact_map3_def edge_columns\<close>)
    also have "\<dots> = concat (map (\<lambda>a. map (r2_best p n e1 e2 a) [0..<d2]) [0..<d1])"
      by (simp add: comp_def map3_rows_def edge_columns sum)
    finally show ?thesis by (simp add: product_rows)
  next
    case False
    then have "Min3Batch api (map (\<lambda>(a, b). (?u, EdgeView (edge_at p e1) n a ?d, EdgeView (edge_at p e2) n b ?d))
        (List.product [0..<d1] [0..<d2])) ks = (Inr rs, ks')" using run by (simp add: r2_call_def Let_def)
    note call = this
    have "rs = map (\<lambda>(a, b, c). first_min (sum3 a b (view_at c))) (map (\<lambda>(a, b). (?u, EdgeView (edge_at p e1) n a ?d,
        EdgeView (edge_at p e2) n b ?d)) (List.product [0..<d1] [0..<d2]))"
      by (rule Min3Batch_correct[OF _ call]) (use ex in \<open>auto simp: exact_min3_def edge_columns\<close>)
    then show ?thesis by (simp add: comp_def split_beta' edge_columns sum)
  qed
qed

lemma reduce_r2_exact:
  assumes wf: "pbqp_wf (ss_problem st)" and cb: "costs_bounded (ss_problem st)"
    and n: "n < pb_node_count (ss_problem st)" "nd_active (node_at (ss_problem st) n)"
    and e: "incident_edges (ss_problem st) n = [e1, e2]"
    and api: "sv_api sv = api" and run: "ReduceR2 sv n e1 e2 st = (PBQP_OK, st')"
  shows "exact_step n (ss_problem st) (ss_problem st')"
proof -
  define p where "p = ss_problem st"
  define m1 m2 d1 d2 where m: "m1 = OtherNode (edge_at p e1) n" "m2 = OtherNode (edge_at p e2) n"
    and d: "d1 = nd_domain (node_at p m1)" "d2 = nd_domain (node_at p m2)"
  note wf' = wf[folded p_def] and cb' = cb[folded p_def] and n' = n[folded p_def]
  have e': "e1 < pb_edge_capacity p" "incident (edge_at p e1) n" "e2 < pb_edge_capacity p" "incident (edge_at p e2) n" "e1 \<noteq> e2"
    and only: "\<And>f. f < pb_edge_capacity p \<Longrightarrow> incident (edge_at p f) n \<Longrightarrow> f = e1 \<or> f = e2"
    using e incident_edges_set[of _ p n] incident_edges_distinct[of p n] by (auto simp: p_def)
  note o1 = other_node[OF wf' e'(1,2), folded m] and o2 = other_node[OF wf' e'(3,4), folded m]
  have ne: "m1 \<noteq> m2" unfolding m by (rule two_neighbors[OF wf' e'])
  obtain f p1 s path ks rs ks' p' where fo: "find_or_add_edge m1 m2 p = (Some f, p1)"
    and call: "r2_call api path p n e1 e2 d1 d2 ks = (Inr rs, ks')"
    and ap: "r2_apply n m1 m2 d2 f rs (List.product [0..<d1] [0..<d2]) (p1\<lparr>pb_statistics := s\<rparr>) = (True, p')"
    and st': "same_graph (eliminate kReductionR2 n (set_node n (\<lambda>node. node\<lparr>nd_first_neighbor := m1, nd_second_neighbor := m2\<rparr>)
      (drop_edge e2 (drop_edge e1 p')))) (ss_problem st')"
    by (rule reduce_r2_run[OF run p_def m d, unfolded api])
  note fill = find_or_add_edge_frame[OF wf' o1(1) o2(1) ne o1(2) o2(2) fo]
  let ?q = "p1\<lparr>pb_statistics := s\<rparr>"
  obtain es c where p1: "p1 = p\<lparr>pb_edges := es, pb_edge_count := c\<rparr>" using fill(1) by (auto simp: fill_frame_def)
  have act: "eg_active (edge_at p e1)" "eg_active (edge_at p e2)" using e' by (auto simp: incident_def)
  have same: "edge_at ?q e1 = edge_at p e1" "edge_at ?q e2 = edge_at p e2" "pb_nodes ?q = pb_nodes p"
    "pb_edge_capacity ?q = pb_edge_capacity p" "pb_node_count ?q = pb_node_count p"
    using fill(1) e' act by (auto simp: fill_frame_def p1)
  have q: "pbqp_wf ?q" "costs_bounded ?q"
    using fill(1) cb' by (auto simp: fill_frame_def costs_bounded_def)
  have nq: "n < pb_node_count ?q" "nd_active (node_at ?q n)" using n' by (simp_all add: same)
  have site: "r2_site n e1 e2 f ?q"
  proof -
    have "edge_at ?q g = edge_at p1 g" for g by simp
    then show ?thesis unfolding r2_site_def same m[symmetric] using e' fill(2-4) only o1(3) o2(3) by metis
  qed
  have best: "r2_best ?q n e1 e2 = r2_best p n e1 e2" by (intro ext) (simp only: r2_best_def same)
  have rs: "rs = map (\<lambda>(a, b). r2_best p n e1 e2 a b) (List.product [0..<d1] [0..<d2])"
    by (rule r2_call_results[OF wf' cb' n' e' _ _ call]) (simp_all add: d m)
  obtain wo wn we where w: "weighted p wo wn we" using cb' by (auto simp: costs_bounded_def)
  have rs': "rs ! (a * d2 + b) = r2_best ?q n e1 e2 a b \<and> snd (r2_best ?q n e1 e2 a b) < nd_domain (node_at ?q n)"
    if "a < d1" "b < d2" for a b
    using product_index[OF that] r2_best_props(1)[OF wf' w n' e'] that by (simp add: rs best same d m)
  have "same_graph (r2_problem n e1 e2 f (r2_best ?q n e1 e2) ?q) (ss_problem st')"
  proof -
    have mq: "f < pb_edge_capacity ?q" "m1 = OtherNode (edge_at ?q e1) n" "m2 = OtherNode (edge_at ?q e2) n"
      "d1 = nd_domain (node_at ?q m1)" "d2 = nd_domain (node_at ?q m2)"
      using fill(2) by (simp_all only: same m d)
    show ?thesis using r2_apply_problem(2)[OF q(1) nq(1) mq rs' ap] st' by simp
  qed
  moreover have "exact_step n ?q (r2_problem n e1 e2 f (r2_best ?q n e1 e2) ?q)"
    by (rule r2_exact[OF q site r2_problem_update[OF q(1) nq site refl refl refl]])
  ultimately have "exact_step n p1 (ss_problem st')" by (metis exact_step_same same_graph_statistics)
  then show ?thesis unfolding p_def[symmetric] by (rule fill_exact_step[OF fill(1)])
qed

text \<open>One iteration of the reduction loop.\<close>

lemma reduce_node_exact:
  assumes wf: "pbqp_wf (ss_problem st)" and cb: "costs_bounded (ss_problem st)"
    and n: "FindReducibleNode (ss_problem st) = Some n" and api: "sv_api sv = api"
    and run: "reduce_node sv n st = (PBQP_OK, st')"
  shows "exact_step n (ss_problem st) (ss_problem st')"
proof -
  note r = reducible_node[OF n]
  consider "incident_edges (ss_problem st) n = []" | e where "incident_edges (ss_problem st) n = [e]"
    | e1 e2 where "incident_edges (ss_problem st) n = [e1, e2]"
    using r(3) by (cases "incident_edges (ss_problem st) n" rule: remdups_adj.cases) (auto simp: numeral_2_eq_2)
  then show ?thesis
  proof cases
    case 1
    then show ?thesis
      using run reduce_r0_exact(2)[OF wf cb r(1,2) _ refl] by (simp add: reduce_node_def neighbor_count incident_edges_nil)
  next
    case 2
    then show ?thesis using run reduce_r1_exact[OF wf cb r(1,2) _ api] by (simp add: reduce_node_def neighbor_count)
  next
    case 3
    then show ?thesis using run reduce_r2_exact[OF wf cb r(1,2) _ api] by (simp add: reduce_node_def neighbor_count)
  qed
qed

end

end
