(* ===== verification/Pbqp_Solve_Correct.thy ===== *)
theory Pbqp_Solve_Correct
  imports Pbqp_R2_Correct
begin

text \<open>
  The reduction loop and the enumeration of the irreducible core. With a kernel that keeps its
  contract, the loop keeps \<open>reduces\<close> from the caller's graph, so an empty core or an enumerated core
  gives an optimal assignment.
\<close>

section \<open>Solutions\<close>

definition achieves :: "pbqp_problem \<Rightarrow> int \<Rightarrow> nat list \<Rightarrow> bool" where
  "achieves p c x \<longleftrightarrow> valid_assignment p x \<and> total_cost p x = cost_abs c \<and> c \<le> ACCEL_INF"

definition optimal :: "pbqp_problem \<Rightarrow> int \<Rightarrow> nat list \<Rightarrow> bool" where
  "optimal p c x \<longleftrightarrow> achieves p c x \<and> (\<forall>y. valid_assignment p y \<longrightarrow> cost_abs c \<le> total_cost p y)"

lemma count_fold: "fold (\<lambda>i c. c + (if P i then 1 else 0)) xs k = k + length (filter P xs)"
  by (induction xs arbitrary: k) auto

lemma active_count: "ActiveNodeCount p = card {k. k < pb_node_count p \<and> nd_active (node_at p k)}"
proof -
  have "ActiveNodeCount p = length (filter (\<lambda>k. nd_active (node_at p k)) [0..<pb_node_count p])"
    by (simp add: ActiveNodeCount_def count_fold)
  also have "\<dots> = card (set (filter (\<lambda>k. nd_active (node_at p k)) [0..<pb_node_count p]))"
    by (rule distinct_card[symmetric]) simp
  finally show ?thesis by (simp add: conj_commute)
qed

lemma active_le: "ActiveNodeCount p \<le> pb_node_count p"
  unfolding active_count
  using card_mono[of "{..<pb_node_count p}" "{k. k < pb_node_count p \<and> nd_active (node_at p k)}"] by auto

lemma no_active_node: "ActiveNodeCount p = 0 \<longleftrightarrow> (\<forall>k < pb_node_count p. \<not> nd_active (node_at p k))"
  by (auto simp: active_count)

lemma offset_le:
  assumes "costs_bounded p"
  shows "pb_objective_offset p \<le> ACCEL_INF"
proof -
  obtain wo wn we where w: "weighted p wo wn we" using assms by (auto simp: costs_bounded_def)
  then have "within p wo (pb_objective_offset p)" "wo \<le> pb_node_capacity p + pb_edge_capacity p"
    by (auto simp: weighted_def tables_within_def)
  then show ?thesis using within_valid by blast
qed

lemma empty_core_cost:
  assumes "pbqp_wf p" and "ActiveNodeCount p = 0"
  shows "total_cost p x = cost_abs (pb_objective_offset p)"
    and "pb_node_count p \<le> length x \<Longrightarrow> valid_assignment p x"
proof -
  have off: "\<not> nd_active (node_at p k)" if "k < pb_node_count p" for k using assms(2) that by (simp add: no_active_node)
  then have "node_term p x k = 0" if "k < pb_node_count p" for k using that by (simp add: node_term_def)
  moreover have "edge_term p x e = 0" if "e < pb_edge_capacity p" for e
    using wf_edge[OF assms(1) that] off by (auto simp: edge_term_def)
  ultimately show "total_cost p x = cost_abs (pb_objective_offset p)" by (simp add: total_cost_def core_cost_def)
  show "pb_node_count p \<le> length x \<Longrightarrow> valid_assignment p x" using off by (simp add: valid_assignment_def)
qed

lemma attains_achieves:
  assumes "attains p0 p" and "valid_assignment p x" and "total_cost p x = cost_abs c" and "c \<le> ACCEL_INF"
  shows "achieves p0 c (ReconstructSolution p x)"
  using assms by (simp add: attains_def achieves_def)

lemma attains_empty:
  assumes "attains p0 p" and "ActiveNodeCount p = 0" and "pb_node_count p0 \<le> length x"
  shows "achieves p0 (pb_objective_offset p) (ReconstructSolution p x)"
proof -
  have "pbqp_wf p" "costs_bounded p" "pb_node_count p = pb_node_count p0" using assms(1) by (auto simp: attains_def)
  then show ?thesis using attains_achieves[OF assms(1)] empty_core_cost[OF _ assms(2)] offset_le assms(3) by simp
qed

lemma reduces_optimal:
  assumes "reduces p0 p" and "valid_assignment p x" and "total_cost p x = cost_abs c" and "c \<le> ACCEL_INF"
    and "\<And>y. valid_assignment p y \<Longrightarrow> cost_abs c \<le> total_cost p y"
  shows "optimal p0 c (ReconstructSolution p x)"
proof -
  have at: "attains p0 p" using assms(1) by (simp add: reduces_def)
  have "cost_abs c \<le> total_cost p0 y" if "valid_assignment p0 y" for y
  proof -
    have "cost_abs c \<le> total_cost p y" using assms(5) at that by (simp add: attains_def)
    also have "\<dots> \<le> total_cost p0 y" using assms(1) that by (simp add: reduces_def)
    finally show ?thesis .
  qed
  then show ?thesis using attains_achieves[OF at assms(2-4)] by (simp add: optimal_def)
qed

lemma reduces_empty:
  assumes "reduces p0 p" and "ActiveNodeCount p = 0" and "pb_node_count p0 \<le> length x"
  shows "optimal p0 (pb_objective_offset p) (ReconstructSolution p x)"
proof -
  have "pbqp_wf p" "costs_bounded p" "pb_node_count p = pb_node_count p0"
    using assms(1) by (auto simp: reduces_def attains_def)
  then show ?thesis
    using reduces_optimal[OF assms(1)] empty_core_cost[OF _ assms(2)] offset_le assms(3) by simp
qed

section \<open>The enumeration of the core\<close>

lemma valid_core_cong:
  assumes "pbqp_wf p" and "\<And>k. k < pb_node_count p \<Longrightarrow> nd_active (node_at p k) \<Longrightarrow> x ! k = y ! k"
  shows "EvaluateActiveCore p x = EvaluateActiveCore p y"
proof -
  have "fold (\<lambda>n s. if nd_active (node_at p n) then accel_cost_add s (nd_unary (node_at p n) ! (x ! n)) else s)
        [0..<pb_node_count p] 0 =
      fold (\<lambda>n s. if nd_active (node_at p n) then accel_cost_add s (nd_unary (node_at p n) ! (y ! n)) else s)
        [0..<pb_node_count p] 0"
    using assms(2) by (intro fold_cong) auto
  then show ?thesis
    unfolding EvaluateActiveCore_def Let_def using assms(2) wf_edge[OF assms(1)] by (intro fold_cong) auto
qed

text \<open>The assignments that extend the choices made for the nodes before \<open>node\<close>.\<close>

definition extends :: "pbqp_problem \<Rightarrow> nat \<Rightarrow> nat list \<Rightarrow> nat list \<Rightarrow> bool" where
  "extends p node a x \<longleftrightarrow> valid_assignment p x \<and>
     (\<forall>k < node. nd_active (node_at p k) \<longrightarrow> x ! k = a ! k)"

definition core_good :: "pbqp_problem \<Rightarrow> core_search \<Rightarrow> bool" where
  "core_good p co \<longleftrightarrow> length (co_assignment co) = pb_node_count p \<and>
     pb_node_count p \<le> length (snd (co_solution co)) \<and>
     (co_has_assignment co \<longrightarrow> valid_assignment p (snd (co_solution co)) \<and>
        fst (co_solution co) = EvaluateActiveCore p (snd (co_solution co)))"

definition core_found :: "pbqp_problem \<Rightarrow> nat \<Rightarrow> nat list \<Rightarrow> core_search \<Rightarrow> bool" where
  "core_found p node a co \<longleftrightarrow> co_has_assignment co \<and>
     (\<forall>x. extends p node a x \<longrightarrow> fst (co_solution co) \<le> EvaluateActiveCore p x)"

definition core_step :: "pbqp_problem \<Rightarrow> nat \<Rightarrow> core_search \<Rightarrow> core_search \<Rightarrow> bool" where
  "core_step p node co co' \<longleftrightarrow> core_good p co' \<and>
     (\<forall>k < node. co_assignment co' ! k = co_assignment co ! k) \<and>
     (co_has_assignment co \<longrightarrow> co_has_assignment co' \<and> fst (co_solution co') \<le> fst (co_solution co))"

lemma core_visit_frame:
  assumes "\<not> co_limit_hit (core_visit maximum node co)"
  shows "\<exists>s. core_visit maximum node co = co\<lparr>co_statistics := s\<rparr>"
  using assms unfolding core_visit_def Let_def by (auto split: if_splits)

lemma core_step_statistics [simp]:
  "core_step p node (co\<lparr>co_statistics := s\<rparr>) co' = core_step p node co co'"
  "core_good p (co\<lparr>co_statistics := s\<rparr>) = core_good p co"
  by (simp_all add: core_step_def core_good_def)

lemma core_leaf_step:
  assumes wf: "pbqp_wf p" and good: "core_good p co"
    and dom: "\<And>k. k < pb_node_count p \<Longrightarrow> nd_active (node_at p k) \<Longrightarrow> co_assignment co ! k < nd_domain (node_at p k)"
  shows "core_step p (pb_node_count p) co (core_leaf p co)"
    and "core_found p (pb_node_count p) (co_assignment co) (core_leaf p co)"
proof -
  let ?a = "co_assignment co" and ?n = "pb_node_count p"
  have len: "length ?a = ?n" "?n \<le> length (snd (co_solution co))" using good by (auto simp: core_good_def)
  let ?x = "copy_prefix ?n ?a (snd (co_solution co))"
  have nth: "?x ! k = ?a ! k" if "k < ?n" for k using that len by (simp add: copy_prefix_def nth_append)
  have v: "valid_assignment p ?x" using dom len by (auto simp: valid_assignment_def nth) (simp add: copy_prefix_def)
  have ev: "EvaluateActiveCore p ?x = EvaluateActiveCore p ?a" using nth by (intro valid_core_cong[OF wf]) auto
  show "core_step p ?n co (core_leaf p co)"
    using good v ev by (auto simp: core_step_def core_leaf_def Let_def core_good_def valid_assignment_def)
  have same: "EvaluateActiveCore p x = EvaluateActiveCore p ?a" if "extends p ?n ?a x" for x
    using that by (intro valid_core_cong[OF wf]) (simp add: extends_def)
  show "core_found p ?n ?a (core_leaf p co)"
    by (auto simp: core_found_def core_leaf_def Let_def same)
qed

lemma core_step_trans: "core_step p node a b \<Longrightarrow> core_step p node b c \<Longrightarrow> core_step p node a c"
  by (auto simp: core_step_def)

text \<open>The loop over the values of one node; \<open>F\<close> is the recursive call for the next node.\<close>

definition try_value :: "nat \<Rightarrow> (core_search \<Rightarrow> core_search) \<Rightarrow> nat \<Rightarrow> core_search \<Rightarrow> core_search" where
  "try_value node F v co = (if co_limit_hit co then co
     else F (co\<lparr>co_statistics := bump (Sb search_branches_created) 1 (co_statistics co),
                co_assignment := (co_assignment co)[node := v]\<rparr>))"

lemma core_values:
  assumes node: "node < pb_node_count p" "nd_active (node_at p node)" and good: "core_good p co"
    and dom: "\<And>k. k < node \<Longrightarrow> nd_active (node_at p k) \<Longrightarrow> co_assignment co ! k < nd_domain (node_at p k)"
    and F: "\<And>co. core_good p co \<Longrightarrow>
      (\<And>k. k < Suc node \<Longrightarrow> nd_active (node_at p k) \<Longrightarrow> co_assignment co ! k < nd_domain (node_at p k)) \<Longrightarrow>
      \<not> co_limit_hit (F co) \<Longrightarrow> core_step p (Suc node) co (F co) \<and> core_found p (Suc node) (co_assignment co) (F co)"
    and j: "j \<le> nd_domain (node_at p node)" and co': "co' = fold (try_value node F) [0..<j] co" "\<not> co_limit_hit co'"
  shows "core_step p node co co' \<and> (0 < j \<longrightarrow> co_has_assignment co') \<and>
    (\<forall>x. extends p node (co_assignment co) x \<longrightarrow> x ! node < j \<longrightarrow> fst (co_solution co') \<le> EvaluateActiveCore p x)"
  using j co'
proof (induction j arbitrary: co')
  case 0
  then show ?case using good by (simp add: core_step_def)
next
  case (Suc j)
  define cj where "cj = fold (try_value node F) [0..<j] co"
  have co': "co' = try_value node F j cj" using Suc.prems(2) by (simp add: cj_def)
  have lim: "\<not> co_limit_hit cj" using Suc.prems(3) by (auto simp: co' try_value_def)
  have IH: "core_step p node co cj"
    "\<And>x. extends p node (co_assignment co) x \<Longrightarrow> x ! node < j \<Longrightarrow> fst (co_solution cj) \<le> EvaluateActiveCore p x \<and> 0 < j \<and> co_has_assignment cj"
    using Suc.IH[OF _ cj_def lim] Suc.prems(1) by auto
  let ?in = "cj\<lparr>co_statistics := bump (Sb search_branches_created) 1 (co_statistics cj),
    co_assignment := (co_assignment cj)[node := j]\<rparr>"
  have len: "length (co_assignment cj) = pb_node_count p" using IH(1) by (simp add: core_step_def core_good_def)
  have gin: "core_good p ?in" using IH(1) by (simp add: core_step_def core_good_def)
  have din: "co_assignment ?in ! k < nd_domain (node_at p k)" if "k < Suc node" "nd_active (node_at p k)" for k
    using that dom[of k] IH(1) len node Suc.prems(1) by (auto simp: core_step_def nth_list_update less_Suc_eq)
  have out: "co' = F ?in" using co' lim by (simp add: try_value_def)
  have st: "core_step p (Suc node) ?in co'" "core_found p (Suc node) (co_assignment ?in) co'"
    using F[OF gin din] Suc.prems(3) out by auto
  then have one: "core_step p node cj co'" by (auto simp: core_step_def)
  have "fst (co_solution co') \<le> EvaluateActiveCore p x"
    if x: "extends p node (co_assignment co) x" "x ! node < Suc j" for x
  proof (cases "x ! node = j")
    case True
    then have "extends p (Suc node) (co_assignment ?in) x"
      using x IH(1) len node by (auto simp: extends_def core_step_def nth_list_update less_Suc_eq)
    then show ?thesis using st(2) by (simp add: core_found_def)
  next
    case False
    then have "fst (co_solution cj) \<le> EvaluateActiveCore p x" "co_has_assignment cj" using IH(2)[OF x(1)] x(2) by auto
    then show ?thesis using one by (auto simp: core_step_def)
  qed
  then show ?case using core_step_trans[OF IH(1) one] st(2) by (simp add: core_found_def)
qed

lemma enumerate_core:
  assumes wf: "pbqp_wf p" and "core_good p co" and "remaining \<le> pb_node_count p"
    and "node = pb_node_count p - remaining"
    and "\<And>k. k < node \<Longrightarrow> nd_active (node_at p k) \<Longrightarrow> co_assignment co ! k < nd_domain (node_at p k)"
    and "co' = EnumerateActiveCore remaining maximum p co" and "\<not> co_limit_hit co'"
  shows "core_step p node co co' \<and> core_found p node (co_assignment co) co'"
  using assms(2-)
proof (induction remaining arbitrary: co node co')
  case 0
  define c1 where "c1 = core_visit maximum (pb_node_count p) co"
  have lim: "\<not> co_limit_hit c1" using 0(5,6) by (auto simp: c1_def Let_def split: if_splits)
  obtain s where s: "c1 = co\<lparr>co_statistics := s\<rparr>" using core_visit_frame lim by (metis c1_def)
  have "co' = core_leaf p c1" using 0(5) lim by (simp add: c1_def[symmetric])
  then show ?case using core_leaf_step[OF wf, of c1] 0 by (auto simp: s)
next
  case (Suc remaining)
  define c1 where "c1 = core_visit maximum node co"
  have node: "node < pb_node_count p" "Suc node = pb_node_count p - remaining" using Suc.prems(2,3) by auto
  note run = Suc.prems(5)[unfolded EnumerateActiveCore.simps(2) Let_def Suc.prems(3)[symmetric] c1_def[symmetric]]
  have lim: "\<not> co_limit_hit c1" using run Suc.prems(6) by (auto split: if_splits)
  obtain s where s: "c1 = co\<lparr>co_statistics := s\<rparr>" using core_visit_frame lim by (metis c1_def)
  have g1: "core_good p c1" and a1: "co_assignment c1 = co_assignment co" using Suc.prems(1) by (simp_all add: s)
  have IH: "core_step p (Suc node) c (EnumerateActiveCore remaining maximum p c) \<and>
      core_found p (Suc node) (co_assignment c) (EnumerateActiveCore remaining maximum p c)"
    if "core_good p c" "\<And>k. k < Suc node \<Longrightarrow> nd_active (node_at p k) \<Longrightarrow> co_assignment c ! k < nd_domain (node_at p k)"
      "\<not> co_limit_hit (EnumerateActiveCore remaining maximum p c)" for c
    using Suc.IH[OF that(1) _ node(2) that(2) refl that(3)] Suc.prems(2) by simp
  show ?case
  proof (cases "nd_active (node_at p node)")
    case False
    then have co': "co' = EnumerateActiveCore remaining maximum p c1" using run lim by simp
    have "core_step p (Suc node) c1 co' \<and> core_found p (Suc node) (co_assignment c1) co'"
      using IH[OF g1] Suc.prems(4,6) False unfolding co' a1 by (auto simp: less_Suc_eq)
    moreover have "extends p (Suc node) a x" if "extends p node a x" for a x
      using that False by (auto simp: extends_def less_Suc_eq)
    ultimately show ?thesis by (auto simp: s core_step_def core_found_def)
  next
    case True
    then have co': "co' = fold (try_value node (EnumerateActiveCore remaining maximum p)) [0..<nd_domain (node_at p node)] c1"
      using run lim by (simp add: try_value_def[abs_def])
    have "0 < nd_domain (node_at p node)" using wf node(1) by (simp add: pbqp_wf_def graph_ok_def)
    moreover have "x ! node < nd_domain (node_at p node)" if "extends p node a x" for a x
      using that node(1) True by (simp add: extends_def valid_assignment_def)
    moreover have "core_step p node c1 co' \<and> (0 < nd_domain (node_at p node) \<longrightarrow> co_has_assignment co') \<and>
        (\<forall>x. extends p node (co_assignment c1) x \<longrightarrow> x ! node < nd_domain (node_at p node) \<longrightarrow>
          fst (co_solution co') \<le> EvaluateActiveCore p x)"
      by (rule core_values[OF node(1) True g1 _ IH le_refl co' Suc.prems(6)]) (use Suc.prems(4) in \<open>simp_all add: a1\<close>)
    ultimately show ?thesis unfolding core_found_def a1 by (simp add: s)
  qed
qed

lemma enumerate_core_no_limit:
  "\<not> co_limit_hit co \<Longrightarrow> \<not> co_limit_hit (EnumerateActiveCore remaining 0 p co)"
proof (induction remaining arbitrary: co)
  case 0
  then show ?case by (simp add: core_visit_def core_leaf_def Let_def)
next
  case (Suc remaining)
  have inv: "\<not> co_limit_hit (fold (\<lambda>v co. if co_limit_hit co then co else EnumerateActiveCore remaining 0 p
      (co\<lparr>co_statistics := F co, co_assignment := G v co\<rparr>)) vs c)" if "\<not> co_limit_hit c" for F G c vs
    using that Suc.IH by (induction vs arbitrary: c) auto
  show ?case using Suc by (auto simp: Let_def core_visit_def intro!: inv)
qed

lemma core_value:
  assumes "pbqp_wf p" and "costs_bounded p" and "valid_assignment p x"
  shows "cost_abs (accel_cost_add (pb_objective_offset p) (EvaluateActiveCore p x)) = total_cost p x"
    and "accel_cost_add (pb_objective_offset p) (EvaluateActiveCore p x) \<le> ACCEL_INF"
    and "cost_abs (EvaluateActiveCore p x) = core_cost p x" and "EvaluateActiveCore p x \<le> ACCEL_INF"
proof -
  obtain wo wn we where w: "weighted p wo wn we" using assms(2) by (auto simp: costs_bounded_def)
  note ev = evaluate_core[OF assms(1) w assms(3)]
  have fit: "wo + (sum wn {..<pb_node_count p} + sum we {..<pb_edge_capacity p}) \<le> pb_node_capacity p + pb_edge_capacity p"
    and off: "within p wo (pb_objective_offset p)" using w by (auto simp: weighted_def tables_within_def)
  note add = add_exact[OF off ev(2) fit]
  show "cost_abs (accel_cost_add (pb_objective_offset p) (EvaluateActiveCore p x)) = total_cost p x"
    using add(2) ev(1) by (simp add: total_cost_def)
  show "accel_cost_add (pb_objective_offset p) (EvaluateActiveCore p x) \<le> ACCEL_INF"
    using within_valid[OF add(3) fit] by blast
  show "cost_abs (EvaluateActiveCore p x) = core_cost p x" by (rule ev)
  show "EvaluateActiveCore p x \<le> ACCEL_INF" using within_valid[OF ev(2)] fit by simp
qed

lemma solve_core_optimal:
  assumes red: "reduces p0 (ss_problem st)" and len: "pb_node_count p0 \<le> length asg"
    and run: "solve_core sv (opt, asg) st = (PBQP_OK, (opt', asg'), st')"
  shows "optimal p0 opt' asg'"
proof -
  define p where "p = ss_problem st"
  define co where "co = EnumerateActiveCore (pb_node_count p) (cf_maximum_search_nodes (sv_config sv)) p
    \<lparr>co_statistics = pb_statistics p, co_assignment = replicate (pb_node_count p) 0,
     co_solution = (ACCEL_INF, asg), co_has_assignment = False, co_limit_hit = False\<rparr>"
  have wf: "pbqp_wf p" "costs_bounded p" "pb_node_count p = pb_node_count p0"
    using red by (auto simp: p_def reduces_def attains_def)
  have res: "\<not> co_limit_hit co" "opt' = accel_cost_add (pb_objective_offset p) (fst (co_solution co))"
    "asg' = ReconstructSolution p (snd (co_solution co))"
    using run by (auto simp: solve_core_def Let_def p_def[symmetric] co_def[symmetric] split: prod.splits if_splits)
  have found: "core_step p 0 \<lparr>co_statistics = pb_statistics p, co_assignment = replicate (pb_node_count p) 0,
     co_solution = (ACCEL_INF, asg), co_has_assignment = False, co_limit_hit = False\<rparr> co \<and>
     core_found p 0 (replicate (pb_node_count p) 0) co"
    using enumerate_core[OF wf(1) _ le_refl _ _ co_def res(1), of 0] len wf(3) by (simp add: core_good_def)
  let ?x = "snd (co_solution co)"
  have x: "valid_assignment p ?x" "fst (co_solution co) = EvaluateActiveCore p ?x"
    using found by (auto simp: core_step_def core_good_def core_found_def)
  have least: "total_cost p ?x \<le> total_cost p y" if y: "valid_assignment p y" for y
  proof -
    have "EvaluateActiveCore p ?x \<le> EvaluateActiveCore p y"
      using found y x(2) by (simp add: core_found_def extends_def)
    then have "core_cost p ?x \<le> core_cost p y"
      using core_value(3,4)[OF wf(1,2) x(1)] core_value(3,4)[OF wf(1,2) y] cost_abs_mono by metis
    then show ?thesis by (simp add: total_cost_def add_left_mono)
  qed
  show ?thesis
    unfolding res(3) by (rule reduces_optimal[OF red[folded p_def] x(1)])
      (use core_value(1,2)[OF wf(1,2) x(1)] least in \<open>simp_all add: res(2) x(2)\<close>)
qed

section \<open>The reduction loop\<close>

lemma reduces_statistics [simp]:
  "attains p0 (p\<lparr>pb_statistics := s\<rparr>) = attains p0 p" "reduces p0 (p\<lparr>pb_statistics := s\<rparr>) = reduces p0 p"
proof -
  have "ReconstructSolution (p\<lparr>pb_statistics := s\<rparr>) = ReconstructSolution p"
    by (intro ext) (simp add: ReconstructSolution_def reconstruct_node_statistics[abs_def])
  then show a: "attains p0 (p\<lparr>pb_statistics := s\<rparr>) = attains p0 p" by (simp add: attains_def)
  then show "reduces p0 (p\<lparr>pb_statistics := s\<rparr>) = reduces p0 p" by (simp add: reduces_def)
qed

lemma with_statistics_problem [simp]:
  "ss_problem (with_statistics f st) = (ss_problem st)\<lparr>pb_statistics := f (pb_statistics (ss_problem st))\<rparr>"
  by (simp add: with_statistics_def)

lemma reconstruct_statistics [simp]:
  "ReconstructSolution (p\<lparr>pb_statistics := s\<rparr>) x = ReconstructSolution p x"
  by (simp add: ReconstructSolution_def reconstruct_node_statistics[abs_def])

context cost_kernel
begin

lemma reduce_node_reduces:
  assumes "reduces p0 (ss_problem st)" and "FindReducibleNode (ss_problem st) = Some n" and "sv_api sv = api"
    and "reduce_node sv n st = (PBQP_OK, st')"
  shows "reduces p0 (ss_problem st')"
  using reduces_step[OF assms(1) reduce_node_exact[OF _ _ assms(2-4)]] assms(1) by (simp add: reduces_def attains_def)

lemma reduce_node_attains:
  assumes "attains p0 (ss_problem st)" and "FindReducibleNode (ss_problem st) = Some n" and "sv_api sv = api"
    and "reduce_node sv n st = (PBQP_OK, st')"
  shows "attains p0 (ss_problem st')"
  using attains_step[OF assms(1)] reduce_node_exact[OF _ _ assms(2-4)] assms(1) by (auto simp: exact_step_def attains_def)

lemma solve_loop_exact:
  assumes "reduces p0 (ss_problem st)" and "pb_node_count p0 \<le> length (snd sol)" and "sv_api sv = api"
    and "cf_strategy (sv_config sv) \<noteq> PBQP_STRATEGY_HEURISTIC_RN"
    and "solve_loop fuel sv rn sol st = Some (res, st')"
  shows "(res = CoreLeft \<longrightarrow> reduces p0 (ss_problem st')) \<and>
    (\<forall>opt asg. res = Returned PBQP_OK (opt, asg) \<longrightarrow> optimal p0 opt asg)"
  using assms(1,5)
proof (induction fuel arbitrary: rn st)
  case (Suc fuel)
  show ?case
  proof (cases "FindReducibleNode (ss_problem st)")
    case None
    then show ?thesis
      using Suc.prems assms(2,4) reduces_empty[OF Suc.prems(1) _ assms(2)] by (auto simp: Let_def split: if_splits)
  next
    case (Some n)
    obtain status st1 where r: "reduce_node sv n st = (status, st1)" by fastforce
    show ?thesis
    proof (cases "status = PBQP_OK")
      case True
      then have "reduces p0 (ss_problem st1)" using reduce_node_reduces[OF Suc.prems(1) Some assms(3)] r by simp
      then show ?thesis
        using Suc.IH[of "with_statistics (record_after_rn rn (degree_of (ss_problem st) n)) st1" rn] Suc.prems(2) Some r True
        by (simp add: Let_def)
    next
      case False
      then show ?thesis using Suc.prems(2) Some r by (auto simp: Let_def)
    qed
  qed
qed simp

end

end
