(* ===== verification/Pbqp_Rn_Correct.thy ===== *)
theory Pbqp_Rn_Correct
  imports Pbqp_Solve_Correct
begin

text \<open>
  The heuristic RN: whatever the scores are, committing a node to a value of its domain keeps every
  assignment of the rest attainable, so a successful heuristic solve returns an assignment of the
  caller's graph together with its exact cost, an upper bound of the optimum.
\<close>

section \<open>Selection of the node\<close>

lemma select_fold:
  assumes "\<And>n t. sel = Some (n, t) \<Longrightarrow> Q n"
    and "\<And>n. n \<in> set xs \<Longrightarrow> nd_active (node_at p n) \<Longrightarrow> Q n"
    and "fold (rn_select_step policy p) xs sel = Some (n, t)"
  shows "Q n"
  using assms
proof (induction xs arbitrary: sel)
  case (Cons x xs)
  have "Q n" if "rn_select_step policy p x sel = Some (n, t)" for n t
    using that Cons.prems(1,2) by (auto simp: rn_select_step_def Let_def split: if_splits option.splits)
  then show ?case using Cons.IH[of "rn_select_step policy p x sel"] Cons.prems(2,3) by simp
qed simp

lemma select_some:
  assumes "SelectRnNode policy p = Some n"
  shows "n < pb_node_count p" and "nd_active (node_at p n)"
proof -
  obtain t where "fold (rn_select_step policy p) [0..<pb_node_count p] None = Some (n, t)"
    using assms by (auto simp: SelectRnNode_def)
  then have "n < pb_node_count p \<and> nd_active (node_at p n)"
    by (rule select_fold[rotated 2]) auto
  then show "n < pb_node_count p" and "nd_active (node_at p n)" by auto
qed

lemma select_none: "SelectRnNode policy p = None \<longleftrightarrow> ActiveNodeCount p = 0"
proof -
  have keep: "fold (rn_select_step policy p) xs (Some b) \<noteq> None" for xs b
    by (induction xs arbitrary: b) (auto simp: rn_select_step_def Let_def)
  have "fold (rn_select_step policy p) xs None = None \<longleftrightarrow> (\<forall>n \<in> set xs. \<not> nd_active (node_at p n))" for xs
  proof (induction xs)
    case (Cons x xs)
    have "rn_select_step policy p x None = (if nd_active (node_at p x) then Some (x, degree_of p x,
        if policy = PBQP_RN_MIN_WORK then rn_work p x else 0) else None)"
      by (simp add: rn_select_step_def Let_def)
    then show ?case using Cons keep by simp
  qed simp
  then show ?thesis by (auto simp: SelectRnNode_def no_active_node)
qed

section \<open>The step\<close>

lemma rn_edge_loop_graph:
  "rn_edge_loop sv vector_path n es rj st = (status, rj', st') \<Longrightarrow> same_graph (ss_problem st) (ss_problem st')"
proof (induction es arbitrary: rj st)
  case (Cons e es)
  define st1 where "st1 = with_statistics (bump (Rd rn_projection_count) 1) (with_statistics (if vector_path
       then record_rn_vector (edge_at (ss_problem st) e) n (nd_domain (node_at (ss_problem st) n))
         (nd_domain (node_at (ss_problem st) (OtherNode (edge_at (ss_problem st) e) n)))
       else fold (record_rn_scalar (edge_at (ss_problem st) e) n
         (nd_domain (node_at (ss_problem st) (OtherNode (edge_at (ss_problem st) e) n))))
         [0..<nd_domain (node_at (ss_problem st) n)]) st)"
  have st1: "same_graph (ss_problem st) (ss_problem st1)" by (simp add: st1_def)
  note run = Cons.prems[unfolded rn_edge_loop.simps Let_def st1_def[symmetric]]
  have step: "same_graph (ss_problem st) (ss_problem st')"
    if "rn_edge_loop sv vector_path n es rj2 (with_statistics f st2) = (status, rj', st')" "same_graph (ss_problem st) (ss_problem st2)"
    for rj2 f st2
    using same_graph_trans[OF that(2)] same_graph_trans[OF with_statistics_graph Cons.IH[OF that(1)]] by blast
  show ?case
  proof (cases "incident (edge_at (ss_problem st) e) n")
    case False
    then show ?thesis using run Cons.IH by simp
  next
    case True
    show ?thesis
    proof (cases "cf_rn_batching (sv_config sv) = PBQP_RN_BATCH_PER_EDGE")
      case False
      then show ?thesis using run True step[OF _ st1] by auto
    next
      case batch: True
      then show ?thesis
        using run True same_graph_trans[OF st1 on_kernel_graph] step
        by (auto split: prod.splits sum.splits)
    qed
  qed
qed simp

lemma rn_submit_graph:
  "rn_submit sv vector_path degree d rj st = (r, st') \<Longrightarrow> same_graph (ss_problem st) (ss_problem st')"
  by (auto simp: rn_submit_def split: if_splits prod.splits sum.splits dest: on_kernel_graph)

lemma rn_choose_less: "0 < d \<Longrightarrow> rn_choose scores d < d"
proof -
  assume "0 < d"
  have "fold (\<lambda>v c. if scores ! v < scores ! c then v else c) vs k < d" if "\<forall>v \<in> set vs. v < d" "k < d" for vs k
    using that by (induction vs arbitrary: k) auto
  then show ?thesis using \<open>0 < d\<close> by (simp add: rn_choose_def)
qed

lemma rn_commit_step:
  assumes wf: "pbqp_wf (ss_problem st)" and cb: "costs_bounded (ss_problem st)"
    and n: "n < pb_node_count (ss_problem st)" "nd_active (node_at (ss_problem st) n)"
    and run: "rn_commit sv n earlier scores st = (status, st')"
  shows "status = PBQP_OK" and "attained_step n (ss_problem st) (ss_problem st')"
proof -
  let ?d = "nd_domain (node_at (ss_problem st) n)"
  have "0 < ?d" using wf n by (simp add: pbqp_wf_def graph_ok_def)
  note c = rn_choose_less[OF this, of scores]
  let ?p = "(ss_problem st)\<lparr>pb_statistics := (pb_statistics (ss_problem st))
    (Ar rn_nodes (wrapping_difference 32 (pb_statistics (ss_problem st) (Rd rn_count)) 1) := n,
     Ar rn_choices (wrapping_difference 32 (pb_statistics (ss_problem st) (Rd rn_count)) 1) := rn_choose scores ?d)\<rparr>"
  obtain s p' where cn: "ConditionNode n (rn_choose scores ?d) kReductionRN ?p = (s, p')" by fastforce
  have step: "s = PBQP_OK" "attained_step n ?p p'"
    using condition_node_step(1,2)[OF _ _ _ _ _ _ _ cn] wf cb n c by auto
  then show "status = PBQP_OK" and "attained_step n (ss_problem st) (ss_problem st')"
    using run cn by (auto simp: rn_commit_def Let_def split: prod.splits if_splits)
qed

lemma rn_submit_failure: "rn_submit sv vp degree d rj st \<noteq> (Inl PBQP_OK, st')"
  by (auto simp: rn_submit_def split: prod.splits sum.splits)

lemma reduce_rn_run:
  assumes run: "ReduceRN sv n st = (PBQP_OK, st')"
  obtains scores st3 where "same_graph (ss_problem st) (ss_problem st3)"
    and "rn_commit sv n (pb_statistics (ss_problem st)) scores st3 = (PBQP_OK, st')"
proof -
  let ?p = "ss_problem st"
  let ?per_node = "cf_rn_batching (sv_config sv) = PBQP_RN_BATCH_PER_NODE"
  let ?vp = "?per_node \<and> project_add_batch (sv_api sv) \<noteq> None"
  let ?d = "nd_domain (node_at ?p n)" and ?deg = "degree_of ?p n"
  let ?jobs = "if ?per_node then ?deg * ?d else ?d"
  obtain ok st1 where ws: "workspace sv (if ?vp then [?d, ?deg, ?deg * ?d] else [?d, ?jobs, ?jobs]) st = (ok, st1)" by fastforce
  let ?rj = "\<lparr>rj_scores = copy_prefix ?d (nd_unary (node_at ?p n)) (replicate ?d 0), rj_jobs = [], rj_vector_jobs = []\<rparr>"
  let ?st = "with_statistics (record_rn_node ?deg) st1"
  obtain status rj st2 where loop: "rn_edge_loop sv ?vp n [0..<pb_edge_capacity ?p] ?rj ?st = (status, rj, st2)"
    by (metis prod_cases3)
  obtain r st3 where sub: "rn_submit sv ?vp ?deg ?d rj st2 = (r, st3)" by fastforce
  have rest: "(case r of Inl failed \<Rightarrow> (failed, st3) | Inr scores \<Rightarrow> rn_commit sv n (pb_statistics ?p) scores st3) = (PBQP_OK, st')"
    using run unfolding ReduceRN_def Let_def ws prod.case loop sub by (auto split: if_splits)
  have "r \<noteq> Inl PBQP_OK" using rn_submit_failure[of sv ?vp ?deg ?d rj st2 st3] sub by auto
  then obtain scores where "r = Inr scores" using rest by (cases r) auto
  moreover have "same_graph ?p (ss_problem ?st)" by (simp add: workspace_problem[OF ws])
  then have "same_graph ?p (ss_problem st3)"
    using same_graph_trans rn_edge_loop_graph[OF loop] rn_submit_graph[OF sub] by blast
  ultimately show ?thesis using that rest by simp
qed

lemma reduce_rn_attained:
  assumes wf: "pbqp_wf (ss_problem st)" and cb: "costs_bounded (ss_problem st)"
    and n: "n < pb_node_count (ss_problem st)" "nd_active (node_at (ss_problem st) n)"
    and run: "ReduceRN sv n st = (PBQP_OK, st')"
  shows "attained_step n (ss_problem st) (ss_problem st')"
proof -
  obtain scores st3 where "same_graph (ss_problem st) (ss_problem st3)"
    and commit: "rn_commit sv n (pb_statistics (ss_problem st)) scores st3 = (PBQP_OK, st')"
    by (rule reduce_rn_run[OF run])
  then obtain s where "ss_problem st3 = (ss_problem st)\<lparr>pb_statistics := s\<rparr>" by (auto simp: same_graph_def)
  then show ?thesis using rn_commit_step(2)[OF _ _ _ _ commit] wf cb n by simp
qed

section \<open>The heuristic solve\<close>

lemma rn_episode_attained:
  assumes at: "attains p0 (ss_problem st)" and run: "rn_episode_step sv rn st = (PBQP_OK, rn', st')"
  shows "attains p0 (ss_problem st')"
proof -
  let ?st = "set_problem (RecordIrreducibleCore (ss_problem (with_statistics (record_rn_cascade rn) st)))
    (with_statistics (record_rn_cascade rn) st)"
  obtain s where s: "ss_problem ?st = (ss_problem st)\<lparr>pb_statistics := s\<rparr>"
    by (simp add: RecordIrreducibleCore_def Let_def)
  obtain n st1 where n: "SelectRnNode (cf_rn_policy (sv_config sv)) (ss_problem ?st) = Some n"
    and r: "ReduceRN sv n (Emit sv PBQP_TRACE_RN_SELECT PBQP_TRACE_HEURISTIC (int n) (- 1) no_work ?st) = (PBQP_OK, st')"
    using run unfolding rn_episode_step_def Let_def by (auto split: option.splits prod.splits if_splits)
  have "attained_step n (ss_problem st) (ss_problem st')"
    using reduce_rn_attained[OF _ _ _ _ r, unfolded emit_problem s] select_some[OF n, unfolded s] at
    by (simp add: attains_def)
  then show ?thesis by (rule attains_step[OF at])
qed

context cost_kernel
begin

lemma solve_loop_heuristic:
  assumes "attains p0 (ss_problem st)" and "pb_node_count p0 \<le> length (snd sol)" and "sv_api sv = api"
    and "solve_loop fuel sv rn sol st = Some (res, st')" and "res = Returned PBQP_OK (opt, asg)"
  shows "achieves p0 opt asg"
  using assms(1,4)
proof (induction fuel arbitrary: rn st)
  case (Suc fuel)
  show ?case
  proof (cases "FindReducibleNode (ss_problem st)")
    case None
    show ?thesis
    proof (cases "ActiveNodeCount (ss_problem st) = 0")
      case True
      then show ?thesis
        using Suc.prems(2) None assms(5) attains_empty[OF Suc.prems(1) True assms(2)] by (auto simp: Let_def)
    next
      case False
      obtain status rn' st1 where ep: "rn_episode_step sv rn st = (status, rn', st1)" by (metis prod_cases3)
      have "solve_loop fuel sv rn' sol st1 = Some (res, st')" "status = PBQP_OK"
        using Suc.prems(2) None assms(5) False ep by (auto split: if_splits)
      then show ?thesis using Suc.IH rn_episode_attained[OF Suc.prems(1)] ep by blast
    qed
  next
    case (Some n)
    obtain status st1 where r: "reduce_node sv n st = (status, st1)" by fastforce
    let ?st = "with_statistics (record_after_rn rn (degree_of (ss_problem st) n)) st1"
    have ok: "status = PBQP_OK" and rest: "solve_loop fuel sv rn sol ?st = Some (res, st')"
      using Suc.prems(2) Some r assms(5) by (auto simp: Let_def split: if_splits)
    have "attains p0 (ss_problem st1)" using reduce_node_attains[OF Suc.prems(1) Some assms(3)] r ok by simp
    then show ?thesis using Suc.IH[OF _ rest] by simp
  qed
qed simp

end

end
