(* ===== verification/Pbqp_Branch_Correct.thy ===== *)
theory Pbqp_Branch_Correct
  imports Pbqp_Rn_Correct
begin

text \<open>
  Branch and reduce: \<open>RemainingCoreLowerBound\<close> never exceeds the cost of the remaining core, so a pruned
  branch holds nothing better than the best known solution, and the search returns an optimum.
\<close>

section \<open>The lower bound\<close>

lemma fold_min:
  fixes f :: "'a \<Rightarrow> int"
  shows "fold (\<lambda>i m. min (f i) m) xs m \<le> m"
    and "i \<in> set xs \<Longrightarrow> fold (\<lambda>i m. min (f i) m) xs m \<le> f i"
    and "fold (\<lambda>i m. min (f i) m) xs m = m \<or> (\<exists>i \<in> set xs. fold (\<lambda>i m. min (f i) m) xs m = f i)"
proof -
  have le: "fold (\<lambda>i m. min (f i) m) xs m \<le> m" for xs m
  proof (induction xs arbitrary: m)
    case (Cons x xs)
    then show ?case using order_trans[OF Cons.IH[of "min (f x) m"], of m] by simp
  qed simp
  show "fold (\<lambda>i m. min (f i) m) xs m \<le> m" by (rule le)
  show "i \<in> set xs \<Longrightarrow> fold (\<lambda>i m. min (f i) m) xs m \<le> f i"
  proof (induction xs arbitrary: m)
    case (Cons x xs)
    then show ?case using order_trans[OF le[of xs "min (f x) m"], of "f x"] by auto
  qed simp
  show "fold (\<lambda>i m. min (f i) m) xs m = m \<or> (\<exists>i \<in> set xs. fold (\<lambda>i m. min (f i) m) xs m = f i)"
  proof (induction xs arbitrary: m)
    case (Cons x xs)
    show ?case using Cons.IH[of "min (f x) m"] by (auto simp: min_def split: if_splits)
  qed simp
qed

definition node_minimum :: "pbqp_problem \<Rightarrow> nat \<Rightarrow> int" where
  "node_minimum p k = fold (\<lambda>choice minimum. min (nd_unary (node_at p k) ! choice) minimum)
     [1..<nd_domain (node_at p k)] (nd_unary (node_at p k) ! 0)"

definition edge_minimum :: "pbqp_problem \<Rightarrow> nat \<Rightarrow> int" where
  "edge_minimum p e = fold (\<lambda>(row, col) minimum. min (eg_cost (edge_at p e) ! (row * eg_stride (edge_at p e) + col)) minimum)
     (List.product [0..<nd_domain (node_at p (eg_first (edge_at p e)))] [0..<nd_domain (node_at p (eg_second (edge_at p e)))])
     (eg_cost (edge_at p e) ! 0)"

lemma node_minimum:
  assumes "0 < nd_domain (node_at p k)"
  shows "v < nd_domain (node_at p k) \<Longrightarrow> node_minimum p k \<le> nd_unary (node_at p k) ! v"
    and "\<exists>v < nd_domain (node_at p k). node_minimum p k = nd_unary (node_at p k) ! v"
proof -
  note fm = fold_min[where f = "\<lambda>i. nd_unary (node_at p k) ! i" and xs = "[1..<nd_domain (node_at p k)]"
      and m = "nd_unary (node_at p k) ! 0", folded node_minimum_def]
  show "v < nd_domain (node_at p k) \<Longrightarrow> node_minimum p k \<le> nd_unary (node_at p k) ! v"
    using fm(1) fm(2)[of v] by (cases "v = 0") auto
  show "\<exists>v < nd_domain (node_at p k). node_minimum p k = nd_unary (node_at p k) ! v"
    using fm(3) assms by auto
qed

lemma edge_minimum:
  assumes "0 < nd_domain (node_at p (eg_first (edge_at p e)))" and "0 < nd_domain (node_at p (eg_second (edge_at p e)))"
  shows "a < nd_domain (node_at p (eg_first (edge_at p e))) \<Longrightarrow> b < nd_domain (node_at p (eg_second (edge_at p e))) \<Longrightarrow>
      edge_minimum p e \<le> edge_cost (edge_at p e) a b"
    and "\<exists>a b. a < nd_domain (node_at p (eg_first (edge_at p e))) \<and> b < nd_domain (node_at p (eg_second (edge_at p e))) \<and>
      edge_minimum p e = edge_cost (edge_at p e) a b"
proof -
  let ?ps = "List.product [0..<nd_domain (node_at p (eg_first (edge_at p e)))] [0..<nd_domain (node_at p (eg_second (edge_at p e)))]"
  have eq: "edge_minimum p e = fold (\<lambda>i m. min (case i of (a, b) \<Rightarrow> edge_cost (edge_at p e) a b) m) ?ps (eg_cost (edge_at p e) ! 0)"
    unfolding edge_minimum_def by (intro fold_cong) (auto simp: edge_cost_def)
  note fm = fold_min[where f = "\<lambda>(a, b). edge_cost (edge_at p e) a b" and xs = ?ps and m = "eg_cost (edge_at p e) ! 0", folded eq]
  show "a < nd_domain (node_at p (eg_first (edge_at p e))) \<Longrightarrow> b < nd_domain (node_at p (eg_second (edge_at p e))) \<Longrightarrow>
      edge_minimum p e \<le> edge_cost (edge_at p e) a b"
    using fm(2)[of "(a, b)"] by simp
  have "eg_cost (edge_at p e) ! 0 = edge_cost (edge_at p e) 0 0" by (simp add: edge_cost_def)
  then show "\<exists>a b. a < nd_domain (node_at p (eg_first (edge_at p e))) \<and> b < nd_domain (node_at p (eg_second (edge_at p e))) \<and>
      edge_minimum p e = edge_cost (edge_at p e) a b"
    using fm(3) assms by fastforce
qed

lemma lower_bound_eq:
  "RemainingCoreLowerBound p =
     fold (\<lambda>e s. if eg_active (edge_at p e) then accel_cost_add s (edge_minimum p e) else s) [0..<pb_edge_capacity p]
       (fold (\<lambda>k s. if nd_active (node_at p k) then accel_cost_add s (node_minimum p k) else s) [0..<pb_node_capacity p] 0)"
proof -
  have swap: "(if \<not> b then x else y) = (if b then y else x)" for b and x y :: int by simp
  show ?thesis unfolding RemainingCoreLowerBound_def Let_def swap node_minimum_def edge_minimum_def ..
qed

lemma lower_bound_value:
  assumes wf: "pbqp_wf p" and w: "weighted p wo wn we"
  shows "cost_abs (RemainingCoreLowerBound p) =
      (\<Sum>k<pb_node_count p. if nd_active (node_at p k) then cost_abs (node_minimum p k) else 0) +
      (\<Sum>e<pb_edge_capacity p. if eg_active (edge_at p e) then cost_abs (edge_minimum p e) else 0)"
    and "within p (sum wn {..<pb_node_count p} + sum we {..<pb_edge_capacity p}) (RemainingCoreLowerBound p)"
proof -
  have t: "tables_within p wo wn we" using w by (simp add: weighted_def)
  have cap: "pb_node_count p \<le> pb_node_capacity p" using wf by (simp add: pbqp_wf_def shape_ok_def)
  have dom: "0 < nd_domain (node_at p k)" if "k < pb_node_count p" for k using wf that by (simp add: pbqp_wf_def graph_ok_def)
  have act: "k < pb_node_count p" if "k < pb_node_capacity p" "nd_active (node_at p k)" for k
    using wf that by (simp add: pbqp_wf_def graph_ok_def)
  let ?wn = "\<lambda>k. if k < pb_node_count p then wn k else 0"
  have sumw: "sum ?wn {..<pb_node_capacity p} = sum wn {..<pb_node_count p}"
    using cap by (intro sum.mono_neutral_cong_right) auto
  have fit: "sum wn {..<pb_node_count p} + sum we {..<pb_edge_capacity p} \<le> pb_node_capacity p + pb_edge_capacity p"
    using w by (simp add: weighted_def)
  have wm: "within p (?wn k) (node_minimum p k)" if "k < pb_node_capacity p" "nd_active (node_at p k)" for k
    using node_minimum(2)[OF dom[OF act[OF that]]] tables_withinD(2)[OF t act[OF that] that(2)] act[OF that] by auto
  have em: "within p (we e) (edge_minimum p e)" if "e < pb_edge_capacity p" "eg_active (edge_at p e)" for e
    using edge_minimum(2)[OF dom dom] wf_edge[OF wf that] tables_withinD(3)[OF t that] by metis
  let ?s = "fold (\<lambda>k s. if nd_active (node_at p k) then accel_cost_add s (node_minimum p k) else s) [0..<pb_node_capacity p] 0"
  have s: "cost_abs ?s = (\<Sum>k<pb_node_capacity p. if nd_active (node_at p k) then cost_abs (node_minimum p k) else 0)"
    "within p (sum wn {..<pb_node_count p}) ?s"
    using fold_add_range[of p 0 0 "pb_node_capacity p" "\<lambda>k. nd_active (node_at p k)" ?wn "node_minimum p"] wm fit sumw by auto
  have nc: "(\<Sum>k<pb_node_capacity p. if nd_active (node_at p k) then cost_abs (node_minimum p k) else 0) =
      (\<Sum>k<pb_node_count p. if nd_active (node_at p k) then cost_abs (node_minimum p k) else 0)"
    using cap by (intro sum.mono_neutral_right) (use act in force)+
  show "cost_abs (RemainingCoreLowerBound p) =
      (\<Sum>k<pb_node_count p. if nd_active (node_at p k) then cost_abs (node_minimum p k) else 0) +
      (\<Sum>e<pb_edge_capacity p. if eg_active (edge_at p e) then cost_abs (edge_minimum p e) else 0)"
    and "within p (sum wn {..<pb_node_count p} + sum we {..<pb_edge_capacity p}) (RemainingCoreLowerBound p)"
    using fold_add_range[of p _ ?s "pb_edge_capacity p" "\<lambda>e. eg_active (edge_at p e)" we "edge_minimum p", OF s(2) em fit] s(1) nc
    by (simp_all add: lower_bound_eq)
qed

lemma lower_bound_below:
  assumes wf: "pbqp_wf p" and cb: "costs_bounded p" and x: "valid_assignment p x"
  shows "cost_abs (accel_cost_add (pb_objective_offset p) (RemainingCoreLowerBound p)) \<le> total_cost p x"
    and "accel_cost_add (pb_objective_offset p) (RemainingCoreLowerBound p) \<le> ACCEL_INF"
proof -
  obtain wo wn we where w: "weighted p wo wn we" using cb by (auto simp: costs_bounded_def)
  then have t: "tables_within p wo wn we" and fit: "wo + (sum wn {..<pb_node_count p} + sum we {..<pb_edge_capacity p}) \<le>
      pb_node_capacity p + pb_edge_capacity p" by (auto simp: weighted_def)
  note lb = lower_bound_value[OF wf w] and add = add_exact[OF tables_withinD(1)[OF t] lower_bound_value(2)[OF wf w] fit]
  have dom: "0 < nd_domain (node_at p k)" if "k < pb_node_count p" for k using wf that by (simp add: pbqp_wf_def graph_ok_def)
  have le: "c \<le> ACCEL_INF" if "within p v c" "v \<le> pb_node_capacity p + pb_edge_capacity p" for v c
    using within_valid that by blast
  have wn: "wn k \<le> pb_node_capacity p + pb_edge_capacity p" if "k < pb_node_count p" for k
    using member_le_sum[of k "{..<pb_node_count p}" wn] that fit by simp
  have we: "we e \<le> pb_node_capacity p + pb_edge_capacity p" if "e < pb_edge_capacity p" for e
    using member_le_sum[of e "{..<pb_edge_capacity p}" we] that fit by simp
  have "cost_abs (node_minimum p k) \<le> cost_abs (nd_unary (node_at p k) ! (x ! k))"
    if k: "k < pb_node_count p" "nd_active (node_at p k)" for k
  proof -
    have v: "x ! k < nd_domain (node_at p k)" using x k by (simp add: valid_assignment_def)
    show ?thesis using node_minimum(1)[OF dom[OF k(1)] v] le[OF tables_withinD(2)[OF t k v] wn[OF k(1)]]
      by (intro cost_abs_mono) auto
  qed
  moreover have "cost_abs (edge_minimum p e) \<le> cost_abs (edge_cost (edge_at p e) (x ! eg_first (edge_at p e)) (x ! eg_second (edge_at p e)))"
    if e: "e < pb_edge_capacity p" "eg_active (edge_at p e)" for e
    using edge_minimum(1)[OF dom[OF wf_edge(1)[OF wf e]] dom[OF wf_edge(2)[OF wf e]] valid_edge_values[OF wf x e]]
      le[OF tables_withinD(3)[OF t e valid_edge_values[OF wf x e]] we[OF e(1)]] by (intro cost_abs_mono) auto
  ultimately have "cost_abs (RemainingCoreLowerBound p) \<le> core_cost p x"
    unfolding lb(1) core_cost_def node_term_def edge_term_def by (intro add_mono sum_mono) auto
  then show "cost_abs (accel_cost_add (pb_objective_offset p) (RemainingCoreLowerBound p)) \<le> total_cost p x"
    by (simp add: add(2) total_cost_def add_left_mono)
  show "accel_cost_add (pb_objective_offset p) (RemainingCoreLowerBound p) \<le> ACCEL_INF" by (rule le[OF add(3) fit])
qed

section \<open>Clones\<close>

lemma clone_graph:
  assumes sh: "shape_ok (ss_problem st)" and alloc: "pb_allocator (ss_problem st)"
    and run: "clone_state sv st = (PBQP_OK, child, st')"
  shows "same_graph (ss_problem st) child" and "ss_problem st' = ss_problem st"
proof -
  let ?p = "ss_problem st"
  show "ss_problem st' = ?p" using run by (auto simp: clone_state_def Let_def split: prod.splits)
  have un: "unat (of_nat (pb_node_capacity ?p) :: u32) = pb_node_capacity ?p"
    "unat (of_nat (pb_edge_capacity ?p) :: u32) = pb_edge_capacity ?p"
    "unat (of_nat (pb_domain_capacity ?p) :: u32) = pb_domain_capacity ?p"
  proof -
    have "pb_domain_capacity ?p \<le> pb_domain_capacity ?p * pb_domain_capacity ?p" using sh by (simp add: shape_ok_def)
    moreover have "pb_domain_capacity ?p * pb_domain_capacity ?p < 2 ^ 32" using sh by (simp add: shape_ok_def)
    ultimately have "pb_domain_capacity ?p < 2 ^ 32" by linarith
    then show "unat (of_nat (pb_node_capacity ?p) :: u32) = pb_node_capacity ?p"
      "unat (of_nat (pb_edge_capacity ?p) :: u32) = pb_edge_capacity ?p"
      "unat (of_nat (pb_domain_capacity ?p) :: u32) = pb_domain_capacity ?p"
      using sh by (simp_all add: shape_ok_def unat_of_nat)
  qed
  have st: "pb_storage ?p" using run
    by (auto simp: clone_state_def Let_def pbqp_problem_clone_def split: prod.splits if_splits)
  show "same_graph ?p child"
    using run st alloc
    by (auto simp: clone_state_def Let_def pbqp_problem_clone_def pbqp_init_def un zeroed_problem_def empty_problem_def
        same_graph_def split: prod.splits if_splits option.splits intro!: pbqp_problem.equality)
qed

section \<open>Results of a branch\<close>

text \<open>
  What a call of the search establishes for the graph \<open>p\<close> it was given, when \<open>p0\<close> is the caller's
  graph: a solution at least as good as every assignment that beats the best known cost, or, when
  pruned, that nothing beats it.
\<close>

definition branch_result :: "pbqp_problem \<Rightarrow> pbqp_problem \<Rightarrow> int \<Rightarrow> pbqp_status \<Rightarrow> solution_cell \<Rightarrow> bool" where
  "branch_result p0 p best_known status sol \<longleftrightarrow>
     (status = PBQP_OK \<longrightarrow> achieves p0 (fst sol) (snd sol) \<and>
        (\<forall>x. valid_assignment p x \<longrightarrow> min (cost_abs (fst sol)) (cost_abs best_known) \<le> total_cost p x)) \<and>
     (status = PBQP_PRUNED \<longrightarrow> best_known \<noteq> ACCEL_INF \<and>
        (\<forall>x. valid_assignment p x \<longrightarrow> cost_abs best_known \<le> total_cost p x))"

definition branch_sound :: "pbqp_problem \<Rightarrow> 'k branch_solver \<Rightarrow> bool" where
  "branch_sound p0 solve \<longleftrightarrow> (\<forall>depth search best_known sol st status sol' search' st'.
     solve depth search best_known sol st = Some (status, sol', search', st') \<longrightarrow>
     attains p0 (ss_problem st) \<longrightarrow> best_known \<le> ACCEL_INF \<longrightarrow> pb_node_count p0 \<le> length (snd sol) \<longrightarrow>
     branch_result p0 (ss_problem st) best_known status sol')"

lemma branch_soundD:
  "branch_sound p0 solve \<Longrightarrow> solve depth search bk sol st = Some (status, sol', search', st') \<Longrightarrow>
   attains p0 (ss_problem st) \<Longrightarrow> bk \<le> ACCEL_INF \<Longrightarrow> pb_node_count p0 \<le> length (snd sol) \<Longrightarrow>
   branch_result p0 (ss_problem st) bk status sol'"
  unfolding branch_sound_def by blast

lemma branch_resultI:
  assumes "branch_result p0 q bk status sol" and "\<And>x. valid_assignment p x \<Longrightarrow> valid_assignment q x \<and> total_cost q x \<le> total_cost p x"
  shows "branch_result p0 p bk status sol"
  using assms unfolding branch_result_def by (meson order_trans)

lemma achieves_copy:
  assumes wf: "pbqp_wf p0" and ach: "achieves p0 c y" and n: "n = pb_node_count p0"
  shows "achieves p0 c (copy_prefix n y z)"
proof -
  have len: "n \<le> length y" using ach n by (simp add: achieves_def valid_assignment_def)
  have nth: "copy_prefix n y z ! k = y ! k" if "k < n" for k using that len by (simp add: copy_prefix_def nth_append)
  have "node_term p0 (copy_prefix n y z) k = node_term p0 y k" if "k < n" for k using that by (simp add: node_term_def nth)
  moreover have "edge_term p0 (copy_prefix n y z) e = edge_term p0 y e" if "e < pb_edge_capacity p0" for e
    using wf_edge(1,2)[OF wf that] by (simp add: edge_term_def nth n[symmetric])
  ultimately have "total_cost p0 (copy_prefix n y z) = total_cost p0 y" by (simp add: total_cost_def core_cost_def n)
  moreover have "valid_assignment p0 (copy_prefix n y z)"
    using ach len by (auto simp: valid_assignment_def achieves_def nth n[symmetric]) (simp add: copy_prefix_def)
  ultimately show ?thesis using ach by (simp add: achieves_def)
qed

text \<open>The best solution of a loop over the values, as a cost.\<close>

definition best_cost :: "solution_cell option \<Rightarrow> int" where
  "best_cost best = (case best of None \<Rightarrow> ACCEL_INF | Some b \<Rightarrow> fst b)"

definition best_good :: "pbqp_problem \<Rightarrow> solution_cell option \<Rightarrow> bool" where
  "best_good p0 best \<longleftrightarrow> (\<forall>c x. best = Some (c, x) \<longrightarrow> achieves p0 c x)"

lemma child_best_known_abs:
  assumes "best_good p0 best" and "bk \<le> ACCEL_INF"
  shows "cost_abs (child_best_known bk best) = min (cost_abs (best_cost best)) (cost_abs bk)"
    and "child_best_known bk best \<le> ACCEL_INF"
proof -
  have "best_cost best \<le> ACCEL_INF" using assms(1) by (cases best) (auto simp: best_cost_def best_good_def achieves_def)
  moreover have "child_best_known bk best = min (best_cost best) bk"
    by (auto simp: child_best_known_def best_cost_def Let_def min_def split: option.splits)
  ultimately show "cost_abs (child_best_known bk best) = min (cost_abs (best_cost best)) (cost_abs bk)"
    and "child_best_known bk best \<le> ACCEL_INF"
    using assms(2) cost_abs_le_iff[of "best_cost best" bk] by (auto simp: min_def)
qed

section \<open>The loop over the values\<close>

lemma branch_values_step:
  assumes run: "branch_values solve sv n depth bk base (v # vs) bl = Some (Inr bl')"
    and parent: "parent = ss_problem (bl_state bl)" and sh: "shape_ok parent" and alloc: "pb_allocator parent"
  obtains s child status cand search st1 st2 depth' search' where
    "ConditionNode n v kReductionBranch (parent\<lparr>pb_statistics := s\<rparr>) = (PBQP_OK, child)"
    and "solve depth' search (child_best_known bk (bl_best bl)) (ACCEL_INF, replicate (pb_node_count parent) 0) st1 =
      Some (status, cand, search', st2)"
    and "ss_problem st1 = child" and "status = PBQP_OK \<or> status = PBQP_PRUNED"
    and "branch_values solve sv n depth bk base vs (branch_merge base status cand search' parent st2 bl) = Some (Inr bl')"
proof -
  obtain cs cloned stc where cl: "clone_state sv (bl_state bl) = (cs, cloned, stc)" by (metis prod_cases3)
  note run1 = run[unfolded branch_values.simps Let_def cl prod.case parent[symmetric]]
  have cs: "cs = PBQP_OK" using run1 by (auto split: if_splits prod.splits)
  obtain s0 where cloned: "cloned = parent\<lparr>pb_statistics := s0\<rparr>"
    using clone_graph(1)[OF _ _ cl[unfolded cs]] sh alloc parent by (auto simp: same_graph_def)
  define child0 where "child0 = cloned\<lparr>pb_statistics := copy_statistics (pb_statistics cloned)
    (share_arrays (pb_statistics parent) base) (pb_node_capacity cloned) (pb_domain_capacity cloned)\<rparr>"
  obtain cond child where cn: "ConditionNode n v kReductionBranch child0 = (cond, child)" by fastforce
  note run2 = run1[folded child0_def, unfolded cn prod.case]
  have cond: "cond = PBQP_OK" using run2 cs by (auto split: if_splits)
  define st2 where "st2 = Emit sv PBQP_TRACE_BRANCH_CONDITION PBQP_TRACE_EXACT_SEARCH (int n) (int v)
    (no_work\<lparr>wk_slice := branch_elements child0 n, wk_structural := 1, wk_operand_bytes := 2 * branch_elements child0 n * 4,
       wk_result_bytes := branch_elements child0 n * 4\<rparr>) (set_problem child stc)"
  note run3 = run2[folded st2_def]
  obtain ok st3 where ws: "workspace sv [pb_node_count parent] (set_problem parent st2) = (ok, st3)" by fastforce
  note run4 = run3[unfolded ws prod.case]
  have ok: "ok" using run4 cs cond by (auto split: if_splits prod.splits)
  let ?search = "(bl_search bl)\<lparr>sc_branches_created := count_up 64 (sc_branches_created (bl_search bl))\<rparr>"
  obtain status cand search' st4 where sol: "solve (depth + 1) ?search (child_best_known bk (bl_best bl))
      (ACCEL_INF, replicate (pb_node_count parent) 0) (set_problem child st3) = Some (status, cand, search', st4)"
    using run4 cs cond ok by (auto split: option.splits)
  have rest: "status = PBQP_OK \<or> status = PBQP_PRUNED"
    "branch_values solve sv n depth bk base vs (branch_merge base status cand search' parent st4 bl) = Some (Inr bl')"
    using run4 cs cond ok sol by (auto split: if_splits)
  show ?thesis
    by (rule that[OF _ sol _ rest]) (use cn cond in \<open>auto simp: child0_def cloned\<close>)
qed

lemma branch_values_sound:
  assumes sound: "branch_sound p0 solve" and at: "attains p0 p" and wf0: "pbqp_wf p0" and alloc: "pb_allocator p0"
    and n: "n < pb_node_count p" "nd_active (node_at p n)" and bk: "bk \<le> ACCEL_INF" and d: "d = nd_domain (node_at p n)"
    and "v \<le> d" and "same_graph p (ss_problem (bl_state bl))" and "best_good p0 (bl_best bl)"
    and "\<And>x. valid_assignment p x \<Longrightarrow> x ! n < v \<Longrightarrow> min (cost_abs (best_cost (bl_best bl))) (cost_abs bk) \<le> total_cost p x"
    and "bl_best bl = None \<Longrightarrow> 0 < v \<Longrightarrow> bk \<noteq> ACCEL_INF"
    and "branch_values solve sv n depth bk base [v..<d] bl = Some (Inr bl')"
  shows "best_good p0 (bl_best bl') \<and> (bl_best bl' = None \<longrightarrow> 0 < d \<longrightarrow> bk \<noteq> ACCEL_INF) \<and>
    (\<forall>x. valid_assignment p x \<longrightarrow> min (cost_abs (best_cost (bl_best bl'))) (cost_abs bk) \<le> total_cost p x)"
  using assms(9-)
proof (induction "d - v" arbitrary: v bl)
  case 0
  have "x ! n < v" if "valid_assignment p x" for x using that n 0(1,2) d by (simp add: valid_assignment_def)
  then show ?case using 0 by auto
next
  case (Suc k)
  define parent where "parent = ss_problem (bl_state bl)"
  obtain s0 where par: "parent = p\<lparr>pb_statistics := s0\<rparr>" using Suc.prems(2) by (auto simp: parent_def same_graph_def)
  have wf: "pbqp_wf p" "costs_bounded p" "pb_allocator p" "pb_node_count p = pb_node_count p0"
    using at alloc by (auto simp: attains_def)
  have v: "v < d" "[v..<d] = v # [Suc v..<d]" using Suc(2) by (auto simp: upt_conv_Cons)
  obtain s child status cand search st1 st2 depth' search' where
    cn: "ConditionNode n v kReductionBranch (parent\<lparr>pb_statistics := s\<rparr>) = (PBQP_OK, child)"
    and sol: "solve depth' search (child_best_known bk (bl_best bl)) (ACCEL_INF, replicate (pb_node_count parent) 0) st1 =
      Some (status, cand, search', st2)" and st1: "ss_problem st1 = child"
    and status: "status = PBQP_OK \<or> status = PBQP_PRUNED"
    and rest: "branch_values solve sv n depth bk base [Suc v..<d] (branch_merge base status cand search' parent st2 bl) = Some (Inr bl')"
    by (rule branch_values_step[OF Suc.prems(6)[unfolded v(2)] parent_def]) (use wf in \<open>auto simp: par pbqp_wf_def shape_ok_def\<close>)
  have step: "attained_step n p child" "\<And>x. valid_assignment p x \<Longrightarrow> x ! n = v \<Longrightarrow> total_cost child x = total_cost p x"
    using condition_node_step(2,3)[OF _ _ _ _ _ _ _ cn] wf n v(1) d by (auto simp: par)
  note bg = Suc.prems(3) and cbk = child_best_known_abs[OF Suc.prems(3) bk]
  have res: "branch_result p0 child (child_best_known bk (bl_best bl)) status cand"
    using branch_soundD[OF sound sol] attains_step[OF at step(1)] cbk(2) wf(4) by (simp add: st1 par)
  let ?bl = "branch_merge base status cand search' parent st2 bl"
  have merge: "same_graph p (ss_problem (bl_state ?bl))" by (simp add: branch_merge_def Let_def par)
  have best: "bl_best ?bl = (if status = PBQP_OK \<and> (bl_best bl = None \<or> fst cand < best_cost (bl_best bl))
      then Some (fst cand, copy_prefix (pb_node_count p) (snd cand) (case bl_best bl of None \<Rightarrow> bl_best_array bl | Some b \<Rightarrow> snd b))
      else bl_best bl)"
    by (simp add: branch_merge_def Let_def par best_cost_def split: option.splits)
  have ach: "achieves p0 (fst cand) (snd cand)" if "status = PBQP_OK" using res that by (simp add: branch_result_def)
  have good: "best_good p0 (bl_best ?bl)"
    using bg achieves_copy[OF wf0 ach wf(4)] by (auto simp: best best_good_def)
  have smaller: "cost_abs (best_cost (bl_best ?bl)) \<le> cost_abs (best_cost (bl_best bl))"
    "status = PBQP_OK \<Longrightarrow> cost_abs (best_cost (bl_best ?bl)) \<le> cost_abs (fst cand)"
  proof -
    have le: "best_cost (bl_best bl) \<le> ACCEL_INF"
      using bg by (cases "bl_best bl") (auto simp: best_cost_def best_good_def achieves_def)
    have le': "fst cand \<le> ACCEL_INF" if "status = PBQP_OK" using ach[OF that] by (simp add: achieves_def)
    show "cost_abs (best_cost (bl_best ?bl)) \<le> cost_abs (best_cost (bl_best bl))"
      using le le' by (auto simp: best best_cost_def intro!: cost_abs_mono)
    show "cost_abs (best_cost (bl_best ?bl)) \<le> cost_abs (fst cand)" if "status = PBQP_OK"
      unfolding best best_cost_def using le le'[OF that] that
      by (cases "bl_best bl") (auto simp: best_cost_def intro!: cost_abs_mono)
  qed
  have now: "min (cost_abs (best_cost (bl_best ?bl))) (cost_abs bk) \<le> total_cost p x" if x: "valid_assignment p x" "x ! n < Suc v" for x
  proof (cases "x ! n = v")
    case False
    then have "min (cost_abs (best_cost (bl_best bl))) (cost_abs bk) \<le> total_cost p x" using Suc.prems(4) x by simp
    then show ?thesis using min.mono[OF smaller(1) order_refl] order_trans by blast
  next
    case True
    have vx: "valid_assignment child x" using elim_frame_valid step(1) x(1) by (auto simp: attained_step_def)
    have "min (cost_abs (best_cost (bl_best ?bl))) (cost_abs bk) \<le> total_cost child x"
      using status
    proof
      assume ok: "status = PBQP_OK"
      then have "min (cost_abs (fst cand)) (min (cost_abs (best_cost (bl_best bl))) (cost_abs bk)) \<le> total_cost child x"
        using res vx by (simp add: branch_result_def cbk)
      then show ?thesis using smaller(1) smaller(2)[OF ok] by (auto simp: min_def split: if_splits)
    next
      assume "status = PBQP_PRUNED"
      then have "min (cost_abs (best_cost (bl_best bl))) (cost_abs bk) \<le> total_cost child x"
        using res vx by (simp add: branch_result_def cbk)
      then show ?thesis using smaller(1) by (auto simp: min_def split: if_splits)
    qed
    then show ?thesis using step(2)[OF x(1) True] by simp
  qed
  have inf: "bk \<noteq> ACCEL_INF" if "bl_best ?bl = None"
  proof -
    have "status = PBQP_PRUNED" "bl_best bl = None" using that status by (auto simp: best split: if_splits)
    then show ?thesis using res by (auto simp: branch_result_def child_best_known_def Let_def split: if_splits)
  qed
  show ?case using Suc.hyps(1)[OF _ _ merge good now _ rest] inf Suc.hyps(2) v(1) by auto
qed

text \<open>A return from the middle of the loop is a failure.\<close>

lemma condition_status: "ConditionNode n c kind p = (status, p') \<Longrightarrow> status = PBQP_OK \<or> status = PBQP_ARGUMENT_ERROR"
  by (auto simp: ConditionNode_def Let_def split: if_splits)

lemma branch_values_failure:
  "branch_values solve sv n depth bk base vs bl = Some (Inl (status, search, st)) \<Longrightarrow>
   status \<noteq> PBQP_OK \<and> status \<noteq> PBQP_PRUNED"
proof (induction vs arbitrary: bl)
  case (Cons v vs)
  then show ?case
    by (auto simp: Let_def limit_hit_def split: prod.splits if_splits option.splits dest: condition_status)
qed simp

lemma reduce_node_status:
  assumes "reduce_node sv n st = (status, st')"
  shows "status \<noteq> PBQP_PRUNED"
proof -
  have "ReduceR1 sv n e st = (status, st') \<Longrightarrow> status \<noteq> PBQP_PRUNED" for e
    by (auto simp: ReduceR1_def Let_def split: prod.splits if_splits sum.splits bool.splits)
  moreover have "ReduceR2 sv n e1 e2 st = (status, st') \<Longrightarrow> status \<noteq> PBQP_PRUNED" for e1 e2
    unfolding reduce_r2_eq[OF refl refl refl refl refl refl]
    by (auto simp: r2_finish_def Let_def split: option.splits prod.splits if_splits sum.splits bool.splits)
  moreover have "ReduceR0 sv n st = (status, st') \<Longrightarrow> status \<noteq> PBQP_PRUNED"
    by (auto simp: ReduceR0_def Let_def split: prod.splits)
  ultimately show ?thesis using assms by (auto simp: reduce_node_def split: prod.splits if_splits)
qed

lemma reduce_all_status: "reduce_all fuel sv st = Some (status, st') \<Longrightarrow> status \<noteq> PBQP_PRUNED"
  by (induction fuel arbitrary: st) (auto split: option.splits prod.splits if_splits dest: reduce_node_status)

section \<open>The search\<close>

lemma branch_step_sound:
  assumes sound: "branch_sound p0 solve" and wf0: "pbqp_wf p0" and alloc: "pb_allocator p0"
  shows "branch_sound p0 (branch_step solve sv)"
  unfolding branch_sound_def
proof (intro allI impI)
  fix depth search bk sol st status sol' search' st'
  assume run: "branch_step solve sv depth search bk sol st = Some (status, sol', search', st')"
    and at: "attains p0 (ss_problem st)" and bk: "bk \<le> ACCEL_INF" and len: "pb_node_count p0 \<le> length (snd sol)"
  define p where "p = ss_problem st"
  have wf: "pbqp_wf p" "costs_bounded p" "pb_node_count p = pb_node_count p0" using at by (auto simp: p_def attains_def)
  note at' = at[folded p_def]
  let ?lb = "accel_cost_add (pb_objective_offset p) (RemainingCoreLowerBound p)"
  consider (prune) "bk \<noteq> ACCEL_INF" "?lb \<ge> bk" | (fin) "\<not> (bk \<noteq> ACCEL_INF \<and> ?lb \<ge> bk)" "ActiveNodeCount p = 0"
    | (branch) "\<not> (bk \<noteq> ACCEL_INF \<and> ?lb \<ge> bk)" "ActiveNodeCount p \<noteq> 0" by blast
  then have "branch_result p0 p bk status sol'"
  proof cases
    case prune
    then have "status = PBQP_PRUNED" using run by (simp add: branch_step_def p_def[symmetric] Let_def)
    moreover have "cost_abs bk \<le> total_cost p x" if x: "valid_assignment p x" for x
      using lower_bound_below[OF wf(1,2) x] cost_abs_mono[OF prune(2) bk] by force
    ultimately show ?thesis using prune by (simp add: branch_result_def)
  next
    case fin
    then have "status = PBQP_OK" "sol' = (pb_objective_offset p, ReconstructSolution p (snd sol))"
      using run by (auto simp: branch_step_def p_def[symmetric] Let_def)
    then show ?thesis
      using attains_empty[OF at' fin(2) len] empty_core_cost(1)[OF wf(1) fin(2)] by (simp add: branch_result_def)
  next
    case branch
    obtain n where sel: "SelectRnNode (cf_rn_policy (sv_config sv)) p = Some n"
      using select_none[of "cf_rn_policy (sv_config sv)" p] branch(2) by auto
    note n = select_some[OF sel]
    let ?st = "Emit sv PBQP_TRACE_BRANCH_SELECT PBQP_TRACE_EXACT_SEARCH (int n) (- 1) (no_work\<lparr>wk_branch_domain := nd_domain (node_at p n)\<rparr>) st"
    obtain ok st2 where ws: "workspace sv [pb_node_count p] ?st = (ok, st2)" by fastforce
    let ?bl = "\<lparr>bl_best = None, bl_best_array = replicate (pb_node_count p) 0, bl_aggregate = pb_statistics p,
      bl_search = search, bl_state = st2\<rparr>"
    obtain r where r: "branch_values solve sv n depth bk (pb_statistics p) [0..<nd_domain (node_at p n)] ?bl = r" by blast
    note run' = run[unfolded branch_step_def Let_def p_def[symmetric]]
    have "status \<noteq> PBQP_OK \<and> status \<noteq> PBQP_PRUNED" if "\<not> ok"
      using run' branch sel ws that by (auto simp: limit_hit_def Let_def)
    moreover have "branch_result p0 p bk status sol'" if ok: "ok"
    proof (cases r)
      case None
      then show ?thesis using run' branch sel ws ok r by auto
    next
      case (Some res)
      show ?thesis
      proof (cases res)
        case (Inl a)
        then show ?thesis
          using run' branch sel ws ok r Some branch_values_failure[of solve sv n depth bk] by (cases a) (auto simp: branch_result_def)
      next
        case (Inr bl)
        have st2: "same_graph p (ss_problem st2)" using workspace_problem[OF ws] by (simp add: p_def)
        have bv: "best_good p0 (bl_best bl) \<and> (bl_best bl = None \<longrightarrow> 0 < nd_domain (node_at p n) \<longrightarrow> bk \<noteq> ACCEL_INF) \<and>
          (\<forall>x. valid_assignment p x \<longrightarrow> min (cost_abs (best_cost (bl_best bl))) (cost_abs bk) \<le> total_cost p x)"
          by (rule branch_values_sound[OF sound at' wf0 alloc n bk refl, of 0 ?bl sv depth "pb_statistics p"])
            (use st2 r Some Inr in \<open>auto simp: best_good_def\<close>)
        have dom: "0 < nd_domain (node_at p n)" using wf n by (simp add: pbqp_wf_def graph_ok_def)
        show ?thesis
        proof (cases "bl_best bl")
          case None
          then have "status = PBQP_PRUNED" using run' branch sel ws ok r Some Inr by auto
          moreover have "min Infinite (cost_abs bk) = cost_abs bk" by (cases "cost_abs bk") auto
          ultimately show ?thesis using bv None dom by (simp add: branch_result_def best_cost_def cost_abs_def[of ACCEL_INF])
        next
          case best: (Some b)
          then have "status = PBQP_OK" "sol' = (fst b, copy_prefix (pb_node_count p) (snd b) (snd sol))"
            using run' branch sel ws ok r Some Inr by auto
          moreover have "achieves p0 (fst b) (snd b)" using bv best by (cases b) (auto simp: best_good_def)
          ultimately show ?thesis
            using bv best achieves_copy[OF wf0 _ wf(3)] by (auto simp: branch_result_def best_cost_def)
        qed
      qed
    qed
    ultimately show ?thesis by (cases ok) (auto simp: branch_result_def)
  qed
  then show "branch_result p0 (ss_problem st) bk status sol'" by (simp add: p_def)
qed

context cost_kernel
begin

lemma reduce_all_exact:
  assumes "attains p0 (ss_problem st)" and "sv_api sv = api" and "reduce_all fuel sv st = Some (PBQP_OK, st')"
  shows "attains p0 (ss_problem st') \<and> (\<forall>x. valid_assignment (ss_problem st) x \<longrightarrow>
    valid_assignment (ss_problem st') x \<and> total_cost (ss_problem st') x \<le> total_cost (ss_problem st) x)"
  using assms(1,3)
proof (induction fuel arbitrary: st)
  case (Suc fuel)
  show ?case
  proof (cases "FindReducibleNode (ss_problem st)")
    case None
    then show ?thesis using Suc.prems by simp
  next
    case (Some n)
    obtain status st1 where r: "reduce_node sv n st = (status, st1)" by fastforce
    have ok: "status = PBQP_OK" and rest: "reduce_all fuel sv st1 = Some (PBQP_OK, st')"
      using Suc.prems(2) Some r by (auto split: if_splits)
    have wf: "pbqp_wf (ss_problem st)" "costs_bounded (ss_problem st)" using Suc.prems(1) by (auto simp: attains_def)
    have ex: "exact_step n (ss_problem st) (ss_problem st1)" by (rule reduce_node_exact[OF wf Some assms(2)]) (use r ok in simp)
    have at: "attains p0 (ss_problem st1)" using attains_step[OF Suc.prems(1)] ex by (auto simp: exact_step_def)
    have "valid_assignment (ss_problem st1) x \<and> total_cost (ss_problem st1) x \<le> total_cost (ss_problem st) x"
      if "valid_assignment (ss_problem st) x" for x
      using ex that elim_frame_valid by (auto simp: exact_step_def attained_step_def)
    then show ?thesis using Suc.IH[OF at rest] by (meson order_trans)
  qed
qed simp

lemma branch_reduce_sound:
  assumes "sv_api sv = api" and "pbqp_wf p0" and "pb_allocator p0"
  shows "branch_sound p0 (SolveBranchAndReduce fuel sv)"
proof (induction fuel)
  case 0
  then show ?case by (simp add: branch_sound_def)
next
  case (Suc fuel)
  note step = branch_step_sound[OF Suc assms(2,3), of sv]
  show ?case
    unfolding branch_sound_def
  proof (intro allI impI)
    fix depth search bk sol st status sol' search' st'
    assume run: "SolveBranchAndReduce (Suc fuel) sv depth search bk sol st = Some (status, sol', search', st')"
      and at: "attains p0 (ss_problem st)" and bk: "bk \<le> ACCEL_INF" and len: "pb_node_count p0 \<le> length (snd sol)"
    let ?max = "cf_maximum_search_nodes (sv_config sv)"
    show "branch_result p0 (ss_problem st) bk status sol'"
    proof (cases "?max \<noteq> 0 \<and> sc_nodes_visited search \<ge> ?max")
      case True
      then have "status = PBQP_SEARCH_LIMIT" using run by (auto simp: limit_hit_def Let_def)
      then show ?thesis by (simp add: branch_result_def)
    next
      case False
      obtain s1 st1 where red: "reduce_all (Suc (pb_node_count (ss_problem st))) sv st = Some (s1, st1)"
        using run False by (auto simp: Let_def split: option.splits)
      show ?thesis
      proof (cases "s1 = PBQP_OK")
        case ok: True
        note ex = reduce_all_exact[OF at assms(1) red[unfolded ok]]
        have "branch_result p0 (ss_problem st1) bk status sol'"
        proof (rule branch_soundD[OF step])
          show "branch_step (SolveBranchAndReduce fuel sv) sv depth (search\<lparr>sc_nodes_visited :=
              count_up 64 (sc_nodes_visited search), sc_maximum_depth := max depth (sc_maximum_depth search)\<rparr>) bk sol st1 =
              Some (status, sol', search', st')"
            using run[unfolded SolveBranchAndReduce.simps(2) Let_def red] False ok by auto
        qed (use ex bk len in auto)
        then show ?thesis by (rule branch_resultI) (use ex in blast)
      next
        case no: False
        then have "status = s1" using run[unfolded SolveBranchAndReduce.simps(2) Let_def red] False by auto
        then show ?thesis using no reduce_all_status[OF red] by (simp add: branch_result_def)
      qed
    qed
  qed
qed

end

end
