(* ===== verification/Pbqp_Termination.thy ===== *)
theory Pbqp_Termination
  imports Pbqp_Branch_Correct
begin

text \<open>
  The solver returns, whatever the kernel answers: each reduction, each RN commitment and each branch
  deactivates one node, so \<open>node_count + 1\<close> units of fuel are enough for the reduction loop and for
  the recursion of the exact search.
\<close>

section \<open>Active nodes\<close>

definition actives :: "pbqp_problem \<Rightarrow> bool list" where
  "actives p = map nd_active (pb_nodes p)"

definition retires :: "nat \<Rightarrow> pbqp_problem \<Rightarrow> pbqp_problem \<Rightarrow> bool" where
  "retires n p q \<longleftrightarrow> pb_node_count q = pb_node_count p \<and> actives q = (actives p)[n := False]"

definition keeps :: "pbqp_problem \<Rightarrow> pbqp_problem \<Rightarrow> bool" where
  "keeps p q \<longleftrightarrow> pb_node_count q = pb_node_count p \<and> actives q = actives p"

definition counted :: "pbqp_problem \<Rightarrow> bool" where
  "counted p \<longleftrightarrow> pb_node_count p \<le> length (pb_nodes p)"

lemma keeps_refl [simp]: "keeps p p"
  by (simp add: keeps_def)

lemma keeps_trans: "keeps p q \<Longrightarrow> keeps q r \<Longrightarrow> keeps p r"
  by (simp add: keeps_def)

lemma keeps_retires: "keeps p q \<Longrightarrow> retires n q r \<Longrightarrow> retires n p r"
  by (simp add: keeps_def retires_def)

lemma retires_keeps: "retires n p q \<Longrightarrow> keeps q r \<Longrightarrow> retires n p r"
  by (simp add: keeps_def retires_def)

lemma same_graph_keeps: "same_graph p q \<Longrightarrow> keeps p q"
  by (auto simp: same_graph_def keeps_def actives_def)

lemma actives_length: "length (actives p) = length (pb_nodes p)"
  by (simp add: actives_def)

lemma counted_actives: "counted p \<longleftrightarrow> pb_node_count p \<le> length (actives p)"
  by (simp add: counted_def actives_length)

lemma active_count_actives:
  assumes "counted p"
  shows "ActiveNodeCount p = card {k. k < pb_node_count p \<and> actives p ! k}"
proof -
  have "nd_active (node_at p k) = actives p ! k" if "k < pb_node_count p" for k
    using that assms by (simp add: actives_def counted_def)
  then show ?thesis unfolding active_count by (metis (no_types, lifting) Collect_cong)
qed

lemma keeps_count: "counted p \<Longrightarrow> keeps p q \<Longrightarrow> counted q \<and> ActiveNodeCount q = ActiveNodeCount p"
  by (simp add: active_count_actives counted_actives keeps_def)

lemma retires_count:
  assumes "counted p" and "retires n p q" and "n < pb_node_count p" and "nd_active (node_at p n)"
  shows "counted q" and "Suc (ActiveNodeCount q) = ActiveNodeCount p"
proof -
  show c: "counted q" using assms(1,2) by (simp add: counted_actives retires_def)
  let ?A = "{k. k < pb_node_count p \<and> actives p ! k}"
  have len: "n < length (actives p)" using assms(1,3) by (simp add: counted_actives)
  have "n \<in> ?A" using assms(1,3,4) by (simp add: actives_def counted_def)
  moreover have "{k. k < pb_node_count q \<and> actives q ! k} = ?A - {n}"
    using assms(2) len by (auto simp: retires_def nth_list_update)
  ultimately show "Suc (ActiveNodeCount q) = ActiveNodeCount p"
    using card_Suc_Diff1[of ?A n] by (simp add: active_count_actives[OF c] active_count_actives[OF assms(1)])
qed

section \<open>Which updates keep the active nodes\<close>

lemma map_update_same:
  assumes "\<And>x. f (g x) = f x"
  shows "map f (xs[n := g (xs ! n)]) = map f xs"
proof (cases "n < length xs")
  case True
  have "(map f xs)[n := f (xs ! n)] = (map f xs)[n := map f xs ! n]" using True by simp
  then show ?thesis by (simp add: map_update assms)
next
  case False
  then show ?thesis by (simp add: list_update_beyond)
qed

lemma set_node_keeps [simp]: "(\<And>nd. nd_active (f nd) = nd_active nd) \<Longrightarrow> keeps p (set_node n f q) = keeps p q"
  by (simp add: keeps_def actives_def set_node_def map_update_same)

lemma updates_keep [simp]:
  "keeps p (set_edge e f q) = keeps p q" "keeps p (drop_edge e q) = keeps p q"
  "keeps p (set_reconstruction n i c q) = keeps p q" "keeps p (add_offset k q) = keeps p q"
  "keeps p (q\<lparr>pb_statistics := s\<rparr>) = keeps p q" "keeps (q\<lparr>pb_statistics := s\<rparr>) p = keeps q p"
  by (simp_all add: keeps_def actives_def set_edge_def drop_edge_def set_reconstruction_def add_offset_def)

lemma retires_statistics [simp]: "retires n p (q\<lparr>pb_statistics := s\<rparr>) = retires n p q"
  by (simp add: retires_def actives_def)

lemma add_unary_active [simp]: "nd_active (add_unary v c nd) = nd_active nd"
  by (simp add: add_unary_def)

lemma eliminate_retires: "keeps p q \<Longrightarrow> retires n p (eliminate kind n q)"
  by (simp add: retires_def keeps_def actives_def eliminate_def set_node_def map_update)

lemma fold_keeps: "(\<And>x p q. keeps p q \<Longrightarrow> keeps p (f x q)) \<Longrightarrow> keeps p q \<Longrightarrow> keeps p (fold f xs q)"
  by (induction xs arbitrary: q) auto

lemma r1_apply_keeps: "r1_apply n m rs vs q = (ok, p') \<Longrightarrow> keeps p q \<Longrightarrow> keeps p p'"
proof (induction vs arbitrary: q)
  case (Cons v vs)
  then show ?case by (auto split: prod.splits if_splits)
qed simp

lemma r2_apply_keeps: "r2_apply n m1 m2 d f rs ps q = (ok, p') \<Longrightarrow> keeps p q \<Longrightarrow> keeps p p'"
proof (induction ps arbitrary: q)
  case (Cons ab ps)
  then show ?case by (cases ab) (auto split: prod.splits if_splits)
qed simp

lemma find_or_add_keeps: "find_or_add_edge m1 m2 p = (fo, p1) \<Longrightarrow> keeps p p1"
  by (auto simp: find_or_add_edge_def AddFillEdge_def Let_def keeps_def actives_def split: option.splits)

lemma condition_edge_keeps: "keeps p q \<Longrightarrow> keeps p (condition_edge n c kind e q)"
  by (auto simp: condition_edge_def Let_def intro: fold_keeps)

lemma condition_node_retires: "ConditionNode n c kind p = (PBQP_OK, p') \<Longrightarrow> retires n p p'"
  by (auto simp: ConditionNode_def Let_def split: if_splits intro!: eliminate_retires fold_keeps condition_edge_keeps)

section \<open>Reductions retire a node\<close>

lemma reduce_r1_retires:
  assumes "ReduceR1 sv n e st = (PBQP_OK, st')"
  shows "retires n (ss_problem st) (ss_problem st')"
proof -
  obtain ks ks' rs s p' where
    ap: "r1_apply n (OtherNode (edge_at (ss_problem st) e) n) rs
      [0..<nd_domain (node_at (ss_problem st) (OtherNode (edge_at (ss_problem st) e) n))]
      ((ss_problem st)\<lparr>pb_statistics := s\<rparr>) = (True, p')"
    and st': "same_graph (eliminate kReductionR1 n (set_node n (\<lambda>node. node\<lparr>nd_first_neighbor :=
      OtherNode (edge_at (ss_problem st) e) n\<rparr>) (drop_edge e p'))) (ss_problem st')"
    by (rule reduce_r1_run[OF assms refl refl refl refl])
  have "keeps (ss_problem st) p'" by (rule r1_apply_keeps[OF ap]) simp
  then show ?thesis by (intro retires_keeps[OF eliminate_retires same_graph_keeps[OF st']]) simp
qed

lemma reduce_r2_retires:
  assumes "ReduceR2 sv n e1 e2 st = (PBQP_OK, st')"
  shows "retires n (ss_problem st) (ss_problem st')"
proof -
  let ?p = "ss_problem st"
  let ?m1 = "OtherNode (edge_at ?p e1) n" and ?m2 = "OtherNode (edge_at ?p e2) n"
  obtain f p1 s path ks rs ks' p' where fo: "find_or_add_edge ?m1 ?m2 ?p = (Some f, p1)"
    and ap: "r2_apply n ?m1 ?m2 (nd_domain (node_at ?p ?m2)) f rs
      (List.product [0..<nd_domain (node_at ?p ?m1)] [0..<nd_domain (node_at ?p ?m2)]) (p1\<lparr>pb_statistics := s\<rparr>) = (True, p')"
    and st': "same_graph (eliminate kReductionR2 n (set_node n (\<lambda>node. node\<lparr>nd_first_neighbor := ?m1, nd_second_neighbor := ?m2\<rparr>)
      (drop_edge e2 (drop_edge e1 p')))) (ss_problem st')"
    by (rule reduce_r2_run[OF assms refl refl refl refl refl])
  have "keeps ?p p'" by (rule r2_apply_keeps[OF ap]) (use find_or_add_keeps[OF fo] in simp)
  then show ?thesis by (intro retires_keeps[OF eliminate_retires same_graph_keeps[OF st']]) simp
qed

lemma reduce_node_retires:
  assumes "reduce_node sv n st = (PBQP_OK, st')"
  shows "retires n (ss_problem st) (ss_problem st')"
proof -
  have "retires n (ss_problem st) (ss_problem st')" if r0: "ReduceR0 sv n st = (PBQP_OK, st')"
  proof -
    obtain b c s where "ss_problem st' = (eliminate kReductionR0 n (set_reconstruction n 0 c (add_offset b (ss_problem st))))\<lparr>pb_statistics := s\<rparr>"
      using r0 by (auto simp: ReduceR0_def Let_def split: prod.splits)
    then show ?thesis by (simp add: eliminate_retires)
  qed
  then show ?thesis
    using assms reduce_r1_retires reduce_r2_retires by (auto simp: reduce_node_def split: prod.splits if_splits)
qed

lemma reduce_rn_retires:
  assumes "ReduceRN sv n st = (PBQP_OK, st')"
  shows "retires n (ss_problem st) (ss_problem st')"
proof -
  obtain scores st3 where g: "same_graph (ss_problem st) (ss_problem st3)"
    and commit: "rn_commit sv n (pb_statistics (ss_problem st)) scores st3 = (PBQP_OK, st')"
    by (rule reduce_rn_run[OF assms])
  obtain c s p' where "ConditionNode n c kReductionRN ((ss_problem st3)\<lparr>pb_statistics := s\<rparr>) = (PBQP_OK, p')" "ss_problem st' = p'"
    using commit by (auto simp: rn_commit_def Let_def split: prod.splits if_splits)
  then have "retires n ((ss_problem st3)\<lparr>pb_statistics := s\<rparr>) (ss_problem st')" using condition_node_retires by blast
  moreover have "keeps (ss_problem st) ((ss_problem st3)\<lparr>pb_statistics := s\<rparr>)" using same_graph_keeps[OF g] by simp
  ultimately show ?thesis using keeps_retires by blast
qed

lemma rn_episode_retires:
  assumes run: "rn_episode_step sv rn st = (PBQP_OK, rn', st')" and c: "counted (ss_problem st)"
  shows "counted (ss_problem st') \<and> ActiveNodeCount (ss_problem st') < ActiveNodeCount (ss_problem st)"
proof -
  let ?st = "set_problem (RecordIrreducibleCore (ss_problem (with_statistics (record_rn_cascade rn) st)))
    (with_statistics (record_rn_cascade rn) st)"
  obtain s where s: "ss_problem ?st = (ss_problem st)\<lparr>pb_statistics := s\<rparr>"
    by (simp add: RecordIrreducibleCore_def Let_def)
  obtain n st1 where n: "SelectRnNode (cf_rn_policy (sv_config sv)) (ss_problem ?st) = Some n"
    and r: "ReduceRN sv n (Emit sv PBQP_TRACE_RN_SELECT PBQP_TRACE_HEURISTIC (int n) (- 1) no_work ?st) = (PBQP_OK, st')"
    using run unfolding rn_episode_step_def Let_def by (auto split: option.splits prod.splits if_splits)
  have "keeps (ss_problem st) (ss_problem ?st)" unfolding s by simp
  then have ret: "retires n (ss_problem st) (ss_problem st')"
    using reduce_rn_retires[OF r] keeps_retires unfolding emit_problem by blast
  show ?thesis using retires_count[OF c ret] select_some[OF n] unfolding s by simp
qed

section \<open>The loops return\<close>

lemma reduce_step_count:
  assumes "FindReducibleNode (ss_problem st) = Some n" and "reduce_node sv n st = (PBQP_OK, st')" and "counted (ss_problem st)"
  shows "counted (ss_problem st') \<and> ActiveNodeCount (ss_problem st') < ActiveNodeCount (ss_problem st)"
  using retires_count[OF assms(3) reduce_node_retires[OF assms(2)]] reducible_node[OF assms(1)] by simp

lemma count_statistics [simp]:
  "counted (p\<lparr>pb_statistics := s\<rparr>) = counted p" "ActiveNodeCount (p\<lparr>pb_statistics := s\<rparr>) = ActiveNodeCount p"
  by (simp_all add: counted_def ActiveNodeCount_def)

lemma solve_loop_returns:
  "counted (ss_problem st) \<Longrightarrow> ActiveNodeCount (ss_problem st) < fuel \<Longrightarrow>
   \<exists>res st'. solve_loop fuel sv rn sol st = Some (res, st') \<and>
     (res = CoreLeft \<longrightarrow> counted (ss_problem st') \<and> ActiveNodeCount (ss_problem st') \<le> ActiveNodeCount (ss_problem st))"
proof (induction fuel arbitrary: rn st)
  case (Suc fuel)
  show ?case
  proof (cases "FindReducibleNode (ss_problem st)")
    case None
    obtain status rn' st1 where ep: "rn_episode_step sv rn st = (status, rn', st1)" by (metis prod_cases3)
    have "status = PBQP_OK \<Longrightarrow> counted (ss_problem st1) \<and> ActiveNodeCount (ss_problem st1) < ActiveNodeCount (ss_problem st)"
      using rn_episode_retires[of sv rn st rn' st1] ep Suc.prems(1) by simp
    then show ?thesis
      using Suc.IH[of st1 rn'] Suc.prems None ep by (auto simp: Let_def)
  next
    case (Some n)
    obtain status st1 where r: "reduce_node sv n st = (status, st1)" by fastforce
    let ?st = "with_statistics (record_after_rn rn (degree_of (ss_problem st) n)) st1"
    have "status = PBQP_OK \<Longrightarrow> counted (ss_problem ?st) \<and> ActiveNodeCount (ss_problem ?st) < ActiveNodeCount (ss_problem st)"
      using reduce_step_count[OF Some _ Suc.prems(1)] r by simp
    then show ?thesis
      using Suc.IH[of ?st rn] Suc.prems(2) Some r by (auto simp: Let_def)
  qed
qed simp

lemma reduce_all_returns:
  "counted (ss_problem st) \<Longrightarrow> ActiveNodeCount (ss_problem st) < fuel \<Longrightarrow>
   \<exists>status st'. reduce_all fuel sv st = Some (status, st') \<and>
     (status = PBQP_OK \<longrightarrow> counted (ss_problem st') \<and> ActiveNodeCount (ss_problem st') \<le> ActiveNodeCount (ss_problem st))"
proof (induction fuel arbitrary: st)
  case (Suc fuel)
  show ?case
  proof (cases "FindReducibleNode (ss_problem st)")
    case (Some n)
    obtain status st1 where r: "reduce_node sv n st = (status, st1)" by fastforce
    have "status = PBQP_OK \<Longrightarrow> counted (ss_problem st1) \<and> ActiveNodeCount (ss_problem st1) < ActiveNodeCount (ss_problem st)"
      using reduce_step_count[OF Some _ Suc.prems(1)] r by simp
    then show ?thesis using Suc.IH[of st1] Suc.prems(2) Some r by auto
  qed (use Suc.prems in auto)
qed simp

text \<open>The branches: every child has one active node less than its parent.\<close>

definition branch_returns :: "nat \<Rightarrow> 'k branch_solver \<Rightarrow> bool" where
  "branch_returns bound solve \<longleftrightarrow> (\<forall>depth search best_known sol st.
     counted (ss_problem st) \<longrightarrow> ActiveNodeCount (ss_problem st) < bound \<longrightarrow>
     solve depth search best_known sol st \<noteq> None)"

lemma clone_keeps: "clone_state sv st = (PBQP_OK, child, st') \<Longrightarrow> keeps (ss_problem st) child \<and> ss_problem st' = ss_problem st"
  by (auto simp: clone_state_def Let_def pbqp_problem_clone_def pbqp_init_def keeps_def actives_def
      split: prod.splits if_splits option.splits)

lemma branch_values_returns:
  assumes "branch_returns (ActiveNodeCount p) solve" and "counted p" and "n < pb_node_count p" "nd_active (node_at p n)"
    and "keeps p (ss_problem (bl_state bl))"
  shows "branch_values solve sv n depth bk base vs bl \<noteq> None"
  using assms(5)
proof (induction vs arbitrary: bl)
  case (Cons v vs)
  define parent where "parent = ss_problem (bl_state bl)"
  obtain cs cloned st1 where cl: "clone_state sv (bl_state bl) = (cs, cloned, st1)" by (metis prod_cases3)
  define child0 where "child0 = cloned\<lparr>pb_statistics := copy_statistics (pb_statistics cloned)
    (share_arrays (pb_statistics parent) base) (pb_node_capacity cloned) (pb_domain_capacity cloned)\<rparr>"
  obtain cond child where cn: "ConditionNode n v kReductionBranch child0 = (cond, child)" by fastforce
  have small: "counted child \<and> ActiveNodeCount child < ActiveNodeCount p" if "cs = PBQP_OK" "cond = PBQP_OK"
  proof -
    have "keeps p child0"
      using keeps_trans[OF Cons.prems] clone_keeps[of sv "bl_state bl" cloned st1] cl that(1) unfolding child0_def by simp
    then have "retires n p child" using keeps_retires condition_node_retires cn that(2) by blast
    from retires_count[OF assms(2) this assms(3,4)] show ?thesis by simp
  qed
  have next_: "branch_values solve sv n depth bk base vs (branch_merge base status cand search parent st4 bl) \<noteq> None"
    for status cand search st4
    by (rule Cons.IH) (use Cons.prems in \<open>simp add: branch_merge_def Let_def parent_def[symmetric]\<close>)
  have solve: "solve d s b sol (set_problem child st) \<noteq> None" if "cs = PBQP_OK" "cond = PBQP_OK" for d s b sol st
    using small[OF that] assms(1) unfolding branch_returns_def by (metis set_problem_problem)
  show ?case
    unfolding branch_values.simps Let_def cl prod.case parent_def[symmetric] child0_def[symmetric] cn
    using next_ solve by (auto split: prod.splits option.splits) (metis option.distinct(1))
qed simp

lemma branch_step_returns:
  fixes solve :: "'a branch_solver"
  assumes "branch_returns k solve"
  shows "branch_returns (Suc k) (branch_step solve sv)"
  unfolding branch_returns_def
proof (intro allI impI)
  fix depth search bk sol and st :: "'a solver_state"
  assume c: "counted (ss_problem st)" and k: "ActiveNodeCount (ss_problem st) < Suc k"
  define p where "p = ss_problem st"
  have sub: "branch_returns (ActiveNodeCount p) solve" using assms k by (auto simp: branch_returns_def p_def)
  show "branch_step solve sv depth search bk sol st \<noteq> None"
  proof (cases "SelectRnNode (cf_rn_policy (sv_config sv)) p")
    case None
    then show ?thesis by (simp add: branch_step_def Let_def p_def[symmetric] None)
  next
    case (Some n)
    let ?st = "Emit sv PBQP_TRACE_BRANCH_SELECT PBQP_TRACE_EXACT_SEARCH (int n) (- 1) (no_work\<lparr>wk_branch_domain := nd_domain (node_at p n)\<rparr>) st"
    obtain ok st2 where ws: "workspace sv [pb_node_count p] ?st = (ok, st2)" by fastforce
    let ?bl = "\<lparr>bl_best = None, bl_best_array = replicate (pb_node_count p) 0, bl_aggregate = pb_statistics p,
      bl_search = search, bl_state = st2\<rparr>"
    have "branch_values solve sv n depth bk (pb_statistics p) [0..<nd_domain (node_at p n)] ?bl \<noteq> None"
      by (rule branch_values_returns[OF sub c[folded p_def] select_some[OF Some]])
        (use workspace_problem[OF ws] in \<open>simp add: p_def\<close>)
    then obtain r where "branch_values solve sv n depth bk (pb_statistics p) [0..<nd_domain (node_at p n)] ?bl = Some r" by auto
    then show ?thesis
      unfolding branch_step_def Let_def p_def[symmetric] Some option.case ws prod.case
      by (auto split: prod.splits option.splits sum.splits)
  qed
qed

lemma branch_reduce_returns: "branch_returns fuel (SolveBranchAndReduce fuel sv)"
proof (induction fuel)
  case 0
  then show ?case by (simp add: branch_returns_def)
next
  case (Suc fuel)
  note step = branch_step_returns[OF Suc, of sv]
  show ?case
    unfolding branch_returns_def
  proof (intro allI impI)
    fix depth search bk sol and st :: "'a solver_state"
    assume c: "counted (ss_problem st)" and k: "ActiveNodeCount (ss_problem st) < Suc fuel"
    have "ActiveNodeCount (ss_problem st) < Suc (pb_node_count (ss_problem st))" using active_le by (simp add: less_Suc_eq_le)
    from reduce_all_returns[OF c this, of sv]
    obtain status st1 where red: "reduce_all (Suc (pb_node_count (ss_problem st))) sv st = Some (status, st1)"
      and small: "status = PBQP_OK \<Longrightarrow> counted (ss_problem st1) \<and> ActiveNodeCount (ss_problem st1) < Suc fuel"
      using k by fastforce
    have "branch_step (SolveBranchAndReduce fuel sv) sv depth search1 bk sol st1 \<noteq> None" if "status = PBQP_OK" for search1
      using step small[OF that] unfolding branch_returns_def by blast
    then show "SolveBranchAndReduce (Suc fuel) sv depth search bk sol st \<noteq> None"
      unfolding SolveBranchAndReduce.simps(2) Let_def red by (auto split: prod.splits)
  qed
qed

end
