(* ===== verification/Pbqp_Total.thy ===== *)
theory Pbqp_Total
  imports Pbqp_Termination
begin

text \<open>
  When the exact strategies cannot fail: every allocation request is granted, the kernel is total on
  exact operands, the search is not limited, and one edge slot is free for the fill edges of R2. A
  reduction frees the slots of the edges it removes, so one free slot is enough for the whole solve.
\<close>

section \<open>Resources\<close>

definition spare :: "pbqp_problem \<Rightarrow> bool" where
  "spare p \<longleftrightarrow> (\<exists>e < pb_edge_capacity p. \<not> eg_active (edge_at p e))"

definition storable :: "pbqp_problem \<Rightarrow> bool" where
  "storable p \<longleftrightarrow> pb_allocator p \<and> pb_storage p \<and>
     ProblemStorageSize (of_nat (pb_node_capacity p)) (of_nat (pb_edge_capacity p)) (of_nat (pb_domain_capacity p)) \<noteq> 0"

definition granting :: "'k solver \<Rightarrow> bool" where
  "granting sv \<longleftrightarrow> (\<forall>k. sv_grants sv k)"

lemma allocate_granted:
  "(\<And>k. grants k) \<Longrightarrow> (\<And>c. c \<in> set counts \<Longrightarrow> c \<noteq> 0) \<Longrightarrow> \<exists>n'. allocate_arrays grants counts n = (True, n')"
proof (induction counts arbitrary: n)
  case (Cons c counts)
  obtain n' where "allocate_arrays grants counts (Suc n) = (True, n')" using Cons.IH[of "Suc n"] Cons.prems by (metis list.set_intros(2))
  moreover have "grants n" "c \<noteq> 0" using Cons.prems by auto
  ultimately show ?case by simp
qed simp

lemma workspace_granted:
  assumes "granting sv" and "pb_allocator (ss_problem st)" and "\<And>c. c \<in> set counts \<Longrightarrow> c \<noteq> 0"
  shows "\<exists>st'. workspace sv counts st = (True, st') \<and> ss_problem st' = ss_problem st"
proof -
  obtain n' where "allocate_arrays (sv_grants sv) counts (ss_allocations st) = (True, n')"
    using allocate_granted[of "sv_grants sv" counts "ss_allocations st"] assms(1,3) unfolding granting_def by blast
  then show ?thesis using assms(2) by (simp add: workspace_def)
qed

lemma clone_granted:
  assumes "granting sv" and "storable (ss_problem st)" and "pbqp_wf (ss_problem st)" and "0 < pb_node_count (ss_problem st)"
  shows "\<exists>child st'. clone_state sv st = (PBQP_OK, child, st')"
proof -
  let ?p = "ss_problem st"
  have sh: "shape_ok ?p" using assms(3) by (simp add: pbqp_wf_def)
  have dc: "pb_domain_capacity ?p < 2 ^ 32"
  proof -
    have "pb_domain_capacity ?p \<le> pb_domain_capacity ?p * pb_domain_capacity ?p" using sh by (simp add: shape_ok_def)
    moreover have "pb_domain_capacity ?p * pb_domain_capacity ?p < 2 ^ 32" using sh by (simp add: shape_ok_def)
    ultimately show ?thesis by linarith
  qed
  have word: "k < 2 ^ 32 \<Longrightarrow> (of_nat k :: u32) = 0 \<longleftrightarrow> k = 0" for k :: nat
    by (simp add: unat_eq_0[symmetric] unat_of_nat)
  have "(of_nat (pb_node_capacity ?p) :: u32) \<noteq> 0" "(of_nat (pb_domain_capacity ?p) :: u32) \<noteq> 0"
    using sh assms(4) word[of "pb_node_capacity ?p"] word[OF dc] by (auto simp: shape_ok_def)
  then show ?thesis
    using assms(1,2) by (simp add: clone_state_def Let_def pbqp_problem_clone_def pbqp_init_def storable_def granting_def)
qed

section \<open>Free edge slots\<close>

lemma spare_statistics [simp]: "spare (p\<lparr>pb_statistics := s\<rparr>) = spare p"
  by (simp add: spare_def)

lemma spare_same: "same_graph p q \<Longrightarrow> spare q = spare p"
  by (auto simp: same_graph_def)

lemma spare_eliminate [simp]: "spare (eliminate kind n p) = spare p" "spare (set_node n f p) = spare p"
  "spare (set_reconstruction n i c p) = spare p" "spare (add_offset k p) = spare p"
  by (simp_all add: spare_def eliminate_def set_node_def set_reconstruction_def add_offset_def)

lemma spare_drop: "e < pb_edge_capacity p \<Longrightarrow> e < length (pb_edges p) \<Longrightarrow> spare (drop_edge e p)"
  by (auto simp: spare_def drop_edge_def set_edge_def intro!: exI[of _ e])

lemma spare_drop_keep: "spare p \<Longrightarrow> spare (drop_edge e p)"
proof -
  assume "spare p"
  then obtain g where "g < pb_edge_capacity p" "\<not> eg_active (edge_at p g)" by (auto simp: spare_def)
  then show ?thesis unfolding spare_def drop_edge_def set_edge_def
    by (intro exI[of _ g]) (cases "g = e"; cases "e < length (pb_edges p)"; simp add: list_update_beyond)
qed

lemma fold_set_node_spare: "spare (fold (\<lambda>v. set_node m (F v)) vs p) = spare p"
  by (induction vs arbitrary: p) simp_all

lemma condition_edge_spare: "spare p \<Longrightarrow> spare (condition_edge n c kind e p)"
  by (simp add: condition_edge_def Let_def spare_drop_keep fold_set_node_spare)

lemma condition_spare: "ConditionNode n c kind p = (status, p') \<Longrightarrow> spare p \<Longrightarrow> spare p'"
proof -
  have "spare q \<Longrightarrow> spare (fold (condition_edge n c kind) es q)" for es q
    by (induction es arbitrary: q) (auto intro: condition_edge_spare)
  then show "ConditionNode n c kind p = (status, p') \<Longrightarrow> spare p \<Longrightarrow> spare p'"
    by (auto simp: ConditionNode_def Let_def split: if_splits)
qed

lemma find_or_add_some:
  assumes "spare p"
  shows "\<exists>f p1. find_or_add_edge m1 m2 p = (Some f, p1)"
proof (cases "FindEdge p m1 m2")
  case None
  have "first_index (\<lambda>index. \<not> eg_active (edge_at p index)) (pb_edge_capacity p) \<noteq> None"
    using assms by (simp add: first_index_none spare_def)
  then show ?thesis using None by (auto simp: find_or_add_edge_def AddFillEdge_def Let_def)
qed (simp add: find_or_add_edge_def)

lemma reduce_r1_spare:
  assumes "ReduceR1 sv n e st = (PBQP_OK, st')" and "e < pb_edge_capacity (ss_problem st)" and "shape_ok (ss_problem st)"
  shows "spare (ss_problem st')"
proof -
  let ?p = "ss_problem st"
  let ?m = "OtherNode (edge_at ?p e) n"
  obtain ks ks' rs s p' where ap: "r1_apply n ?m rs [0..<nd_domain (node_at ?p ?m)] (?p\<lparr>pb_statistics := s\<rparr>) = (True, p')"
    and st': "same_graph (eliminate kReductionR1 n (set_node n (\<lambda>node. node\<lparr>nd_first_neighbor := ?m\<rparr>) (drop_edge e p'))) (ss_problem st')"
    by (rule reduce_r1_run[OF assms(1) refl refl refl refl])
  have "r1_apply n m rs vs q = (True, q') \<Longrightarrow> pb_edges q' = pb_edges q \<and> pb_edge_capacity q' = pb_edge_capacity q" for m vs q q'
    by (induction vs arbitrary: q) (auto split: prod.splits if_splits simp: set_reconstruction_def set_node_def)
  from this[OF ap] have "spare (drop_edge e p')" using assms(2,3) by (intro spare_drop) (auto simp: shape_ok_def)
  then show ?thesis using spare_same[OF st'] by simp
qed

lemma reduce_r2_spare:
  assumes "ReduceR2 sv n e1 e2 st = (PBQP_OK, st')" and "e1 < pb_edge_capacity (ss_problem st)" and "shape_ok (ss_problem st)"
  shows "spare (ss_problem st')"
proof -
  let ?p = "ss_problem st"
  let ?m1 = "OtherNode (edge_at ?p e1) n" and ?m2 = "OtherNode (edge_at ?p e2) n"
  obtain f p1 s path ks rs ks' p' where fo: "find_or_add_edge ?m1 ?m2 ?p = (Some f, p1)"
    and ap: "r2_apply n ?m1 ?m2 (nd_domain (node_at ?p ?m2)) f rs
      (List.product [0..<nd_domain (node_at ?p ?m1)] [0..<nd_domain (node_at ?p ?m2)]) (p1\<lparr>pb_statistics := s\<rparr>) = (True, p')"
    and st': "same_graph (eliminate kReductionR2 n (set_node n (\<lambda>node. node\<lparr>nd_first_neighbor := ?m1, nd_second_neighbor := ?m2\<rparr>)
      (drop_edge e2 (drop_edge e1 p')))) (ss_problem st')"
    by (rule reduce_r2_run[OF assms(1) refl refl refl refl refl])
  have "r2_apply n m1 m2 d f rs ps q = (True, q') \<Longrightarrow> length (pb_edges q') = length (pb_edges q) \<and> pb_edge_capacity q' = pb_edge_capacity q" for m1 m2 d ps q q'
    by (induction ps arbitrary: q) (auto split: prod.splits if_splits simp: set_reconstruction_def set_edge_def)
  moreover have "length (pb_edges p1) = length (pb_edges ?p) \<and> pb_edge_capacity p1 = pb_edge_capacity ?p"
    using fo by (auto simp: find_or_add_edge_def AddFillEdge_def Let_def split: option.splits)
  ultimately have "spare (drop_edge e1 p')" using ap assms(2,3) by (intro spare_drop) (auto simp: shape_ok_def)
  then show ?thesis using spare_same[OF st'] spare_drop_keep by simp
qed

section \<open>The reductions succeed\<close>

lemma on_kernel_total: "(\<And>ks. \<exists>r ks'. call ks = (Inr r, ks')) \<Longrightarrow> \<exists>r st'. on_kernel call st = (Inr r, st')"
proof -
  assume total: "\<And>ks. \<exists>r ks'. call ks = (Inr r, ks')"
  obtain r ks' where "call \<lparr>ks_context = ss_context st, ks_statistics = pb_statistics (ss_problem st),
    ks_last_status = ss_kernel_status st\<rparr> = (Inr r, ks')" using total by blast
  then show ?thesis by (simp add: on_kernel_def)
qed

context total_kernel
begin

lemma reduce_r1_total:
  assumes wf: "pbqp_wf (ss_problem st)" and cb: "costs_bounded (ss_problem st)"
    and n: "n < pb_node_count (ss_problem st)" "nd_active (node_at (ss_problem st) n)"
    and e: "incident_edges (ss_problem st) n = [e]" and api: "sv_api sv = api"
    and res: "granting sv" "pb_allocator (ss_problem st)"
  shows "\<exists>st'. ReduceR1 sv n e st = (PBQP_OK, st')"
proof -
  define p where "p = ss_problem st"
  define m where m: "m = OtherNode (edge_at p e) n"
  define d where d: "d = nd_domain (node_at p n)"
  define dm where dm: "dm = nd_domain (node_at p m)"
  note abbr = p_def[symmetric] m[symmetric] d[symmetric] dm[symmetric]
  have e': "e < pb_edge_capacity p" "incident (edge_at p e) n" using e incident_edges_set[of _ p n] by (auto simp: p_def)
  note wf' = wf[folded p_def] and cb' = cb[folded p_def] and n' = n[folded p_def]
  note o = other_node[OF wf' e', folded m]
  have "dm \<noteq> 0" using wf' o(1) by (simp add: dm pbqp_wf_def graph_ok_def)
  then obtain st1 where ws: "workspace sv [dm, dm] st = (True, st1)" "ss_problem st1 = p"
    using workspace_granted[OF res, of "[dm, dm]"] by (auto simp: p_def)
  let ?jobs = "map (\<lambda>v. (whole_view (nd_unary (node_at p n)) d, EdgeView (edge_at p e) n v d)) [0..<dm]"
  let ?st2 = "with_statistics (fold (record_r1_job (edge_at p e) n d) [0..<dm]) st1"
  have ex: "exact2 a b" if "(a, b) \<in> set ?jobs" for a b
    using that r1_jobs_exact[OF wf' cb' n' e'] by (auto simp: d dm m)
  obtain rs st3 where call: "on_kernel (Min2Batch (sv_api sv) ?jobs) ?st2 = (Inr rs, st3)"
    using on_kernel_total[of "Min2Batch api ?jobs" ?st2] Min2Batch_total[of ?jobs] ex api by blast
  obtain s where p3: "ss_problem st3 = p\<lparr>pb_statistics := s\<rparr>"
    using on_kernel_graph[OF call] ws(2) by (auto simp: same_graph_def)
  have "rs = map (\<lambda>(a, b). first_min (sum2 a b)) ?jobs"
    using on_kernel_call[OF call] Min2Batch_correct[of ?jobs] ex api by blast
  then have rs: "rs ! v = r1_best p n e v" if "v < dm" for v using that by (simp add: r1_best_sum d)
  obtain wo wn we where w: "weighted p wo wn we" using cb' by (auto simp: costs_bounded_def)
  have lt: "snd (r1_best p n e v) < d" if "v < dm" for v
    using r1_best_props(1)[OF wf' w n' e', folded m] that by (simp add: d dm)
  obtain b p' where ap: "r1_apply n m rs [0..<dm] (ss_problem st3) = (b, p')" by fastforce
  have "b"
    using r1_apply_problem(1)[of "p\<lparr>pb_statistics := s\<rparr>" n m e rs "r1_best p n e" b p'] ap wf' n'(1) o(1,3) rs lt
    by (simp add: p3 m dm d)
  then show ?thesis unfolding ReduceR1_def Let_def abbr ws(1) prod.case call using ap by simp
qed

lemma r2_call_total:
  assumes wf: "pbqp_wf p" and cb: "costs_bounded p" and n: "n < pb_node_count p" "nd_active (node_at p n)"
    and e: "e1 < pb_edge_capacity p" "incident (edge_at p e1) n" "e2 < pb_edge_capacity p" "incident (edge_at p e2) n" "e1 \<noteq> e2"
    and d1: "d1 = nd_domain (node_at p (OtherNode (edge_at p e1) n))"
    and d2: "d2 = nd_domain (node_at p (OtherNode (edge_at p e2) n))"
    and path: "path \<Longrightarrow> map3_project_batch api \<noteq> None"
  shows "\<exists>rs ks'. r2_call api path p n e1 e2 d1 d2 ks = (Inr rs, ks')"
proof -
  note ex = r2_jobs_exact[OF wf cb n e _ _ refl, folded d1 d2]
  have small: "d2 < 2 ^ 32" unfolding d2 by (rule domain_small[OF wf other_node(1)[OF wf e(3,4)]])
  show ?thesis
  proof (cases path)
    case True
    then show ?thesis
      unfolding r2_call_def Let_def if_P[OF True]
      by (intro Map3ProjectBatch_total path) (use ex small in \<open>auto simp: exact_map3_def edge_columns\<close>)
  next
    case False
    then show ?thesis
      unfolding r2_call_def Let_def if_not_P[OF False]
      by (intro Min3Batch_total) (use ex in \<open>auto simp: exact_min3_def edge_columns\<close>)
  qed
qed

lemma reduce_r2_total:
  assumes wf: "pbqp_wf (ss_problem st)" and cb: "costs_bounded (ss_problem st)"
    and n: "n < pb_node_count (ss_problem st)" "nd_active (node_at (ss_problem st) n)"
    and e: "incident_edges (ss_problem st) n = [e1, e2]" and api: "sv_api sv = api"
    and res: "granting sv" "pb_allocator (ss_problem st)" and sp: "spare (ss_problem st)"
  shows "\<exists>st'. ReduceR2 sv n e1 e2 st = (PBQP_OK, st')"
proof -
  define p where "p = ss_problem st"
  define m1 m2 d1 d2 where m: "m1 = OtherNode (edge_at p e1) n" "m2 = OtherNode (edge_at p e2) n"
    and d: "d1 = nd_domain (node_at p m1)" "d2 = nd_domain (node_at p m2)"
  define path where "path = (cf_rn_batching (sv_config sv) = PBQP_RN_BATCH_PER_NODE \<and> map3_project_batch (sv_api sv) \<noteq> None)"
  note wf' = wf[folded p_def] and cb' = cb[folded p_def] and n' = n[folded p_def]
  have e': "e1 < pb_edge_capacity p" "incident (edge_at p e1) n" "e2 < pb_edge_capacity p" "incident (edge_at p e2) n" "e1 \<noteq> e2"
    using e incident_edges_set[of _ p n] incident_edges_distinct[of p n] by (auto simp: p_def)
  note o1 = other_node[OF wf' e'(1,2), folded m] and o2 = other_node[OF wf' e'(3,4), folded m]
  have ne: "m1 \<noteq> m2" unfolding m by (rule two_neighbors[OF wf' e'])
  obtain f p1 where fo: "find_or_add_edge m1 m2 p = (Some f, p1)" using find_or_add_some[of p m1 m2] sp by (auto simp: p_def)
  note fill = find_or_add_edge_frame[OF wf' o1(1) o2(1) ne o1(2) o2(2) fo]
  obtain es c where p1: "p1 = p\<lparr>pb_edges := es, pb_edge_count := c\<rparr>" using fill(1) by (auto simp: fill_frame_def)
  have "d1 \<noteq> 0" "d2 \<noteq> 0" using wf' o1(1) o2(1) by (auto simp: d pbqp_wf_def graph_ok_def)
  then obtain st1 where ws: "workspace sv (if path then [d1, d1 * d2] else [d1 * d2, d1 * d2]) (set_problem p1 st) = (True, st1)"
    "ss_problem st1 = p1"
  proof -
    have "k \<noteq> 0" if "k \<in> set (if path then [d1, d1 * d2] else [d1 * d2, d1 * d2])" for k
      using that \<open>d1 \<noteq> 0\<close> \<open>d2 \<noteq> 0\<close> by (auto split: if_splits)
    from workspace_granted[OF res(1) _ this, of "set_problem p1 st"] show ?thesis using that res(2) by (auto simp: p1 p_def)
  qed
  let ?st2 = "with_statistics (r2_record path p n e1 e2 d1 d2) st1"
  obtain rs st3 where call: "on_kernel (r2_call (sv_api sv) path p n e1 e2 d1 d2) ?st2 = (Inr rs, st3)"
    using on_kernel_total[of "r2_call api path p n e1 e2 d1 d2" ?st2] r2_call_total[OF wf' cb' n' e', of d1 d2 path] api
    by (auto simp: d m path_def)
  obtain s where p3: "ss_problem st3 = p1\<lparr>pb_statistics := s\<rparr>"
    using on_kernel_graph[OF call] ws(2) by (auto simp: same_graph_def)
  have rs: "rs = map (\<lambda>(a, b). r2_best p n e1 e2 a b) (List.product [0..<d1] [0..<d2])"
    using on_kernel_call[OF call] r2_call_results[OF wf' cb' n' e', of d1 d2 path] api by (auto simp: d m)
  obtain wo wn we where w: "weighted p wo wn we" using cb' by (auto simp: costs_bounded_def)
  obtain b p' where ap: "r2_apply n m1 m2 d2 f rs (List.product [0..<d1] [0..<d2]) (ss_problem st3) = (b, p')" by fastforce
  have "snd (rs ! (a * d2 + b)) < nd_domain (node_at (ss_problem st3) n)" if "a < d1" "b < d2" for a b
    using product_index[OF that] r2_best_props(1)[OF wf' w n' e'] that by (simp add: rs p3 p1 d m)
  moreover have "f < length (pb_edges (ss_problem st3))"
    using fill(1,2) by (auto simp: p3 fill_frame_def pbqp_wf_def shape_ok_def p1)
  ultimately have "b" using r2_apply_fold[of "List.product [0..<d1] [0..<d2]" rs d2 "ss_problem st3" n f m1 m2] ap by auto
  then show ?thesis
    unfolding reduce_r2_eq[OF p_def m d path_def] fo prod.case option.case ws(1) r2_finish_def call using ap by (simp add: Let_def)
qed

lemma reduce_node_total:
  assumes wf: "pbqp_wf (ss_problem st)" and cb: "costs_bounded (ss_problem st)"
    and n: "FindReducibleNode (ss_problem st) = Some n" and api: "sv_api sv = api"
    and res: "granting sv" "pb_allocator (ss_problem st)" and sp: "spare (ss_problem st)"
  shows "\<exists>st'. reduce_node sv n st = (PBQP_OK, st') \<and> spare (ss_problem st')"
proof -
  note r = reducible_node[OF n]
  have sh: "shape_ok (ss_problem st)" using wf by (simp add: pbqp_wf_def)
  consider "incident_edges (ss_problem st) n = []" | e where "incident_edges (ss_problem st) n = [e]"
    | e1 e2 where "incident_edges (ss_problem st) n = [e1, e2]"
    using r(3) by (cases "incident_edges (ss_problem st) n" rule: remdups_adj.cases) (auto simp: numeral_2_eq_2)
  then show ?thesis
  proof cases
    case 1
    obtain status st' where r0: "ReduceR0 sv n st = (status, st')" by fastforce
    then have "status = PBQP_OK" "spare (ss_problem st')" using sp by (auto simp: ReduceR0_def Let_def split: prod.splits)
    then show ?thesis using 1 r0 by (simp add: reduce_node_def neighbor_count)
  next
    case (2 e)
    then have "e < pb_edge_capacity (ss_problem st)" using incident_edges_set[of e "ss_problem st" n] by simp
    then show ?thesis
      using reduce_r1_total[OF wf cb r(1,2) 2 api res] reduce_r1_spare[OF _ _ sh] 2 by (auto simp: reduce_node_def neighbor_count)
  next
    case (3 e1 e2)
    then have "e1 < pb_edge_capacity (ss_problem st)" using incident_edges_set[of e1 "ss_problem st" n] by simp
    then show ?thesis
      using reduce_r2_total[OF wf cb r(1,2) 3 api res sp] reduce_r2_spare[OF _ _ sh] 3 by (auto simp: reduce_node_def neighbor_count)
  qed
qed

section \<open>The searches succeed\<close>

lemma reduce_all_total:
  assumes "attains p0 (ss_problem st)" and "spare (ss_problem st)" and "ActiveNodeCount (ss_problem st) < fuel"
    and "sv_api sv = api" and "granting sv" and "pb_allocator p0"
  shows "\<exists>st'. reduce_all fuel sv st = Some (PBQP_OK, st') \<and> attains p0 (ss_problem st') \<and> spare (ss_problem st') \<and>
    ActiveNodeCount (ss_problem st') \<le> ActiveNodeCount (ss_problem st)"
  using assms(1-3)
proof (induction fuel arbitrary: st)
  case (Suc fuel)
  have wf: "pbqp_wf (ss_problem st)" "costs_bounded (ss_problem st)" "pb_allocator (ss_problem st)" "counted (ss_problem st)"
    using Suc.prems(1) assms(6) by (auto simp: attains_def counted_def pbqp_wf_def shape_ok_def)
  show ?case
  proof (cases "FindReducibleNode (ss_problem st)")
    case (Some n)
    obtain st1 where r: "reduce_node sv n st = (PBQP_OK, st1)" "spare (ss_problem st1)"
      using reduce_node_total[OF wf(1,2) Some assms(4,5) wf(3) Suc.prems(2)] by blast
    have "attains p0 (ss_problem st1)" "ActiveNodeCount (ss_problem st1) < ActiveNodeCount (ss_problem st)"
      using reduce_node_attains[OF Suc.prems(1) Some assms(4) r(1)] reduce_step_count[OF Some r(1) wf(4)] by auto
    then show ?thesis using Suc.IH[of st1] Suc.prems(3) r Some by force
  qed (use Suc.prems in auto)
qed simp

end

text \<open>
  A branch solver that cannot fail on graphs with fewer than \<open>k\<close> active nodes; a limit of zero means
  that the search is not limited.
\<close>

definition branch_total :: "pbqp_problem \<Rightarrow> nat \<Rightarrow> 'k branch_solver \<Rightarrow> bool" where
  "branch_total p0 k solve \<longleftrightarrow> (\<forall>depth search best_known sol st.
     attains p0 (ss_problem st) \<longrightarrow> spare (ss_problem st) \<longrightarrow> ActiveNodeCount (ss_problem st) < k \<longrightarrow>
     (\<exists>status sol' search' st'. solve depth search best_known sol st = Some (status, sol', search', st') \<and>
        (status = PBQP_OK \<or> status = PBQP_PRUNED)))"

lemma branch_totalE:
  assumes "branch_total p0 k solve" and "attains p0 (ss_problem st)" and "spare (ss_problem st)" and "ActiveNodeCount (ss_problem st) < k"
  obtains status sol' search' st' where "solve depth search bk sol st = Some (status, sol', search', st')"
    and "status = PBQP_OK \<or> status = PBQP_PRUNED"
  using assms unfolding branch_total_def by blast

lemma branch_values_total:
  assumes total: "branch_total p0 (ActiveNodeCount p) solve" and at: "attains p0 p" and st: "storable p0" and sp: "spare p"
    and n: "n < pb_node_count p" "nd_active (node_at p n)" and gr: "granting sv"
    and "\<And>v. v \<in> set vs \<Longrightarrow> v < nd_domain (node_at p n)" and "same_graph p (ss_problem (bl_state bl))"
  shows "\<exists>bl'. branch_values solve sv n depth bk base vs bl = Some (Inr bl')"
  using assms(8,9)
proof (induction vs arbitrary: bl)
  case (Cons v vs)
  define parent where "parent = ss_problem (bl_state bl)"
  obtain s0 where par: "parent = p\<lparr>pb_statistics := s0\<rparr>" using Cons.prems(2) by (auto simp: parent_def same_graph_def)
  have wf: "pbqp_wf p" "costs_bounded p" "storable p" "counted p"
    using at st by (auto simp: attains_def storable_def counted_def pbqp_wf_def shape_ok_def)
  have wfp: "pbqp_wf parent" "storable parent" using wf by (simp_all add: par storable_def)
  obtain cloned st1 where cl: "clone_state sv (bl_state bl) = (PBQP_OK, cloned, st1)"
    using clone_granted[OF gr, of "bl_state bl"] wfp n(1) by (auto simp: parent_def[symmetric] par)
  have "same_graph parent cloned"
    using clone_graph(1)[OF _ _ cl] wfp by (auto simp: parent_def[symmetric] pbqp_wf_def storable_def)
  then obtain s1 where cloned: "cloned = p\<lparr>pb_statistics := s1\<rparr>" by (auto simp: same_graph_def par)
  define child0 where "child0 = cloned\<lparr>pb_statistics := copy_statistics (pb_statistics cloned)
    (share_arrays (pb_statistics parent) base) (pb_node_capacity cloned) (pb_domain_capacity cloned)\<rparr>"
  obtain s2 where c0: "child0 = p\<lparr>pb_statistics := s2\<rparr>" by (simp add: child0_def cloned)
  obtain cond child where cn: "ConditionNode n v kReductionBranch child0 = (cond, child)" by fastforce
  have ok: "cond = PBQP_OK" and step: "attained_step n p child"
    using condition_node_step(1,2)[OF _ _ _ _ _ _ _ cn] wf n Cons.prems(1) by (auto simp: c0)
  have small: "ActiveNodeCount child < ActiveNodeCount p"
  proof -
    have "retires n p child" using condition_node_retires[OF cn[unfolded ok]] by (simp add: c0 retires_def actives_def)
    from retires_count(2)[OF wf(4) this n] show ?thesis by simp
  qed
  have spc: "spare child" using condition_spare[OF cn] sp by (simp add: c0)
  define st2 where "st2 = Emit sv PBQP_TRACE_BRANCH_CONDITION PBQP_TRACE_EXACT_SEARCH (int n) (int v)
    (no_work\<lparr>wk_slice := branch_elements child0 n, wk_structural := 1, wk_operand_bytes := 2 * branch_elements child0 n * 4,
       wk_result_bytes := branch_elements child0 n * 4\<rparr>) (set_problem child st1)"
  obtain st3 where ws: "workspace sv [pb_node_count parent] (set_problem parent st2) = (True, st3)"
    using workspace_granted[OF gr, of "set_problem parent st2" "[pb_node_count parent]"] wfp(2) n(1)
    by (auto simp: storable_def par)
  have at': "attains p0 (ss_problem (set_problem child st3))" using attains_step[OF at step] by simp
  obtain status cand search' st4 where sol: "solve (depth + 1) ((bl_search bl)\<lparr>sc_branches_created :=
        count_up 64 (sc_branches_created (bl_search bl))\<rparr>) (child_best_known bk (bl_best bl))
      (ACCEL_INF, replicate (pb_node_count parent) 0) (set_problem child st3) = Some (status, cand, search', st4)"
    and status: "status = PBQP_OK \<or> status = PBQP_PRUNED"
  proof (rule branch_totalE[OF total at'])
    show "spare (ss_problem (set_problem child st3))" "ActiveNodeCount (ss_problem (set_problem child st3)) < ActiveNodeCount p"
      using spc small by simp_all
  qed (rule that)
  have rest: "\<exists>bl'. branch_values solve sv n depth bk base vs (branch_merge base status cand search' parent st4 bl) = Some (Inr bl')"
    by (rule Cons.IH) (use Cons.prems(1) in \<open>auto simp: branch_merge_def Let_def par\<close>)
  show ?case
    unfolding branch_values.simps Let_def cl prod.case parent_def[symmetric] child0_def[symmetric] cn ok st2_def[symmetric] ws
    using sol status rest by auto
qed simp

lemma branch_step_total:
  fixes solve :: "'a branch_solver"
  assumes total: "branch_total p0 k solve" and st0: "storable p0" and gr: "granting sv"
  shows "branch_total p0 (Suc k) (branch_step solve sv)"
  unfolding branch_total_def
proof (intro allI impI)
  fix depth search bk sol and st :: "'a solver_state"
  assume at: "attains p0 (ss_problem st)" and sp: "spare (ss_problem st)" and k: "ActiveNodeCount (ss_problem st) < Suc k"
  define p where "p = ss_problem st"
  have sub: "branch_total p0 (ActiveNodeCount p) solve" using total k unfolding branch_total_def p_def by fastforce
  have al: "pb_allocator p" using at st0 by (auto simp: p_def attains_def storable_def)
  show "\<exists>status sol' search' st'. branch_step solve sv depth search bk sol st = Some (status, sol', search', st') \<and>
      (status = PBQP_OK \<or> status = PBQP_PRUNED)"
  proof (cases "SelectRnNode (cf_rn_policy (sv_config sv)) p")
    case None
    then have "ActiveNodeCount p = 0" by (simp add: select_none)
    then show ?thesis by (simp add: branch_step_def Let_def p_def[symmetric])
  next
    case (Some n)
    note n = select_some[OF Some]
    let ?st = "Emit sv PBQP_TRACE_BRANCH_SELECT PBQP_TRACE_EXACT_SEARCH (int n) (- 1) (no_work\<lparr>wk_branch_domain := nd_domain (node_at p n)\<rparr>) st"
    obtain st2 where ws: "workspace sv [pb_node_count p] ?st = (True, st2)" "ss_problem st2 = p"
      using workspace_granted[OF gr, of ?st "[pb_node_count p]"] al n(1) by (auto simp: p_def)
    let ?bl = "\<lparr>bl_best = None, bl_best_array = replicate (pb_node_count p) 0, bl_aggregate = pb_statistics p,
      bl_search = search, bl_state = st2\<rparr>"
    obtain bl where bl: "branch_values solve sv n depth bk (pb_statistics p) [0..<nd_domain (node_at p n)] ?bl = Some (Inr bl)"
      using branch_values_total[OF sub at[folded p_def] st0 sp[folded p_def] n gr, of "[0..<nd_domain (node_at p n)]" ?bl depth bk "pb_statistics p"] ws(2)
      by auto
    show ?thesis
      unfolding branch_step_def Let_def p_def[symmetric] Some option.case ws(1) prod.case bl sum.case
      by (auto split: option.splits)
  qed
qed

context total_kernel
begin

lemma branch_reduce_total:
  assumes "sv_api sv = api" and "storable p0" and "granting sv" and "cf_maximum_search_nodes (sv_config sv) = 0"
  shows "branch_total p0 fuel (SolveBranchAndReduce fuel sv)"
proof (induction fuel)
  case 0
  then show ?case by (simp add: branch_total_def)
next
  case (Suc fuel)
  note step = branch_step_total[OF Suc assms(2,3)]
  have al: "pb_allocator p0" using assms(2) by (simp add: storable_def)
  show ?case
    unfolding branch_total_def
  proof (intro allI impI)
    fix depth search bk sol and st :: "'k solver_state"
    assume at: "attains p0 (ss_problem st)" and sp: "spare (ss_problem st)" and k: "ActiveNodeCount (ss_problem st) < Suc fuel"
    have "ActiveNodeCount (ss_problem st) \<le> pb_node_count (ss_problem st)" by (rule active_le)
    then obtain st1 where red: "reduce_all (Suc (pb_node_count (ss_problem st))) sv st = Some (PBQP_OK, st1)"
      and st1: "attains p0 (ss_problem st1)" "spare (ss_problem st1)" "ActiveNodeCount (ss_problem st1) < Suc fuel"
      using reduce_all_total[OF at sp _ assms(1,3) al, of "Suc (pb_node_count (ss_problem st))"] k by fastforce
    obtain status sol' search' st' where "branch_step (SolveBranchAndReduce fuel sv) sv depth (search\<lparr>sc_nodes_visited :=
          count_up 64 (sc_nodes_visited search), sc_maximum_depth := max depth (sc_maximum_depth search)\<rparr>) bk sol st1 =
        Some (status, sol', search', st')" "status = PBQP_OK \<or> status = PBQP_PRUNED"
      by (rule branch_totalE[OF step st1])
    then show "\<exists>status sol' search' st'. SolveBranchAndReduce (Suc fuel) sv depth search bk sol st = Some (status, sol', search', st') \<and>
        (status = PBQP_OK \<or> status = PBQP_PRUNED)"
      unfolding SolveBranchAndReduce.simps(2) Let_def red using assms(4) by auto
  qed
qed

lemma solve_loop_total:
  assumes "reduces p0 (ss_problem st)" and "spare (ss_problem st)" and "ActiveNodeCount (ss_problem st) < fuel"
    and "sv_api sv = api" and "granting sv" and "pb_allocator p0"
    and "cf_strategy (sv_config sv) \<noteq> PBQP_STRATEGY_HEURISTIC_RN" and "cf_strategy (sv_config sv) \<noteq> PBQP_STRATEGY_REDUCE_ONLY"
  shows "\<exists>res st'. solve_loop fuel sv rn sol st = Some (res, st') \<and>
    (res = CoreLeft \<and> spare (ss_problem st') \<and> 0 < ActiveNodeCount (ss_problem st') \<and>
       ActiveNodeCount (ss_problem st') \<le> ActiveNodeCount (ss_problem st) \<or> (\<exists>sol'. res = Returned PBQP_OK sol'))"
  using assms(1-3)
proof (induction fuel arbitrary: rn st)
  case (Suc fuel)
  have wf: "pbqp_wf (ss_problem st)" "costs_bounded (ss_problem st)" "pb_allocator (ss_problem st)" "counted (ss_problem st)"
    using Suc.prems(1) assms(6) by (auto simp: reduces_def attains_def counted_def pbqp_wf_def shape_ok_def)
  show ?case
  proof (cases "FindReducibleNode (ss_problem st)")
    case None
    then show ?thesis using assms(7,8) Suc.prems(2) by (simp add: Let_def)
  next
    case (Some n)
    obtain st1 where r: "reduce_node sv n st = (PBQP_OK, st1)" "spare (ss_problem st1)"
      using reduce_node_total[OF wf(1,2) Some assms(4,5) wf(3) Suc.prems(2)] by blast
    let ?st = "with_statistics (record_after_rn rn (degree_of (ss_problem st) n)) st1"
    have "reduces p0 (ss_problem ?st)" "ActiveNodeCount (ss_problem ?st) < ActiveNodeCount (ss_problem st)"
      using reduce_node_reduces[OF Suc.prems(1) Some assms(4) r(1)] reduce_step_count[OF Some r(1) wf(4)] by auto
    then show ?thesis using Suc.IH[of ?st rn] Suc.prems(3) r Some by (fastforce simp: Let_def)
  qed
qed simp

end

end
