(* ===== verification/Pbqp_Build.thy ===== *)
theory Pbqp_Build
  imports Pbqp_Total
begin

text \<open>
  Graphs built through the public interface. \<open>built\<close> is the set of graphs that \<open>pbqp_init\<close>,
  \<open>pbqp_add_node\<close> and \<open>pbqp_add_edge\<close> produce from any arguments, in any order; all of them satisfy
  the hypotheses of the solver theorems. The domain capacity is below \<open>2 ^ 16\<close>, so that the
  \<open>unsigned\<close> subscripts of the cost tables do not wrap around.
\<close>

section \<open>Initialisation\<close>

lemma zeroed_sel [simp]:
  "pb_allocator (zeroed_problem nc ec dc)" "pb_storage (zeroed_problem nc ec dc)"
  "pb_node_capacity (zeroed_problem nc ec dc) = nc" "pb_edge_capacity (zeroed_problem nc ec dc) = ec"
  "pb_domain_capacity (zeroed_problem nc ec dc) = dc" "pb_node_count (zeroed_problem nc ec dc) = 0"
  "pb_edge_count (zeroed_problem nc ec dc) = 0"
  "pb_nodes (zeroed_problem nc ec dc) = replicate nc (zero_node dc)" "pb_edges (zeroed_problem nc ec dc) = replicate ec (zero_edge dc)"
  "pb_reconstruction (zeroed_problem nc ec dc) = replicate nc (replicate (dc * dc) 0)"
  "pb_elimination_order (zeroed_problem nc ec dc) = replicate nc 0" "pb_elimination_count (zeroed_problem nc ec dc) = 0"
  "pb_objective_offset (zeroed_problem nc ec dc) = 0"
  by (simp_all add: zeroed_problem_def empty_problem_def)

definition usable :: "pbqp_problem \<Rightarrow> bool" where
  "usable p \<longleftrightarrow> pbqp_wf p \<and> fresh_problem p \<and> storable p"

lemma init_usable:
  assumes "pbqp_init (Some q) (Some grants) nc ec dc = (PBQP_OK, Some p)" and "unat dc < 2 ^ 16"
  shows "usable p" and "pb_node_count p = 0" and "pb_edge_count p = 0"
    and "pb_node_capacity p = unat nc" and "pb_edge_capacity p = unat ec" and "pb_domain_capacity p = unat dc"
proof -
  have p: "p = zeroed_problem (unat nc) (unat ec) (unat dc)" and s: "ProblemStorageSize nc ec dc \<noteq> 0" and d: "dc \<noteq> 0"
    using assms(1) by (auto simp: pbqp_init_def Let_def split: if_splits)
  have "unat dc * unat dc \<le> (2 ^ 16 - 1) * (2 ^ 16 - 1)" using assms(2) by (intro mult_le_mono) auto
  moreover have "unat nc < 2 ^ 32" "unat ec < 2 ^ 32" using unsigned_less[of nc, where 'a = nat] unsigned_less[of ec, where 'a = nat] by simp_all
  moreover have "0 < unat dc" using d by (simp add: unat_gt_0)
  ultimately have "shape_ok p" by (simp add: shape_ok_def p zero_node_def zero_edge_def)
  moreover have "graph_ok p" by (auto simp: graph_ok_def p zero_node_def zero_edge_def edge_joins_def)
  moreover have "order_ok p" by (simp add: order_ok_def eliminated_def p)
  moreover have "fresh_problem p" by (simp add: fresh_problem_def p zero_edge_def)
  moreover have "storable p" using s by (simp add: storable_def p)
  ultimately show "usable p" by (simp add: usable_def pbqp_wf_def)
  show "pb_node_count p = 0" "pb_edge_count p = 0" "pb_node_capacity p = unat nc" "pb_edge_capacity p = unat ec"
    "pb_domain_capacity p = unat dc" by (simp_all add: p)
qed

section \<open>Nodes\<close>

lemma valid_cost_cong:
  "pb_node_capacity q = pb_node_capacity p \<Longrightarrow> pb_edge_capacity q = pb_edge_capacity p \<Longrightarrow> IsValidCost q = IsValidCost p"
  by (intro ext) (simp add: IsValidCost_def pbqp_max_finite_cost_def)

definition filled_node :: "nat \<Rightarrow> int list \<Rightarrow> pbqp_node \<Rightarrow> pbqp_node" where
  "filled_node d costs node = node\<lparr>nd_active := True, nd_domain := d,
     nd_unary := fold (\<lambda>index u. u[index := costs ! index]) [0..<d] (nd_unary node)\<rparr>"

lemma add_node_form:
  assumes "pbqp_add_node (Some p) d (Some costs) = (PBQP_OK, Some p')"
  shows "0 < d" and "d \<le> pb_domain_capacity p" and "pb_node_count p \<noteq> pb_node_capacity p"
    and "\<And>v. v < d \<Longrightarrow> IsValidCost p (costs ! v)"
    and "p' = p\<lparr>pb_node_count := pb_node_count p + 1,
      pb_nodes := (pb_nodes p)[pb_node_count p := filled_node d costs (node_at p (pb_node_count p))]\<rparr>"
  using assms by (auto simp: pbqp_add_node_def Let_def filled_node_def split: if_splits)

lemma filled_node_sel [simp]:
  "nd_active (filled_node d costs node)" "nd_domain (filled_node d costs node) = d"
  "nd_second_neighbor (filled_node d costs node) = nd_second_neighbor node"
  "length (nd_unary (filled_node d costs node)) = length (nd_unary node)"
  by (simp_all add: filled_node_def)

lemma filled_node_unary: "v < d \<Longrightarrow> d \<le> length (nd_unary node) \<Longrightarrow> nd_unary (filled_node d costs node) ! v = costs ! v"
  by (simp add: filled_node_def fold_set_range)

text \<open>Slots beyond the count are as \<open>pbqp_init\<close> left them.\<close>

definition tidy :: "pbqp_problem \<Rightarrow> bool" where
  "tidy p \<longleftrightarrow> (\<forall>n. pb_node_count p \<le> n \<longrightarrow> n < pb_node_capacity p \<longrightarrow> node_at p n = zero_node (pb_domain_capacity p))"

lemma add_node_usable:
  assumes u: "usable p" and t: "tidy p" and run: "pbqp_add_node (Some p) d (Some costs) = (PBQP_OK, Some p')"
  shows "usable p'" and "tidy p'" and "pb_domain_capacity p' = pb_domain_capacity p"
proof -
  note f = add_node_form[OF run]
  let ?n = "pb_node_count p"
  have wf: "shape_ok p" "graph_ok p" "order_ok p" and fr: "fresh_problem p" using u by (auto simp: usable_def pbqp_wf_def)
  have nc: "?n < pb_node_capacity p" using f(3) wf(1) by (simp add: shape_ok_def)
  then have z: "node_at p ?n = zero_node (pb_domain_capacity p)" using t by (simp add: tidy_def)
  have len: "length (pb_nodes p) = pb_node_capacity p" using wf(1) by (simp add: shape_ok_def)
  let ?nd = "filled_node d costs (node_at p ?n)"
  have at: "node_at p' m = (if m = ?n then ?nd else node_at p m)" for m using f(5) nc len by simp
  have sel: "pb_node_count p' = Suc ?n" "pb_node_capacity p' = pb_node_capacity p" "pb_edge_capacity p' = pb_edge_capacity p"
    "pb_domain_capacity p' = pb_domain_capacity p" "pb_edges p' = pb_edges p" "pb_elimination_count p' = pb_elimination_count p"
    "pb_reconstruction p' = pb_reconstruction p" "pb_elimination_order p' = pb_elimination_order p" "pb_objective_offset p' = pb_objective_offset p"
    "pb_allocator p' = pb_allocator p" "pb_storage p' = pb_storage p" "length (pb_nodes p') = length (pb_nodes p)" using f(5) by simp_all
  show "pb_domain_capacity p' = pb_domain_capacity p" by (rule sel)
  have "shape_ok p'" using wf(1) nc by (auto simp: shape_ok_def sel at)
  moreover have "graph_ok p'"
  proof -
    have old: "eg_first (edge_at p e) < ?n" "eg_second (edge_at p e) < ?n" if "e < pb_edge_capacity p" "eg_active (edge_at p e)" for e
      using wf(2) that by (auto simp: graph_ok_def)
    have second: "nd_second_neighbor (node_at p n) < Suc ?n" if "n < ?n" for n
      using wf(2) that by (auto simp: graph_ok_def intro: less_SucI)
    show ?thesis
      using wf(2) old second f(1,2) z unfolding graph_ok_def sel at by (auto simp: less_Suc_eq zero_node_def)
  qed
  moreover have "order_ok p'"
    using fr by (auto simp: order_ok_def eliminated_def sel at fresh_problem_def less_Suc_eq)
  moreover have "fresh_problem p'"
  proof -
    have "IsValidCost p (nd_unary ?nd ! v)" if "v < d" for v
      using filled_node_unary[OF that] f(2,4) that wf(1) nc by (simp add: shape_ok_def)
    moreover have "eg_first (edge_at p e) \<noteq> ?n" "eg_second (edge_at p e) \<noteq> ?n" if "e < pb_edge_capacity p" "eg_active (edge_at p e)" for e
      using wf(2) that by (auto simp: graph_ok_def)
    ultimately show ?thesis
      using fr unfolding fresh_problem_def sel at valid_cost_cong[OF sel(2,3)] by (auto simp: less_Suc_eq)
  qed
  moreover have "storable p'" using u by (simp add: usable_def storable_def sel)
  ultimately show "usable p'" by (simp add: usable_def pbqp_wf_def)
  show "tidy p'" using t by (simp add: tidy_def sel at)
qed

section \<open>Edges\<close>

definition filled_edge :: "nat \<Rightarrow> nat \<Rightarrow> nat \<Rightarrow> nat \<Rightarrow> int list \<Rightarrow> pbqp_edge \<Rightarrow> pbqp_edge" where
  "filled_edge first second fd sd costs edge = edge\<lparr>eg_active := True, eg_first := first, eg_second := second,
     eg_cost := fold (\<lambda>(a, b) cost. cost[a * eg_stride edge + b := costs ! (a * sd + b)])
       (List.product [0..<fd] [0..<sd]) (eg_cost edge)\<rparr>"

lemma add_edge_form:
  assumes "pbqp_add_edge (Some p) a b (Some costs) = (PBQP_OK, Some p')"
  obtains i where "a < pb_node_count p" and "b < pb_node_count p" and "a \<noteq> b"
    and "\<And>e. e < pb_edge_capacity p \<Longrightarrow> \<not> edge_joins (edge_at p e) a b"
    and "\<And>v w. v < nd_domain (node_at p a) \<Longrightarrow> w < nd_domain (node_at p b) \<Longrightarrow> IsValidCost p (costs ! (v * nd_domain (node_at p b) + w))"
    and "i < pb_edge_capacity p" and "\<not> eg_active (edge_at p i)"
    and "p' = p\<lparr>pb_edge_count := pb_edge_count p + 1,
      pb_edges := (pb_edges p)[i := filled_edge a b (nd_domain (node_at p a)) (nd_domain (node_at p b)) costs (edge_at p i)]\<rparr>"
proof -
  obtain i where i: "first_index (\<lambda>index. \<not> eg_active (edge_at p index)) (pb_edge_capacity p) = Some i"
    using assms by (auto simp: pbqp_add_edge_def Let_def split: if_splits option.splits)
  show ?thesis
    by (rule that[of i]) (use assms i first_index_some[OF i] in \<open>auto simp: pbqp_add_edge_def Let_def filled_edge_def split: if_splits\<close>)
qed

lemma filled_edge_sel [simp]:
  "eg_active (filled_edge a b fd sd costs edge)" "eg_first (filled_edge a b fd sd costs edge) = a"
  "eg_second (filled_edge a b fd sd costs edge) = b" "eg_stride (filled_edge a b fd sd costs edge) = eg_stride edge"
  "length (eg_cost (filled_edge a b fd sd costs edge)) = length (eg_cost edge)"
  by (simp_all add: filled_edge_def split_beta')

lemma filled_edge_cost:
  assumes "v < fd" and "w < sd" and "fd \<le> eg_stride edge" and "sd \<le> eg_stride edge"
    and "length (eg_cost edge) = eg_stride edge * eg_stride edge"
  shows "edge_cost (filled_edge a b fd sd costs edge) v w = costs ! (v * sd + w)"
proof -
  let ?g = "\<lambda>(a, b). a * eg_stride edge + b" and ?ps = "List.product [0..<fd] [0..<sd]"
  have inj: "inj_on ?g (set ?ps)" using assms(4) by (auto simp: inj_on_def pair_index_inject)
  have "v * eg_stride edge + w < length (eg_cost edge)" unfolding assms(5) using assms by (intro pair_index_less) auto
  then show ?thesis
    using fold_update_hit[OF _ inj, of "(v, w)" "eg_cost edge" "\<lambda>(a, b) _. costs ! (a * sd + b)"] assms(1,2)
    by (simp add: edge_cost_def filled_edge_def distinct_product split_beta')
qed

lemma add_edge_usable:
  assumes u: "usable p" and t: "tidy p" and run: "pbqp_add_edge (Some p) a b (Some costs) = (PBQP_OK, Some p')"
  shows "usable p'" and "tidy p'" and "pb_domain_capacity p' = pb_domain_capacity p"
    and "\<exists>i < pb_edge_capacity p. \<not> eg_active (edge_at p i) \<and> eg_active (edge_at p' i) \<and> eg_first (edge_at p' i) = a \<and>
      eg_second (edge_at p' i) = b \<and>
      (\<forall>v < nd_domain (node_at p a). \<forall>w < nd_domain (node_at p b).
         edge_cost (edge_at p' i) v w = costs ! (v * nd_domain (node_at p b) + w)) \<and>
      (\<forall>e < pb_edge_capacity p. e \<noteq> i \<longrightarrow> edge_at p' e = edge_at p e) \<and> pb_nodes p' = pb_nodes p"
proof -
  obtain i where ab: "a < pb_node_count p" "b < pb_node_count p" "a \<noteq> b"
    and new: "\<And>e. e < pb_edge_capacity p \<Longrightarrow> \<not> edge_joins (edge_at p e) a b"
    and cost: "\<And>v w. v < nd_domain (node_at p a) \<Longrightarrow> w < nd_domain (node_at p b) \<Longrightarrow> IsValidCost p (costs ! (v * nd_domain (node_at p b) + w))"
    and i: "i < pb_edge_capacity p" "\<not> eg_active (edge_at p i)"
    and p': "p' = p\<lparr>pb_edge_count := pb_edge_count p + 1,
      pb_edges := (pb_edges p)[i := filled_edge a b (nd_domain (node_at p a)) (nd_domain (node_at p b)) costs (edge_at p i)]\<rparr>"
    by (rule add_edge_form[OF run]; rule that; assumption)
  let ?e = "filled_edge a b (nd_domain (node_at p a)) (nd_domain (node_at p b)) costs (edge_at p i)"
  have wf: "shape_ok p" "graph_ok p" "order_ok p" and fr: "fresh_problem p" using u by (auto simp: usable_def pbqp_wf_def)
  have at: "edge_at p' e = (if e = i then ?e else edge_at p e)" for e using p' i wf(1) by (simp add: shape_ok_def)
  have sel: "pb_node_count p' = pb_node_count p" "pb_node_capacity p' = pb_node_capacity p" "pb_edge_capacity p' = pb_edge_capacity p"
    "pb_domain_capacity p' = pb_domain_capacity p" "pb_nodes p' = pb_nodes p" "pb_elimination_count p' = pb_elimination_count p"
    "pb_reconstruction p' = pb_reconstruction p" "pb_elimination_order p' = pb_elimination_order p" "pb_objective_offset p' = pb_objective_offset p"
    "pb_allocator p' = pb_allocator p" "pb_storage p' = pb_storage p" "length (pb_edges p') = length (pb_edges p)" using p' by simp_all
  show "pb_domain_capacity p' = pb_domain_capacity p" by (rule sel)
  have c: "edge_cost ?e v w = costs ! (v * nd_domain (node_at p b) + w)" if "v < nd_domain (node_at p a)" "w < nd_domain (node_at p b)" for v w
    by (rule filled_edge_cost) (use that wf(1,2) ab i in \<open>auto simp: shape_ok_def graph_ok_def\<close>)
  have shape: "shape_ok p'" using wf(1) i by (auto simp: shape_ok_def sel at)
  have joins: "edge_joins ?e a' b' \<longleftrightarrow> a' = a \<and> b' = b \<or> a' = b \<and> b' = a" for a' b' by (auto simp: edge_joins_def)
  have "graph_ok p'"
  proof -
    have act: "nd_active (node_at p a)" "nd_active (node_at p b)" using fr ab by (auto simp: fresh_problem_def)
    have "e = f" if "e < pb_edge_capacity p" "f < pb_edge_capacity p" "eg_active (edge_at p' e)"
        "edge_joins (edge_at p' f) (eg_first (edge_at p' e)) (eg_second (edge_at p' e))" for e f
    proof (cases "e = i")
      case True
      then show ?thesis using that new[OF that(2)] by (auto simp: at split: if_splits)
    next
      case False
      then have "f \<noteq> i"
        using that new[OF that(1)] by (auto simp: at joins edge_joins_def)
      then show ?thesis using False that wf(2) by (auto simp: at graph_ok_def)
    qed
    moreover have "eg_first (edge_at p' e) < pb_node_count p \<and> eg_second (edge_at p' e) < pb_node_count p \<and>
        eg_first (edge_at p' e) \<noteq> eg_second (edge_at p' e) \<and>
        nd_active (node_at p (eg_first (edge_at p' e))) \<and> nd_active (node_at p (eg_second (edge_at p' e)))"
      if "e < pb_edge_capacity p" "eg_active (edge_at p' e)" for e
      using that wf(2) ab act by (cases "e = i") (simp_all add: at graph_ok_def)
    moreover have "\<forall>n < pb_node_count p. 0 < nd_domain (node_at p n) \<and> nd_domain (node_at p n) \<le> pb_domain_capacity p \<and>
        nd_second_neighbor (node_at p n) < pb_node_count p" "\<forall>n < pb_node_capacity p. nd_active (node_at p n) \<longrightarrow> n < pb_node_count p"
      using wf(2) by (simp_all add: graph_ok_def)
    ultimately show ?thesis unfolding graph_ok_def sel by blast
  qed
  moreover have "order_ok p'" using wf(3) by (simp add: order_ok_def eliminated_def sel)
  moreover have "fresh_problem p'"
    using fr c cost unfolding fresh_problem_def sel valid_cost_cong[OF sel(2,3)] at by auto
  moreover have "storable p'" using u by (simp add: usable_def storable_def sel)
  ultimately show "usable p'" using shape by (simp add: usable_def pbqp_wf_def)
  show "tidy p'" using t by (simp add: tidy_def sel)
  show "\<exists>i < pb_edge_capacity p. \<not> eg_active (edge_at p i) \<and> eg_active (edge_at p' i) \<and> eg_first (edge_at p' i) = a \<and>
      eg_second (edge_at p' i) = b \<and>
      (\<forall>v < nd_domain (node_at p a). \<forall>w < nd_domain (node_at p b).
         edge_cost (edge_at p' i) v w = costs ! (v * nd_domain (node_at p b) + w)) \<and>
      (\<forall>e < pb_edge_capacity p. e \<noteq> i \<longrightarrow> edge_at p' e = edge_at p e) \<and> pb_nodes p' = pb_nodes p"
    using i c sel(5) by (intro exI[of _ i]) (auto simp: at joins)
qed

section \<open>Every built graph is usable\<close>

lemma init_tidy: "pbqp_init (Some q) (Some grants) nc ec dc = (PBQP_OK, Some p) \<Longrightarrow> tidy p"
  by (auto simp: pbqp_init_def Let_def tidy_def split: if_splits)

lemma add_some:
  "\<exists>status q. pbqp_add_node (Some p) d costs = (status, Some q)" "\<exists>status q. pbqp_add_edge (Some p) a b edge_costs = (status, Some q)"
  by (cases "pbqp_add_node (Some p) d costs"; auto simp: pbqp_add_node_def Let_def split: if_splits option.splits)
    (cases "pbqp_add_edge (Some p) a b edge_costs"; auto simp: pbqp_add_edge_def Let_def split: if_splits option.splits)

lemma add_node_failed: "pbqp_add_node (Some p) d costs = (status, Some p') \<Longrightarrow> status \<noteq> PBQP_OK \<or> costs = None \<Longrightarrow> p' = p"
  by (auto simp: pbqp_add_node_def Let_def split: if_splits option.splits)

lemma add_edge_failed: "pbqp_add_edge (Some p) a b costs = (status, Some p') \<Longrightarrow> status \<noteq> PBQP_OK \<or> costs = None \<Longrightarrow> p' = p"
  by (auto simp: pbqp_add_edge_def Let_def split: if_splits option.splits)

inductive built :: "pbqp_problem \<Rightarrow> bool" where
  init: "pbqp_init (Some q) (Some grants) nc ec dc = (PBQP_OK, Some p) \<Longrightarrow> unat dc < 2 ^ 16 \<Longrightarrow> built p"
| node: "built p \<Longrightarrow> pbqp_add_node (Some p) d costs = (status, Some p') \<Longrightarrow> built p'"
| edge: "built p \<Longrightarrow> pbqp_add_edge (Some p) a b costs = (status, Some p') \<Longrightarrow> built p'"

lemma built_tidy: "built p \<Longrightarrow> usable p \<and> tidy p"
proof (induction rule: built.induct)
  case (init q grants nc ec dc p)
  then show ?case using init_usable(1) init_tidy by blast
next
  case (node p d costs status p')
  then show ?case using add_node_usable[of p d "the costs" p'] add_node_failed[OF node(2)] by (cases "status = PBQP_OK"; cases costs) auto
next
  case (edge p a b costs status p')
  then show ?case using add_edge_usable[of p a b "the costs" p'] add_edge_failed[OF edge(2)] by (cases "status = PBQP_OK"; cases costs) auto
qed

text \<open>
  C9: the invariant of the builders. Whatever sequence of \<open>pbqp_add_node\<close> and \<open>pbqp_add_edge\<close> calls,
  failed ones included, follows a successful \<open>pbqp_init\<close> with a domain capacity below \<open>2 ^ 16\<close>, the graph is well-formed (array shapes,
  domains, at most one edge per pair of nodes), unreduced with costs in the accepted range, and
  backed by storage that can be cloned: the hypotheses of the solver theorems.
\<close>

theorem built_invariant:
  assumes "built p"
  shows "pbqp_wf p \<and> fresh_problem p \<and> storable p"
  using built_tidy[OF assms] by (simp add: usable_def)

definition small_nodes :: pbqp_problem where
  "small_nodes = the (snd (pbqp_add_node (snd (pbqp_add_node (Some (zeroed_problem 2 2 2)) 2 (Some [1, 2]))) 2 (Some [0, ACCEL_INF])))"

definition small_graph :: pbqp_problem where
  "small_graph = the (snd (pbqp_add_edge (Some small_nodes) 0 1 (Some [3, 4, 5, 6])))"

lemma small_nodes_built: "built small_nodes"
proof -
  let ?p0 = "zeroed_problem 2 2 2"
  have s: "ProblemStorageSize 2 2 2 \<noteq> 0" by code_simp
  have 0: "pbqp_init (Some empty_problem) (Some (\<lambda>_. True)) 2 2 2 = (PBQP_OK, Some ?p0)"
    using s by (simp add: pbqp_init_def)
  have b0: "built ?p0" by (rule built.init[OF 0]) simp
  obtain s1 p1 where 1: "pbqp_add_node (Some ?p0) 2 (Some [1, 2]) = (s1, Some p1)" using add_some(1) by blast
  have b1: "built p1" by (rule built.node[OF b0 1])
  obtain s2 p2 where 2: "pbqp_add_node (Some p1) 2 (Some [0, ACCEL_INF]) = (s2, Some p2)" using add_some(1) by blast
  have "built p2" by (rule built.node[OF b1 2])
  then show ?thesis using 1 2 by (simp add: small_nodes_def)
qed

lemma small_graph_built: "built small_graph"
proof -
  obtain s p where 1: "pbqp_add_edge (Some small_nodes) 0 1 (Some [3, 4, 5, 6]) = (s, Some p)" using add_some(2) by blast
  then have "built p" by (rule built.edge[OF small_nodes_built])
  then show ?thesis using 1 by (simp add: small_graph_def)
qed

theorem built_invariant_witness: "pbqp_wf small_graph \<and> fresh_problem small_graph \<and> storable small_graph"
  by (rule built_invariant[OF small_graph_built])

lemma first_index_cong: "(\<And>i. i < n \<Longrightarrow> P i = Q i) \<Longrightarrow> first_index P n = first_index Q n"
  unfolding first_index_def by (rule find_cong) auto

lemma first_index_unique:
  assumes "i < n" and "P i" and "\<And>e. e < n \<Longrightarrow> P e \<Longrightarrow> e = i"
  shows "first_index P n = Some i"
proof (cases "first_index P n")
  case None
  then show ?thesis using assms(1,2) unfolding first_index_none by blast
next
  case (Some j)
  then show ?thesis using assms(3)[of j] first_index_some[OF Some] by blast
qed

lemma add_edge_find:
  assumes u: "usable p" "tidy p" and run: "pbqp_add_edge (Some p) a b (Some costs) = (PBQP_OK, Some p')"
    and i: "i < pb_edge_capacity p" "\<not> eg_active (edge_at p i)" "eg_active (edge_at p' i)"
      "eg_first (edge_at p' i) = a" "eg_second (edge_at p' i) = b"
    and rest: "\<forall>e < pb_edge_capacity p. e \<noteq> i \<longrightarrow> edge_at p' e = edge_at p e"
  shows "FindEdge p' v w = (if {v, w} = {a, b} then Some i else FindEdge p v w)" and "FindEdge p a b = None"
    and "pb_edge_count p' = pb_edge_count p + 1"
proof -
  have wf': "graph_ok p'" using add_edge_usable(1)[OF u run] by (simp add: usable_def pbqp_wf_def)
  obtain form: "pb_edge_capacity p' = pb_edge_capacity p" "pb_edge_count p' = pb_edge_count p + 1"
    "\<And>e. e < pb_edge_capacity p \<Longrightarrow> \<not> edge_joins (edge_at p e) a b"
    by (rule add_edge_form[OF run]) simp
  show "pb_edge_count p' = pb_edge_count p + 1" by (rule form(2))
  show "FindEdge p a b = None"
    using form(3) first_index_some by (cases "FindEdge p a b") (auto simp: FindEdge_def)
  have joins_i: "edge_joins (edge_at p' i) v w \<longleftrightarrow> {v, w} = {a, b}" "\<not> edge_joins (edge_at p i) v w"
    using i by (auto simp: edge_joins_def doubleton_eq_iff)
  show "FindEdge p' v w = (if {v, w} = {a, b} then Some i else FindEdge p v w)"
  proof (cases "{v, w} = {a, b}")
    case True
    have unique: "e = i" if "e < pb_edge_capacity p" "edge_joins (edge_at p' e) v w" for e
    proof -
      have "eg_active (edge_at p' e)" "edge_joins (edge_at p' i) (eg_first (edge_at p' e)) (eg_second (edge_at p' e))"
        using that(2) True i(3-5) by (auto simp: edge_joins_def doubleton_eq_iff)
      then show ?thesis using wf' that(1) i(1) by (auto simp: graph_ok_def form(1))
    qed
    have "first_index (\<lambda>e. edge_joins (edge_at p' e) v w) (pb_edge_capacity p) = Some i"
      by (rule first_index_unique[OF i(1) _ unique]) (use joins_i(1) True in simp_all)
    with True show ?thesis by (simp add: FindEdge_def form(1))
  next
    case False
    have "edge_joins (edge_at p' e) v w = edge_joins (edge_at p e) v w" if "e < pb_edge_capacity p" for e
      using rest that joins_i False by (cases "e = i") auto
    then have "first_index (\<lambda>e. edge_joins (edge_at p' e) v w) (pb_edge_capacity p) =
        first_index (\<lambda>e. edge_joins (edge_at p e) v w) (pb_edge_capacity p)"
      by (rule first_index_cong)
    with False show ?thesis by (simp add: FindEdge_def form(1))
  qed
qed

text \<open>
  C10: insert and look up. On a built graph whose nodes \<open>a\<close> and \<open>b\<close> have no edge yet, a successful
  \<open>pbqp_add_edge\<close> takes a slot that was free, makes \<open>Graph::FindEdge\<close> find it from either end, with the
  caller's row-major costs at the strided positions, and leaves every other lookup, every node and every
  other edge slot as it was; a failed call, whatever the reason, changes nothing at all.
\<close>

theorem add_edge_lookup:
  assumes "built p" and "pbqp_add_edge (Some p) a b (Some costs) = (status, Some p')"
  shows "(status = PBQP_OK \<longrightarrow> FindEdge p a b = None \<and> pb_edge_count p' = pb_edge_count p + 1 \<and> pb_nodes p' = pb_nodes p \<and>
      (\<exists>i < pb_edge_capacity p. \<not> eg_active (edge_at p i) \<and>
        (\<forall>v w. FindEdge p' v w = (if {v, w} = {a, b} then Some i else FindEdge p v w)) \<and>
        eg_first (edge_at p' i) = a \<and> eg_second (edge_at p' i) = b \<and>
        (\<forall>v < nd_domain (node_at p a). \<forall>w < nd_domain (node_at p b).
           edge_cost (edge_at p' i) v w = costs ! (v * nd_domain (node_at p b) + w)) \<and>
        (\<forall>e < pb_edge_capacity p. e \<noteq> i \<longrightarrow> edge_at p' e = edge_at p e))) \<and>
    (status \<noteq> PBQP_OK \<longrightarrow> p' = p)"
proof (cases "status = PBQP_OK")
  case True
  then have run: "pbqp_add_edge (Some p) a b (Some costs) = (PBQP_OK, Some p')" using assms(2) by simp
  have u: "usable p" "tidy p" using built_tidy[OF assms(1)] by auto
  from add_edge_usable(4)[OF u run] obtain i
    where i: "i < pb_edge_capacity p" "\<not> eg_active (edge_at p i)" "eg_active (edge_at p' i)"
      "eg_first (edge_at p' i) = a" "eg_second (edge_at p' i) = b"
    and cost: "\<forall>v < nd_domain (node_at p a). \<forall>w < nd_domain (node_at p b).
         edge_cost (edge_at p' i) v w = costs ! (v * nd_domain (node_at p b) + w)"
    and rest: "\<forall>e < pb_edge_capacity p. e \<noteq> i \<longrightarrow> edge_at p' e = edge_at p e" "pb_nodes p' = pb_nodes p" by blast
  note find = add_edge_find[OF u run i rest(1)]
  have "\<exists>i < pb_edge_capacity p. \<not> eg_active (edge_at p i) \<and>
        (\<forall>v w. FindEdge p' v w = (if {v, w} = {a, b} then Some i else FindEdge p v w)) \<and>
        eg_first (edge_at p' i) = a \<and> eg_second (edge_at p' i) = b \<and>
        (\<forall>v < nd_domain (node_at p a). \<forall>w < nd_domain (node_at p b).
           edge_cost (edge_at p' i) v w = costs ! (v * nd_domain (node_at p b) + w)) \<and>
        (\<forall>e < pb_edge_capacity p. e \<noteq> i \<longrightarrow> edge_at p' e = edge_at p e)"
    using i(1,2,4,5) find(1) cost rest(1) by blast
  then show ?thesis using True find(2,3) rest(2) by blast
next
  case False
  then show ?thesis using add_edge_failed[OF assms(2)] by blast
qed

theorem add_edge_lookup_witness:
  "\<exists>p' i. pbqp_add_edge (Some small_nodes) 0 1 (Some [3, 4, 5, 6]) = (PBQP_OK, Some p') \<and>
     FindEdge p' 1 0 = Some i \<and> edge_cost (edge_at p' i) 1 0 = 5"
proof -
  obtain status p' where run: "pbqp_add_edge (Some small_nodes) 0 1 (Some [3, 4, 5, 6]) = (status, Some p')" using add_some(2) by blast
  have "fst (pbqp_add_edge (Some small_nodes) 0 1 (Some [3, 4, 5, 6])) = PBQP_OK" and dom: "nd_domain (node_at small_nodes 0) = 2"
    "nd_domain (node_at small_nodes 1) = 2" by code_simp+
  with run have st: "status = PBQP_OK" by simp
  from add_edge_lookup[OF small_nodes_built run] st obtain i
    where "\<forall>v w. FindEdge p' v w = (if {v, w} = {0, 1} then Some i else FindEdge small_nodes v w)"
      "\<forall>v < nd_domain (node_at small_nodes 0). \<forall>w < nd_domain (node_at small_nodes 1).
         edge_cost (edge_at p' i) v w = [3, 4, 5, 6] ! (v * nd_domain (node_at small_nodes 1) + w)" by blast
  with run st dom show ?thesis by (intro exI[of _ p'] exI[of _ i]) (simp add: insert_commute)
qed

end
