(* ===== verification/Pbqp_Solver_Correct.thy ===== *)
theory Pbqp_Solver_Correct
  imports Pbqp_Total
begin

text \<open>
  The solver as its callers see it (\<open>pbqp_solver_solve\<close>): the exact strategies return an optimal
  assignment, the heuristic one an assignment with its exact cost, and every strategy without a local
  search returns whatever the kernel and the allocator do.
\<close>

section \<open>From extended costs to \<open>pbqp_evaluate\<close>\<close>

lemma achieves_evaluate:
  assumes "pbqp_wf p" and "fresh_problem p" and "achieves p c x"
  shows "valid_assignment p x" and "c = pbqp_evaluate p x"
  using assms evaluate_exact[OF assms(1,2), of x] by (auto simp: achieves_def cost_abs_inject)

lemma optimal_evaluate:
  assumes "pbqp_wf p" and "fresh_problem p" and "optimal p c x" and "valid_assignment p y"
  shows "c \<le> pbqp_evaluate p y"
  using assms evaluate_exact[OF assms(1,2,4)] cost_abs_le_iff[of c "pbqp_evaluate p y"]
  by (simp add: optimal_def achieves_def)

section \<open>The strategies\<close>

definition exact_strategy :: "pbqp_solver_strategy \<Rightarrow> bool" where
  "exact_strategy s \<longleftrightarrow> s = PBQP_STRATEGY_REDUCE_ONLY \<or> s = PBQP_STRATEGY_EXACT_CORE_ENUMERATION \<or>
     s = PBQP_STRATEGY_EXACT_BRANCH_REDUCE"

lemma fresh_reduces:
  assumes "pbqp_wf p" and "fresh_problem p"
  shows "reduces p p"
  using assms fresh_weighted[OF assms] by (intro reduces_refl) (auto simp: costs_bounded_def fresh_problem_def)

lemma min_infinite [simp]: "min c Infinite = (c :: ecost)"
  by (cases c) (auto simp: min_def)

lemma cost_abs_inf [simp]: "cost_abs ACCEL_INF = Infinite"
  by (simp add: cost_abs_def)

lemma branch_optimal:
  assumes red: "reduces p0 p" and res: "branch_result p0 p ACCEL_INF PBQP_OK sol"
  shows "optimal p0 (fst sol) (snd sol)"
proof -
  have "cost_abs (fst sol) \<le> total_cost p0 y" if y: "valid_assignment p0 y" for y
  proof -
    have "valid_assignment p y" "total_cost p y \<le> total_cost p0 y" using red y by (auto simp: reduces_def attains_def)
    then show ?thesis using res order_trans by (fastforce simp: branch_result_def)
  qed
  then show ?thesis using res by (simp add: branch_result_def optimal_def)
qed

text \<open>The end of \<open>Solve\<close>, after the reduction loop.\<close>

definition after_loop ::
  "'k solver \<Rightarrow> nat \<Rightarrow> solution_cell \<Rightarrow> (loop_end \<times> 'k solver_state) option \<Rightarrow>
     (pbqp_status \<times> solution_cell \<times> 'k solver_state) option" where
  "after_loop sv fuel sol r =
      (case r of
         None \<Rightarrow> None
       | Some (Returned status sol', st2) \<Rightarrow> Some (status, sol', st2)
       | Some (CoreLeft, st2) \<Rightarrow>
           if cf_strategy (sv_config sv) = PBQP_STRATEGY_EXACT_BRANCH_REDUCE
           then (case SolveBranchAndReduce fuel sv 0 no_search ACCEL_INF sol st2 of
                   None \<Rightarrow> None | Some (status, sol', search, st3) \<Rightarrow> Some (status, sol', st3))
           else if cf_strategy (sv_config sv) = PBQP_STRATEGY_EXACT_CORE_ENUMERATION then Some (solve_core sv sol st2)
           else Some (PBQP_ARGUMENT_ERROR, sol, st2))"

lemma solve_strategy_form:
  assumes "cf_strategy (sv_config sv) \<noteq> PBQP_STRATEGY_LOCAL_SEARCH"
  obtains st1 where "same_graph (ss_problem st) (ss_problem st1)"
    and "solve_strategy sv sol st =
      after_loop sv (Suc (pb_node_count (ss_problem st))) sol
        (solve_loop (Suc (pb_node_count (ss_problem st))) sv None sol st1)"
  using that[of "with_statistics (\<lambda>s. s(Rd nodes := pb_node_count (ss_problem st), Rd initial_edges := pb_edge_count (ss_problem st))) st"]
    assms by (simp add: solve_strategy_def after_loop_def Let_def)

context cost_kernel
begin

lemma strategy_exact:
  assumes wf: "pbqp_wf p" and fresh: "fresh_problem p" and len: "pb_node_count p \<le> length (snd sol)"
    and st: "ss_problem st = p" and api: "sv_api sv = api" and strat: "exact_strategy (cf_strategy (sv_config sv))"
    and run: "solve_strategy sv sol st = Some (PBQP_OK, sol', st')"
  shows "optimal p (fst sol') (snd sol')"
proof -
  obtain st1 where g: "same_graph (ss_problem st) (ss_problem st1)" and eq: "solve_strategy sv sol st =
      after_loop sv (Suc (pb_node_count (ss_problem st))) sol
        (solve_loop (Suc (pb_node_count (ss_problem st))) sv None sol st1)"
    by (rule solve_strategy_form) (use strat in \<open>auto simp: exact_strategy_def\<close>)
  have red: "reduces p (ss_problem st1)" using fresh_reduces[OF wf fresh] g st by (auto simp: same_graph_def)
  have al: "pb_allocator p" using fresh by (simp add: fresh_problem_def)
  obtain res st2 where loop: "solve_loop (Suc (pb_node_count (ss_problem st))) sv None sol st1 = Some (res, st2)"
    using run unfolding eq after_loop_def by (auto split: option.splits)
  have ex: "(res = CoreLeft \<longrightarrow> reduces p (ss_problem st2)) \<and>
      (\<forall>opt asg. res = Returned PBQP_OK (opt, asg) \<longrightarrow> optimal p opt asg)"
    by (rule solve_loop_exact[OF red len api _ loop]) (use strat in \<open>auto simp: exact_strategy_def\<close>)
  show ?thesis
  proof (cases res)
    case (Returned status s)
    then show ?thesis using ex run unfolding eq loop after_loop_def by (cases s) auto
  next
    case CoreLeft
    then have red2: "reduces p (ss_problem st2)" using ex by blast
    show ?thesis
    proof (cases "cf_strategy (sv_config sv) = PBQP_STRATEGY_EXACT_BRANCH_REDUCE")
      case True
      then obtain search where br: "SolveBranchAndReduce (Suc (pb_node_count (ss_problem st))) sv 0 no_search ACCEL_INF sol st2 =
          Some (PBQP_OK, sol', search, st')"
        using run CoreLeft unfolding eq loop after_loop_def by (auto split: option.splits)
      have "branch_result p (ss_problem st2) ACCEL_INF PBQP_OK sol'"
        by (rule branch_soundD[OF branch_reduce_sound[OF api wf al] br]) (use red2 len in \<open>auto simp: reduces_def\<close>)
      then show ?thesis by (rule branch_optimal[OF red2])
    next
      case False
      then have core: "solve_core sv sol st2 = (PBQP_OK, sol', st')"
        using run CoreLeft unfolding eq loop after_loop_def by (auto split: if_splits)
      show ?thesis
        using solve_core_optimal[OF red2 len, of sv "fst sol" "fst sol'" "snd sol'" st'] core by simp
    qed
  qed
qed

lemma strategy_heuristic:
  assumes wf: "pbqp_wf p" and fresh: "fresh_problem p" and len: "pb_node_count p \<le> length (snd sol)"
    and st: "ss_problem st = p" and api: "sv_api sv = api" and strat: "cf_strategy (sv_config sv) = PBQP_STRATEGY_HEURISTIC_RN"
    and run: "solve_strategy sv sol st = Some (PBQP_OK, sol', st')"
  shows "achieves p (fst sol') (snd sol')"
proof -
  obtain st1 where g: "same_graph (ss_problem st) (ss_problem st1)" and eq: "solve_strategy sv sol st =
      after_loop sv (Suc (pb_node_count (ss_problem st))) sol
        (solve_loop (Suc (pb_node_count (ss_problem st))) sv None sol st1)"
    by (rule solve_strategy_form) (use strat in auto)
  have at: "attains p (ss_problem st1)" using fresh_reduces[OF wf fresh] g st by (auto simp: same_graph_def reduces_def)
  obtain res where loop: "solve_loop (Suc (pb_node_count (ss_problem st))) sv None sol st1 = Some (res, st')"
    and "res = Returned PBQP_OK sol'"
    using run strat unfolding eq after_loop_def by (auto split: option.splits loop_end.splits if_splits)
  then show ?thesis using solve_loop_heuristic[OF at len api loop, of "fst sol'" "snd sol'"] by simp
qed

end

context total_kernel
begin

lemma strategy_total:
  assumes wf: "pbqp_wf p" and fresh: "fresh_problem p" and len: "pb_node_count p \<le> length (snd sol)"
    and res: "spare p" "storable p" "granting sv"
    and st: "ss_problem st = p" and api: "sv_api sv = api" and limit: "cf_maximum_search_nodes (sv_config sv) = 0"
    and strat: "cf_strategy (sv_config sv) = PBQP_STRATEGY_EXACT_CORE_ENUMERATION \<or>
      cf_strategy (sv_config sv) = PBQP_STRATEGY_EXACT_BRANCH_REDUCE"
  shows "\<exists>sol' st'. solve_strategy sv sol st = Some (PBQP_OK, sol', st')"
proof -
  obtain st1 where g: "same_graph (ss_problem st) (ss_problem st1)" and eq: "solve_strategy sv sol st =
      after_loop sv (Suc (pb_node_count (ss_problem st))) sol
        (solve_loop (Suc (pb_node_count (ss_problem st))) sv None sol st1)"
    by (rule solve_strategy_form) (use strat in auto)
  have red: "reduces p (ss_problem st1)" using fresh_reduces[OF wf fresh] g st by (auto simp: same_graph_def)
  have al: "pb_allocator p" using fresh by (simp add: fresh_problem_def)
  have sp: "spare (ss_problem st1)" using g res(1) st by (auto simp: same_graph_def)
  have "pb_node_count (ss_problem st1) = pb_node_count p" using red by (simp add: reduces_def attains_def)
  then have few: "ActiveNodeCount (ss_problem st1) < Suc (pb_node_count p)" using active_le[of "ss_problem st1"] by simp
  obtain r st2 where loop: "solve_loop (Suc (pb_node_count p)) sv None sol st1 = Some (r, st2)"
    and r: "r = CoreLeft \<and> spare (ss_problem st2) \<and> 0 < ActiveNodeCount (ss_problem st2) \<and>
       ActiveNodeCount (ss_problem st2) \<le> ActiveNodeCount (ss_problem st1) \<or> (\<exists>sol'. r = Returned PBQP_OK sol')"
    using solve_loop_total[OF red sp few api res(3) al] strat by (metis pbqp_solver_strategy.distinct)
  show ?thesis
  proof (cases "r = CoreLeft")
    case False
    then show ?thesis using r unfolding eq st loop by (auto simp: after_loop_def)
  next
    case True
    then have r: "spare (ss_problem st2)" "0 < ActiveNodeCount (ss_problem st2)" "ActiveNodeCount (ss_problem st2) < Suc (pb_node_count p)"
      using r few by auto
    have red2: "reduces p (ss_problem st2)"
      using solve_loop_exact[OF red len api _ loop] strat True by auto
    then have at2: "attains p (ss_problem st2)" by (simp add: reduces_def)
    show ?thesis
    proof (cases "cf_strategy (sv_config sv) = PBQP_STRATEGY_EXACT_BRANCH_REDUCE")
      case br: True
      obtain status sol' search' st' where run: "SolveBranchAndReduce (Suc (pb_node_count p)) sv 0 no_search ACCEL_INF sol st2 =
          Some (status, sol', search', st')" and ok: "status = PBQP_OK \<or> status = PBQP_PRUNED"
        by (rule branch_totalE[OF branch_reduce_total[OF api res(2,3) limit] at2 r(1,3)])
      have "branch_result p (ss_problem st2) ACCEL_INF status sol'"
        by (rule branch_soundD[OF branch_reduce_sound[OF api wf al] run at2]) (use len in auto)
      then have "status = PBQP_OK" using ok by (auto simp: branch_result_def)
      then show ?thesis using br True run unfolding eq st loop by (simp add: after_loop_def)
    next
      case no: False
      have n: "0 < pb_node_count (ss_problem st2)" using r(2) by (auto simp: active_count card_gt_0_iff)
      have "pb_allocator (ss_problem st2)" using at2 al by (simp add: attains_def)
      then obtain st3 where ws: "workspace sv [pb_node_count (ss_problem st2)] st2 = (True, st3)"
        using workspace_granted[OF res(3), of st2 "[pb_node_count (ss_problem st2)]"] n by auto
      have "\<exists>sol' st'. solve_core sv sol st2 = (PBQP_OK, sol', st')"
        using enumerate_core_no_limit unfolding solve_core_def Let_def ws prod.case limit by auto
      then show ?thesis using no True strat unfolding eq st loop by (auto simp: after_loop_def)
    qed
  qed
qed

end

section \<open>The solver handle\<close>

definition start_state :: "'k \<Rightarrow> pbqp_problem \<Rightarrow> 'k solver_state" where
  "start_state k p = \<lparr>ss_problem = p, ss_context = k, ss_kernel_status = 0, ss_trace = [], ss_allocations = 0\<rparr>"

definition handle_solver :: "'k pbqp_solver \<Rightarrow> (nat \<Rightarrow> bool) \<Rightarrow> 'k solver" where
  "handle_solver handle grants = \<lparr>sv_api = so_kernel handle, sv_config = so_config handle, sv_grants = grants\<rparr>"

text \<open>A solution with room for every node: the array is as long as \<open>assignment_capacity\<close> says.\<close>

definition solution_fits :: "pbqp_problem \<Rightarrow> pbqp_solution \<Rightarrow> bool" where
  "solution_fits p sol \<longleftrightarrow> (\<exists>x. so_assignment sol = Some x \<and> pb_node_count p \<le> so_assignment_capacity sol \<and>
     so_assignment_capacity sol \<le> length x)"

lemma solver_solve_form:
  assumes "so_assignment sol = Some x" and "pb_node_count p \<le> so_assignment_capacity sol"
    and "cf_strategy (so_config handle) \<noteq> PBQP_STRATEGY_HEURISTIC_RN_LOCAL_SEARCH"
  shows "pbqp_solver_solve grants k (Some handle) (Some p) (Some sol) =
    (case solve_strategy (handle_solver handle grants) (so_optimum sol, x) (start_state k p) of
       None \<Rightarrow> None
     | Some (status, (optimum, y), st) \<Rightarrow>
         Some \<lparr>sr_status = status, sr_solution = Some (sol\<lparr>so_optimum := optimum, so_assignment := Some y\<rparr>),
           sr_problem = Some (ss_problem st),
           sr_solver = Some (handle\<lparr>so_last_kernel_status := ss_kernel_status st\<rparr>),
           sr_context = ss_context st, sr_trace = ss_trace st\<rparr>)"
  using assms by (auto simp: pbqp_solver_solve_def Solve_def start_state_def handle_solver_def split: option.splits prod.splits)

lemma solver_status_ok:
  assumes fits: "solution_fits p sol" and strat: "cf_strategy (so_config handle) \<noteq> PBQP_STRATEGY_HEURISTIC_RN_LOCAL_SEARCH"
    and run: "pbqp_solver_solve grants k (Some handle) (Some p) (Some sol) = Some r" and ok: "sr_status r = PBQP_OK"
  obtains y c x st where "so_assignment sol = Some y" and "pb_node_count p \<le> length y"
    and "solve_strategy (handle_solver handle grants) (so_optimum sol, y) (start_state k p) = Some (PBQP_OK, (c, x), st)"
    and "sr_solution r = Some (sol\<lparr>so_optimum := c, so_assignment := Some x\<rparr>)"
proof -
  obtain y where y: "so_assignment sol = Some y" "pb_node_count p \<le> so_assignment_capacity sol" "pb_node_count p \<le> length y"
    using fits by (auto simp: solution_fits_def)
  show ?thesis
    using run ok that[OF y(1,3)] unfolding solver_solve_form[OF y(1,2) strat]
    by (auto split: option.splits)
qed

section \<open>Correctness of the solver\<close>

text \<open>
  A complete graph on four nodes with negative and infinite costs: no node is reducible, so both exact
  searches have work to do. It is the input of the witnesses below.
\<close>

definition example_node :: "int list \<Rightarrow> pbqp_node" where
  "example_node costs = \<lparr>nd_active = True, nd_domain = 2, nd_unary = costs, nd_first_neighbor = 0,
     nd_second_neighbor = 0, nd_reduction_kind = kReductionR0\<rparr>"

definition example_edge :: "nat \<Rightarrow> nat \<Rightarrow> int list \<Rightarrow> pbqp_edge" where
  "example_edge a b costs = \<lparr>eg_active = True, eg_first = a, eg_second = b, eg_stride = 2, eg_cost = costs\<rparr>"

definition example_problem :: pbqp_problem where
  "example_problem = (zeroed_problem 4 7 2)\<lparr>pb_node_count := 4, pb_edge_count := 6,
     pb_nodes := [example_node [3, 0], example_node [2, 1], example_node [0, 5], example_node [1, 2]],
     pb_edges := [example_edge 0 1 [2, 0, 1, 6], example_edge 0 2 [4, 1, 0, 3], example_edge 1 2 [0, 5, - 2, 1],
       example_edge 0 3 [1, ACCEL_INF, 2, - 5], example_edge 2 3 [3, 1, 2, 0], example_edge 1 3 [9, 1, 4, 2], zero_edge 2]\<rparr>"

definition example_solution :: pbqp_solution where
  "example_solution = \<lparr>so_optimum = 0, so_assignment = Some [0, 0, 0, 0], so_assignment_capacity = 4\<rparr>"

definition example_handle :: "pbqp_solver_strategy \<Rightarrow> 'k pbqp_solver" where
  "example_handle strategy = \<lparr>so_mode = PBQP_MODE_SOFTWARE, so_kernel = pbqp_make_software_kernel,
     so_config = pbqp_solver_default_config\<lparr>cf_strategy := strategy\<rparr>, so_last_kernel_status = 0\<rparr>"

lemma example_ok:
  "pbqp_wf example_problem" "fresh_problem example_problem" "spare example_problem" "storable example_problem"
  "solution_fits example_problem example_solution"
proof -
  have "\<forall>n < 4. length (nd_unary (node_at example_problem n)) = 2 \<and> length (pb_reconstruction example_problem ! n) = 4"
    "\<forall>e < 7. eg_stride (edge_at example_problem e) = 2 \<and> length (eg_cost (edge_at example_problem e)) = 4" by code_simp+
  then have "shape_ok example_problem" by (simp add: shape_ok_def) (simp add: example_problem_def zeroed_problem_def empty_problem_def)
  moreover have "graph_ok example_problem"
    by (simp add: graph_ok_def example_problem_def zeroed_problem_def empty_problem_def example_edge_def example_node_def
        zero_edge_def edge_joins_def numeral_eq_Suc All_less_Suc)
  moreover have "\<forall>n < pb_node_count example_problem. nd_active (node_at example_problem n)"
    "pb_elimination_count example_problem = 0" by code_simp+
  then have "order_ok example_problem" by (auto simp: order_ok_def eliminated_def)
  ultimately show "pbqp_wf example_problem" by (simp add: pbqp_wf_def)
  show "fresh_problem example_problem" "spare example_problem" "storable example_problem" by code_simp+
  show "solution_fits example_problem example_solution"
    by (simp add: solution_fits_def example_solution_def example_problem_def)
qed

text \<open>
  C1: total correctness of the exact strategies. On a well-formed graph as built by the caller, with
  a free edge slot, granted allocations, the software kernel and no search limit, a solve by core
  enumeration or by branch and reduce returns \<open>PBQP_OK\<close>; the assignment gives every node a value of its
  domain, the optimum is its evaluation, and no assignment evaluates to less.
\<close>

theorem exact_solve_optimal:
  assumes "pbqp_wf p" and "fresh_problem p" and "spare p" and "storable p" and "solution_fits p sol"
    and "so_kernel handle = pbqp_make_software_kernel" and "\<And>n. grants n"
    and "cf_strategy (so_config handle) = PBQP_STRATEGY_EXACT_CORE_ENUMERATION \<or>
      cf_strategy (so_config handle) = PBQP_STRATEGY_EXACT_BRANCH_REDUCE"
    and "cf_maximum_search_nodes (so_config handle) = 0"
  shows "\<exists>r sol' x. pbqp_solver_solve grants k (Some handle) (Some p) (Some sol) = Some r \<and> sr_status r = PBQP_OK \<and>
    sr_solution r = Some sol' \<and> so_assignment sol' = Some x \<and> valid_assignment p x \<and>
    so_optimum sol' = pbqp_evaluate p x \<and> (\<forall>y. valid_assignment p y \<longrightarrow> so_optimum sol' \<le> pbqp_evaluate p y)"
proof -
  let ?sv = "handle_solver handle grants"
  have sv: "sv_api ?sv = pbqp_make_software_kernel" "sv_config ?sv = so_config handle" "granting ?sv"
    using assms(6,7) by (simp_all add: handle_solver_def granting_def)
  have st: "ss_problem (start_state k p) = p" by (simp add: start_state_def)
  obtain y where y: "so_assignment sol = Some y" "pb_node_count p \<le> so_assignment_capacity sol" "pb_node_count p \<le> length y"
    using assms(5) by (auto simp: solution_fits_def)
  have len: "pb_node_count p \<le> length (snd (so_optimum sol, y))" using y(3) by simp
  obtain c x st' where run: "solve_strategy ?sv (so_optimum sol, y) (start_state k p) = Some (PBQP_OK, (c, x), st')"
    using sw.strategy_total[OF assms(1,2) len assms(3,4) sv(3) st sv(1)] assms(8,9) sv(2) by auto
  have "optimal p (fst (c, x)) (snd (c, x))"
    by (rule sw.strategy_exact[OF assms(1,2) len st sv(1) _ run]) (use assms(8) sv(2) in \<open>auto simp: exact_strategy_def\<close>)
  then have opt: "optimal p c x" by simp
  have ev: "valid_assignment p x" "c = pbqp_evaluate p x"
    using achieves_evaluate[OF assms(1,2)] opt by (auto simp: optimal_def)
  have "cf_strategy (so_config handle) \<noteq> PBQP_STRATEGY_HEURISTIC_RN_LOCAL_SEARCH" using assms(8) by auto
  from solver_solve_form[OF y(1,2) this, of grants k] run ev optimal_evaluate[OF assms(1,2) opt]
  show ?thesis by simp
qed

theorem exact_solve_optimal_witness:
  "\<exists>r sol' x. pbqp_solver_solve (\<lambda>_. True) () (Some (example_handle PBQP_STRATEGY_EXACT_BRANCH_REDUCE))
       (Some example_problem) (Some example_solution) = Some r \<and> sr_status r = PBQP_OK \<and>
     sr_solution r = Some sol' \<and> so_assignment sol' = Some x \<and> valid_assignment example_problem x \<and>
     so_optimum sol' = pbqp_evaluate example_problem x \<and> so_optimum sol' \<le> pbqp_evaluate example_problem [1, 0, 0, 1]"
proof -
  have "valid_assignment example_problem [1, 0, 0, 1]" by code_simp
  with exact_solve_optimal[OF example_ok, of "example_handle PBQP_STRATEGY_EXACT_BRANCH_REDUCE" "\<lambda>_. True" "()"]
  show ?thesis by (fastforce simp: example_handle_def pbqp_solver_default_config_def)
qed

lemma kernel_solve_sound:
  assumes "pbqp_wf p" and "fresh_problem p" and "solution_fits p sol" and "cost_kernel (so_kernel handle)"
    and "exact_strategy (cf_strategy (so_config handle))"
    and "pbqp_solver_solve grants k (Some handle) (Some p) (Some sol) = Some r" and "sr_status r = PBQP_OK"
  shows "\<exists>sol' x. sr_solution r = Some sol' \<and> so_assignment sol' = Some x \<and> valid_assignment p x \<and>
    so_optimum sol' = pbqp_evaluate p x \<and> (\<forall>y. valid_assignment p y \<longrightarrow> so_optimum sol' \<le> pbqp_evaluate p y)"
proof -
  obtain y c x st where y: "so_assignment sol = Some y" "pb_node_count p \<le> length y"
    and run: "solve_strategy (handle_solver handle grants) (so_optimum sol, y) (start_state k p) = Some (PBQP_OK, (c, x), st)"
    and sol: "sr_solution r = Some (sol\<lparr>so_optimum := c, so_assignment := Some x\<rparr>)"
    by (rule solver_status_ok[OF assms(3) _ assms(6,7)]) (use assms(5) in \<open>auto simp: exact_strategy_def\<close>)
  have "optimal p (fst (c, x)) (snd (c, x))"
    by (rule cost_kernel.strategy_exact[OF assms(4,1,2) _ _ _ _ run])
      (use y assms(5) in \<open>simp_all add: start_state_def handle_solver_def\<close>)
  then have opt: "optimal p c x" by simp
  then have "valid_assignment p x" "c = pbqp_evaluate p x"
    using achieves_evaluate[OF assms(1,2)] by (auto simp: optimal_def)
  then show ?thesis using sol optimal_evaluate[OF assms(1,2) opt] by simp
qed

text \<open>
  C2: soundness of the exact strategies for every kernel that keeps its contract (the accelerated
  kernels included), every allocator and every search limit: when the solve returns \<open>PBQP_OK\<close>, the
  assignment is valid, the optimum is its evaluation and no assignment evaluates to less.
\<close>

theorem exact_solve_sound:
  assumes "pbqp_wf p" and "fresh_problem p" and "solution_fits p sol" and "cost_kernel (so_kernel handle)"
    and "exact_strategy (cf_strategy (so_config handle))"
    and "pbqp_solver_solve grants k (Some handle) (Some p) (Some sol) = Some r" and "sr_status r = PBQP_OK"
  shows "\<exists>sol' x. sr_solution r = Some sol' \<and> so_assignment sol' = Some x \<and> valid_assignment p x \<and>
    so_optimum sol' = pbqp_evaluate p x \<and> (\<forall>y. valid_assignment p y \<longrightarrow> so_optimum sol' \<le> pbqp_evaluate p y)"
  using assms by (rule kernel_solve_sound)

theorem exact_solve_sound_witness:
  "pbqp_wf example_problem \<and> (\<exists>r sol' x. pbqp_solver_solve (\<lambda>_. True) ()
       (Some (example_handle PBQP_STRATEGY_EXACT_CORE_ENUMERATION)) (Some example_problem) (Some example_solution) = Some r \<and>
     sr_solution r = Some sol' \<and> so_assignment sol' = Some x \<and> so_optimum sol' = pbqp_evaluate example_problem x)"
proof -
  let ?h = "example_handle PBQP_STRATEGY_EXACT_CORE_ENUMERATION :: unit pbqp_solver"
  have h: "so_kernel ?h = pbqp_make_software_kernel" "exact_strategy (cf_strategy (so_config ?h))"
    "cf_strategy (so_config ?h) = PBQP_STRATEGY_EXACT_CORE_ENUMERATION" "cf_maximum_search_nodes (so_config ?h) = 0"
    by (simp_all add: example_handle_def exact_strategy_def pbqp_solver_default_config_def)
  have kernel: "cost_kernel (so_kernel ?h)" unfolding h(1) by (rule sw.cost_kernel_axioms)
  obtain c x st where "solve_strategy (handle_solver ?h (\<lambda>_. True)) (0, [0, 0, 0, 0]) (start_state () example_problem) =
      Some (PBQP_OK, (c, x), st)"
    using sw.strategy_total[OF example_ok(1,2) _ example_ok(3,4), of "(0, [0, 0, 0, 0])" "handle_solver ?h (\<lambda>_. True)"
        "start_state () example_problem"] h
    by (auto simp: handle_solver_def granting_def start_state_def example_problem_def)
  then obtain r where r: "pbqp_solver_solve (\<lambda>_. True) () (Some ?h) (Some example_problem) (Some example_solution) = Some r"
    "sr_status r = PBQP_OK"
    using solver_solve_form[of example_solution "[0, 0, 0, 0]" example_problem ?h "\<lambda>_. True" "()"] h(3)
    by (simp add: example_solution_def example_problem_def)
  from exact_solve_sound[OF example_ok(1,2,5) kernel h(2) r] r(1) example_ok(1) show ?thesis by blast
qed

end
