(* ===== verification/Pbqp_Local_Correct.thy ===== *)
theory Pbqp_Local_Correct
  imports Pbqp_Solver_Correct
begin

text \<open>
  Local descent (\<open>RunLocalDescent\<close>, \<open>SolveLocalSearch\<close> and the combined strategy). A move changes one
  node, so it changes only the terms at that node. The loop of the source has no bound; every accepted
  move lowers the pair of the number of infinite terms and the sum of the finite ones, so the loop
  ends, also while the total cost is infinite. It ends in a local optimum and never above its start.
\<close>

section \<open>The terms at a node\<close>

definition site_sum :: "(ecost \<Rightarrow> 'a::comm_monoid_add) \<Rightarrow> pbqp_problem \<Rightarrow> nat list \<Rightarrow> nat \<Rightarrow> 'a" where
  "site_sum g p x n = g (node_term p x n) +
     (\<Sum>e<pb_edge_capacity p. if incident (edge_at p e) n then g (edge_term p x e) else 0)"

definition rest_sum :: "(ecost \<Rightarrow> 'a::comm_monoid_add) \<Rightarrow> pbqp_problem \<Rightarrow> nat list \<Rightarrow> nat \<Rightarrow> 'a" where
  "rest_sum g p x n = (\<Sum>m\<in>{..<pb_node_count p} - {n}. g (node_term p x m)) +
     (\<Sum>e<pb_edge_capacity p. if incident (edge_at p e) n then 0 else g (edge_term p x e))"

definition core_sum :: "(ecost \<Rightarrow> 'a::comm_monoid_add) \<Rightarrow> pbqp_problem \<Rightarrow> nat list \<Rightarrow> 'a" where
  "core_sum g p x = (\<Sum>n<pb_node_count p. g (node_term p x n)) + (\<Sum>e<pb_edge_capacity p. g (edge_term p x e))"

abbreviation site_cost :: "pbqp_problem \<Rightarrow> nat list \<Rightarrow> nat \<Rightarrow> ecost" where
  "site_cost \<equiv> site_sum (\<lambda>c. c)"

lemma core_sum_site:
  assumes "n < pb_node_count p"
  shows "core_sum g p x = site_sum g p x n + rest_sum g p x n"
proof -
  have "(\<Sum>e<pb_edge_capacity p. g (edge_term p x e)) =
      (\<Sum>e<pb_edge_capacity p. (if incident (edge_at p e) n then g (edge_term p x e) else 0) +
         (if incident (edge_at p e) n then 0 else g (edge_term p x e)))"
    by (intro sum.cong) auto
  then show ?thesis
    using assms by (simp add: core_sum_def site_sum_def rest_sum_def sum.distrib sum.remove[of _ n] add_ac)
qed

lemma rest_sum_update:
  assumes "g 0 = 0"
  shows "rest_sum g p (x[n := v]) n = rest_sum g p x n"
proof -
  have "node_term p (x[n := v]) m = node_term p x m" if "m \<noteq> n" for m using that by (simp add: node_term_def)
  moreover have "(if incident (edge_at p e) n then 0 else g (edge_term p (x[n := v]) e)) =
      (if incident (edge_at p e) n then 0 else g (edge_term p x e))" for e
    using assms by (auto simp: edge_term_def incident_def)
  ultimately show ?thesis by (simp add: rest_sum_def)
qed

lemma total_site:
  assumes "n < pb_node_count p"
  shows "total_cost p x = cost_abs (pb_objective_offset p) + (site_cost p x n + rest_sum (\<lambda>c. c) p x n)"
  using core_sum_site[OF assms, of "\<lambda>c. c" x] by (simp add: total_cost_def core_cost_def core_sum_def)

lemma total_site_mono:
  assumes "n < pb_node_count p" and "site_cost p (x[n := v]) n \<le> site_cost p (x[n := w]) n"
  shows "total_cost p (x[n := v]) \<le> total_cost p (x[n := w])"
  unfolding total_site[OF assms(1)] rest_sum_update[of "\<lambda>c. c", OF refl]
  using assms(2) by (intro add_left_mono add_right_mono)

lemma fresh_within:
  assumes "pbqp_wf p" and "fresh_problem p" and "valid_assignment p x"
  shows "n < pb_node_count p \<Longrightarrow> within p 1 (nd_unary (node_at p n) ! (x ! n))"
    and "e < pb_edge_capacity p \<Longrightarrow> eg_active (edge_at p e) \<Longrightarrow>
      within p 1 (edge_cost (edge_at p e) (x ! eg_first (edge_at p e)) (x ! eg_second (edge_at p e)))"
  by (rule input_within; use assms valid_edge_values[OF assms(1,3)] in \<open>simp add: fresh_problem_def valid_assignment_def\<close>)+

lemma total_cost_cong:
  assumes "pbqp_wf p" and "\<And>k. k < pb_node_count p \<Longrightarrow> x ! k = y ! k"
  shows "total_cost p x = total_cost p y"
proof -
  have "node_term p x k = node_term p y k" if "k < pb_node_count p" for k using assms(2)[OF that] by (simp add: node_term_def)
  moreover have "edge_term p x e = edge_term p y e" if "e < pb_edge_capacity p" for e
    using assms(2) wf_edge(1,2)[OF assms(1) that] by (simp add: edge_term_def)
  ultimately show ?thesis by (simp add: total_cost_def core_cost_def)
qed

section \<open>The scores\<close>

lemma add_scores_nth:
  assumes "v < d" and "d \<le> length s"
  shows "add_scores d r s ! v = accel_cost_add (s ! v) (r ! v)" and "length (add_scores d r s) = length s"
proof -
  have len: "length (fold (\<lambda>v s. s[v := f (s ! v) v]) vs s) = length s" for f :: "int \<Rightarrow> nat \<Rightarrow> int" and vs s
    by (induction vs arbitrary: s) auto
  have "fold (\<lambda>v s. s[v := f (s ! v) v]) vs s ! v = (if v \<in> set vs then f (s ! v) v else s ! v)"
    if "distinct vs" "v < length s" for f :: "int \<Rightarrow> nat \<Rightarrow> int" and vs s
    using that by (induction vs arbitrary: s) (auto simp: nth_list_update, metis nth_list_update_neq)
  from this[of "[0..<d]" s "\<lambda>c v. accel_cost_add c (r ! v)"] show "add_scores d r s ! v = accel_cost_add (s ! v) (r ! v)"
    using assms by (simp add: add_scores_def)
  show "length (add_scores d r s) = length s" unfolding add_scores_def by (rule len[of "\<lambda>c v. accel_cost_add c (r ! v)"])
qed

lemma local_scores_fold:
  assumes "v < d" and "d \<le> length s"
  shows "fold (\<lambda>e s. if P e then add_scores d (r e) s else s) es s ! v =
     fold (\<lambda>e c. if P e then accel_cost_add c (r e ! v) else c) es (s ! v)"
  using assms(2)
proof (induction es arbitrary: s)
  case (Cons e es)
  then show ?case using add_scores_nth[OF assms(1) Cons.prems] by simp
qed simp

lemma local_slice_nth:
  assumes "incident (edge_at p e) n" and "eg_first (edge_at p e) \<noteq> eg_second (edge_at p e)" and "n < length x"
    and "v < nd_domain (node_at p n)"
  shows "local_slice p x n e ! v = edge_cost (edge_at p e) (x[n := v] ! eg_first (edge_at p e)) (x[n := v] ! eg_second (edge_at p e))"
  using assms
  by (auto simp: local_slice_def Let_def OtherNode_def ConditionedEdgeView_def view_at_def edge_cost_def incident_def
      add.commute mult.commute)

lemma local_scores_exact:
  assumes wf: "pbqp_wf p" and fresh: "fresh_problem p" and x: "valid_assignment p x"
    and n: "n < pb_node_count p" and v: "v < nd_domain (node_at p n)"
  shows "cost_abs (local_scores p x n ! v) = site_cost p (x[n := v]) n"
    and "within p (1 + pb_edge_capacity p) (local_scores p x n ! v)"
proof -
  let ?s = "copy_prefix (nd_domain (node_at p n)) (nd_unary (node_at p n)) (replicate (pb_domain_capacity p) 0)"
  have nc: "n < pb_node_capacity p" and d: "nd_domain (node_at p n) \<le> pb_domain_capacity p"
    and lu: "length (nd_unary (node_at p n)) = pb_domain_capacity p" and nx: "n < length x"
    using wf n x by (auto simp: pbqp_wf_def shape_ok_def graph_ok_def valid_assignment_def)
  have s: "?s ! v = nd_unary (node_at p n) ! v" "nd_domain (node_at p n) \<le> length ?s"
    using v d lu by (auto simp: copy_prefix_def nth_append)
  have act: "nd_active (node_at p n)" using fresh n by (simp add: fresh_problem_def)
  have wn: "within p 1 (nd_unary (node_at p n) ! v)"
    using fresh n v by (intro input_within) (simp add: fresh_problem_def)
  have sl: "local_slice p x n e ! v = edge_cost (edge_at p e) (x[n := v] ! eg_first (edge_at p e)) (x[n := v] ! eg_second (edge_at p e))"
    if "e < pb_edge_capacity p" "incident (edge_at p e) n" for e
    using local_slice_nth[OF that(2) _ nx v] wf_edge(3)[OF wf that(1)] that(2) by (simp add: incident_def)
  have xv: "valid_assignment p (x[n := v])" using x v nx by (auto simp: valid_assignment_def nth_list_update)
  have we: "within p 1 (local_slice p x n e ! v)" if "e < pb_edge_capacity p" "incident (edge_at p e) n" for e
    unfolding sl[OF that] using fresh_within(2)[OF wf fresh xv that(1)] that(2) by (simp add: incident_def)
  have fit: "1 + (\<Sum>e<pb_edge_capacity p. 1) \<le> pb_node_capacity p + pb_edge_capacity p" using nc by simp
  have eq: "local_scores p x n ! v = fold (\<lambda>e c. if incident (edge_at p e) n then accel_cost_add c (local_slice p x n e ! v) else c)
      [0..<pb_edge_capacity p] (nd_unary (node_at p n) ! v)"
    unfolding local_scores_def Let_def local_scores_fold[OF v s(2)] s(1) ..
  have sum: "(\<Sum>e<pb_edge_capacity p. if incident (edge_at p e) n then cost_abs (local_slice p x n e ! v) else 0) =
      (\<Sum>e<pb_edge_capacity p. if incident (edge_at p e) n then edge_term p (x[n := v]) e else 0)"
    using sl by (intro sum.cong) (auto simp: edge_term_def incident_def)
  from fold_add_range[of p 1 "nd_unary (node_at p n) ! v" "pb_edge_capacity p" "\<lambda>e. incident (edge_at p e) n" "\<lambda>_. 1"
      "\<lambda>e. local_slice p x n e ! v", OF wn we fit]
  show "cost_abs (local_scores p x n ! v) = site_cost p (x[n := v]) n"
    and "within p (1 + pb_edge_capacity p) (local_scores p x n ! v)"
    unfolding eq using sum nx act by (simp_all add: site_sum_def node_term_def)
qed

section \<open>The measure of the descent\<close>

definition inf_of :: "ecost \<Rightarrow> nat" where
  "inf_of c = (case c of Infinite \<Rightarrow> 1 | Fin _ \<Rightarrow> 0)"

definition fin_of :: "ecost \<Rightarrow> int" where
  "fin_of c = (case c of Infinite \<Rightarrow> 0 | Fin z \<Rightarrow> z)"

lemma of_zero [simp]: "inf_of 0 = 0" "fin_of 0 = 0"
  by (simp_all add: inf_of_def fin_of_def zero_ecost_def)

lemma of_plus:
  "inf_of (a + b) = 0 \<longleftrightarrow> inf_of a = 0 \<and> inf_of b = 0"
  "inf_of a = 0 \<Longrightarrow> inf_of b = 0 \<Longrightarrow> fin_of (a + b) = fin_of a + fin_of b"
  by (cases a; cases b; simp add: inf_of_def fin_of_def plus_ecost_def)+

lemma of_sum:
  assumes "finite A"
  shows "inf_of (sum f A) = 0 \<longleftrightarrow> (\<Sum>i\<in>A. inf_of (f i)) = 0"
    and "(\<Sum>i\<in>A. inf_of (f i)) = 0 \<Longrightarrow> fin_of (sum f A) = (\<Sum>i\<in>A. fin_of (f i))"
  using assms by (induction A rule: finite_induct) (auto simp: of_plus)

lemma site_of:
  "inf_of (site_cost p x n) = 0 \<longleftrightarrow> site_sum inf_of p x n = 0"
  "site_sum inf_of p x n = 0 \<Longrightarrow> fin_of (site_cost p x n) = site_sum fin_of p x n"
proof -
  have split: "g (if b then c else 0) = (if b then g c else 0)" if "g 0 = 0" for g :: "ecost \<Rightarrow> 'a::zero" and b c
    using that by simp
  let ?f = "\<lambda>e. if incident (edge_at p e) n then edge_term p x e else 0"
  have i: "(\<Sum>e<pb_edge_capacity p. inf_of (?f e)) = (\<Sum>e<pb_edge_capacity p. if incident (edge_at p e) n then inf_of (edge_term p x e) else 0)"
    and f: "(\<Sum>e<pb_edge_capacity p. fin_of (?f e)) = (\<Sum>e<pb_edge_capacity p. if incident (edge_at p e) n then fin_of (edge_term p x e) else 0)"
    by (simp_all only: split of_zero)
  show "inf_of (site_cost p x n) = 0 \<longleftrightarrow> site_sum inf_of p x n = 0"
    using of_sum(1)[of "{..<pb_edge_capacity p}" ?f] by (simp only: site_sum_def of_plus(1) i add_is_0) simp
  assume "site_sum inf_of p x n = 0"
  then have "inf_of (node_term p x n) = 0" and z: "(\<Sum>e<pb_edge_capacity p. inf_of (?f e)) = 0"
    unfolding i by (simp_all add: site_sum_def)
  moreover have "inf_of (sum ?f {..<pb_edge_capacity p}) = 0" using of_sum(1)[of _ ?f] z by blast
  ultimately show "fin_of (site_cost p x n) = site_sum fin_of p x n"
    using of_sum(2)[OF _ z] by (simp add: site_sum_def of_plus(2) f)
qed

text \<open>A move to a better assignment: a smaller measure, and no larger cost.\<close>

definition better :: "pbqp_problem \<Rightarrow> nat list \<Rightarrow> nat list \<Rightarrow> bool" where
  "better p y x \<longleftrightarrow> total_cost p y \<le> total_cost p x \<and>
     (core_sum inf_of p y < core_sum inf_of p x \<or>
      core_sum inf_of p y = core_sum inf_of p x \<and> core_sum fin_of p y < core_sum fin_of p x)"

lemma better_trans: "better p z y \<Longrightarrow> better p y x \<Longrightarrow> better p z x"
  by (auto simp: better_def intro: order_trans)

lemma better_move:
  assumes n: "n < pb_node_count p" and less: "site_cost p (x[n := v]) n < site_cost p x n"
  shows "better p (x[n := v]) x"
proof -
  let ?y = "x[n := v]"
  have total: "total_cost p ?y \<le> total_cost p x"
    using total_site_mono[OF n, of x v "x ! n"] less by simp
  have nz: "inf_of (site_cost p ?y n) = 0" using less by (cases "site_cost p ?y n") (auto simp: inf_of_def less_ecost_def)
  then have y: "site_sum inf_of p ?y n = 0" by (simp add: site_of)
  show ?thesis
  proof (cases "site_sum inf_of p x n = 0")
    case False
    then show ?thesis using total y by (simp add: better_def core_sum_site[OF n] rest_sum_update)
  next
    case True
    then have "fin_of (site_cost p ?y n) < fin_of (site_cost p x n)"
      using less nz site_of(1)[of p x n]
      by (cases "site_cost p ?y n"; cases "site_cost p x n") (auto simp: fin_of_def inf_of_def less_ecost_def)
    then show ?thesis using total y True by (simp add: better_def core_sum_site[OF n] rest_sum_update site_of(2))
  qed
qed

lemma fin_of_within: "within p 1 c \<Longrightarrow> - max_finite p \<le> fin_of (cost_abs c)"
  using max_finite_budget(1)[of p] by (auto simp: within_def cost_abs_def fin_of_def)

lemma core_fin_bound:
  assumes wf: "pbqp_wf p" and fresh: "fresh_problem p" and x: "valid_assignment p x"
  shows "- ACCEL_INF \<le> core_sum fin_of p x"
proof -
  have n: "- max_finite p \<le> fin_of (node_term p x n)" if "n < pb_node_count p" for n
    using fin_of_within[OF fresh_within(1)[OF assms that]] max_finite_budget(1)[of p] by (simp add: node_term_def)
  have e: "- max_finite p \<le> fin_of (edge_term p x e)" if "e < pb_edge_capacity p" for e
    using fin_of_within[OF fresh_within(2)[OF assms that]] max_finite_budget(1)[of p] by (simp add: edge_term_def)
  have "(\<Sum>n<pb_node_count p. - max_finite p) + (\<Sum>e<pb_edge_capacity p. - max_finite p) \<le> core_sum fin_of p x"
    unfolding core_sum_def by (intro add_mono sum_mono) (use n e in auto)
  moreover have "int (pb_node_count p) * max_finite p \<le> int (pb_node_capacity p) * max_finite p"
    using wf max_finite_budget(1)[of p] by (intro mult_right_mono) (auto simp: pbqp_wf_def shape_ok_def)
  ultimately show ?thesis using max_finite_budget(2)[of p] by (simp add: algebra_simps)
qed

lemma better_measure:
  assumes "pbqp_wf p" and "fresh_problem p" and "valid_assignment p x" and "valid_assignment p y" and "better p y x"
  shows "(y, x) \<in> measures [core_sum inf_of p, \<lambda>x. nat (core_sum fin_of p x + ACCEL_INF)]"
  using assms(5) core_fin_bound[OF assms(1,2,3)] core_fin_bound[OF assms(1,2,4)] by (auto simp: better_def)

section \<open>A step, a sweep and the loop\<close>

definition settled :: "pbqp_problem \<Rightarrow> nat list \<Rightarrow> nat \<Rightarrow> bool" where
  "settled p x n \<longleftrightarrow> (\<forall>v < nd_domain (node_at p n). site_cost p x n \<le> site_cost p (x[n := v]) n)"

text \<open>No change of a single node lowers the cost.\<close>

definition local_optimum :: "pbqp_problem \<Rightarrow> nat list \<Rightarrow> bool" where
  "local_optimum p x \<longleftrightarrow> (\<forall>n < pb_node_count p. \<forall>v < nd_domain (node_at p n). total_cost p x \<le> total_cost p (x[n := v]))"

lemma settled_optimum: "(\<And>n. n < pb_node_count p \<Longrightarrow> settled p x n) \<Longrightarrow> local_optimum p x"
  unfolding local_optimum_def
proof (intro allI impI)
  fix n v
  assume s: "\<And>n. n < pb_node_count p \<Longrightarrow> settled p x n" and n: "n < pb_node_count p" and v: "v < nd_domain (node_at p n)"
  show "total_cost p x \<le> total_cost p (x[n := v])"
    using total_site_mono[OF n, of x "x ! n" v] s[OF n] v by (simp add: settled_def)
qed

lemma copy_prefix_same:
  assumes wf: "pbqp_wf p" and y: "valid_assignment p y" and len: "pb_node_count p \<le> length xs"
  defines "z \<equiv> copy_prefix (pb_node_count p) y xs"
  shows "length z = length xs" and "valid_assignment p z" and "total_cost p z = total_cost p y"
    and "local_optimum p y \<Longrightarrow> local_optimum p z"
proof -
  have yl: "pb_node_count p \<le> length y" using y by (simp add: valid_assignment_def)
  then show zl: "length z = length xs" using len by (simp add: z_def copy_prefix_def)
  have zn: "z ! k = y ! k" if "k < pb_node_count p" for k using that yl by (simp add: z_def copy_prefix_def nth_append)
  have cong: "total_cost p (z[n := v]) = total_cost p (y[n := v])" for n v
  proof (rule total_cost_cong[OF wf])
    fix k assume "k < pb_node_count p"
    then show "z[n := v] ! k = y[n := v] ! k" using zn yl zl len by (cases "k = n") auto
  qed
  show c0: "total_cost p z = total_cost p y" by (rule total_cost_cong[OF wf zn])
  show "valid_assignment p z" using y zn zl len by (auto simp: valid_assignment_def)
  show "local_optimum p y \<Longrightarrow> local_optimum p z" unfolding local_optimum_def c0 cong by simp
qed

text \<open>No step of the descent fails: the hypothesis on the kernel under which the descent succeeds.\<close>

definition steady :: "'k solver \<Rightarrow> pbqp_problem \<Rightarrow> bool" where
  "steady sv p \<longleftrightarrow> (\<forall>n ch x st. n < pb_node_count p \<longrightarrow> valid_assignment p x \<longrightarrow> same_graph p (ss_problem st) \<longrightarrow>
     fst (descent_node sv n (ch, x, st)) = PBQP_OK)"

text \<open>A local optimum with its cost, no worse than \<open>C\<close>.\<close>

definition found :: "pbqp_problem \<Rightarrow> ecost \<Rightarrow> solution_cell \<Rightarrow> bool" where
  "found p C sol \<longleftrightarrow> achieves p (fst sol) (snd sol) \<and> local_optimum p (snd sol) \<and> total_cost p (snd sol) \<le> C \<and>
     pb_node_count p \<le> length (snd sol)"

lemma found_copy:
  assumes "pbqp_wf p" and "found p C sol" and "pb_node_count p \<le> length xs"
  shows "found p C (fst sol, copy_prefix (pb_node_count p) (snd sol) xs)"
  using assms(2,3) copy_prefix_same[OF assms(1) _ assms(3), of "snd sol"] by (auto simp: found_def achieves_def)

lemma found_better:
  assumes wf: "pbqp_wf p" and best: "found p C best" and cand: "achieves p (fst sol) (snd sol)" "local_optimum p (snd sol)"
    and less: "fst sol < fst best"
  shows "found p C (fst sol, copy_prefix (pb_node_count p) (snd sol) (snd best))"
proof -
  have "cost_abs (fst sol) \<le> cost_abs (fst best)" using less best cand by (intro cost_abs_mono) (auto simp: found_def achieves_def)
  also have "\<dots> \<le> C" using best by (auto simp: found_def achieves_def)
  finally have "found p C sol" using cand by (simp add: found_def achieves_def valid_assignment_def)
  then show ?thesis by (rule found_copy[OF wf]) (use best in \<open>simp add: found_def\<close>)
qed

definition descended :: "pbqp_problem \<Rightarrow> bool \<times> nat list \<Rightarrow> nat set \<Rightarrow> pbqp_status \<times> bool \<times> nat list \<times> 'k solver_state \<Rightarrow> bool" where
  "descended p current ns result \<longleftrightarrow> (case (current, result) of ((ch, x), (status, ch', x', st')) \<Rightarrow>
     same_graph p (ss_problem st') \<and> valid_assignment p x' \<and> length x' = length x \<and>
     (ch' = ch \<and> x' = x \<and> (status = PBQP_OK \<longrightarrow> (\<forall>n \<in> ns. settled p x n)) \<or> ch' \<and> better p x' x))"

lemma local_scores_same:
  assumes "same_graph p q"
  shows "local_scores q = local_scores p" and "nd_domain (node_at q n) = nd_domain (node_at p n)"
    and "pb_domain_capacity q = pb_domain_capacity p" and "pb_node_count q = pb_node_count p"
proof -
  obtain s where q: "q = p\<lparr>pb_statistics := s\<rparr>" using assms by (auto simp: same_graph_def)
  have slice: "local_slice q = local_slice p" by (intro ext) (simp add: q local_slice_def Let_def)
  show "local_scores q = local_scores p" unfolding local_scores_def slice by (simp add: q)
  show "nd_domain (node_at q n) = nd_domain (node_at p n)"
    and "pb_domain_capacity q = pb_domain_capacity p" and "pb_node_count q = pb_node_count p" by (simp_all add: q)
qed

context cost_kernel
begin

lemma scores_exact2:
  assumes wf: "pbqp_wf p" and fresh: "fresh_problem p" and x: "valid_assignment p x" and n: "n < pb_node_count p"
  defines "d \<equiv> nd_domain (node_at p n)"
  shows "exact2 (whole_view (local_scores p x n) d) (whole_view (replicate (pb_domain_capacity p) 0) d)"
    and "sum2 (whole_view (local_scores p x n) d) (whole_view (replicate (pb_domain_capacity p) 0) d) =
      map (\<lambda>v. local_scores p x n ! v) [0..<d]"
proof -
  have d: "0 < d" "d \<le> pb_domain_capacity p" and nc: "0 < pb_node_capacity p"
    using wf n by (auto simp: d_def pbqp_wf_def graph_ok_def shape_ok_def)
  have add: "cost_add (local_scores p x n ! v) 0 = Some (local_scores p x n ! v) \<and> valid_cost (local_scores p x n ! v) \<and> valid_cost 0" if "v < d" for v
  proof -
    have "local_scores p x n ! v \<le> ACCEL_INF" "valid_cost (local_scores p x n ! v)"
      using within_valid[OF local_scores_exact(2)[OF wf fresh x n that[unfolded d_def]]] nc by auto
    then show ?thesis by (auto simp: cost_add_eq valid_cost_def cost_consts)
  qed
  have views: "view_at (whole_view (local_scores p x n) d) v = local_scores p x n ! v"
    "v < d \<Longrightarrow> view_at (whole_view (replicate (pb_domain_capacity p) 0) d) v = 0" for v
    using d by (auto simp: view_at_def whole_view_def)
  show "exact2 (whole_view (local_scores p x n) d) (whole_view (replicate (pb_domain_capacity p) 0) d)"
    using d add views by (auto simp: exact2_def) (simp_all add: whole_view_def)
  show "sum2 (whole_view (local_scores p x n) d) (whole_view (replicate (pb_domain_capacity p) 0) d) =
      map (\<lambda>v. local_scores p x n ! v) [0..<d]"
    unfolding sum2_def by (rule map_cong) (use add views in \<open>auto simp: whole_view_def accel_cost_add_eq\<close>)
qed

lemma descent_node_form:
  fixes n :: nat and x :: "nat list"
  assumes st: "same_graph p (ss_problem st)"
  defines "d \<equiv> nd_domain (node_at p n)" and "s \<equiv> local_scores p x n"
  obtains st1 r st2 F G where
    "on_kernel (Min2 (sv_api sv) (whole_view s d, whole_view (replicate (pb_domain_capacity p) 0) d)) st1 = (r, st2)"
    and "same_graph p (ss_problem st2)"
    and "descent_node sv n (ch, x, st) =
      (case r of
         Inl e \<Rightarrow> (PBQP_KERNEL_ERROR, ch, x, st2)
       | Inr (best_value, best_index) \<Rightarrow>
           if best_index \<ge> d then (PBQP_ARGUMENT_ERROR, ch, x, st2)
           else if best_value < s ! (x ! n) then (PBQP_OK, True, x[n := best_index], F best_index)
           else (PBQP_OK, ch, x, G best_index))"
    and "\<And>i. same_graph p (ss_problem (F i))" and "\<And>i. same_graph p (ss_problem (G i))"
proof -
  note same = local_scores_same(1,3,4)[OF st] local_scores_same(2)[OF st, of n]
  define st1 where "st1 = with_statistics (\<lambda>t. record_argmin_vector d (record_operation opcode_map_add_reduce_min_argmin d 2 8
                (record_view 1 (record_view 1 (((record_local_slice d) ^^ degree_of (ss_problem st) n) t))))) st"
  have g1: "same_graph p (ss_problem st1)" using same_graph_trans[OF st with_statistics_graph] by (simp add: st1_def)
  obtain r st2 where call: "on_kernel (Min2 (sv_api sv) (whole_view s d, whole_view (replicate (pb_domain_capacity p) 0) d)) st1 = (r, st2)"
    by fastforce
  have g2: "same_graph p (ss_problem st2)" by (rule same_graph_trans[OF g1 on_kernel_graph[OF call]])
  define G where "G = (\<lambda>i. with_statistics (bumps [(Ls local_search_node_evaluations, 1),
                            (Ls local_search_argmin_reductions, 1), (Ls local_search_argmin_elements, d)])
                          (Emit sv PBQP_TRACE_LOCAL_SCORE PBQP_TRACE_LOCAL_SEARCH (int n) (int i)
                            (no_work\<lparr>wk_slice := degree_of (ss_problem st) n * d, wk_argmin := d, wk_descriptors := 1,
                               wk_structural := 2, wk_operand_bytes := 2 * (degree_of (ss_problem st) n * d + d) * 4,
                               wk_result_bytes := degree_of (ss_problem st) n * d * 4 + 8\<rparr>) st2))"
  define F where "F = (\<lambda>i. Emit sv PBQP_TRACE_LOCAL_MOVE PBQP_TRACE_LOCAL_SEARCH (int n) (int i) no_work
                            (with_statistics (bump (Ls local_search_accepted_moves) 1) (G i)))"
  have gg: "same_graph p (ss_problem (G i))" for i
    using same_graph_trans[OF g2 with_statistics_graph] by (auto simp: G_def same_graph_def)
  show ?thesis
  proof (rule that[OF call g2 _ _ gg])
    show "same_graph p (ss_problem (F i))" for i
      using same_graph_trans[OF gg with_statistics_graph] by (simp add: F_def)
    show "descent_node sv n (ch, x, st) =
      (case r of
         Inl e \<Rightarrow> (PBQP_KERNEL_ERROR, ch, x, st2)
       | Inr (best_value, best_index) \<Rightarrow>
           if best_index \<ge> d then (PBQP_ARGUMENT_ERROR, ch, x, st2)
           else if best_value < s ! (x ! n) then (PBQP_OK, True, x[n := best_index], F best_index)
           else (PBQP_OK, ch, x, G best_index))"
      unfolding descent_node_def prod.case Let_def same s_def[symmetric] d_def[symmetric] st1_def[symmetric] call F_def G_def
      by (auto split: sum.splits prod.splits)
  qed
qed

lemma descent_node_step:
  assumes wf: "pbqp_wf p" and fresh: "fresh_problem p" and x: "valid_assignment p x" and n: "n < pb_node_count p"
    and st: "same_graph p (ss_problem st)" and api: "sv_api sv = api"
  shows "descended p (ch, x) {n} (descent_node sv n (ch, x, st))"
proof -
  define d where "d = nd_domain (node_at p n)"
  define s where "s = local_scores p x n"
  have d0: "0 < d" and xn: "x ! n < d" and nx: "n < length x"
    using wf fresh n x by (auto simp: d_def pbqp_wf_def graph_ok_def valid_assignment_def fresh_problem_def)
  let ?job = "(whole_view s d, whole_view (replicate (pb_domain_capacity p) 0) d)"
  obtain st1 r st2 F G where call: "on_kernel (Min2 (sv_api sv) ?job) st1 = (r, st2)" and g2: "same_graph p (ss_problem st2)"
    and unf: "descent_node sv n (ch, x, st) =
      (case r of
         Inl e \<Rightarrow> (PBQP_KERNEL_ERROR, ch, x, st2)
       | Inr (best_value, best_index) \<Rightarrow>
           if best_index \<ge> d then (PBQP_ARGUMENT_ERROR, ch, x, st2)
           else if best_value < s ! (x ! n) then (PBQP_OK, True, x[n := best_index], F best_index)
           else (PBQP_OK, ch, x, G best_index))"
    and FG: "\<And>i. same_graph p (ss_problem (F i))" "\<And>i. same_graph p (ss_problem (G i))"
    by (rule descent_node_form[OF st, where sv = sv and n = n and x = x and ch = ch, folded d_def s_def]; rule that; assumption)
  show ?thesis
  proof (cases r)
    case (Inl e)
    then show ?thesis using g2 x by (simp add: descended_def unf)
  next
    case (Inr best)
    obtain ks ks' where "Min2 api ?job ks = (Inr best, ks')"
      using on_kernel_call[OF call] Inr api by blast
    then have best: "best = first_min (map (\<lambda>v. s ! v) [0..<d])"
      using Min2_correct[OF scores_exact2(1)[OF wf fresh x n]] scores_exact2(2)[OF wf fresh x n] by (simp add: s_def d_def)
    let ?l = "map (\<lambda>v. s ! v) [0..<d]"
    have idx: "snd best < d" "s ! snd best = fst best" and low: "fst best \<le> s ! v" if "v < d" for v
      using first_min_index(1,2)[of ?l] d0 best that by (auto simp: first_min_def)
    have site: "cost_abs (s ! v) = site_cost p (x[n := v]) n" and vle: "s ! v \<le> ACCEL_INF" if "v < d" for v
      using local_scores_exact[OF wf fresh x n] that within_valid[of p "1 + pb_edge_capacity p" "s ! v"] wf n
      by (auto simp: s_def d_def pbqp_wf_def shape_ok_def)
    show ?thesis
    proof (cases "fst best < s ! (x ! n)")
      case True
      have "site_cost p (x[n := snd best]) n < site_cost p x n"
        using site[OF idx(1)] site[OF xn] True idx[OF xn] vle[OF xn] vle[OF idx(1)[OF xn]] cost_abs_le_iff[of "s ! (x ! n)" "fst best"]
        by (simp add: not_le[symmetric])
      then have "better p (x[n := snd best]) x" by (rule better_move[OF n])
      moreover have "valid_assignment p (x[n := snd best])"
        using x idx[OF xn] nx by (auto simp: valid_assignment_def d_def nth_list_update)
      ultimately show ?thesis
        using True idx[OF xn] Inr FG by (cases best) (auto simp: descended_def unf)
    next
      case False
      have "settled p x n"
        unfolding settled_def d_def[symmetric]
      proof (intro allI impI)
        fix v assume "v < d"
        then have "cost_abs (s ! (x ! n)) \<le> cost_abs (s ! v)" using False low[OF \<open>v < d\<close>] by (intro cost_abs_mono vle xn) auto
        then show "site_cost p x n \<le> site_cost p (x[n := v]) n" using site \<open>v < d\<close> xn by simp
      qed
      then show ?thesis
        using False x idx[OF xn] Inr FG by (cases best) (auto simp: descended_def unf)
    qed
  qed
qed

lemma descent_sweep_step:
  assumes wf: "pbqp_wf p" and fresh: "fresh_problem p" and api: "sv_api sv = api"
    and ns: "\<And>n. n \<in> set ns \<Longrightarrow> n < pb_node_count p"
  shows "valid_assignment p x \<Longrightarrow> same_graph p (ss_problem st) \<Longrightarrow>
    descended p (ch, x) (set ns) (descent_sweep sv ns (ch, x, st))"
  using ns
proof (induction ns arbitrary: ch x st)
  case Nil
  then show ?case by (simp add: descended_def)
next
  case (Cons n ns)
  obtain status ch1 x1 st1 where step: "descent_node sv n (ch, x, st) = (status, ch1, x1, st1)" by (metis prod_cases4)
  have one: "descended p (ch, x) {n} (status, ch1, x1, st1)"
    using descent_node_step[OF wf fresh Cons.prems(1) _ Cons.prems(2) api, of n ch] Cons.prems(3) step by simp
  show ?case
  proof (cases "status = PBQP_OK")
    case False
    then show ?thesis using one step by (auto simp: descended_def)
  next
    case True
    obtain status2 ch2 x2 st2 where rest: "descent_sweep sv ns (ch1, x1, st1) = (status2, ch2, x2, st2)" by (metis prod_cases4)
    have "descended p (ch1, x1) (set ns) (status2, ch2, x2, st2)"
      using Cons.IH[of x1 st1 ch1] one Cons.prems(3) rest by (simp add: descended_def)
    then show ?thesis using one True step rest by (auto simp: descended_def intro: better_trans)
  qed
qed

lemma sweep_steady:
  assumes wf: "pbqp_wf p" and fresh: "fresh_problem p" and api: "sv_api sv = api"
    and ns: "\<And>n. n \<in> set ns \<Longrightarrow> n < pb_node_count p"
  shows "valid_assignment p x \<Longrightarrow> same_graph p (ss_problem st) \<Longrightarrow> steady sv p \<Longrightarrow>
    fst (descent_sweep sv ns (ch, x, st)) = PBQP_OK"
  using ns
proof (induction ns arbitrary: ch x st)
  case (Cons n ns)
  obtain status ch1 x1 st1 where step: "descent_node sv n (ch, x, st) = (status, ch1, x1, st1)" by (metis prod_cases4)
  have one: "descended p (ch, x) {n} (status, ch1, x1, st1)"
    using descent_node_step[OF wf fresh Cons.prems(1) _ Cons.prems(2) api, of n ch] Cons.prems(4) step by simp
  have "status = PBQP_OK" using Cons.prems step unfolding steady_def by (metis fst_conv list.set_intros(1))
  then show ?case using Cons.IH[of x1 st1 ch1] one Cons.prems(3,4) step by (simp add: descended_def)
qed simp

lemma descent_loop_returns:
  assumes wf: "pbqp_wf p" and fresh: "fresh_problem p" and api: "sv_api sv = api"
  shows "valid_assignment p x \<Longrightarrow> same_graph p (ss_problem st) \<Longrightarrow>
    \<exists>status y st'. descent_loop sv x st = Some (status, y, st') \<and> same_graph p (ss_problem st') \<and>
      valid_assignment p y \<and> length y = length x \<and> total_cost p y \<le> total_cost p x \<and>
      (status = PBQP_OK \<longrightarrow> local_optimum p y) \<and> (steady sv p \<longrightarrow> status = PBQP_OK)"
proof (induction x arbitrary: st rule: wf_induct_rule[OF wf_measures[of "[core_sum inf_of p, \<lambda>x. nat (core_sum fin_of p x + ACCEL_INF)]"]])
  case (1 x)
  let ?st = "with_statistics (bump (Ls local_search_sweeps) 1) st"
  have g: "same_graph p (ss_problem ?st)" by (rule same_graph_trans[OF 1(3) with_statistics_graph])
  obtain status ch y st' where sw: "descent_sweep sv [0..<pb_node_count p] (False, x, ?st) = (status, ch, y, st')"
    by (metis prod_cases4)
  have d: "descended p (False, x) {..<pb_node_count p} (status, ch, y, st')"
    using descent_sweep_step[OF wf fresh api _ 1(2) g, of "[0..<pb_node_count p]" False] sw by (simp add: atLeast0LessThan)
  have loop: "descent_loop sv x st = (if status \<noteq> PBQP_OK then Some (status, y, st')
      else if ch then descent_loop sv y st' else Some (PBQP_OK, y, st'))"
    using sw local_scores_same(4)[OF 1(3)] by (subst descent_loop.simps) simp
  show ?case
  proof (cases "status = PBQP_OK \<and> ch")
    case True
    then have b: "better p y x" and y: "valid_assignment p y" "same_graph p (ss_problem st')" "length y = length x"
      using d by (auto simp: descended_def)
    from 1(1)[OF better_measure[OF wf fresh 1(2) y(1) b] y(1,2)]
    obtain status2 z st2 where z: "descent_loop sv y st' = Some (status2, z, st2)" "same_graph p (ss_problem st2)"
      "valid_assignment p z" "length z = length y" "total_cost p z \<le> total_cost p y" "status2 = PBQP_OK \<longrightarrow> local_optimum p z"
      "steady sv p \<longrightarrow> status2 = PBQP_OK" by blast
    then show ?thesis using True loop y(3) b order_trans[OF z(5)] by (auto simp: better_def)
  next
    case False
    moreover have "steady sv p \<longrightarrow> status = PBQP_OK"
      using sweep_steady[OF wf fresh api _ 1(2) g, of "[0..<pb_node_count p]" False] sw by auto
    ultimately show ?thesis using d loop settled_optimum[of p x] by (auto simp: descended_def better_def)
  qed
qed

lemma local_descent_returns:
  assumes wf: "pbqp_wf p" and fresh: "fresh_problem p" and api: "sv_api sv = api"
    and x: "valid_assignment p x" and g: "same_graph p (ss_problem st)" and len: "pb_node_count p \<le> length (snd sol)"
  shows "\<exists>status y sol' st'. RunLocalDescent sv x sol st = Some (status, y, sol', st') \<and> same_graph p (ss_problem st') \<and>
      valid_assignment p y \<and> length y = length x \<and> length (snd sol') = length (snd sol) \<and>
      (status = PBQP_OK \<longrightarrow> achieves p (fst sol') (snd sol') \<and> local_optimum p (snd sol') \<and>
         total_cost p (snd sol') \<le> total_cost p x) \<and> (steady sv p \<longrightarrow> granting sv \<longrightarrow> status = PBQP_OK)"
proof -
  have dc: "0 < pb_domain_capacity (ss_problem st)" and al: "pb_allocator (ss_problem st)"
    using g wf fresh by (auto simp: same_graph_def pbqp_wf_def shape_ok_def fresh_problem_def)
  let ?dc = "pb_domain_capacity (ss_problem st)"
  obtain ok st1 where ws: "workspace sv [?dc, ?dc] st = (ok, st1)" by fastforce
  have g1: "same_graph p (ss_problem st1)" using g workspace_problem[OF ws] by simp
  obtain status y st2 where loop: "descent_loop sv x st1 = Some (status, y, st2)" and y: "same_graph p (ss_problem st2)"
      "valid_assignment p y" "length y = length x" "total_cost p y \<le> total_cost p x" "status = PBQP_OK \<longrightarrow> local_optimum p y" "steady sv p \<longrightarrow> status = PBQP_OK"
    using descent_loop_returns[OF wf fresh api x g1] by blast
  let ?n = "pb_node_count p"
  let ?z = "copy_prefix ?n y (snd sol)"
  note z = copy_prefix_same[OF wf y(2) len]
  have ev: "pbqp_evaluate (ss_problem st2) y = pbqp_evaluate p y"
    using y(1) by (auto simp: same_graph_def pbqp_evaluate_def)
  have "achieves p (pbqp_evaluate p y) ?z"
    using z evaluate_exact[OF wf fresh y(2)] by (simp add: achieves_def)
  then show ?thesis
    using ws loop y x g1 z local_scores_same(4)[OF y(1)] ev
      workspace_granted[of sv st "[?dc, ?dc]"] dc al
    by (cases sol) (auto simp: RunLocalDescent_def Let_def)
qed

lemma local_starts_return:
  assumes wf: "pbqp_wf p" and fresh: "fresh_problem p" and api: "sv_api sv = api"
  shows "(\<And>n v. (n, v) \<in> set starts \<Longrightarrow> n < pb_node_count p \<and> v < nd_domain (node_at p n)) \<Longrightarrow>
    same_graph p (ss_problem st) \<Longrightarrow> valid_assignment p initial \<Longrightarrow> pb_node_count p \<le> length arr \<Longrightarrow> found p C best \<Longrightarrow>
    \<exists>status best' st'. local_starts sv starts initial best arr st = Some (status, best', st') \<and> same_graph p (ss_problem st') \<and>
      found p C best' \<and> (steady sv p \<longrightarrow> granting sv \<longrightarrow> status = PBQP_OK)"
proof (induction starts arbitrary: initial best arr st)
  case Nil
  then show ?case by simp
next
  case (Cons start starts)
  obtain n v where start: "start = (n, v)" by fastforce
  then have nv: "n < pb_node_count p" "v < nd_domain (node_at p n)" using Cons.prems(1)[of n v] by auto
  have x: "valid_assignment p (initial[n := w])" if "w < nd_domain (node_at p n)" "valid_assignment p initial" for w initial
    using that nv by (auto simp: valid_assignment_def nth_list_update)
  have "pb_node_count p \<le> length (snd (ACCEL_INF, arr))" using Cons.prems(4) by simp
  then obtain status y sol' st' where run: "RunLocalDescent sv (initial[n := v]) (ACCEL_INF, arr) st = Some (status, y, sol', st')"
    and g: "same_graph p (ss_problem st')" "valid_assignment p y" "length (snd sol') = length arr"
    and ok: "status = PBQP_OK \<longrightarrow> achieves p (fst sol') (snd sol') \<and> local_optimum p (snd sol') \<and>
         total_cost p (snd sol') \<le> total_cost p (initial[n := v])" "steady sv p \<longrightarrow> granting sv \<longrightarrow> status = PBQP_OK"
    using local_descent_returns[OF wf fresh api x[OF nv(2) Cons.prems(3)] Cons.prems(2), of "(ACCEL_INF, arr)"] by fastforce
  show ?case
  proof (cases "status = PBQP_OK")
    case False
    then show ?thesis using run start g(1) Cons.prems(5) ok(2) by auto
  next
    case True
    let ?best = "if fst sol' < fst best then (fst sol', copy_prefix (pb_node_count p) (snd sol') (snd best)) else best"
    have "found p C ?best"
      using found_better[OF wf Cons.prems(5)] Cons.prems(5) ok True by auto
    moreover have "valid_assignment p (y[n := 0])" using x[OF _ g(2)] nv by simp
    moreover have "local_starts sv (start # starts) initial best arr st = local_starts sv starts (y[n := 0]) ?best (snd sol') st'"
      using run start True local_scores_same(4)[OF g(1)] by (simp only: local_starts.simps option.case prod.case) simp
    ultimately show ?thesis
      using Cons.IH[of st' "y[n := 0]" "snd sol'" ?best, OF Cons.prems(1) g(1)] Cons.prems(4) g(3) by auto
  qed
qed

lemma local_search_returns:
  assumes wf: "pbqp_wf p" and fresh: "fresh_problem p" and api: "sv_api sv = api"
    and g: "same_graph p (ss_problem st)" and len: "pb_node_count p \<le> length (snd sol)"
  shows "\<exists>status sol' st'. SolveLocalSearch sv sol st = Some (status, sol', st') \<and>
      (status = PBQP_OK \<longrightarrow> found p (total_cost p (replicate (pb_node_count p) 0)) sol') \<and>
      (steady sv p \<longrightarrow> granting sv \<longrightarrow> 0 < pb_node_count p \<longrightarrow> status = PBQP_OK)"
proof -
  let ?n = "pb_node_count p" and ?z = "replicate (pb_node_count p) (0::nat)"
  have n: "pb_node_count (ss_problem st) = ?n" "node_at (ss_problem st) = node_at p" and al: "pb_allocator (ss_problem st)"
    using g fresh by (auto simp: same_graph_def fresh_problem_def)
  obtain ok st1 where ws: "workspace sv [?n, ?n, ?n] st = (ok, st1)" by fastforce
  have g1: "same_graph p (ss_problem st1)" using g workspace_problem[OF ws] by simp
  have z: "valid_assignment p ?z" using wf by (auto simp: valid_assignment_def pbqp_wf_def graph_ok_def)
  obtain status y best st2 where run: "RunLocalDescent sv ?z (ACCEL_INF, ?z) st1 = Some (status, y, best, st2)"
    and g2: "same_graph p (ss_problem st2)" "valid_assignment p y" "length (snd best) = ?n"
    and best: "status = PBQP_OK \<longrightarrow> achieves p (fst best) (snd best) \<and> local_optimum p (snd best) \<and>
         total_cost p (snd best) \<le> total_cost p ?z" "steady sv p \<longrightarrow> granting sv \<longrightarrow> status = PBQP_OK"
    using local_descent_returns[OF wf fresh api z g1, of "(ACCEL_INF, ?z)"] by fastforce
  let ?starts = "concat (map (\<lambda>node. map (Pair node) [1..<nd_domain (node_at p node)]) [0..<?n])"
  have starts: "n < ?n \<and> v < nd_domain (node_at p n)" if "(n, v) \<in> set ?starts" for n v using that by auto
  have form: "SolveLocalSearch sv sol st = (if \<not> ok then Some (PBQP_CAPACITY_ERROR, sol, st1)
      else if status \<noteq> PBQP_OK then Some (status, sol, st2)
      else case local_starts sv ?starts y best ?z st2 of None \<Rightarrow> None
        | Some (status, best', st3) \<Rightarrow> if status \<noteq> PBQP_OK then Some (status, sol, st3)
            else Some (PBQP_OK, (fst best', copy_prefix ?n (snd best') (snd sol)), st3))"
    using ws run unfolding SolveLocalSearch_def n Let_def by simp
  have wsok: "granting sv \<longrightarrow> 0 < ?n \<longrightarrow> ok" using workspace_granted[of sv st "[?n, ?n, ?n]"] al ws by auto
  show ?thesis
  proof (cases "ok \<and> status = PBQP_OK")
    case False
    then show ?thesis using form best(2) wsok by auto
  next
    case True
    then have "found p (total_cost p ?z) best" using best g2(3) by (simp add: found_def)
    from local_starts_return[OF wf fresh api starts g2(1,2) _ this, where arr = ?z, of ?starts]
    obtain status2 best' st3 where "local_starts sv ?starts y best ?z st2 = Some (status2, best', st3)"
      "found p (total_cost p ?z) best'" "steady sv p \<longrightarrow> granting sv \<longrightarrow> status2 = PBQP_OK" by auto
    then show ?thesis using form True found_copy[OF wf _ len, of "total_cost p ?z" best'] by auto
  qed
qed

end

context total_kernel
begin

lemma kernel_steady:
  assumes wf: "pbqp_wf p" and fresh: "fresh_problem p" and api: "sv_api sv = api"
  shows "steady sv p"
  unfolding steady_def
proof (intro allI impI)
  fix n ch x and st :: "'k solver_state"
  assume n: "n < pb_node_count p" and x: "valid_assignment p x" and st: "same_graph p (ss_problem st)"
  let ?d = "nd_domain (node_at p n)" and ?s = "local_scores p x n"
  let ?job = "(whole_view ?s ?d, whole_view (replicate (pb_domain_capacity p) 0) ?d)"
  obtain st1 r st2 F G where call: "on_kernel (Min2 (sv_api sv) ?job) st1 = (r, st2)"
    and unf: "descent_node sv n (ch, x, st) =
      (case r of
         Inl e \<Rightarrow> (PBQP_KERNEL_ERROR, ch, x, st2)
       | Inr (best_value, best_index) \<Rightarrow>
           if best_index \<ge> ?d then (PBQP_ARGUMENT_ERROR, ch, x, st2)
           else if best_value < ?s ! (x ! n) then (PBQP_OK, True, x[n := best_index], F best_index)
           else (PBQP_OK, ch, x, G best_index))"
    by (rule descent_node_form[OF st, where sv = sv and n = n and x = x and ch = ch]; rule that; assumption)
  note exact = scores_exact2[OF wf fresh x n]
  obtain best where r: "r = Inr best"
    using on_kernel_total[where call = "Min2 api ?job" and st = st1, OF Min2_total[OF exact(1)]] call api by auto
  obtain ks ks' where "Min2 api ?job ks = (Inr best, ks')" using on_kernel_call[OF call] r api by blast
  then have "best = first_min (map (\<lambda>v. ?s ! v) [0..<?d])" using Min2_correct[OF exact(1)] exact(2) by simp
  moreover have "0 < ?d" using wf n by (simp add: pbqp_wf_def graph_ok_def)
  ultimately have "snd best < ?d" using first_min_index(1)[of "map (\<lambda>v. ?s ! v) [0..<?d]"] by simp
  then show "fst (descent_node sv n (ch, x, st)) = PBQP_OK" unfolding unf r by (auto split: prod.splits)
qed

end

end
