(* ===== verification/Pbqp_Strategies.thy ===== *)
theory Pbqp_Strategies
  imports Pbqp_Local_Correct
begin

text \<open>
  The strategies as callers of \<open>pbqp_solver_solve\<close> see them: every solve returns, and local search
  returns a local optimum.
\<close>

section \<open>Every solve returns\<close>

lemma counted_strategy_returns:
  assumes c: "counted (ss_problem st)" and strat: "cf_strategy (sv_config sv) \<noteq> PBQP_STRATEGY_LOCAL_SEARCH"
  shows "solve_strategy sv sol st \<noteq> None"
proof -
  obtain st1 where g: "same_graph (ss_problem st) (ss_problem st1)" and eq: "solve_strategy sv sol st =
      after_loop sv (Suc (pb_node_count (ss_problem st))) sol
        (solve_loop (Suc (pb_node_count (ss_problem st))) sv None sol st1)"
    by (rule solve_strategy_form[OF strat])
  have c1: "counted (ss_problem st1)" and n: "ActiveNodeCount (ss_problem st1) = ActiveNodeCount (ss_problem st)"
    using keeps_count[OF c same_graph_keeps[OF g]] by auto
  have few: "ActiveNodeCount (ss_problem st1) < Suc (pb_node_count (ss_problem st))"
    unfolding n using active_le[of "ss_problem st"] by simp
  obtain res st2 where loop: "solve_loop (Suc (pb_node_count (ss_problem st))) sv None sol st1 = Some (res, st2)"
    and core: "res = CoreLeft \<longrightarrow> counted (ss_problem st2) \<and> ActiveNodeCount (ss_problem st2) \<le> ActiveNodeCount (ss_problem st1)"
    using solve_loop_returns[OF c1 few, of sv None sol] by blast
  have "SolveBranchAndReduce (Suc (pb_node_count (ss_problem st))) sv 0 no_search ACCEL_INF sol st2 \<noteq> None" if "res = CoreLeft"
  proof -
    have "counted (ss_problem st2)" "ActiveNodeCount (ss_problem st2) < Suc (pb_node_count (ss_problem st))" using core that few by auto
    then show ?thesis using branch_reduce_returns[of "Suc (pb_node_count (ss_problem st))" sv] unfolding branch_returns_def by blast
  qed
  then show ?thesis unfolding eq after_loop_def loop
    by (cases res; cases "solve_core sv sol st2") (auto simp del: SolveBranchAndReduce.simps split: option.splits)
qed

lemma wf_counted: "pbqp_wf p \<Longrightarrow> counted p"
  by (simp add: pbqp_wf_def shape_ok_def counted_def)

context cost_kernel
begin

lemma strategy_returns:
  assumes wf: "pbqp_wf p" and fresh: "fresh_problem p" and len: "pb_node_count p \<le> length (snd sol)"
    and g: "same_graph p (ss_problem st)" and api: "sv_api sv = api"
  shows "solve_strategy sv sol st \<noteq> None"
proof (cases "cf_strategy (sv_config sv) = PBQP_STRATEGY_LOCAL_SEARCH")
  case False
  have "counted (ss_problem st)" using g wf_counted[OF wf] by (auto simp: same_graph_def counted_def)
  then show ?thesis using counted_strategy_returns False by blast
next
  case True
  have "same_graph p (ss_problem (with_statistics f st))" for f by (rule same_graph_trans[OF g with_statistics_graph])
  then show ?thesis using local_search_returns[OF wf fresh api _ len] True by (fastforce simp: solve_strategy_def Let_def)
qed

lemma rn_local_returns:
  assumes wf: "pbqp_wf p" and fresh: "fresh_problem p" and len: "pb_node_count p \<le> length (snd sol)"
    and st: "ss_problem st = p" and api: "sv_api sv = api"
  shows "solve_rn_local sv sol st \<noteq> None"
    and "solve_rn_local sv sol st = Some (PBQP_OK, sol', st') \<Longrightarrow>
      \<exists>st2 c y st3. ss_problem st2 = p \<and>
        solve_strategy (with_strategy PBQP_STRATEGY_HEURISTIC_RN sv) (ACCEL_INF, replicate (pb_node_count p) 0) st2 = Some (PBQP_OK, (c, y), st3) \<and>
        achieves p c y \<and> found p (cost_abs c) sol'"
proof -
  obtain clone_status original st1 where cl: "clone_state sv st = (clone_status, original, st1)" by (metis prod_cases3)
  obtain ok st2 where ws: "workspace sv [pb_node_count p] st1 = (ok, st2)" by fastforce
  let ?rn = "solve_strategy (with_strategy PBQP_STRATEGY_HEURISTIC_RN sv) (ACCEL_INF, replicate (pb_node_count p) 0) st2"
  let ?init = "\<lambda>q. original\<lparr>pb_statistics := copy_statistics (pb_statistics original) (pb_statistics q) (pb_node_capacity q) (pb_domain_capacity q)\<rparr>"
  let ?bad = "clone_status \<noteq> PBQP_OK \<or> \<not> ok"
  have p1: "ss_problem st2 = p" using cl workspace_problem[OF ws] st
    by (auto simp: clone_state_def Let_def split: prod.splits)
  have orig: "same_graph p original" if "clone_status = PBQP_OK"
    using clone_graph(1)[of st sv original st1] cl that wf fresh st by (simp add: pbqp_wf_def fresh_problem_def)
  have rn: "?rn \<noteq> None"
    by (rule strategy_returns[OF wf fresh]) (use p1 api in \<open>auto simp: with_strategy_def\<close>)
  have rnok: "achieves p c y" if "?rn = Some (PBQP_OK, (c, y), st3)" for c y st3
    using strategy_heuristic[OF wf fresh _ p1 _ _ that] api by (simp add: with_strategy_def)
  have descent: "\<exists>status z sol' st4. RunLocalDescent sv y sol (set_problem (?init q) st3) = Some (status, z, sol', st4) \<and>
      (status = PBQP_OK \<longrightarrow> found p (total_cost p y) sol')" if "clone_status = PBQP_OK" "valid_assignment p y" for y q st3
  proof -
    have g: "same_graph p (ss_problem (set_problem (?init q) st3))"
      using orig[OF that(1)] by (auto simp: same_graph_def)
    show ?thesis using local_descent_returns[OF wf fresh api that(2) g len] len by (fastforce simp: found_def)
  qed
  have run: "solve_rn_local sv sol st = (if ?bad then Some (PBQP_CAPACITY_ERROR, sol, st2)
      else case ?rn of None \<Rightarrow> None
        | Some (rn_status, rn_solution, st3) \<Rightarrow>
            if rn_status \<noteq> PBQP_OK then Some (rn_status, sol, st3)
            else (case RunLocalDescent sv (snd rn_solution) sol (set_problem (?init (ss_problem st3)) st3) of
                    None \<Rightarrow> None
                  | Some (status, _, solution', st4) \<Rightarrow>
                      Some (status, solution', set_problem (if status = PBQP_OK
                          then (ss_problem st3)\<lparr>pb_statistics := copy_statistics (pb_statistics (ss_problem st3))
                                (pb_statistics (ss_problem st4)) (pb_node_capacity (ss_problem st3)) (pb_domain_capacity (ss_problem st3))\<rparr>
                          else ss_problem st3) st4)))"
    using cl ws st by (simp add: solve_rn_local_def Let_def split: option.splits)
  show "solve_rn_local sv sol st \<noteq> None"
  proof (cases "?bad \<or> (\<exists>s b st3. ?rn = Some (s, b, st3) \<and> s \<noteq> PBQP_OK)")
    case True
    then show ?thesis using run by auto
  next
    case False
    then obtain c y st3 where r: "?rn = Some (PBQP_OK, (c, y), st3)" using rn by auto
    then have "valid_assignment p y" using rnok by (simp add: achieves_def)
    then show ?thesis using descent[of y "ss_problem st3" st3] False r run by auto
  qed
  assume ok: "solve_rn_local sv sol st = Some (PBQP_OK, sol', st')"
  then have nb: "\<not> ?bad" using run by (auto split: if_splits)
  then obtain c y st3 where r: "?rn = Some (PBQP_OK, (c, y), st3)" using ok run by (auto split: option.splits if_splits)
  then have a: "achieves p c y" using rnok by simp
  then have "valid_assignment p y" "total_cost p y = cost_abs c" by (simp_all add: achieves_def)
  then have "found p (cost_abs c) sol'" using descent[of y "ss_problem st3" st3] nb ok r run by auto
  then show "\<exists>st2 c y st3. ss_problem st2 = p \<and>
        solve_strategy (with_strategy PBQP_STRATEGY_HEURISTIC_RN sv) (ACCEL_INF, replicate (pb_node_count p) 0) st2 = Some (PBQP_OK, (c, y), st3) \<and>
        achieves p c y \<and> found p (cost_abs c) sol'" using r p1 a by blast
qed

end

lemma every_solve_returns:
  assumes "pbqp_wf p" and "fresh_problem p" and "cost_kernel (so_kernel handle)"
    and "\<And>s x. solution = Some s \<Longrightarrow> so_assignment s = Some x \<Longrightarrow> so_assignment_capacity s \<le> length x"
  shows "pbqp_solver_solve grants k (Some handle) (Some p) solution \<noteq> None"
proof (cases "\<exists>s x. solution = Some s \<and> so_assignment s = Some x \<and> pb_node_count p \<le> so_assignment_capacity s")
  case False
  then show ?thesis by (auto simp: pbqp_solver_solve_def Solve_def split: option.splits)
next
  case True
  then obtain s x where s: "solution = Some s" "so_assignment s = Some x" "pb_node_count p \<le> so_assignment_capacity s" by blast
  then have len: "pb_node_count p \<le> length (snd (so_optimum s, x))" using assms(4) order_trans by fastforce
  let ?sv = "handle_solver handle grants"
  have st: "ss_problem (start_state k p) = p" "same_graph p (ss_problem (start_state k p))" by (simp_all add: start_state_def)
  have api: "sv_api ?sv = so_kernel handle" by (simp add: handle_solver_def)
  have "solve_strategy ?sv (so_optimum s, x) (start_state k p) \<noteq> None"
    by (rule cost_kernel.strategy_returns[OF assms(3,1,2) len st(2) api])
  moreover have "solve_rn_local ?sv (so_optimum s, x) (start_state k p) \<noteq> None"
    by (rule cost_kernel.rn_local_returns(1)[OF assms(3,1,2) len st(1) api])
  ultimately show ?thesis
    using s by (auto simp: pbqp_solver_solve_def Solve_def handle_solver_def start_state_def split: option.splits prod.splits)
qed

text \<open>
  C4: every solve returns. On a well-formed graph as built by the caller, with any kernel that keeps
  the contract of a cost kernel and may fail at any call, any allocator, any strategy and any solution
  argument, the null pointer included, \<open>pbqp_solver_solve\<close> returns; the descent loop of the local
  search, which has no bound in the source, included.
\<close>

theorem solver_returns:
  assumes "pbqp_wf p" and "fresh_problem p" and "cost_kernel (so_kernel handle)"
    and "\<And>s x. solution = Some s \<Longrightarrow> so_assignment s = Some x \<Longrightarrow> so_assignment_capacity s \<le> length x"
  shows "pbqp_solver_solve grants k (Some handle) (Some p) solution \<noteq> None"
  using assms by (rule every_solve_returns)

theorem solver_returns_witness:
  "pbqp_solver_solve (\<lambda>_. False) () (Some (example_handle PBQP_STRATEGY_LOCAL_SEARCH)) (Some example_problem) (Some example_solution) \<noteq> None"
  by (rule solver_returns[OF example_ok(1,2)])
    (auto simp: example_handle_def sw.cost_kernel_axioms example_solution_def)

text \<open>
  C5: local search. With the software kernel and granted allocations, local search on a graph with a
  node returns \<open>PBQP_OK\<close> and a valid assignment with its exact cost; changing any single node does not
  lower the cost, and the cost is at most that of the all-zero start.
\<close>

theorem local_search_optimum:
  assumes "pbqp_wf p" and "fresh_problem p" and "0 < pb_node_count p" and "solution_fits p sol"
    and "so_kernel handle = pbqp_make_software_kernel" and "\<And>n. grants n"
    and "cf_strategy (so_config handle) = PBQP_STRATEGY_LOCAL_SEARCH"
  shows "\<exists>r sol' x. pbqp_solver_solve grants k (Some handle) (Some p) (Some sol) = Some r \<and> sr_status r = PBQP_OK \<and>
    sr_solution r = Some sol' \<and> so_assignment sol' = Some x \<and> valid_assignment p x \<and> so_optimum sol' = pbqp_evaluate p x \<and>
    (\<forall>n < pb_node_count p. \<forall>v < nd_domain (node_at p n). so_optimum sol' \<le> pbqp_evaluate p (x[n := v])) \<and>
    so_optimum sol' \<le> pbqp_evaluate p (replicate (pb_node_count p) 0)"
proof -
  let ?sv = "handle_solver handle grants" and ?z = "replicate (pb_node_count p) 0"
  obtain y where y: "so_assignment sol = Some y" "pb_node_count p \<le> so_assignment_capacity sol" "pb_node_count p \<le> length y"
    using assms(4) by (auto simp: solution_fits_def)
  have api: "sv_api ?sv = pbqp_make_software_kernel" "granting ?sv" using assms(5,6) by (simp_all add: handle_solver_def granting_def)
  have len: "pb_node_count p \<le> length (snd (so_optimum sol, y))" using y(3) by simp
  have "same_graph p (ss_problem (with_statistics f (start_state k p)))" for f
    using with_statistics_graph[of "start_state k p" f] by (simp add: start_state_def)
  then obtain c x st' where run: "solve_strategy ?sv (so_optimum sol, y) (start_state k p) = Some (PBQP_OK, (c, x), st')"
    and found: "found p (total_cost p ?z) (c, x)"
    using sw.local_search_returns[OF assms(1,2) api(1) _ len] sw.kernel_steady[OF assms(1,2) api(1)] api(2) assms(3,7)
    by (fastforce simp: solve_strategy_def Let_def handle_solver_def start_state_def)
  have a: "achieves p c x" and lo: "local_optimum p x" and le: "total_cost p x \<le> total_cost p ?z" using found by (simp_all add: found_def)
  have x: "valid_assignment p x" "c = pbqp_evaluate p x" using achieves_evaluate[OF assms(1,2) a] by auto
  have below: "c \<le> pbqp_evaluate p w" if "valid_assignment p w" "total_cost p x \<le> total_cost p w" for w
    using evaluate_exact[OF assms(1,2) that(1)] that(2) a cost_abs_le_iff[of c "pbqp_evaluate p w"] by (simp add: achieves_def)
  have "c \<le> pbqp_evaluate p (x[n := v])" if "n < pb_node_count p" "v < nd_domain (node_at p n)" for n v
    by (rule below) (use that x(1) lo in \<open>auto simp: local_optimum_def valid_assignment_def nth_list_update\<close>)
  moreover have "c \<le> pbqp_evaluate p ?z"
    by (rule below[OF _ le]) (use assms(1) in \<open>auto simp: valid_assignment_def pbqp_wf_def graph_ok_def\<close>)
  moreover have "cf_strategy (so_config handle) \<noteq> PBQP_STRATEGY_HEURISTIC_RN_LOCAL_SEARCH" using assms(7) by simp
  ultimately show ?thesis using solver_solve_form[OF y(1,2), of handle grants k] run x by simp
qed

theorem local_search_optimum_witness:
  "\<exists>r sol' x. pbqp_solver_solve (\<lambda>_. True) () (Some (example_handle PBQP_STRATEGY_LOCAL_SEARCH))
       (Some example_problem) (Some example_solution) = Some r \<and> sr_status r = PBQP_OK \<and>
     sr_solution r = Some sol' \<and> so_assignment sol' = Some x \<and> so_optimum sol' \<le> pbqp_evaluate example_problem (x[2 := 1])"
proof -
  have "2 < pb_node_count example_problem" "1 < nd_domain (node_at example_problem 2)" by code_simp+
  with local_search_optimum[OF example_ok(1,2) _ example_ok(5), of "example_handle PBQP_STRATEGY_LOCAL_SEARCH" "\<lambda>_. True" "()"]
  show ?thesis by (fastforce simp: example_handle_def)
qed

end
