(* ===== verification/Pbqp_Bruteforce.thy ===== *)
theory Pbqp_Bruteforce
  imports Pbqp_Strategies
begin

text \<open>
  The brute-force oracle \<open>pbqp_bruteforce\<close>: it enumerates every assignment and keeps the first of
  least cost, so it agrees with the exact strategies of the solver.
\<close>

section \<open>The enumeration\<close>

lemma evaluate_cong:
  assumes wf: "pbqp_wf p" and fresh: "fresh_problem p" and x: "valid_assignment p x" and y: "valid_assignment p y"
    and eq: "\<And>k. k < pb_node_count p \<Longrightarrow> x ! k = y ! k"
  shows "pbqp_evaluate p x = pbqp_evaluate p y"
  using evaluate_exact(1)[OF wf fresh x] evaluate_exact(1)[OF wf fresh y] total_cost_cong[OF wf eq]
    cost_abs_inject[of "pbqp_evaluate p x" "pbqp_evaluate p y"] by simp

text \<open>What the enumeration holds: an array of values, and the best assignment seen with its cost.\<close>

definition holding :: "pbqp_problem \<Rightarrow> enumeration \<Rightarrow> bool" where
  "holding p st \<longleftrightarrow> (case st of (a, sol, has) \<Rightarrow> valid_assignment p a \<and> length a = pb_node_count p \<and>
     pb_node_count p \<le> length (snd sol) \<and>
     (has \<longrightarrow> valid_assignment p (snd sol) \<and> fst sol = pbqp_evaluate p (snd sol)))"

definition seen :: "pbqp_problem \<Rightarrow> enumeration \<Rightarrow> nat list \<Rightarrow> bool" where
  "seen p st x \<longleftrightarrow> (case st of (a, sol, has) \<Rightarrow> has \<and> fst sol \<le> pbqp_evaluate p x)"

definition enum_step :: "pbqp_problem \<Rightarrow> nat \<Rightarrow> enumeration \<Rightarrow> enumeration \<Rightarrow> bool" where
  "enum_step p node st st' \<longleftrightarrow> holding p st' \<and> (\<forall>k < node. fst st' ! k = fst st ! k) \<and> (\<forall>x. seen p st x \<longrightarrow> seen p st' x)"

lemma enum_step_trans: "enum_step p node st st' \<Longrightarrow> enum_step p node st' st'' \<Longrightarrow> enum_step p node st st''"
  by (auto simp: enum_step_def)

lemma enum_values:
  assumes wf: "pbqp_wf p" and node: "node < pb_node_count p"
    and visit: "\<And>st. holding p st \<Longrightarrow> enum_step p (Suc node) st (visit st) \<and>
      (\<forall>x. valid_assignment p x \<longrightarrow> (\<forall>k \<le> node. x ! k = fst st ! k) \<longrightarrow> seen p (visit st) x)"
  shows "holding p st \<Longrightarrow> (\<And>v. v \<in> set vs \<Longrightarrow> v < nd_domain (node_at p node)) \<Longrightarrow>
    (let st' = fold (\<lambda>v (a, rest). visit (a[node := v], rest)) vs st in enum_step p node st st' \<and>
      (\<forall>x. valid_assignment p x \<longrightarrow> (\<forall>k < node. x ! k = fst st ! k) \<longrightarrow> x ! node \<in> set vs \<longrightarrow> seen p st' x))"
proof (induction vs arbitrary: st)
  case Nil
  then show ?case by (simp add: enum_step_def)
next
  case (Cons v vs)
  obtain a sol has where st: "st = (a, sol, has)" by (metis prod_cases3)
  let ?st0 = "(a[node := v], sol, has)"
  have na: "node < length a" using Cons.prems(1) node by (simp add: holding_def st)
  have h0: "holding p ?st0" using Cons.prems(1) Cons.prems(2)[of v] na node
    by (auto simp: holding_def st valid_assignment_def nth_list_update)
  note v = visit[OF h0]
  let ?st1 = "visit ?st0" and ?f = "\<lambda>v (a, rest). visit (a[node := v], rest)"
  have h1: "holding p ?st1" and pre: "\<And>k. k < node \<Longrightarrow> fst ?st1 ! k = a ! k" using v na by (auto simp: enum_step_def)
  have "seen p ?st0 x" if "seen p st x" for x using that by (simp add: seen_def st)
  then have s1: "enum_step p node st ?st1" using v na by (auto simp: enum_step_def st)
  from Cons.IH[OF h1] Cons.prems(2)
  have rest: "enum_step p node ?st1 (fold ?f vs ?st1)"
    and found: "\<And>x. valid_assignment p x \<Longrightarrow> (\<forall>k < node. x ! k = fst ?st1 ! k) \<Longrightarrow> x ! node \<in> set vs \<Longrightarrow> seen p (fold ?f vs ?st1) x"
    by (auto simp: Let_def)
  have run: "fold ?f (v # vs) st = fold ?f vs ?st1" by (simp add: st)
  have "seen p (fold ?f vs ?st1) x" if x: "valid_assignment p x" "\<forall>k < node. x ! k = a ! k" "x ! node = v \<or> x ! node \<in> set vs" for x
  proof (cases "x ! node = v")
    case True
    then have "\<forall>k \<le> node. x ! k = fst ?st0 ! k" using x(2) na by (auto simp: le_less nth_list_update)
    then have "seen p ?st1 x" using v x(1) by blast
    then show ?thesis using rest by (simp add: enum_step_def)
  next
    case False
    then show ?thesis using found[OF x(1)] x(2,3) pre by simp
  qed
  then show ?case unfolding run Let_def using enum_step_trans[OF s1 rest] by (simp add: st)
qed

lemma enumerate_leaf:
  assumes wf: "pbqp_wf p" and fresh: "fresh_problem p" and h: "holding p st"
  shows "enum_step p (pb_node_count p) st (Enumerate 0 p st)"
    and "valid_assignment p x \<Longrightarrow> (\<And>k. k < pb_node_count p \<Longrightarrow> x ! k = fst st ! k) \<Longrightarrow> seen p (Enumerate 0 p st) x"
proof -
  obtain a sol has where st: "st = (a, sol, has)" by (metis prod_cases3)
  let ?z = "copy_prefix (pb_node_count p) a (snd sol)"
  have a: "valid_assignment p a" and len: "pb_node_count p \<le> length (snd sol)" using h by (auto simp: holding_def st)
  note z = copy_prefix_same[OF wf a len]
  have "pbqp_evaluate p ?z = pbqp_evaluate p a"
    by (rule evaluate_cong[OF wf fresh z(2) a]) (use a in \<open>simp add: copy_prefix_def nth_append valid_assignment_def\<close>)
  then show "enum_step p (pb_node_count p) st (Enumerate 0 p st)"
    using h z by (auto simp: enum_step_def holding_def seen_def st Let_def)
  assume x: "valid_assignment p x" "\<And>k. k < pb_node_count p \<Longrightarrow> x ! k = fst st ! k"
  have "pbqp_evaluate p x = pbqp_evaluate p a" by (rule evaluate_cong[OF wf fresh x(1) a]) (use x(2) st in simp)
  then show "seen p (Enumerate 0 p st) x" by (auto simp: seen_def st Let_def)
qed

lemma enumerate_all:
  assumes wf: "pbqp_wf p" and fresh: "fresh_problem p"
  shows "remaining \<le> pb_node_count p \<Longrightarrow> holding p st \<Longrightarrow>
    enum_step p (pb_node_count p - remaining) st (Enumerate remaining p st) \<and>
    (\<forall>x. valid_assignment p x \<longrightarrow> (\<forall>k < pb_node_count p - remaining. x ! k = fst st ! k) \<longrightarrow> seen p (Enumerate remaining p st) x)"
proof (induction remaining arbitrary: st)
  case 0
  then show ?case using enumerate_leaf[OF wf fresh 0(2)] by simp
next
  case (Suc r)
  let ?node = "pb_node_count p - Suc r"
  have node: "?node < pb_node_count p" "pb_node_count p - r = Suc ?node" using Suc.prems(1) by auto
  have "enum_step p (Suc ?node) st (Enumerate r p st) \<and>
      (\<forall>x. valid_assignment p x \<longrightarrow> (\<forall>k \<le> ?node. x ! k = fst st ! k) \<longrightarrow> seen p (Enumerate r p st) x)" if "holding p st" for st
    using Suc.IH[OF _ that] Suc.prems(1) unfolding node(2) by (simp add: less_Suc_eq_le)
  from enum_values[OF wf node(1) this Suc.prems(2), of "[0..<nd_domain (node_at p ?node)]"]
  have "enum_step p ?node st (Enumerate (Suc r) p st)"
    and found: "\<And>x. valid_assignment p x \<Longrightarrow> (\<forall>k < ?node. x ! k = fst st ! k) \<Longrightarrow> x ! ?node < nd_domain (node_at p ?node) \<Longrightarrow>
      seen p (Enumerate (Suc r) p st) x"
    by (auto simp: Let_def)
  moreover have "x ! ?node < nd_domain (node_at p ?node)" if "valid_assignment p x" for x
    using that node(1) fresh by (simp add: valid_assignment_def fresh_problem_def)
  ultimately show ?case by blast
qed

section \<open>The oracle\<close>

lemma bruteforce_form:
  assumes wf: "pbqp_wf p" and fresh: "fresh_problem p" and fits: "solution_fits p sol" and n: "0 < pb_node_count p"
    and grant: "grants (of_nat (pb_node_count p) * 4)"
  obtains c x where "pbqp_bruteforce (Some grants) (Some p) (Some sol) = (PBQP_OK, Some (sol\<lparr>so_optimum := c, so_assignment := Some x\<rparr>))"
    and "valid_assignment p x" and "c = pbqp_evaluate p x" and "\<And>y. valid_assignment p y \<Longrightarrow> c \<le> pbqp_evaluate p y"
proof -
  obtain out where out: "so_assignment sol = Some out" "pb_node_count p \<le> so_assignment_capacity sol" "pb_node_count p \<le> length out"
    using fits by (auto simp: solution_fits_def)
  let ?st = "(replicate (pb_node_count p) 0, (ACCEL_INF, out), False)"
  have h: "holding p ?st" using wf out(3) by (auto simp: holding_def valid_assignment_def pbqp_wf_def graph_ok_def)
  obtain a s has where e: "Enumerate (pb_node_count p) p ?st = (a, s, has)" by (metis prod_cases3)
  from enumerate_all[OF wf fresh order_refl h] have hold: "holding p (a, s, has)"
    and all: "\<And>y. valid_assignment p y \<Longrightarrow> has \<and> fst s \<le> pbqp_evaluate p y"
    unfolding e by (auto simp: enum_step_def seen_def)
  have "valid_assignment p (replicate (pb_node_count p) 0)" using h by (simp add: holding_def)
  then have "has" using all by blast
  then have "valid_assignment p (snd s)" "fst s = pbqp_evaluate p (snd s)" using hold by (auto simp: holding_def)
  moreover have "pbqp_bruteforce (Some grants) (Some p) (Some sol) = (PBQP_OK, Some (sol\<lparr>so_optimum := fst s, so_assignment := Some (snd s)\<rparr>))"
    using out n grant e by (simp add: pbqp_bruteforce_def)
  ultimately show ?thesis using that[where c = "fst s" and x = "snd s"] all by simp
qed

text \<open>
  C8: equivalence with the reference. With the software kernel, granted allocations, a free edge slot
  and no search limit, on a graph with a node, core enumeration and branch and reduce, with reductions, bounds
  and pruning, report the same optimum as the brute-force enumeration of all assignments; the oracle's
  assignment is valid, its optimum is the evaluation of that assignment, and no assignment costs less.
\<close>

theorem exact_solve_equals_bruteforce:
  assumes "pbqp_wf p" and "fresh_problem p" and "0 < pb_node_count p" and "spare p" and "storable p" and "solution_fits p sol"
    and "so_kernel handle = pbqp_make_software_kernel" and "\<And>n. grants n" and "oracle_grants (of_nat (pb_node_count p) * 4)"
    and "cf_strategy (so_config handle) = PBQP_STRATEGY_EXACT_CORE_ENUMERATION \<or>
      cf_strategy (so_config handle) = PBQP_STRATEGY_EXACT_BRANCH_REDUCE"
    and "cf_maximum_search_nodes (so_config handle) = 0"
  shows "\<exists>r s b x. pbqp_solver_solve grants k (Some handle) (Some p) (Some sol) = Some r \<and> sr_status r = PBQP_OK \<and> sr_solution r = Some s \<and>
    pbqp_bruteforce (Some oracle_grants) (Some p) (Some sol) = (PBQP_OK, Some b) \<and> so_optimum s = so_optimum b \<and>
    so_assignment b = Some x \<and> valid_assignment p x \<and> so_optimum b = pbqp_evaluate p x \<and>
    (\<forall>y. valid_assignment p y \<longrightarrow> so_optimum b \<le> pbqp_evaluate p y)"
proof -
  obtain c x where b: "pbqp_bruteforce (Some oracle_grants) (Some p) (Some sol) = (PBQP_OK, Some (sol\<lparr>so_optimum := c, so_assignment := Some x\<rparr>))"
    "valid_assignment p x" "c = pbqp_evaluate p x" "\<And>y. valid_assignment p y \<Longrightarrow> c \<le> pbqp_evaluate p y"
    by (rule bruteforce_form[of p sol oracle_grants, OF assms(1,2,6,3,9)]; rule that; assumption)
  have len: "\<exists>y. so_assignment sol = Some y \<and> pb_node_count p \<le> so_assignment_capacity sol \<and> pb_node_count p \<le> length y"
    using assms(6) by (auto simp: solution_fits_def)
  then obtain y where y: "so_assignment sol = Some y" "pb_node_count p \<le> so_assignment_capacity sol" "pb_node_count p \<le> length y" by blast
  let ?sv = "handle_solver handle grants"
  have sv: "sv_api ?sv = pbqp_make_software_kernel" "sv_config ?sv = so_config handle" "granting ?sv"
    using assms(7,8) by (simp_all add: handle_solver_def granting_def)
  have st: "ss_problem (start_state k p) = p" by (simp add: start_state_def)
  have l: "pb_node_count p \<le> length (snd (so_optimum sol, y))" using y(3) by simp
  obtain c' x' st' where run: "solve_strategy ?sv (so_optimum sol, y) (start_state k p) = Some (PBQP_OK, (c', x'), st')"
    using sw.strategy_total[OF assms(1,2) l assms(4,5) sv(3) st sv(1)] assms(10,11) sv(2) by auto
  have "optimal p (fst (c', x')) (snd (c', x'))"
    by (rule sw.strategy_exact[OF assms(1,2) l st sv(1) _ run]) (use assms(10) sv(2) in \<open>auto simp: exact_strategy_def\<close>)
  then have opt: "optimal p c' x'" by simp
  have "valid_assignment p x'" "c' = pbqp_evaluate p x'" using achieves_evaluate[OF assms(1,2)] opt by (auto simp: optimal_def)
  then have "c' = c" using b(2-4) optimal_evaluate[OF assms(1,2) opt, of x] by force
  moreover have "cf_strategy (so_config handle) \<noteq> PBQP_STRATEGY_HEURISTIC_RN_LOCAL_SEARCH" using assms(10) by auto
  ultimately show ?thesis using solver_solve_form[OF y(1,2), of handle grants k] run b by simp
qed

theorem exact_solve_equals_bruteforce_witness:
  "\<exists>r s b. pbqp_solver_solve (\<lambda>_. True) () (Some (example_handle PBQP_STRATEGY_EXACT_BRANCH_REDUCE)) (Some example_problem) (Some example_solution) = Some r \<and>
     sr_solution r = Some s \<and> pbqp_bruteforce (Some (\<lambda>_. True)) (Some example_problem) (Some example_solution) = (PBQP_OK, Some b) \<and>
     so_optimum s = so_optimum b"
proof -
  have "0 < pb_node_count example_problem" by code_simp
  with exact_solve_equals_bruteforce[OF example_ok(1,2) _ example_ok(3-5), of "example_handle PBQP_STRATEGY_EXACT_BRANCH_REDUCE"
      "\<lambda>_. True" "\<lambda>_. True" "()"]
  show ?thesis by (fastforce simp: example_handle_def pbqp_solver_default_config_def)
qed

end
