(* ===== verification/Kernel_Staging.thy ===== *)
theory Kernel_Staging
  imports Model_Kernel
begin

text \<open>
  The staging area of the hosted kernel: blocks are fresh, copies hold the values of the views, and
  what was staged stays as it is. Regions are sets of guest addresses; \<open>held region f a xs\<close> says that the
  byte map \<open>f\<close> holds the costs \<open>xs\<close> at address \<open>a\<close>, inside \<open>region\<close>.
\<close>

section \<open>Costs in memory\<close>

definition held :: "nat set \<Rightarrow> (nat \<Rightarrow> byte) \<Rightarrow> u64 \<Rightarrow> int list \<Rightarrow> bool" where
  "held region f a xs \<longleftrightarrow> 4 * length xs < 2 ^ 64 \<and> {unat a..<unat a + 4 * length xs} \<subseteq> region \<and>
     (\<forall>i < length xs. cost_at f (unat a + 4 * i) = xs ! i)"

lemma heldD: "held region f a xs \<Longrightarrow> i < length xs \<Longrightarrow> cost_at f (unat a + 4 * i) = xs ! i"
  by (simp add: held_def)

lemma held_length: "held region f a xs \<Longrightarrow> unat (of_nat (length xs) :: u64) = length xs"
  by (simp add: held_def unat_of_nat take_bit_nat_eq_self)

lemma held_agree:
  assumes "held region f a xs" and "\<And>x. x \<in> region \<Longrightarrow> g x = f x" and "region \<subseteq> region'"
  shows "held region' g a xs"
proof -
  have "cost_at g (unat a + 4 * i) = cost_at f (unat a + 4 * i)" if "i < length xs" for i
    using assms(1,2) that by (intro cost_at_cong) (auto simp: held_def subset_iff)
  with assms(1,3) show ?thesis by (auto simp: held_def)
qed

lemma sint_i32: "valid_cost v \<Longrightarrow> sint (word_of_int v :: u32) = v"
  by (simp add: valid_cost_def cost_consts signed_of_int signed_take_bit_int_eq_self)

lemma cost_at_bytes: "load_bytes f a 4 = i32_bytes v \<Longrightarrow> valid_cost v \<Longrightarrow> cost_at f a = v"
  by (simp add: cost_at_def i32_bytes_def sint_i32)

lemma length_i32 [simp]: "length (i32_bytes v) = 4"
  by (simp add: i32_bytes_def)

section \<open>Allocation\<close>

abbreviation next_at :: "guest_memory_state \<Rightarrow> nat" where
  "next_at m \<equiv> unat (gm_next_address m)"

lemma round_up_wraps:
  assumes "2 ^ 64 < unat (n::u64) + 8"
  shows "(n + 8 - 1) div 8 * 8 = 0"
proof -
  have "unat (n + 7) = (unat n + 7) mod 2 ^ 64" by (simp only: unat_word_ariths) simp
  also have "\<dots> = unat n + 7 - 2 ^ 64" using assms u64_less[of n] by (subst mod_if) auto
  finally have "unat (n + 7) < 8" using u64_less[of n] by simp
  then have "unat ((n + 7) div 8) = 0" by (simp add: unat_div)
  then have "(n + 7) div 8 = 0" by (simp only: unat_eq_0)
  then show ?thesis by (simp add: add.commute)
qed

lemma allocate_block:
  assumes "gm_allocate grow m sz kAllocationAlignment = (a, m')" and "a \<noteq> 0"
  shows "next_at m \<le> unat a" and "next_at m' = unat a + unat sz" and "{unat a..<unat a + unat sz} \<subseteq> gm_mapped m'"
    and "gm_mapped m \<subseteq> gm_mapped m'" and "gm_byte m' = gm_byte m"
proof -
  define aligned where "aligned = (gm_next_address m + 8 - 1) div 8 * 8"
  have a: "a = aligned" using assms unfolding gm_allocate_def aligned_def[symmetric] Let_def by (auto split: if_splits)
  with assms(2) have "next_at m + unat (8::u64) \<le> 2 ^ 64" using round_up_wraps[of "gm_next_address m"]
    by (force simp: aligned_def)
  then show "next_at m \<le> unat a" unfolding a aligned_def
    using round_up_word[of 8 "gm_next_address m"] round_up_bounds(1)[of 8 "next_at m"] by simp
  have "unat (aligned + sz) = unat aligned + unat sz" if "\<not> aligned > 18446744073709551615 - sz"
    using that u64_less[of aligned] u64_less[of sz]
    by (intro u64_add_exact) (simp add: word_less_nat_alt u64_max_minus not_less)
  then show "next_at m' = unat a + unat sz" "{unat a..<unat a + unat sz} \<subseteq> gm_mapped m'"
    "gm_mapped m \<subseteq> gm_mapped m'" "gm_byte m' = gm_byte m"
    using assms unfolding gm_allocate_def aligned_def[symmetric] Let_def
    by (auto simp: gm_mapped_def gm_byte_def nth_append fun_eq_iff split: if_splits)
qed

lemma bytes_of_costs: "4 * n < 2 ^ 64 \<Longrightarrow> unat (of_nat n * 4 :: u64) = 4 * n"
  by (subst u64_mult_exact) (simp_all add: unat_of_nat take_bit_nat_eq_self)

section \<open>Copies\<close>

definition store_costs :: "(u64 \<times> int) list \<Rightarrow> (nat \<Rightarrow> byte) \<Rightarrow> nat \<Rightarrow> byte" where
  "store_costs = fold (\<lambda>(a, v) f. store_bytes f (unat a) (i32_bytes v))"

lemma write_costs_spec:
  assumes "write_costs ws m = (True, m')"
  shows "gm_byte m' = store_costs ws (gm_byte m)" and "gm_mapped m' = gm_mapped m" and "gm_next_address m' = gm_next_address m"
  using assms
proof (induction ws m rule: write_costs.induct)
  case (2 a v ws m)
  {
    case 1
    then have c: "gm_contains m a (length (i32_bytes v))" and r: "write_costs ws (snd (gm_write m a (i32_bytes v))) = (True, m')"
      by (auto simp: gm_write_def split: if_splits)
    show ?case using 2 c r gm_write_bytes[OF c] by (simp add: gm_write_def store_costs_def)
  next
    case 2
    then have c: "gm_contains m a (length (i32_bytes v))" and r: "write_costs ws (snd (gm_write m a (i32_bytes v))) = (True, m')"
      by (auto simp: gm_write_def split: if_splits)
    show ?case using "2.IH"(2) c r gm_write_bytes[OF c] by (simp add: gm_write_def)
  next
    case 3
    then have c: "gm_contains m a (length (i32_bytes v))" and r: "write_costs ws (snd (gm_write m a (i32_bytes v))) = (True, m')"
      by (auto simp: gm_write_def split: if_splits)
    show ?case using "2.IH"(3) c r by (simp add: gm_write_def)
  }
qed (simp_all add: store_costs_def)

lemma store_costs_block:
  fixes f :: "nat \<Rightarrow> byte" and xs :: "nat \<Rightarrow> int"
  assumes "unat a + 4 * n < 2 ^ 64" and "\<And>i. i < n \<Longrightarrow> valid_cost (xs i)"
  defines "g \<equiv> store_costs (map (\<lambda>i. (a + of_nat i * 4, xs i)) [0..<n]) f"
  shows "(\<forall>x. x \<notin> {unat a..<unat a + 4 * n} \<longrightarrow> g x = f x) \<and> (\<forall>i < n. cost_at g (unat a + 4 * i) = xs i)"
  using assms(1,2) unfolding g_def
proof (induction n)
  case (Suc n)
  let ?g = "store_costs (map (\<lambda>i. (a + of_nat i * 4, xs i)) [0..<n]) f"
  have ad: "unat (a + of_nat n * 4) = unat a + 4 * n"
  proof -
    have "unat (of_nat n * 4 :: u64) = 4 * n" using Suc.prems(1) by (intro bytes_of_costs) simp
    then show ?thesis using Suc.prems(1) by (subst u64_add_exact) simp_all
  qed
  have g: "store_costs (map (\<lambda>i. (a + of_nat i * 4, xs i)) [0..<Suc n]) f = store_bytes ?g (unat a + 4 * n) (i32_bytes (xs n))"
    using ad by (simp add: store_costs_def)
  have new: "cost_at (store_bytes ?g (unat a + 4 * n) (i32_bytes (xs n))) (unat a + 4 * n) = xs n"
    using load_store_same[of ?g "unat a + 4 * n" "i32_bytes (xs n)"] Suc.prems(2) by (intro cost_at_bytes) simp_all
  have old: "cost_at (store_bytes ?g (unat a + 4 * n) (i32_bytes (xs n))) (unat a + 4 * i) = xs i" if "i < n" for i
    using Suc that by (subst cost_at_cong[where g = ?g]) (auto simp: store_bytes_def)
  show ?case unfolding g using Suc new old by (auto simp: less_Suc_eq) (auto simp: store_bytes_def)
qed (simp add: store_costs_def)

lemma written_block:
  assumes "gm_allocate grow m sz kAllocationAlignment = (a, m1)" and "a \<noteq> 0" and "unat sz = 4 * n"
    and "write_costs (map (\<lambda>i. (a + of_nat i * 4, xs i)) [0..<n]) m1 = (True, m')" and "\<And>i. i < n \<Longrightarrow> valid_cost (xs i)"
  shows "held {next_at m..<next_at m'} (gm_byte m') a (map xs [0..<n])" and "next_at m \<le> next_at m'"
    and "\<And>x. x < next_at m \<Longrightarrow> gm_byte m' x = gm_byte m x"
proof -
  note b = allocate_block[OF assms(1,2)] and w = write_costs_spec[OF assms(4)]
  have lt: "unat a + 4 * n < 2 ^ 64" using b(2) assms(3) u64_less[of "gm_next_address m1"] by simp
  show "next_at m \<le> next_at m'" using b(1,2) w(3) by simp
  show "gm_byte m' x = gm_byte m x" if "x < next_at m" for x
    using store_costs_block[OF lt assms(5), where f = "gm_byte m1"] that b w by simp
  show "held {next_at m..<next_at m'} (gm_byte m') a (map xs [0..<n])"
    unfolding held_def using store_costs_block[OF lt assms(5), where f = "gm_byte m1"] lt b w assms(3) by (auto simp: b(5))
qed

section \<open>The state while a batch is staged\<close>

definition view_list :: "pbqp_vector_view \<Rightarrow> int list" where
  "view_list v = map (view_at v) [0..<kv_length v]"

definition matrix_list :: "pbqp_matrix_view \<Rightarrow> int list" where
  "matrix_list m = map (\<lambda>j. matrix_at m (j div km_columns m) (j mod km_columns m)) [0..<km_rows m * km_columns m]"

lemma view_list_simps [simp]:
  "length (view_list v) = kv_length v" "i < kv_length v \<Longrightarrow> view_list v ! i = view_at v i"
  "length (matrix_list m) = km_rows m * km_columns m"
  by (simp_all add: view_list_def matrix_list_def)

lemma matrix_index: "r < km_rows m \<Longrightarrow> c < km_columns m \<Longrightarrow> r * km_columns m + c < km_rows m * km_columns m"
  by (metis add.commute mult_Suc less_le_trans nat_add_left_cancel_less mult_le_mono1 Suc_leI)

lemma matrix_list_nth: "r < km_rows m \<Longrightarrow> c < km_columns m \<Longrightarrow> matrix_list m ! (r * km_columns m + c) = matrix_at m r c"
  using matrix_index[of r m c] by (simp add: matrix_list_def)

text \<open>
  Results are written to the blocks \<open>written\<close>, and a score vector to \<open>scores\<close>; the other staged bytes are
  frozen. \<open>content\<close> gives the values behind a key of the view cache; the key of the score vector is
  exempt, since its copy changes while the batch runs.
\<close>

definition frozen :: "nat set \<Rightarrow> nat set \<Rightarrow> model_kernel \<Rightarrow> nat set" where
  "frozen scores written k = {..<next_at (mk_memory k)} - scores - written"

definition staging_ok ::
  "(view_key \<Rightarrow> int list) \<Rightarrow> view_key option \<Rightarrow> nat set \<Rightarrow> nat set \<Rightarrow> model_kernel \<Rightarrow> bool" where
  "staging_ok content exempt scores written k \<longleftrightarrow>
     scores \<union> written \<subseteq> {..<next_at (mk_memory k)} \<and> scores \<inter> written = {} \<and>
     (\<forall>key a. mk_view_cache k key = Some a \<longrightarrow> Some key \<noteq> exempt \<longrightarrow>
        held (frozen scores written k) (gm_byte (mk_memory k)) a (content key))"

definition extends :: "model_kernel \<Rightarrow> model_kernel \<Rightarrow> bool" where
  "extends k k' \<longleftrightarrow> next_at (mk_memory k) \<le> next_at (mk_memory k') \<and>
     (\<forall>x < next_at (mk_memory k). gm_byte (mk_memory k') x = gm_byte (mk_memory k) x) \<and>
     mk_view_cache k \<subseteq>\<^sub>m mk_view_cache k'"

lemma extends_refl: "extends k k"
  by (simp add: extends_def)

lemma extends_trans: "extends k k' \<Longrightarrow> extends k' k'' \<Longrightarrow> extends k k''"
  by (auto simp: extends_def intro: map_le_trans)

lemma memory_set [simp]:
  "mk_memory (set_memory m k) = m" "mk_memory (k\<lparr>mk_view_cache := c\<rparr>) = mk_memory k"
  "mk_memory (k\<lparr>mk_staging_status := st\<rparr>) = mk_memory k" "mk_view_cache (set_memory m k) = mk_view_cache k"
  "mk_memory (k\<lparr>mk_cycles := cy\<rparr>) = mk_memory k"
  by (simp_all add: mk_memory_def set_memory_def)

lemma held_extends:
  assumes "staging_ok content exempt scores written k" and "extends k k'"
    and "written' \<inter> {..<next_at (mk_memory k)} \<subseteq> written" and "held (frozen scores written k) (gm_byte (mk_memory k)) a xs"
  shows "held (frozen scores written' k') (gm_byte (mk_memory k')) a xs"
  by (rule held_agree[OF assms(4)]) (use assms(2,3) in \<open>auto simp: extends_def frozen_def\<close>)

lemma held_fresh:
  assumes "staging_ok content exempt scores written k" and "held {next_at (mk_memory k)..<next_at (mk_memory k')} f a xs"
  shows "held (frozen scores written k') f a xs"
  by (rule held_agree[OF assms(2)]) (use assms(1) in \<open>auto simp: staging_ok_def frozen_def\<close>)

lemma staging_grow:
  assumes "staging_ok content exempt scores written k" and "extends k k'"
    and "\<And>key a. mk_view_cache k' key = Some a \<Longrightarrow> mk_view_cache k key = None \<Longrightarrow>
      held (frozen scores written' k') (gm_byte (mk_memory k')) a (content key)"
    and "written' \<inter> {..<next_at (mk_memory k)} = written" and "written' \<subseteq> {..<next_at (mk_memory k')}"
  shows "staging_ok content exempt scores written' k'"
proof -
  have "held (frozen scores written' k') (gm_byte (mk_memory k')) a (content key)"
    if "mk_view_cache k' key = Some a" "Some key \<noteq> exempt" for key a
  proof (cases "mk_view_cache k key")
    case None
    then show ?thesis using assms(3) that by simp
  next
    case (Some b)
    then have "b = a" using assms(2) that by (metis extends_def map_le_def domI option.inject)
    with Some assms(1) that have "held (frozen scores written k) (gm_byte (mk_memory k)) a (content key)"
      by (metis staging_ok_def)
    from held_extends[OF assms(1,2) _ this, of written'] assms(4) show ?thesis by auto
  qed
  moreover have "scores \<inter> written' = {}" using assms(1,4) by (auto simp: staging_ok_def)
  moreover have "scores \<subseteq> {..<next_at (mk_memory k')}" using assms(1,2) by (auto simp: staging_ok_def extends_def)
  ultimately show ?thesis using assms(5) by (simp add: staging_ok_def)
qed

lemma allocate_storage_ok:
  assumes "staging_ok content exempt scores written k" and "allocate_storage env bytes k = (a, k')" and "a \<noteq> 0"
  defines "region \<equiv> {unat a..<unat a + unat bytes}"
  shows "staging_ok content exempt scores (written \<union> region) k'" and "extends k k'"
    and "region \<inter> {..<next_at (mk_memory k)} = {}"
proof -
  obtain m' where al: "gm_allocate (ke_grow env) (mk_memory k) bytes kAllocationAlignment = (a, m')"
    and k': "mk_memory k' = m'" "mk_view_cache k' = mk_view_cache k"
    using assms(2) by (auto simp: allocate_storage_def split: prod.splits)
  note b = allocate_block[OF al assms(3)]
  show ex: "extends k k'" using b k' by (simp add: extends_def)
  show dis: "region \<inter> {..<next_at (mk_memory k)} = {}" using b(1) by (auto simp: region_def)
  show "staging_ok content exempt scores (written \<union> region) k'"
    by (rule staging_grow[OF assms(1) ex]) (use dis b k' assms(1) in \<open>auto simp: region_def staging_ok_def\<close>)
qed

lemma copy_view_ok:
  assumes ok: "staging_ok content exempt scores written k" and c: "copy_view env base v k = (a, k')" and a: "a \<noteq> 0"
    and ct: "content (view_key base v) = view_list v" and "Some (view_key base v) \<noteq> exempt"
    and vc: "\<And>i. i < kv_length v \<Longrightarrow> valid_cost (view_at v i)"
  shows "staging_ok content exempt scores written k'" and "extends k k'"
    and "held (frozen scores written k') (gm_byte (mk_memory k')) a (view_list v)"
proof -
  let ?key = "view_key base v"
  have "staging_ok content exempt scores written k' \<and> extends k k' \<and>
    held (frozen scores written k') (gm_byte (mk_memory k')) a (view_list v)"
  proof (cases "mk_view_cache k ?key")
    case (Some b)
    then have "b = a" "k' = k" using c by (simp_all add: copy_view_def)
    with Some assms(5) ok ct show ?thesis by (metis staging_ok_def extends_refl)
  next
    case None
    then obtain k1 m where len: "kv_length v \<le> 18446744073709551615 div 4"
      and al: "allocate_storage env (of_nat (kv_length v) * 4) k = (a, k1)"
      and w: "write_costs (map (\<lambda>i. (a + of_nat i * 4, view_at v i)) [0..<kv_length v]) (mk_memory k1) = (True, m)"
      and k': "k' = (set_memory m k1)\<lparr>mk_view_cache := (mk_view_cache k1)(?key \<mapsto> a)\<rparr>"
      using c a by (auto simp: copy_view_def Let_def split: if_splits prod.splits)
    obtain m1 where ga: "gm_allocate (ke_grow env) (mk_memory k) (of_nat (kv_length v) * 4) kAllocationAlignment = (a, m1)"
      and k1: "mk_memory k1 = m1" "mk_view_cache k1 = mk_view_cache k"
      using al by (auto simp: allocate_storage_def split: prod.splits)
    have sz: "unat (of_nat (kv_length v) * 4 :: u64) = 4 * kv_length v"
      using len by (intro bytes_of_costs) simp
    note h = written_block[OF ga a sz w[unfolded k1] vc]
    have ex: "extends k k'" using h(2,3) None by (auto simp: extends_def k' k1 map_le_def dom_def)
    have new: "held (frozen scores written k') (gm_byte (mk_memory k')) a (view_list v)"
      using held_fresh[OF ok, of k'] h(1) by (simp add: k' view_list_def)
    have "staging_ok content exempt scores written k'"
      by (rule staging_grow[OF ok ex]) (use new ct ok ex None in \<open>auto simp: k' k1 staging_ok_def extends_def split: if_splits\<close>)
    with ex new show ?thesis by simp
  qed
  then show "staging_ok content exempt scores written k'" "extends k k'"
    "held (frozen scores written k') (gm_byte (mk_memory k')) a (view_list v)" by simp_all
qed

lemma product_upt: "List.product [0..<r] [0..<c] = map (\<lambda>j. (j div c, j mod c)) [0..<r * c]"
proof (cases "c = 0")
  case False
  then show ?thesis
    by (intro nth_equalityI) (auto simp: product_nth less_mult_imp_div_less)
qed (simp add: product_concat_map)

lemma matrix_fits:
  assumes "r \<le> 65535" and "c \<le> 65535"
  shows "4 * (r * c) < (2 ^ 64 :: nat)"
proof -
  have "4 * (r * c) \<le> 4 * (65535 * 65535)" using assms by (intro mult_le_mono) simp_all
  then show ?thesis by (rule le_less_trans) simp
qed

lemma copy_matrix_ok:
  assumes ok: "staging_ok content exempt scores written k" and c: "copy_matrix env mat k = (a, k')" and a: "a \<noteq> 0"
    and fit: "4 * (km_rows mat * km_columns mat) < 2 ^ 64"
    and vc: "\<And>r c. r < km_rows mat \<Longrightarrow> c < km_columns mat \<Longrightarrow> valid_cost (matrix_at mat r c)"
  shows "staging_ok content exempt scores written k'" and "extends k k'"
    and "held (frozen scores written k') (gm_byte (mk_memory k')) a (matrix_list mat)"
proof -
  let ?n = "km_rows mat * km_columns mat" and ?x = "\<lambda>j. matrix_at mat (j div km_columns mat) (j mod km_columns mat)"
  have ws: "map (\<lambda>(row, column). (a + (of_nat row * of_nat (km_columns mat) + of_nat column) * 4, matrix_at mat row column))
      (List.product [0..<km_rows mat] [0..<km_columns mat]) = map (\<lambda>j. (a + of_nat j * 4, ?x j)) [0..<?n]"
    by (simp add: product_upt flip: of_nat_mult of_nat_add)
  obtain k1 m where al: "allocate_storage env (of_nat (km_rows mat) * of_nat (km_columns mat) * 4) k = (a, k1)"
    and w: "write_costs (map (\<lambda>j. (a + of_nat j * 4, ?x j)) [0..<?n]) (mk_memory k1) = (True, m)"
    and k': "k' = set_memory m k1"
    using c a by (auto simp: copy_matrix_def ws simp del: distrib_right_numeral split: if_splits prod.splits)
  obtain m1 where ga: "gm_allocate (ke_grow env) (mk_memory k) (of_nat ?n * 4) kAllocationAlignment = (a, m1)"
    and k1: "mk_memory k1 = m1" "mk_view_cache k1 = mk_view_cache k"
    using al by (auto simp: allocate_storage_def split: prod.splits)
  have sz: "unat (of_nat ?n * 4 :: u64) = 4 * ?n"
    using fit by (rule bytes_of_costs)
  have vj: "valid_cost (?x j)" if "j < ?n" for j
  proof -
    have "0 < km_columns mat" using that by (cases "km_columns mat") auto
    then show ?thesis using that by (intro vc) (simp_all add: less_mult_imp_div_less)
  qed
  note h = written_block[OF ga a sz w[unfolded k1] vj]
  show ex: "extends k k'" using h(2,3) by (simp add: extends_def k' k1)
  show "held (frozen scores written k') (gm_byte (mk_memory k')) a (matrix_list mat)"
    using held_fresh[OF ok, of k'] h(1) by (simp add: k' matrix_list_def)
  show "staging_ok content exempt scores written k'"
    by (rule staging_grow[OF ok ex]) (use ok ex in \<open>auto simp: k' k1 staging_ok_def extends_def\<close>)
qed

end
