(* ===== verification/Kernel_Run.thy ===== *)
theory Kernel_Run
  imports Kernel_Staging
begin

text \<open>
  What the device does to the byte map when the hosted kernel submits a batch and the wait succeeds: the
  commands run one after the other, each on the bytes its predecessors left.
\<close>

definition computes :: "nat set \<Rightarrow> pcaa_command \<Rightarrow> (nat \<Rightarrow> byte) \<Rightarrow> (nat \<Rightarrow> byte) \<Rightarrow> bool" where
  "computes mp c f g \<longleftrightarrow> succeeds f mp c \<and>
     (\<forall>out < output_count c. load_bytes g (output_at c out) (output_width c) = element_bytes c (the (element_value f mp c out))) \<and>
     (\<forall>x. x \<notin> output_bytes c \<longrightarrow> g x = f x)"

fun run_maps :: "nat set \<Rightarrow> pcaa_command list \<Rightarrow> (nat \<Rightarrow> byte) \<Rightarrow> (nat \<Rightarrow> byte) \<Rightarrow> bool" where
  "run_maps mp [] f h \<longleftrightarrow> h = f"
| "run_maps mp (c # cs) f h \<longleftrightarrow> (\<exists>g. computes mp c f g \<and> run_maps mp cs g h)"

lemma run_maps_append: "run_maps mp (cs @ ds) f h \<longleftrightarrow> (\<exists>g. run_maps mp cs f g \<and> run_maps mp ds g h)"
  by (induction cs arbitrary: f) auto

context guest_memory
begin

lemma run_children_maps:
  assumes "\<And>c. c \<in> set (map canonical_command cs) \<Longrightarrow> \<exists>r. valid_command (Some c) = Inr r"
    and "run_children mi timing p (map canonical_command cs) a = (length cs, a')"
  shows "run_maps (mapped (ac_memory a)) cs (byte_at (ac_memory a)) (byte_at (ac_memory a'))"
  using assms
proof (induction cs arbitrary: a)
  case (Cons c cs)
  obtain r where v: "valid_command (Some (canonical_command c)) = Inr r" using Cons.prems(1)[of "canonical_command c"] by auto
  obtain a1 where nb: "\<not> is_batch (canonical_command c)" and x: "execute_command mi timing (canonical_command c) a = (True, a1)"
    and rest: "run_children mi timing p (map canonical_command cs) a1 = (length cs, a')"
    using Cons.prems(2) by (auto split: if_splits prod.splits)
  note spec = primitive_spec[OF v nb execute_command_frame(3)[OF x], unfolded canonical_simps canonical_element
      canonical_succeeds element_value_canonical]
  have "computes (mapped (ac_memory a)) c (byte_at (ac_memory a)) (byte_at (ac_memory a1))"
    using spec by (simp add: computes_def)
  moreover have "run_maps (mapped (ac_memory a1)) cs (byte_at (ac_memory a1)) (byte_at (ac_memory a'))"
    by (rule Cons.IH[OF _ rest]) (use Cons.prems(1) in auto)
  ultimately show ?case using spec(1) by auto
qed simp

end

lemma ring_busy:
  assumes "ac_status a = ACCEL_STATUS_BUSY"
  shows "\<not> fst (sc_ring (accelerator_target mi timing z al) a x)"
  using assms by (simp add: sc_ring_def sc_mmio_write_def sc_transport_def accelerator_target_def b_transport_def mmio_access_def
      is_valid_mmio_transaction_def write_register_def)

lemma staged_not_busy:
  assumes "sc_stage_batch (accelerator_target mi timing z al) bs n child result parent d = (PCAA_STATUS_OK, d')"
  shows "ac_status (sd_world d) \<noteq> ACCEL_STATUS_BUSY"
proof
  assume busy: "ac_status (sd_world d) = ACCEL_STATUS_BUSY"
  have "sc_ring (accelerator_target mi timing z al) ((sd_world d)\<lparr>ac_memory := m\<rparr>) parent \<noteq> (True, w)" for m w
    using ring_busy[of "(sd_world d)\<lparr>ac_memory := m\<rparr>" mi timing z al parent] busy by auto
  with assms show False
    by (auto simp: sc_stage_batch_def split: if_splits prod.splits)
qed

lemma submit_accepted:
  assumes "pcaa_device_submit_batch (Some (model_device env)) d (Some cs) = (PCAA_STATUS_OK, d1)"
  obtains bytes child result parent m1 m2 m3 where "\<not> sd_pending d" and "stream_size_core (Some cs) = Inr bytes"
    and "device_allocate env (ac_memory (sd_world d)) bytes = (child, m1)" and "device_allocate env m1 8 = (result, m2)"
    and "device_allocate env m2 32 = (parent, m3)" and "child \<noteq> 0" and "result \<noteq> 0" and "parent \<noteq> 0"
    and "sc_stage_batch (accelerator_target gm_interface (ke_timing env) (ke_zero_time env) (device_allocate env))
      (concat (the (wires cs))) (length cs) child result parent (d\<lparr>sd_world := (sd_world d)\<lparr>ac_memory := m3\<rparr>\<rparr>) = (PCAA_STATUS_OK, d1)"
proof -
  obtain bytes where size: "stream_size_core (Some cs) = Inr bytes"
    using assms by (auto simp: pcaa_device_submit_batch_def model_device_def systemc_callbacks_def sc_submit_batch_def
        pcaa_encoded_stream_size_def c_call_def stream_size_not_ok split: if_splits sum.splits)
  then have enc: "pcaa_encode_stream (Some cs) (Some (replicate bytes 0)) bytes (Some 0) =
      (PCAA_STATUS_OK, Some (concat (the (wires cs))), Some bytes)"
    by (simp add: encode_stream_eq)
  show thesis
    using assms size enc
    by (auto simp: pcaa_device_submit_batch_def model_device_def systemc_callbacks_def sc_submit_batch_def
        pcaa_encoded_stream_size_def c_call_def split: if_splits prod.splits intro: that)
qed

lemma device_blocks:
  assumes "device_allocate env m bytes = (child, m1)" and "device_allocate env m1 8 = (result, m2)"
    and "device_allocate env m2 32 = (parent, m3)" and "child \<noteq> 0" "result \<noteq> 0" "parent \<noteq> 0" and "bytes < 2 ^ 64"
  shows "block (gm_mapped m3) child bytes" and "block (gm_mapped m3) result 8" and "block (gm_mapped m3) parent 32"
    and "next_at m \<le> unat child" and "unat child + bytes \<le> unat result" and "unat result + 8 \<le> unat parent"
    and "gm_byte m3 = gm_byte m"
proof -
  have u: "unat (of_nat bytes :: u64) = bytes" using assms(7) by (simp add: unat_of_nat take_bit_nat_eq_self)
  note b1 = allocate_block[OF assms(1)[unfolded device_allocate_def] assms(4), unfolded u]
    and b2 = allocate_block[OF assms(2)[unfolded device_allocate_def] assms(5)]
    and b3 = allocate_block[OF assms(3)[unfolded device_allocate_def] assms(6)]
  show "block (gm_mapped m3) child bytes" "block (gm_mapped m3) result 8" "block (gm_mapped m3) parent 32"
    using b1 b2 b3 assms(4-6) u64_less[of "gm_next_address m1"] u64_less[of "gm_next_address m2"] u64_less[of "gm_next_address m3"]
    by (auto simp: block_def subset_iff)
  show "next_at m \<le> unat child" "unat child + bytes \<le> unat result" "unat result + 8 \<le> unat parent" "gm_byte m3 = gm_byte m"
    using b1 b2 b3 by simp_all
qed

lemma submitted_batch_runs:
  assumes "mk_submit_batch env cs k s = (PCAA_STATUS_OK, k', s')"
  obtains mp f h where "\<forall>x < next_at (mk_memory k). f x = gm_byte (mk_memory k) x" and "run_maps mp cs f h"
    and "\<forall>x < next_at (mk_memory k). gm_byte (mk_memory k') x = h x"
proof -
  let ?t = "accelerator_target gm_interface (ke_timing env) (ke_zero_time env) (device_allocate env)" and ?d = "mk_device k"
  obtain d1 d2 cp where sub: "pcaa_device_submit_batch (Some (model_device env)) ?d (Some cs) = (PCAA_STATUS_OK, d1)"
    and wait: "sc_wait ?t d1 (Some reset_completion) = (PCAA_STATUS_OK, d2, cp)" and k': "k' = k\<lparr>mk_device := d2\<rparr>"
    using assms by (auto simp: mk_submit_batch_def pcaa_device_wait_def model_device_def systemc_callbacks_def split: prod.splits if_splits)
  obtain bytes child result parent m1 m2 m3 where size: "stream_size_core (Some cs) = Inr bytes"
    and al: "device_allocate env (ac_memory (sd_world ?d)) bytes = (child, m1)" "device_allocate env m1 8 = (result, m2)"
      "device_allocate env m2 32 = (parent, m3)" "child \<noteq> 0" "result \<noteq> 0" "parent \<noteq> 0"
    and st: "sc_stage_batch ?t (concat (the (wires cs))) (length cs) child result parent
      (?d\<lparr>sd_world := (sd_world ?d)\<lparr>ac_memory := m3\<rparr>\<rparr>) = (PCAA_STATUS_OK, d1)"
    by (rule submit_accepted[OF sub])
  have loop: "stream_size_loop cs 0 = Inr bytes" and n: "length cs \<le> 4294967295" "cs \<noteq> []"
    using size by (auto simp: stream_size_core_def split: if_splits)
  obtain ws where ws: "wires cs = Some ws" and cw: "length (concat (the (wires cs))) = bytes" and b: "bytes \<le> 4294967295"
    using stream_size_loop_wires[OF loop] by auto
  have blk: "block (gm_mapped m3) child bytes" "block (gm_mapped m3) result 8" "block (gm_mapped m3) parent 32"
    and ord: "next_at (mk_memory k) \<le> unat child" "unat child + bytes \<le> unat result" "unat result + 8 \<le> unat parent"
    and same: "gm_byte m3 = gm_byte (mk_memory k)"
    using device_blocks[OF al] b by (simp_all add: mk_memory_def)
  have ap: "apart child bytes result 8" "apart child bytes parent 32" "apart result 8 parent 32"
    using ord by (simp_all add: apart_def)
  let ?a = "(sd_world ?d)\<lparr>ac_memory := m3\<rparr>"
  have idle: "ac_status ?a \<noteq> ACCEL_STATUS_BUSY" using staged_not_busy[OF st] by simp
  obtain m' j a1 a' where run: "gm_mapped m' = gm_mapped m3"
    "\<forall>x. x \<notin> {unat child..<unat child + bytes} \<longrightarrow> x \<notin> {unat result..<unat result + 8} \<longrightarrow>
      x \<notin> {unat parent..<unat parent + 32} \<longrightarrow> gm_byte m' x = gm_byte m3 x"
    "run_children gm_interface (ke_timing env) (protects child (child + of_nat bytes) parent (parent + 32)) (map canonical_command cs)
      (?a\<lparr>ac_memory := m', ac_descriptor_address := parent, ac_status := ACCEL_STATUS_BUSY,
         ac_timing_statistics := charge_batch (ke_timing env) (ac_timing_statistics ?a)\<rparr>) = (j, a1)"
    "j \<le> length cs" "ac_status a' = (if j = length cs then ACCEL_STATUS_DONE else ACCEL_STATUS_ERROR)"
    "gm_mapped (ac_memory a') = gm_mapped m3"
    "load_bytes (gm_byte (ac_memory a')) (unat result) 8 =
      batch_result_bytes (of_nat j) (if j = length cs then 4294967295 else of_nat j)"
    "\<forall>x. x \<notin> {unat result..<unat result + 8} \<longrightarrow> gm_byte (ac_memory a') x = gm_byte (ac_memory a1) x"
    "\<And>d. sd_world d = ?a \<Longrightarrow> sc_stage_batch ?t (concat (the (wires cs))) (length cs)
      child result parent d = (PCAA_STATUS_OK, d\<lparr>sd_world := a', sd_batch_result_address := result,
        sd_pending_batch_count := length cs, sd_pending := True\<rparr>)"
    by (rule gm.batch_form[where cs = cs and a = ?a and m = m3 and timing = "ke_timing env" and z = "ke_zero_time env"
          and al = "device_allocate env", unfolded cw, OF size idle blk ap]; (rule that; assumption)?) simp
  have d1: "d1 = ?d\<lparr>sd_world := a', sd_batch_result_address := result, sd_pending_batch_count := length cs, sd_pending := True\<rparr>"
    using st run(9)[of "?d\<lparr>sd_world := ?a\<rparr>"] by simp
  have "sc_wait ?t d1 (Some reset_completion) = (if j = length cs then PCAA_STATUS_OK else PCAA_STATUS_DEVICE_ERROR, d1\<lparr>sd_pending := False\<rparr>,
      map_option (\<lambda>_. \<lparr>cp_has_batch_result = True, cp_completed = of_nat j,
        cp_failed_index = if j = length cs then 4294967295 else of_nat j\<rparr>) (Some reset_completion))"
    by (rule wait_batch_form[OF gm.guest_memory_axioms]) (use run(4-7) n blk(2) in \<open>simp_all add: d1 block_def\<close>)
  with wait have j: "j = length cs" and d2: "sd_world d2 = a'" by (auto simp: d1 split: if_splits)
  have "run_maps (gm_mapped m') cs (gm_byte m') (gm_byte (ac_memory a1))"
    using gm.run_children_maps[OF wires_valid[OF ws] run(3)[unfolded j]] by simp
  then show thesis
    by (rule that[of "gm_byte m'" "gm_mapped m'", rotated]) (use run(2,8) ord same d2 in \<open>simp_all add: k' mk_memory_def\<close>)
qed

end
