(* ===== verification/Kernel_Calls.thy ===== *)
theory Kernel_Calls
  imports Kernel_Run Pbqp_Kernel_Correct
begin

text \<open>
  The commands of the hosted kernel on staged operands, and the induction over the jobs of a call:
  operands are frozen while the batch runs, results have blocks of their own.
\<close>

section \<open>Results in memory\<close>

lemma get_le_shift: "off + n \<le> k \<Longrightarrow> get_le n (load_bytes f a k) off = get_le n (load_bytes f (a + off) n) 0"
  unfolding get_le_def by (rule fold_cong) (auto simp: add.assoc)

lemma costs_of_load: "costs_of (load_bytes f a (4 * n)) = map (\<lambda>i. cost_at f (a + 4 * i)) [0..<n]"
proof -
  have "get_le 4 (load_bytes f a (4 * n)) (4 * i) = (get_le 4 (load_bytes f (a + 4 * i) 4) 0 :: u32)" if "i < n" for i
    using that by (intro get_le_shift) simp
  then show ?thesis by (simp add: costs_of_def cost_at_def)
qed

lemma costs_of_stored:
  assumes "\<And>i. i < n \<Longrightarrow> load_bytes f (a + 4 * i) 4 = i32_bytes (v i)" and "\<And>i. i < n \<Longrightarrow> valid_cost (v i)"
  shows "costs_of (load_bytes f a (4 * n)) = map v [0..<n]"
  unfolding costs_of_load using cost_at_bytes[OF assms] by simp

lemma argmin_fields:
  assumes "load_bytes f a 8 = min_argmin_bytes v j" and "valid_cost v" and "j < 2 ^ 32"
  shows "sint (get_le 4 (load_bytes f a 4) 0 :: u32) = v" and "unat (get_le 4 (load_bytes f (a + 4) 4) 0 :: u32) = j"
proof -
  have split: "load_bytes f a 8 = load_bytes f a 4 @ load_bytes f (a + 4) 4" using load_bytes_split[of f a 4 4] by simp
  then have "load_bytes f a 4 = i32_bytes v" "load_bytes f (a + 4) 4 = bytes_le 4 (of_nat j :: u32)"
    using assms(1) by (auto simp: min_argmin_bytes_def append_eq_append_conv)
  then show "sint (get_le 4 (load_bytes f a 4) 0 :: u32) = v" "unat (get_le 4 (load_bytes f (a + 4) 4) 0 :: u32) = j"
    using assms(2,3) by (simp_all add: i32_bytes_def sint_i32 unat_of_nat take_bit_nat_eq_self)
qed

lemma argmins_of_stored:
  assumes "\<And>i. i < n \<Longrightarrow> load_bytes f (a + 8 * i) 8 = min_argmin_bytes (fst (r i)) (snd (r i))"
    and "\<And>i. i < n \<Longrightarrow> valid_cost (fst (r i)) \<and> snd (r i) < 2 ^ 32"
  shows "argmins_of (load_bytes f a (8 * n)) = map r [0..<n]"
proof -
  have "get_le 4 (load_bytes f a (8 * n)) (8 * i + d) = (get_le 4 (load_bytes f (a + 8 * i + d) 4) 0 :: u32)"
    if "i < n" "d \<le> 4" for i d using that by (subst get_le_shift) (simp_all add: add.assoc)
  from this[where d = 0] this[where d = 4] show ?thesis
    using argmin_fields[OF assms(1)] assms(2) by (auto simp: argmins_of_def)
qed

lemma load_nth: "load_bytes (nth bs) 0 (length bs) = bs"
  by (rule nth_equalityI) auto

lemma argmins_of_single: "valid_cost (fst r) \<Longrightarrow> snd r < 2 ^ 32 \<Longrightarrow> argmins_of (min_argmin_bytes (fst r) (snd r)) = [r]"
  using argmins_of_stored[where n = 1 and a = 0 and r = "\<lambda>_. r" and f = "nth (min_argmin_bytes (fst r) (snd r))"]
    load_nth[of "min_argmin_bytes (fst r) (snd r)"] by (simp add: min_argmin_bytes_def)

lemma costs_of_single: "valid_cost v \<Longrightarrow> costs_of (i32_bytes v) = [v]"
  using costs_of_stored[where n = 1 and a = 0 and v = "\<lambda>_. v" and f = "nth (i32_bytes v)"] load_nth[of "i32_bytes v"] by simp

section \<open>Elements\<close>

lemma element_first_min:
  assumes "element_value f mp c out \<noteq> None" and "inner_count c = n"
    and "\<And>i. i < n \<Longrightarrow> checked_sum (map (cost_at f) (operand_addrs c out i)) = Some (ys i)"
  shows "element_value f mp c out = Some (first_min (map ys [0..<n]))"
proof -
  have t: "term_value f mp c out i \<noteq> None" if "i < n" for i
    using assms(1,2) that by (auto simp: element_value_def split: if_splits)
  have "the (term_value f mp c out i) = ys i" if "i < n" for i
    using t[OF that] assms(3)[OF that] by (auto simp: term_value_def split: if_splits)
  then show ?thesis using t by (auto simp: element_value_def assms(2) intro!: arg_cong[where f = first_min] map_cong)
qed

lemma built_constructed:
  assumes "built_command (constructed v) = Inr c"
  shows "c = v" and "\<exists>r. valid_command (Some v) = Inr r"
proof -
  obtain w where "constructed v (Some zero_command) = (PCAA_STATUS_OK, w)" and "c = the w"
    using assms by (auto simp: built_command_def split: prod.splits if_splits)
  moreover from this obtain u where "w = Some u" by (auto simp: constructed_def split: if_splits option.splits prod.splits)
  ultimately show "c = v" "\<exists>r. valid_command (Some v) = Inr r" using constructed_ok_iff[of v zero_command u] by auto
qed

lemma accel_add_valid: "valid_cost l \<Longrightarrow> valid_cost r \<Longrightarrow> cost_add l r \<noteq> None \<Longrightarrow> valid_cost (accel_cost_add l r)"
  using cost_add_valid cost_add_defined by blast

lemma first_min_bounds:
  assumes "\<And>i. i < n \<Longrightarrow> valid_cost (f i)" and "0 < n"
  shows "valid_cost (fst (first_min (map f [0..<n])))" and "snd (first_min (map f [0..<n])) < n"
  using first_min_upt[OF assms(2), where f = f] assms(1) by metis+

lemma min2_result:
  assumes "exact2 a b"
  shows "valid_cost (fst (first_min (sum2 a b)))" and "snd (first_min (sum2 a b)) < kv_length a"
  unfolding sum2_def by (rule first_min_bounds; use assms in \<open>simp add: exact2_def accel_add_valid\<close>)+

lemma min3_result:
  assumes "exact3 a b c"
  shows "valid_cost (fst (first_min (sum3 a b c)))" and "snd (first_min (sum3 a b c)) < kv_length a"
  unfolding sum3_def by (rule first_min_bounds; use assms in \<open>simp add: exact3_def accel_add_valid\<close>)+

section \<open>Commands on staged operands\<close>

lemma staged_simps [simp]:
  "vv_base (staged_vector p n) = p" "vv_length (staged_vector p n) = of_nat n" "vv_stride (staged_vector p n) = 1"
  "mv_base (staged_matrix p m) = p" "mv_rows (staged_matrix p m) = of_nat (km_rows m)"
  "mv_columns (staged_matrix p m) = of_nat (km_columns m)" "mv_row_stride (staged_matrix p m) = of_nat (km_columns m)"
  "mv_column_stride (staged_matrix p m) = 1"
  by (simp_all add: staged_vector_def staged_matrix_def pcaa_cost_vector_def pcaa_cost_matrix_def)

lemma output_view_simps [simp]:
  "ov_base (pcaa_cost_output p n t) = p" "ov_length (pcaa_cost_output p n t) = n" "ov_stride (pcaa_cost_output p n t) = t"
  "ov_base (pcaa_argmin_output p n t) = p" "ov_length (pcaa_argmin_output p n t) = n" "ov_stride (pcaa_argmin_output p n t) = t"
  by (simp_all add: pcaa_cost_output_def pcaa_argmin_output_def)

lemma held_at: "held region f p (view_list v) \<Longrightarrow> i < kv_length v \<Longrightarrow> cost_at f (unat p + i * 4) = view_at v i"
  using heldD[of region f p "view_list v" i] by (simp add: mult.commute)

lemma held_view_length: "held region f p (view_list v) \<Longrightarrow> unat (of_nat (kv_length v) :: u64) = kv_length v"
  using held_length[of region f p "view_list v"] by simp

lemma held_matrix_at:
  assumes "held region f p (matrix_list m)" and "r < km_rows m" and "c < km_columns m"
  shows "cost_at f (unat p + (r * km_columns m + c) * 4) = matrix_at m r c"
  using heldD[OF assms(1), of "r * km_columns m + c"] matrix_index[OF assms(2,3)] matrix_list_nth[OF assms(2,3)]
  by (simp add: mult.commute)

lemma computes_element:
  assumes "computes mp c f g" and "out < output_count c" and "inner_count c = n"
    and "\<And>i. i < n \<Longrightarrow> checked_sum (map (cost_at f) (operand_addrs c out i)) = Some (ys i)"
  shows "load_bytes g (output_at c out) (output_width c) = element_bytes c (first_min (map ys [0..<n]))"
proof -
  have "element_value f mp c out \<noteq> None" using assms(1,2) by (auto simp: computes_def succeeds_def)
  from element_first_min[OF this assms(3,4)] show ?thesis using assms(1,2) by (simp add: computes_def)
qed

lemma reduce2_run:
  assumes "computes mp (PCAA_MAP_ADD_REDUCE_MIN_ARGMIN v) f g \<and> w = 8 \<or> computes mp (PCAA_MAP_ADD_REDUCE_MIN v) f g \<and> w = 4"
    and "v = \<lparr>r2_first = staged_vector p (kv_length a), r2_second = staged_vector q (kv_length b), r2_result = r\<rparr>"
    and h: "held region f p (view_list a)" "held region f q (view_list b)" and ex: "exact2 a b"
  shows "load_bytes g (unat r) w = (let m = first_min (sum2 a b) in if w = 8 then min_argmin_bytes (fst m) (snd m) else i32_bytes (fst m))"
    and "x \<notin> {unat r..<unat r + w} \<Longrightarrow> g x = f x"
proof -
  obtain c where c: "computes mp c f g" and cw: "c = PCAA_MAP_ADD_REDUCE_MIN_ARGMIN v \<and> w = 8 \<or> c = PCAA_MAP_ADD_REDUCE_MIN v \<and> w = 4"
    using assms(1) by auto
  have "load_bytes g (output_at c 0) (output_width c) = element_bytes c (first_min (map (\<lambda>i. accel_cost_add (view_at a i) (view_at b i)) [0..<kv_length a]))"
    by (rule computes_element[OF c])
      (use cw h ex in \<open>auto simp: assms(2) output_count_def held_view_length held_at exact2_def cost_add_defined\<close>)
  then show "load_bytes g (unat r) w = (let m = first_min (sum2 a b) in if w = 8 then min_argmin_bytes (fst m) (snd m) else i32_bytes (fst m))"
    using cw by (auto simp: assms(2) sum2_def output_at_def output_width_def element_bytes_def Let_def)
  have "output_bytes c = {unat r..<unat r + w}"
    using cw by (auto simp: assms(2) output_bytes_def) presburger+
  then show "x \<notin> {unat r..<unat r + w} \<Longrightarrow> g x = f x" using c by (simp add: computes_def)
qed

lemma reduce3_run:
  assumes c: "computes mp (PCAA_MAP_ADD3_REDUCE_MIN_ARGMIN v) f g"
    and v: "v = \<lparr>r3_first = staged_vector p (kv_length a), r3_second = staged_vector q (kv_length b),
      r3_third = staged_vector t (kv_length d), r3_result = r\<rparr>"
    and h: "held region f p (view_list a)" "held region f q (view_list b)" "held region f t (view_list d)"
    and ex: "exact3 a b (view_at d)" and "kv_length d = kv_length a"
  shows "load_bytes g (unat r) 8 = min_argmin_bytes (fst (first_min (sum3 a b (view_at d)))) (snd (first_min (sum3 a b (view_at d))))"
    and "x \<notin> {unat r..<unat r + 8} \<Longrightarrow> g x = f x"
proof -
  let ?c = "PCAA_MAP_ADD3_REDUCE_MIN_ARGMIN v"
  have "load_bytes g (output_at ?c 0) (output_width ?c) = element_bytes ?c
      (first_min (map (\<lambda>i. accel_cost_add (accel_cost_add (view_at a i) (view_at b i)) (view_at d i)) [0..<kv_length a]))"
    by (rule computes_element[OF c])
      (use h ex assms(7) in \<open>auto simp: v output_count_def held_view_length held_at exact3_def cost_add_defined\<close>)
  then show "load_bytes g (unat r) 8 = min_argmin_bytes (fst (first_min (sum3 a b (view_at d)))) (snd (first_min (sum3 a b (view_at d))))"
    by (simp add: v sum3_def output_at_def output_width_def element_bytes_def)
  have "output_bytes ?c = {unat r..<unat r + 8}" by (auto simp: v output_bytes_def) presburger
  then show "x \<notin> {unat r..<unat r + 8} \<Longrightarrow> g x = f x" using c by (simp add: computes_def)
qed

lemma strip_bytes: "{unat r + i * w + j | i j. i < n \<and> j < w} = {unat r..<unat r + w * n}"
proof -
  have "\<exists>i j. x = unat r + i * w + j \<and> i < n \<and> j < w" if "unat r \<le> x" "x < unat r + w * n" for x
  proof (intro exI conjI)
    let ?d = "x - unat r"
    have "?d < n * w" using that by (simp add: mult.commute)
    then have w: "0 < w" by (cases w) auto
    show "x = unat r + ?d div w * w + ?d mod w" using that(1) by simp
    show "?d div w < n" using \<open>?d < n * w\<close> by (rule less_mult_imp_div_less)
    show "?d mod w < w" using w by simp
  qed
  moreover have "i * w + j < w * n" if "i < n" "j < w" for i j
    using that mult_le_mono1[of "Suc i" n w] by (simp add: mult.commute)
  ultimately show ?thesis by (auto simp: add.assoc)
qed

text \<open>A vector command with unit strides: one block of results.\<close>

lemma strip_run:
  assumes c: "computes mp c f g" and sh: "output_place c = (unat r, n, 1, w)"
    and w: "w = 4 \<or> w = 8" and i: "inner_count c = d"
    and sums: "\<And>out i. out < n \<Longrightarrow> i < d \<Longrightarrow> checked_sum (map (cost_at f) (operand_addrs c out i)) = Some (ys out i)"
  shows "\<And>out. out < n \<Longrightarrow> load_bytes g (unat r + w * out) w = element_bytes c (first_min (map (ys out) [0..<d]))"
    and "\<And>x. x \<notin> {unat r..<unat r + w * n} \<Longrightarrow> g x = f x"
proof -
  show "load_bytes g (unat r + w * out) w = element_bytes c (first_min (map (ys out) [0..<d]))" if "out < n" for out
    using computes_element[OF c _ i sums[OF that]] that sh
    by (simp add: output_count_def output_at_def output_width_def mult.commute)
  have "output_bytes c = {unat r..<unat r + w * n}"
    using strip_bytes[of r w n] by (simp add: output_bytes_def sh)
  then show "g x = f x" if "x \<notin> {unat r..<unat r + w * n}" for x using c that by (simp add: computes_def)
qed

lemma project_run:
  assumes c: "computes mp (PCAA_MINPLUS_PROJECT v) f g"
    and v: "v = \<lparr>pj_matrix = staged_matrix p m, pj_vector = staged_vector q (kv_length u),
      pj_result = pcaa_cost_output r (of_nat (km_rows m)) 1\<rparr>"
    and h: "held region f p (matrix_list m)" "held region' f q (view_list u)" and n: "unat (of_nat (km_rows m) :: u64) = km_rows m"
    and ex: "\<And>row. row < km_rows m \<Longrightarrow> exact2 (row_view m row) u" and col: "km_columns m = kv_length u"
  shows "\<And>row. row < km_rows m \<Longrightarrow> load_bytes g (unat r + 4 * row) 4 = i32_bytes (project_row m u row)"
    and "\<And>x. x \<notin> {unat r..<unat r + 4 * km_rows m} \<Longrightarrow> g x = f x"
proof -
  let ?c = "PCAA_MINPLUS_PROJECT v"
  have sums: "checked_sum (map (cost_at f) (operand_addrs ?c row i)) = Some (accel_cost_add (matrix_at m row i) (view_at u i))"
    if "row < km_rows m" "i < kv_length u" for row i
    using ex[OF that(1)] that held_matrix_at[OF h(1) that(1), of i] held_at[OF h(2) that(2)] held_view_length[OF h(2)]
    by (simp add: v col exact2_def view_at_row cost_add_defined del: distrib_right_numeral)
  have i: "inner_count ?c = kv_length u" using held_view_length[OF h(2)] by (simp add: v col)
  have sh: "output_place ?c = (unat r, (km_rows m), 1, 4)" using n by (simp add: v)
  note run = strip_run[OF c sh _ i sums]
  show "load_bytes g (unat r + 4 * row) 4 = i32_bytes (project_row m u row)" if "row < km_rows m" for row
    using run(1)[OF _ _ _ that] by (simp add: element_bytes_def output_width_def v project_row_def sum2_def view_at_row row_view_def col) (simp add: view_at_def matrix_at_def)
  show "g x = f x" if "x \<notin> {unat r..<unat r + 4 * km_rows m}" for x using run(2)[OF _ _ _ that] by simp
qed

lemma add_run:
  assumes c: "computes mp (PCAA_COST_ADD_VECTOR v) f g"
    and v: "v = \<lparr>va_first = staged_vector p n, va_second = staged_vector q n, va_result = pcaa_cost_output r (of_nat n) 1\<rparr>"
    and n: "unat (of_nat n :: u64) = n"
    and h: "\<And>i. i < n \<Longrightarrow> cost_at f (unat p + 4 * i) = xs i" "\<And>i. i < n \<Longrightarrow> cost_at f (unat q + 4 * i) = ys i"
    and ex: "\<And>i. i < n \<Longrightarrow> cost_add (xs i) (ys i) \<noteq> None"
  shows "\<And>i. i < n \<Longrightarrow> load_bytes g (unat r + 4 * i) 4 = i32_bytes (accel_cost_add (xs i) (ys i))"
    and "\<And>x. x \<notin> {unat r..<unat r + 4 * n} \<Longrightarrow> g x = f x"
proof -
  let ?c = "PCAA_COST_ADD_VECTOR v"
  have sums: "checked_sum (map (cost_at f) (operand_addrs ?c out i)) = Some (accel_cost_add (xs out) (ys out))"
    if "out < n" "i < 1" for out i
    using h[OF that(1)] ex[OF that(1)] by (simp add: v cost_add_defined mult.commute)
  have sh: "output_place ?c = (unat r, n, 1, 4)" using n by (simp add: v)
  have i: "inner_count ?c = 1" by simp
  note run = strip_run[OF c sh _ i sums]
  show "load_bytes g (unat r + 4 * i) 4 = i32_bytes (accel_cost_add (xs i) (ys i))" if "i < n" for i
    using run(1)[OF _ _ _ that] by (simp add: element_bytes_def output_width_def v first_min_def)
  show "g x = f x" if "x \<notin> {unat r..<unat r + 4 * n}" for x using run(2)[OF _ _ _ that] by simp
qed

lemma map3_run:
  assumes c: "computes mp (PCAA_MINPLUS_MAP3_PROJECT v) f g"
    and v: "v = \<lparr>m3_first = staged_vector p (kv_length a), m3_second = staged_vector q (kv_length b), m3_third = staged_matrix t m,
      m3_result = pcaa_argmin_output r (of_nat (km_rows m)) 1\<rparr>"
    and h: "held region f p (view_list a)" "held region f q (view_list b)" "held region f t (matrix_list m)"
    and n: "unat (of_nat (km_rows m) :: u64) = km_rows m" and ex: "exact_map3 (a, b, m)"
  shows "\<And>row. row < km_rows m \<Longrightarrow> load_bytes g (unat r + 8 * row) 8 =
      min_argmin_bytes (fst (first_min (sum3 a b (matrix_at m row)))) (snd (first_min (sum3 a b (matrix_at m row))))"
    and "\<And>x. x \<notin> {unat r..<unat r + 8 * km_rows m} \<Longrightarrow> g x = f x"
proof -
  let ?c = "PCAA_MINPLUS_MAP3_PROJECT v"
  have len: "km_columns m = kv_length a" "kv_length b = kv_length a" using ex by (simp_all add: exact_map3_def)
  have sums: "checked_sum (map (cost_at f) (operand_addrs ?c row i)) =
      Some (accel_cost_add (accel_cost_add (view_at a i) (view_at b i)) (matrix_at m row i))"
    if "row < km_rows m" "i < kv_length a" for row i
    using ex that held_matrix_at[OF h(3) that(1), of i] held_at[OF h(1) that(2)] held_at[OF h(2), of i] held_view_length[OF h(1)] len
    by (simp add: v exact_map3_def exact3_def cost_add_defined del: distrib_right_numeral)
  have i: "inner_count ?c = kv_length a" using held_view_length[OF h(1)] by (simp add: v len)
  have sh: "output_place ?c = (unat r, (km_rows m), 1, 8)" using n by (simp add: v)
  note run = strip_run[OF c sh _ i sums]
  show "load_bytes g (unat r + 8 * row) 8 =
      min_argmin_bytes (fst (first_min (sum3 a b (matrix_at m row)))) (snd (first_min (sum3 a b (matrix_at m row))))" if "row < km_rows m" for row
    using run(1)[OF _ _ _ that] by (simp add: element_bytes_def output_width_def v sum3_def)
  show "g x = f x" if "x \<notin> {unat r..<unat r + 8 * km_rows m}" for x using run(2)[OF _ _ _ that] by simp
qed

end
