(* ===== verification/Kernel_Jobs.thy ===== *)
theory Kernel_Jobs
  imports Kernel_Calls
begin

text \<open>
  The jobs of one call of the hosted kernel. \<open>stage_contract\<close> is what one stager promises: it stages its
  operands, and its commands, run at any later time on the frozen bytes, leave the job's results in a
  block of their own and change nothing else.
\<close>

section \<open>The contract of a stager\<close>

abbreviation agrees :: "nat set \<Rightarrow> (nat \<Rightarrow> byte) \<Rightarrow> model_kernel \<Rightarrow> bool" where
  "agrees region f k \<equiv> \<forall>x \<in> region. f x = gm_byte (mk_memory k) x"

definition stage_contract ::
  "(view_key \<Rightarrow> int list) \<Rightarrow> 'j stager \<Rightarrow> ('j \<Rightarrow> nat) \<Rightarrow> (byte list \<Rightarrow> 'r list) \<Rightarrow> 'j \<Rightarrow> 'r list \<Rightarrow> bool" where
  "stage_contract content stage result_size decode job rs \<longleftrightarrow>
     (\<forall>index k written cs a k'. staging_ok content None {} written k \<longrightarrow> stage index job k = (Inr (cs, a), k') \<longrightarrow>
       (\<exists>written'. staging_ok content None {} written' k' \<and> extends k k' \<and> written' \<inter> {..<next_at (mk_memory k)} = written \<and>
          {unat a..<unat a + result_size job} \<subseteq> written' - written \<and>
          (\<forall>mp f g. agrees (frozen {} written' k') f k' \<longrightarrow> run_maps mp cs f g \<longrightarrow>
             decode (load_bytes g (unat a) (result_size job)) = rs \<and> (\<forall>x. x \<notin> written' - written \<longrightarrow> g x = f x))))"

lemma frozen_mono:
  assumes "extends k k'" and "written' \<inter> {..<next_at (mk_memory k)} = written"
  shows "frozen scores written k \<subseteq> frozen scores written' k'"
  using assms by (auto simp: frozen_def extends_def)

lemma agrees_earlier:
  assumes "agrees (frozen scores written' k') f k'" and "extends k k'" and "written' \<inter> {..<next_at (mk_memory k)} = written"
  shows "agrees (frozen scores written k) f k"
  using assms frozen_mono[OF assms(2,3), of scores] by (auto simp: extends_def frozen_def)

lemma staged_jobs:
  assumes "\<And>job. job \<in> set jobs \<Longrightarrow> stage_contract content stage result_size decode job (spec job)"
    and "staging_ok content None {} written k" and "stage_jobs stage index jobs k = (Inr (cs, addresses), k')"
  shows "\<exists>written'. staging_ok content None {} written' k' \<and> extends k k' \<and> written' \<inter> {..<next_at (mk_memory k)} = written \<and>
    length addresses = length jobs \<and>
    (\<forall>i < length jobs. {unat (addresses ! i)..<unat (addresses ! i) + result_size (jobs ! i)} \<subseteq> written') \<and>
    (\<forall>mp f g. agrees (frozen {} written' k') f k' \<longrightarrow> run_maps mp cs f g \<longrightarrow>
       (\<forall>i < length jobs. decode (load_bytes g (unat (addresses ! i)) (result_size (jobs ! i))) = spec (jobs ! i)) \<and>
       (\<forall>x. x \<notin> written' - written \<longrightarrow> g x = f x))"
  using assms
proof (induction jobs arbitrary: index k written cs addresses)
  case Nil
  then show ?case by (auto simp: extends_refl staging_ok_def)
next
  case (Cons job jobs)
  obtain cs1 a k1 cs2 as where st: "stage index job k = (Inr (cs1, a), k1)"
    and rest: "stage_jobs stage (index + 1) jobs k1 = (Inr (cs2, as), k')" and cs: "cs = cs1 @ cs2" "addresses = a # as"
    using Cons.prems(3) by (auto split: prod.splits sum.splits)
  obtain w1 where ok1: "staging_ok content None {} w1 k1" and ex1: "extends k k1" and new1: "w1 \<inter> {..<next_at (mk_memory k)} = written"
    and blk: "{unat a..<unat a + result_size job} \<subseteq> w1 - written"
    and run1: "\<And>mp f g. agrees (frozen {} w1 k1) f k1 \<Longrightarrow> run_maps mp cs1 f g \<Longrightarrow>
      decode (load_bytes g (unat a) (result_size job)) = spec job \<and> (\<forall>x. x \<notin> w1 - written \<longrightarrow> g x = f x)"
    using Cons.prems(1)[of job, unfolded stage_contract_def, rule_format, OF _ Cons.prems(2) st] by auto
  obtain w2 where ok2: "staging_ok content None {} w2 k'" and ex2: "extends k1 k'" and new2: "w2 \<inter> {..<next_at (mk_memory k1)} = w1"
    and len: "length as = length jobs" and blks: "\<And>i. i < length jobs \<Longrightarrow> {unat (as ! i)..<unat (as ! i) + result_size (jobs ! i)} \<subseteq> w2"
    and run2: "\<And>mp f g. agrees (frozen {} w2 k') f k' \<Longrightarrow> run_maps mp cs2 f g \<Longrightarrow>
       (\<forall>i < length jobs. decode (load_bytes g (unat (as ! i)) (result_size (jobs ! i))) = spec (jobs ! i)) \<and>
       (\<forall>x. x \<notin> w2 - w1 \<longrightarrow> g x = f x)"
    using Cons.IH[OF _ ok1 rest] Cons.prems(1) by auto
  have sub: "w1 \<subseteq> {..<next_at (mk_memory k1)}" "next_at (mk_memory k) \<le> next_at (mk_memory k1)" "written \<subseteq> w1" "w1 \<subseteq> w2"
    using ok1 ex1 new1 new2 by (auto simp: staging_ok_def extends_def)
  have "(\<forall>i < length (job # jobs). decode (load_bytes h (unat (addresses ! i)) (result_size ((job # jobs) ! i))) = spec ((job # jobs) ! i)) \<and>
      (\<forall>x. x \<notin> w2 - written \<longrightarrow> h x = f x)" if ag: "agrees (frozen {} w2 k') f k'" and run: "run_maps mp cs f h" for mp f h
  proof -
    obtain g where g: "run_maps mp cs1 f g" "run_maps mp cs2 g h" using run by (auto simp: cs run_maps_append)
    note r1 = run1[OF agrees_earlier[OF ag ex2 new2] g(1)]
    have "agrees (frozen {} w2 k') g k'" using ag r1 sub(4) by (auto simp: frozen_def)
    note r2 = run2[OF this g(2)]
    have "load_bytes h (unat a) (result_size job) = load_bytes g (unat a) (result_size job)"
      by (rule load_bytes_cong) (use blk r2 in auto)
    then show ?thesis using r1 r2 sub(3,4) by (auto simp: cs(2) nth_Cons split: nat.splits)
  qed
  moreover have "w2 \<inter> {..<next_at (mk_memory k)} = written" using new1 new2 sub by auto
  moreover have "{unat (addresses ! i)..<unat (addresses ! i) + result_size ((job # jobs) ! i)} \<subseteq> w2" if "i < length (job # jobs)" for i
    using that blks blk sub(4) by (cases i) (auto simp: cs(2))
  ultimately show ?case using ok2 extends_trans[OF ex1 ex2] len
    by (intro exI[of _ w2] conjI allI impI) (simp_all add: cs(2))
qed

lemma read_results_spec:
  "read_results m rs = Some bss \<Longrightarrow> bss = map (\<lambda>(a, n). load_bytes (gm_byte m) (unat a) n) rs"
proof (induction rs arbitrary: bss)
  case (Cons r rs)
  obtain a n where r: "r = (a, n)" by (cases r)
  obtain bs where bs: "gm_read m a n = Some bs" using Cons.prems by (auto simp: r split: option.splits)
  have "bs = load_bytes (gm_byte m) (unat a) n"
  proof (cases "n = 0")
    case False
    then show ?thesis using bs gm.read_some[of n m a bs] by (simp add: gm_interface_def)
  qed (use bs in \<open>auto simp: gm_read_def load_bytes_def split: if_splits\<close>)
  with Cons bs show ?case by (auto simp: r split: option.splits)
qed simp

lemma begin_batch_ok: "staging_ok content exempt {} {} (begin_batch k)"
  by (simp add: staging_ok_def begin_batch_def)

lemma run_jobs_spec:
  assumes "\<And>job. job \<in> set jobs \<Longrightarrow> stage_contract content stage result_size decode job (spec job)"
    and "run_jobs env stage result_size jobs k s = (Inr bss, k', s')"
  shows "map decode bss = map spec jobs"
proof -
  obtain cs addresses k1 where st: "stage_jobs stage 0 jobs (begin_batch k) = (Inr (cs, addresses), k1)"
    and sub: "mk_submit_batch env cs k1 s = (PCAA_STATUS_OK, k', s')"
    and rd: "read_results (mk_memory k') (zip addresses (map result_size jobs)) = Some bss"
    using assms(2) by (auto simp: run_jobs_def split: prod.splits sum.splits if_splits option.splits)
  obtain w where ok: "staging_ok content None {} w k1" and len: "length addresses = length jobs"
    and blk: "\<And>i. i < length jobs \<Longrightarrow> {unat (addresses ! i)..<unat (addresses ! i) + result_size (jobs ! i)} \<subseteq> w"
    and run: "\<And>mp f g i. agrees (frozen {} w k1) f k1 \<Longrightarrow> run_maps mp cs f g \<Longrightarrow> i < length jobs \<Longrightarrow>
      decode (load_bytes g (unat (addresses ! i)) (result_size (jobs ! i))) = spec (jobs ! i)"
    using staged_jobs[OF assms(1) begin_batch_ok st] by auto
  obtain mp f h where maps: "\<forall>x < next_at (mk_memory k1). f x = gm_byte (mk_memory k1) x" "run_maps mp cs f h"
    "\<forall>x < next_at (mk_memory k1). gm_byte (mk_memory k') x = h x"
    by (rule submitted_batch_runs[OF sub])
  have ag: "agrees (frozen {} w k1) f k1" using maps(1) by (simp add: frozen_def)
  have "load_bytes (gm_byte (mk_memory k')) (unat (addresses ! i)) (result_size (jobs ! i)) =
      load_bytes h (unat (addresses ! i)) (result_size (jobs ! i))" if "i < length jobs" for i
    by (rule load_bytes_cong) (use blk[OF that] ok in \<open>auto simp: staging_ok_def intro!: maps(3)[rule_format]\<close>)
  then show ?thesis using run[OF ag maps(2)] len
    by (intro nth_equalityI) (simp_all add: read_results_spec[OF rd])
qed

section \<open>Stagers\<close>

lemma held_run:
  "held (frozen scores written k) (gm_byte (mk_memory k)) p xs \<Longrightarrow> agrees (frozen scores written k) f k \<Longrightarrow>
   held (frozen scores written k) f p xs"
  by (erule held_agree) auto

lemma exact2_costs: "exact2 a b \<Longrightarrow> i < kv_length a \<Longrightarrow> valid_cost (view_at a i) \<and> valid_cost (view_at b i)"
  by (simp add: exact2_def)

lemma two_views_staged:
  assumes ok: "staging_ok content exempt scores written k"
    and c: "copy_view env base a k = (p, k1)" "copy_view env base' b k1 = (q, k2)" "p \<noteq> 0" "q \<noteq> 0"
    and ct: "content (view_key base a) = view_list a" "content (view_key base' b) = view_list b"
      "Some (view_key base a) \<noteq> exempt" "Some (view_key base' b) \<noteq> exempt"
    and vc: "\<And>i. i < kv_length a \<Longrightarrow> valid_cost (view_at a i)" "\<And>i. i < kv_length b \<Longrightarrow> valid_cost (view_at b i)"
  shows "staging_ok content exempt scores written k2" and "extends k k2"
    and "held (frozen scores written k2) (gm_byte (mk_memory k2)) p (view_list a)"
    and "held (frozen scores written k2) (gm_byte (mk_memory k2)) q (view_list b)"
proof -
  note s1 = copy_view_ok[OF ok c(1,3) ct(1,3) vc(1)]
  note s2 = copy_view_ok[OF s1(1) c(2,4) ct(2,4) vc(2)]
  show "staging_ok content exempt scores written k2" "extends k k2"
    "held (frozen scores written k2) (gm_byte (mk_memory k2)) q (view_list b)"
    using s2 extends_trans[OF s1(2) s2(2)] by simp_all
  show "held (frozen scores written k2) (gm_byte (mk_memory k2)) p (view_list a)"
    by (rule held_extends[OF s1(1) s2(2) _ s1(3)]) auto
qed

lemma result_staged:
  assumes ok: "staging_ok content exempt scores written k" and al: "allocate_storage env bytes k = (r, k')" "r \<noteq> 0"
  defines "written' \<equiv> written \<union> {unat r..<unat r + unat bytes}"
  shows "staging_ok content exempt scores written' k'" and "extends k k'" and "written' \<inter> {..<next_at (mk_memory k)} = written"
    and "{unat r..<unat r + unat bytes} \<subseteq> written' - written" and "written' - written = {unat r..<unat r + unat bytes}"
    and "\<And>p xs. held (frozen scores written k) (gm_byte (mk_memory k)) p xs \<Longrightarrow>
      held (frozen scores written' k') (gm_byte (mk_memory k')) p xs"
proof -
  note a = allocate_storage_ok[OF ok al]
  show ok': "staging_ok content exempt scores written' k'" "extends k k'" using a by (simp_all add: written'_def)
  have w: "written \<subseteq> {..<next_at (mk_memory k)}" using ok by (simp add: staging_ok_def)
  show w': "written' \<inter> {..<next_at (mk_memory k)} = written" using a(3) w by (auto simp: written'_def)
  show eq: "written' - written = {unat r..<unat r + unat bytes}" using a(3) w by (auto simp: written'_def)
  then show "{unat r..<unat r + unat bytes} \<subseteq> written' - written" by simp
  show "held (frozen scores written' k') (gm_byte (mk_memory k')) p xs"
    if "held (frozen scores written k) (gm_byte (mk_memory k)) p xs" for p xs
    by (rule held_extends[OF ok a(2) _ that]) (use w' in simp)
qed

lemma staged_earlier:
  assumes "extends k k1" and "extends k1 k'" and "written' \<inter> {..<next_at (mk_memory k1)} = written"
    and "staging_ok content exempt scores written k"
  shows "extends k k'" and "written' \<inter> {..<next_at (mk_memory k)} = written"
  using extends_trans[OF assms(1,2)] assms by (auto simp: extends_def staging_ok_def)

text \<open>
  A stager that copies operands and then allocates its result keeps the contract, when its commands
  compute the result from the operands.
\<close>

lemma stage_contractI:
  assumes "\<And>index k written cs r k'. staging_ok content None {} written k \<Longrightarrow> stage index job k = (Inr (cs, r), k') \<Longrightarrow>
    \<exists>k1 bytes ops. staging_ok content None {} written k1 \<and> extends k k1 \<and> allocate_storage env bytes k1 = (r, k') \<and> r \<noteq> 0 \<and>
      unat bytes = result_size job \<and> (\<forall>(p, xs) \<in> ops. held (frozen {} written k1) (gm_byte (mk_memory k1)) p xs) \<and>
      (\<forall>mp f g region. (\<forall>(p, xs) \<in> ops. held region f p xs) \<longrightarrow> run_maps mp cs f g \<longrightarrow>
         decode (load_bytes g (unat r) (result_size job)) = rs \<and> (\<forall>x. x \<notin> {unat r..<unat r + result_size job} \<longrightarrow> g x = f x))"
  shows "stage_contract content stage result_size decode job rs"
  unfolding stage_contract_def
proof (intro allI impI)
  fix index k written cs r k'
  assume ok: "staging_ok content None {} written k" and st: "stage index job k = (Inr (cs, r), k')"
  from assms[OF ok st]
  show "\<exists>written'. staging_ok content None {} written' k' \<and> extends k k' \<and> written' \<inter> {..<next_at (mk_memory k)} = written \<and>
      {unat r..<unat r + result_size job} \<subseteq> written' - written \<and>
      (\<forall>mp f g. agrees (frozen {} written' k') f k' \<longrightarrow> run_maps mp cs f g \<longrightarrow>
         decode (load_bytes g (unat r) (result_size job)) = rs \<and> (\<forall>x. x \<notin> written' - written \<longrightarrow> g x = f x))"
  proof (elim exE conjE, goal_cases)
    case (1 k1 bytes ops)
    let ?w = "written \<union> {unat r..<unat r + unat bytes}"
    note r = result_staged[OF 1(1,3,4)] and e = staged_earlier[OF 1(2) _ _ ok, of k' ?w]
    show ?case
    proof (intro exI[of _ ?w] conjI allI impI)
      show "staging_ok content None {} ?w k'" "extends k k'" "?w \<inter> {..<next_at (mk_memory k)} = written"
        "{unat r..<unat r + result_size job} \<subseteq> ?w - written"
        using r(1-4) e 1(5) by simp_all
      fix mp f g
      assume ag: "agrees (frozen {} ?w k') f k'" and maps: "run_maps mp cs f g"
      have "\<forall>(p, xs) \<in> ops. held (frozen {} ?w k') f p xs" using held_run[OF r(6) ag] 1(6) by auto
      note stored = 1(7)[rule_format, OF this[rule_format] maps]
      show "decode (load_bytes g (unat r) (result_size job)) = rs" using stored by simp
      show "g x = f x" if "x \<notin> ?w - written" for x
        using stored that[unfolded r(5)] 1(5) by simp
    qed
  qed
qed

lemma stage_min2_parts:
  assumes ct: "\<And>i v. content (view_key (address i v) v) = view_list v" and ex: "exact2 a b"
    and ok: "staging_ok content None {} written k" and st: "stage_min2 env address arg index (a, b) k = (Inr (cs, r), k')"
  obtains p q k2 v where "staging_ok content None {} written k2" and "extends k k2"
    and "held (frozen {} written k2) (gm_byte (mk_memory k2)) p (view_list a)"
    and "held (frozen {} written k2) (gm_byte (mk_memory k2)) q (view_list b)"
    and "allocate_storage env (if arg then 8 else 4) k2 = (r, k')" and "r \<noteq> 0" and "kv_length a \<le> 65535"
    and "v = \<lparr>r2_first = staged_vector p (kv_length a), r2_second = staged_vector q (kv_length b), r2_result = r\<rparr>"
    and "cs = [if arg then PCAA_MAP_ADD_REDUCE_MIN_ARGMIN v else PCAA_MAP_ADD_REDUCE_MIN v]"
proof -
  have len: "kv_length b = kv_length a" using ex by (simp add: exact2_def)
  obtain p k1 q k2 c where c: "copy_view env (address (2 * index) a) a k = (p, k1)" "copy_view env (address (2 * index + 1) b) b k1 = (q, k2)"
    and al: "allocate_storage env (if arg then 8 else 4) k2 = (r, k')" and nz: "p \<noteq> 0" "q \<noteq> 0" "r \<noteq> 0" and cs: "cs = [c]"
    and bc: "built_command (pcaa_make_reduce2 (staged_vector p (kv_length a)) (staged_vector q (kv_length b)) r arg) = Inr c"
    using st by (auto simp: stage_min2_def split: prod.splits if_splits sum.splits)
  note b = built_constructed[OF bc[unfolded pcaa_make_reduce2_def]]
  have ops: "staging_ok content None {} written k2" "extends k k2"
    "held (frozen {} written k2) (gm_byte (mk_memory k2)) p (view_list a)" "held (frozen {} written k2) (gm_byte (mk_memory k2)) q (view_list b)"
    using two_views_staged[OF ok c nz(1,2) ct ct] exact2_costs[OF ex] len by simp_all
  have "unat (of_nat (kv_length a) :: u64) \<le> 65535" using b(2) by (cases arg) (auto elim!: valid_reduce2D)
  then have "kv_length a \<le> 65535" using held_view_length[OF ops(3)] by simp
  from that[OF ops al nz(3) this refl] b(1) cs show thesis by simp
qed

lemma stage_min2_contract:
  assumes ct: "\<And>i v. content (view_key (address i v) v) = view_list v" and ex: "exact2 a b"
  shows "stage_contract content (stage_min2 env address True) (\<lambda>_. 8) argmins_of (a, b) [first_min (sum2 a b)]"
    and "stage_contract content (stage_min2 env address False) (\<lambda>_. 4) costs_of (a, b) [fst (first_min (sum2 a b))]"
proof -
  let ?m = "first_min (sum2 a b)"
  note res = min2_result[OF ex]
  show "stage_contract content (stage_min2 env address True) (\<lambda>_. 8) argmins_of (a, b) [?m]"
  proof (rule stage_contractI[where env = env], goal_cases)
    case (1 index k written cs r k')
    obtain p q k2 v where s: "staging_ok content None {} written k2" "extends k k2"
      "held (frozen {} written k2) (gm_byte (mk_memory k2)) p (view_list a)" "held (frozen {} written k2) (gm_byte (mk_memory k2)) q (view_list b)"
      "allocate_storage env (if True then 8 else 4) k2 = (r, k')" "r \<noteq> 0" "kv_length a \<le> 65535"
      "v = \<lparr>r2_first = staged_vector p (kv_length a), r2_second = staged_vector q (kv_length b), r2_result = r\<rparr>"
      "cs = [if True then PCAA_MAP_ADD_REDUCE_MIN_ARGMIN v else PCAA_MAP_ADD_REDUCE_MIN v]"
      by (rule stage_min2_parts[OF ct ex 1])
    have "argmins_of (load_bytes g (unat r) 8) = [?m] \<and> (\<forall>x. x \<notin> {unat r..<unat r + 8} \<longrightarrow> g x = f x)"
      if "\<forall>(t, xs) \<in> {(p, view_list a), (q, view_list b)}. held region f t xs" "run_maps mp cs f g" for mp f g region
      using reduce2_run[OF _ s(8), of mp f g 8 region] that s(7,9) ex argmins_of_single[of ?m] res by (simp add: Let_def)
    then show ?case using s(1-6)
      by (intro exI[of _ k2] exI[of _ 8] exI[of _ "{(p, view_list a), (q, view_list b)}"]) simp
  qed
  show "stage_contract content (stage_min2 env address False) (\<lambda>_. 4) costs_of (a, b) [fst ?m]"
  proof (rule stage_contractI[where env = env], goal_cases)
    case (1 index k written cs r k')
    obtain p q k2 v where s: "staging_ok content None {} written k2" "extends k k2"
      "held (frozen {} written k2) (gm_byte (mk_memory k2)) p (view_list a)" "held (frozen {} written k2) (gm_byte (mk_memory k2)) q (view_list b)"
      "allocate_storage env (if False then 8 else 4) k2 = (r, k')" "r \<noteq> 0" "kv_length a \<le> 65535"
      "v = \<lparr>r2_first = staged_vector p (kv_length a), r2_second = staged_vector q (kv_length b), r2_result = r\<rparr>"
      "cs = [if False then PCAA_MAP_ADD_REDUCE_MIN_ARGMIN v else PCAA_MAP_ADD_REDUCE_MIN v]"
      by (rule stage_min2_parts[OF ct ex 1])
    have "costs_of (load_bytes g (unat r) 4) = [fst ?m] \<and> (\<forall>x. x \<notin> {unat r..<unat r + 4} \<longrightarrow> g x = f x)"
      if "\<forall>(t, xs) \<in> {(p, view_list a), (q, view_list b)}. held region f t xs" "run_maps mp cs f g" for mp f g region
      using reduce2_run[OF _ s(8), of mp f g 4 region] that s(9) ex costs_of_single[of "fst ?m"] res by (simp add: Let_def)
    then show ?case using s(1-6)
      by (intro exI[of _ k2] exI[of _ 4] exI[of _ "{(p, view_list a), (q, view_list b)}"]) simp
  qed
qed

lemma stage_min3_contract:
  assumes ct: "\<And>i v. content (view_key (address i v) v) = view_list v" and ex: "exact3 a b (view_at d)" and len: "kv_length d = kv_length a"
  shows "stage_contract content (stage_min3 env address) (\<lambda>_. 8) argmins_of (a, b, d) [first_min (sum3 a b (view_at d))]"
proof (rule stage_contractI[where env = env], goal_cases)
  case (1 index k written cs r k')
  let ?m = "first_min (sum3 a b (view_at d))"
  obtain p k1 q k2 t k3 c where c: "copy_view env (address (3 * index) a) a k = (p, k1)" "copy_view env (address (3 * index + 1) b) b k1 = (q, k2)"
    and c3: "copy_view env (address (3 * index + 2) d) d k2 = (t, k3)"
    and al: "allocate_storage env 8 k3 = (r, k')" and nz: "p \<noteq> 0" "q \<noteq> 0" "t \<noteq> 0" "r \<noteq> 0" and cs: "cs = [c]"
    and bc: "built_command (pcaa_make_reduce3 (staged_vector p (kv_length a)) (staged_vector q (kv_length b)) (staged_vector t (kv_length d)) r True) = Inr c"
    using 1(2) by (auto simp: stage_min3_def split: prod.splits if_splits sum.splits)
  note b = built_constructed[OF bc[unfolded pcaa_make_reduce3_def]]
  have lens: "kv_length b = kv_length a" using ex by (simp add: exact3_def)
  have vc: "valid_cost (view_at a i)" "valid_cost (view_at b i)" "valid_cost (view_at d i)" if "i < kv_length a" for i
    using ex that by (simp_all add: exact3_def)
  note s2 = two_views_staged[OF 1(1) c nz(1,2) ct ct _ _ vc(1) vc(2), simplified lens, simplified]
  note s3 = copy_view_ok[OF s2(1) c3 nz(3) ct _ vc(3), simplified len, simplified]
  have ops: "held (frozen {} written k3) (gm_byte (mk_memory k3)) p (view_list a)" "held (frozen {} written k3) (gm_byte (mk_memory k3)) q (view_list b)"
    by (rule held_extends[OF s2(1) s3(2)]; use s2 in auto)+
  have "unat (of_nat (kv_length a) :: u64) \<le> 65535" using b(2) by (auto elim!: valid_reduce3D)
  then have small: "kv_length a \<le> 65535" using held_view_length[OF ops(1)] by simp
  have "argmins_of (load_bytes g (unat r) 8) = [?m] \<and> (\<forall>x. x \<notin> {unat r..<unat r + 8} \<longrightarrow> g x = f x)"
    if "\<forall>(o', xs) \<in> {(p, view_list a), (q, view_list b), (t, view_list d)}. held region f o' xs" "run_maps mp cs f g" for mp f g region
    using reduce3_run[OF _ refl, of mp p a q b t d r f g region] that b(1) cs ex len small argmins_of_single[of ?m] min3_result[OF ex] by simp
  then show ?case using s3(1) extends_trans[OF s2(2) s3(2)] ops s3(3) al nz(4)
    by (intro exI[of _ k3] exI[of _ 8] exI[of _ "{(p, view_list a), (q, view_list b), (t, view_list d)}"]) simp
qed

lemma stage_map3_contract:
  assumes ct: "\<And>i v. content (view_key (address i v) v) = view_list v" and ex: "exact_map3 (u, fx, m)"
  shows "stage_contract content (stage_map3 env address) (\<lambda>(u, f, m). km_rows m * 8) argmins_of (u, fx, m) (map3_rows (u, fx, m))"
proof (rule stage_contractI[where env = env], goal_cases)
  case (1 index k written cs r k')
  obtain p k1 q k2 t k3 c where c: "copy_view env (address (2 * index) u) u k = (p, k1)" "copy_view env (address (2 * index + 1) fx) fx k1 = (q, k2)"
    and c3: "copy_matrix env m k2 = (t, k3)"
    and al: "allocate_storage env (of_nat (km_rows m) * 8) k3 = (r, k')" and nz: "p \<noteq> 0" "q \<noteq> 0" "t \<noteq> 0" "r \<noteq> 0" and cs: "cs = [c]"
    and bc: "built_command (pcaa_make_minplus_map3_project (staged_vector p (kv_length u)) (staged_vector q (kv_length fx))
      (staged_matrix t m) (pcaa_argmin_output r (of_nat (km_rows m)) 1)) = Inr c"
    using 1(2) by (auto simp: stage_map3_def split: prod.splits if_splits sum.splits)
  note b = built_constructed[OF bc[unfolded pcaa_make_minplus_map3_project_def]]
  have lens: "kv_length fx = kv_length u" "km_columns m = kv_length u" and rows32: "km_rows m < 2 ^ 32" using ex by (simp_all add: exact_map3_def)
  have small: "unat (of_nat (km_rows m) :: u64) \<le> 65535" "unat (of_nat (kv_length u) :: u64) \<le> 65535"
    using b(2) lens(2) by (auto elim!: valid_map3_projectD)
  have rows: "unat (of_nat (km_rows m) :: u64) = km_rows m" using rows32 by (simp add: unat_of_nat take_bit_nat_eq_self)
  have "km_rows m \<noteq> 0" using b(2) by (auto simp: rows elim!: valid_map3_projectD dest!: span_nonempty)
  then have vc: "valid_cost (view_at u i)" "valid_cost (view_at fx i)" if "i < kv_length u" for i
    using ex that by (auto simp: exact_map3_def exact3_def)
  have vm: "valid_cost (matrix_at m row i)" if "row < km_rows m" "i < km_columns m" for row i
    using ex that by (simp add: exact_map3_def exact3_def)
  note s2 = two_views_staged[OF 1(1) c nz(1,2) ct ct _ _ vc(1) vc(2), simplified lens, simplified]
  have len: "kv_length u \<le> 65535" using small(2) held_view_length[OF s2(3)] by simp
  have fit: "4 * (km_rows m * km_columns m) < 2 ^ 64" by (rule matrix_fits) (use small(1) rows len lens(2) in simp_all)
  note s3 = copy_matrix_ok[OF s2(1) c3 nz(3) fit vm]
  have ops: "held (frozen {} written k3) (gm_byte (mk_memory k3)) p (view_list u)" "held (frozen {} written k3) (gm_byte (mk_memory k3)) q (view_list fx)"
    by (rule held_extends[OF s2(1) s3(2)]; use s2 in auto)+
  have res: "valid_cost (fst (first_min (sum3 u fx (matrix_at m row)))) \<and> snd (first_min (sum3 u fx (matrix_at m row))) < 2 ^ 32"
    if "row < km_rows m" for row
    using min3_result[of u fx "matrix_at m row"] ex that len by (simp add: exact_map3_def)
  have sz: "unat (of_nat (km_rows m) * 8 :: u64) = km_rows m * 8"
    using small(1) rows by (subst u64_mult_exact) simp_all
  have "argmins_of (load_bytes g (unat r) (8 * km_rows m)) = map3_rows (u, fx, m) \<and> (\<forall>x. x \<notin> {unat r..<unat r + 8 * km_rows m} \<longrightarrow> g x = f x)"
    if "\<forall>(o', xs) \<in> {(p, view_list u), (q, view_list fx), (t, matrix_list m)}. held region f o' xs" "run_maps mp cs f g" for mp f g region
  proof -
    have "computes mp (PCAA_MINPLUS_MAP3_PROJECT \<lparr>m3_first = staged_vector p (kv_length u), m3_second = staged_vector q (kv_length fx),
        m3_third = staged_matrix t m, m3_result = pcaa_argmin_output r (of_nat (km_rows m)) 1\<rparr>) f g"
      using that(2) b(1) cs by simp
    note run = map3_run[OF this refl _ _ _ rows ex, of region]
    show ?thesis using argmins_of_stored[where r = "\<lambda>row. first_min (sum3 u fx (matrix_at m row))", OF run(1) res] run(2) that(1)
      by (simp add: map3_rows_def)
  qed
  then show ?case using s3(1) extends_trans[OF s2(2) s3(2)] ops s3(3) al nz(4) sz
    by (intro exI[of _ k3] exI[of _ "of_nat (km_rows m) * 8"] exI[of _ "{(p, view_list u), (q, view_list fx), (t, matrix_list m)}"])
      (simp add: mult.commute)
qed

end
