(* ===== verification/Kernel_Scores.thy ===== *)
theory Kernel_Scores
  imports Kernel_Jobs
begin

text \<open>
  The score updates of \<open>project_add_batch\<close>: all jobs share one staged score vector, each projects into
  a block of its own and adds the block to the scores in place.
\<close>

lemma held_block: "held region f a xs \<Longrightarrow> held {unat a..<unat a + 4 * length xs} f a xs"
  by (simp add: held_def)

lemma held_stored:
  assumes "\<And>i. i < n \<Longrightarrow> load_bytes f (unat a + 4 * i) 4 = i32_bytes (v i)" and "\<And>i. i < n \<Longrightarrow> valid_cost (v i)"
    and "{unat a..<unat a + 4 * n} \<subseteq> region" and "4 * n < 2 ^ 64"
  shows "held region f a (map v [0..<n])"
  using assms cost_at_bytes[OF assms(1,2)] by (simp add: held_def)

lemma exact_project_rows:
  assumes "exact_project (m, v) xs"
  shows "km_rows m = length xs" and "km_columns m = kv_length v" and "\<And>r. r < length xs \<Longrightarrow> exact2 (row_view m r) v"
    and "\<And>r. r < length xs \<Longrightarrow> valid_cost (xs ! r) \<and> valid_cost (project_row m v r) \<and> cost_add (project_row m v r) (xs ! r) \<noteq> None"
  using assms min2_result(1)[of "row_view m _" v] by (auto simp: exact_project_def project_row_def)

lemma exact_project_costs:
  assumes "exact_project (m, v) xs"
  shows "r < km_rows m \<Longrightarrow> i < km_columns m \<Longrightarrow> valid_cost (matrix_at m r i)"
    and "0 < km_rows m \<Longrightarrow> i < kv_length v \<Longrightarrow> valid_cost (view_at v i)"
  using exact_project_rows[OF assms] by (auto simp: exact2_def view_at_row) (auto simp: row_view_def)

lemma scores_run:
  assumes ex: "exact_project (m, v) xs" and n: "unat (of_nat (length xs) :: u64) = length xs"
    and cs: "run_maps mp [PCAA_MINPLUS_PROJECT \<lparr>pj_matrix = staged_matrix p m, pj_vector = staged_vector q (kv_length v),
        pj_result = pcaa_cost_output t (of_nat (km_rows m)) 1\<rparr>,
      PCAA_COST_ADD_VECTOR \<lparr>va_first = staged_vector t (km_rows m), va_second = staged_vector s (km_rows m),
        va_result = pcaa_cost_output s (of_nat (km_rows m)) 1\<rparr>] f h"
    and ops: "held region f p (matrix_list m)" "held region f q (view_list v)" "held scores f s xs"
    and sc: "scores = {unat s..<unat s + 4 * length xs}" and dis: "{unat t..<unat t + 4 * length xs} \<inter> scores = {}"
  shows "held scores h s (project_add (m, v) xs)" and "\<And>x. x \<notin> scores \<union> {unat t..<unat t + 4 * length xs} \<Longrightarrow> h x = f x"
proof -
  note r = exact_project_rows[OF ex]
  obtain g where g: "computes mp (PCAA_MINPLUS_PROJECT \<lparr>pj_matrix = staged_matrix p m, pj_vector = staged_vector q (kv_length v),
        pj_result = pcaa_cost_output t (of_nat (km_rows m)) 1\<rparr>) f g"
    and h: "computes mp (PCAA_COST_ADD_VECTOR \<lparr>va_first = staged_vector t (km_rows m), va_second = staged_vector s (km_rows m),
        va_result = pcaa_cost_output s (of_nat (km_rows m)) 1\<rparr>) g h"
    using cs by auto
  have pr: "\<And>row. row < length xs \<Longrightarrow> load_bytes g (unat t + 4 * row) 4 = i32_bytes (project_row m v row)"
    "\<And>x. x \<notin> {unat t..<unat t + 4 * length xs} \<Longrightarrow> g x = f x"
    using project_run[OF g refl ops(1,2)] r n by simp_all
  have sg: "held scores g s xs" by (rule held_agree[OF ops(3)]) (use dis pr(2) in blast)+
  have t: "cost_at g (unat t + 4 * i) = project_row m v i" if "i < length xs" for i
    using cost_at_bytes[OF pr(1)] r(4) that by simp
  have add: "\<And>i. i < length xs \<Longrightarrow> load_bytes h (unat s + 4 * i) 4 = i32_bytes (accel_cost_add (project_row m v i) (xs ! i))"
    "\<And>x. x \<notin> {unat s..<unat s + 4 * length xs} \<Longrightarrow> h x = g x"
    using add_run[OF h[unfolded r(1)] refl n t heldD[OF sg]] r(4) by auto
  show "held scores h s (project_add (m, v) xs)" unfolding project_add_def prod.case
    by (rule held_stored[OF add(1)]) (use r(4) ops(3) in \<open>auto simp: accel_add_valid held_def\<close>)
  show "h x = f x" if "x \<notin> scores \<union> {unat t..<unat t + 4 * length xs}" for x
    using that add(2)[of x] pr(2)[of x] by (simp add: sc)
qed

lemma copy_view_cached: "mk_view_cache k (view_key base v) = Some a \<Longrightarrow> copy_view env base v k = (a, k)"
  by (simp add: copy_view_def)

lemma project_add_length [simp]: "length (project_add job xs) = length xs"
  by (cases job) (simp add: project_add_def)

lemma copy_view_length:
  assumes "staging_ok content exempt scores written k" and "mk_view_cache k2 = mk_view_cache k"
    and "copy_view env base v k2 = (q, k3)" and "q \<noteq> 0" and "content (view_key base v) = view_list v" and "Some (view_key base v) \<noteq> exempt"
  shows "4 * kv_length v < 2 ^ 64"
proof (cases "mk_view_cache k (view_key base v)")
  case None
  then show ?thesis using assms(2-4) by (auto simp: copy_view_def Let_def split: if_splits)
next
  case (Some a)
  then have "held (frozen scores written k) (gm_byte (mk_memory k)) a (view_list v)"
    using assms(1,5,6) by (metis staging_ok_def)
  then show ?thesis by (simp add: held_def)
qed

lemma copy_matrix_cache: "copy_matrix env m k = (p, k') \<Longrightarrow> mk_view_cache k' = mk_view_cache k"
  by (auto simp: copy_matrix_def allocate_storage_def split: prod.splits if_splits)

lemma stage_scores_job:
  assumes ct: "\<And>i v. content (view_key (address i v) v) = view_list v" and ne: "\<And>i v. address i v \<noteq> base"
    and key: "key = view_key base (whole_view initial (length xs))" and hit: "mk_view_cache k key = Some s"
    and sc: "scores = {unat s..<unat s + 4 * length xs}" and ok: "staging_ok content (Some key) scores written k"
    and ex: "exact_project (m, v) xs" and n: "4 * length xs < 2 ^ 64"
    and st: "stage_project_add env address base initial index (m, v) k = (Inr (cs, a), k')"
  shows "\<exists>written'. staging_ok content (Some key) scores written' k' \<and> extends k k' \<and> written' \<inter> {..<next_at (mk_memory k)} = written \<and>
    a = s \<and> (\<forall>mp f h. agrees (frozen scores written' k') f k' \<longrightarrow> held scores f s xs \<longrightarrow> run_maps mp cs f h \<longrightarrow>
      held scores h s (project_add (m, v) xs) \<and> (\<forall>x. x \<notin> scores \<union> (written' - written) \<longrightarrow> h x = f x))"
proof -
  have un: "unat (of_nat (length xs) :: u64) = length xs" using n by (simp add: unat_of_nat take_bit_nat_eq_self)
  note rows = exact_project_rows[OF ex] and vc = exact_project_costs[OF ex]
  have "copy_view env base (whole_view initial (km_rows m)) k = (s, k)"
    using hit by (intro copy_view_cached) (simp add: key rows(1))
  then obtain p k2 q k3 t c1 c2 where c: "copy_matrix env m k = (p, k2)" "copy_view env (address index v) v k2 = (q, k3)"
    and al: "allocate_storage env (of_nat (km_rows m) * 4) k3 = (t, k')" and nz: "p \<noteq> 0" "q \<noteq> 0" "t \<noteq> 0" "a = s" and cs: "cs = [c1, c2]"
    and b1: "built_command (pcaa_make_minplus_project (staged_matrix p m) (staged_vector q (kv_length v))
      (pcaa_cost_output t (of_nat (km_rows m)) 1)) = Inr c1"
    and b2: "built_command (pcaa_make_cost_add_vector (staged_vector t (km_rows m)) (staged_vector s (km_rows m))
      (pcaa_cost_output s (of_nat (km_rows m)) 1)) = Inr c2"
    using st by (auto simp: stage_project_add_def Let_def split: prod.splits if_splits sum.splits)
  note b1' = built_constructed[OF b1[unfolded pcaa_make_minplus_project_def]]
    and b2' = built_constructed[OF b2[unfolded pcaa_make_cost_add_vector_def]]
  have small: "length xs \<le> 65535" "unat (of_nat (km_columns m) :: u64) \<le> 65535" "0 < length xs"
    using b1'(2) un rows(1) by (auto elim!: valid_projectD dest!: span_nonempty)
  have other: "Some (view_key (address index v) v) \<noteq> Some key" using ne by (simp add: key view_key_def)
  have len: "4 * kv_length v < 2 ^ 64"
    by (rule copy_view_length[OF ok copy_matrix_cache[OF c(1)] c(2) nz(2) ct other])
  then have "km_columns m \<le> 65535" using small(2) rows(2) by (simp add: unat_of_nat take_bit_nat_eq_self)
  then have fit: "4 * (km_rows m * km_columns m) < 2 ^ 64" using small(1) rows(1) by (intro matrix_fits) simp_all
  note s2 = copy_matrix_ok[OF ok c(1) nz(1) fit vc(1)]
  note s3 = copy_view_ok[OF s2(1) c(2) nz(2) ct other vc(2)]
  have opm: "held (frozen scores written k3) (gm_byte (mk_memory k3)) p (matrix_list m)"
    using small(3) rows(1) by (intro held_extends[OF s2(1) s3(2) _ s2(3)]) auto
  have s3': "staging_ok content (Some key) scores written k3" "extends k2 k3"
    "held (frozen scores written k3) (gm_byte (mk_memory k3)) q (view_list v)" using s3 small(3) rows(1) by auto
  have sz: "unat (of_nat (km_rows m) * 4 :: u64) = 4 * length xs" using bytes_of_costs[OF n] rows(1) by simp
  note r = result_staged[OF s3'(1) al nz(3), unfolded sz]
  let ?w = "written \<union> {unat t..<unat t + 4 * length xs}"
  have ex13: "extends k k3" by (rule extends_trans[OF s2(2) s3'(2)])
  note e = staged_earlier[OF ex13 r(2,3) ok]
  have dis: "{unat t..<unat t + 4 * length xs} \<inter> scores = {}" using r(1) by (auto simp: staging_ok_def)
  have "held scores h s (project_add (m, v) xs) \<and> (\<forall>x. x \<notin> scores \<union> (?w - written) \<longrightarrow> h x = f x)"
    if ag: "agrees (frozen scores ?w k') f k'" and hs: "held scores f s xs" and run: "run_maps mp cs f h" for mp f h
    using scores_run[OF ex un _ held_run[OF r(6)[OF opm] ag] held_run[OF r(6)[OF s3'(3)] ag] hs sc dis, of mp h] run
    by (auto simp: cs b1'(1) b2'(1) r(5) simp del: run_maps.simps)
  with r(1) e nz(4) show ?thesis by (intro exI[of _ ?w]) simp
qed

lemma staged_scores:
  assumes ct: "\<And>i v. content (view_key (address i v) v) = view_list v" and ne: "\<And>i v. address i v \<noteq> base"
    and key: "key = view_key base (whole_view initial n)" and n: "4 * n < 2 ^ 64" and sc: "scores = {unat s..<unat s + 4 * n}"
    and "mk_view_cache k key = Some s" and "staging_ok content (Some key) scores written k"
    and "exact_projects jobs xs" and "length xs = n"
    and "stage_jobs (stage_project_add env address base initial) index jobs k = (Inr (cs, addresses), k')"
  shows "\<exists>written'. staging_ok content (Some key) scores written' k' \<and> extends k k' \<and> written' \<inter> {..<next_at (mk_memory k)} = written \<and>
    addresses = replicate (length jobs) s \<and> (\<forall>mp f h. agrees (frozen scores written' k') f k' \<longrightarrow> held scores f s xs \<longrightarrow> run_maps mp cs f h \<longrightarrow>
      held scores h s (fold project_add jobs xs) \<and> (\<forall>x. x \<notin> scores \<union> (written' - written) \<longrightarrow> h x = f x))"
  using assms(6-10)
proof (induction jobs arbitrary: index k written cs addresses xs)
  case Nil
  then show ?case by (auto simp: extends_refl staging_ok_def)
next
  case (Cons job jobs)
  obtain m v where job: "job = (m, v)" by (cases job)
  obtain cs1 a k1 cs2 as where st: "stage_project_add env address base initial index (m, v) k = (Inr (cs1, a), k1)"
    and rest: "stage_jobs (stage_project_add env address base initial) (index + 1) jobs k1 = (Inr (cs2, as), k')"
    and cs: "cs = cs1 @ cs2" "addresses = a # as"
    using Cons.prems(5) by (auto simp: job split: prod.splits sum.splits)
  have ex: "exact_project (m, v) xs" and exs: "exact_projects jobs (project_add (m, v) xs)" using Cons.prems(3) by (simp_all add: job)
  obtain w1 where ok1: "staging_ok content (Some key) scores w1 k1" and ex1: "extends k k1" and new1: "w1 \<inter> {..<next_at (mk_memory k)} = written"
    and a: "a = s" and run1: "\<And>mp f h. agrees (frozen scores w1 k1) f k1 \<Longrightarrow> held scores f s xs \<Longrightarrow> run_maps mp cs1 f h \<Longrightarrow>
      held scores h s (project_add (m, v) xs) \<and> (\<forall>x. x \<notin> scores \<union> (w1 - written) \<longrightarrow> h x = f x)"
    using stage_scores_job[OF ct ne _ Cons.prems(1) _ Cons.prems(2) ex _ st] key sc n Cons.prems(4) by auto
  have "mk_view_cache k1 key = Some s" using ex1 Cons.prems(1) by (metis extends_def map_le_def domI)
  note IH = Cons.IH[OF this ok1 exs _ rest]
  obtain w2 where ok2: "staging_ok content (Some key) scores w2 k'" and ex2: "extends k1 k'" and new2: "w2 \<inter> {..<next_at (mk_memory k1)} = w1"
    and as: "as = replicate (length jobs) s"
    and run2: "\<And>mp f h. agrees (frozen scores w2 k') f k' \<Longrightarrow> held scores f s (project_add (m, v) xs) \<Longrightarrow> run_maps mp cs2 f h \<Longrightarrow>
      held scores h s (fold project_add jobs (project_add (m, v) xs)) \<and> (\<forall>x. x \<notin> scores \<union> (w2 - w1) \<longrightarrow> h x = f x)"
    using IH Cons.prems(4) by auto
  have sub: "written \<subseteq> w1" "w1 \<subseteq> w2" using new1 new2 by auto
  have "held scores h s (fold project_add (job # jobs) xs) \<and> (\<forall>x. x \<notin> scores \<union> (w2 - written) \<longrightarrow> h x = f x)"
    if ag: "agrees (frozen scores w2 k') f k'" and hs: "held scores f s xs" and run: "run_maps mp cs f h" for mp f h
  proof -
    obtain g where g: "run_maps mp cs1 f g" "run_maps mp cs2 g h" using run by (auto simp: cs run_maps_append)
    note r1 = run1[OF agrees_earlier[OF ag ex2 new2] hs g(1)]
    have "agrees (frozen scores w2 k') g k'" using ag r1 sub(2) by (auto simp: frozen_def)
    note r2 = run2[OF this r1[THEN conjunct1] g(2)]
    then show ?thesis using r1 sub by (auto simp: job)
  qed
  moreover have "w2 \<inter> {..<next_at (mk_memory k)} = written" using new1 new2 ok1 ex1 by (auto simp: extends_def)
  ultimately show ?case using ok2 extends_trans[OF ex1 ex2] by (intro exI[of _ w2]) (simp add: cs(2) a as)
qed

lemma scores_staged:
  assumes copy: "copy_view env base (whole_view initial (length initial)) (begin_batch k) = (s, k1)" and "s \<noteq> 0"
    and vc: "\<And>i. i < length initial \<Longrightarrow> valid_cost (initial ! i)"
  defines "scores \<equiv> {unat s..<unat s + 4 * length initial}" and "key \<equiv> view_key base (whole_view initial (length initial))"
  shows "staging_ok content (Some key) scores {} k1" and "mk_view_cache k1 key = Some s"
    and "held scores (gm_byte (mk_memory k1)) s initial" and "4 * length initial < 2 ^ 64" and "scores \<subseteq> {..<next_at (mk_memory k1)}"
proof -
  let ?v = "whole_view initial (length initial)"
  have v: "view_list ?v = initial" "kv_length ?v = length initial" "view_at ?v i = initial ! i" for i
    by (auto simp: view_list_def whole_view_def view_at_def intro: nth_equalityI)
  have "staging_ok (\<lambda>_. view_list ?v) None {} {} (begin_batch k)" by (rule begin_batch_ok)
  note c = copy_view_ok[OF this copy assms(2) refl]
  have h: "held (frozen {} {} k1) (gm_byte (mk_memory k1)) s initial"
    using c(3) vc by (simp add: v)
  show "held scores (gm_byte (mk_memory k1)) s initial" using held_block[OF h] by (simp add: scores_def)
  show "4 * length initial < 2 ^ 64" using h by (simp add: held_def)
  show sub: "scores \<subseteq> {..<next_at (mk_memory k1)}" using h by (auto simp: held_def scores_def frozen_def)
  have cache: "mk_view_cache k1 = [key \<mapsto> s]"
    using copy assms(2)
    by (auto simp: copy_view_def begin_batch_def key_def Let_def allocate_storage_def split: if_splits prod.splits)
  then show "mk_view_cache k1 key = Some s" by simp
  show "staging_ok content (Some key) scores {} k1" using sub cache by (simp add: staging_ok_def split: if_splits)
qed

lemma exact_projects_rows: "exact_projects jobs xs \<Longrightarrow> job \<in> set jobs \<Longrightarrow> km_rows (fst job) = length xs"
proof (induction jobs arbitrary: xs)
  case (Cons j jobs)
  then show ?case using exact_project_rows(1)[of "fst j" "snd j" xs] Cons.IH[of "project_add j xs"] by auto
qed simp

lemma store_same_scores: "bss \<noteq> [] \<Longrightarrow> (\<And>bs. bs \<in> set bss \<Longrightarrow> costs_of bs = vs) \<Longrightarrow> length vs = length xs \<Longrightarrow>
  fold (\<lambda>bs scores. copy_prefix (length (costs_of bs)) (costs_of bs) scores) bss xs = vs"
proof (induction bss arbitrary: xs)
  case (Cons b bss)
  then have b: "costs_of b = vs" by simp
  show ?case
  proof (cases "bss = []")
    case False
    then show ?thesis using Cons.IH[OF False, of vs] Cons.prems b by (simp add: copy_prefix_def)
  qed (use Cons.prems b in \<open>simp add: copy_prefix_def\<close>)
qed simp

lemma project_add_call:
  assumes ct: "\<And>i v. content (view_key (ke_address env k i v) v) = view_list v" and ne: "\<And>i v. ke_address env k i v \<noteq> ke_scores env k"
    and ex: "exact_projects jobs scores" and call: "fst (mk_project_add_batch env jobs scores k s) = Inr vs"
  shows "vs = fold project_add jobs scores"
proof (cases jobs)
  case Nil
  then show ?thesis using call by (simp add: mk_project_add_batch_def)
next
  case (Cons job rest)
  obtain m v where job: "job = (m, v)" by (cases job)
  let ?k = "with_cycles (record_vector_project_projection jobs) k" and ?base = "ke_scores env k" and ?n = "length scores"
  let ?stage = "stage_project_add env (ke_address env k) ?base scores" and ?key = "view_key (ke_scores env k) (whole_view scores (length scores))"
  obtain bss k3 s3 where run: "run_jobs env ?stage (\<lambda>(m, v). km_rows m * 4) jobs ?k s = (Inr bss, k3, s3)"
    and vs: "vs = fold (\<lambda>bs scores. copy_prefix (length (costs_of bs)) (costs_of bs) scores) bss scores"
    using call Cons by (auto simp: mk_project_add_batch_def map_call_def split: prod.splits) (case_tac x1; auto)
  obtain cs addresses k2 where st: "stage_jobs ?stage 0 jobs (begin_batch ?k) = (Inr (cs, addresses), k2)"
    and sub: "mk_submit_batch env cs k2 s = (PCAA_STATUS_OK, k3, s3)"
    and rd: "read_results (mk_memory k3) (zip addresses (map (\<lambda>(m, v). km_rows m * 4) jobs)) = Some bss"
    using run by (auto simp: run_jobs_def split: prod.splits sum.splits if_splits option.splits)
  have rows: "km_rows m = ?n" and vc: "\<And>i. i < ?n \<Longrightarrow> valid_cost (scores ! i)"
    using ex exact_project_rows[of m v scores] by (simp_all add: Cons job)
  obtain a k1 where copy: "copy_view env ?base (whole_view scores ?n) (begin_batch ?k) = (a, k1)" by fastforce
  have a: "a \<noteq> 0" using st copy by (auto simp: Cons job stage_project_add_def Let_def rows split: prod.splits)
  note sc = scores_staged[OF copy a vc]
  have same: "?stage 0 (m, v) (begin_batch ?k) = ?stage 0 (m, v) k1"
    using copy_view_cached[OF sc(2), of env] copy by (simp add: stage_project_add_def Let_def rows)
  have st1: "stage_jobs ?stage 0 jobs k1 = (Inr (cs, addresses), k2)" using st same by (simp add: Cons job)
  let ?region = "{unat a..<unat a + 4 * ?n}"
  obtain w where ext: "extends k1 k2" and ad: "addresses = replicate (length jobs) a"
    and runs: "\<And>mp f h. agrees (frozen ?region w k2) f k2 \<Longrightarrow> held ?region f a scores \<Longrightarrow> run_maps mp cs f h \<Longrightarrow>
      held ?region h a (fold project_add jobs scores)"
    using staged_scores[OF ct ne refl sc(4) refl sc(2,1) ex refl st1] by meson
  obtain mp f h where maps: "\<forall>x < next_at (mk_memory k2). f x = gm_byte (mk_memory k2) x" "run_maps mp cs f h"
    "\<forall>x < next_at (mk_memory k2). gm_byte (mk_memory k3) x = h x"
    by (rule submitted_batch_runs[OF sub])
  have le: "next_at (mk_memory k1) \<le> next_at (mk_memory k2)" using ext by (simp add: extends_def)
  have "held ?region f a scores"
    by (rule held_agree[OF sc(3)]) (use sc(5) ext le maps(1) in \<open>auto simp: extends_def subset_iff\<close>)
  moreover have "agrees (frozen ?region w k2) f k2" using maps(1) by (simp add: frozen_def)
  ultimately have "held ?region h a (fold project_add jobs scores)" using runs maps(2) by blast
  then have final: "held ?region (gm_byte (mk_memory k3)) a (fold project_add jobs scores)"
    by (rule held_agree) (use sc(5) le maps(3) in \<open>auto simp: subset_iff\<close>)
  have len: "length (fold project_add js xs) = length xs" for js xs by (induction js arbitrary: xs) simp_all
  have "costs_of (load_bytes (gm_byte (mk_memory k3)) (unat a) (4 * ?n)) = fold project_add jobs scores"
    unfolding costs_of_load using heldD[OF final] len by (intro nth_equalityI) simp_all
  moreover have "bss = replicate (length jobs) (load_bytes (gm_byte (mk_memory k3)) (unat a) (4 * ?n))"
  proof -
    have "map (\<lambda>(m, v). km_rows m * 4) jobs = replicate (length jobs) (4 * ?n)"
      using exact_projects_rows[OF ex] by (intro replicate_eqI) auto
    then show ?thesis by (simp add: read_results_spec[OF rd] ad zip_replicate)
  qed
  ultimately show ?thesis unfolding vs using len Cons by (intro store_same_scores) auto
qed

end
