(* ===== verification/Kernel_Sound.thy ===== *)
theory Kernel_Sound
  imports Kernel_Scores Pbqp_Solver_Correct "HOL-Library.Countable"
begin

text \<open>
  The hosted kernel meets the contract of the solver. The hypothesis \<open>distinct_addresses\<close> is what the
  view cache relies on: during one call, two views with the same base address, length and stride hold
  the same values, and no operand has the address of the score vector.
\<close>

definition distinct_addresses :: "'t kernel_environment \<Rightarrow> bool" where
  "distinct_addresses env \<longleftrightarrow> (\<forall>k i v.
     (\<forall>j w. view_key (ke_address env k i v) v = view_key (ke_address env k j w) w \<longrightarrow> view_list v = view_list w) \<and>
     ke_address env k i v \<noteq> ke_scores env k)"

lemma same_contents:
  assumes "distinct_addresses env" and "view_key (ke_address env k i v) v = view_key (ke_address env k j w) w"
  shows "view_list v = view_list w"
  using assms(1)[unfolded distinct_addresses_def, THEN spec[of _ k], THEN spec[of _ i], THEN spec[of _ v], THEN conjunct1] assms(2)
  by blast

lemma contents:
  assumes "distinct_addresses env"
  obtains content where "\<And>i v. content (view_key (ke_address env k i v) v) = view_list v"
proof -
  define content where "content key = view_list (SOME v. \<exists>i. key = view_key (ke_address env k i v) v)" for key
  have "content (view_key (ke_address env k i v) v) = view_list v" for i v
  proof -
    let ?P = "\<lambda>w. \<exists>j. view_key (ke_address env k i v) v = view_key (ke_address env k j w) w"
    have "?P (SOME w. ?P w)" by (rule someI[of ?P v]) blast
    then obtain j where "view_key (ke_address env k i v) v = view_key (ke_address env k j (SOME w. ?P w)) (SOME w. ?P w)" ..
    then have "view_list v = view_list (SOME w. ?P w)" by (rule same_contents[OF assms])
    then show ?thesis by (simp add: content_def)
  qed
  then show thesis by (rule that)
qed

section \<open>Calls that report success\<close>

lemma map_call_result: "fst (map_call f call k s) = Inr r \<Longrightarrow> \<exists>x k' s'. call k s = (Inr x, k', s') \<and> r = f x"
  by (auto simp: map_call_def map_sum_def split: prod.splits sum.splits)

lemma concat_decoded: "map decode bss = map spec jobs \<Longrightarrow> (concat \<circ> map decode) bss = concat (map spec jobs)"
  by simp

lemma batch_result:
  assumes "fst (map_call (concat \<circ> map decode) (run_jobs env stage result_size jobs) k s) = Inr rs"
    and "\<And>job. job \<in> set jobs \<Longrightarrow> stage_contract content stage result_size decode job (spec job)"
  shows "rs = concat (map spec jobs)"
proof -
  obtain bss k' s' where run: "run_jobs env stage result_size jobs k s = (Inr bss, k', s')" and rs: "rs = (concat \<circ> map decode) bss"
    using map_call_result[OF assms(1)] by blast
  have "map decode bss = map spec jobs" by (rule run_jobs_spec[OF assms(2) run])
  then show ?thesis by (simp add: rs)
qed

lemma concat_singles: "concat (map (\<lambda>x. [f x]) xs) = map f xs"
  by (induction xs) simp_all

lemma min2_batch_call:
  assumes "distinct_addresses env" and "fst (mk_min2_batch env jobs k s) = Inr rs" and "\<And>a b. (a, b) \<in> set jobs \<Longrightarrow> exact2 a b"
  shows "rs = map (\<lambda>(a, b). first_min (sum2 a b)) jobs"
proof -
  obtain content where ct: "\<And>i v. content (view_key (ke_address env k i v) v) = view_list v" using contents[OF assms(1)] by blast
  have "rs = concat (map (\<lambda>job. [case job of (a, b) \<Rightarrow> first_min (sum2 a b)]) jobs)"
    by (rule batch_result[where content = content, OF assms(2)[unfolded mk_min2_batch_def]]) (use stage_min2_contract(1)[where env = env and address = "ke_address env k" and content = content, OF ct] assms(3) in auto)
  then show ?thesis by (simp add: concat_singles)
qed

lemma min2_value_batch_call:
  assumes "distinct_addresses env" and "fst (mk_min2_value_batch env jobs k s) = Inr vs" and "\<And>a b. (a, b) \<in> set jobs \<Longrightarrow> exact2 a b"
  shows "vs = map (\<lambda>(a, b). fst (first_min (sum2 a b))) jobs"
proof -
  obtain content where ct: "\<And>i v. content (view_key (ke_address env k i v) v) = view_list v" using contents[OF assms(1)] by blast
  have "vs = concat (map (\<lambda>job. [case job of (a, b) \<Rightarrow> fst (first_min (sum2 a b))]) jobs)"
    by (rule batch_result[where content = content, OF assms(2)[unfolded mk_min2_value_batch_def]]) (use stage_min2_contract(2)[where env = env and address = "ke_address env k" and content = content, OF ct] assms(3) in auto)
  then show ?thesis by (simp add: concat_singles)
qed

lemma min3_batch_call:
  assumes "distinct_addresses env" and "fst (mk_min3_batch env jobs k s) = Inr rs"
    and "\<And>a b c. (a, b, c) \<in> set jobs \<Longrightarrow> exact_min3 a b c"
  shows "rs = map (\<lambda>(a, b, c). first_min (sum3 a b (view_at c))) jobs"
proof -
  obtain content where ct: "\<And>i v. content (view_key (ke_address env k i v) v) = view_list v" using contents[OF assms(1)] by blast
  have "rs = concat (map (\<lambda>job. [case job of (a, b, c) \<Rightarrow> first_min (sum3 a b (view_at c))]) jobs)"
    by (rule batch_result[where content = content, OF assms(2)[unfolded mk_min3_batch_def]])
      (use stage_min3_contract[where env = env and address = "ke_address env k" and content = content, OF ct] assms(3) in \<open>auto simp: exact_min3_def\<close>)
  then show ?thesis by (simp add: concat_singles)
qed

lemma map3_batch_call:
  assumes "distinct_addresses env" and "fst (mk_map3_project_batch env jobs k s) = Inr rs"
    and "\<And>u f m. (u, f, m) \<in> set jobs \<Longrightarrow> exact_map3 (u, f, m)"
  shows "rs = concat (map map3_rows jobs)"
proof (cases "jobs = []")
  case True
  then show ?thesis using assms(2) by (simp add: mk_map3_project_batch_def)
next
  case False
  obtain content where ct: "\<And>i v. content (view_key (ke_address env k i v) v) = view_list v" using contents[OF assms(1)] by blast
  from assms(2) False have "fst (map_call (concat \<circ> map argmins_of)
        (run_jobs env (stage_map3 env (ke_address env k)) (\<lambda>(u, f, m). km_rows m * 8) jobs)
        (with_cycles (record_vector_map3_projection jobs) k) s) = Inr rs" by (simp add: mk_map3_project_batch_def)
  then show ?thesis by (rule batch_result[where content = content]) (use stage_map3_contract[where env = env and address = "ke_address env k" and content = content, OF ct] assms(3) in auto)
qed

lemma make_kernel_sound:
  assumes "distinct_addresses env"
  shows "cost_kernel (make_kernel env)"
proof
  fix f2 a b k s r
  assume "min2_argmin (make_kernel env) = Some f2" and ex: "exact2 a b" and "fst (f2 a b k s) = Inr r"
  then obtain rs where "fst (mk_min2_batch env [(a, b)] k s) = Inr rs" and "r = hd rs"
    using map_call_result[of hd "mk_min2_batch env [(a, b)]" k s r] by (auto simp: make_kernel_def)
  then show "r = first_min (sum2 a b)" using min2_batch_call[OF assms, of "[(a, b)]" k s rs] ex by simp
next
  fix f3 a b c k s r
  assume "min3_argmin (make_kernel env) = Some f3" and ex: "exact_min3 a b c" and "fst (f3 a b c k s) = Inr r"
  then obtain rs where "fst (mk_min3_batch env [(a, b, c)] k s) = Inr rs" and "r = hd rs"
    using map_call_result[of hd "mk_min3_batch env [(a, b, c)]" k s r] by (auto simp: make_kernel_def)
  then show "r = first_min (sum3 a b (view_at c))" using min3_batch_call[OF assms, of "[(a, b, c)]" k s rs] ex by simp
next
  fix fv a b k s v
  assume "min2_value (make_kernel env) = Some fv" and ex: "exact2 a b" and "fst (fv a b k s) = Inr v"
  then obtain vs where "fst (mk_min2_value_batch env [(a, b)] k s) = Inr vs" and "v = hd vs"
    using map_call_result[of hd "mk_min2_value_batch env [(a, b)]" k s v] by (auto simp: make_kernel_def)
  then show "v = fst (first_min (sum2 a b))" using min2_value_batch_call[OF assms, of "[(a, b)]" k s vs] ex by simp
next
  fix gp jobs scores k s vs
  assume gp: "project_add_batch (make_kernel env) = Some gp" "exact_projects jobs scores" "fst (gp jobs scores k s) = Inr vs"
  obtain content where ct: "\<And>i v. content (view_key (ke_address env k i v) v) = view_list v" using contents[OF assms] by blast
  show "vs = fold project_add jobs scores"
    by (rule project_add_call[OF ct _ gp(2), where s = s]) (use gp assms in \<open>auto simp: make_kernel_def distinct_addresses_def\<close>)
next
  fix g jobs k s rs
  assume "min2_argmin_batch (make_kernel env) = Some g" "\<And>a b. (a, b) \<in> set jobs \<Longrightarrow> exact2 a b" "fst (g jobs k s) = Inr rs"
  then show "rs = map (\<lambda>(a, b). first_min (sum2 a b)) jobs" by (intro min2_batch_call[OF assms]) (auto simp: make_kernel_def)
next
  fix g jobs k s rs
  assume "min3_argmin_batch (make_kernel env) = Some g" "\<And>a b c. (a, b, c) \<in> set jobs \<Longrightarrow> exact_min3 a b c" "fst (g jobs k s) = Inr rs"
  then show "rs = map (\<lambda>(a, b, c). first_min (sum3 a b (view_at c))) jobs"
    by (intro min3_batch_call[OF assms]) (auto simp: make_kernel_def)
next
  fix g jobs k s vs
  assume "min2_value_batch (make_kernel env) = Some g" "\<And>a b. (a, b) \<in> set jobs \<Longrightarrow> exact2 a b" "fst (g jobs k s) = Inr vs"
  then show "vs = map (\<lambda>(a, b). fst (first_min (sum2 a b))) jobs"
    by (intro min2_value_batch_call[OF assms]) (auto simp: make_kernel_def)
next
  fix g jobs k s rs
  assume "map3_project_batch (make_kernel env) = Some g" "\<And>u f m. (u, f, m) \<in> set jobs \<Longrightarrow> exact_map3 (u, f, m)" "fst (g jobs k s) = Inr rs"
  then show "rs = concat (map map3_rows jobs)" by (intro map3_batch_call[OF assms]) (auto simp: make_kernel_def)
qed (simp_all add: make_kernel_def)

section \<open>The plain vector calls\<close>

lemma sum2_length: "length (sum2 a b) = kv_length a"
  by (simp add: sum2_def)

lemma stage_add_vector_contract:
  assumes ct: "\<And>i v. content (view_key (address i v) v) = view_list v" and ex: "exact2 a b"
  shows "stage_contract content (stage_add_vector env address) (\<lambda>(a, b). kv_length a * 4) costs_of (a, b) (sum2 a b)"
proof (rule stage_contractI[where env = env], goal_cases)
  case (1 index k written cs r k')
  obtain p k1 q k2 c where c: "copy_view env (address 0 a) a k = (p, k1)" "copy_view env (address 1 b) b k1 = (q, k2)"
    and al: "allocate_storage env (of_nat (kv_length a) * 4) k2 = (r, k')" and nz: "p \<noteq> 0" "q \<noteq> 0" "r \<noteq> 0" and cs: "cs = [c]"
    and bc: "built_command (pcaa_make_cost_add_vector (staged_vector p (kv_length a)) (staged_vector q (kv_length b))
      (pcaa_cost_output r (of_nat (kv_length a)) 1)) = Inr c"
    using 1(2) by (auto simp: stage_add_vector_def split: prod.splits if_splits sum.splits)
  note b = built_constructed[OF bc[unfolded pcaa_make_cost_add_vector_def]]
  have len: "kv_length b = kv_length a" using ex by (simp add: exact2_def)
  have vc: "valid_cost (view_at a i)" "valid_cost (view_at b i)" if "i < kv_length a" for i
    using ex that by (simp_all add: exact2_def)
  note s = two_views_staged[OF 1(1) c nz(1,2) ct ct _ _ vc(1) vc(2), simplified len, simplified]
  have n: "unat (of_nat (kv_length a) :: u64) = kv_length a" by (rule held_view_length[OF s(3)])
  have sz: "unat (of_nat (kv_length a) * 4 :: u64) = 4 * kv_length a" using s(3) by (intro bytes_of_costs) (simp add: held_def)
  have "costs_of (load_bytes g (unat r) (4 * kv_length a)) = sum2 a b \<and> (\<forall>x. x \<notin> {unat r..<unat r + 4 * kv_length a} \<longrightarrow> g x = f x)"
    if h: "\<forall>(o', xs) \<in> {(p, view_list a), (q, view_list b)}. held region f o' xs" and run: "run_maps mp cs f g" for mp f g region
  proof -
    have h': "cost_at f (unat p + 4 * i) = view_at a i" "cost_at f (unat q + 4 * i) = view_at b i" if "i < kv_length a" for i
      using h held_at[of region f p a i] held_at[of region f q b i] that len by (simp_all add: mult.commute)
    have "computes mp (PCAA_COST_ADD_VECTOR \<lparr>va_first = staged_vector p (kv_length a), va_second = staged_vector q (kv_length a),
        va_result = pcaa_cost_output r (of_nat (kv_length a)) 1\<rparr>) f g" using run b(1) cs len by simp
    note add = add_run[OF this refl n h']
    have "\<And>i. i < kv_length a \<Longrightarrow> cost_add (view_at a i) (view_at b i) \<noteq> None" using ex by (simp add: exact2_def)
    note add' = add[OF _ _ this]
    show ?thesis using costs_of_stored[where v = "\<lambda>i. accel_cost_add (view_at a i) (view_at b i)", OF add'(1)] add'(2) ex
      by (simp add: sum2_def exact2_def accel_add_valid)
  qed
  then show ?case using s al nz(3) sz
    by (intro exI[of _ k2] exI[of _ "of_nat (kv_length a) * 4"] exI[of _ "{(p, view_list a), (q, view_list b)}"]) (simp add: mult.commute)
qed

lemma stage_project_contract:
  assumes ct: "\<And>i v. content (view_key (address i v) v) = view_list v" and rows: "km_rows m < 2 ^ 32" "km_columns m = kv_length v"
    and ex: "\<And>r. r < km_rows m \<Longrightarrow> exact2 (row_view m r) v" and vw: "4 * kv_length v < 2 ^ 64"
  shows "stage_contract content (stage_project env address) (\<lambda>(m, v). km_rows m * 4) costs_of (m, v) (map (project_row m v) [0..<km_rows m])"
proof (rule stage_contractI[where env = env], goal_cases)
  case (1 index k written cs r k')
  obtain p k1 q k2 c where c: "copy_matrix env m k = (p, k1)" "copy_view env (address 0 v) v k1 = (q, k2)"
    and al: "allocate_storage env (of_nat (km_rows m) * 4) k2 = (r, k')" and nz: "p \<noteq> 0" "q \<noteq> 0" "r \<noteq> 0" and cs: "cs = [c]"
    and bc: "built_command (pcaa_make_minplus_project (staged_matrix p m) (staged_vector q (kv_length v))
      (pcaa_cost_output r (of_nat (km_rows m)) 1)) = Inr c"
    using 1(2) by (auto simp: stage_project_def split: prod.splits if_splits sum.splits)
  note b = built_constructed[OF bc[unfolded pcaa_make_minplus_project_def]]
  have n: "unat (of_nat (km_rows m) :: u64) = km_rows m" using rows(1) by (simp add: unat_of_nat take_bit_nat_eq_self)
  have col: "unat (of_nat (km_columns m) :: u64) = km_columns m" using vw rows(2) by (simp add: unat_of_nat take_bit_nat_eq_self)
  have small: "km_rows m \<le> 65535" "km_columns m \<le> 65535" "0 < km_rows m"
    using b(2) n col by (auto elim!: valid_projectD dest!: span_nonempty)
  then have fit: "4 * (km_rows m * km_columns m) < 2 ^ 64" by (intro matrix_fits)
  have vm: "valid_cost (matrix_at m row i)" if "row < km_rows m" "i < km_columns m" for row i
    using ex[OF that(1)] that(2) rows(2) by (simp add: exact2_def view_at_row)
  have vv: "valid_cost (view_at v i)" if "i < kv_length v" for i
    using ex[OF small(3)] that by (simp add: exact2_def)
  note s1 = copy_matrix_ok[OF 1(1) c(1) nz(1) fit vm]
  note s2 = copy_view_ok[OF s1(1) c(2) nz(2) ct _ vv]
  have pm: "held (frozen {} written k2) (gm_byte (mk_memory k2)) p (matrix_list m)"
    by (rule held_extends[OF s1(1) s2(2) _ s1(3)]) auto
  have sz: "unat (of_nat (km_rows m) * 4 :: u64) = 4 * km_rows m" using small(1) by (intro bytes_of_costs) simp
  have "costs_of (load_bytes g (unat r) (4 * km_rows m)) = map (project_row m v) [0..<km_rows m] \<and>
      (\<forall>x. x \<notin> {unat r..<unat r + 4 * km_rows m} \<longrightarrow> g x = f x)"
    if h: "\<forall>(o', xs) \<in> {(p, matrix_list m), (q, view_list v)}. held region f o' xs" and run: "run_maps mp cs f g" for mp f g region
  proof -
    have "computes mp (PCAA_MINPLUS_PROJECT \<lparr>pj_matrix = staged_matrix p m, pj_vector = staged_vector q (kv_length v),
        pj_result = pcaa_cost_output r (of_nat (km_rows m)) 1\<rparr>) f g" using run b(1) cs by simp
    note pr = project_run[OF this refl _ _ n ex rows(2), of region region]
    show ?thesis using costs_of_stored[where v = "project_row m v", OF pr(1)] pr(2) h min2_result(1)[OF ex]
      by (simp add: project_row_def)
  qed
  then show ?case using s2(1) extends_trans[OF s1(2) s2(2)] s2(3) pm al nz(3) sz
    by (intro exI[of _ k2] exI[of _ "of_nat (km_rows m) * 4"] exI[of _ "{(p, matrix_list m), (q, view_list v)}"]) (simp add: mult.commute)
qed

lemma vector_calls:
  assumes "distinct_addresses env"
  shows "exact2 a b \<Longrightarrow> fst (mk_cost_add_vector env a b k s) = Inr rs \<Longrightarrow> rs = sum2 a b"
    and "km_rows m < 2 ^ 32 \<Longrightarrow> km_columns m = kv_length v \<Longrightarrow> 4 * kv_length v < 2 ^ 64 \<Longrightarrow>
      (\<And>r. r < km_rows m \<Longrightarrow> exact2 (row_view m r) v) \<Longrightarrow> fst (mk_minplus_project env m v k s) = Inr rs \<Longrightarrow>
      rs = map (project_row m v) [0..<km_rows m]"
proof -
  obtain content where ct: "\<And>i v. content (view_key (ke_address env k i v) v) = view_list v" using contents[OF assms] by blast
  show "rs = sum2 a b" if "exact2 a b" "fst (mk_cost_add_vector env a b k s) = Inr rs"
    using batch_result[where content = content and spec = "\<lambda>_. sum2 a b", OF that(2)[unfolded mk_cost_add_vector_def]]
      stage_add_vector_contract[where env = env and address = "ke_address env k" and content = content, OF ct that(1)] by simp
  show "rs = map (project_row m v) [0..<km_rows m]" if "km_rows m < 2 ^ 32" "km_columns m = kv_length v" "4 * kv_length v < 2 ^ 64"
    "\<And>r. r < km_rows m \<Longrightarrow> exact2 (row_view m r) v" "fst (mk_minplus_project env m v k s) = Inr rs"
    using batch_result[where content = content and spec = "\<lambda>_. map (project_row m v) [0..<km_rows m]", OF that(5)[unfolded mk_minplus_project_def]]
      stage_project_contract[where env = env and address = "ke_address env k" and content = content, OF ct that(1,2,4,3)] by simp
qed

text \<open>\<open>cost_add_vector\<close> and \<open>minplus_project\<close>, which the solver does not call, as clients of the table see them.\<close>

definition vector_calls_exact :: "'k pbqp_cost_kernel \<Rightarrow> bool" where
  "vector_calls_exact api \<longleftrightarrow> (\<forall>add project a b m v k s rs.
     (cost_add_vector api = Some add \<longrightarrow> exact2 a b \<longrightarrow> fst (add a b k s) = Inr rs \<longrightarrow> rs = sum2 a b) \<and>
     (minplus_project api = Some project \<longrightarrow> km_rows m < 2 ^ 32 \<longrightarrow> km_columns m = kv_length v \<longrightarrow> 4 * kv_length v < 2 ^ 64 \<longrightarrow>
        (\<forall>r < km_rows m. exact2 (row_view m r) v) \<longrightarrow> fst (project m v k s) = Inr rs \<longrightarrow> rs = map (project_row m v) [0..<km_rows m]))"

lemma make_kernel_vectors: "distinct_addresses env \<Longrightarrow> vector_calls_exact (make_kernel env)"
  using vector_calls[of env] by (simp add: vector_calls_exact_def make_kernel_def)

section \<open>Claims\<close>

text \<open>An environment: the address of a view is a number for its values, so that it determines them.\<close>

definition example_environment :: "unit kernel_environment" where
  "example_environment = \<lparr>ke_grow = (\<lambda>_. True), ke_host_grants = (\<lambda>_. True), ke_timing = example_timing, ke_zero_time = (),
     ke_address = (\<lambda>k i v. Suc (list_encode (map int_encode (view_list v)))), ke_scores = (\<lambda>k. 0)\<rparr>"

lemma example_addresses: "distinct_addresses example_environment"
proof -
  have "inj int_encode" by (rule inj_int_encode)
  then show ?thesis by (simp add: distinct_addresses_def example_environment_def view_key_def list_encode_eq inj_map_eq_map)
qed

interpretation mk: cost_kernel "make_kernel example_environment"
  by (rule make_kernel_sound[OF example_addresses])

text \<open>
  C19: the hosted kernel refines the contract the solver relies on. Whatever state the context was left
  in, a call that reports success stored exactly what the reference computes: the operands were copied
  to guest memory, the commands encoded, submitted through the SystemC adapter and run by the device,
  and the results read back; no staging, caching of views, in-place addition to the shared scores or
  allocation lets one job disturb another. Hypothesis: equal view keys mean equal contents, and no
  operand lies at the address of the scores.
\<close>

theorem model_kernel_contract:
  assumes "distinct_addresses env"
  shows "cost_kernel (make_kernel env) \<and> vector_calls_exact (make_kernel env)"
  using make_kernel_sound[OF assms] make_kernel_vectors[OF assms] ..

theorem model_kernel_contract_witness:
  "cost_kernel (make_kernel example_environment) \<and> vector_calls_exact (make_kernel example_environment)"
  by (rule model_kernel_contract[OF example_addresses])

definition solution_optimal :: "pbqp_problem \<Rightarrow> 'k solve_result \<Rightarrow> bool" where
  "solution_optimal p r \<longleftrightarrow> (\<exists>sol' x. sr_solution r = Some sol' \<and> so_assignment sol' = Some x \<and> valid_assignment p x \<and>
     so_optimum sol' = pbqp_evaluate p x \<and> (\<forall>y. valid_assignment p y \<longrightarrow> so_optimum sol' \<le> pbqp_evaluate p y))"

text \<open>
  C3: the whole hosted stack is safe. An exact solve whose primitives run on the functional accelerator
  never returns \<open>PBQP_OK\<close> with an assignment that is not optimal: for every state of the kernel and its
  memory, every allocator of the host, every guest memory limit and every timing configuration, running
  out of staging space or any other failure ends in another status.
\<close>

theorem accelerated_solve_safe:
  assumes "distinct_addresses env" and "so_kernel handle = make_kernel env" and "exact_strategy (cf_strategy (so_config handle))"
    and "pbqp_wf p" and "fresh_problem p" and "solution_fits p sol"
  shows "\<not> (\<exists>r. pbqp_solver_solve grants k (Some handle) (Some p) (Some sol) = Some r \<and> sr_status r = PBQP_OK \<and> \<not> solution_optimal p r)"
proof -
  have "cost_kernel (so_kernel handle)" unfolding assms(2) by (rule make_kernel_sound[OF assms(1)])
  then show ?thesis unfolding solution_optimal_def using kernel_solve_sound[OF assms(4-6) _ assms(3)] by blast
qed

theorem accelerated_solve_safe_witness:
  "\<not> (\<exists>r. pbqp_solver_solve (\<lambda>_. True) (ModelKernel example_memory)
     (Some ((example_handle PBQP_STRATEGY_EXACT_CORE_ENUMERATION)\<lparr>so_kernel := make_kernel example_environment\<rparr>))
     (Some example_problem) (Some example_solution) = Some r \<and> sr_status r = PBQP_OK \<and> \<not> solution_optimal example_problem r)"
  by (rule accelerated_solve_safe[OF example_addresses _ _ example_ok(1,2,5)])
    (simp_all add: example_handle_def exact_strategy_def pbqp_solver_default_config_def)

end
