(* ===== verification/Graph_Runner_Correct.thy ===== *)
theory Graph_Runner_Correct
  imports Graph_Runner Graph_Text_Correct Pbqp_Build Pbqp_Bruteforce Kernel_Sound
begin

text \<open>
  The graph runner from the text to the answer: the problem it builds has exactly the costs of the
  text, and the optimum it prints for an exact strategy is the least cost of the text's graph.
\<close>

section \<open>The meaning of a text graph\<close>

text \<open>
  The cost of a choice of values, in the integers with infinity; an edge names its table by the value of
  its first node, then of its second.
\<close>

definition input_edge_cost :: "input_problem \<Rightarrow> nat list \<Rightarrow> input_edge \<Rightarrow> ecost" where
  "input_edge_cost input x e = cost_abs (ie_costs e ! (x ! ie_first e * domain_at input (ie_second e) + x ! ie_second e))"

definition input_cost :: "input_problem \<Rightarrow> nat list \<Rightarrow> ecost" where
  "input_cost input x = (\<Sum>n<length (ip_nodes input). cost_abs (in_unary (ip_nodes input ! n) ! (x ! n))) +
     sum_list (map (input_edge_cost input x) (ip_edges input))"

definition valid_choice :: "input_problem \<Rightarrow> nat list \<Rightarrow> bool" where
  "valid_choice input x \<longleftrightarrow> length (ip_nodes input) \<le> length x \<and> (\<forall>n < length (ip_nodes input). x ! n < domain_at input n)"

definition small_domains :: "input_problem \<Rightarrow> bool" where
  "small_domains input \<longleftrightarrow> (\<forall>node \<in> set (ip_nodes input). length (in_unary node) < 65536)"

section \<open>Building\<close>

text \<open>What the problem holds after some nodes and edges have been added.\<close>

definition holds_nodes :: "input_problem \<Rightarrow> nat \<Rightarrow> pbqp_problem \<Rightarrow> bool" where
  "holds_nodes input k p \<longleftrightarrow> usable p \<and> tidy p \<and> pb_node_count p = k \<and>
     (\<forall>n < k. nd_domain (node_at p n) = domain_at input n \<and> (\<forall>v < domain_at input n. nd_unary (node_at p n) ! v = in_unary (ip_nodes input ! n) ! v))"

definition holds_edges :: "input_problem \<Rightarrow> input_edge list \<Rightarrow> pbqp_problem \<Rightarrow> bool" where
  "holds_edges input es p \<longleftrightarrow>
     (\<forall>x. valid_choice input x \<longrightarrow> (\<Sum>e<pb_edge_capacity p. edge_term p x e) = sum_list (map (input_edge_cost input x) es))"

lemma add_input_node_step:
  assumes h: "holds_nodes input k p" and k: "k < length (ip_nodes input)" and run: "add_input_node (ip_nodes input ! k) p = Some p'"
  shows "holds_nodes input (Suc k) p'" and "pb_edges p' = pb_edges p \<and> pb_edge_capacity p' = pb_edge_capacity p"
proof -
  let ?d = "domain_at input k" and ?cs = "in_unary (ip_nodes input ! k)"
  have r: "pbqp_add_node (Some p) ?d (Some ?cs) = (PBQP_OK, Some p')"
    using run by (auto simp: add_input_node_def domain_at_def pbqp_add_node_def Let_def split: prod.splits pbqp_status.splits if_splits)
  have u: "usable p" "tidy p" and c: "pb_node_count p = k" using h by (simp_all add: holds_nodes_def)
  note f = add_node_form[OF r] and a = add_node_usable[OF u r]
  have len: "length (pb_nodes p) = pb_node_capacity p" and kc: "k < pb_node_capacity p" "length (nd_unary (node_at p k)) = pb_domain_capacity p"
    using u(1) f(3) c by (auto simp: usable_def pbqp_wf_def shape_ok_def)
  have at: "node_at p' n = (if n = k then filled_node ?d ?cs (node_at p k) else node_at p n)" for n using f(5) c kc(1) len by simp
  have "nd_unary (filled_node ?d ?cs (node_at p k)) ! v = ?cs ! v" if "v < ?d" for v
    using filled_node_unary[OF that] f(2) kc(2) by simp
  moreover have "pb_node_count p' = Suc k" using f(5) c by simp
  ultimately show "holds_nodes input (Suc k) p'" using h a(1,2) unfolding holds_nodes_def at by (simp add: less_Suc_eq)
  show "pb_edges p' = pb_edges p \<and> pb_edge_capacity p' = pb_edge_capacity p" using f(5) by simp
qed

lemma add_edge_sum:
  assumes u: "usable p" and run: "pbqp_add_edge (Some p) a b (Some costs) = (PBQP_OK, Some p')"
    and x: "x ! a < nd_domain (node_at p a)" "x ! b < nd_domain (node_at p b)"
  shows "(\<Sum>e<pb_edge_capacity p'. edge_term p' x e) =
    (\<Sum>e<pb_edge_capacity p. edge_term p x e) + cost_abs (costs ! (x ! a * nd_domain (node_at p b) + x ! b))"
proof -
  obtain i where ab: "a < pb_node_count p" "b < pb_node_count p"
    and i: "i < pb_edge_capacity p" "\<not> eg_active (edge_at p i)"
    and p': "p' = p\<lparr>pb_edge_count := pb_edge_count p + 1,
      pb_edges := (pb_edges p)[i := filled_edge a b (nd_domain (node_at p a)) (nd_domain (node_at p b)) costs (edge_at p i)]\<rparr>"
    by (rule add_edge_form[OF run]; rule that; assumption)
  have wf: "shape_ok p" "graph_ok p" using u by (auto simp: usable_def pbqp_wf_def)
  let ?e = "filled_edge a b (nd_domain (node_at p a)) (nd_domain (node_at p b)) costs (edge_at p i)"
  have at: "edge_at p' e = (if e = i then ?e else edge_at p e)" for e using p' i wf(1) by (simp add: shape_ok_def)
  have "edge_cost ?e (x ! a) (x ! b) = costs ! (x ! a * nd_domain (node_at p b) + x ! b)"
    by (rule filled_edge_cost) (use x wf ab i in \<open>auto simp: shape_ok_def graph_ok_def\<close>)
  then have ti: "edge_term p' x i = cost_abs (costs ! (x ! a * nd_domain (node_at p b) + x ! b))" by (simp add: edge_term_def at)
  have o: "edge_term p' x e = edge_term p x e" if "e \<noteq> i" for e using that by (simp add: edge_term_def at)
  have z: "edge_term p x i = 0" using i(2) by (simp add: edge_term_def)
  have "(\<Sum>e<pb_edge_capacity p. edge_term p' x e) = edge_term p' x i + (\<Sum>e\<in>{..<pb_edge_capacity p} - {i}. edge_term p' x e)"
    using i(1) by (intro sum.remove) auto
  also have "(\<Sum>e\<in>{..<pb_edge_capacity p} - {i}. edge_term p' x e) = (\<Sum>e\<in>{..<pb_edge_capacity p} - {i}. edge_term p x e)"
    using o by (intro sum.cong) auto
  also have "edge_term p' x i + \<dots> = edge_term p' x i + (edge_term p x i + \<dots>)" by (simp add: z)
  also have "edge_term p x i + (\<Sum>e\<in>{..<pb_edge_capacity p} - {i}. edge_term p x e) = (\<Sum>e<pb_edge_capacity p. edge_term p x e)"
    using i(1) by (intro sum.remove[symmetric]) auto
  finally show ?thesis using ti p' by (simp add: add.commute)
qed

lemma add_input_edge_step:
  assumes h: "holds_nodes input (length (ip_nodes input)) p" and e: "holds_edges input es p" and v: "valid_edge_of input edge"
    and run: "add_input_edge edge p = Some p'"
  shows "holds_nodes input (length (ip_nodes input)) p' \<and> holds_edges input (es @ [edge]) p'"
proof -
  have r: "pbqp_add_edge (Some p) (ie_first edge) (ie_second edge) (Some (ie_costs edge)) = (PBQP_OK, Some p')"
    using run by (auto simp: add_input_edge_def pbqp_add_edge_def Let_def split: prod.splits pbqp_status.splits if_splits option.splits)
  have u: "usable p" "tidy p" using h by (simp_all add: holds_nodes_def)
  note a = add_edge_usable[OF u r]
  have n: "pb_nodes p' = pb_nodes p" using a(4) by blast
  have c: "pb_node_count p' = pb_node_count p" by (rule add_edge_form[OF r]) simp
  have "holds_nodes input (length (ip_nodes input)) p'" using h a(1,2) by (simp add: holds_nodes_def n c)
  moreover have "(\<Sum>e<pb_edge_capacity p'. edge_term p' x e) = sum_list (map (input_edge_cost input x) (es @ [edge]))" if x: "valid_choice input x" for x
  proof -
    have d: "nd_domain (node_at p (ie_first edge)) = domain_at input (ie_first edge)" "nd_domain (node_at p (ie_second edge)) = domain_at input (ie_second edge)"
      using h v by (auto simp: holds_nodes_def valid_edge_of_def)
    then show ?thesis using add_edge_sum[OF u(1) r, of x] x e v by (simp add: valid_choice_def valid_edge_of_def holds_edges_def input_edge_cost_def)
  qed
  ultimately show ?thesis by (simp add: holds_edges_def)
qed

lemma fold_option_steps:
  assumes "fold_option f xs s = Some s'" and "P 0 s" and "\<And>k s s'. k < length xs \<Longrightarrow> P k s \<Longrightarrow> f (xs ! k) s = Some s' \<Longrightarrow> P (Suc k) s'"
  shows "P (length xs) s'"
  using assms
proof (induction xs arbitrary: s' rule: rev_induct)
  case (snoc x xs)
  obtain t where t: "fold_option f xs s = Some t" "f x t = Some s'"
    using snoc.prems(1) by (auto simp: fold_option_append bind_eq_Some_conv split: option.splits)
  have "P (length xs) t"
  proof (rule snoc.IH[OF t(1) snoc.prems(2)])
    fix k s s' assume "k < length xs" "P k s" "f (xs ! k) s = Some s'"
    then show "P (Suc k) s'" using snoc.prems(3)[of k s s'] by (simp add: nth_append)
  qed
  then show ?case using snoc.prems(3)[of "length xs" t s'] t(2) by simp
qed simp

lemma fold_max: "fold (\<lambda>node m. max m (f node)) xs (m :: nat) < b \<longleftrightarrow> m < b \<and> (\<forall>node \<in> set xs. f node < b)"
  by (induction xs arbitrary: m) auto

lemma build_problem_holds:
  assumes run: "build_problem heap input fixed = Some p" and v: "valid_input input" and s: "small_domains input"
  shows "holds_nodes input (length (ip_nodes input)) p" and "holds_edges input (ip_edges input) p"
proof -
  let ?m = "fold (\<lambda>node m. max m (length (in_unary node))) (ip_nodes input) 0"
  let ?dc = "of_nat (if fixed then PBQP_MAX_DOMAIN else ?m) :: u32"
  obtain nc ec p0 p1 where init: "pbqp_init (Some empty_problem) (Some heap) nc ec ?dc = (PBQP_OK, Some p0)"
    and nodes: "fold_option add_input_node (ip_nodes input) p0 = Some p1" and edges: "fold_option add_input_edge (ip_edges input) p1 = Some p"
    using run by (auto simp: build_problem_def Let_def bind_eq_Some_conv split: if_splits prod.splits pbqp_status.splits option.splits)
  have "?m < 65536" using s by (simp add: fold_max small_domains_def)
  then have dc: "unat ?dc < 2 ^ 16" by (auto simp: unat_of_nat)
  note i = init_usable[OF init dc]
  have p0: "p0 = zeroed_problem (unat nc) (unat ec) (unat ?dc)" using init by (auto simp: pbqp_init_def Let_def split: if_splits)
  let ?P = "\<lambda>k q. holds_nodes input k q \<and> pb_edges q = pb_edges p0 \<and> pb_edge_capacity q = pb_edge_capacity p0"
  have "?P (length (ip_nodes input)) p1"
  proof (rule fold_option_steps[OF nodes])
    show "?P 0 p0" using i init_tidy[OF init] by (simp add: holds_nodes_def)
    fix k q q' assume "k < length (ip_nodes input)" "?P k q" "add_input_node (ip_nodes input ! k) q = Some q'"
    then show "?P (Suc k) q'" using add_input_node_step by metis
  qed
  then have n1: "holds_nodes input (length (ip_nodes input)) p1" and e1: "holds_edges input [] p1"
    by (auto simp: holds_edges_def edge_term_def p0 zero_edge_def)
  have "holds_nodes input (length (ip_nodes input)) p \<and> holds_edges input (take (length (ip_edges input)) (ip_edges input)) p"
  proof (rule fold_option_steps[OF edges, where P = "\<lambda>k q. holds_nodes input (length (ip_nodes input)) q \<and> holds_edges input (take k (ip_edges input)) q"])
    fix k q q' assume k: "k < length (ip_edges input)" and h: "holds_nodes input (length (ip_nodes input)) q \<and> holds_edges input (take k (ip_edges input)) q"
      and r: "add_input_edge (ip_edges input ! k) q = Some q'"
    have "valid_edge_of input (ip_edges input ! k)" using v k by (simp add: valid_input_def)
    then show "holds_nodes input (length (ip_nodes input)) q' \<and> holds_edges input (take (Suc k) (ip_edges input)) q'"
      using add_input_edge_step[of input q "take k (ip_edges input)" _ q'] h r k by (simp add: take_Suc_conv_app_nth)
  qed (use n1 e1 in simp)
  then show "holds_nodes input (length (ip_nodes input)) p" "holds_edges input (ip_edges input) p" by simp_all
qed

lemma built_input:
  assumes run: "build_problem heap input fixed = Some p" and v: "valid_input input" and s: "small_domains input"
  shows "pbqp_wf p" and "fresh_problem p" and "storable p" and "pb_node_count p = length (ip_nodes input)"
    and "valid_assignment p x \<longleftrightarrow> valid_choice input x"
    and "valid_choice input x \<Longrightarrow> cost_abs (pbqp_evaluate p x) = input_cost input x"
proof -
  note h = build_problem_holds[OF assms]
  have d: "nd_domain (node_at p n) = domain_at input n" "\<And>v. v < domain_at input n \<Longrightarrow> nd_unary (node_at p n) ! v = in_unary (ip_nodes input ! n) ! v"
    if "n < length (ip_nodes input)" for n using h(1) that by (auto simp: holds_nodes_def)
  show w: "pbqp_wf p" "fresh_problem p" "storable p" and c: "pb_node_count p = length (ip_nodes input)"
    using h(1) by (auto simp: holds_nodes_def usable_def)
  have act: "nd_active (node_at p n)" if "n < length (ip_nodes input)" for n using w(2) c that by (simp add: fresh_problem_def)
  show val: "valid_assignment p x \<longleftrightarrow> valid_choice input x"
    using act d(1) by (auto simp: valid_assignment_def valid_choice_def c)
  assume x: "valid_choice input x"
  have "cost_abs (pbqp_evaluate p x) = core_cost p x"
    using evaluate_exact(1)[OF w(1,2)] val x w(2) by (simp add: total_cost_def fresh_problem_def)
  moreover have "(\<Sum>n<pb_node_count p. node_term p x n) = (\<Sum>n<length (ip_nodes input). cost_abs (in_unary (ip_nodes input ! n) ! (x ! n)))"
    using act d x c by (intro sum.cong) (auto simp: node_term_def valid_choice_def)
  moreover have "(\<Sum>e<pb_edge_capacity p. edge_term p x e) = sum_list (map (input_edge_cost input x) (ip_edges input))"
    using h(2) x by (simp add: holds_edges_def)
  ultimately show "cost_abs (pbqp_evaluate p x) = input_cost input x" by (simp add: core_cost_def input_cost_def)
qed

section \<open>Running\<close>

lemma clone_evaluate:
  assumes "pbqp_wf p" and "pbqp_problem_clone (Some empty_problem) (Some p) heap = (PBQP_OK, Some original)"
  shows "pbqp_evaluate original = pbqp_evaluate p"
proof -
  have "pb_edge_capacity p < 2 ^ 32" using assms(1) by (simp add: pbqp_wf_def shape_ok_def)
  then have "unat (of_nat (pb_edge_capacity p) :: u32) = pb_edge_capacity p" by (simp add: unat_of_nat)
  then have "pb_nodes original = pb_nodes p \<and> pb_edges original = pb_edges p \<and> pb_node_count original = pb_node_count p \<and>
      pb_edge_capacity original = pb_edge_capacity p"
    using assms(2) by (auto simp: pbqp_problem_clone_def pbqp_init_def Let_def zeroed_problem_def split: if_splits prod.splits pbqp_status.splits option.splits)
  then show ?thesis by (intro ext) (simp add: pbqp_evaluate_def)
qed

lemma fresh_solution: "pbqp_solution_init (Some s) (Some (replicate n 0)) n =
    Some \<lparr>so_optimum = ACCEL_INF, so_assignment = Some (replicate n 0), so_assignment_capacity = n\<rparr>"
  by (simp add: pbqp_solution_init_def)

lemma runner_handle:
  assumes "pbqp_solver_create_with_config (Some s) PBQP_MODE_ACCELERATOR (Some (make_kernel env)) (Some config) d = (PBQP_OK, handle)"
  obtains h where "handle = Some h" and "so_kernel h = make_kernel env" and "so_config h = config"
  using assms by (auto simp: pbqp_solver_create_with_config_def split: if_splits)

lemma distinct_addresses_timing: "distinct_addresses (env\<lparr>ke_timing := timing\<rparr>) = distinct_addresses env"
  by (cases env) (simp only: distinct_addresses_def kernel_environment.update_convs kernel_environment.select_convs)

text \<open>The answers of a run with an exact strategy that are right for the graph.\<close>

definition sound_output :: "'t runner_environment \<Rightarrow> pbqp_solver_strategy \<Rightarrow> input_problem \<Rightarrow> string \<Rightarrow> bool" where
  "sound_output env strategy input text_n \<longleftrightarrow>
     text_n = ''status IRREDUCIBLE'' @ newline # strategy_line strategy \<or> text_n = ''status SEARCH_LIMIT'' @ newline # strategy_line strategy \<or>
     (\<exists>c x timing. text_n = report strategy c x @ timing \<and> (\<not> re_timed env \<longrightarrow> timing = []) \<and> valid_choice input x \<and>
        cost_abs c = input_cost input x \<and> (\<forall>y. valid_choice input y \<longrightarrow> input_cost input x \<le> input_cost input y))"

lemma run_solver_cases:
  assumes v: "valid_input input" and s: "small_domains input" and build: "build_problem (re_heap env) input fixed = Some p"
    and addresses: "distinct_addresses (re_kernel env)"
  shows "run_solver env config (length (ip_nodes input)) p \<noteq> None"
    and "run_solver env config (length (ip_nodes input)) p = Some (code, out_text, events) \<Longrightarrow> code = 0 \<Longrightarrow> exact_kind (cf_strategy config) \<Longrightarrow>
      sound_output env (cf_strategy config) input out_text"
proof -
  note b = built_input[OF build v s]
  let ?env = "(re_kernel env)\<lparr>ke_timing := runner_timing_config env\<rparr>" and ?n = "length (ip_nodes input)"
  let ?k = "ModelKernel (gm_init 18446744073709551615)"
  let ?sol = "\<lparr>so_optimum = ACCEL_INF, so_assignment = Some (replicate ?n 0), so_assignment_capacity = ?n\<rparr>"
  let ?local = "\<lparr>so_mode = PBQP_MODE_SOFTWARE, so_kernel = make_kernel ?env, so_config = config, so_last_kernel_status = 0\<rparr>"
  have "distinct_addresses ?env" using addresses by (simp only: distinct_addresses_timing)
  then have kernel: "cost_kernel (make_kernel ?env)" by (rule make_kernel_sound)
  have fits: "solution_fits p ?sol" by (simp add: solution_fits_def b(4))
  show "run_solver env config ?n p \<noteq> None"
  proof (cases "\<exists>original. pbqp_problem_clone (Some empty_problem) (Some p) (Some (re_heap env)) = (PBQP_OK, Some original)")
    case True
    then obtain original where c: "pbqp_problem_clone (Some empty_problem) (Some p) (Some (re_heap env)) = (PBQP_OK, Some original)" by blast
    let ?create = "pbqp_solver_create_with_config (Some ?local) PBQP_MODE_ACCELERATOR (Some (make_kernel ?env)) (Some config) False"
    show ?thesis
    proof (cases "fst ?create = PBQP_OK")
      case True
      then obtain handle where cr: "?create = (PBQP_OK, handle)" by (cases ?create) simp
      then obtain h where h: "handle = Some h" "so_kernel h = make_kernel ?env" by (rule runner_handle)
      have "pbqp_solver_solve (re_workspace env) ?k (Some h) (Some p) (Some ?sol) \<noteq> None"
        by (rule every_solve_returns[OF b(1,2)]) (use kernel h in auto)
      then show ?thesis unfolding run_solver_def Let_def fresh_solution c
        by (simp only: prod.case pbqp_status.case option.case cr h(1) option.map_disc_iff not_False_eq_True)
    next
      case False
      then obtain s handle where cr: "?create = (s, handle)" "s \<noteq> PBQP_OK" by (cases ?create) simp
      show ?thesis unfolding run_solver_def Let_def fresh_solution c cr(1) using cr(2) by (cases s) simp_all
    qed
  next
    case False
    then show ?thesis by (auto simp: run_solver_def Let_def split: prod.splits pbqp_status.splits option.splits)
  qed
  assume run: "run_solver env config ?n p = Some (code, out_text, events)" and code: "code = 0" and exact: "exact_kind (cf_strategy config)"
  obtain s1 q where c: "pbqp_problem_clone (Some empty_problem) (Some p) (Some (re_heap env)) = (s1, q)" by fastforce
  obtain s2 handle where cr: "pbqp_solver_create_with_config (Some ?local) PBQP_MODE_ACCELERATOR (Some (make_kernel ?env)) (Some config) False = (s2, handle)"
    by fastforce
  note run' = run[unfolded code run_solver_def Let_def fresh_solution c cr prod.case]
  have s1: "s1 = PBQP_OK" using run' by (cases s1) simp_all
  then obtain original where q: "q = Some original" using run' by (cases q) simp_all
  have s2: "s2 = PBQP_OK" using run' s1 q by (cases s2) simp_all
  note clone = c[unfolded s1 q] and create = cr[unfolded s2]
  obtain r where solve: "pbqp_solver_solve (re_workspace env) ?k handle (Some p) (Some ?sol) = Some r"
    and "(case finish_solve env (cf_strategy config) original r of (code, out_text) \<Rightarrow> (code, out_text, sr_trace r)) = (0, out_text, events)"
    using run' unfolding s1 s2 q pbqp_status.case option.case map_option_eq_Some by blast
  then have fin: "finish_solve env (cf_strategy config) original r = (0, out_text)"
    by (cases "finish_solve env (cf_strategy config) original r") simp
  obtain h where h: "handle = Some h" "so_kernel h = make_kernel ?env" "so_config h = config" using create by (rule runner_handle)
  show "sound_output env (cf_strategy config) input out_text"
  proof (cases "sr_status r = PBQP_OK")
    case True
    have "cost_kernel (so_kernel h)" "exact_strategy (cf_strategy (so_config h))"
      using kernel exact by (simp_all add: h exact_strategy_def exact_kind_def)
    from kernel_solve_sound[OF b(1,2) fits this, of "re_workspace env" ?k r] solve True
    obtain sol x where sol: "sr_solution r = Some sol" "so_assignment sol = Some x" and x: "valid_assignment p x"
      and opt: "so_optimum sol = pbqp_evaluate p x" "\<And>y. valid_assignment p y \<Longrightarrow> so_optimum sol \<le> pbqp_evaluate p y"
      by (auto simp: h(1))
    have "pbqp_evaluate original x = so_optimum sol" using clone_evaluate[OF b(1) clone] opt(1) by simp
    then have out: "out_text = report (cf_strategy config) (so_optimum sol) x @ (if re_timed env then timing_report (sr_context r) else [])"
      using fin True sol by (simp add: finish_solve_def)
    have "input_cost input x \<le> input_cost input y" if "valid_choice input y" for y
      using opt x that b(5,6) evaluate_exact(2)[OF b(1,2)] cost_abs_le_iff by (metis (full_types))
    then show ?thesis unfolding sound_output_def using out x b(5,6)[of x] opt(1)
      by (intro disjI2 exI[of _ "so_optimum sol"] exI[of _ x] exI[of _ "if re_timed env then timing_report (sr_context r) else []"]) simp
  next
    case False
    then show ?thesis using fin by (auto simp: finish_solve_def sound_output_def split: if_splits pbqp_status.splits option.splits)
  qed
qed

lemma run_input_cases:
  assumes v: "valid_input input" and s: "small_domains input" and addresses: "distinct_addresses (re_kernel env)"
  shows "run_input env opts input \<noteq> None"
    and "run_input env opts input = Some r \<Longrightarrow> rr_exit r = 0 \<Longrightarrow> exact_kind (cf_strategy (ro_config opts)) \<Longrightarrow>
      sound_output env (cf_strategy (ro_config opts)) input (rr_output r)"
proof -
  let ?config = "(ro_config opts)\<lparr>cf_trace_sink := ro_trace_path opts \<noteq> None\<rparr>"
  have "run_solver env ?config (length (ip_nodes input)) p \<noteq> None"
    if "build_problem (re_heap env) input (ro_solver_mode opts = kBareMetal) = Some p" for p
    by (rule run_solver_cases(1)[OF v s that addresses])
  then show "run_input env opts input \<noteq> None"
    by (auto simp: run_input_def Let_def split: option.splits)
  assume run: "run_input env opts input = Some r" and ok: "rr_exit r = 0" and exact: "exact_kind (cf_strategy (ro_config opts))"
  then obtain p code out_text events where p: "build_problem (re_heap env) input (ro_solver_mode opts = kBareMetal) = Some p"
    and solve: "run_solver env ?config (length (ip_nodes input)) p = Some (code, out_text, events)" and r: "rr_output r = out_text" "code = 0"
    by (auto simp: run_input_def Let_def exit_with_def split: option.splits if_splits)
  show "sound_output env (cf_strategy (ro_config opts)) input (rr_output r)"
    using run_solver_cases(2)[OF v s p addresses solve r(2)] exact by (simp add: r(1))
qed

section \<open>Claims\<close>

text \<open>
  C12: the graph that is solved is the graph of the text. Every problem built from a loaded input
  with domains below 65536 is well formed, unreduced and storable, has the nodes and the choices of the
  input, and the saturating evaluation of every choice is the exact sum of the costs of the text, with
  infinity; in both modes, duplicate edges and costs out of range being refused.
\<close>

theorem built_problem_cost:
  assumes "load_problem file \<lparr>ip_nodes = [], ip_edges = []\<rparr> = Some input" and "small_domains input"
    and "build_problem heap input fixed = Some p"
  shows "pbqp_wf p \<and> fresh_problem p \<and> storable p \<and> pb_node_count p = length (ip_nodes input) \<and>
    (\<forall>x. (valid_assignment p x \<longleftrightarrow> valid_choice input x) \<and> (valid_choice input x \<longrightarrow> cost_abs (pbqp_evaluate p x) = input_cost input x))"
  using built_input[OF assms(3) load_problem_valid(1)[OF assms(1)] assms(2)] by blast

lemma example_builds: "\<exists>p. build_problem (\<lambda>_. True) example_input False = Some p"
proof -
  have "build_problem (\<lambda>_. True) example_input False \<noteq> None" by code_simp
  then show ?thesis by auto
qed

lemma example_small: "small_domains example_input"
  by (simp add: small_domains_def example_input_def)

theorem built_problem_cost_witness:
  "\<exists>p. build_problem (\<lambda>_. True) example_input False = Some p \<and> cost_abs (pbqp_evaluate p [1, 0]) = input_cost example_input [1, 0]"
proof -
  obtain p where p: "build_problem (\<lambda>_. True) example_input False = Some p" using example_builds by blast
  have "valid_choice example_input [1, 0]" by (simp add: valid_choice_def example_input_def domain_at_def less_Suc_eq numeral_2_eq_2)
  then show ?thesis using built_problem_cost[OF example_loads example_small p] p by blast
qed

lemma load_small:
  assumes "load_problem file empty_input = Some input" and "small_domains input" and "distinct_addresses (re_kernel env)"
  shows "run_input env opts input \<noteq> None"
  by (rule run_input_cases(1)[OF load_problem_valid(1)[OF assms(1)] assms(2,3)])

text \<open>
  C14: the runner returns. For every command line and every file system whose graphs have domains
  below 65536, the process ends: parsing, loading, building, every strategy with its searches and
  descents, on the hosted kernel that may fail at any call.
\<close>

theorem runner_returns:
  assumes "distinct_addresses (re_kernel env)"
    and "\<And>path input. load_problem (re_file env path) \<lparr>ip_nodes = [], ip_edges = []\<rparr> = Some input \<Longrightarrow> small_domains input"
  shows "sc_main env arguments \<noteq> None"
  using load_small[OF _ assms(2) assms(1)] by (auto simp: sc_main_def Let_def split: sum.splits early_return.splits option.splits)

definition example_files :: "string \<Rightarrow> string option" where
  "example_files path = (if path = ''g.pbqp'' then Some example_text else None)"

definition example_runner :: "unit runner_environment" where
  "example_runner = \<lparr>re_version = ''1'', re_file = example_files, re_trace_opens = (\<lambda>_. True), re_heap = (\<lambda>_. True),
     re_workspace = (\<lambda>_. True), re_kernel = example_environment, re_timed = False, re_charge = (\<lambda>_ t. t)\<rparr>"

lemma example_file_small: "load_problem (re_file example_runner path) empty_input = Some input \<Longrightarrow> small_domains input"
proof (cases "path = ''g.pbqp''")
  case False
  have "load_problem None empty_input = None" by (simp add: load_problem_def)
  then show "load_problem (re_file example_runner path) empty_input = Some input \<Longrightarrow> small_domains input"
    using False by (simp add: example_runner_def example_files_def)
qed (use example_loads example_small in \<open>auto simp: example_runner_def example_files_def\<close>)

definition example_arguments :: "string list" where
  "example_arguments = [''--solver'', ''local'', ''--strategy'', ''exact-branch-reduce'', ''g.pbqp'']"

theorem runner_returns_witness: "sc_main example_runner example_arguments \<noteq> None"
  by (rule runner_returns) (use example_addresses example_file_small in \<open>simp_all add: example_runner_def\<close>)

text \<open>
  C11: the printed optimum is the optimum of the text. When a run with an exact strategy on a graph
  whose domains are below 65536 ends with exit code 0, it printed the status of a stopped search, or an assignment of the text's graph with its
  exact cost such that no choice of values costs less; for every file, mode, policy, batching, search
  limit and trace option, and whatever fails on the way in the host, in the guest memory or on the
  device.
\<close>

theorem runner_prints_optimum:
  assumes "distinct_addresses (re_kernel env)" and "runner_arguments arguments runner_defaults = Inr opts"
    and "ro_path opts = Some path" and "ro_saw_strategy opts" and "exact_kind (cf_strategy (ro_config opts))"
    and "load_problem (re_file env path) \<lparr>ip_nodes = [], ip_edges = []\<rparr> = Some input" and "small_domains input"
  shows "\<not> (\<exists>r. sc_main env arguments = Some r \<and> rr_exit r = 0 \<and> \<not> sound_output env (cf_strategy (ro_config opts)) input (rr_output r))"
proof -
  have "sound_output env (cf_strategy (ro_config opts)) input (rr_output r)" if "sc_main env arguments = Some r" "rr_exit r = 0" for r
  proof (cases "ro_saw_solver_mode opts")
    case True
    then have "run_input env opts input = Some r" using that(1) assms(2-4,6) by (simp add: sc_main_def)
    then show ?thesis using run_input_cases(2)[OF load_problem_valid(1)[OF assms(6)] assms(7,1)] that(2) assms(5) by blast
  next
    case False
    then show ?thesis using that assms(2,3) by (auto simp: sc_main_def exit_with_def)
  qed
  then show ?thesis by blast
qed

theorem runner_prints_optimum_witness:
  "\<not> (\<exists>r. sc_main example_runner example_arguments = Some r \<and> rr_exit r = 0 \<and>
     \<not> sound_output example_runner PBQP_STRATEGY_EXACT_BRANCH_REDUCE example_input (rr_output r))"
proof -
  let ?opts = "runner_defaults\<lparr>ro_saw_solver_mode := True, ro_saw_strategy := True, ro_path := Some ''g.pbqp'',
    ro_config := pbqp_solver_default_config\<lparr>cf_strategy := PBQP_STRATEGY_EXACT_BRANCH_REDUCE\<rparr>\<rparr>"
  have o: "runner_arguments example_arguments runner_defaults = Inr ?opts"
    by (simp add: example_arguments_def runner_defaults_def takes_value_def runner_option_def parse_solver_mode_def parse_strategy_def)
  have f: "load_problem (re_file example_runner ''g.pbqp'') \<lparr>ip_nodes = [], ip_edges = []\<rparr> = Some example_input"
    using example_loads by (simp add: example_runner_def example_files_def)
  show ?thesis
    using runner_prints_optimum[OF _ o _ _ _ f example_small] example_addresses by (simp add: example_runner_def exact_kind_def)
qed

end
