(* ===== verification/Graph_Generator.thy ===== *)
theory Graph_Generator
  imports Graph_Text
begin

text \<open>
  The deterministic graph generator: \<open>workload/src/graph_generator.cpp\<close> and the printer of
  \<open>tools/pbqp_graph_generate.cpp\<close>.

  \<^item> \<open>std::mt19937\<close> is the generator the C++ standard specifies: a state of 624 words of 32 bits, the
    twist when it is used up, and the tempering of each output. It is passed and returned.
  \<^item> \<open>int\<close> is \<open>int\<close>. The sums and products that can leave its 32 bits are guarded: a signed
    overflow, which the C++ standard leaves undefined, is the error \<open>Signed_overflow\<close>. A sum
    in a loop over the nodes overflows in some round exactly if it does in the last.
  \<^item> A throw is the left side of the result. Running out of memory is not modelled.
\<close>

section \<open>The random numbers\<close>

record mt19937 =
  mt_words :: "u32 list"
  mt_index :: nat

definition mt_seed_word :: "u32 \<Rightarrow> nat \<Rightarrow> u32" where
  "mt_seed_word previous i = 1812433253 * (previous XOR (drop_bit 30 previous)) + of_nat i"

primrec mt_seed_words :: "nat \<Rightarrow> nat \<Rightarrow> u32 \<Rightarrow> u32 list" where
  "mt_seed_words 0 i x = []"
| "mt_seed_words (Suc n) i x = x # mt_seed_words n (Suc i) (mt_seed_word x i)"

definition mt_seed :: "u32 \<Rightarrow> mt19937" where
  "mt_seed seed = \<lparr>mt_words = mt_seed_words 624 1 seed, mt_index = 624\<rparr>"

definition mt_twist_step :: "nat \<Rightarrow> u32 list \<Rightarrow> u32 list" where
  "mt_twist_step k words =
     (let y = (words ! k AND 0x80000000) OR (words ! (Suc k mod 624) AND 0x7FFFFFFF)
      in words[k := words ! ((k + 397) mod 624) XOR drop_bit 1 y XOR (if y AND 1 = 1 then 0x9908B0DF else 0)])"

definition mt_twist :: "u32 list \<Rightarrow> u32 list" where
  "mt_twist words = fold mt_twist_step [0..<624] words"

definition mt_temper :: "u32 \<Rightarrow> u32" where
  "mt_temper z0 =
     (let z1 = z0 XOR drop_bit 11 z0;
          z2 = z1 XOR (push_bit 7 z1 AND 0x9D2C5680);
          z3 = z2 XOR (push_bit 15 z2 AND 0xEFC60000)
      in z3 XOR drop_bit 18 z3)"

definition mt_next :: "mt19937 \<Rightarrow> nat \<times> mt19937" where
  "mt_next random =
     (let words = (if mt_index random \<ge> 624 then mt_twist (mt_words random) else mt_words random);
          i = (if mt_index random \<ge> 624 then 0 else mt_index random)
      in (unat (mt_temper (words ! i)), \<lparr>mt_words = words, mt_index = Suc i\<rparr>))"

section \<open>Graphs\<close>

datatype graph_family = kRandomSparse | kDegree3 | kDegree4 | kMixedDegree | kTree | kCycle | kTwoTree

datatype domain_profile = kBinary | kSmall | kRegisterLike | kLarge

record generator_config =
  gc_family :: graph_family
  gc_profile :: domain_profile
  gc_nodes :: int
  gc_seed :: u32
  gc_uniform_domain :: int

record graph =
  gr_domains :: "int list"
  gr_edges :: "(int \<times> int) list"
  gr_unary_costs :: "int list list"
  gr_edge_costs :: "int list list"

datatype generator_error = Invalid_argument string | Signed_overflow

abbreviation (input) kSparseEdgePercent :: int where "kSparseEdgePercent \<equiv> 20"
abbreviation (input) kCostRange :: int where "kCostRange \<equiv> 5"

definition DomainFor :: "domain_profile \<Rightarrow> mt19937 \<Rightarrow> int \<times> mt19937" where
  "DomainFor profile random =
     (case profile of
        kBinary \<Rightarrow> (2, random)
      | kSmall \<Rightarrow> (let (x, random') = mt_next random in ([2, 3, 4] ! (x mod 3), random'))
      | kRegisterLike \<Rightarrow> (let (x, random') = mt_next random in ([4, 5, 6] ! (x mod 3), random'))
      | kLarge \<Rightarrow> (let (x, random') = mt_next random in ([8, 12, 16, 24] ! (x mod 4), random')))"

definition AddEdge :: "int \<Rightarrow> int \<Rightarrow> (int \<times> int) list \<Rightarrow> (int \<times> int) list" where
  "AddEdge first second edges =
     (if first = second then edges
      else let edge = (if first > second then (second, first) else (first, second))
        in if edge \<in> set edges then edges else edges @ [edge])"

definition CostFor :: "mt19937 \<Rightarrow> int \<times> mt19937" where
  "CostFor random =
     (let (x, random') = mt_next random in (int (x mod nat (2 * kCostRange + 1)) - kCostRange, random'))"

section \<open>Generation\<close>

text \<open>A loop that draws from the generator in every round.\<close>

fun draw_loop :: "('x \<Rightarrow> 's \<Rightarrow> mt19937 \<Rightarrow> 's \<times> mt19937) \<Rightarrow> 'x list \<Rightarrow> 's \<Rightarrow> mt19937 \<Rightarrow> 's \<times> mt19937" where
  "draw_loop f [] s random = (s, random)"
| "draw_loop f (x # xs) s random = (let (s', random') = f x s random in draw_loop f xs s' random')"

definition draw_domains :: "generator_config \<Rightarrow> mt19937 \<Rightarrow> int list \<times> mt19937" where
  "draw_domains config =
     draw_loop (\<lambda>node domains random.
         let (d, random') = (if gc_uniform_domain config = 0 then DomainFor (gc_profile config) random
                else (gc_uniform_domain config, random))
         in (domains @ [d], random'))
       [0..gc_nodes config - 1] []"

definition random_edge :: "int \<Rightarrow> int \<times> int \<Rightarrow> (int \<times> int) list \<Rightarrow> mt19937 \<Rightarrow> (int \<times> int) list \<times> mt19937" where
  "random_edge probability pair edges random =
     (let (x, random') = mt_next random
      in (if int (x mod 100) < probability then AddEdge (fst pair) (snd pair) edges else edges, random'))"

definition node_pairs :: "int \<Rightarrow> (int \<times> int) list" where
  "node_pairs nodes = concat (map (\<lambda>first. map (Pair first) [first + 1..nodes - 1]) [0..nodes - 1])"

definition tree_edge :: "int \<Rightarrow> (int \<times> int) list \<Rightarrow> mt19937 \<Rightarrow> (int \<times> int) list \<times> mt19937" where
  "tree_edge node edges random =
     (let (x, random') = mt_next random in (AddEdge node (int x mod node) edges, random'))"

definition two_tree_edges :: "int \<Rightarrow> (int \<times> int) list \<Rightarrow> mt19937 \<Rightarrow> (int \<times> int) list \<times> mt19937" where
  "two_tree_edges node edges random =
     (let (x, random') = mt_next random; parent = edges ! (x mod length edges)
      in (AddEdge node (snd parent) (AddEdge node (fst parent) edges), random'))"

definition circulant_edges :: "int \<Rightarrow> int \<Rightarrow> int \<Rightarrow> (int \<times> int) list" where
  "circulant_edges nodes step1 step2 =
     fold (\<lambda>node edges. AddEdge node ((node + step2) mod nodes) (AddEdge node ((node + step1) mod nodes) edges))
       [0..nodes - 1] []"

definition draw_edges :: "graph_family \<Rightarrow> int \<Rightarrow> mt19937 \<Rightarrow> (int \<times> int) list \<times> mt19937" where
  "draw_edges family nodes random =
     (case family of
        kRandomSparse \<Rightarrow> draw_loop (random_edge kSparseEdgePercent) (node_pairs nodes) [] random
      | kMixedDegree \<Rightarrow> draw_loop (random_edge 30) (node_pairs nodes) [] random
      | kDegree3 \<Rightarrow> (circulant_edges nodes 1 (nodes div 2), random)
      | kDegree4 \<Rightarrow> (circulant_edges nodes 1 2, random)
      | kTree \<Rightarrow> draw_loop tree_edge [1..nodes - 1] [] random
      | kCycle \<Rightarrow>
          (let edges = fold (\<lambda>node. AddEdge (node - 1) node) [1..nodes - 1] []
           in (if nodes > 2 then AddEdge 0 (nodes - 1) edges else edges, random))
      | kTwoTree \<Rightarrow>
          draw_loop two_tree_edges [2..nodes - 1] (if nodes > 1 then AddEdge 0 1 [] else []) random)"

text \<open>\<open>std::generate\<close> over a vector of the given size.\<close>

primrec draw_costs :: "nat \<Rightarrow> mt19937 \<Rightarrow> int list \<times> mt19937" where
  "draw_costs 0 random = ([], random)"
| "draw_costs (Suc n) random =
     (let (cost, random') = CostFor random; (costs, random'') = draw_costs n random' in (cost # costs, random''))"

definition draw_tables :: "int list \<Rightarrow> mt19937 \<Rightarrow> int list list \<times> mt19937" where
  "draw_tables sizes random =
     draw_loop (\<lambda>n tables random. let (costs, random') = draw_costs (nat n) random in (tables @ [costs], random')) sizes [] random"

definition edge_size :: "int list \<Rightarrow> int \<times> int \<Rightarrow> int" where
  "edge_size domains edge = domains ! nat (fst edge) * domains ! nat (snd edge)"

abbreviation (input) INT_MAX :: int where "INT_MAX \<equiv> 2147483647"

text \<open>The largest sum of a round of the \<open>kDegree3\<close> and \<open>kDegree4\<close> loops.\<close>

definition largest_sum :: "graph_family \<Rightarrow> int \<Rightarrow> int" where
  "largest_sum family nodes =
     (case family of kDegree3 \<Rightarrow> nodes - 1 + nodes div 2 | kDegree4 \<Rightarrow> nodes - 1 + 2 | _ \<Rightarrow> 0)"

definition GenerateGraph :: "generator_config \<Rightarrow> generator_error + graph" where
  "GenerateGraph config =
     (if gc_nodes config < 1 then Inl (Invalid_argument ''node count must be positive'')
      else if gc_uniform_domain config < 0 then Inl (Invalid_argument ''uniform domain size must be non-negative'')
      else if (gc_family config = kDegree3 \<or> gc_family config = kDegree4) \<and>
          (gc_nodes config < 6 \<or> gc_nodes config mod 2 \<noteq> 0)
        then Inl (Invalid_argument ''degree-3 and degree-4 families require an even node count of at least 6'')
      else if largest_sum (gc_family config) (gc_nodes config) > INT_MAX then Inl Signed_overflow
      else let (domains, random1) = draw_domains config (mt_seed (gc_seed config));
               (edges, random2) = draw_edges (gc_family config) (gc_nodes config) random1;
               (unary, random3) = draw_tables domains random2
        in if \<exists>edge \<in> set edges. edge_size domains edge > INT_MAX then Inl Signed_overflow
           else let (costs, random4) = draw_tables (map (edge_size domains) edges) random3
             in Inr \<lparr>gr_domains = domains, gr_edges = edges, gr_unary_costs = unary, gr_edge_costs = costs\<rparr>)"

section \<open>Printing\<close>

definition family_text :: "graph_family \<Rightarrow> string" where
  "family_text family =
     (case family of
        kRandomSparse \<Rightarrow> ''random-sparse'' | kDegree3 \<Rightarrow> ''degree-3'' | kDegree4 \<Rightarrow> ''degree-4''
      | kMixedDegree \<Rightarrow> ''mixed-degree'' | kTree \<Rightarrow> ''tree'' | kCycle \<Rightarrow> ''cycle'' | kTwoTree \<Rightarrow> ''two-tree'')"

definition profile_text :: "domain_profile \<Rightarrow> string" where
  "profile_text profile =
     (case profile of
        kBinary \<Rightarrow> ''binary'' | kSmall \<Rightarrow> ''small'' | kRegisterLike \<Rightarrow> ''register-like'' | kLarge \<Rightarrow> ''large'')"

definition parse_family :: "string \<Rightarrow> graph_family option" where
  "parse_family text_n =
     (if text_n = ''random-sparse'' then Some kRandomSparse
      else if text_n = ''degree-3'' then Some kDegree3
      else if text_n = ''degree-4'' then Some kDegree4
      else if text_n = ''mixed-degree'' then Some kMixedDegree
      else if text_n = ''tree'' then Some kTree
      else if text_n = ''cycle'' then Some kCycle
      else if text_n = ''two-tree'' then Some kTwoTree
      else None)"

definition parse_profile :: "string \<Rightarrow> domain_profile option" where
  "parse_profile text_n =
     (if text_n = ''binary'' then Some kBinary
      else if text_n = ''small'' then Some kSmall
      else if text_n = ''register-like'' then Some kRegisterLike
      else if text_n = ''large'' then Some kLarge
      else None)"

definition show_costs :: "int list \<Rightarrow> string" where
  "show_costs costs = concat (map (\<lambda>cost. CHR '' '' # show_int cost) costs)"

definition print_graph :: "generator_config \<Rightarrow> graph \<Rightarrow> string" where
  "print_graph config graph =
     ''# family='' @ family_text (gc_family config) @ '' profile='' @ profile_text (gc_profile config) @
     '' nodes='' @ show_int (gc_nodes config) @ '' seed='' @ show_nat (unat (gc_seed config)) @
     '' domain-size='' @ show_int (gc_uniform_domain config) @ [newline] @
     ''nodes '' @ show_nat (length (gr_domains graph)) @ [newline] @
     concat (map (\<lambda>node. ''node '' @ show_int (gr_domains graph ! node) @
         show_costs (gr_unary_costs graph ! node) @ [newline]) [0..<length (gr_domains graph)]) @
     concat (map (\<lambda>edge. ''edge '' @ show_int (fst (gr_edges graph ! edge)) @ CHR '' '' #
         show_int (snd (gr_edges graph ! edge)) @ show_costs (gr_edge_costs graph ! edge) @ [newline])
       [0..<length (gr_edges graph)])"

section \<open>The command line\<close>

text \<open>
  The \<open>main\<close> of \<open>pbqp_graph_generate.cpp\<close>: the arguments after the program name give the exit code
  and the standard output; messages on the error stream are left out. A conversion that throws ends in
  the usage message.
\<close>

record generate_options =
  go_config :: generator_config
  go_saw_family :: bool
  go_saw_profile :: bool
  go_saw_nodes :: bool
  go_saw_seed :: bool

definition generate_defaults :: generate_options where
  "generate_defaults = \<lparr>go_config = \<lparr>gc_family = kRandomSparse, gc_profile = kBinary, gc_nodes = 0, gc_seed = 0, gc_uniform_domain = 0\<rparr>,
     go_saw_family = False, go_saw_profile = False, go_saw_nodes = False, go_saw_seed = False\<rparr>"

definition generate_usage :: string where
  "generate_usage =
     ''Usage: pbqp_graph_generate --family FAMILY --profile PROFILE --nodes N --seed N [--domain-size D]'' @ [newline] @
     ''Families: random-sparse, degree-3, degree-4, mixed-degree, tree, cycle, two-tree'' @ [newline] @
     ''Profiles: binary, small, register-like, large'' @ [newline]"

definition generate_option :: "string \<Rightarrow> string \<Rightarrow> generate_options \<Rightarrow> generate_options option" where
  "generate_option argument arg_value opts =
     (let config = go_config opts
      in if argument = ''--family'' then
           (case parse_family arg_value of
              None \<Rightarrow> Some (opts\<lparr>go_saw_family := False\<rparr>)
            | Some family \<Rightarrow> Some (opts\<lparr>go_saw_family := True, go_config := config\<lparr>gc_family := family\<rparr>\<rparr>))
         else if argument = ''--profile'' then
           (case parse_profile arg_value of
              None \<Rightarrow> Some (opts\<lparr>go_saw_profile := False\<rparr>)
            | Some profile \<Rightarrow> Some (opts\<lparr>go_saw_profile := True, go_config := config\<lparr>gc_profile := profile\<rparr>\<rparr>))
         else if argument = ''--nodes'' then
           map_option (\<lambda>(v, used). opts\<lparr>go_saw_nodes := True, go_config := config\<lparr>gc_nodes := v\<rparr>\<rparr>) (stoi arg_value)
         else if argument = ''--seed'' then
           map_option (\<lambda>(v, used). opts\<lparr>go_saw_seed := True, go_config := config\<lparr>gc_seed := of_int v\<rparr>\<rparr>) (stoul arg_value)
         else if argument = ''--domain-size'' then
           map_option (\<lambda>(v, used). opts\<lparr>go_config := config\<lparr>gc_uniform_domain := v\<rparr>\<rparr>) (stoi arg_value)
         else None)"

fun generate_arguments :: "string list \<Rightarrow> generate_options \<Rightarrow> (nat \<times> string) + generate_options" where
  "generate_arguments [] opts = Inr opts"
| "generate_arguments [argument] opts = Inl (if argument = ''--help'' then (0, generate_usage) else (2, []))"
| "generate_arguments (argument # arg_value # rest) opts =
     (if argument = ''--help'' then Inl (0, generate_usage)
      else case generate_option argument arg_value opts of
        None \<Rightarrow> Inl (2, [])
      | Some opts' \<Rightarrow> generate_arguments rest opts')"

text \<open>\<open>main\<close>; \<open>None\<close> is a run in which the generator overflows, which the source leaves undefined.\<close>

definition generate_main :: "string list \<Rightarrow> (nat \<times> string) option" where
  "generate_main arguments =
     (case generate_arguments arguments generate_defaults of
        Inl result \<Rightarrow> Some result
      | Inr opts \<Rightarrow>
          if \<not> go_saw_family opts \<or> \<not> go_saw_profile opts \<or> \<not> go_saw_nodes opts \<or> \<not> go_saw_seed opts
          then Some (2, [])
          else (case GenerateGraph (go_config opts) of
             Inl (Invalid_argument _) \<Rightarrow> Some (2, [])
           | Inl Signed_overflow \<Rightarrow> None
           | Inr graph \<Rightarrow> Some (0, print_graph (go_config opts) graph)))"

end
