(* ===== verification/Graph_Generator_Correct.thy ===== *)
theory Graph_Generator_Correct
  imports Graph_Generator Graph_Text_Correct
begin

text \<open>
  The graph generator: what it accepts, the shape of the graphs of each family, and that the graph
  runner reads the printed text back as the generated graph.
\<close>

section \<open>Loops over nodes\<close>

lemma draw_loop_invariant:
  assumes "P s" and "\<And>x s random. x \<in> set xs \<Longrightarrow> P s \<Longrightarrow> P (fst (f x s random))"
  shows "P (fst (draw_loop f xs s random))"
  using assms
proof (induction xs arbitrary: s random)
  case (Cons x xs)
  have "P (fst (f x s random))" using Cons.prems by simp
  then show ?case using Cons.IH[of "fst (f x s random)" "snd (f x s random)"] Cons.prems(2) by (simp add: split_beta' Let_def)
qed simp

lemma draw_loop_upto:
  assumes "P a s" and "a \<le> b + 1" and step: "\<And>i s random. a \<le> i \<Longrightarrow> i \<le> b \<Longrightarrow> P i s \<Longrightarrow> P (i + 1) (fst (f i s random))"
  shows "P (b + 1) (fst (draw_loop f [a..b] s random))"
  using assms
proof (induction "nat (b + 1 - a)" arbitrary: a s random)
  case 0
  then show ?case by simp
next
  case (Suc n)
  then have u: "[a..b] = a # [a + 1..b]" by (intro upto_rec1) simp
  have "P (a + 1) (fst (f a s random))" using Suc by simp
  then have "P (b + 1) (fst (draw_loop f [a + 1..b] (fst (f a s random)) (snd (f a s random))))"
    by (rule Suc.hyps(1)[rotated]) (use Suc in auto)
  then show ?case by (simp add: u split_beta' Let_def)
qed

text \<open>A loop that draws nothing is a loop that ignores the generator.\<close>

lemma fold_draw: "fold g xs s = fst (draw_loop (\<lambda>x s random. (g x s, random)) xs s random)"
  by (induction xs arbitrary: s) simp_all

lemmas fold_upto = draw_loop_upto[where f = "\<lambda>x s random. (g x s, random)" for g, folded fold_draw, simplified fst_conv]

section \<open>Edges\<close>

definition ordered :: "int \<Rightarrow> int \<Rightarrow> int \<times> int" where
  "ordered a b = (min a b, max a b)"

lemma AddEdge_form: "AddEdge a b es = (if a = b \<or> ordered a b \<in> set es then es else es @ [ordered a b])"
  by (auto simp: AddEdge_def ordered_def min_def max_def)

lemma set_AddEdge: "set (AddEdge a b es) = (if a = b then set es else insert (ordered a b) (set es))"
  by (auto simp: AddEdge_form)

definition simple_edges :: "int \<Rightarrow> (int \<times> int) list \<Rightarrow> bool" where
  "simple_edges n es \<longleftrightarrow> distinct es \<and> (\<forall>(a, b) \<in> set es. 0 \<le> a \<and> a < b \<and> b < n)"

lemma simple_AddEdge: "simple_edges n es \<Longrightarrow> 0 \<le> a \<Longrightarrow> a < n \<Longrightarrow> 0 \<le> b \<Longrightarrow> b < n \<Longrightarrow> simple_edges n (AddEdge a b es)"
  by (auto simp: AddEdge_form simple_edges_def ordered_def min_def max_def)

lemma simple_mono: "simple_edges n es \<Longrightarrow> n \<le> m \<Longrightarrow> simple_edges m es"
  by (fastforce simp: simple_edges_def)

lemma simple_nil [simp]: "simple_edges n []"
  by (simp add: simple_edges_def)

text \<open>The earlier end points of the edges to a node, in the order of the edges, and the degree of a node.\<close>

definition earlier :: "(int \<times> int) list \<Rightarrow> int \<Rightarrow> int list" where
  "earlier es v = map fst (filter (\<lambda>e. snd e = v) es)"

definition degree :: "(int \<times> int) list \<Rightarrow> int \<Rightarrow> nat" where
  "degree es v = length (filter (\<lambda>e. fst e = v \<or> snd e = v) es)"

lemma earlier_new: "simple_edges n es \<Longrightarrow> n \<le> v \<Longrightarrow> earlier es v = []"
  by (auto simp: earlier_def simple_edges_def filter_empty_conv)

lemma earlier_AddEdge:
  assumes "u < v" and "u \<notin> set (earlier es v)"
  shows "AddEdge v u es = es @ [(u, v)]" and "earlier (AddEdge v u es) w = (if w = v then earlier es v @ [u] else earlier es w)"
proof -
  have "(u, v) \<notin> set es" using assms(2) by (force simp: earlier_def)
  then show "AddEdge v u es = es @ [(u, v)]" using assms(1) by (simp add: AddEdge_form ordered_def)
  then show "earlier (AddEdge v u es) w = (if w = v then earlier es v @ [u] else earlier es w)" by (auto simp: earlier_def)
qed

section \<open>Families\<close>

definition tree_shape :: "int \<Rightarrow> (int \<times> int) list \<Rightarrow> bool" where
  "tree_shape n es \<longleftrightarrow> simple_edges n es \<and> (\<forall>v \<in> {1..n - 1}. length (earlier es v) = 1)"

definition two_tree_shape :: "int \<Rightarrow> (int \<times> int) list \<Rightarrow> bool" where
  "two_tree_shape n es \<longleftrightarrow> simple_edges n es \<and> (n > 1 \<longrightarrow> earlier es 1 = [0]) \<and>
     (\<forall>v \<in> {2..n - 1}. \<exists>p q. earlier es v = [p, q] \<and> (p, q) \<in> set es)"

lemma tree_step: "0 < v \<Longrightarrow> tree_shape v es \<Longrightarrow> tree_shape (v + 1) (fst (tree_edge v es random))"
proof -
  assume v: "0 < v" and t: "tree_shape v es"
  define u where "u = int (fst (mt_next random)) mod v"
  have u: "0 \<le> u" "u < v" using v by (simp_all add: u_def)
  have r: "fst (tree_edge v es random) = AddEdge v u es" by (simp add: tree_edge_def u_def split_beta' Let_def)
  have e: "earlier es v = []" using t earlier_new[of v es v] by (simp add: tree_shape_def)
  then have "earlier (AddEdge v u es) w = (if w = v then [u] else earlier es w)" for w using earlier_AddEdge(2)[OF u(2), of es w] by simp
  moreover have "simple_edges (v + 1) (AddEdge v u es)"
    by (rule simple_AddEdge) (use t u v in \<open>auto simp: tree_shape_def intro: simple_mono[of v]\<close>)
  ultimately show ?thesis using t by (auto simp: r tree_shape_def)
qed

lemma two_tree_step:
  assumes v: "2 \<le> v" and t: "two_tree_shape v es"
  shows "two_tree_shape (v + 1) (fst (two_tree_edges v es random))"
proof -
  define x where "x = fst (mt_next random)"
  obtain p q where pq: "es ! (x mod length es) = (p, q)" by fastforce
  have "es \<noteq> []" using t v by (auto simp: two_tree_shape_def earlier_def)
  then have mem: "(p, q) \<in> set es" using pq by (metis length_greater_0_conv mod_less_divisor nth_mem)
  have s: "simple_edges v es" using t by (simp add: two_tree_shape_def)
  then have b: "0 \<le> p" "p < q" "q < v" using mem by (auto simp: simple_edges_def)
  let ?e1 = "AddEdge v p es" and ?e2 = "AddEdge v q (AddEdge v p es)"
  have r: "fst (two_tree_edges v es random) = ?e2" by (simp add: two_tree_edges_def pq split_beta' Let_def flip: x_def)
  have e1: "earlier ?e1 w = (if w = v then [p] else earlier es w)" for w
    using earlier_AddEdge(2)[of p v es w] b earlier_new[OF s, of v] by simp
  have e2: "earlier ?e2 w = (if w = v then [p, q] else earlier es w)" for w
    using earlier_AddEdge(2)[of q v ?e1 w] b e1[of w] e1[of v] by simp
  have set_e: "set es \<subseteq> set ?e2" by (auto simp: set_AddEdge)
  have "simple_edges (v + 1) ?e2"
    by (intro simple_AddEdge) (use s b v in \<open>auto intro: simple_mono[of v]\<close>)
  moreover have "\<exists>p' q'. earlier ?e2 w = [p', q'] \<and> (p', q') \<in> set ?e2" if "w \<in> {2..v}" for w
  proof (cases "w = v")
    case True
    then show ?thesis using e2 mem set_e by auto
  next
    case False
    then have "w \<in> {2..v - 1}" using that by auto
    then obtain p' q' where "earlier es w = [p', q']" "(p', q') \<in> set es" using t unfolding two_tree_shape_def by blast
    then show ?thesis using False e2[of w] set_e by auto
  qed
  ultimately show ?thesis using t v e2[of 1] by (auto simp: r two_tree_shape_def)
qed

section \<open>Circulant graphs\<close>

definition neighbours :: "(int \<times> int) list \<Rightarrow> int \<Rightarrow> int set" where
  "neighbours es v = {u. u \<noteq> v \<and> ordered u v \<in> set es}"

lemma ordered_inject: "ordered a b = ordered c d \<longleftrightarrow> a = c \<and> b = d \<or> a = d \<and> b = c"
  by (auto simp: ordered_def min_def max_def)

lemma degree_neighbours:
  assumes "simple_edges n es"
  shows "degree es v = card (neighbours es v)"
proof -
  let ?I = "{e \<in> set es. fst e = v \<or> snd e = v}"
  have "degree es v = card ?I"
    using assms by (simp add: degree_def simple_edges_def distinct_card[symmetric])
  also have "\<dots> = card (neighbours es v)"
  proof (rule bij_betw_same_card[symmetric])
    have "e \<in> (\<lambda>u. ordered u v) ` neighbours es v" if "e \<in> ?I" for e
    proof -
      have e: "fst e < snd e" using that assms by (auto simp: simple_edges_def)
      let ?u = "if fst e = v then snd e else fst e"
      have "ordered ?u v = e" using that e by (cases e) (auto simp: ordered_def)
      then show ?thesis using that e by (intro image_eqI[of _ _ ?u]) (auto simp: neighbours_def)
    qed
    moreover have "ordered u v \<in> ?I" if "u \<in> neighbours es v" for u
      using that by (auto simp: neighbours_def ordered_def min_def max_def)
    ultimately have "(\<lambda>u. ordered u v) ` neighbours es v = ?I" by blast
    then show "bij_betw (\<lambda>u. ordered u v) (neighbours es v) ?I" by (auto simp: bij_betw_def inj_on_def ordered_inject)
  qed
  finally show ?thesis .
qed

lemma circulant_fold:
  assumes n: "0 < n" and k: "0 \<le> k" "k \<le> n"
  shows "simple_edges n (fold (\<lambda>node es. AddEdge node ((node + s2) mod n) (AddEdge node ((node + s1) mod n) es)) [0..k - 1] []) \<and>
    set (fold (\<lambda>node es. AddEdge node ((node + s2) mod n) (AddEdge node ((node + s1) mod n) es)) [0..k - 1] []) =
      {ordered i ((i + s) mod n) | i s. 0 \<le> i \<and> i < k \<and> (s = s1 \<or> s = s2) \<and> i \<noteq> (i + s) mod n}"
proof -
  let ?g = "\<lambda>node es. AddEdge node ((node + s2) mod n) (AddEdge node ((node + s1) mod n) es)"
  let ?S = "\<lambda>k. {ordered i ((i + s) mod n) | i s. 0 \<le> i \<and> i < k \<and> (s = s1 \<or> s = s2) \<and> i \<noteq> (i + s) mod n}"
  let ?P = "\<lambda>k es. simple_edges n es \<and> set es = ?S k"
  have "?P (k - 1 + 1) (fold ?g [0..k - 1] [])"
  proof (rule fold_upto[where P = ?P])
    show "?P 0 []" by simp
    show "0 \<le> k - 1 + 1" using k by simp
    fix i es assume i: "0 \<le> i" "i \<le> k - 1" and p: "?P i es"
    have "0 \<le> (i + s) mod n \<and> (i + s) mod n < n" for s using n by simp
    then have "simple_edges n (?g i es)" using p i k by (intro simple_AddEdge) auto
    moreover have "?S (i + 1) = ?S i \<union> {ordered i ((i + s) mod n) | s. (s = s1 \<or> s = s2) \<and> i \<noteq> (i + s) mod n}"
    proof -
      have "0 \<le> j \<and> j < i + 1 \<longleftrightarrow> 0 \<le> j \<and> j < i \<or> j = i" for j using i by auto
      then show ?thesis by blast
    qed
    then have "set (?g i es) = ?S (i + 1)" using p by (auto simp: set_AddEdge)
    ultimately show "?P (i + 1) (?g i es)" by simp
  qed
  then show ?thesis by simp
qed

lemma circulant_neighbours:
  assumes "0 < n" and "0 \<le> v" and "v < n"
  shows "simple_edges n (circulant_edges n s1 s2)"
    and "neighbours (circulant_edges n s1 s2) v = {(v + s1) mod n, (v - s1) mod n, (v + s2) mod n, (v - s2) mod n} - {v}"
proof -
  note c = circulant_fold[OF assms(1), of n s2 s1, folded circulant_edges_def]
  show "simple_edges n (circulant_edges n s1 s2)" using c assms(1) by simp
  have reach: "v = (i + s) mod n \<longleftrightarrow> i = (v - s) mod n" if "0 \<le> i" "i < n" for i s
    using that assms by (metis add_diff_cancel_right' diff_add_cancel mod_add_left_eq mod_diff_left_eq mod_pos_pos_trivial)
  have r: "0 \<le> x mod n" "x mod n < n" for x using assms(1) by simp_all
  have hit: "(\<exists>i. 0 \<le> i \<and> i < n \<and> i \<noteq> (i + s) mod n \<and> ordered u v = ordered i ((i + s) mod n)) \<longleftrightarrow>
      u = (v + s) mod n \<or> u = (v - s) mod n" (is "?h \<longleftrightarrow> ?r") if u: "u \<noteq> v" for u s
  proof
    assume ?h
    then show ?r using reach by (auto simp: ordered_inject)
  next
    assume ?r
    then show ?h
    proof
      assume "u = (v + s) mod n"
      then show ?h using u assms(2,3) by (intro exI[of _ v]) (auto simp: ordered_inject)
    next
      assume e: "u = (v - s) mod n"
      then have b: "0 \<le> u" "u < n" using r by auto
      then have "v = (u + s) mod n" using reach e by blast
      then show ?h using u b by (intro exI[of _ u]) (auto simp: ordered_inject)
    qed
  qed
  have "u \<in> neighbours (circulant_edges n s1 s2) v \<longleftrightarrow> u \<noteq> v \<and>
      ((\<exists>i. 0 \<le> i \<and> i < n \<and> i \<noteq> (i + s1) mod n \<and> ordered u v = ordered i ((i + s1) mod n)) \<or>
       (\<exists>i. 0 \<le> i \<and> i < n \<and> i \<noteq> (i + s2) mod n \<and> ordered u v = ordered i ((i + s2) mod n)))" for u
    using c assms(1) by (auto simp: neighbours_def)
  then have "u \<in> neighbours (circulant_edges n s1 s2) v \<longleftrightarrow> u \<noteq> v \<and>
      ((u = (v + s1) mod n \<or> u = (v - s1) mod n) \<or> u = (v + s2) mod n \<or> u = (v - s2) mod n)" for u
    using hit[of u s1] hit[of u s2] by (cases "u = v") simp_all
  then show "neighbours (circulant_edges n s1 s2) v = {(v + s1) mod n, (v - s1) mod n, (v + s2) mod n, (v - s2) mod n} - {v}"
    by auto
qed

lemma shift_mod:
  assumes "0 \<le> (v :: int)" and "v < n" and "0 < s" and "s < n"
  shows "(v + s) mod n = (if v + s < n then v + s else v + s - n)" and "(v - s) mod n = (if s \<le> v then v - s else v - s + n)"
proof -
  show "(v + s) mod n = (if v + s < n then v + s else v + s - n)"
    using assms mod_pos_pos_trivial[of "v + s - n" n] by (auto simp: mod_diff_right_eq)
  show "(v - s) mod n = (if s \<le> v then v - s else v - s + n)"
    using assms mod_pos_pos_trivial[of "v - s + n" n] by auto
qed

lemma degree_three:
  assumes "6 \<le> n" and "n mod 2 = 0" and "0 \<le> v" and "v < n"
  shows "degree (circulant_edges n 1 (n div 2)) v = 3"
proof -
  define h where "h = n div 2"
  have h: "n = 2 * h" "3 \<le> h" using assms by (auto simp: h_def)
  note c = circulant_neighbours[of n v 1 h]
  have "neighbours (circulant_edges n 1 h) v = {(v + 1) mod n, (v - 1) mod n, (v + h) mod n}"
    using c(2) assms(3,4) h shift_mod[of v n 1] shift_mod[of v n h] by auto
  moreover have "card {(v + 1) mod n, (v - 1) mod n, (v + h) mod n} = 3"
    using assms(3,4) h shift_mod[of v n 1] shift_mod[of v n h] by (auto simp: card_insert_if)
  ultimately show ?thesis using degree_neighbours[OF c(1)] assms(3,4) h by (simp flip: h_def)
qed

lemma degree_four:
  assumes "6 \<le> n" and "0 \<le> v" and "v < n"
  shows "degree (circulant_edges n 1 2) v = 4"
proof -
  note c = circulant_neighbours[of n v 1 2]
  have "neighbours (circulant_edges n 1 2) v = {(v + 1) mod n, (v - 1) mod n, (v + 2) mod n, (v - 2) mod n}"
    using c(2) assms shift_mod[of v n 1] shift_mod[of v n 2] by auto
  moreover have "card {(v + 1) mod n, (v - 1) mod n, (v + 2) mod n, (v - 2) mod n} = 4"
    using assms shift_mod[of v n 1] shift_mod[of v n 2] by (auto simp: card_insert_if)
  ultimately show ?thesis using degree_neighbours[OF c(1)] assms by simp
qed

section \<open>Costs and domains\<close>

lemma CostFor_range: "fst (CostFor random) \<in> {-5..5}"
proof -
  have "int (x mod 11) \<le> 10" for x :: nat using mod_less_divisor[of 11 x] by linarith
  then show ?thesis by (auto simp: CostFor_def split_beta' Let_def)
qed

lemma draw_costs_ok: "length (fst (draw_costs n random)) = n \<and> set (fst (draw_costs n random)) \<subseteq> {-5..5}"
proof (induction n arbitrary: random)
  case (Suc n)
  then show ?case using CostFor_range[of random] Suc[of "snd (CostFor random)"] by (simp add: split_beta' Let_def)
qed simp

definition table_ok :: "int \<Rightarrow> int list \<Rightarrow> bool" where
  "table_ok n costs \<longleftrightarrow> length costs = nat n \<and> set costs \<subseteq> {-5..5}"

lemma list_all2_snoc: "list_all2 P xs ys \<Longrightarrow> P x y \<Longrightarrow> list_all2 P (xs @ [x]) (ys @ [y])"
  by (simp add: list_all2_appendI)

lemma draw_tables_ok: "list_all2 table_ok sizes (fst (draw_tables sizes random))"
proof -
  let ?f = "\<lambda>n tables random. let (costs, random') = draw_costs (nat n) random in (tables @ [costs], random')"
  have "list_all2 table_ok xs tables \<Longrightarrow> list_all2 table_ok (xs @ sizes) (fst (draw_loop ?f sizes tables random))" for xs tables
  proof (induction sizes arbitrary: xs tables random)
    case (Cons n sizes)
    have "table_ok n (fst (draw_costs (nat n) random))" using draw_costs_ok by (simp add: table_ok_def)
    then have "list_all2 table_ok (xs @ [n]) (tables @ [fst (draw_costs (nat n) random)])" using Cons.prems by (rule list_all2_snoc[rotated])
    from Cons.IH[OF this, of "snd (draw_costs (nat n) random)"] show ?case by (simp add: split_beta' Let_def)
  qed simp
  from this[of "[]" "[]"] show ?thesis by (simp add: draw_tables_def)
qed

definition profile_domains :: "domain_profile \<Rightarrow> int set" where
  "profile_domains profile = (case profile of kBinary \<Rightarrow> {2} | kSmall \<Rightarrow> {2, 3, 4} | kRegisterLike \<Rightarrow> {4, 5, 6} | kLarge \<Rightarrow> {8, 12, 16, 24})"

lemma nth_of_list: "length xs = n \<Longrightarrow> 0 < n \<Longrightarrow> xs ! (x mod n) \<in> set xs"
  by auto

lemma DomainFor_range: "fst (DomainFor profile random) \<in> profile_domains profile"
  using nth_of_list[of "[2, 3, 4 :: int]" 3 "fst (mt_next random)"] nth_of_list[of "[4, 5, 6 :: int]" 3 "fst (mt_next random)"]
    nth_of_list[of "[8, 12, 16, 24 :: int]" 4 "fst (mt_next random)"]
  by (cases profile) (simp_all add: DomainFor_def profile_domains_def split_beta' Let_def del: nth_Cons_numeral)

definition config_domains :: "generator_config \<Rightarrow> int set" where
  "config_domains config = (if gc_uniform_domain config = 0 then profile_domains (gc_profile config) else {gc_uniform_domain config})"

lemma draw_domains_ok:
  assumes "0 \<le> gc_nodes config"
  shows "int (length (fst (draw_domains config random))) = gc_nodes config \<and> set (fst (draw_domains config random)) \<subseteq> config_domains config"
proof -
  let ?P = "\<lambda>k ds. int (length ds) = k \<and> set ds \<subseteq> config_domains config"
  have "?P (gc_nodes config - 1 + 1) (fst (draw_domains config random))"
    unfolding draw_domains_def
    by (rule draw_loop_upto[where P = ?P])
      (use assms DomainFor_range in \<open>auto simp: config_domains_def split_beta' Let_def\<close>)
  then show ?thesis by simp
qed

section \<open>The generator\<close>

definition accepted_config :: "generator_config \<Rightarrow> bool" where
  "accepted_config config \<longleftrightarrow> 1 \<le> gc_nodes config \<and> 0 \<le> gc_uniform_domain config \<and>
     (gc_family config \<in> {kDegree3, kDegree4} \<longrightarrow> 6 \<le> gc_nodes config \<and> even (gc_nodes config))"

definition family_shape :: "graph_family \<Rightarrow> int \<Rightarrow> (int \<times> int) list \<Rightarrow> bool" where
  "family_shape family n es \<longleftrightarrow> simple_edges n es \<and>
     (case family of
        kTree \<Rightarrow> tree_shape n es
      | kTwoTree \<Rightarrow> two_tree_shape n es
      | kCycle \<Rightarrow> es = map (\<lambda>v. (v - 1, v)) [1..n - 1] @ (if n > 2 then [(0, n - 1)] else [])
      | kDegree3 \<Rightarrow> \<forall>v \<in> {0..n - 1}. degree es v = 3
      | kDegree4 \<Rightarrow> \<forall>v \<in> {0..n - 1}. degree es v = 4
      | _ \<Rightarrow> True)"

lemma random_edges: "0 < n \<Longrightarrow> simple_edges n (fst (draw_loop (random_edge probability) (node_pairs n) [] random))"
  by (rule draw_loop_invariant) (auto simp: random_edge_def node_pairs_def split_beta' Let_def intro!: simple_AddEdge)

lemma path_edges:
  assumes "1 \<le> n"
  shows "fold (\<lambda>node. AddEdge (node - 1) node) [1..n - 1] [] = map (\<lambda>v. (v - 1, v)) [1..n - 1]"
proof -
  let ?P = "\<lambda>k es. es = map (\<lambda>v. (v - 1, v)) [1..k - 1]"
  have "?P (n - 1 + 1) (fold (\<lambda>node. AddEdge (node - 1) node) [1..n - 1] [])"
  proof (rule fold_upto[where P = ?P])
    fix i es assume i: "1 \<le> i" "i \<le> n - 1" and es: "?P i es"
    have "(i - 1, i) \<notin> set es" by (auto simp: es)
    then show "?P (i + 1) (AddEdge (i - 1) i es)" using i es upto_rec2[of 1 i] by (simp add: AddEdge_form ordered_def)
  qed (use assms in auto)
  then show ?thesis by simp
qed

lemma cycle_shape:
  assumes "1 \<le> n"
  defines "es \<equiv> map (\<lambda>v. (v - 1, v)) [1..n - 1]"
  shows "simple_edges n (es @ (if n > 2 then [(0, n - 1)] else []))" and "n > 2 \<Longrightarrow> AddEdge 0 (n - 1) es = es @ [(0, n - 1)]"
proof -
  have "distinct es" by (simp add: es_def distinct_map inj_on_def)
  moreover have "(0, n - 1) \<notin> set es" if "n > 2" using that by (auto simp: es_def)
  ultimately show "simple_edges n (es @ (if n > 2 then [(0, n - 1)] else []))"
    and "n > 2 \<Longrightarrow> AddEdge 0 (n - 1) es = es @ [(0, n - 1)]"
    using assms(1) by (auto simp: simple_edges_def es_def AddEdge_form ordered_def)
qed

lemma draw_edges_shape:
  assumes "accepted_config config" and "gc_family config = family" and "gc_nodes config = n"
  shows "family_shape family n (fst (draw_edges family n random))"
proof -
  have n: "1 \<le> n" using assms by (simp add: accepted_config_def)
  show ?thesis
  proof (cases family)
    case kTree
    have "tree_shape (n - 1 + 1) (fst (draw_loop tree_edge [1..n - 1] [] random))"
      by (rule draw_loop_upto) (use n tree_step in \<open>auto simp: tree_shape_def\<close>)
    then show ?thesis by (simp add: family_shape_def draw_edges_def kTree) (simp add: tree_shape_def)
  next
    case kTwoTree
    have "two_tree_shape n (fst (draw_loop two_tree_edges [2..n - 1] (if n > 1 then AddEdge 0 1 [] else []) random))"
    proof (cases "n > 1")
      case True
      have "two_tree_shape (n - 1 + 1) (fst (draw_loop two_tree_edges [2..n - 1] [(0, 1)] random))"
        by (rule draw_loop_upto) (use True two_tree_step in \<open>auto simp: two_tree_shape_def simple_edges_def earlier_def\<close>)
      then show ?thesis using True by (simp add: AddEdge_form ordered_def)
    qed (use n in \<open>auto simp: two_tree_shape_def\<close>)
    moreover from this have "simple_edges n (fst (draw_loop two_tree_edges [2..n - 1] (if n > 1 then AddEdge 0 1 [] else []) random))"
      unfolding two_tree_shape_def by blast
    ultimately show ?thesis unfolding family_shape_def draw_edges_def kTwoTree by simp
  next
    case kCycle
    then show ?thesis using cycle_shape[OF n] path_edges[OF n] by (cases "n > 2") (simp_all add: family_shape_def draw_edges_def)
  next
    case kDegree3
    then have "6 \<le> n" "n mod 2 = 0" using assms by (auto simp: accepted_config_def)
    then show ?thesis using degree_three circulant_neighbours(1)[of n 0] by (simp add: family_shape_def draw_edges_def kDegree3)
  next
    case kDegree4
    then have "6 \<le> n" using assms by (auto simp: accepted_config_def)
    then show ?thesis using degree_four circulant_neighbours(1)[of n 0] by (simp add: family_shape_def draw_edges_def kDegree4)
  qed (use random_edges[of n] n in \<open>simp_all add: family_shape_def draw_edges_def\<close>)
qed

definition graph_well_formed :: "generator_config \<Rightarrow> graph \<Rightarrow> bool" where
  "graph_well_formed config g \<longleftrightarrow>
     int (length (gr_domains g)) = gc_nodes config \<and> set (gr_domains g) \<subseteq> config_domains config \<and>
     simple_edges (gc_nodes config) (gr_edges g) \<and>
     list_all2 table_ok (gr_domains g) (gr_unary_costs g) \<and>
     list_all2 table_ok (map (edge_size (gr_domains g)) (gr_edges g)) (gr_edge_costs g)"

lemma generated:
  assumes "GenerateGraph config = Inr g"
  shows "accepted_config config" and "graph_well_formed config g" and "family_shape (gc_family config) (gc_nodes config) (gr_edges g)"
proof -
  show a: "accepted_config config"
    using assms by (auto simp: GenerateGraph_def accepted_config_def even_iff_mod_2_eq_zero split: if_splits)
  obtain domains r1 edges r2 unary r3 costs r4 where
      d: "draw_domains config (mt_seed (gc_seed config)) = (domains, r1)" and e: "draw_edges (gc_family config) (gc_nodes config) r1 = (edges, r2)"
    and u: "draw_tables domains r2 = (unary, r3)" and c: "draw_tables (map (edge_size domains) edges) r3 = (costs, r4)"
    by (metis surj_pair)
  have g: "g = \<lparr>gr_domains = domains, gr_edges = edges, gr_unary_costs = unary, gr_edge_costs = costs\<rparr>"
    using assms by (auto simp: GenerateGraph_def d e u c split: if_splits)
  show s: "family_shape (gc_family config) (gc_nodes config) (gr_edges g)"
    using draw_edges_shape[OF a refl refl, of r1] by (simp add: e g)
  show "graph_well_formed config g"
    using draw_domains_ok[of config "mt_seed (gc_seed config)"] a s draw_tables_ok[of domains r2] draw_tables_ok[of "map (edge_size domains) edges" r3]
    by (simp add: graph_well_formed_def g d u c accepted_config_def family_shape_def)
qed

section \<open>Outcomes\<close>

lemma edge_size_bound:
  assumes "simple_edges n edges" and "int (length domains) = n" and "set domains \<subseteq> {0..m}" and "edge \<in> set edges"
  shows "edge_size domains edge \<le> m * m"
proof -
  have "nat (fst edge) < length domains" "nat (snd edge) < length domains" using assms(1,2,4) by (auto simp: simple_edges_def)
  then have "domains ! nat (fst edge) \<in> {0..m}" "domains ! nat (snd edge) \<in> {0..m}" using assms(3) nth_mem by blast+
  then show ?thesis unfolding edge_size_def by (intro mult_mono) auto
qed

lemma config_domains_bound: "0 \<le> gc_uniform_domain config \<Longrightarrow> gc_uniform_domain config \<le> m \<Longrightarrow> 24 \<le> m \<Longrightarrow> config_domains config \<subseteq> {1..m}"
  by (cases "gc_profile config") (auto simp: config_domains_def profile_domains_def)

lemma generator_succeeds:
  assumes a: "accepted_config config" and u: "gc_uniform_domain config \<le> 46340" and n: "gc_nodes config \<le> 2 ^ 30"
  shows "\<exists>g. GenerateGraph config = Inr g"
proof -
  obtain domains r1 edges r2 where d: "draw_domains config (mt_seed (gc_seed config)) = (domains, r1)"
    and e: "draw_edges (gc_family config) (gc_nodes config) r1 = (edges, r2)" by (metis surj_pair)
  have "largest_sum (gc_family config) (gc_nodes config) \<le> INT_MAX"
    using n by (cases "gc_family config") (auto simp: largest_sum_def)
  moreover have "edge_size domains edge \<le> INT_MAX" if "edge \<in> set edges" for edge
  proof -
    have "set domains \<subseteq> {0..46340}"
      using draw_domains_ok[of config "mt_seed (gc_seed config)"] config_domains_bound[OF _ u] a by (auto simp: d accepted_config_def)
    moreover have "int (length domains) = gc_nodes config" using draw_domains_ok[of config "mt_seed (gc_seed config)"] a by (simp add: d accepted_config_def)
    moreover have "simple_edges (gc_nodes config) edges" using draw_edges_shape[OF a refl refl, of r1] by (simp add: e family_shape_def)
    ultimately have "edge_size domains edge \<le> 46340 * 46340" using that by (intro edge_size_bound) auto
    then show ?thesis by simp
  qed
  ultimately have fits: "\<not> largest_sum (gc_family config) (gc_nodes config) > INT_MAX" "\<not> (\<exists>edge \<in> set edges. edge_size domains edge > INT_MAX)"
    by (auto simp: not_less)
  have "\<not> gc_nodes config < 1" "\<not> gc_uniform_domain config < 0"
    "\<not> ((gc_family config = kDegree3 \<or> gc_family config = kDegree4) \<and> (gc_nodes config < 6 \<or> gc_nodes config mod 2 \<noteq> 0))"
    using a by (auto simp: accepted_config_def even_iff_mod_2_eq_zero)
  then show ?thesis unfolding GenerateGraph_def d using fits by (simp add: e split_beta' Let_def del: not_less)
qed

lemma generator_rejects: "GenerateGraph config = Inl (Invalid_argument m) \<longleftrightarrow> \<not> accepted_config config \<and> GenerateGraph config = Inl (Invalid_argument m)"
  by (auto simp: GenerateGraph_def accepted_config_def even_iff_mod_2_eq_zero split_beta' Let_def split: if_splits)

text \<open>
  C22: what the generator returns, for every configuration and seed. Invalid configurations, and only
  they, are refused; an \<open>int\<close> overflow needs more than \<open>2 ^ 30\<close> nodes or a uniform domain above 46340;
  every other call returns a well-formed graph: as many nodes as asked for with domains of the
  profile, distinct edges from a smaller to a larger node, and a cost between -5 and 5 for every value
  and every pair of values.
\<close>

theorem generator_outcome:
  "case GenerateGraph config of
     Inr g \<Rightarrow> accepted_config config \<and> graph_well_formed config g
   | Inl (Invalid_argument m) \<Rightarrow> \<not> accepted_config config
   | Inl Signed_overflow \<Rightarrow> accepted_config config \<and> (gc_nodes config > 2 ^ 30 \<or> gc_uniform_domain config > 46340)"
proof (cases "GenerateGraph config")
  case (Inr g)
  then show ?thesis using generated[OF Inr] by simp
next
  case (Inl e)
  then show ?thesis
  proof (cases e)
    case (Invalid_argument m)
    then show ?thesis using Inl generator_rejects[of config m] by simp
  next
    case Signed_overflow
    have a: "accepted_config config"
      using Inl Signed_overflow by (auto simp: GenerateGraph_def accepted_config_def even_iff_mod_2_eq_zero split: if_splits)
    moreover have "gc_nodes config > 2 ^ 30 \<or> gc_uniform_domain config > 46340"
      using generator_succeeds[OF a] Inl Signed_overflow by (metis not_le sum.distinct(1))
    ultimately show ?thesis using Inl Signed_overflow by simp
  qed
qed

text \<open>
  C21: the families are what their names say. In a tree every node but the first has exactly one
  edge to an earlier node; in a two-tree every node from the third on is joined to exactly two earlier
  nodes, which are adjacent; a cycle is the path in order, closed from three nodes on; the degree-3 and
  degree-4 graphs are regular of that degree. No edge is repeated and none is a loop.
\<close>

theorem generated_families:
  assumes "GenerateGraph config = Inr g"
  shows "family_shape (gc_family config) (gc_nodes config) (gr_edges g)"
  using generated(3)[OF assms] .

definition example_config :: "graph_family \<Rightarrow> generator_config" where
  "example_config family = \<lparr>gc_family = family, gc_profile = kSmall, gc_nodes = 8, gc_seed = 7, gc_uniform_domain = 0\<rparr>"

lemma example_generated: "\<exists>g. GenerateGraph (example_config family) = Inr g"
  by (rule generator_succeeds[of "example_config family"]) (auto simp: example_config_def accepted_config_def)

theorem generated_families_witness:
  "\<exists>g h. GenerateGraph (example_config kDegree3) = Inr g \<and> degree (gr_edges g) 5 = 3 \<and>
     GenerateGraph (example_config kTwoTree) = Inr h \<and> earlier (gr_edges h) 1 = [0]"
proof -
  obtain g h where g: "GenerateGraph (example_config kDegree3) = Inr g" and h: "GenerateGraph (example_config kTwoTree) = Inr h"
    using example_generated by blast
  show ?thesis using generated_families[OF g] generated_families[OF h] g h
    by (simp add: example_config_def family_shape_def two_tree_shape_def)
qed

section \<open>Reading the printed text back\<close>

definition input_of_graph :: "graph \<Rightarrow> input_problem" where
  "input_of_graph g = \<lparr>ip_nodes = map input_node.make (gr_unary_costs g),
     ip_edges = map (\<lambda>k. \<lparr>ie_first = nat (fst (gr_edges g ! k)), ie_second = nat (snd (gr_edges g ! k)), ie_costs = gr_edge_costs g ! k\<rparr>)
       [0..<length (gr_edges g)]\<rparr>"

lemma fold_option_build:
  "(\<And>k. k < n \<Longrightarrow> f (x k) (st k) = Some (st (Suc k))) \<Longrightarrow> fold_option f (map x [0..<n]) (st 0) = Some (st n)"
  by (induction n) (simp_all add: fold_option_append)

definition plain :: "string \<Rightarrow> bool" where
  "plain s \<longleftrightarrow> (\<forall>c \<in> set s. c \<noteq> newline \<and> c \<noteq> CHR ''#'')"

lemma plain_simps [simp]: "plain []" "plain (c # s) \<longleftrightarrow> c \<noteq> newline \<and> c \<noteq> CHR ''#'' \<and> plain s" "plain (s @ t) \<longleftrightarrow> plain s \<and> plain t"
  by (auto simp: plain_def)

lemma plain_int [simp]: "plain (show_int i)"
  using show_int_token(2) by (auto simp: plain_def)

lemma plain_costs [simp]: "plain (show_costs cs)"
  by (induction cs) (simp_all add: show_costs_def newline_def)

lemma show_nat_int: "show_nat n = show_int (int n)"
  by (simp add: show_int_def)

lemma show_costs_simps [simp]: "show_costs [] = []" "show_costs (c # cs) = CHR '' '' # show_int c @ show_costs cs"
  by (simp_all add: show_costs_def)

lemma after_costs [simp]: "after_number (show_costs cs)"
  by (cases cs) simp_all

lemma parse_show_costs:
  assumes "\<And>c. c \<in> set cs \<Longrightarrow> c \<in> {-5..5}"
  shows "parse_costs (show_costs cs) (length cs) = Some cs"
proof -
  have "parse_cost_tokens (length cs) (show_costs cs) = Some (cs, [])"
    using assms
  proof (induction cs)
    case (Cons c cs)
    then have "-5 \<le> c" "c \<le> 5" by auto
    then have "parse_cost (show_int c) = Some c" by (intro parse_cost_int) auto
    moreover have "parse_cost_tokens (length cs) (show_costs cs) = Some (cs, [])" by (rule Cons.IH) (use Cons.prems in auto)
    ultimately show ?case by (simp add: text_simps)
  qed simp
  then show ?thesis by (simp add: parse_costs_def text_simps)
qed

definition node_text :: "int \<times> int list \<Rightarrow> string" where
  "node_text node = ''node '' @ show_int (fst node) @ show_costs (snd node)"

definition edge_text :: "(int \<times> int) \<times> int list \<Rightarrow> string" where
  "edge_text edge = ''edge '' @ show_int (fst (fst edge)) @ CHR '' '' # show_int (snd (fst edge)) @ show_costs (snd edge)"

lemma read_keyword:
  assumes "plain (w @ CHR '' '' # s)" and "w \<noteq> []" and "list_all (\<lambda>c. \<not> is_space c) w"
  shows "read_word (takeWhile (\<lambda>c. c \<noteq> CHR ''#'') (w @ CHR '' '' # s)) = Some (w, CHR '' '' # s)"
proof -
  have "takeWhile (\<lambda>c. c \<noteq> CHR ''#'') (w @ CHR '' '' # s) = w @ CHR '' '' # s"
    using assms(1) unfolding plain_def by (intro takeWhile_eq_all_conv[THEN iffD2]) auto
  then show ?thesis using read_word_token[of w "CHR '' '' # s"] assms(2,3) by (metis after_number_simps(2) list_all_iff space_blank)
qed

lemma load_node_text:
  assumes "table_ok d cs" and "0 < d" and "d \<le> kMaximumHostDomain" and "ld_saw_nodes ld" and "length (ip_nodes (ld_problem ld)) \<noteq> ld_declared_nodes ld"
  shows "load_line (node_text (d, cs)) ld = Some (ld\<lparr>ld_problem := (ld_problem ld)\<lparr>ip_nodes := ip_nodes (ld_problem ld) @ [\<lparr>in_unary = cs\<rparr>]\<rparr>\<rparr>)"
proof -
  have k: "read_word (takeWhile (\<lambda>c. c \<noteq> CHR ''#'') (node_text (d, cs))) = Some (''node'', CHR '' '' # show_int d @ show_costs cs)"
    using read_keyword[of "''node''" "show_int d @ show_costs cs"] by (simp add: node_text_def newline_def is_space_def)
  have cs: "length cs = nat d" "\<And>c. c \<in> set cs \<Longrightarrow> c \<in> {-5..5}" using assms(1) by (auto simp: table_ok_def)
  then have "parse_costs (show_costs cs) (nat d) = Some cs" using parse_show_costs[of cs] by simp
  moreover have "list_all is_valid_input_cost cs" using cs(2) by (fastforce simp: list_all_iff is_valid_input_cost_def ACCEL_INF_def INT32_MAX_def)
  ultimately show ?thesis using assms(2-5) by (simp add: load_line_def k load_node_line_def text_simps Let_def)
qed

lemma load_edge_text:
  assumes "table_ok n cs" and "nat n = domain_at p (nat a) * domain_at p (nat b)" and "0 \<le> a" and "a < b" and "b < int (length (ip_nodes p))"
    and "b < 2 ^ 64" and "ld_saw_nodes ld" and "ld_problem ld = p"
  shows "load_line (edge_text ((a, b), cs)) ld =
    Some (ld\<lparr>ld_problem := p\<lparr>ip_edges := ip_edges p @ [\<lparr>ie_first = nat a, ie_second = nat b, ie_costs = cs\<rparr>]\<rparr>\<rparr>)"
proof -
  have k: "read_word (takeWhile (\<lambda>c. c \<noteq> CHR ''#'') (edge_text ((a, b), cs))) =
      Some (''edge'', CHR '' '' # show_int a @ CHR '' '' # show_int b @ show_costs cs)"
    using read_keyword[of "''edge''" "show_int a @ CHR '' '' # show_int b @ show_costs cs"] by (simp add: edge_text_def newline_def is_space_def)
  have cs: "length cs = domain_at p (nat a) * domain_at p (nat b)" "\<And>c. c \<in> set cs \<Longrightarrow> c \<in> {-5..5}"
    using assms(1,2) by (auto simp: table_ok_def)
  then have "parse_costs (show_costs cs) (domain_at p (nat a) * domain_at p (nat b)) = Some cs" using parse_show_costs[of cs] by simp
  moreover have "list_all is_valid_input_cost cs" using cs(2) by (fastforce simp: list_all_iff is_valid_input_cost_def ACCEL_INF_def INT32_MAX_def)
  moreover have "nat a < length (ip_nodes p)" "nat b < length (ip_nodes p)" "nat a \<noteq> nat b" using assms(3-5) by auto
  ultimately show ?thesis using assms(3-8) by (simp add: load_line_def k load_edge_line_def text_simps Let_def domain_at_def)
qed

definition graph_header :: "generator_config \<Rightarrow> string" where
  "graph_header config = ''# family='' @ family_text (gc_family config) @ '' profile='' @ profile_text (gc_profile config) @
     '' nodes='' @ show_int (gc_nodes config) @ '' seed='' @ show_nat (unat (gc_seed config)) @
     '' domain-size='' @ show_int (gc_uniform_domain config)"

definition graph_lines :: "generator_config \<Rightarrow> graph \<Rightarrow> string list" where
  "graph_lines config g = [graph_header config, ''nodes '' @ show_int (int (length (gr_domains g)))] @
     map (\<lambda>k. node_text (gr_domains g ! k, gr_unary_costs g ! k)) [0..<length (gr_domains g)] @
     map (\<lambda>k. edge_text (gr_edges g ! k, gr_edge_costs g ! k)) [0..<length (gr_edges g)]"

lemma print_graph_lines: "print_graph config g = concat (map (\<lambda>l. l @ [newline]) (graph_lines config g))"
  by (simp add: print_graph_def graph_lines_def graph_header_def node_text_def edge_text_def show_nat_int comp_def)

definition one_line :: "string \<Rightarrow> bool" where
  "one_line s \<longleftrightarrow> newline \<notin> set s"

lemma one_line_simps [simp]: "one_line []" "one_line (c # s) \<longleftrightarrow> c \<noteq> newline \<and> one_line s" "one_line (s @ t) \<longleftrightarrow> one_line s \<and> one_line t"
  by (auto simp: one_line_def)

lemma one_line_plain: "plain s \<Longrightarrow> one_line s"
  by (auto simp: one_line_def plain_def)

lemma header_line: "one_line (graph_header config)"
proof -
  have "one_line (family_text f)" for f by (cases f) (simp_all add: family_text_def newline_def)
  moreover have "one_line (profile_text p)" for p by (cases p) (simp_all add: profile_text_def newline_def)
  moreover have "one_line (show_int i)" for i by (rule one_line_plain) simp
  ultimately show ?thesis by (simp add: graph_header_def show_nat_int newline_def)
qed

lemma lines_no_newline:
  assumes "l \<in> set (graph_lines config g)"
  shows "one_line l"
proof -
  have n: "\<And>n. one_line (node_text n)" and e: "\<And>e. one_line (edge_text e)" and i: "\<And>i. one_line (''nodes '' @ show_int i)"
    by (rule one_line_plain; simp add: node_text_def edge_text_def newline_def)+
  have "l = graph_header config \<or> l = ''nodes '' @ show_int (int (length (gr_domains g))) \<or> l \<in> range node_text \<or> l \<in> range edge_text"
    using assms unfolding graph_lines_def set_append set_map by auto
  then show ?thesis using header_line n e i by (elim disjE rangeE) (simp_all only:)
qed

lemma load_header: "load_line (graph_header config) ld = Some ld"
  by (simp add: load_line_def graph_header_def text_simps)

lemma load_nodes_text:
  assumes "0 < n" and "n < 2 ^ 64" and "\<not> ld_saw_nodes ld" and "ip_nodes (ld_problem ld) = []"
  shows "load_line (''nodes '' @ show_int (int n)) ld = Some (ld\<lparr>ld_saw_nodes := True, ld_declared_nodes := n\<rparr>)"
proof -
  have "read_word (takeWhile (\<lambda>c. c \<noteq> CHR ''#'') (''nodes '' @ show_int (int n))) = Some (''nodes'', CHR '' '' # show_int (int n))"
    using read_keyword[of "''nodes''" "show_int (int n)"] by (simp add: newline_def is_space_def)
  moreover have "read_size (show_int (int n)) = Some (n, [])" using read_size_int[of "[]" "int n"] assms(2) by simp
  ultimately show ?thesis using assms by (simp add: load_line_def load_nodes_line_def text_simps)
qed

lemma printed_graph_loads:
  assumes w: "graph_well_formed config g" and n: "1 \<le> gc_nodes config" "gc_nodes config \<le> INT_MAX"
    and d: "config_domains config \<subseteq> {1..65536}"
  shows "load_problem (Some (print_graph config g)) empty_input = Some (input_of_graph g)"
proof -
  define N where "N = length (gr_domains g)"
  have N: "int N = gc_nodes config" and dom: "set (gr_domains g) \<subseteq> {1..65536}" and simple: "simple_edges (int N) (gr_edges g)"
    and u: "list_all2 table_ok (gr_domains g) (gr_unary_costs g)"
    and c: "list_all2 table_ok (map (edge_size (gr_domains g)) (gr_edges g)) (gr_edge_costs g)"
    using w d by (auto simp: graph_well_formed_def N_def)
  have lu: "length (gr_unary_costs g) = N" using u by (auto simp: N_def dest: list_all2_lengthD)
  have tu: "table_ok (gr_domains g ! k) (gr_unary_costs g ! k)" if "k < N" for k using u that by (simp add: N_def list_all2_nthD)
  have tc: "table_ok (edge_size (gr_domains g) (gr_edges g ! k)) (gr_edge_costs g ! k)" if "k < length (gr_edges g)" for k
    using list_all2_nthD[OF c, of k] that by simp
  let ?nodes = "map input_node.make (gr_unary_costs g)"
  let ?edge = "\<lambda>k. \<lparr>ie_first = nat (fst (gr_edges g ! k)), ie_second = nat (snd (gr_edges g ! k)), ie_costs = gr_edge_costs g ! k\<rparr>"
  let ?ld = "\<lambda>ns es. \<lparr>ld_problem = \<lparr>ip_nodes = ns, ip_edges = es\<rparr>, ld_saw_nodes = True, ld_declared_nodes = N\<rparr>"
  let ?begin_ld = "\<lparr>ld_problem = empty_input, ld_saw_nodes = False, ld_declared_nodes = 0\<rparr>"
  have start: "load_line (''nodes '' @ show_int (int N)) ?begin_ld = Some (?ld [] [])"
    using load_nodes_text[of N ?begin_ld] N n by simp
  have nodes: "fold_option load_line (map (\<lambda>k. node_text (gr_domains g ! k, gr_unary_costs g ! k)) [0..<N]) (?ld (take 0 ?nodes) []) = Some (?ld (take N ?nodes) [])"
  proof (rule fold_option_build[where st = "\<lambda>k. ?ld (take k ?nodes) []"])
    fix k assume k: "k < N"
    then have "gr_domains g ! k \<in> {1..65536}" using dom by (simp add: N_def subset_iff)
    moreover have "take (Suc k) ?nodes = take k ?nodes @ [\<lparr>in_unary = gr_unary_costs g ! k\<rparr>]"
      using k lu by (simp add: take_Suc_conv_app_nth input_node.make_def)
    ultimately show "load_line (node_text (gr_domains g ! k, gr_unary_costs g ! k)) (?ld (take k ?nodes) []) = Some (?ld (take (Suc k) ?nodes) [])"
      using load_node_text[OF tu[OF k], of "?ld (take k ?nodes) []"] k lu by simp
  qed
  have edges: "fold_option load_line (map (\<lambda>k. edge_text (gr_edges g ! k, gr_edge_costs g ! k)) [0..<length (gr_edges g)]) (?ld ?nodes (map ?edge [0..<0])) =
      Some (?ld ?nodes (map ?edge [0..<length (gr_edges g)]))"
  proof (rule fold_option_build[where st = "\<lambda>k. ?ld ?nodes (map ?edge [0..<k])"])
    fix k assume k: "k < length (gr_edges g)"
    obtain a b where ab: "gr_edges g ! k = (a, b)" by fastforce
    have r: "0 \<le> a" "a < b" "b < int N" using simple nth_mem[OF k] ab by (auto simp: simple_edges_def)
    let ?p = "\<lparr>ip_nodes = ?nodes, ip_edges = map ?edge [0..<k]\<rparr>"
    have "int (domain_at ?p (nat v)) = gr_domains g ! nat v" if "0 \<le> v" "v < int N" for v
    proof -
      have v: "nat v < N" using that by simp
      then have "gr_domains g ! nat v \<in> {1..65536}" using dom by (simp add: N_def subset_iff)
      then show ?thesis using tu[OF v] v lu by (simp add: domain_at_def table_ok_def input_node.make_def)
    qed
    from this[of a] this[of b] have "edge_size (gr_domains g) (a, b) = int (domain_at ?p (nat a) * domain_at ?p (nat b))"
      using r by (simp add: edge_size_def)
    then have "nat (edge_size (gr_domains g) (a, b)) = domain_at ?p (nat a) * domain_at ?p (nat b)" by (simp only: nat_int)
    from load_edge_text[OF tc[OF k, unfolded ab] this, of "?ld ?nodes (map ?edge [0..<k])"]
    show "load_line (edge_text (gr_edges g ! k, gr_edge_costs g ! k)) (?ld ?nodes (map ?edge [0..<k])) = Some (?ld ?nodes (map ?edge [0..<Suc k]))"
      using r N n lu by (simp add: ab)
  qed
  have "getlines (print_graph config g) = graph_lines config g"
    using getlines_lines[of "graph_lines config g" "[]"] lines_no_newline[of _ config g] unfolding one_line_def print_graph_lines by force
  moreover have "fold_option load_line (graph_lines config g) ?begin_ld = Some (?ld ?nodes (map ?edge [0..<length (gr_edges g)]))"
    using start nodes edges lu by (simp add: graph_lines_def fold_option_append load_header flip: N_def)
  ultimately show ?thesis using lu by (simp add: load_problem_def input_of_graph_def)
qed

text \<open>
  C13: generator and runner agree on the text format. The text printed for a generated graph is read
  back by the runner's loader as exactly that graph, with its node order, its edges and its costs,
  whenever the domains are within the loader's limit of 65536.
\<close>

theorem generated_text_loads:
  assumes "GenerateGraph config = Inr g" and "gc_nodes config \<le> 2147483647" and "gc_uniform_domain config \<le> 65536"
  shows "load_problem (Some (print_graph config g)) \<lparr>ip_nodes = [], ip_edges = []\<rparr> = Some (input_of_graph g)"
proof (rule printed_graph_loads)
  note a = generated(1)[OF assms(1)]
  show "graph_well_formed config g" by (rule generated(2)[OF assms(1)])
  show "1 \<le> gc_nodes config" "gc_nodes config \<le> INT_MAX" using a assms(2) by (simp_all add: accepted_config_def)
  show "config_domains config \<subseteq> {1..65536}"
    by (rule config_domains_bound) (use a assms(3) in \<open>simp_all add: accepted_config_def\<close>)
qed

theorem generated_text_loads_witness:
  "\<exists>g. GenerateGraph (example_config kTwoTree) = Inr g \<and>
     load_problem (Some (print_graph (example_config kTwoTree) g)) \<lparr>ip_nodes = [], ip_edges = []\<rparr> = Some (input_of_graph g)"
proof -
  obtain g where g: "GenerateGraph (example_config kTwoTree) = Inr g" using example_generated by blast
  show ?thesis using generated_text_loads[OF g] g by (simp add: example_config_def)
qed

end
