(* ===== verification/Kernel_Status.thy ===== *)
theory Kernel_Status
  imports Model_Kernel
begin

text \<open>
  Failed calls of the hosted kernel. The solver takes the value 0 for success, so every early return has
  to carry another code: the staging status is set whenever a copy or an allocation returns address 0.
\<close>

definition cache_nonzero :: "model_kernel \<Rightarrow> bool" where
  "cache_nonzero k \<longleftrightarrow> (\<forall>key. mk_view_cache k key \<noteq> Some 0)"

text \<open>A staging step keeps the cache free of null addresses, and a null result or an earlier failure leaves the status set.\<close>

definition flags :: "u64 \<Rightarrow> model_kernel \<Rightarrow> model_kernel \<Rightarrow> bool" where
  "flags a k k' \<longleftrightarrow> cache_nonzero k \<longrightarrow>
     cache_nonzero k' \<and> (a = 0 \<or> mk_staging_status k \<noteq> PCAA_STATUS_OK \<longrightarrow> mk_staging_status k' \<noteq> PCAA_STATUS_OK)"

lemma flags_simps [simp]:
  "mk_staging_status (set_memory m k) = mk_staging_status k" "mk_view_cache (set_memory m k) = mk_view_cache k"
  "cache_nonzero (set_memory m k) = cache_nonzero k" "cache_nonzero (k\<lparr>mk_staging_status := st\<rparr>) = cache_nonzero k"
  by (simp_all add: set_memory_def cache_nonzero_def)

lemma allocate_flags: "allocate_storage env bytes k = (a, k') \<Longrightarrow> flags a k k'"
  by (auto simp: allocate_storage_def flags_def split: prod.splits if_splits)

lemma copy_view_flags: "copy_view env base v k = (a, k') \<Longrightarrow> flags a k k'"
  by (auto simp: copy_view_def flags_def Let_def cache_nonzero_def simp del: split_paired_All split_paired_Ex dest!: allocate_flags split: option.splits if_splits prod.splits)

lemma copy_matrix_flags: "copy_matrix env m k = (a, k') \<Longrightarrow> flags a k k'"
  by (auto simp: copy_matrix_def flags_def cache_nonzero_def dest!: allocate_flags split: if_splits prod.splits)

lemmas step_flags = allocate_flags copy_view_flags copy_matrix_flags

lemma status_code_zero [simp]: "status_code st = 0 \<longleftrightarrow> st = PCAA_STATUS_OK"
  by (cases st) simp_all

lemma built_status: "built_command build = Inl st \<Longrightarrow> st \<noteq> PCAA_STATUS_OK"
  by (auto simp: built_command_def split: prod.splits if_splits)

definition reports :: "'j stager \<Rightarrow> bool" where
  "reports stage \<longleftrightarrow> (\<forall>index job k. cache_nonzero k \<longrightarrow> cache_nonzero (snd (stage index job k)) \<and>
     (\<forall>code. fst (stage index job k) = Inl code \<longrightarrow> code \<noteq> 0))"

lemma stagers_report:
  "reports (stage_min2 env address arg)" "reports (stage_min3 env address)" "reports (stage_project_add env address base scores)"
  "reports (stage_map3 env address)" "reports (stage_add_vector env address)" "reports (stage_project env address)"
  unfolding reports_def stage_min2_def stage_min3_def stage_project_add_def stage_map3_def stage_add_vector_def stage_project_def Let_def
  by (auto dest!: step_flags built_status simp: flags_def split: prod.splits sum.splits if_splits)

lemma reportsD:
  assumes "reports stage" and "cache_nonzero k" and "stage index job k = (r, k')"
  shows "cache_nonzero k'" and "r \<noteq> Inl 0"
  using assms unfolding reports_def by (metis snd_conv, metis fst_conv)

lemma staged_jobs_report:
  assumes "reports stage" and "cache_nonzero k" and "stage_jobs stage index jobs k = (r, k')"
  shows "r \<noteq> Inl 0"
  using assms(2,3)
proof (induction jobs arbitrary: index k r k')
  case (Cons job jobs)
  obtain r1 k1 where st: "stage index job k = (r1, k1)" by fastforce
  note r1 = reportsD[OF assms(1) Cons.prems(1) st]
  obtain r2 k2 where rest: "stage_jobs stage (index + 1) jobs k1 = (r2, k2)" by fastforce
  show ?case using Cons.IH[OF r1(1) rest] r1(2) Cons.prems(2) st rest by (auto split: sum.splits)
qed auto

lemma run_jobs_report:
  assumes "reports stage"
  shows "fst (run_jobs env stage result_size jobs k s) \<noteq> Inl 0"
proof -
  have "cache_nonzero (begin_batch k)" by (simp add: begin_batch_def cache_nonzero_def)
  note staged = staged_jobs_report[OF assms this]
  obtain r k1 where st: "stage_jobs stage 0 jobs (begin_batch k) = (r, k1)" by fastforce
  show ?thesis using staged[OF st] by (auto simp: run_jobs_def st split: prod.splits sum.splits option.splits)
qed

lemma map_call_report: "fst (call k s) \<noteq> Inl 0 \<Longrightarrow> fst (map_call f call k s) \<noteq> Inl 0"
  by (auto simp: map_call_def map_sum_def split: prod.splits sum.splits)

lemmas calls_report = map_call_report[OF run_jobs_report[OF stagers_report(1)]] map_call_report[OF run_jobs_report[OF stagers_report(2)]]
  map_call_report[OF run_jobs_report[OF stagers_report(3)]] map_call_report[OF run_jobs_report[OF stagers_report(4)]]
  map_call_report[OF run_jobs_report[OF stagers_report(5)]] map_call_report[OF run_jobs_report[OF stagers_report(6)]]

text \<open>
  C33: a failed call of the hosted kernel never looks like a success. For every context, every operands
  and every environment, no call of the function table returns the status 0 without storing its results:
  when a copy or an allocation returned the null address, the staging status was set to the reason, and
  the other early returns carry the status of the constructor, submission, wait or read that failed.
\<close>

theorem failed_call_reports:
  "fst (mk_min2_batch env jobs2 k s) \<noteq> Inl 0 \<and> fst (mk_min3_batch env jobs3 k s) \<noteq> Inl 0 \<and>
   fst (mk_min2_value_batch env jobs2 k s) \<noteq> Inl 0 \<and> fst (mk_project_add_batch env jobsp scores k s) \<noteq> Inl 0 \<and>
   fst (mk_map3_project_batch env jobsm k s) \<noteq> Inl 0 \<and> fst (mk_cost_add_vector env a b k s) \<noteq> Inl 0 \<and>
   fst (mk_minplus_project env m v k s) \<noteq> Inl 0"
proof (intro conjI)
  show "fst (mk_min2_batch env jobs2 k s) \<noteq> Inl 0" "fst (mk_min3_batch env jobs3 k s) \<noteq> Inl 0"
    "fst (mk_min2_value_batch env jobs2 k s) \<noteq> Inl 0" "fst (mk_cost_add_vector env a b k s) \<noteq> Inl 0"
    "fst (mk_minplus_project env m v k s) \<noteq> Inl 0"
    unfolding mk_min2_batch_def mk_min3_batch_def mk_min2_value_batch_def mk_cost_add_vector_def mk_minplus_project_def
    by (rule calls_report)+
  show "fst (mk_project_add_batch env jobsp scores k s) \<noteq> Inl 0"
    by (simp add: mk_project_add_batch_def calls_report(3))
  show "fst (mk_map3_project_batch env jobsm k s) \<noteq> Inl 0"
    by (simp add: mk_map3_project_batch_def calls_report(4))
qed

end
