(* ===== verification/Pbqp_Rn_Total.thy ===== *)
theory Pbqp_Rn_Total
  imports Pbqp_Strategies
begin

text \<open>
  The heuristic RN succeeds: the checked additions of its scores never fail, because the neighbours of
  a node are distinct and their tables share the budget of the input costs. With a kernel whose value
  and projection entries are total too, a heuristic solve returns \<open>PBQP_OK\<close>.
\<close>

section \<open>The budget of a node\<close>

lemma rn_neighbor:
  assumes "pbqp_wf p" and "e \<in> set (incident_edges p n)"
  shows "OtherNode (edge_at p e) n < pb_node_count p" and "OtherNode (edge_at p e) n \<noteq> n"
    and "nd_active (node_at p (OtherNode (edge_at p e) n))"
  using assms wf_edge[OF assms(1), of e] by (auto simp: incident_edges_set incident_def OtherNode_def)

lemma other_inj:
  assumes wf: "pbqp_wf p" and e: "e \<in> set (incident_edges p n)" and f: "f \<in> set (incident_edges p n)"
    and eq: "OtherNode (edge_at p e) n = OtherNode (edge_at p f) n"
  shows "e = f"
proof -
  have a: "e < pb_edge_capacity p" "f < pb_edge_capacity p" "incident (edge_at p e) n" "incident (edge_at p f) n"
    using e f by (auto simp: incident_edges_set)
  have "edge_joins (edge_at p f) (eg_first (edge_at p e)) (eg_second (edge_at p e))"
    using a eq wf_edge(3)[OF wf a(1)] wf_edge(3)[OF wf a(2)] by (auto simp: incident_def OtherNode_def edge_joins_def split: if_splits)
  then show ?thesis using wf a by (auto simp: pbqp_wf_def graph_ok_def incident_def)
qed

lemma node_budget:
  assumes wf: "pbqp_wf p" and w: "weighted p wo wn we" and n: "n < pb_node_count p"
  shows "wn n + sum_list (map (\<lambda>e. we e + wn (OtherNode (edge_at p e) n)) (incident_edges p n)) \<le> pb_node_capacity p + pb_edge_capacity p"
proof -
  let ?E = "set (incident_edges p n)" and ?o = "\<lambda>e. OtherNode (edge_at p e) n"
  have "sum_list (map (\<lambda>e. we e + wn (?o e)) (incident_edges p n)) = (\<Sum>e\<in>?E. we e + wn (?o e))"
    by (simp add: sum_list_distinct_conv_sum_set incident_edges_distinct)
  also have "\<dots> = (\<Sum>e\<in>?E. we e) + (\<Sum>m\<in>?o ` ?E. wn m)"
    using other_inj[OF wf] by (subst sum.reindex) (auto simp: inj_on_def sum.distrib)
  also have "(\<Sum>e\<in>?E. we e) \<le> (\<Sum>e<pb_edge_capacity p. we e)"
    by (intro sum_mono2) (auto simp: incident_edges_set)
  also have "(\<Sum>m\<in>?o ` ?E. wn m) \<le> (\<Sum>m\<in>{..<pb_node_count p} - {n}. wn m)"
    using rn_neighbor(1,2)[OF wf] by (intro sum_mono2) auto
  finally have "wn n + sum_list (map (\<lambda>e. we e + wn (?o e)) (incident_edges p n)) \<le>
      (\<Sum>e<pb_edge_capacity p. we e) + (wn n + (\<Sum>m\<in>{..<pb_node_count p} - {n}. wn m))" by simp
  also have "wn n + (\<Sum>m\<in>{..<pb_node_count p} - {n}. wn m) = (\<Sum>m<pb_node_count p. wn m)"
    using n by (simp add: sum.remove)
  finally show ?thesis using w by (simp add: weighted_def)
qed

section \<open>The jobs of an edge\<close>

definition unary_view :: "pbqp_problem \<Rightarrow> nat \<Rightarrow> nat \<Rightarrow> pbqp_vector_view" where
  "unary_view p n e = (let m = node_at p (OtherNode (edge_at p e) n) in whole_view (nd_unary m) (nd_domain m))"

definition edge_row :: "pbqp_problem \<Rightarrow> nat \<Rightarrow> nat \<Rightarrow> nat \<Rightarrow> pbqp_vector_view" where
  "edge_row p n e v = ConditionedEdgeView (edge_at p e) n v (nd_domain (node_at p (OtherNode (edge_at p e) n)))"

definition edge_projection :: "pbqp_problem \<Rightarrow> nat \<Rightarrow> nat \<Rightarrow> pbqp_project_add_job" where
  "edge_projection p n e = (ConditionedEdgeMatrix (edge_at p e) n (nd_domain (node_at p n))
     (nd_domain (node_at p (OtherNode (edge_at p e) n))), unary_view p n e)"

lemma row_view_edge:
  "row_view (ConditionedEdgeMatrix edge n d dn) v = ConditionedEdgeView edge n v dn"
  by (simp add: row_view_def ConditionedEdgeMatrix_def ConditionedEdgeView_def)

lemma edge_row_exact:
  assumes wf: "pbqp_wf p" and w: "weighted p wo wn we" and n: "n < pb_node_count p" and e: "e \<in> set (incident_edges p n)"
    and v: "v < nd_domain (node_at p n)"
  shows "exact2 (edge_row p n e v) (unary_view p n e)"
    and "within p (we e + wn (OtherNode (edge_at p e) n)) (fst (first_min (sum2 (edge_row p n e v) (unary_view p n e))))"
proof -
  let ?m = "OtherNode (edge_at p e) n" and ?edge = "edge_at p e"
  let ?d = "nd_domain (node_at p ?m)"
  note o = rn_neighbor[OF wf e]
  have ei: "e < pb_edge_capacity p" "incident ?edge n" using e by (auto simp: incident_edges_set)
  have d: "0 < ?d" using wf o(1) by (simp add: pbqp_wf_def graph_ok_def)
  have tw: "tables_within p wo wn we" using w by (simp add: weighted_def)
  have "we e + wn ?m \<le> sum_list (map (\<lambda>e. we e + wn (OtherNode (edge_at p e) n)) (incident_edges p n))"
    using e by (intro member_le_sum_list) auto
  then have fit: "we e + wn ?m \<le> pb_node_capacity p + pb_edge_capacity p" using node_budget[OF wf w n] by linarith
  have row: "view_at (edge_row p n e v) i = (if n = eg_first ?edge then edge_cost ?edge v i else edge_cost ?edge i v)" for i
    by (simp add: edge_row_def ConditionedEdgeView_def view_at_def edge_cost_def add.commute)
  have un: "view_at (unary_view p n e) i = nd_unary (node_at p ?m) ! i" for i
    by (simp add: unary_view_def Let_def view_at_def whole_view_def)
  have len: "kv_length (edge_row p n e v) = ?d" "kv_length (unary_view p n e) = ?d"
    by (simp_all add: edge_row_def unary_view_def Let_def ConditionedEdgeView_def whole_view_def)
  have wr: "within p (we e) (view_at (edge_row p n e v) i)" if "i < ?d" for i
    using tables_withinD(3)[OF tw ei(1)] ei(2) that v wf_edge(3)[OF wf ei(1)] by (auto simp: row incident_def OtherNode_def split: if_splits)
  have wu: "within p (wn ?m) (view_at (unary_view p n e) i)" if "i < ?d" for i
    using tables_withinD(2)[OF tw o(1,3) that] by (simp add: un)
  note add = add_exact[OF wr wu fit]
  have "valid_cost (view_at (edge_row p n e v) i) \<and> valid_cost (view_at (unary_view p n e) i)" if "i < ?d" for i
    using within_valid[OF wr[OF that]] within_valid[OF wu[OF that]] fit by simp
  then show "exact2 (edge_row p n e v) (unary_view p n e)" using d add(1) by (auto simp: exact2_def len)
  let ?s = "sum2 (edge_row p n e v) (unary_view p n e)"
  have ls: "length ?s = ?d" by (simp add: sum2_def len)
  then have "?s \<noteq> []" using d by (metis length_0_conv less_irrefl)
  from first_min_index(1,2)[OF this] have i: "snd (first_min ?s) < ?d" "?s ! snd (first_min ?s) = fst (first_min ?s)"
    unfolding ls by auto
  then show "within p (we e + wn ?m) (fst (first_min ?s))" using add(3)[OF i(1) i(1)] by (simp add: sum2_def len)
qed

lemma edge_projections_exact:
  assumes wf: "pbqp_wf p" and w: "weighted p wo wn we" and n: "n < pb_node_count p"
  shows "set es \<subseteq> set (incident_edges p n) \<Longrightarrow> length scores = nd_domain (node_at p n) \<Longrightarrow>
    (\<And>v. v < nd_domain (node_at p n) \<Longrightarrow> within p k (scores ! v)) \<Longrightarrow>
    k + sum_list (map (\<lambda>e. we e + wn (OtherNode (edge_at p e) n)) es) \<le> pb_node_capacity p + pb_edge_capacity p \<Longrightarrow>
    exact_projects (map (edge_projection p n) es) scores"
proof (induction es arbitrary: scores k)
  case (Cons e es)
  let ?d = "nd_domain (node_at p n)" and ?w = "we e + wn (OtherNode (edge_at p e) n)"
  have e: "e \<in> set (incident_edges p n)" using Cons.prems(1) by simp
  obtain m u where job: "edge_projection p n e = (m, u)" by fastforce
  have m: "m = ConditionedEdgeMatrix (edge_at p e) n ?d (nd_domain (node_at p (OtherNode (edge_at p e) n)))" and u: "u = unary_view p n e"
    using job by (auto simp: edge_projection_def)
  have row: "row_view m v = edge_row p n e v" for v unfolding m row_view_edge by (simp add: edge_row_def)
  have wr: "within p ?w (project_row m u v)" if "v < ?d" for v
    using edge_row_exact(2)[OF wf w n e that] by (simp add: project_row_def row u)
  have fit: "?w + k \<le> pb_node_capacity p + pb_edge_capacity p" using Cons.prems(4) by simp
  note add = add_exact[OF wr Cons.prems(3) fit]
  have rows: "km_rows m = ?d" "km_columns m = kv_length u"
    by (simp_all add: m u ConditionedEdgeMatrix_def unary_view_def Let_def whole_view_def)
  have "valid_cost (scores ! v)" if "v < ?d" for v using within_valid[OF Cons.prems(3)[OF that]] fit by simp
  then have "exact_project (m, u) scores"
    using edge_row_exact(1)[OF wf w n e] add(1) by (auto simp: exact_project_def rows row Cons.prems(2) u[symmetric])
  moreover have "exact_projects (map (edge_projection p n) es) (project_add (m, u) scores)"
  proof (rule Cons.IH)
    show "length (project_add (m, u) scores) = ?d" using Cons.prems(2) by (simp add: project_add_def)
    show "within p (?w + k) (project_add (m, u) scores ! v)" if "v < ?d" for v
      using add(3)[OF that that] that Cons.prems(2) by (simp add: project_add_def)
  qed (use Cons.prems in auto)
  ultimately show ?case using job by simp
qed simp

section \<open>The step succeeds\<close>

locale heuristic_kernel = total_kernel api for api :: "'k pbqp_cost_kernel" +
  assumes min2_value_total: "min2_value api = Some fv \<Longrightarrow> exact2 a b \<Longrightarrow> isl (fst (fv a b k s)) = False"
    and min2_value_batch_total: "min2_value_batch api = Some gv \<Longrightarrow> (\<And>a b. (a, b) \<in> set jobs2 \<Longrightarrow> exact2 a b) \<Longrightarrow>
      isl (fst (gv jobs2 k s)) = False"
    and project_add_total: "project_add_batch api = Some gp \<Longrightarrow> exact_projects jobsp scores \<Longrightarrow>
      isl (fst (gp jobsp scores k s)) = False"
begin

lemma Min2Value_total:
  assumes "exact2 a b"
  shows "\<exists>v ks'. Min2Value api (a, b) ks = (Inr v, ks')"
proof (cases "min2_value api")
  case None
  then show ?thesis using Min2_total[OF assms, of ks] by (auto simp: Min2Value_def)
next
  case (Some f)
  then show ?thesis using record_total[of "f a b" ks] min2_value_total[OF Some assms] by (simp add: Min2Value_def)
qed

lemma Min2ValueBatch_total:
  assumes "\<And>a b. (a, b) \<in> set jobs \<Longrightarrow> exact2 a b"
  shows "\<exists>vs ks'. Min2ValueBatch api jobs ks = (Inr vs, ks')"
proof (cases "min2_value_batch api")
  case None
  then show ?thesis using each_job_total[of jobs "Min2Value api" ks] Min2Value_total assms by (auto simp: Min2ValueBatch_def)
next
  case (Some g)
  have "\<not> isl (fst (g jobs (ks_context ks) (ks_statistics ks)))" using min2_value_batch_total[OF Some] assms by simp
  with record_total[of "g jobs" ks] Some show ?thesis by (simp add: Min2ValueBatch_def)
qed

lemma ProjectAddBatch_total:
  assumes "project_add_batch api \<noteq> None" and "exact_projects jobs scores"
  shows "\<exists>vs ks'. ProjectAddBatch api jobs scores ks = (Inr vs, ks')"
proof -
  obtain g where g: "project_add_batch api = Some g" using assms(1) by auto
  have "\<not> isl (fst (g jobs scores (ks_context ks) (ks_statistics ks)))" using project_add_total[OF g assms(2)] by simp
  with record_total[of "g jobs scores" ks] g show ?thesis by (simp add: ProjectAddBatch_def)
qed

end

definition edge_jobs :: "pbqp_problem \<Rightarrow> nat \<Rightarrow> nat \<Rightarrow> pbqp_min2_job list" where
  "edge_jobs p n e = map (\<lambda>v. (edge_row p n e v, unary_view p n e)) [0..<nd_domain (node_at p n)]"

lemma edge_jobs_exact:
  assumes "pbqp_wf p" and "weighted p wo wn we" and "n < pb_node_count p" and "e \<in> set (incident_edges p n)"
    and "(a, b) \<in> set (edge_jobs p n e)"
  shows "exact2 a b"
  using edge_row_exact(1)[OF assms(1-4)] assms(5) by (auto simp: edge_jobs_def)

context heuristic_kernel
begin

lemma rn_loop_total:
  assumes wf: "pbqp_wf p" and w: "weighted p wo wn we" and n: "n < pb_node_count p" and api: "sv_api sv = api"
  shows "(\<And>e. e \<in> set es \<Longrightarrow> e < pb_edge_capacity p) \<Longrightarrow> same_graph p (ss_problem st) \<Longrightarrow>
    \<exists>rj' st'. rn_edge_loop sv vp n es rj st = (PBQP_OK, rj', st') \<and> same_graph p (ss_problem st') \<and>
      (cf_rn_batching (sv_config sv) \<noteq> PBQP_RN_BATCH_PER_EDGE \<longrightarrow> rj_scores rj' = rj_scores rj \<and>
        (vp \<longrightarrow> rj_vector_jobs rj' = rj_vector_jobs rj @ map (edge_projection p n) (filter (\<lambda>e. incident (edge_at p e) n) es)) \<and>
        (\<not> vp \<longrightarrow> rj_jobs rj' = rj_jobs rj @ concat (map (edge_jobs p n) (filter (\<lambda>e. incident (edge_at p e) n) es))))"
proof (induction es arbitrary: rj st)
  case (Cons e es)
  obtain s where p: "ss_problem st = p\<lparr>pb_statistics := s\<rparr>" using Cons.prems(2) by (auto simp: same_graph_def)
  have g: "edge_at (ss_problem st) = edge_at p" "node_at (ss_problem st) = node_at p" unfolding p by simp_all
  note IH = Cons.IH[of "with_statistics f st'" for f st', OF Cons.prems(1)]
  show ?case
  proof (cases "incident (edge_at p e) n")
    case False
    then show ?thesis using Cons.IH[OF Cons.prems(1,2), of rj] by (simp add: g)
  next
    case True
    let ?m = "node_at p (OtherNode (edge_at p e) n)" and ?d = "nd_domain (node_at p n)"
    define st1 where "st1 = with_statistics (bump (Rd rn_projection_count) 1)
        (with_statistics (if vp then record_rn_vector (edge_at p e) n ?d (nd_domain ?m)
           else fold (record_rn_scalar (edge_at p e) n (nd_domain ?m)) [0..<?d]) st)"
    have g1: "same_graph p (ss_problem st1)"
      unfolding st1_def by (intro same_graph_trans[OF _ with_statistics_graph] Cons.prems(2))
    have uv: "whole_view (nd_unary ?m) (nd_domain ?m) = unary_view p n e" by (simp add: unary_view_def Let_def)
    have jobs: "map (\<lambda>v. (ConditionedEdgeView (edge_at p e) n v (nd_domain ?m), unary_view p n e)) [0..<?d] = edge_jobs p n e"
      by (simp add: edge_jobs_def edge_row_def)
    have pj: "(ConditionedEdgeMatrix (edge_at p e) n ?d (nd_domain ?m), unary_view p n e) = edge_projection p n e"
      by (simp add: edge_projection_def)
    have step: "rn_edge_loop sv vp n (e # es) rj st =
        (if cf_rn_batching (sv_config sv) = PBQP_RN_BATCH_PER_EDGE
         then (case on_kernel (Min2ValueBatch (sv_api sv) (edge_jobs p n e)) st1 of
                 (Inl _, st2) \<Rightarrow> (PBQP_KERNEL_ERROR, rj, st2)
               | (Inr results, st2) \<Rightarrow> rn_edge_loop sv vp n es (rj\<lparr>rj_scores := add_scores ?d results (rj_scores rj)\<rparr>)
                     (with_statistics (record_rn_accumulate ?d) st2))
         else rn_edge_loop sv vp n es (if vp then rj\<lparr>rj_vector_jobs := rj_vector_jobs rj @ [edge_projection p n e]\<rparr>
                   else rj\<lparr>rj_jobs := rj_jobs rj @ edge_jobs p n e\<rparr>) (with_statistics (record_rn_accumulate ?d) st1))"
      unfolding rn_edge_loop.simps Let_def g st1_def[symmetric] uv jobs pj using True by simp
    show ?thesis
    proof (cases "cf_rn_batching (sv_config sv) = PBQP_RN_BATCH_PER_EDGE")
      case False
      then show ?thesis
        using IH[OF _ same_graph_trans[OF g1 with_statistics_graph]] True unfolding step by (cases vp) (fastforce, fastforce)
    next
      case per_edge: True
      have e: "e \<in> set (incident_edges p n)" using Cons.prems(1) True by (simp add: incident_edges_set)
      obtain vs st2 where call: "on_kernel (Min2ValueBatch (sv_api sv) (edge_jobs p n e)) st1 = (Inr vs, st2)"
        using on_kernel_total[of "Min2ValueBatch api (edge_jobs p n e)" st1] Min2ValueBatch_total edge_jobs_exact[OF wf w n e] api by blast
      have "same_graph p (ss_problem (with_statistics (record_rn_accumulate ?d) st2))"
        by (intro same_graph_trans[OF _ with_statistics_graph] same_graph_trans[OF g1 on_kernel_graph[OF call]])
      then show ?thesis using IH per_edge call unfolding step by fastforce
    qed
  qed
qed simp

lemma rn_commit_total:
  assumes wf: "pbqp_wf p" and cb: "costs_bounded p" and n: "n < pb_node_count p" "nd_active (node_at p n)"
    and g: "same_graph p (ss_problem st)" and sp: "spare p"
  shows "\<exists>st'. rn_commit sv n earlier scores st = (PBQP_OK, st') \<and> spare (ss_problem st')"
proof -
  obtain s where p: "ss_problem st = p\<lparr>pb_statistics := s\<rparr>" using g by (auto simp: same_graph_def)
  obtain status st' where run: "rn_commit sv n earlier scores st = (status, st')" by fastforce
  have ok: "status = PBQP_OK" using rn_commit_step(1)[OF _ _ _ _ run] wf cb n by (simp add: p)
  then have "spare (ss_problem st')"
    using run sp by (auto simp: rn_commit_def Let_def p split: prod.splits if_splits dest!: condition_spare)
  then show ?thesis using run ok by simp
qed

lemma rn_submit_total:
  assumes wf: "pbqp_wf p" and w: "weighted p wo wn we" and n: "n < pb_node_count p" "nd_active (node_at p n)" and api: "sv_api sv = api"
    and vp: "vp \<Longrightarrow> project_add_batch api \<noteq> None \<and> cf_rn_batching (sv_config sv) = PBQP_RN_BATCH_PER_NODE"
    and scores: "rj_scores rj = copy_prefix (nd_domain (node_at p n)) (nd_unary (node_at p n)) (replicate (nd_domain (node_at p n)) 0)"
    and jobs: "vp \<Longrightarrow> rj_vector_jobs rj = map (edge_projection p n) (incident_edges p n)"
      "\<not> vp \<Longrightarrow> cf_rn_batching (sv_config sv) = PBQP_RN_BATCH_PER_NODE \<Longrightarrow> rj_jobs rj = concat (map (edge_jobs p n) (incident_edges p n))"
  shows "\<exists>r st'. rn_submit sv vp (length (incident_edges p n)) (nd_domain (node_at p n)) rj st = (Inr r, st')"
proof (cases vp)
  case True
  let ?d = "nd_domain (node_at p n)"
  have sh: "?d \<le> length (nd_unary (node_at p n))" using wf n by (auto simp: pbqp_wf_def shape_ok_def graph_ok_def)
  have "within p (wn n) (rj_scores rj ! v)" if "v < ?d" for v
    using tables_withinD(2)[of p wo wn we, OF _ n that] w sh that by (simp add: weighted_def scores copy_prefix_def nth_append)
  moreover have "length (rj_scores rj) = ?d" using sh by (simp add: scores copy_prefix_def)
  ultimately have "exact_projects (map (edge_projection p n) (incident_edges p n)) (rj_scores rj)"
    using edge_projections_exact[OF wf w n(1) subset_refl] node_budget[OF wf w n(1)] by blast
  then obtain r st' where "on_kernel (ProjectAddBatch api (rj_vector_jobs rj) (rj_scores rj)) st = (Inr r, st')"
    using on_kernel_total[of "ProjectAddBatch api (rj_vector_jobs rj) (rj_scores rj)" st] ProjectAddBatch_total vp[OF True] jobs(1)[OF True] by metis
  then show ?thesis using True jobs(1) api by (simp add: rn_submit_def)
next
  case False
  show ?thesis
  proof (cases "cf_rn_batching (sv_config sv) = PBQP_RN_BATCH_PER_NODE")
    case per_node: True
    note j = jobs(2)[OF False per_node]
    have "exact2 a b" if "(a, b) \<in> set (rj_jobs rj)" for a b
      using that edge_jobs_exact[OF wf w n(1)] by (auto simp: j)
    then obtain r st' where "on_kernel (Min2ValueBatch api (rj_jobs rj)) st = (Inr r, st')"
      using on_kernel_total[of "Min2ValueBatch api (rj_jobs rj)" st] Min2ValueBatch_total by blast
    moreover have "length (rj_jobs rj) = length (incident_edges p n) * nd_domain (node_at p n)"
      by (simp add: j length_concat comp_def edge_jobs_def sum_list_triv)
    ultimately show ?thesis using False per_node api by (simp add: rn_submit_def)
  qed (simp add: rn_submit_def False)
qed

lemma reduce_rn_total:
  assumes wf: "pbqp_wf (ss_problem st)" and cb: "costs_bounded (ss_problem st)"
    and n: "n < pb_node_count (ss_problem st)" "nd_active (node_at (ss_problem st) n)"
    and deg: "incident_edges (ss_problem st) n \<noteq> []" and api: "sv_api sv = api"
    and res: "granting sv" "pb_allocator (ss_problem st)" and sp: "spare (ss_problem st)"
  shows "\<exists>st'. ReduceRN sv n st = (PBQP_OK, st') \<and> spare (ss_problem st')"
proof -
  let ?p = "ss_problem st"
  let ?per_node = "cf_rn_batching (sv_config sv) = PBQP_RN_BATCH_PER_NODE"
  let ?vp = "?per_node \<and> project_add_batch (sv_api sv) \<noteq> None"
  let ?d = "nd_domain (node_at ?p n)" and ?deg = "length (incident_edges ?p n)"
  let ?jobs = "if ?per_node then ?deg * ?d else ?d"
  obtain wo wn we where w: "weighted ?p wo wn we" using cb by (auto simp: costs_bounded_def)
  have d: "0 < ?d" "?d \<le> pb_domain_capacity ?p" using wf n by (auto simp: pbqp_wf_def graph_ok_def)
  have "?d < 2 ^ 32"
  proof -
    have "pb_domain_capacity ?p \<le> pb_domain_capacity ?p * pb_domain_capacity ?p" by (cases "pb_domain_capacity ?p") auto
    then show ?thesis using d wf unfolding pbqp_wf_def shape_ok_def by linarith
  qed
  moreover have "?deg \<le> pb_edge_capacity ?p" using length_filter_le[of _ "[0..<pb_edge_capacity ?p]"] by (simp add: incident_edges_def)
  then have "?deg < 2 ^ 32" using wf by (simp add: pbqp_wf_def shape_ok_def)
  ultimately have "?deg * ?d \<le> (2 ^ 32 - 1) * (2 ^ 32 - 1)" by (intro mult_le_mono) auto
  then have fits: "\<not> ?deg > (2 ^ 64 - 1) div ?d" using d(1) by (simp add: not_less less_eq_div_iff_mult_less_eq)
  have counts: "c \<noteq> 0" if "c \<in> set (if ?vp then [?d, ?deg, ?deg * ?d] else [?d, ?jobs, ?jobs])" for c
    using that d(1) deg by (auto split: if_splits)
  obtain st1 where ws: "workspace sv (if ?vp then [?d, ?deg, ?deg * ?d] else [?d, ?jobs, ?jobs]) st = (True, st1)" "ss_problem st1 = ?p"
    using workspace_granted[OF res counts] by blast
  let ?rj = "\<lparr>rj_scores = copy_prefix ?d (nd_unary (node_at ?p n)) (replicate ?d 0), rj_jobs = [], rj_vector_jobs = []\<rparr>"
  have g1: "same_graph ?p (ss_problem (with_statistics (record_rn_node ?deg) st1))"
    using with_statistics_graph[of st1] ws(2) by simp
  obtain rj st2 where loop: "rn_edge_loop sv ?vp n [0..<pb_edge_capacity ?p] ?rj (with_statistics (record_rn_node ?deg) st1) = (PBQP_OK, rj, st2)"
    and g2: "same_graph ?p (ss_problem st2)"
    and rj: "cf_rn_batching (sv_config sv) \<noteq> PBQP_RN_BATCH_PER_EDGE \<longrightarrow> rj_scores rj = rj_scores ?rj \<and>
        (?vp \<longrightarrow> rj_vector_jobs rj = map (edge_projection ?p n) (incident_edges ?p n)) \<and>
        (\<not> ?vp \<longrightarrow> rj_jobs rj = concat (map (edge_jobs ?p n) (incident_edges ?p n)))"
    using rn_loop_total[OF wf w n(1) api _ g1, of "[0..<pb_edge_capacity ?p]" ?vp ?rj] by (auto simp: incident_edges_def)
  have "\<exists>r st3. rn_submit sv ?vp ?deg ?d rj st2 = (Inr r, st3)"
  proof (cases ?per_node)
    case True
    then show ?thesis using rn_submit_total[OF wf w n api, of ?vp rj st2] rj api by auto
  qed (auto simp: rn_submit_def)
  then obtain r st3 where sub: "rn_submit sv ?vp ?deg ?d rj st2 = (Inr r, st3)" by blast
  have g3: "same_graph ?p (ss_problem st3)" by (rule same_graph_trans[OF g2 rn_submit_graph[OF sub]])
  show ?thesis
    using rn_commit_total[OF wf cb n g3 sp, of sv "pb_statistics ?p" r] fits
    unfolding ReduceRN_def Let_def degree_of_eq ws prod.case loop sub by simp
qed

section \<open>The heuristic solve succeeds\<close>

lemma rn_episode_total:
  assumes at: "attains p0 (ss_problem st)" and none: "FindReducibleNode (ss_problem st) = None" and act: "ActiveNodeCount (ss_problem st) \<noteq> 0"
    and api: "sv_api sv = api" and res: "granting sv" "pb_allocator p0" and sp: "spare (ss_problem st)"
  shows "\<exists>rn' st'. rn_episode_step sv rn st = (PBQP_OK, rn', st') \<and> spare (ss_problem st')"
proof -
  let ?st = "set_problem (RecordIrreducibleCore (ss_problem (with_statistics (record_rn_cascade rn) st)))
    (with_statistics (record_rn_cascade rn) st)"
  obtain s where s: "ss_problem ?st = (ss_problem st)\<lparr>pb_statistics := s\<rparr>"
    by (simp add: RecordIrreducibleCore_def Let_def)
  have "ActiveNodeCount (ss_problem ?st) \<noteq> 0" using act unfolding s by simp
  then obtain n where n: "SelectRnNode (cf_rn_policy (sv_config sv)) (ss_problem ?st) = Some n"
    using select_none[of "cf_rn_policy (sv_config sv)" "ss_problem ?st"] by auto
  note nn = select_some[OF n, unfolded s, simplified]
  have inc: "incident_edges (ss_problem ?st) n = incident_edges (ss_problem st) n" unfolding s by (simp add: incident_edges_def)
  have "incident_edges (ss_problem st) n \<noteq> []"
    using none nn unfolding FindReducibleNode_def first_index_none by auto
  moreover have "pbqp_wf (ss_problem st)" "costs_bounded (ss_problem st)" "pb_allocator (ss_problem st)"
    using at res(2) by (auto simp: attains_def)
  ultimately obtain st' where "ReduceRN sv n (Emit sv PBQP_TRACE_RN_SELECT PBQP_TRACE_HEURISTIC (int n) (- 1) no_work ?st) = (PBQP_OK, st')"
    "spare (ss_problem st')"
    using reduce_rn_total[where st = "Emit sv PBQP_TRACE_RN_SELECT PBQP_TRACE_HEURISTIC (int n) (- 1) no_work ?st" and n = n and sv = sv,
        unfolded emit_problem inc] nn api res(1) sp unfolding s by auto
  then show ?thesis using n unfolding rn_episode_step_def Let_def by simp
qed

lemma solve_loop_rn_total:
  assumes "attains p0 (ss_problem st)" and "spare (ss_problem st)" and "ActiveNodeCount (ss_problem st) < fuel"
    and api: "sv_api sv = api" and res: "granting sv" "pb_allocator p0"
    and strat: "cf_strategy (sv_config sv) = PBQP_STRATEGY_HEURISTIC_RN"
  shows "\<exists>sol' st'. solve_loop fuel sv rn sol st = Some (Returned PBQP_OK sol', st')"
  using assms(1-3)
proof (induction fuel arbitrary: rn st)
  case (Suc fuel)
  have wf: "pbqp_wf (ss_problem st)" "costs_bounded (ss_problem st)" "pb_allocator (ss_problem st)" "counted (ss_problem st)"
    using Suc.prems(1) res(2) by (auto simp: attains_def counted_def pbqp_wf_def shape_ok_def)
  show ?case
  proof (cases "FindReducibleNode (ss_problem st)")
    case None
    show ?thesis
    proof (cases "ActiveNodeCount (ss_problem st) = 0")
      case False
      obtain rn' st1 where ep: "rn_episode_step sv rn st = (PBQP_OK, rn', st1)" "spare (ss_problem st1)"
        using rn_episode_total[OF Suc.prems(1) None False api res Suc.prems(2)] by blast
      have "attains p0 (ss_problem st1)" by (rule rn_episode_attained[OF Suc.prems(1) ep(1)])
      moreover have "ActiveNodeCount (ss_problem st1) < fuel" using rn_episode_retires[OF ep(1) wf(4)] Suc.prems(3) by simp
      ultimately show ?thesis using Suc.IH[of st1 rn'] ep None False strat by simp
    qed (simp add: None Let_def)
  next
    case (Some n)
    obtain st1 where r: "reduce_node sv n st = (PBQP_OK, st1)" "spare (ss_problem st1)"
      using reduce_node_total[OF wf(1,2) Some api res(1) wf(3) Suc.prems(2)] by blast
    let ?st = "with_statistics (record_after_rn rn (degree_of (ss_problem st) n)) st1"
    have "attains p0 (ss_problem ?st)" "ActiveNodeCount (ss_problem ?st) < fuel"
      using reduce_node_attains[OF Suc.prems(1) Some api r(1)] reduce_step_count[OF Some r(1) wf(4)] Suc.prems(3) by auto
    then show ?thesis using Suc.IH[of ?st rn] r Some by (simp add: Let_def)
  qed
qed simp

lemma strategy_rn_total:
  assumes wf: "pbqp_wf p" and fresh: "fresh_problem p" and len: "pb_node_count p \<le> length (snd sol)"
    and res: "spare p" "granting sv" and st: "ss_problem st = p" and api: "sv_api sv = api"
    and strat: "cf_strategy (sv_config sv) = PBQP_STRATEGY_HEURISTIC_RN"
  shows "\<exists>c x st'. solve_strategy sv sol st = Some (PBQP_OK, (c, x), st') \<and> achieves p c x"
proof -
  obtain st1 where g: "same_graph (ss_problem st) (ss_problem st1)" and eq: "solve_strategy sv sol st =
      after_loop sv (Suc (pb_node_count (ss_problem st))) sol
        (solve_loop (Suc (pb_node_count (ss_problem st))) sv None sol st1)"
    by (rule solve_strategy_form) (use strat in auto)
  have at: "attains p (ss_problem st1)" using fresh_reduces[OF wf fresh] g st by (auto simp: same_graph_def reduces_def)
  have al: "pb_allocator p" using fresh by (simp add: fresh_problem_def)
  have sp: "spare (ss_problem st1)" using g res(1) st by (auto simp: same_graph_def)
  have "pb_node_count (ss_problem st1) = pb_node_count p" using at by (simp add: attains_def)
  then have few: "ActiveNodeCount (ss_problem st1) < Suc (pb_node_count p)" using active_le[of "ss_problem st1"] by simp
  obtain sol' st' where "solve_loop (Suc (pb_node_count p)) sv None sol st1 = Some (Returned PBQP_OK sol', st')"
    using solve_loop_rn_total[OF at sp few api res(2) al strat] by blast
  then have run: "solve_strategy sv sol st = Some (PBQP_OK, sol', st')" unfolding eq st by (simp add: after_loop_def)
  show ?thesis using run strategy_heuristic[OF wf fresh len st api strat run] by (cases sol') auto
qed

lemma rn_local_total:
  assumes wf: "pbqp_wf p" and fresh: "fresh_problem p" and len: "pb_node_count p \<le> length (snd sol)"
    and res: "spare p" "storable p" "granting sv" "0 < pb_node_count p" and st: "ss_problem st = p" and api: "sv_api sv = api"
  shows "\<exists>sol' st'. solve_rn_local sv sol st = Some (PBQP_OK, sol', st')"
proof -
  have al: "pb_allocator p" using fresh by (simp add: fresh_problem_def)
  obtain original st1 where cl: "clone_state sv st = (PBQP_OK, original, st1)"
    using clone_granted[OF res(3), of st] res(2,4) st wf by auto
  have orig: "same_graph p original" and p1: "ss_problem st1 = p"
    using clone_graph[of st sv original st1] cl wf al st by (auto simp: pbqp_wf_def)
  obtain st2 where ws: "workspace sv [pb_node_count p] st1 = (True, st2)" "ss_problem st2 = p"
    using workspace_granted[OF res(3), of st1 "[pb_node_count p]"] p1 al res(4) by auto
  have rnlen: "pb_node_count p \<le> length (snd (ACCEL_INF, replicate (pb_node_count p) (0::nat)))" by simp
  obtain c y st3 where rn: "solve_strategy (with_strategy PBQP_STRATEGY_HEURISTIC_RN sv) (ACCEL_INF, replicate (pb_node_count p) 0) st2 =
      Some (PBQP_OK, (c, y), st3)" and a: "achieves p c y"
    using strategy_rn_total[OF wf fresh rnlen res(1) _ ws(2), of "with_strategy PBQP_STRATEGY_HEURISTIC_RN sv"] api res(3)
    by (auto simp: with_strategy_def granting_def)
  let ?q = "original\<lparr>pb_statistics := copy_statistics (pb_statistics original) (pb_statistics (ss_problem st3))
      (pb_node_capacity (ss_problem st3)) (pb_domain_capacity (ss_problem st3))\<rparr>"
  have g: "same_graph p (ss_problem (set_problem ?q st3))" using orig by (auto simp: same_graph_def)
  have y: "valid_assignment p y" using a by (simp add: achieves_def)
  obtain z sol' st4 where "RunLocalDescent sv y sol (set_problem ?q st3) = Some (PBQP_OK, z, sol', st4)"
    using local_descent_returns[OF wf fresh api y g len] kernel_steady[OF wf fresh api] res(3) by blast
  then show ?thesis using cl ws st rn by (simp add: solve_rn_local_def Let_def)
qed

end

interpretation swh: heuristic_kernel "pbqp_make_software_kernel :: 'k pbqp_cost_kernel"
  by unfold_locales (auto simp: software_fields software_call_def software_success)

section \<open>Correctness of the heuristic strategies\<close>

text \<open>
  C6: the heuristic strategy, the default of the graph runner. With a free edge slot, granted
  allocations and the software kernel, whatever the selection policy and the batching of RN, the solve
  returns \<open>PBQP_OK\<close> with a valid assignment, and the reported optimum is its exact evaluation.
\<close>

theorem heuristic_solve_exact_cost:
  assumes "pbqp_wf p" and "fresh_problem p" and "spare p" and "solution_fits p sol"
    and "so_kernel handle = pbqp_make_software_kernel" and "\<And>n. grants n"
    and "cf_strategy (so_config handle) = PBQP_STRATEGY_HEURISTIC_RN"
  shows "\<exists>r sol' x. pbqp_solver_solve grants k (Some handle) (Some p) (Some sol) = Some r \<and> sr_status r = PBQP_OK \<and>
    sr_solution r = Some sol' \<and> so_assignment sol' = Some x \<and> valid_assignment p x \<and> so_optimum sol' = pbqp_evaluate p x"
proof -
  let ?sv = "handle_solver handle grants"
  obtain y where y: "so_assignment sol = Some y" "pb_node_count p \<le> so_assignment_capacity sol" "pb_node_count p \<le> length y"
    using assms(4) by (auto simp: solution_fits_def)
  have len: "pb_node_count p \<le> length (snd (so_optimum sol, y))" using y(3) by simp
  obtain c x st' where run: "solve_strategy ?sv (so_optimum sol, y) (start_state k p) = Some (PBQP_OK, (c, x), st')" and a: "achieves p c x"
    using swh.strategy_rn_total[OF assms(1,2) len assms(3), of ?sv "start_state k p"] assms(5-7)
    by (auto simp: handle_solver_def granting_def start_state_def)
  have "valid_assignment p x" "c = pbqp_evaluate p x" using achieves_evaluate[OF assms(1,2) a] by auto
  moreover have "cf_strategy (so_config handle) \<noteq> PBQP_STRATEGY_HEURISTIC_RN_LOCAL_SEARCH" using assms(7) by simp
  ultimately show ?thesis using solver_solve_form[OF y(1,2), of handle grants k] run by simp
qed

theorem heuristic_solve_exact_cost_witness:
  "\<exists>r sol' x. pbqp_solver_solve (\<lambda>_. True) () (Some (example_handle PBQP_STRATEGY_HEURISTIC_RN))
       (Some example_problem) (Some example_solution) = Some r \<and> sr_status r = PBQP_OK \<and>
     sr_solution r = Some sol' \<and> so_assignment sol' = Some x \<and> so_optimum sol' = pbqp_evaluate example_problem x"
  using heuristic_solve_exact_cost[OF example_ok(1-3,5), of "example_handle PBQP_STRATEGY_HEURISTIC_RN" "\<lambda>_. True" "()"]
  by (fastforce simp: example_handle_def)

text \<open>
  C7: the combined strategy. With the software kernel, granted allocations and a free edge slot, on a
  graph with a node, it returns \<open>PBQP_OK\<close> with a valid assignment and its exact cost; the
  assignment is a local optimum and costs no more than the assignment its own RN phase found on the
  same graph, which is the final assertion of \<open>Solver::Solve\<close>.
\<close>

theorem combined_improves_rn:
  assumes "pbqp_wf p" and "fresh_problem p" and "spare p" and "storable p" and "0 < pb_node_count p" and "solution_fits p sol"
    and "so_kernel handle = pbqp_make_software_kernel" and "\<And>n. grants n"
    and "cf_strategy (so_config handle) = PBQP_STRATEGY_HEURISTIC_RN_LOCAL_SEARCH"
  shows "\<exists>r sol' x st2 y c st3. pbqp_solver_solve grants k (Some handle) (Some p) (Some sol) = Some r \<and> sr_status r = PBQP_OK \<and>
    sr_solution r = Some sol' \<and> so_assignment sol' = Some x \<and> valid_assignment p x \<and> so_optimum sol' = pbqp_evaluate p x \<and>
    (\<forall>n < pb_node_count p. \<forall>v < nd_domain (node_at p n). so_optimum sol' \<le> pbqp_evaluate p (x[n := v])) \<and>
    ss_problem st2 = p \<and> solve_strategy (with_strategy PBQP_STRATEGY_HEURISTIC_RN (handle_solver handle grants))
      (ACCEL_INF, replicate (pb_node_count p) 0) st2 = Some (PBQP_OK, (c, y), st3) \<and>
    c = pbqp_evaluate p y \<and> so_optimum sol' \<le> c"
proof -
  let ?sv = "handle_solver handle grants"
  obtain z where z: "so_assignment sol = Some z" "pb_node_count p \<le> so_assignment_capacity sol" "pb_node_count p \<le> length z"
    using assms(6) by (auto simp: solution_fits_def)
  have len: "pb_node_count p \<le> length (snd (so_optimum sol, z))" using z(3) by simp
  have st: "ss_problem (start_state k p) = p" by (simp add: start_state_def)
  have api: "sv_api ?sv = pbqp_make_software_kernel" "granting ?sv" using assms(7,8) by (simp_all add: handle_solver_def granting_def)
  obtain o' x st' where run: "solve_rn_local ?sv (so_optimum sol, z) (start_state k p) = Some (PBQP_OK, (o', x), st')"
    using swh.rn_local_total[OF assms(1,2) len assms(3,4) api(2) assms(5) st api(1)] by auto
  from sw.rn_local_returns(2)[OF assms(1,2) len st api(1) run] obtain st2 c y st3 where p2: "ss_problem st2 = p"
    and rn: "solve_strategy (with_strategy PBQP_STRATEGY_HEURISTIC_RN ?sv) (ACCEL_INF, replicate (pb_node_count p) 0) st2 = Some (PBQP_OK, (c, y), st3)"
    and a: "achieves p c y" and f: "found p (cost_abs c) (o', x)" by blast
  have cy: "c = pbqp_evaluate p y" "c \<le> ACCEL_INF" using achieves_evaluate[OF assms(1,2) a] a by (auto simp: achieves_def)
  have ax: "achieves p o' x" "local_optimum p x" "total_cost p x \<le> cost_abs c" using f by (simp_all add: found_def)
  have x: "valid_assignment p x" "o' = pbqp_evaluate p x" using achieves_evaluate[OF assms(1,2) ax(1)] by auto
  have "o' \<le> c" using ax cy(2) cost_abs_le_iff[of o' c] by (simp add: achieves_def)
  moreover have "o' \<le> pbqp_evaluate p (x[n := v])" if "n < pb_node_count p" "v < nd_domain (node_at p n)" for n v
  proof -
    have v: "valid_assignment p (x[n := v])" using that x(1) by (auto simp: valid_assignment_def nth_list_update)
    show ?thesis using evaluate_exact[OF assms(1,2) v] ax that cost_abs_le_iff[of o' "pbqp_evaluate p (x[n := v])"]
      by (simp add: achieves_def local_optimum_def)
  qed
  moreover have "\<exists>r. pbqp_solver_solve grants k (Some handle) (Some p) (Some sol) = Some r \<and> sr_status r = PBQP_OK \<and>
      sr_solution r = Some (sol\<lparr>so_optimum := o', so_assignment := Some x\<rparr>)"
    using run z assms(9) by (simp add: pbqp_solver_solve_def Solve_def handle_solver_def start_state_def)
  ultimately show ?thesis using x p2 rn cy(1) by fastforce
qed

theorem combined_improves_rn_witness:
  "\<exists>r sol'. pbqp_solver_solve (\<lambda>_. True) () (Some (example_handle PBQP_STRATEGY_HEURISTIC_RN_LOCAL_SEARCH))
       (Some example_problem) (Some example_solution) = Some r \<and> sr_status r = PBQP_OK \<and> sr_solution r = Some sol'"
proof -
  have "0 < pb_node_count example_problem" by code_simp
  with combined_improves_rn[OF example_ok(1-4) _ example_ok(5), of "example_handle PBQP_STRATEGY_HEURISTIC_RN_LOCAL_SEARCH" "\<lambda>_. True" "()"]
  show ?thesis by (fastforce simp: example_handle_def)
qed

end
