(* ===== verification/Bellman_Ford.thy ===== *)
theory Bellman_Ford
  imports Cost_Math
begin

text \<open>
  The generality probe of \<open>probes/src/bellman_ford.cpp\<close>: single-source shortest paths, once with
  saturating 32-bit costs in the shape of the accelerator's reductions and once exactly in 64 bits.
  Vertices and weights are \<open>int\<close>, edge positions are naturals.

  The locale \<open>relaxation\<close> holds the argument both passes share: repeated sweeps that lower every
  vertex to the cost of its incoming edges find the cheapest walks. It is interpreted in \<open>Bellman_Ford_Correct\<close> on the saturating
  addition and on the exact one.
\<close>

section \<open>The program\<close>

record bf_edge =
  ed_from :: int
  ed_to :: int
  ed_weight :: int

record shortest_path_result =
  sp_distance :: "int list"
  sp_predecessor :: "int list"
  sp_has_negative_cycle :: bool
  sp_distance_saturated :: bool

definition reference_cost_add :: "int \<Rightarrow> int \<Rightarrow> int" where
  "reference_cost_add first second =
     (if first = ACCEL_INF \<or> second = ACCEL_INF then ACCEL_INF
      else let sum = first + second
        in if sum \<ge> ACCEL_INF then ACCEL_INF else if sum < INT32_MIN then INT32_MIN else sum)"

text \<open>\<open>MinArgmin\<close> is the pair of the value and the index, \<open>-1\<close> before the first element.\<close>

definition AddReduceMinArgmin :: "int list \<Rightarrow> int list \<Rightarrow> int \<times> int" where
  "AddReduceMinArgmin a b =
     fold (\<lambda>i result. let v = reference_cost_add (a ! i) (b ! i)
         in if snd result < 0 \<or> v < fst result then (v, int i) else result)
       [0..<length a] (ACCEL_INF, - 1)"

text \<open>The edges grouped by destination, in the order of the input.\<close>

definition incoming :: "nat \<Rightarrow> bf_edge list \<Rightarrow> nat list list" where
  "incoming n edges =
     fold (\<lambda>index groups. let v = nat (ed_to (edges ! index)) in groups[v := groups ! v @ [index]])
       [0..<length edges] (replicate n [])"

definition relax_vertex ::
  "bf_edge list \<Rightarrow> nat list list \<Rightarrow> nat \<Rightarrow> bool \<times> int list \<times> int list \<Rightarrow> bool \<times> int list \<times> int list" where
  "relax_vertex edges groups v state =
     (case state of (changed, distance, predecessor) \<Rightarrow>
        let in_edges = groups ! v
        in if in_edges = [] then state
           else let predecessor_distance = map (\<lambda>i. distance ! nat (ed_from (edges ! i))) in_edges;
                    edge_weight = map (\<lambda>i. ed_weight (edges ! i)) in_edges;
                    relaxed = AddReduceMinArgmin predecessor_distance edge_weight
             in if fst relaxed < distance ! v
                then (True, distance[v := fst relaxed],
                      predecessor[v := ed_from (edges ! (in_edges ! nat (snd relaxed)))])
                else state)"

definition relax_round :: "bf_edge list \<Rightarrow> nat list list \<Rightarrow> int list \<times> int list \<Rightarrow> bool \<times> int list \<times> int list" where
  "relax_round edges groups state = fold (relax_vertex edges groups) [0..<length groups] (False, state)"

primrec relax_rounds :: "nat \<Rightarrow> bf_edge list \<Rightarrow> nat list list \<Rightarrow> int list \<times> int list \<Rightarrow> int list \<times> int list" where
  "relax_rounds 0 edges groups state = state"
| "relax_rounds (Suc k) edges groups state =
     (case relax_round edges groups state of
        (changed, state') \<Rightarrow> if \<not> changed then state' else relax_rounds k edges groups state')"

text \<open>
  The exact pass adds in \<open>int64_t\<close>: \<open>int64\<close> cuts a sum off at 64 bits in two's complement. A sum that it
  changes is undefined behaviour in the source; \<open>exact_no_overflow\<close> and the bound in
  \<open>bellman_ford_flags\<close> say when there is none. The sentinel \<open>kUnreached\<close> is the entry \<open>None\<close>: an
  entry is only ever replaced by a smaller sum, so no stored sum equals it.
\<close>

definition kUnreached :: int where
  "kUnreached = 9223372036854775807"

definition int64 :: "int \<Rightarrow> int" where
  "int64 x = sint (word_of_int x :: 64 word)"

definition relax_edge :: "bf_edge \<Rightarrow> bool \<times> int option list \<Rightarrow> bool \<times> int option list" where
  "relax_edge edge state =
     (case state of (relaxed, exact) \<Rightarrow>
        case exact ! nat (ed_from edge) of
          None \<Rightarrow> state
        | Some from \<Rightarrow>
            if ed_weight edge = ACCEL_INF then state
            else let candidate = int64 (from + ed_weight edge)
              in if candidate < (case exact ! nat (ed_to edge) of None \<Rightarrow> kUnreached | Some x \<Rightarrow> x)
                 then (True, exact[nat (ed_to edge) := Some candidate]) else state)"

definition relax_exact :: "bf_edge list \<Rightarrow> int option list \<Rightarrow> bool \<times> int option list" where
  "relax_exact edges exact = fold relax_edge edges (False, exact)"

primrec exact_rounds :: "nat \<Rightarrow> bf_edge list \<Rightarrow> int option list \<Rightarrow> int option list" where
  "exact_rounds 0 edges exact = exact"
| "exact_rounds (Suc k) edges exact =
     (case relax_exact edges exact of
        (relaxed, exact') \<Rightarrow> if \<not> relaxed then exact' else exact_rounds k edges exact')"

definition unreached_result :: "int \<Rightarrow> shortest_path_result" where
  "unreached_result vertex_count =
     \<lparr>sp_distance = replicate (nat vertex_count) ACCEL_INF, sp_predecessor = replicate (nat vertex_count) (- 1),
      sp_has_negative_cycle = False, sp_distance_saturated = False\<rparr>"

definition valid_edge :: "int \<Rightarrow> bf_edge \<Rightarrow> bool" where
  "valid_edge vertex_count edge \<longleftrightarrow>
     0 \<le> ed_from edge \<and> ed_from edge < vertex_count \<and> 0 \<le> ed_to edge \<and> ed_to edge < vertex_count"

definition BellmanFord :: "int \<Rightarrow> bf_edge list \<Rightarrow> int \<Rightarrow> shortest_path_result" where
  "BellmanFord vertex_count edges source =
     (if vertex_count \<le> 0 \<or> source < 0 \<or> source \<ge> vertex_count \<or> \<not> list_all (valid_edge vertex_count) edges
      then unreached_result vertex_count
      else let n = nat vertex_count; r = unreached_result vertex_count; s = nat source;
               (distance, predecessor) =
                 relax_rounds (n - 1) edges (incoming n edges) ((sp_distance r)[s := 0], sp_predecessor r);
               (has_negative_cycle, exact) =
                 relax_exact edges (exact_rounds (n - 1) edges ((replicate n None)[s := Some 0]))
        in \<lparr>sp_distance = distance, sp_predecessor = predecessor, sp_has_negative_cycle = has_negative_cycle,
            sp_distance_saturated = \<not> has_negative_cycle \<and>
              list_ex (\<lambda>v. case v of None \<Rightarrow> False | Some x \<Rightarrow> x < INT32_MIN) exact\<rparr>)"

section \<open>Walks\<close>

fun walk :: "bf_edge list \<Rightarrow> int \<Rightarrow> bf_edge list \<Rightarrow> int \<Rightarrow> bool" where
  "walk E u [] v \<longleftrightarrow> u = v"
| "walk E u (e # p) v \<longleftrightarrow> e \<in> set E \<and> ed_from e = u \<and> walk E (ed_to e) p v"

lemma walk_append: "walk E u (p @ q) v \<longleftrightarrow> (\<exists>x. walk E u p x \<and> walk E x q v)"
  by (induction p arbitrary: u) auto

definition usable_edges :: "bf_edge list \<Rightarrow> bf_edge list" where
  "usable_edges = filter (\<lambda>e. ed_weight e \<noteq> ACCEL_INF)"

definition weight :: "bf_edge list \<Rightarrow> int" where
  "weight p = sum_list (map ed_weight p)"

text \<open>The vertices a walk leaves, in order, with the one it ends in.\<close>

definition stops :: "int \<Rightarrow> bf_edge list \<Rightarrow> int list" where
  "stops u p = u # map ed_to p"

lemma walk_visit:
  assumes "walk E u p v" and "x \<in> set (stops u p)"
  shows "\<exists>a b. p = a @ b \<and> walk E u a x \<and> walk E x b v"
  using assms
proof (induction p arbitrary: u)
  case Nil
  then show ?case by (simp add: stops_def)
next
  case (Cons e p)
  show ?case
  proof (cases "x = u")
    case True
    then show ?thesis using Cons.prems(1) by (intro exI[of _ "[]"] exI[of _ "e # p"]) simp
  next
    case False
    then have "x \<in> set (stops (ed_to e) p)" using Cons.prems(2) by (simp add: stops_def)
    moreover have "walk E (ed_to e) p v" using Cons.prems(1) by simp
    ultimately obtain a b where "p = a @ b" "walk E (ed_to e) a x" "walk E x b v" using Cons.IH by blast
    then show ?thesis using Cons.prems(1) by (intro exI[of _ "e # a"] exI[of _ b]) simp
  qed
qed

text \<open>A walk that visits a vertex twice contains a cycle.\<close>

lemma walk_split:
  assumes "walk E u p v" and "\<not> distinct (stops u p)"
  shows "\<exists>a c b x. p = a @ c @ b \<and> c \<noteq> [] \<and> walk E u a x \<and> walk E x c x \<and> walk E x b v"
  using assms
proof (induction p arbitrary: u)
  case Nil
  then show ?case by (simp add: stops_def)
next
  case (Cons e p)
  have p: "e \<in> set E" "ed_from e = u" "walk E (ed_to e) p v" using Cons.prems(1) by auto
  show ?case
  proof (cases "distinct (stops (ed_to e) p)")
    case True
    then have "u \<in> set (stops (ed_to e) p)" using Cons.prems(2) by (simp add: stops_def)
    from walk_visit[OF p(3) this] obtain a b where "p = a @ b" "walk E (ed_to e) a u" "walk E u b v" by blast
    then show ?thesis using p by (intro exI[of _ "[]"] exI[of _ "e # a"] exI[of _ b] exI[of _ u]) simp
  next
    case False
    from Cons.IH[OF p(3) this] obtain a c b x
      where "p = a @ c @ b" "c \<noteq> []" "walk E (ed_to e) a x" "walk E x c x" "walk E x b v" by blast
    then show ?thesis using p by (intro exI[of _ "e # a"] exI[of _ c] exI[of _ b] exI[of _ x]) simp
  qed
qed

lemma walk_stops: "walk E u p v \<Longrightarrow> \<forall>e \<in> set E. valid_edge n e \<Longrightarrow> 0 \<le> u \<Longrightarrow> u < n \<Longrightarrow> set (stops u p) \<subseteq> {0..<n}"
  by (induction p arbitrary: u) (auto simp: stops_def valid_edge_def)

lemma distinct_walk_length:
  assumes "walk E u p v" and "\<forall>e \<in> set E. valid_edge n e" and "0 \<le> u" and "u < n" and "distinct (stops u p)"
  shows "length p \<le> nat n - 1"
proof -
  have "card (set (stops u p)) \<le> card {0..<n}" using walk_stops[OF assms(1-4)] by (intro card_mono) auto
  moreover have "card (set (stops u p)) = length p + 1" using distinct_card[OF assms(5)] by (simp add: stops_def)
  ultimately show ?thesis by simp
qed

section \<open>Relaxation\<close>

text \<open>
  \<open>le\<close> orders the costs, \<open>far\<close> is the cost of an unreached vertex, and \<open>step a e\<close> is the cost of a walk
  of cost \<open>a\<close> extended by the edge \<open>e\<close>.
\<close>

locale relaxation =
  fixes le :: "'d \<Rightarrow> 'd \<Rightarrow> bool" and far :: 'd and start :: 'd and step :: "'d \<Rightarrow> bf_edge \<Rightarrow> 'd"
  assumes le_refl: "le a a" and le_trans: "le a b \<Longrightarrow> le b c \<Longrightarrow> le a c" and le_far: "le a far"
    and step_mono: "le a b \<Longrightarrow> le (step a e) (step b e)" and step_far: "step far e = far"
begin

definition lowers :: "bf_edge list \<Rightarrow> (int \<Rightarrow> 'd) \<Rightarrow> (int \<Rightarrow> 'd) \<Rightarrow> bool" where
  "lowers E d d' \<longleftrightarrow> (\<forall>v. le (d' v) (d v)) \<and> (\<forall>e \<in> set E. le (d' (ed_to e)) (step (d (ed_from e)) e))"

definition attained :: "bf_edge list \<Rightarrow> int \<Rightarrow> (int \<Rightarrow> 'd) \<Rightarrow> bool" where
  "attained E s d \<longleftrightarrow> (\<forall>v. d v = far \<or> (\<exists>p. walk E s p v \<and> foldl step start p = d v))"

definition bounded_walks :: "bf_edge list \<Rightarrow> int \<Rightarrow> nat \<Rightarrow> (int \<Rightarrow> 'd) \<Rightarrow> bool" where
  "bounded_walks E s k d \<longleftrightarrow> (\<forall>p v. walk E s p v \<longrightarrow> length p \<le> k \<longrightarrow> le (d v) (foldl step start p))"

definition harmless :: "bf_edge list \<Rightarrow> int \<Rightarrow> bool" where
  "harmless E s \<longleftrightarrow> (\<forall>x q c. walk E s q x \<longrightarrow> walk E x c x \<longrightarrow> le (foldl step start q) (foldl step start (q @ c)))"

lemma foldl_mono: "le a b \<Longrightarrow> le (foldl step a p) (foldl step b p)"
  by (induction p arbitrary: a b) (simp_all add: step_mono)

lemma attained_step:
  assumes "attained E s d" and "e \<in> set E"
  shows "attained E s (d(ed_to e := step (d (ed_from e)) e))"
proof -
  have "step (d (ed_from e)) e = far \<or> (\<exists>p. walk E s p (ed_to e) \<and> foldl step start p = step (d (ed_from e)) e)"
  proof (cases "d (ed_from e) = far")
    case True
    then show ?thesis by (simp add: step_far)
  next
    case False
    then obtain p where "walk E s p (ed_from e)" "foldl step start p = d (ed_from e)" using assms(1) by (auto simp: attained_def)
    then show ?thesis using assms(2) by (intro disjI2 exI[of _ "p @ [e]"]) (simp add: walk_append)
  qed
  with assms(1) show ?thesis by (simp add: attained_def)
qed

lemma bounded_start: "le (d s) start \<Longrightarrow> bounded_walks E s 0 d"
  by (simp add: bounded_walks_def)

lemma lowers_bounded:
  assumes "bounded_walks E s k d" and "lowers E d d'"
  shows "bounded_walks E s (Suc k) d'"
  unfolding bounded_walks_def
proof (intro allI impI)
  fix p v
  assume w: "walk E s p v" and len: "length p \<le> Suc k"
  show "le (d' v) (foldl step start p)"
  proof (cases p rule: rev_cases)
    case Nil
    then have "le (d v) (foldl step start p)" using assms(1)[unfolded bounded_walks_def, rule_format, OF w] by simp
    then show ?thesis using assms(2) le_trans unfolding lowers_def by blast
  next
    case (snoc q e)
    then have q: "walk E s q (ed_from e)" "e \<in> set E" "v = ed_to e" using w by (auto simp: walk_append)
    then have "le (d (ed_from e)) (foldl step start q)" using assms(1) len snoc by (simp add: bounded_walks_def)
    then have "le (step (d (ed_from e)) e) (foldl step start p)" using snoc by (simp add: step_mono)
    then show ?thesis using assms(2) q le_trans unfolding lowers_def by blast
  qed
qed

lemma fixpoint_bounded:
  assumes "lowers E d d" and "le (d s) start" and "walk E s p v"
  shows "le (d v) (foldl step start p)"
proof -
  have "bounded_walks E s k d" for k
    by (induction k) (use assms in \<open>auto intro: bounded_start lowers_bounded\<close>)
  then show ?thesis using assms(3) unfolding bounded_walks_def by blast
qed

lemma fixpoint_path:
  assumes "lowers E d d" and "walk E u p v"
  shows "le (d v) (foldl step (d u) p)"
  using assms(2)
proof (induction p arbitrary: u)
  case Nil
  then show ?case by (simp add: le_refl)
next
  case (Cons e p)
  have "le (d (ed_to e)) (step (d u) e)" using assms(1) Cons.prems by (auto simp: lowers_def)
  then show ?case using Cons foldl_mono le_trans by fastforce
qed

text \<open>When no cycle makes a walk cheaper, walks without repeated vertices are enough.\<close>

lemma simple_walk:
  assumes "harmless E s" and "walk E s p v"
  shows "\<exists>q. walk E s q v \<and> distinct (stops s q) \<and> le (foldl step start q) (foldl step start p)"
  using assms(2)
proof (induction p rule: length_induct)
  case (1 p)
  show ?case
  proof (cases "distinct (stops s p)")
    case True
    then show ?thesis using 1(2) le_refl by blast
  next
    case False
    from walk_split[OF 1(2) this] obtain a c b x
      where s: "p = a @ c @ b" "c \<noteq> []" "walk E s a x" "walk E x c x" "walk E x b v" by blast
    then have "walk E s (a @ b) v" by (auto simp: walk_append)
    moreover have "length (a @ b) < length p" using s by simp
    ultimately obtain q where q: "walk E s q v" "distinct (stops s q)" "le (foldl step start q) (foldl step start (a @ b))"
      using 1(1) by blast
    have "le (foldl step start (a @ b)) (foldl step start p)"
      using assms(1)[unfolded harmless_def, rule_format, OF s(3,4)] s(1) by (simp add: foldl_mono)
    then show ?thesis using q le_trans by blast
  qed
qed

text \<open>The state of a pass after \<open>k\<close> rounds, or earlier when a round changed nothing.\<close>

definition settled :: "bf_edge list \<Rightarrow> int \<Rightarrow> nat \<Rightarrow> (int \<Rightarrow> 'd) \<Rightarrow> bool" where
  "settled E s k d \<longleftrightarrow> attained E s d \<and> le (d s) start \<and> (bounded_walks E s k d \<or> lowers E d d)"

lemma settled_start:
  assumes "\<And>v. d v = (if v = s then start else far)"
  shows "settled E s 0 d"
proof -
  have "attained E s d"
    unfolding attained_def by (intro allI) (simp add: assms, intro impI disjI2 exI[of _ "[]"], simp)
  then show ?thesis using bounded_start[of d s E] by (simp add: settled_def assms le_refl)
qed

lemma settled_round:
  assumes "settled E s k d" and "lowers E d d'" and "attained E s d'"
  shows "settled E s (Suc k) d'"
proof -
  have "bounded_walks E s k d" using assms(1) fixpoint_bounded[of E d s] unfolding settled_def bounded_walks_def by blast
  then have "bounded_walks E s (Suc k) d'" using assms(2) by (rule lowers_bounded)
  moreover have "le (d' s) start" using assms(1,2) le_trans unfolding settled_def lowers_def by blast
  ultimately show ?thesis using assms(3) by (simp add: settled_def)
qed

lemma settled_fixpoint: "settled E s k d \<Longrightarrow> lowers E d d \<Longrightarrow> settled E s j d"
  by (simp add: settled_def)

lemma sweeps_bounded:
  assumes "settled E s (nat n - 1) d" and "harmless E s"
    and "\<forall>e \<in> set E. valid_edge n e" and "0 \<le> s" and "s < n" and "walk E s p v"
  shows "le (d v) (foldl step start p)"
proof -
  obtain q where q: "walk E s q v" "distinct (stops s q)" "le (foldl step start q) (foldl step start p)"
    using simple_walk[OF assms(2,6)] by blast
  have "length q \<le> nat n - 1" by (rule distinct_walk_length[OF q(1) assms(3-5) q(2)])
  moreover have "bounded_walks E s (nat n - 1) d"
    using assms(1) fixpoint_bounded[of E d s] unfolding settled_def bounded_walks_def by blast
  ultimately show ?thesis using q le_trans unfolding bounded_walks_def by blast
qed

text \<open>Then the result is a fixpoint.\<close>

lemma sweeps_fixpoint:
  assumes "settled E s (nat n - 1) d" and "harmless E s" and "\<forall>e \<in> set E. valid_edge n e" and "0 \<le> s" and "s < n"
  shows "lowers E d d"
  unfolding lowers_def
proof (intro conjI allI ballI le_refl)
  fix e
  assume e: "e \<in> set E"
  show "le (d (ed_to e)) (step (d (ed_from e)) e)"
  proof (cases "d (ed_from e) = far")
    case True
    then show ?thesis by (simp add: step_far le_far)
  next
    case False
    then obtain p where "walk E s p (ed_from e)" "foldl step start p = d (ed_from e)"
      using assms(1) by (auto simp: settled_def attained_def)
    then show ?thesis using sweeps_bounded[OF assms, of "p @ [e]" "ed_to e"] e by (simp add: walk_append)
  qed
qed

end

end
