(* ===== verification/Bellman_Ford_Correct.thy ===== *)
theory Bellman_Ford_Correct
  imports Bellman_Ford
begin

text \<open>
  Both passes of the Bellman-Ford probe as instances of \<open>relaxation\<close>, and what the probe reports: exact
  cycle and saturation flags, least saturating distances with consistent predecessors, no overflow of
  the exact pass, and a reduction that agrees with the accelerator's.
\<close>

section \<open>The exact pass\<close>

definition ext_le :: "int option \<Rightarrow> int option \<Rightarrow> bool" where
  "ext_le a b \<longleftrightarrow> (case b of None \<Rightarrow> True | Some y \<Rightarrow> (case a of None \<Rightarrow> False | Some x \<Rightarrow> x \<le> y))"

definition exact_step :: "int option \<Rightarrow> bf_edge \<Rightarrow> int option" where
  "exact_step a e = (case a of None \<Rightarrow> None | Some x \<Rightarrow> if ed_weight e = ACCEL_INF then None else Some (x + ed_weight e))"

interpretation ex: relaxation ext_le None "Some 0" exact_step
  by unfold_locales (auto simp: ext_le_def exact_step_def split: option.splits)

text \<open>The pass with unbounded sums; \<open>exact_rounds_ideal\<close> shows that the program computes it.\<close>

definition ideal_edge :: "bf_edge \<Rightarrow> bool \<times> int option list \<Rightarrow> bool \<times> int option list" where
  "ideal_edge edge state =
     (case state of (relaxed, exact) \<Rightarrow>
        case exact ! nat (ed_from edge) of
          None \<Rightarrow> state
        | Some from \<Rightarrow>
            if ed_weight edge = ACCEL_INF then state
            else let candidate = from + ed_weight edge
              in if (case exact ! nat (ed_to edge) of None \<Rightarrow> True | Some x \<Rightarrow> candidate < x)
                 then (True, exact[nat (ed_to edge) := Some candidate]) else state)"

definition ideal_exact :: "bf_edge list \<Rightarrow> int option list \<Rightarrow> bool \<times> int option list" where
  "ideal_exact edges exact = fold ideal_edge edges (False, exact)"

primrec ideal_rounds :: "nat \<Rightarrow> bf_edge list \<Rightarrow> int option list \<Rightarrow> int option list" where
  "ideal_rounds 0 edges exact = exact"
| "ideal_rounds (Suc k) edges exact =
     (case ideal_exact edges exact of
        (relaxed, exact') \<Rightarrow> if \<not> relaxed then exact' else ideal_rounds k edges exact')"

definition look :: "'a \<Rightarrow> 'a list \<Rightarrow> int \<Rightarrow> 'a" where
  "look far xs v = (if 0 \<le> v \<and> v < int (length xs) then xs ! nat v else far)"

lemma look_update:
  "0 \<le> v \<Longrightarrow> v < int (length xs) \<Longrightarrow> look far (xs[nat v := x]) = (look far xs)(v := x)"
  by (auto simp: look_def fun_eq_iff nth_list_update)

lemma ideal_edge_form:
  assumes "valid_edge (int (length xs)) e"
  shows "ideal_edge e (r, xs) =
    (if ext_le (look None xs (ed_to e)) (exact_step (look None xs (ed_from e)) e) then (r, xs)
     else (True, xs[nat (ed_to e) := exact_step (look None xs (ed_from e)) e]))"
  using assms
  by (auto simp: ideal_edge_def valid_edge_def look_def ext_le_def exact_step_def Let_def split: option.splits if_splits)

lemma ext_total: "\<not> ext_le a b \<Longrightarrow> ext_le b a"
  by (auto simp: ext_le_def split: option.splits)

lemma ideal_edge_step:
  assumes v: "valid_edge (int (length xs)) e" and "e \<in> set E" and run: "ideal_edge e (r, xs) = (r', ys)"
  shows "length ys = length xs" and "ext_le (look None ys x) (look None xs x)"
    and "ext_le (look None ys (ed_to e)) (exact_step (look None xs (ed_from e)) e)"
    and "ex.attained E s (look None xs) \<Longrightarrow> ex.attained E s (look None ys)"
    and "\<not> r' \<Longrightarrow> ys = xs \<and> \<not> r"
  using run assms(2) v ex.attained_step[of E s "look None xs" e]
  unfolding ideal_edge_form[OF v]
  by (auto simp: ex.le_refl valid_edge_def look_update ext_total split: if_splits)

lemma relax_fold:
  assumes "\<forall>e \<in> set es. valid_edge (int (length xs)) e" and "set es \<subseteq> set E" and "fold ideal_edge es (r, xs) = (r', ys)"
  shows "length ys = length xs \<and> ex.lowers es (look None xs) (look None ys) \<and>
    (ex.attained E s (look None xs) \<longrightarrow> ex.attained E s (look None ys)) \<and> (\<not> r' \<longrightarrow> ys = xs \<and> \<not> r)"
  using assms
proof (induction es arbitrary: r xs)
  case Nil
  then show ?case by (simp add: ex.lowers_def ex.le_refl)
next
  case (Cons e es)
  obtain r1 zs where z: "ideal_edge e (r, xs) = (r1, zs)" by fastforce
  have v: "valid_edge (int (length xs)) e" "e \<in> set E" using Cons.prems by auto
  note st = ideal_edge_step[OF v z]
  have ih: "length ys = length zs \<and> ex.lowers es (look None zs) (look None ys) \<and>
    (ex.attained E s (look None zs) \<longrightarrow> ex.attained E s (look None ys)) \<and> (\<not> r' \<longrightarrow> ys = zs \<and> \<not> r1)"
    by (rule Cons.IH) (use Cons.prems z st(1) in auto)
  have "ex.lowers (e # es) (look None xs) (look None ys)"
    unfolding ex.lowers_def
  proof (intro conjI allI ballI)
    show "ext_le (look None ys x) (look None xs x)" for x
      using ih st(2)[of x] ex.le_trans unfolding ex.lowers_def by blast
    fix f
    assume "f \<in> set (e # es)"
    then consider "f = e" | "f \<in> set es" by auto
    then show "ext_le (look None ys (ed_to f)) (exact_step (look None xs (ed_from f)) f)"
    proof cases
      case 1
      then show ?thesis using ih st(3) ex.le_trans unfolding ex.lowers_def by blast
    next
      case 2
      then have "ext_le (look None ys (ed_to f)) (exact_step (look None zs (ed_from f)) f)" using ih by (simp add: ex.lowers_def)
      then show ?thesis using ex.step_mono[OF st(2), of "ed_from f" f] ex.le_trans by blast
    qed
  qed
  then show ?case using ih st(1,4,5) by auto
qed

lemma exact_rounds_settled:
  assumes "\<forall>e \<in> set E. valid_edge (int (length xs)) e" and "ex.settled E s k (look None xs)"
  shows "ex.settled E s (k + j) (look None (ideal_rounds j E xs)) \<and> length (ideal_rounds j E xs) = length xs"
  using assms
proof (induction j arbitrary: xs k)
  case (Suc j)
  obtain r ys where run: "ideal_exact E xs = (r, ys)" by fastforce
  note st = relax_fold[OF Suc.prems(1) subset_refl run[unfolded ideal_exact_def], of s]
  have settled: "ex.settled E s (Suc k) (look None ys)"
    using Suc.prems(2) st by (intro ex.settled_round[of E s k "look None xs"]) (auto simp: ex.settled_def)
  show ?case
  proof (cases r)
    case True
    then show ?thesis using Suc.IH[OF _ settled] Suc.prems(1) st run by simp
  next
    case False
    then have "ex.lowers E (look None ys) (look None ys)" "ys = xs" using st by auto
    then show ?thesis using ex.settled_fixpoint[OF settled] run False by simp
  qed
qed simp

lemma relax_fixpoint:
  assumes "\<forall>e \<in> set E. valid_edge (int (length xs)) e" and "ex.lowers E (look None xs) (look None xs)" and "set es \<subseteq> set E"
  shows "fold ideal_edge es (r, xs) = (r, xs)"
  using assms(3)
proof (induction es)
  case (Cons e es)
  then have "ideal_edge e (r, xs) = (r, xs)" using assms(1,2) by (subst ideal_edge_form) (auto simp: ex.lowers_def)
  then show ?case using Cons by simp
qed simp

lemma exact_cost:
  "foldl exact_step (Some x) p = (if \<forall>e \<in> set p. ed_weight e \<noteq> ACCEL_INF then Some (x + weight p) else None)"
proof (induction p arbitrary: x)
  case (Cons e p)
  have "foldl exact_step None q = None" for q by (induction q) (simp_all add: exact_step_def)
  moreover have "exact_step (Some x) e = (if ed_weight e = ACCEL_INF then None else Some (x + ed_weight e))"
    by (simp add: exact_step_def)
  ultimately show ?case using Cons by (simp add: weight_def)
qed (simp add: weight_def)

lemma walk_usable: "walk (usable_edges E) u p v \<longleftrightarrow> walk E u p v \<and> (\<forall>e \<in> set p. ed_weight e \<noteq> ACCEL_INF)"
  by (induction p arbitrary: u) (auto simp: usable_edges_def)

definition negative_cycle :: "bf_edge list \<Rightarrow> int \<Rightarrow> bool" where
  "negative_cycle E s \<longleftrightarrow> (\<exists>q x c. walk (usable_edges E) s q x \<and> walk (usable_edges E) x c x \<and> weight c < 0)"

lemma exact_harmless: "\<not> negative_cycle E s \<Longrightarrow> ex.harmless E s"
  unfolding ex.harmless_def negative_cycle_def walk_usable
proof (intro allI impI)
  fix x q c
  assume "\<nexists>q x c. (walk E s q x \<and> (\<forall>e \<in> set q. ed_weight e \<noteq> ACCEL_INF)) \<and>
      (walk E x c x \<and> (\<forall>e \<in> set c. ed_weight e \<noteq> ACCEL_INF)) \<and> weight c < 0" and "walk E s q x" and "walk E x c x"
  then have "0 \<le> weight c" if "\<forall>e \<in> set (q @ c). ed_weight e \<noteq> ACCEL_INF" using that by (metis UnCI linorder_not_less set_append)
  then show "ext_le (foldl exact_step (Some 0) q) (foldl exact_step (Some 0) (q @ c))"
    by (subst (1 2) exact_cost) (auto simp: ext_le_def weight_def)
qed

lemma fixpoint_no_cycle:
  assumes "ex.lowers E d d" and "ext_le (d s) (Some 0)"
  shows "\<not> negative_cycle E s"
proof
  assume "negative_cycle E s"
  then obtain q x c where q: "walk E s q x" "\<forall>e \<in> set q. ed_weight e \<noteq> ACCEL_INF"
    and c: "walk E x c x" "\<forall>e \<in> set c. ed_weight e \<noteq> ACCEL_INF" "weight c < 0"
    by (auto simp: negative_cycle_def walk_usable)
  have "ext_le (d x) (Some (weight q))" using ex.fixpoint_bounded[OF assms q(1)] q(2) by (simp add: exact_cost)
  then obtain y where y: "d x = Some y" by (auto simp: ext_le_def split: option.splits)
  then have "ext_le (Some y) (Some (y + weight c))" using ex.fixpoint_path[OF assms(1) c(1)] c(2) by (simp add: exact_cost)
  then show False using c(3) by (simp add: ext_le_def)
qed

lemma exact_settled:
  assumes "0 \<le> s" and "s < n" and "\<forall>e \<in> set E. valid_edge n e" and "xs = ideal_rounds (nat n - 1) E ((replicate (nat n) None)[nat s := Some 0])"
  shows "ex.settled E s (nat n - 1) (look None xs)" and "length xs = nat n"
proof -
  let ?xs = "(replicate (nat n) None)[nat s := Some 0]"
  have v: "\<forall>e \<in> set E. valid_edge (int (length ?xs)) e" using assms(1-3) by simp
  have "ex.settled E s 0 (look None ?xs)"
    by (rule ex.settled_start) (use assms(1,2) in \<open>auto simp: look_def nth_list_update\<close>)
  from exact_rounds_settled[OF v this, of "nat n - 1"] show "ex.settled E s (nat n - 1) (look None xs)" "length xs = nat n"
    by (simp_all add: assms(4))
qed

lemma exact_flag:
  assumes "0 \<le> s" and "s < n" and "\<forall>e \<in> set E. valid_edge n e"
    and "ideal_exact E (ideal_rounds (nat n - 1) E ((replicate (nat n) None)[nat s := Some 0])) = (r, ys)"
  shows "r \<longleftrightarrow> negative_cycle E s"
    and "\<not> r \<Longrightarrow> ex.settled E s (nat n - 1) (look None ys) \<and> length ys = nat n \<and> ex.lowers E (look None ys) (look None ys)"
proof -
  let ?xs = "ideal_rounds (nat n - 1) E ((replicate (nat n) None)[nat s := Some 0])"
  note s = exact_settled[OF assms(1-3) refl]
  have v: "\<forall>e \<in> set E. valid_edge (int (length ?xs)) e" using assms(1-3) s(2) by simp
  note st = relax_fold[OF v subset_refl assms(4)[unfolded ideal_exact_def], of s]
  show settles: "ex.settled E s (nat n - 1) (look None ys) \<and> length ys = nat n \<and> ex.lowers E (look None ys) (look None ys)" if "\<not> r"
    using that st s by auto
  show "r \<longleftrightarrow> negative_cycle E s"
  proof
    show "negative_cycle E s" if r
    proof (rule ccontr)
      assume "\<not> negative_cycle E s"
      from ex.sweeps_fixpoint[OF s(1) exact_harmless[OF this] assms(3,1,2)]
      have "fold ideal_edge E (False, ?xs) = (False, ?xs)" by (rule relax_fixpoint[OF v _ subset_refl])
      then show False using assms(4) that by (simp add: ideal_exact_def)
    qed
    show r if "negative_cycle E s"
      using that fixpoint_no_cycle[of E "look None ys" s] settles by (auto simp: ex.settled_def)
  qed
qed

section \<open>The saturating pass\<close>

definition sat_le :: "int \<Rightarrow> int \<Rightarrow> bool" where
  "sat_le a b \<longleftrightarrow> a \<le> b \<or> ACCEL_INF \<le> b"

definition sat_step :: "int \<Rightarrow> bf_edge \<Rightarrow> int" where
  "sat_step a e = (if a \<ge> ACCEL_INF then ACCEL_INF else reference_cost_add a (ed_weight e))"

lemma inf_floor: "INT32_MIN < ACCEL_INF"
  by (simp add: INT32_MIN_def ACCEL_INF_def INT32_MAX_def)

interpretation sat: relaxation sat_le ACCEL_INF 0 sat_step
  by unfold_locales (use inf_floor in \<open>auto simp: sat_le_def sat_step_def reference_cost_add_def Let_def\<close>)

lemma sat_step_le: "sat_step a e \<le> ACCEL_INF"
  using inf_floor by (simp add: sat_step_def reference_cost_add_def Let_def)

lemma reference_sat: "a \<le> ACCEL_INF \<Longrightarrow> reference_cost_add a (ed_weight e) = sat_step a e"
  by (auto simp: sat_step_def reference_cost_add_def)

lemma sat_leD: "sat_le a b \<Longrightarrow> a \<le> ACCEL_INF \<Longrightarrow> a \<le> b"
  by (auto simp: sat_le_def)

lemma reduce_prefix:
  assumes "k \<le> length a"
    and "r = fold (\<lambda>i result. let v = reference_cost_add (a ! i) (b ! i)
         in if snd result < 0 \<or> v < fst result then (v, int i) else result) [0..<k] (ACCEL_INF, - 1)"
  shows "(k = 0 \<longrightarrow> snd r < 0) \<and> (0 < k \<longrightarrow> 0 \<le> snd r \<and> snd r < int k \<and>
    fst r = reference_cost_add (a ! nat (snd r)) (b ! nat (snd r)) \<and> (\<forall>i < k. fst r \<le> reference_cost_add (a ! i) (b ! i)))"
  using assms
proof (induction k arbitrary: r)
  case (Suc k)
  show ?case using Suc.IH[OF _ refl] Suc.prems by (cases "k = 0") (auto simp: Let_def less_Suc_eq)
qed simp

lemma reduce_min:
  assumes "a \<noteq> []" and "AddReduceMinArgmin a b = (m, i)"
  shows "0 \<le> i" and "nat i < length a" and "m = reference_cost_add (a ! nat i) (b ! nat i)"
    and "\<And>j. j < length a \<Longrightarrow> m \<le> reference_cost_add (a ! j) (b ! j)"
  using reduce_prefix[OF order_refl, of "(m, i)" a b] assms by (auto simp: AddReduceMinArgmin_def)

lemma incoming_prefix:
  assumes "k \<le> length E" and "\<forall>e \<in> set E. valid_edge (int n) e"
    and "g = fold (\<lambda>index groups. let v = nat (ed_to (E ! index)) in groups[v := groups ! v @ [index]]) [0..<k] (replicate n [])"
  shows "length g = n \<and> (\<forall>v < n. g ! v = filter (\<lambda>i. ed_to (E ! i) = int v) [0..<k])"
  using assms
proof (induction k arbitrary: g)
  case (Suc k)
  let ?h = "fold (\<lambda>index groups. let v = nat (ed_to (E ! index)) in groups[v := groups ! v @ [index]]) [0..<k] (replicate n [])"
  have "length ?h = n \<and> (\<forall>v < n. ?h ! v = filter (\<lambda>i. ed_to (E ! i) = int v) [0..<k])"
    by (rule Suc.IH) (use Suc.prems in auto)
  moreover have "valid_edge (int n) (E ! k)" using Suc.prems by simp
  ultimately show ?case using Suc.prems(3) by (auto simp: Let_def nth_list_update valid_edge_def)
qed simp

lemma incoming_form:
  assumes "\<forall>e \<in> set E. valid_edge (int n) e"
  shows "length (incoming n E) = n" and "v < n \<Longrightarrow> incoming n E ! v = filter (\<lambda>i. ed_to (E ! i) = int v) [0..<length E]"
  using incoming_prefix[OF order_refl assms refl] by (simp_all add: incoming_def)

lemma relax_vertex_form:
  assumes ve: "\<forall>e \<in> set E. valid_edge (int n) e" and v: "v < n" and len: "length dist = n" and top: "\<forall>x \<in> set dist. x \<le> ACCEL_INF"
    and d: "d = look ACCEL_INF dist"
  shows "(relax_vertex E (incoming n E) v (ch, dist, pred) = (ch, dist, pred) \<and>
      (\<forall>e \<in> set E. ed_to e = int v \<longrightarrow> d (int v) \<le> sat_step (d (ed_from e)) e)) \<or>
    (\<exists>e \<in> set E. ed_to e = int v \<and> sat_step (d (ed_from e)) e < d (int v) \<and>
      relax_vertex E (incoming n E) v (ch, dist, pred) = (True, dist[v := sat_step (d (ed_from e)) e], pred[v := ed_from e]) \<and>
      (\<forall>f \<in> set E. ed_to f = int v \<longrightarrow> sat_step (d (ed_from e)) e \<le> sat_step (d (ed_from f)) f))"
proof -
  let ?in = "incoming n E ! v"
  have inc: "?in = filter (\<lambda>i. ed_to (E ! i) = int v) [0..<length E]" by (rule incoming_form(2)[OF ve v])
  have into: "\<exists>i < length ?in. E ! (?in ! i) = e" if e: "e \<in> set E" "ed_to e = int v" for e
  proof -
    obtain j where j: "j < length E" "E ! j = e" using e(1) by (auto simp: in_set_conv_nth)
    then have "j \<in> set ?in" using e(2) by (simp add: inc)
    then show ?thesis using j(2) by (metis in_set_conv_nth)
  qed
  have edge: "E ! (?in ! i) \<in> set E" "ed_to (E ! (?in ! i)) = int v" if "i < length ?in" for i
    using nth_mem[OF that] by (auto simp: inc)
  have cost: "reference_cost_add (dist ! nat (ed_from e)) (ed_weight e) = sat_step (d (ed_from e)) e" if "e \<in> set E" for e
    using that ve top len by (subst reference_sat) (auto simp: d look_def valid_edge_def)
  have dv: "dist ! v = d (int v)" using v len by (simp add: d look_def)
  show ?thesis
  proof (cases "?in = []")
    case True
    then show ?thesis using into by (fastforce simp: relax_vertex_def)
  next
    case False
    let ?pd = "map (\<lambda>i. dist ! nat (ed_from (E ! i))) ?in" and ?ew = "map (\<lambda>i. ed_weight (E ! i)) ?in"
    obtain m i where r: "AddReduceMinArgmin ?pd ?ew = (m, i)" by fastforce
    note mn = reduce_min[OF _ r]
    let ?e = "E ! (?in ! nat i)"
    have i: "nat i < length ?in" using mn(2) False by simp
    have m: "m = sat_step (d (ed_from ?e)) ?e" using mn(3) False i cost[OF edge(1)[OF i]] by simp
    have least: "m \<le> sat_step (d (ed_from f)) f" if f: "f \<in> set E" "ed_to f = int v" for f
    proof -
      obtain j where "j < length ?in" "E ! (?in ! j) = f" using into[OF f] by blast
      then show ?thesis using mn(4)[of j] False cost[OF f(1)] by simp
    qed
    have run: "relax_vertex E (incoming n E) v (ch, dist, pred) =
        (if m < d (int v) then (True, dist[v := m], pred[v := ed_from ?e]) else (ch, dist, pred))"
      using False r by (simp add: relax_vertex_def dv)
    show ?thesis
    proof (cases "m < d (int v)")
      case True
      then show ?thesis using run m least edge[OF i] by (intro disjI2 bexI[of _ ?e]) auto
    next
      case False
      then show ?thesis using run least by (intro disjI1 conjI ballI impI) (simp, meson linorder_not_less order_trans)
    qed
  qed
qed

text \<open>
  What the saturating pass keeps. A vertex without a predecessor has its initial distance; a predecessor
  is the source of an edge that still costs at most the distance.
\<close>

definition predecessor_ok :: "bf_edge list \<Rightarrow> int \<Rightarrow> (int \<Rightarrow> int) \<Rightarrow> int list \<Rightarrow> bool" where
  "predecessor_ok E s d pred \<longleftrightarrow> (\<forall>v < length pred.
     pred ! v = - 1 \<and> d (int v) = (if int v = s then 0 else ACCEL_INF) \<or>
     (\<exists>e \<in> set E. ed_to e = int v \<and> ed_from e = pred ! v \<and> sat_le (sat_step (d (ed_from e)) e) (d (int v))))"

definition pass_ok :: "bf_edge list \<Rightarrow> int \<Rightarrow> nat \<Rightarrow> int list \<times> int list \<Rightarrow> bool" where
  "pass_ok E s n state \<longleftrightarrow> (case state of (dist, pred) \<Rightarrow>
     length dist = n \<and> length pred = n \<and> (\<forall>x \<in> set dist. x \<le> ACCEL_INF) \<and>
     sat.attained E s (look ACCEL_INF dist) \<and> predecessor_ok E s (look ACCEL_INF dist) pred)"

lemma predecessor_update:
  assumes ok: "predecessor_ok E s d pred" and e: "e \<in> set E" "ed_to e = int v" and v: "v < length pred"
    and less: "sat_step (d (ed_from e)) e < d (int v)" and d': "d' = d(int v := sat_step (d (ed_from e)) e)"
  shows "predecessor_ok E s d' (pred[v := ed_from e])"
  unfolding predecessor_ok_def
proof (intro allI impI)
  fix w
  assume w: "w < length (pred[v := ed_from e])"
  have lower: "sat_le (sat_step (d' x) f) (sat_step (d x) f)" for x f
    by (rule sat.step_mono) (use less in \<open>auto simp: d' sat_le_def\<close>)
  show "pred[v := ed_from e] ! w = - 1 \<and> d' (int w) = (if int w = s then 0 else ACCEL_INF) \<or>
     (\<exists>f \<in> set E. ed_to f = int w \<and> ed_from f = pred[v := ed_from e] ! w \<and> sat_le (sat_step (d' (ed_from f)) f) (d' (int w)))"
  proof (cases "w = v")
    case True
    then show ?thesis using e v lower[of "ed_from e" e] by (intro disjI2 bexI[of _ e]) (auto simp: d')
  next
    case False
    then have same: "pred[v := ed_from e] ! w = pred ! w" "d' (int w) = d (int w)" by (simp_all add: d')
    have "w < length pred" using w by simp
    with ok consider "pred ! w = - 1" "d (int w) = (if int w = s then 0 else ACCEL_INF)"
      | f where "f \<in> set E" "ed_to f = int w" "ed_from f = pred ! w" "sat_le (sat_step (d (ed_from f)) f) (d (int w))"
      unfolding predecessor_ok_def by blast
    then show ?thesis
    proof cases
      case 1
      then show ?thesis by (simp add: same)
    next
      case 2
      then show ?thesis unfolding same using sat.le_trans[OF lower] by blast
    qed
  qed
qed

lemma relax_vertex_step:
  assumes ve: "\<forall>e \<in> set E. valid_edge (int n) e" and v: "v < n" and ok: "pass_ok E s n (dist, pred)"
    and run: "relax_vertex E (incoming n E) v (ch, dist, pred) = (ch', dist', pred')"
  shows "pass_ok E s n (dist', pred')" and "sat_le (look ACCEL_INF dist' x) (look ACCEL_INF dist x)"
    and "e \<in> set E \<Longrightarrow> ed_to e = int v \<Longrightarrow> sat_le (look ACCEL_INF dist' (int v)) (sat_step (look ACCEL_INF dist (ed_from e)) e)"
    and "\<not> ch' \<Longrightarrow> dist' = dist \<and> pred' = pred \<and> \<not> ch"
proof -
  let ?d = "look ACCEL_INF dist"
  have f: "length dist = n" "length pred = n" "\<forall>x \<in> set dist. x \<le> ACCEL_INF" "sat.attained E s ?d" "predecessor_ok E s ?d pred"
    using ok by (simp_all add: pass_ok_def)
  have "pass_ok E s n (dist', pred') \<and> sat_le (look ACCEL_INF dist' x) (?d x) \<and>
    (\<forall>e \<in> set E. ed_to e = int v \<longrightarrow> sat_le (look ACCEL_INF dist' (int v)) (sat_step (?d (ed_from e)) e)) \<and>
    (\<not> ch' \<longrightarrow> dist' = dist \<and> pred' = pred \<and> \<not> ch)" for x
    using relax_vertex_form[OF ve v f(1,3) refl, of ch pred]
  proof (elim disjE conjE bexE)
    assume "relax_vertex E (incoming n E) v (ch, dist, pred) = (ch, dist, pred)"
      "\<forall>e \<in> set E. ed_to e = int v \<longrightarrow> ?d (int v) \<le> sat_step (?d (ed_from e)) e"
    then show ?thesis using run ok by (auto simp: sat_le_def)
  next
    fix e
    assume e: "e \<in> set E" "ed_to e = int v" and less: "sat_step (?d (ed_from e)) e < ?d (int v)"
      and r: "relax_vertex E (incoming n E) v (ch, dist, pred) = (True, dist[v := sat_step (?d (ed_from e)) e], pred[v := ed_from e])"
      and least: "\<forall>f \<in> set E. ed_to f = int v \<longrightarrow> sat_step (?d (ed_from e)) e \<le> sat_step (?d (ed_from f)) f"
    have up: "look ACCEL_INF (dist[v := sat_step (?d (ed_from e)) e]) = ?d(int v := sat_step (?d (ed_from e)) e)"
      using look_update[of "int v" dist] v f(1) by simp
    have "predecessor_ok E s (?d(int v := sat_step (?d (ed_from e)) e)) (pred[v := ed_from e])"
      by (rule predecessor_update[OF f(5) e _ less refl]) (use v f(2) in simp)
    moreover have "\<forall>x \<in> set (dist[v := sat_step (?d (ed_from e)) e]). x \<le> ACCEL_INF"
      using f(3) sat_step_le by (auto dest: set_update_subset_insert[THEN subsetD])
    ultimately show ?thesis using run r f(1,2) less least sat.attained_step[OF f(4) e(1)] e(2)
      by (auto simp: pass_ok_def up sat_le_def)
  qed
  then show "pass_ok E s n (dist', pred')" "sat_le (look ACCEL_INF dist' x) (look ACCEL_INF dist x)"
    "e \<in> set E \<Longrightarrow> ed_to e = int v \<Longrightarrow> sat_le (look ACCEL_INF dist' (int v)) (sat_step (look ACCEL_INF dist (ed_from e)) e)"
    "\<not> ch' \<Longrightarrow> dist' = dist \<and> pred' = pred \<and> \<not> ch" by blast+
qed

lemma relax_vertices:
  assumes ve: "\<forall>e \<in> set E. valid_edge (int n) e" and "set vs \<subseteq> {..<n}" and "pass_ok E s n (dist, pred)"
    and "fold (relax_vertex E (incoming n E)) vs (ch, dist, pred) = (ch', dist', pred')"
  shows "pass_ok E s n (dist', pred') \<and> (\<forall>x. sat_le (look ACCEL_INF dist' x) (look ACCEL_INF dist x)) \<and>
    (\<forall>e \<in> set E. nat (ed_to e) \<in> set vs \<longrightarrow> sat_le (look ACCEL_INF dist' (ed_to e)) (sat_step (look ACCEL_INF dist (ed_from e)) e)) \<and>
    (\<not> ch' \<longrightarrow> dist' = dist \<and> pred' = pred \<and> \<not> ch)"
  using assms(2-4)
proof (induction vs arbitrary: ch dist pred)
  case Nil
  then show ?case by (simp add: sat.le_refl)
next
  case (Cons v vs)
  let ?L = "look ACCEL_INF"
  obtain c1 d1 p1 where r1: "relax_vertex E (incoming n E) v (ch, dist, pred) = (c1, d1, p1)" by (metis prod_cases3)
  have v: "v < n" using Cons.prems(1) by simp
  note st = relax_vertex_step[OF ve v Cons.prems(2) r1]
  have ih: "pass_ok E s n (dist', pred') \<and> (\<forall>x. sat_le (?L dist' x) (?L d1 x)) \<and>
    (\<forall>e \<in> set E. nat (ed_to e) \<in> set vs \<longrightarrow> sat_le (?L dist' (ed_to e)) (sat_step (?L d1 (ed_from e)) e)) \<and>
    (\<not> ch' \<longrightarrow> dist' = d1 \<and> pred' = p1 \<and> \<not> c1)"
    by (rule Cons.IH) (use Cons.prems r1 st(1) in auto)
  have "sat_le (?L dist' (ed_to e)) (sat_step (?L dist (ed_from e)) e)" if e: "e \<in> set E" "nat (ed_to e) \<in> set (v # vs)" for e
  proof (cases "nat (ed_to e) \<in> set vs")
    case True
    then have "sat_le (?L dist' (ed_to e)) (sat_step (?L d1 (ed_from e)) e)" using ih e(1) by blast
    then show ?thesis using sat.step_mono[OF st(2), of "ed_from e" e] by (rule sat.le_trans)
  next
    case False
    then have "ed_to e = int v" using e ve by (auto simp: valid_edge_def)
    then have "sat_le (?L d1 (ed_to e)) (sat_step (?L dist (ed_from e)) e)" using st(3)[OF e(1)] by simp
    with ih show ?thesis using sat.le_trans by blast
  qed
  moreover have "sat_le (?L dist' x) (?L dist x)" for x using ih st(2)[of x] sat.le_trans by blast
  ultimately show ?case using ih st(4) by blast
qed

lemma relax_round_step:
  assumes ve: "\<forall>e \<in> set E. valid_edge (int n) e" and "pass_ok E s n (dist, pred)"
    and "relax_round E (incoming n E) (dist, pred) = (ch, dist', pred')"
  shows "pass_ok E s n (dist', pred')" and "sat.lowers E (look ACCEL_INF dist) (look ACCEL_INF dist')"
    and "\<not> ch \<Longrightarrow> dist' = dist \<and> pred' = pred"
proof -
  have run: "fold (relax_vertex E (incoming n E)) [0..<n] (False, dist, pred) = (ch, dist', pred')"
    using assms(3) by (simp add: relax_round_def incoming_form(1)[OF ve])
  have sub: "set [0..<n] \<subseteq> {..<n}" by auto
  note st = relax_vertices[OF ve sub assms(2) run]
  then show "pass_ok E s n (dist', pred')" and "\<not> ch \<Longrightarrow> dist' = dist \<and> pred' = pred" by auto
  have "nat (ed_to e) \<in> set [0..<n]" if "e \<in> set E" for e using ve that by (auto simp: valid_edge_def)
  then show "sat.lowers E (look ACCEL_INF dist) (look ACCEL_INF dist')" using st unfolding sat.lowers_def by blast
qed

lemma relax_rounds_settled:
  assumes ve: "\<forall>e \<in> set E. valid_edge (int n) e" and "pass_ok E s n (dist, pred)" and "sat.settled E s k (look ACCEL_INF dist)"
    and "relax_rounds j E (incoming n E) (dist, pred) = (dist', pred')"
  shows "pass_ok E s n (dist', pred') \<and> sat.settled E s (k + j) (look ACCEL_INF dist')"
  using assms(2-4)
proof (induction j arbitrary: dist pred k)
  case 0
  then show ?case by simp
next
  case (Suc j)
  obtain ch d1 p1 where r: "relax_round E (incoming n E) (dist, pred) = (ch, d1, p1)" by (metis prod_cases3)
  note st = relax_round_step[OF ve Suc.prems(1) r]
  have att: "sat.attained E s (look ACCEL_INF d1)" using st(1) by (simp add: pass_ok_def)
  have settled: "sat.settled E s (Suc k) (look ACCEL_INF d1)" by (rule sat.settled_round[OF Suc.prems(2) st(2) att])
  show ?case
  proof (cases ch)
    case True
    then show ?thesis using Suc.IH[OF st(1) settled] Suc.prems(3) r by simp
  next
    case False
    then have "sat.lowers E (look ACCEL_INF d1) (look ACCEL_INF d1)" using st(2,3) by simp
    then show ?thesis using sat.settled_fixpoint[OF settled] Suc.prems(3) r False st(1) by simp
  qed
qed

lemma sat_inf: "foldl sat_step ACCEL_INF q = ACCEL_INF"
  by (induction q) (simp_all add: sat_step_def)

lemma sat_cost:
  assumes "a \<le> ACCEL_INF"
  shows "foldl sat_step a p = ACCEL_INF \<or> (\<forall>e \<in> set p. ed_weight e \<noteq> ACCEL_INF) \<and> a + weight p \<le> foldl sat_step a p"
  using assms
proof (induction p arbitrary: a)
  case (Cons e p)
  show ?case
  proof (cases "sat_step a e = ACCEL_INF")
    case False
    then have "ed_weight e \<noteq> ACCEL_INF" "a + ed_weight e \<le> sat_step a e"
      by (auto simp: sat_step_def reference_cost_add_def Let_def split: if_splits)
    then show ?thesis using Cons.IH[OF sat_step_le[of a e]] by (auto simp: weight_def)
  qed (simp add: sat_inf)
qed (simp add: weight_def)

lemma inf_pos: "0 \<le> ACCEL_INF"
  by (simp add: ACCEL_INF_def INT32_MAX_def)

lemma sat_path_le: "foldl sat_step 0 q \<le> ACCEL_INF"
  by (cases q rule: rev_cases) (simp_all add: sat_step_le inf_pos)

lemma sat_harmless:
  assumes "\<not> negative_cycle E s"
  shows "sat.harmless E s"
  unfolding sat.harmless_def
proof (intro allI impI)
  fix x q c
  assume q: "walk E s q x" and c: "walk E x c x"
  let ?a = "foldl sat_step 0 q"
  have top: "0 \<le> ACCEL_INF" "?a \<le> ACCEL_INF" by (rule inf_pos, rule sat_path_le)
  show "sat_le ?a (foldl sat_step 0 (q @ c))"
  proof (cases "foldl sat_step ?a c = ACCEL_INF \<or> ?a = ACCEL_INF")
    case True
    then show ?thesis by (auto simp: sat_le_def sat_inf)
  next
    case False
    then have "walk (usable_edges E) s q x" "walk (usable_edges E) x c x" "?a + weight c \<le> foldl sat_step ?a c"
      using q c sat_cost[OF top(1), of q] sat_cost[OF top(2), of c] by (auto simp: walk_usable)
    moreover from this have "0 \<le> weight c" using assms unfolding negative_cycle_def by force
    ultimately show ?thesis by (simp add: sat_le_def)
  qed
qed

section \<open>The sums of the exact pass\<close>

text \<open>The magnitude of the exact values.\<close>

definition magnitude :: "int \<Rightarrow> int option list \<Rightarrow> bool" where
  "magnitude b xs \<longleftrightarrow> (\<forall>x. Some x \<in> set xs \<longrightarrow> \<bar>x\<bar> \<le> b)"

lemma magnitude_mono: "magnitude b xs \<Longrightarrow> b \<le> c \<Longrightarrow> magnitude c xs"
  by (force simp: magnitude_def)

lemma ideal_edge_magnitude:
  assumes "magnitude b xs" and "\<bar>ed_weight e\<bar> \<le> w" and "valid_edge (int (length xs)) e"
  shows "magnitude (b + w) (snd (ideal_edge e (r, xs))) \<and> length (snd (ideal_edge e (r, xs))) = length xs"
proof -
  have m: "magnitude (b + w) xs" using assms(1,2) by (auto intro: magnitude_mono)
  have "\<bar>x\<bar> \<le> b + w" if x: "exact_step (look None xs (ed_from e)) e = Some x" for x
  proof -
    obtain y where y: "look None xs (ed_from e) = Some y" "x = y + ed_weight e"
      using x by (auto simp: exact_step_def split: option.splits if_splits)
    then have "Some y \<in> set xs" using assms(3) by (auto simp: look_def valid_edge_def in_set_conv_nth split: if_splits intro!: exI[of _ "nat (ed_from e)"])
    then have "\<bar>y\<bar> \<le> b" using assms(1) by (auto simp: magnitude_def)
    then show ?thesis using assms(2) y(2) by linarith
  qed
  then show ?thesis using m unfolding ideal_edge_form[OF assms(3)]
    by (auto simp: magnitude_def dest!: set_update_subset_insert[THEN subsetD])
qed

lemma relax_fold_magnitude:
  assumes "magnitude b xs" and "\<forall>e \<in> set es. \<bar>ed_weight e\<bar> \<le> w \<and> valid_edge (int (length xs)) e"
  shows "magnitude (b + int (length es) * w) (snd (fold ideal_edge es (r, xs))) \<and> length (snd (fold ideal_edge es (r, xs))) = length xs"
  using assms
proof (induction es arbitrary: b r xs)
  case (Cons e es)
  obtain r1 ys where y: "ideal_edge e (r, xs) = (r1, ys)" by fastforce
  then have "magnitude (b + w) ys \<and> length ys = length xs" using ideal_edge_magnitude[of b xs e w r] Cons.prems by simp
  then show ?case using Cons.IH[of "b + w" ys r1] Cons.prems y by (simp add: algebra_simps)
qed simp

lemma ideal_rounds_magnitude:
  assumes "magnitude b xs" and "0 \<le> w" and "\<forall>e \<in> set E. \<bar>ed_weight e\<bar> \<le> w \<and> valid_edge (int (length xs)) e"
  shows "magnitude (b + int k * int (length E) * w) (ideal_rounds k E xs) \<and> length (ideal_rounds k E xs) = length xs"
  using assms
proof (induction k arbitrary: b xs)
  case (Suc k)
  obtain r ys where y: "ideal_exact E xs = (r, ys)" by fastforce
  then have m: "magnitude (b + int (length E) * w) ys" "length ys = length xs"
    using relax_fold_magnitude[OF Suc.prems(1,3), of False] by (simp_all add: ideal_exact_def)
  have "magnitude (b + int (Suc k) * int (length E) * w) ys"
    by (rule magnitude_mono[OF m(1)]) (use assms(2) in \<open>simp add: algebra_simps\<close>)
  then show ?case using Suc.IH[OF m(1) assms(2)] Suc.prems(3) m(2) y by (simp add: algebra_simps)
qed simp

text \<open>Sums this small do not wrap around.\<close>

lemma int64_id: "\<bar>x\<bar> < 9223372036854775807 \<Longrightarrow> int64 x = x"
  by (simp add: int64_def int_word_sint)

lemma relax_edge_ideal:
  assumes "magnitude b xs" and "\<bar>ed_weight e\<bar> \<le> w" and "valid_edge (int (length xs)) e"
    and "b + w < 9223372036854775807"
  shows "relax_edge e (r, xs) = ideal_edge e (r, xs)"
proof (cases "xs ! nat (ed_from e)")
  case None
  then show ?thesis by (simp add: relax_edge_def ideal_edge_def)
next
  case (Some x)
  then have "Some x \<in> set xs" using assms(3)
    by (auto simp: valid_edge_def in_set_conv_nth intro!: exI[of _ "nat (ed_from e)"])
  then have "\<bar>x\<bar> \<le> b" using assms(1) by (auto simp: magnitude_def)
  then have small: "\<bar>x + ed_weight e\<bar> < 9223372036854775807" using assms(2,4) by linarith
  then have "x + ed_weight e < kUnreached" by (simp add: kUnreached_def)
  then show ?thesis using Some small
    by (auto simp: relax_edge_def ideal_edge_def Let_def int64_id split: option.splits)
qed

lemma relax_fold_ideal:
  assumes "magnitude b xs" and "0 \<le> w" and "\<forall>e \<in> set es. \<bar>ed_weight e\<bar> \<le> w \<and> valid_edge (int (length xs)) e"
    and "b + int (length es) * w < 9223372036854775807"
  shows "fold relax_edge es (r, xs) = fold ideal_edge es (r, xs)"
  using assms
proof (induction es arbitrary: b r xs)
  case (Cons e es)
  obtain r1 ys where y: "ideal_edge e (r, xs) = (r1, ys)" by fastforce
  then have m: "magnitude (b + w) ys \<and> length ys = length xs"
    using ideal_edge_magnitude[of b xs e w r] Cons.prems by simp
  have "0 \<le> int (length es) * w" using Cons.prems(2) by simp
  then have "b + w < 9223372036854775807" "b + w + int (length es) * w < 9223372036854775807"
    using Cons.prems(4) by (simp_all add: distrib_right)
  then show ?case using Cons.IH[of "b + w" ys r1] Cons.prems m y relax_edge_ideal[OF Cons.prems(1), of e w r] by simp
qed simp

lemma exact_rounds_ideal:
  assumes "magnitude b xs" and "0 \<le> w" and "\<forall>e \<in> set E. \<bar>ed_weight e\<bar> \<le> w \<and> valid_edge (int (length xs)) e"
    and "b + int k * int (length E) * w < 9223372036854775807"
  shows "exact_rounds k E xs = ideal_rounds k E xs"
  using assms
proof (induction k arbitrary: b xs)
  case (Suc k)
  obtain r ys where y: "ideal_exact E xs = (r, ys)" by fastforce
  then have m: "magnitude (b + int (length E) * w) ys" "length ys = length xs"
    using relax_fold_magnitude[OF Suc.prems(1,3), of False] by (simp_all add: ideal_exact_def)
  have nn: "0 \<le> int k * int (length E) * w" using Suc.prems(2) by simp
  have "b + int (length E) * w < 9223372036854775807"
    and b: "b + int (length E) * w + int k * int (length E) * w < 9223372036854775807"
    using Suc.prems(4) nn by (simp_all add: distrib_right)
  then have "relax_exact E xs = ideal_exact E xs"
    unfolding relax_exact_def ideal_exact_def by (intro relax_fold_ideal[OF Suc.prems(1,2,3)])
  then show ?case using Suc.IH[OF m(1) Suc.prems(2) _ b] Suc.prems(3) m(2) y by simp
qed simp

text \<open>The bound of the header, for a whole run.\<close>

lemma exact_pass_ideal:
  assumes "0 \<le> s" and "s < n" and "list_all (valid_edge n) E"
    and "\<forall>e \<in> set E. - 2147483648 \<le> ed_weight e \<and> ed_weight e \<le> 2147483647"
    and "n * int (length E) < 2 ^ 32" and "k \<le> nat n - 1"
  defines "start \<equiv> (replicate (nat n) None)[nat s := Some (0 :: int)]"
  shows "exact_rounds k E start = ideal_rounds k E start"
    and "length es \<le> length E \<Longrightarrow> set es \<subseteq> set E \<Longrightarrow>
      fold relax_edge es (False, ideal_rounds k E start) = fold ideal_edge es (False, ideal_rounds k E start)"
    and "magnitude (int k * int (length E) * 2147483648) (ideal_rounds k E start)"
    and "length (ideal_rounds k E start) = nat n"
proof -
  let ?w = "2147483648 :: int"
  have ve: "\<forall>e \<in> set E. \<bar>ed_weight e\<bar> \<le> ?w \<and> valid_edge (int (length start)) e"
    using assms(1-4) by (fastforce simp: list_all_iff start_def)
  have m0: "magnitude 0 start" by (auto simp: magnitude_def start_def dest!: set_update_subset_insert[THEN subsetD])
  have "(int k + 1) * int (length E) \<le> n * int (length E)" using assms(1,2,6) by (intro mult_right_mono) auto
  then have "(int k + 1) * int (length E) * ?w \<le> (2 ^ 32 - 1) * ?w" using assms(5) by (intro mult_right_mono) auto
  then have b: "int k * int (length E) * ?w + int (length E) * ?w < 9223372036854775807" by (simp add: distrib_right)
  show "exact_rounds k E start = ideal_rounds k E start"
    by (rule exact_rounds_ideal[OF m0 _ ve]) (use b in simp_all)
  have m: "magnitude (int k * int (length E) * ?w) (ideal_rounds k E start)" "length (ideal_rounds k E start) = nat n"
    using ideal_rounds_magnitude[OF m0 _ ve, of k] by (simp_all add: start_def)
  then show "magnitude (int k * int (length E) * 2147483648) (ideal_rounds k E start)"
    "length (ideal_rounds k E start) = nat n" by simp_all
  show "fold relax_edge es (False, ideal_rounds k E start) = fold ideal_edge es (False, ideal_rounds k E start)"
    if "length es \<le> length E" "set es \<subseteq> set E"
  proof (rule relax_fold_ideal[OF m(1)])
    show "\<forall>e \<in> set es. \<bar>ed_weight e\<bar> \<le> ?w \<and> valid_edge (int (length (ideal_rounds k E start))) e"
      using ve that(2) m(2) by (auto simp: start_def)
    have "int (length es) * ?w \<le> int (length E) * ?w" using that(1) by simp
    then show "int k * int (length E) * ?w + int (length es) * ?w < 9223372036854775807" using b by linarith
  qed simp
qed

section \<open>Claims\<close>

text \<open>The saturating cost of a walk, edge by edge.\<close>

definition path_cost :: "bf_edge list \<Rightarrow> int" where
  "path_cost p = foldl (\<lambda>a e. reference_cost_add a (ed_weight e)) 0 p"

lemma path_cost_sat: "path_cost p = foldl sat_step 0 p"
  unfolding path_cost_def
  by (induction p rule: rev_induct) (simp_all add: reference_sat sat_path_le)

lemma bellman_ford_valid:
  assumes "0 \<le> s" and "s < n" and "list_all (valid_edge n) E"
    and "relax_rounds (nat n - 1) E (incoming (nat n) E) ((replicate (nat n) ACCEL_INF)[nat s := 0], replicate (nat n) (- 1)) = (dist, pred)"
    and "relax_exact E (exact_rounds (nat n - 1) E ((replicate (nat n) None)[nat s := Some 0])) = (r, xs)"
  shows "BellmanFord n E s = \<lparr>sp_distance = dist, sp_predecessor = pred, sp_has_negative_cycle = r,
    sp_distance_saturated = \<not> r \<and> list_ex (\<lambda>v. case v of None \<Rightarrow> False | Some x \<Rightarrow> x < INT32_MIN) xs\<rparr>"
  using assms by (simp add: BellmanFord_def unreached_result_def)

lemma walk_end: "walk E u p v \<Longrightarrow> v \<in> set (stops u p)"
  by (induction p arbitrary: u) (auto simp: stops_def)

definition example_edges :: "bf_edge list" where
  "example_edges = [\<lparr>ed_from = 0, ed_to = 1, ed_weight = 4\<rparr>, \<lparr>ed_from = 1, ed_to = 2, ed_weight = - 2\<rparr>,
     \<lparr>ed_from = 0, ed_to = 2, ed_weight = 5\<rparr>]"

definition example_cycle :: "bf_edge list" where
  "example_cycle = [\<lparr>ed_from = 0, ed_to = 1, ed_weight = 1\<rparr>, \<lparr>ed_from = 1, ed_to = 0, ed_weight = - 2\<rparr>]"

lemma example_edges_valid: "list_all (valid_edge 3) example_edges"
  by code_simp

text \<open>
  C25: cycle detection is exact. For valid input with 32-bit weights within the bound of the header
  (the number of vertices times the number of edges is below \<open>2^32\<close>), \<open>has_negative_cycle\<close> is set if
  and only if a cycle of negative weight is reachable from the source through edges that are not
  structurally absent, and, when there is none, \<open>distance_saturated\<close> if and only if some walk from the
  source weighs less than \<open>INT32_MIN\<close>, although the pass adds in 64 bits.
\<close>

theorem bellman_ford_flags:
  assumes "0 \<le> s" and "s < n" and "list_all (valid_edge n) E"
    and "\<forall>e \<in> set E. - 2147483648 \<le> ed_weight e \<and> ed_weight e \<le> 2147483647"
    and "n * int (length E) < 2 ^ 32"
  shows "(sp_has_negative_cycle (BellmanFord n E s) \<longleftrightarrow> negative_cycle E s) \<and>
    (sp_distance_saturated (BellmanFord n E s) \<longleftrightarrow>
       \<not> negative_cycle E s \<and> (\<exists>p v. walk (usable_edges E) s p v \<and> weight p < INT32_MIN))"
proof -
  have ve: "\<forall>e \<in> set E. valid_edge n e" using assms(3) by (simp add: list_all_iff)
  obtain dist pred where r1: "relax_rounds (nat n - 1) E (incoming (nat n) E)
      ((replicate (nat n) ACCEL_INF)[nat s := 0], replicate (nat n) (- 1)) = (dist, pred)" by fastforce
  obtain r xs where r2: "relax_exact E (exact_rounds (nat n - 1) E ((replicate (nat n) None)[nat s := Some 0])) = (r, xs)" by fastforce
  note ideal = exact_pass_ideal[OF assms(1-5), of "nat n - 1", OF order_refl]
  have r2': "ideal_exact E (ideal_rounds (nat n - 1) E ((replicate (nat n) None)[nat s := Some 0])) = (r, xs)"
    using r2 ideal(1) ideal(2)[of E] by (simp add: relax_exact_def ideal_exact_def)
  note bf = bellman_ford_valid[OF assms(1-3) r1 r2] and flag = exact_flag[OF assms(1,2) ve r2']
  let ?d = "look None xs"
  have "list_ex (\<lambda>v. case v of None \<Rightarrow> False | Some x \<Rightarrow> x < INT32_MIN) xs \<longleftrightarrow>
      (\<exists>p v. walk (usable_edges E) s p v \<and> weight p < INT32_MIN)" (is "?l \<longleftrightarrow> ?r") if "\<not> r"
  proof
    have st: "ex.settled E s (nat n - 1) ?d" "length xs = nat n" "ex.lowers E ?d ?d" using flag(2)[OF that] by auto
    show ?r if ?l
    proof -
      from that obtain v x where v: "v < length xs" "xs ! v = Some x" "x < INT32_MIN"
        by (auto simp: list_ex_iff in_set_conv_nth split: option.splits)
      then have "?d (int v) = Some x" by (simp add: look_def)
      then obtain p where p: "walk E s p (int v)" "foldl exact_step (Some 0) p = Some x"
        using st(1) unfolding ex.settled_def ex.attained_def by (metis option.distinct(1))
      then show ?thesis using v(3) by (auto simp: exact_cost walk_usable split: if_splits)
    qed
    show ?l if ?r
    proof -
      from that obtain p v where p: "walk E s p v" "\<forall>e \<in> set p. ed_weight e \<noteq> ACCEL_INF" "weight p < INT32_MIN"
        by (auto simp: walk_usable)
      have v: "0 \<le> v" "v < n" using walk_stops[OF p(1) ve assms(1,2)] walk_end[OF p(1)] by auto
      have "ext_le (?d v) (Some (weight p))"
        using ex.fixpoint_bounded[OF st(3) _ p(1)] st(1) p(2) by (simp add: ex.settled_def exact_cost)
      then obtain x where "?d v = Some x" "x \<le> weight p" by (auto simp: ext_le_def split: option.splits)
      then show ?thesis using v st(2) p(3) by (auto simp: list_ex_iff look_def in_set_conv_nth intro!: bexI[of _ "Some x"] exI[of _ "nat v"])
    qed
  qed
  then show ?thesis using bf flag(1) by auto
qed

theorem bellman_ford_flags_witness: "negative_cycle example_cycle 0 \<and> \<not> sp_distance_saturated (BellmanFord 2 example_cycle 0)"
proof -
  have "list_all (valid_edge 2) example_cycle" "sp_has_negative_cycle (BellmanFord 2 example_cycle 0)" by code_simp+
  moreover have "\<forall>e \<in> set example_cycle. - 2147483648 \<le> ed_weight e \<and> ed_weight e \<le> 2147483647"
    "2 * int (length example_cycle) < 2 ^ 32" by (simp_all add: example_cycle_def)
  ultimately show ?thesis using bellman_ford_flags[of 0 2 example_cycle] by simp
qed

lemma distance_pass:
  assumes "0 \<le> s" and "s < n" and "\<forall>e \<in> set E. valid_edge n e"
    and "relax_rounds (nat n - 1) E (incoming (nat n) E) ((replicate (nat n) ACCEL_INF)[nat s := 0], replicate (nat n) (- 1)) = (dist, pred)"
  shows "pass_ok E s (nat n) (dist, pred)" and "sat.settled E s (nat n - 1) (look ACCEL_INF dist)"
proof -
  let ?d0 = "(replicate (nat n) ACCEL_INF)[nat s := 0]" and ?p0 = "replicate (nat n) (- 1 :: int)"
  have ven: "\<forall>e \<in> set E. valid_edge (int (nat n)) e" using assms(1-3) by simp
  have l0: "look ACCEL_INF ?d0 x = (if x = s then 0 else ACCEL_INF)" for x using assms(1,2) by (auto simp: look_def nth_list_update)
  have s0: "sat.settled E s 0 (look ACCEL_INF ?d0)" by (rule sat.settled_start) (rule l0)
  have "predecessor_ok E s (look ACCEL_INF ?d0) ?p0" by (simp add: predecessor_ok_def l0)
  moreover have "\<forall>x \<in> set ?d0. x \<le> ACCEL_INF" using inf_pos by (auto dest!: set_update_subset_insert[THEN subsetD])
  ultimately have ok0: "pass_ok E s (nat n) (?d0, ?p0)" using s0 by (simp add: pass_ok_def sat.settled_def)
  show "pass_ok E s (nat n) (dist, pred)" and "sat.settled E s (nat n - 1) (look ACCEL_INF dist)"
    using relax_rounds_settled[OF ven ok0 s0 assms(4)] by simp_all
qed

text \<open>
  C24: the distances. For valid input without a reachable negative cycle, the distance of every vertex is
  the least saturating cost of a walk from the source, \<open>ACCEL_INF\<close> when there is none. A vertex whose
  predecessor is \<open>-1\<close> has its initial distance, and every other predecessor is the start of an edge
  that attains the distance.
\<close>

theorem bellman_ford_distances:
  assumes "0 \<le> s" and "s < n" and "list_all (valid_edge n) E" and "\<not> negative_cycle E s" and "r = BellmanFord n E s" and "v < nat n"
  shows "(\<forall>p. walk E s p (int v) \<longrightarrow> sp_distance r ! v \<le> path_cost p) \<and>
    (sp_distance r ! v = ACCEL_INF \<or> (\<exists>p. walk E s p (int v) \<and> path_cost p = sp_distance r ! v)) \<and>
    (sp_predecessor r ! v = - 1 \<and> sp_distance r ! v = (if int v = s then 0 else ACCEL_INF) \<or>
     (\<exists>e \<in> set E. ed_to e = int v \<and> ed_from e = sp_predecessor r ! v \<and>
        sp_distance r ! v = reference_cost_add (sp_distance r ! nat (ed_from e)) (ed_weight e)))"
proof -
  have ve: "\<forall>e \<in> set E. valid_edge n e" using assms(3) by (simp add: list_all_iff)
  obtain dist pred where r1: "relax_rounds (nat n - 1) E (incoming (nat n) E)
      ((replicate (nat n) ACCEL_INF)[nat s := 0], replicate (nat n) (- 1)) = (dist, pred)" by fastforce
  obtain c xs where r2: "relax_exact E (exact_rounds (nat n - 1) E ((replicate (nat n) None)[nat s := Some 0])) = (c, xs)" by fastforce
  have r: "sp_distance r = dist" "sp_predecessor r = pred" using bellman_ford_valid[OF assms(1-3) r1 r2] assms(5) by simp_all
  note pass = distance_pass[OF assms(1,2) ve r1] and hl = sat_harmless[OF assms(4)]
  have ok: "length dist = nat n" "length pred = nat n" "\<forall>x \<in> set dist. x \<le> ACCEL_INF" "predecessor_ok E s (look ACCEL_INF dist) pred"
    using pass(1) by (simp_all add: pass_ok_def)
  let ?d = "look ACCEL_INF dist"
  have range: "?d x = dist ! nat x \<and> dist ! nat x \<le> ACCEL_INF" if "0 \<le> x" "x < n" for x
    using that ok(1,3) by (simp add: look_def)
  have at: "?d (int v) = dist ! v" "dist ! v \<le> ACCEL_INF" using range[of "int v"] assms(6) by auto
  have "dist ! v \<le> path_cost p" if "walk E s p (int v)" for p
    using sat.sweeps_bounded[OF pass(2) hl ve assms(1,2) that] at by (simp add: path_cost_sat sat_leD)
  moreover have "dist ! v = ACCEL_INF \<or> (\<exists>p. walk E s p (int v) \<and> path_cost p = dist ! v)"
    using pass(2) at(1) unfolding sat.settled_def sat.attained_def path_cost_sat by metis
  moreover have "dist ! v = reference_cost_add (dist ! nat (ed_from e)) (ed_weight e)"
    if e: "e \<in> set E" "ed_to e = int v" and le: "sat_le (sat_step (?d (ed_from e)) e) (?d (int v))" for e
  proof -
    have f: "?d (ed_from e) = dist ! nat (ed_from e)" "dist ! nat (ed_from e) \<le> ACCEL_INF"
      using ve e(1) range[of "ed_from e"] by (auto simp: valid_edge_def)
    have "sat_le (?d (int v)) (sat_step (?d (ed_from e)) e)"
      using sat.sweeps_fixpoint[OF pass(2) hl ve assms(1,2)] e unfolding sat.lowers_def by metis
    then have "dist ! v \<le> sat_step (dist ! nat (ed_from e)) e" using at f(1) by (simp add: sat_leD)
    moreover have "sat_step (dist ! nat (ed_from e)) e \<le> dist ! v" using le at f(1) sat_step_le by (simp add: sat_leD)
    ultimately show ?thesis using reference_sat[OF f(2)] by simp
  qed
  ultimately show ?thesis using ok(2,4) assms(6) at(1) unfolding r predecessor_ok_def by metis
qed

theorem bellman_ford_distances_witness:
  "sp_distance (BellmanFord 3 example_edges 0) ! 2 = 2 \<and> 2 \<le> path_cost [example_edges ! 2]"
proof -
  have "fst (ideal_exact example_edges (ideal_rounds (nat 3 - 1) example_edges ((replicate (nat 3) None)[nat 0 := Some 0]))) = False" by code_simp
  then obtain ys where "ideal_exact example_edges (ideal_rounds (nat 3 - 1) example_edges ((replicate (nat 3) None)[nat 0 := Some 0])) = (False, ys)"
    by (metis prod.collapse)
  from exact_flag(1)[OF _ _ _ this] have "\<not> negative_cycle example_edges 0" using example_edges_valid by (simp add: list_all_iff)
  moreover have "sp_distance (BellmanFord 3 example_edges 0) ! 2 = 2" by code_simp
  moreover have "walk example_edges 0 [example_edges ! 2] 2" by (simp add: example_edges_def)
  ultimately show ?thesis using bellman_ford_distances[OF _ _ example_edges_valid, of 0 _ 2] by auto
qed

text \<open>
  C31: the exact pass does not overflow. When the number of vertices times the number of edges is below
  \<open>2^32\<close>, as the header requires, every sum the exact relaxation computes, in any round and at any edge,
  lies strictly between the smallest and the largest \<open>int64_t\<close>, so it neither overflows nor equals the
  sentinel \<open>kUnreached\<close>.
\<close>

theorem exact_no_overflow:
  assumes "0 \<le> s" and "s < n" and "list_all (valid_edge n) E" and "\<forall>e \<in> set E. - 2147483648 \<le> ed_weight e \<and> ed_weight e \<le> 2147483647"
    and "n * int (length E) < 2 ^ 32" and "k \<le> nat n - 1" and "E = done_edges @ e # rest"
    and "snd (fold relax_edge done_edges (False, exact_rounds k E ((replicate (nat n) None)[nat s := Some 0]))) ! nat (ed_from e) = Some x"
  shows "- (2 ^ 63) < x + ed_weight e \<and> x + ed_weight e < 2 ^ 63 - 1"
proof -
  let ?w = "2147483648 :: int" and ?x0 = "(replicate (nat n) None)[nat s := Some (0 :: int)]"
  let ?xs = "ideal_rounds k E ?x0"
  note ideal = exact_pass_ideal[OF assms(1-6)]
  have vd: "\<forall>e \<in> set done_edges. \<bar>ed_weight e\<bar> \<le> ?w \<and> valid_edge (int (length ?xs)) e"
    unfolding ideal(4)
  proof
    fix d assume "d \<in> set done_edges"
    then have "d \<in> set E" using assms(7) by simp
    then have "valid_edge n d" "- 2147483648 \<le> ed_weight d \<and> ed_weight d \<le> 2147483647"
      using assms(3,4) by (auto simp: list_all_iff)
    then show "\<bar>ed_weight d\<bar> \<le> ?w \<and> valid_edge (int (nat n)) d" using assms(1,2) by auto
  qed
  let ?ys = "snd (fold ideal_edge done_edges (False, ?xs))"
  have same: "snd (fold relax_edge done_edges (False, exact_rounds k E ?x0)) = ?ys"
  proof -
    have "length done_edges \<le> length E" "set done_edges \<subseteq> set E" using assms(7) by auto
    from ideal(2)[OF this] show ?thesis by (simp add: ideal(1))
  qed
  have ys: "magnitude (int k * int (length E) * ?w + int (length done_edges) * ?w) ?ys" "length ?ys = nat n"
    using relax_fold_magnitude[OF ideal(3) vd, of False] ideal(4) by simp_all
  have e: "valid_edge n e" "\<bar>ed_weight e\<bar> \<le> ?w" using assms(1-4,7) by (auto simp: list_all_iff)
  then have "Some x \<in> set ?ys" using assms(8)[unfolded same] ys(2) by (auto simp: valid_edge_def in_set_conv_nth intro!: exI[of _ "nat (ed_from e)"])
  then have x: "\<bar>x\<bar> \<le> (int k * int (length E) + int (length done_edges)) * ?w" using ys(1) by (simp add: magnitude_def algebra_simps)
  have "int k * int (length E) + int (length done_edges) + 1 \<le> (int k + 1) * int (length E)"
    using assms(7) by (simp add: algebra_simps)
  also have "\<dots> \<le> n * int (length E)" using assms(1,2,6) by (intro mult_right_mono) auto
  finally have "(int k * int (length E) + int (length done_edges) + 1) * ?w \<le> (2 ^ 32 - 1) * ?w" using assms(5) by simp
  moreover have "\<bar>x + ed_weight e\<bar> \<le> (int k * int (length E) + int (length done_edges)) * ?w + ?w" using x e(2) by linarith
  ultimately have "\<bar>x + ed_weight e\<bar> \<le> 9223372034707292160" by (simp add: algebra_simps)
  then show ?thesis by auto
qed

theorem exact_no_overflow_witness: "- (2 ^ 63) < 4 + ed_weight (example_edges ! 1) \<and> 4 + ed_weight (example_edges ! 1) < (2 ^ 63 - 1 :: int)"
proof -
  have sp: "example_edges = [example_edges ! 0] @ example_edges ! 1 # [example_edges ! 2]" by (simp add: example_edges_def)
  have at: "snd (fold relax_edge [example_edges ! 0] (False, exact_rounds 0 example_edges ((replicate (nat 3) None)[nat 0 := Some 0]))) !
      nat (ed_from (example_edges ! 1)) = Some 4" by code_simp
  have w: "\<forall>e \<in> set example_edges. - 2147483648 \<le> ed_weight e \<and> ed_weight e \<le> 2147483647" "3 * int (length example_edges) < 2 ^ 32"
    by (simp_all add: example_edges_def)
  show ?thesis by (rule exact_no_overflow[OF _ _ example_edges_valid w _ sp at]) simp_all
qed

lemma reduce_first_min:
  assumes "0 < k" and "k \<le> length a"
  shows "fold (\<lambda>i result. let v = reference_cost_add (a ! i) (b ! i)
       in if snd result < 0 \<or> v < fst result then (v, int i) else result) [0..<k] (ACCEL_INF, - 1) =
    map_prod id int (first_min (map (\<lambda>i. reference_cost_add (a ! i) (b ! i)) [0..<k]))"
  using assms
proof (induction k)
  case (Suc k)
  let ?xs = "map (\<lambda>i. reference_cost_add (a ! i) (b ! i)) [0..<k]"
  show ?case
  proof (cases "k = 0")
    case True
    then show ?thesis by (simp add: first_min_def)
  next
    case False
    then show ?thesis using Suc first_min_snoc[of ?xs "reference_cost_add (a ! k) (b ! k)"]
      by (cases "first_min ?xs") (simp add: Let_def min_step_def)
  qed
qed simp

text \<open>
  C32: the probe's reduction is the accelerator's. On operands whose checked sums all succeed on the
  device, \<open>AddReduceMinArgmin\<close> returns the first minimum of these sums with its index, the value that
  \<open>MAP_ADD_REDUCE_MIN_ARGMIN\<close> stores.
\<close>

theorem probe_reduction_equivalent:
  assumes "a \<noteq> []" and "\<forall>i < length a. cost_add (a ! i) (b ! i) \<noteq> None"
  shows "AddReduceMinArgmin a b = map_prod id int (first_min (map (\<lambda>i. the (cost_add (a ! i) (b ! i))) [0..<length a]))"
proof -
  have "reference_cost_add x y = the (cost_add x y)" if "cost_add x y \<noteq> None" for x y
    using that by (auto simp: cost_add_eq reference_cost_add_def Let_def split: if_splits)
  then have eq: "map (\<lambda>i. reference_cost_add (a ! i) (b ! i)) [0..<length a] = map (\<lambda>i. the (cost_add (a ! i) (b ! i))) [0..<length a]"
    using assms(2) by simp
  have "AddReduceMinArgmin a b = map_prod id int (first_min (map (\<lambda>i. reference_cost_add (a ! i) (b ! i)) [0..<length a]))"
    unfolding AddReduceMinArgmin_def by (rule reduce_first_min) (use assms(1) in simp_all)
  then show ?thesis unfolding eq .
qed

theorem probe_reduction_equivalent_witness: "AddReduceMinArgmin [5, 1, 3] [0, 2, 0] = (3, 1)"
proof -
  have "\<forall>i < length [5, 1, 3 :: int]. cost_add ([5, 1, 3] ! i) ([0, 2, 0] ! i) \<noteq> None" by code_simp
  moreover have "first_min (map (\<lambda>i. the (cost_add ([5, 1, 3] ! i) ([0, 2, 0] ! i))) [0..<length [5, 1, 3 :: int]]) = (3, 1)"
    unfolding first_min_def by code_simp
  ultimately show ?thesis using probe_reduction_equivalent[of "[5, 1, 3]" "[0, 2, 0]"] by simp
qed

end
