(* ===== verification/Spec2Isabelle.thy ===== *)
theory Spec2Isabelle
  imports Graph_Runner_Correct Graph_Generator_Correct Kernel_Sound Kernel_Status Pbqp_Rn_Total Pbqp_Build Pbqp_Bruteforce Bellman_Ford_Correct
begin

text \<open>
  Verification of the programmable cost-algebra accelerator (PCAA) and of the PBQP solver that runs
  on it.

  \<^bold>\<open>The program.\<close> PCAA is a descriptor-driven device for signed 32-bit costs with an absorbing
  infinity. Host software builds semantic commands (\<open>pcaalib/src/pcaa.c\<close>), encodes them into compact
  little-endian descriptors (\<open>pcaalib/src/codec.c\<close>), places them in guest memory and rings a doorbell;
  the SystemC target (\<open>accelerator/src/accelerator.cpp\<close>) fetches, decodes and executes them in guest
  memory. The main client is a solver for partitioned Boolean quadratic problems
  (\<open>software/pbqp/pbqp.cpp\<close>): it reduces a graph (R0, R1, R2 and the heuristic RN), enumerates or
  branches over the rest, and sends its min-plus work through a table of kernel functions.

  \<^bold>\<open>Theories and the code they model\<close> (paths under \<open>src/\<close>).
  \<^item> \<open>Pcaa_Prelude\<close>: machine types, option-valued loops, the first-minimum loop, byte runs.
  \<^item> \<open>Cost_Math\<close>: \<open>accelerator/src/cost_math.cpp\<close>. A cost is an \<open>int\<close> in the range of \<open>int32_t\<close>; the
    64-bit sums of the source do not overflow on it.
  \<^item> \<open>Pcaa_Command\<close>, \<open>Codec\<close>, \<open>Pcaa_Lib\<close>: \<open>pcaa.h\<close>, \<open>accel_protocol.h\<close>, \<open>codec.c\<close>, \<open>pcaa.c\<close>,
    \<open>submission.c\<close> and \<open>device.c\<close>. \<open>Codec_Correct\<close> has the round trips.
  \<^item> \<open>Guest_Memory\<close>: the \<open>MemoryInterface\<close> and its contract as the locale \<open>guest_memory\<close>, interpreted
    on \<open>GuestMemory\<close> of \<open>tools/pbqp_model_kernel.cpp\<close> and on the Spike adapter.
  \<^item> \<open>Timing_Model\<close>: \<open>timing_model.cpp\<close>. \<open>Accelerator\<close>: \<open>accelerator.cpp\<close>, with the specification of
    the primitives in \<open>Accelerator_Correct\<close>, of batches in \<open>Accelerator_Batch\<close> and of the register
    interface in \<open>Accelerator_Mmio\<close>.
  \<^item> \<open>Pbqp_Statistics\<close>, \<open>Pbqp_Storage\<close>, \<open>Pbqp_Problem\<close>, \<open>Pbqp_Graph\<close>, \<open>Pbqp_Kernel\<close>, \<open>Pbqp_Reduce\<close>,
    \<open>Pbqp_Search\<close>, \<open>Pbqp_Solver\<close>: \<open>pbqp.h\<close>, \<open>pbqp_storage.cpp\<close> and \<open>pbqp.cpp\<close>, in the order of the
    code. \<open>Pbqp_Build\<close> and \<open>Pbqp_Bruteforce\<close> hold the facts on the builders and on the oracle.
  \<^item> \<open>Systemc_Device\<close>: \<open>pcaalib/src/systemc_device.cpp\<close>, the host side of the register protocol, with the
    wiring to the accelerator; \<open>Systemc_Correct\<close> composes it with the codec, the facade and the device.
  \<^item> \<open>Model_Kernel\<close>: the class \<open>ModelKernel\<close> of \<open>tools/pbqp_model_kernel.cpp\<close>, which runs the primitives of
    the solver on the device. \<open>Kernel_Staging\<close> has the staging area (fresh blocks, copies, frozen bytes),
    \<open>Kernel_Run\<close> what a submitted batch does to the bytes, \<open>Kernel_Calls\<close> the commands on staged operands,
    \<open>Kernel_Jobs\<close> and \<open>Kernel_Scores\<close> the inductions over the jobs of a call, \<open>Kernel_Sound\<close> the contract of
    the solver with its interpretation, and \<open>Kernel_Status\<close> the statuses of failed calls.
  \<^item> \<open>Graph_Text\<close>, \<open>Graph_Generator\<close>, \<open>Graph_Runner\<close>: the text format and loader of \<open>tools/pbqp_run.cpp\<close>, the generator
    \<open>workload/src/graph_generator.cpp\<close> with its printer \<open>tools/pbqp_graph_generate.cpp\<close>, and the runner that loads,
    builds, solves and prints; their properties are in the theories of the same name with \<open>_Correct\<close>.
  \<^item> \<open>Bellman_Ford\<close>: \<open>probes/src/bellman_ford.cpp\<close>, the shortest-path probe, with the locale
    \<open>relaxation\<close> that both of its passes instantiate in \<open>Bellman_Ford_Correct\<close>.

  \<^bold>\<open>Conventions.\<close>
  \<^item> A pointer that may be null is an option; an out-parameter is an option cell that is returned
    updated; a function with a status returns the status and the new state. A failed call that leaves a
    cell alone returns it unchanged.
  \<^item> Guest addresses, lengths and strides keep their width as words where the code computes with them.
    Domain sizes and indices of a problem are naturals bounded by the capacities of the problem; the
    hypotheses bound these so that no \<open>unsigned\<close> product wraps around (\<open>shape_ok\<close>).
  \<^item> An allocator is a predicate on the requested size (does the host grant it); every failed request
    is a branch of the model. A kernel is a table of functions on an abstract context that may fail at
    any call.
  \<^item> Loops of the code are structural recursions or folds. The reduction loop and branch and reduce
    take fuel, and \<open>pbqp_solver_solve\<close> gives them one unit per node and one more: every iteration and
    every branch deactivates a node. The unbounded loop of local descent is a \<open>partial_function\<close> into
    options; every accepted move lowers a well-founded measure. \<open>solver_returns\<close> states that no
    solve runs out of fuel or descends forever.

  \<^bold>\<open>Interfaces.\<close> \<open>guest_memory\<close> (what the device needs of memory), \<open>cost_kernel\<close> and
  \<open>total_kernel\<close> (what the solver needs of a kernel: a call that succeeds returns the first minimum of
  the sums) with \<open>heuristic_kernel\<close> for the RN entries. The solver theorems are proved once for every
  kernel and rest on the interpretation for the software kernel where they claim success.

  \<^bold>\<open>What is shown.\<close>
  \<^item> The codec is a bijection between accepted commands and their descriptors; sizes and spans do not
    wrap around; a stream is encoded as a whole or not at all.
  \<^item> Every primitive computes the first minimum of checked sums of its original operands, whatever the
    aliasing, and writes nothing else; a batch runs the encoded commands in order, stops at the first
    failure, and cannot overwrite its own descriptors. A doorbell always completes.
  \<^item> The exact strategies return an optimal assignment with its cost and agree with brute force; the
    heuristic ones return a valid assignment with its exact cost, local search a local optimum; every
    solve returns, also with failing kernels and allocators. Graphs built through the public functions
    satisfy the hypotheses of these theorems.
  \<^item> A command or batch submitted through the host facade and the SystemC adapter, followed by a wait,
    runs on the accelerator, and the returned status and completion record say exactly what ran.
  \<^item> The hosted kernel refines the contract of the solver, so an exact solve on the accelerator never
    reports success with a worse assignment; failed kernel calls carry a nonzero status.
  \<^item> From file to output: the loader accepts only valid graphs, the built problem has exactly the costs of
    the text, an exact run prints the optimum of the text, and every run ends. The generator makes
    well-formed graphs of the stated families, which the loader reads back unchanged.
  \<^item> The probe finds the least saturating distances; within the bound of its header its 64-bit pass does
    not overflow and detects negative cycles and saturation exactly; its reduction agrees with the accelerator's.

  \<^bold>\<open>Not modelled.\<close>
  \<^item> The structural L2 model, a cycle-level machine of simulator threads for the same commands, and the
    bare-metal drivers, volatile register accesses and fences on RV64 hardware.
  \<^item> The statistics the runner prints on the error stream, its L2 build, and its launcher: output only.
  \<^item> The TLM delay argument of the functional target, verbose logging, the registration of the Spike
    plugin, and tests and benchmarks: glue and measurement.
\<close>

end
